(* ===== verification/Prelude.thy ===== *)
theory Prelude
  imports Main "HOL-Library.Word" "HOL-Library.AList"
begin

text \<open>
  Shared vocabulary of the development: the machine types of the Go sources, big-endian
  access to byte slices (\<open>encoding/binary\<close>), Go durations, decimal printing
  (\<open>strconv.Itoa\<close>), Go maps as association lists, and the generic interfaces the
  components are proved against:

  \<^item> \<open>guarded_system\<close>: a step function with an invariant, and what a whole run keeps;
  \<^item> \<open>keyed_store\<close>: a table with insert, find and delete, and the laws a client may use;
  \<^item> \<open>fifo_queue\<close>: a queue that may refuse, and the order in which it delivers;
  \<^item> \<open>lockstep\<close>: a program that gives the answers of a specification;
  \<^item> \<open>wire_codec\<close>: an encoder with a decoder that reads back what was encoded.
\<close>

unbundle bit_operations_syntax

named_theorems codec_simps \<open>equations that evaluate the wire encoders and decoders\<close>
named_theorems step_defs \<open>definitions of the operations of the state machines\<close>

section \<open>Machine types and byte order\<close>

type_synonym byte = "8 word"
type_synonym u16 = "16 word"
type_synonym u32 = "32 word"
type_synonym u64 = "64 word"
type_synonym bytes = "byte list"

text \<open>
  \<open>binary.BigEndian.PutUint16\<close>, \<open>Uint16\<close>, \<open>PutUint32\<close> and \<open>Uint32\<close>. The readers are
  only called on slices whose length the caller has checked.
\<close>

definition put_u16 :: "u16 \<Rightarrow> bytes" where
  "put_u16 v = [ucast (drop_bit 8 v), ucast v]"

definition get_u16 :: "bytes \<Rightarrow> u16" where
  "get_u16 b = ucast (b ! 1) OR push_bit 8 (ucast (b ! 0))"

definition put_u32 :: "u32 \<Rightarrow> bytes" where
  "put_u32 v = [ucast (drop_bit 24 v), ucast (drop_bit 16 v), ucast (drop_bit 8 v), ucast v]"

definition get_u32 :: "bytes \<Rightarrow> u32" where
  "get_u32 b = ucast (b ! 3) OR push_bit 8 (ucast (b ! 2))
     OR push_bit 16 (ucast (b ! 1)) OR push_bit 24 (ucast (b ! 0))"

lemma length_put_u16 [simp]: "length (put_u16 v) = 2"
  by (simp add: put_u16_def)

lemma length_put_u32 [simp]: "length (put_u32 v) = 4"
  by (simp add: put_u32_def)

lemma get_put_u16 [simp]: "get_u16 (put_u16 v) = v"
  by (rule bit_word_eqI)
     (auto simp: get_u16_def put_u16_def bit_or_iff bit_push_bit_iff bit_ucast_iff
        bit_drop_bit_eq not_le)

lemma get_put_u16_append [simp]: "get_u16 (put_u16 v @ xs) = v"
proof -
  have "get_u16 (put_u16 v @ xs) = get_u16 (put_u16 v)"
    by (simp add: get_u16_def put_u16_def)
  then show ?thesis by simp
qed

lemma get_put_u32 [simp]: "get_u32 (put_u32 v) = v"
proof (rule bit_word_eqI)
  fix n
  assume n: "n < LENGTH(32)"
  then have "n < 32" by simp
  then consider "n < 8" | "8 \<le> n" "n < 16" | "16 \<le> n" "n < 24" | "24 \<le> n" "n < 32"
    by linarith
  then show "bit (get_u32 (put_u32 v)) n = bit v n"
    by cases (auto simp: get_u32_def put_u32_def bit_or_iff bit_push_bit_iff bit_ucast_iff
        bit_drop_bit_eq not_le)
qed

lemma get_put_u32_append [simp]: "get_u32 (put_u32 v @ xs) = v"
proof -
  have "get_u32 (put_u32 v @ xs) = get_u32 (put_u32 v)"
    by (simp add: get_u32_def put_u32_def)
  then show ?thesis by simp
qed

section \<open>Durations and numbers\<close>

text \<open>\<open>time.Duration\<close> counts nanoseconds. The code never gets near the 64-bit limit.\<close>

type_synonym duration = int

abbreviation nanosecond :: duration where "nanosecond \<equiv> 1"
abbreviation millisecond :: duration where "millisecond \<equiv> 1000000"
abbreviation second :: duration where "second \<equiv> 1000000000"
abbreviation minute :: duration where "minute \<equiv> 60000000000"
abbreviation hour :: duration where "hour \<equiv> 3600000000000"

text \<open>\<open>strconv.Itoa\<close>.\<close>

definition digit_char :: "nat \<Rightarrow> char" where
  "digit_char d = char_of (48 + d)"

fun itoa_nat :: "nat \<Rightarrow> string" where
  "itoa_nat n = (if n < 10 then [digit_char n] else itoa_nat (n div 10) @ [digit_char (n mod 10)])"

declare itoa_nat.simps [simp del]

definition itoa :: "int \<Rightarrow> string" where
  "itoa i = (if i < 0 then CHR ''-'' # itoa_nat (nat (- i)) else itoa_nat (nat i))"

definition char_digit :: "char \<Rightarrow> nat" where
  "char_digit c = of_char c - 48"

definition digits_value :: "string \<Rightarrow> nat" where
  "digits_value s = foldl (\<lambda>a c. 10 * a + char_digit c) 0 s"

lemma char_digit_char [simp]: "d < 10 \<Longrightarrow> char_digit (digit_char d) = d"
  by (simp add: char_digit_def digit_char_def)

lemma digits_value_itoa_nat [simp]: "digits_value (itoa_nat n) = n"
proof (induction n rule: itoa_nat.induct)
  case (1 n)
  show ?case
  proof (cases "n < 10")
    case True
    then show ?thesis by (simp add: itoa_nat.simps [of n] digits_value_def)
  next
    case False
    with "1.IH" have "digits_value (itoa_nat (n div 10)) = n div 10" by simp
    with False show ?thesis by (simp add: itoa_nat.simps [of n] digits_value_def)
  qed
qed

lemma itoa_nat_inject [simp]: "itoa_nat m = itoa_nat n \<longleftrightarrow> m = n"
  by (metis digits_value_itoa_nat)

lemma itoa_nat_digits: "c \<in> set (itoa_nat n) \<Longrightarrow> \<exists>d<10. c = digit_char d"
proof (induction n rule: itoa_nat.induct)
  case (1 n)
  show ?case
  proof (cases "n < 10")
    case True
    with "1.prems" show ?thesis by (auto simp: itoa_nat.simps [of n])
  next
    case False
    with "1.prems" have "c \<in> set (itoa_nat (n div 10)) \<or> c = digit_char (n mod 10)"
      by (auto simp: itoa_nat.simps [of n])
    then show ?thesis
    proof
      assume "c \<in> set (itoa_nat (n div 10))"
      then show ?thesis by (rule "1.IH" [OF False])
    next
      assume "c = digit_char (n mod 10)"
      moreover have "n mod 10 < 10" by simp
      ultimately show ?thesis by blast
    qed
  qed
qed

lemma digit_char_not_separator: "d < 10 \<Longrightarrow> digit_char d \<noteq> CHR ''.'' \<and> digit_char d \<noteq> CHR '':''"
proof -
  assume "d < 10"
  then have "d \<in> {0,1,2,3,4,5,6,7,8,9}" by auto
  then show ?thesis by (auto simp: digit_char_def char_of_def)
qed

lemma itoa_nat_no_dot: "CHR ''.'' \<notin> set (itoa_nat n)"
  using itoa_nat_digits digit_char_not_separator by metis

text \<open>Two texts that agree up to the first separator agree on both sides of it.\<close>

lemma split_at_separator:
  assumes "xs @ c # ys = xs' @ c # ys'" and "c \<notin> set xs" and "c \<notin> set xs'"
  shows "xs = xs' \<and> ys = ys'"
  using assms
proof (induction xs arbitrary: xs')
  case Nil
  then show ?case by (cases xs') auto
next
  case (Cons x xs)
  then show ?case by (cases xs') auto
qed

text \<open>Updating one element of a heap keeps every projection the update does not touch.\<close>

lemma nth_list_update_any: "xs[i := x] ! j = (if i = j \<and> i < length xs then x else xs ! j)"
  by (cases "i < length xs") (auto simp: nth_list_update list_update_beyond)

lemma nth_update_proj: "f (g (xs ! i)) = f (xs ! i) \<Longrightarrow> f (xs[i := g (xs ! i)] ! j) = f (xs ! j)"
  by (auto simp: nth_list_update_any)

section \<open>Go maps\<close>

text \<open>
  A Go map is an association list with distinct keys; \<open>m[k] = v\<close> is \<open>AList.update\<close>,
  \<open>delete(m, k)\<close> is \<open>AList.delete\<close>. Go iterates over a map in no fixed order: the
  theorems hold for every association list, hence for every order.
\<close>

type_synonym ('k, 'v) gomap = "('k \<times> 'v) list"

definition gomap_ok :: "('k, 'v) gomap \<Rightarrow> bool" where
  "gomap_ok m \<longleftrightarrow> distinct (map fst m)"

lemma gomap_ok_Nil [simp]: "gomap_ok []"
  by (simp add: gomap_ok_def)

lemma gomap_ok_update [simp]: "gomap_ok m \<Longrightarrow> gomap_ok (AList.update k v m)"
  by (simp add: gomap_ok_def distinct_update)

lemma gomap_ok_delete [simp]: "gomap_ok m \<Longrightarrow> gomap_ok (AList.delete k m)"
  by (simp add: gomap_ok_def distinct_delete)

lemma gomap_find_update: "map_of (AList.update k v m) k' = (if k' = k then Some v else map_of m k')"
  by (simp add: update_conv')

lemma gomap_find_delete: "map_of (AList.delete k m) k' = (if k' = k then None else map_of m k')"
  by (simp add: delete_conv')

lemma gomap_mem_update:
  "gomap_ok m \<Longrightarrow> (k', v') \<in> set (AList.update k v m) \<longleftrightarrow>
     (if k' = k then v' = v else (k', v') \<in> set m)"
proof -
  assume ok: "gomap_ok m"
  then have "gomap_ok (AList.update k v m)" by simp
  then have "(k', v') \<in> set (AList.update k v m) \<longleftrightarrow> map_of (AList.update k v m) k' = Some v'"
    by (simp add: gomap_ok_def)
  also have "\<dots> \<longleftrightarrow> (if k' = k then v' = v else map_of m k' = Some v')"
    by (auto simp: gomap_find_update)
  also have "\<dots> \<longleftrightarrow> (if k' = k then v' = v else (k', v') \<in> set m)"
    using ok by (simp add: gomap_ok_def)
  finally show ?thesis .
qed

lemma gomap_mem_delete [simp]: "(k', v') \<in> set (AList.delete k m) \<longleftrightarrow> k' \<noteq> k \<and> (k', v') \<in> set m"
  by (induction m) auto

lemma gomap_find_iff: "gomap_ok m \<Longrightarrow> map_of m k = Some v \<longleftrightarrow> (k, v) \<in> set m"
  by (simp add: gomap_ok_def)

lemmas gomap_simps = gomap_find_update gomap_find_delete

section \<open>Interfaces\<close>

text \<open>
  A step function with an invariant: the invariant survives any sequence of steps, and so
  does anything it implies.
\<close>

locale guarded_system =
  fixes step :: "'s \<Rightarrow> 'e \<Rightarrow> 's" and inv :: "'s \<Rightarrow> bool"
  assumes step_inv: "inv s \<Longrightarrow> inv (step s e)"
begin

lemma run_inv: "inv s \<Longrightarrow> inv (foldl step s es)"
  by (induction es arbitrary: s) (auto simp: step_inv)

lemma run_implies: "inv s \<Longrightarrow> (\<And>t. inv t \<Longrightarrow> P t) \<Longrightarrow> P (foldl step s es)"
  using run_inv by blast

lemma run_prefix_inv: "inv s \<Longrightarrow> inv (foldl step s (take n es))"
  by (rule run_inv)

end

text \<open>
  A step that may fail (a Go panic): \<open>run_opt\<close> stops at the first failure. Under an
  invariant that every step keeps without failing, no run fails.
\<close>

fun run_opt :: "('s \<Rightarrow> 'e \<Rightarrow> 's option) \<Rightarrow> 's \<Rightarrow> 'e list \<Rightarrow> 's option" where
  "run_opt step s [] = Some s"
| "run_opt step s (e # es) = (case step s e of None \<Rightarrow> None | Some s' \<Rightarrow> run_opt step s' es)"

lemma run_opt_append:
  "run_opt step s (es @ fs) = (case run_opt step s es of None \<Rightarrow> None | Some s' \<Rightarrow> run_opt step s' fs)"
  by (induction es arbitrary: s) (auto split: option.splits)

locale unfailing_system =
  fixes pstep :: "'s \<Rightarrow> 'e \<Rightarrow> 's option" and pinv :: "'s \<Rightarrow> bool"
  assumes pstep_ok: "pinv s \<Longrightarrow> \<exists>s'. pstep s e = Some s' \<and> pinv s'"
begin

lemma run_ok: "pinv s \<Longrightarrow> \<exists>s'. run_opt pstep s es = Some s' \<and> pinv s'"
proof (induction es arbitrary: s)
  case Nil
  then show ?case by simp
next
  case (Cons e es)
  from pstep_ok [OF Cons.prems, of e] obtain s' where "pstep s e = Some s'" "pinv s'" by blast
  with Cons.IH show ?case by simp
qed

lemma never_fails: "pinv s \<Longrightarrow> run_opt pstep s es \<noteq> None"
  using run_ok by force

end

text \<open>
  A keyed table. Entries are addressed by values of type \<open>'a\<close> whose \<open>key\<close> is what the
  table compares. The client lemmas say that an insertion is visible until the key is written
  again or deleted, and that operations on other keys do not interfere.
\<close>

locale keyed_store =
  fixes key :: "'a \<Rightarrow> 'k" and ins :: "'t \<Rightarrow> 'a \<Rightarrow> 'v \<Rightarrow> 't"
    and look :: "'t \<Rightarrow> 'a \<Rightarrow> 'v option" and del :: "'t \<Rightarrow> 'a \<Rightarrow> 't"
  assumes look_ins: "look (ins t a v) b = (if key b = key a then Some v else look t b)"
    and look_del: "look (del t a) b = (if key b = key a then None else look t b)"
begin

lemma look_after_ins: "look (ins t a v) a = Some v"
  by (simp add: look_ins)

lemma look_after_del: "look (del (ins t a v) b) a = None \<longleftrightarrow> key a = key b"
  by (simp add: look_ins look_del)

lemma ins_del_other: "key a \<noteq> key b \<Longrightarrow> look (del (ins t a v) b) a = Some v"
  by (simp add: look_ins look_del)

lemma ins_overwrites: "look (ins (ins t a v) a v') a = Some v'"
  by (simp add: look_ins)

lemma look_key: "key a = key b \<Longrightarrow> look (ins t c v) a = look (ins t c v) b \<longleftrightarrow> key a = key c \<or> look t a = look t b"
  by (auto simp: look_ins)

lemma look_ins_many:
  "look (foldl (\<lambda>t (a, v). ins t a v) t avs) b =
     (case map_of (rev (map (\<lambda>(a, v). (key a, v)) avs)) (key b) of None \<Rightarrow> look t b | Some v \<Rightarrow> Some v)"
proof (induction avs rule: rev_induct)
  case Nil
  then show ?case by simp
next
  case (snoc av avs)
  then show ?case by (cases av) (simp add: look_ins)
qed

end

text \<open>An encoder and the decoder that reads it back, on the values the code accepts.\<close>

locale wire_codec =
  fixes enc :: "'a \<Rightarrow> 'w" and dec :: "'w \<Rightarrow> 'e + 'a" and valid :: "'a \<Rightarrow> bool"
  assumes dec_enc: "valid x \<Longrightarrow> dec (enc x) = Inr x"
begin

lemma enc_inject: "valid x \<Longrightarrow> valid y \<Longrightarrow> enc x = enc y \<Longrightarrow> x = y"
  using dec_enc by (metis Inr_inject)

lemma dec_onto: "valid x \<Longrightarrow> \<exists>w. dec w = Inr x"
  using dec_enc by blast

end

text \<open>
  A queue that may refuse an element. \<open>fifo_run\<close> collects what was accepted and what was delivered over a sequence
  of operations; a provider that keeps a relation to a list of elements delivers them in order.
\<close>

datatype 'p queue_op = Enqueue 'p | Dequeue

fun fifo_run :: "('p \<Rightarrow> 's \<Rightarrow> bool \<times> 's) \<Rightarrow> ('s \<Rightarrow> 'p option \<times> 's) \<Rightarrow> 's \<Rightarrow> 'p queue_op list \<Rightarrow> 'p list \<times> 'p list \<times> 's" where
  "fifo_run push pull s [] = ([], [], s)"
| "fifo_run push pull s (Enqueue p # ops) =
     (let (ok, s') = push p s; (acc, del, t) = fifo_run push pull s' ops in (if ok then p # acc else acc, del, t))"
| "fifo_run push pull s (Dequeue # ops) =
     (let (r, s') = pull s; (acc, del, t) = fifo_run push pull s' ops
      in (acc, case r of None \<Rightarrow> del | Some p \<Rightarrow> p # del, t))"

locale fifo_queue =
  fixes qrel :: "'s \<Rightarrow> 'p list \<Rightarrow> bool" and push :: "'p \<Rightarrow> 's \<Rightarrow> bool \<times> 's" and pull :: "'s \<Rightarrow> 'p option \<times> 's"
  assumes push_rel: "qrel s q \<Longrightarrow> \<exists>ok s'. push p s = (ok, s') \<and> qrel s' (if ok then q @ [p] else q)"
    and pull_rel: "qrel s q \<Longrightarrow> \<exists>s'. pull s = (case q of [] \<Rightarrow> None | p # _ \<Rightarrow> Some p, s') \<and> qrel s' (tl q)"
begin

lemma run_in_order:
  "qrel s q \<Longrightarrow> \<exists>acc del s' q'. fifo_run push pull s ops = (acc, del, s') \<and> qrel s' q' \<and> q @ acc = del @ q'"
proof (induction ops arbitrary: s q)
  case Nil
  then show ?case by auto
next
  case (Cons x ops)
  show ?case
  proof (cases x)
    case (Enqueue p)
    from push_rel [OF Cons.prems, of p] obtain ok s1 where 1: "push p s = (ok, s1)" "qrel s1 (if ok then q @ [p] else q)" by blast
    from Cons.IH [OF 1(2)] show ?thesis using 1(1) Enqueue by (cases ok) auto
  next
    case Dequeue
    from pull_rel [OF Cons.prems] obtain s1 where 1: "pull s = (case q of [] \<Rightarrow> None | p # _ \<Rightarrow> Some p, s1)" "qrel s1 (tl q)" by blast
    from Cons.IH [OF 1(2)] show ?thesis using 1(1) Dequeue by (cases q) auto
  qed
qed

end

text \<open>
  A program that answers every event and the specification of its answers, in lock step: related states give equal
  answers and related states, so no run fails and all answers are those of the specification.
\<close>

fun run_answers :: "('s \<Rightarrow> 'e \<Rightarrow> ('o \<times> 's) option) \<Rightarrow> 's \<Rightarrow> 'e list \<Rightarrow> ('o list \<times> 's) option" where
  "run_answers step s [] = Some ([], s)"
| "run_answers step s (e # es) = (case step s e of
       None \<Rightarrow> None
     | Some (x, s') \<Rightarrow> map_option (\<lambda>(xs, t). (x # xs, t)) (run_answers step s' es))"

fun spec_answers :: "('a \<Rightarrow> 'e \<Rightarrow> 'o \<times> 'a) \<Rightarrow> 'a \<Rightarrow> 'e list \<Rightarrow> 'o list \<times> 'a" where
  "spec_answers spec a [] = ([], a)"
| "spec_answers spec a (e # es) =
     (let (x, a') = spec a e; (xs, t) = spec_answers spec a' es in (x # xs, t))"

locale lockstep =
  fixes step :: "'s \<Rightarrow> 'e \<Rightarrow> ('o \<times> 's) option" and spec :: "'a \<Rightarrow> 'e \<Rightarrow> 'o \<times> 'a" and related :: "'s \<Rightarrow> 'a \<Rightarrow> bool"
  assumes lock: "related s a \<Longrightarrow> \<exists>s'. step s e = Some (fst (spec a e), s') \<and> related s' (snd (spec a e))"
begin

lemma answers_agree:
  "related s a \<Longrightarrow> \<exists>s'. run_answers step s es = Some (fst (spec_answers spec a es), s') \<and> related s' (snd (spec_answers spec a es))"
proof (induction es arbitrary: s a)
  case Nil
  then show ?case by simp
next
  case (Cons e es)
  from lock [OF Cons.prems, of e] obtain s1 where 1: "step s e = Some (fst (spec a e), s1)" "related s1 (snd (spec a e))" by blast
  from Cons.IH [OF 1(2)] 1(1) show ?case by (auto simp: split_beta)
qed

end

end
