(* ===== verification/GoNet.thy ===== *)
theory GoNet
  imports Prelude
begin

text \<open>
  Network addresses as the TURN code sees them: \<open>net.IP\<close> and \<open>net.Addr\<close> of the Go
  standard library, and the helpers of \<open>lib/pion-turn/internal/ipnet/util.go\<close> that compare
  addresses and turn them into map keys. The main facts: two addresses that
  \<open>AddrEqual\<close> accepts have the same fingerprint, and on IPv4 the fingerprint
  determines the address, so a permission keyed by it belongs to exactly one IP.
\<close>

section \<open>IP addresses\<close>

text \<open>
  \<open>net.IP\<close> is a byte slice of length 4 or 16; a 16-byte address may carry an IPv4 address
  after the prefix \<open>v4InV6Prefix\<close>.
\<close>

type_synonym ip = bytes

definition v4InV6Prefix :: bytes where
  "v4InV6Prefix = [0, 0, 0, 0, 0, 0, 0, 0, 0, 0, 0xff, 0xff]"

definition ip_To4 :: "ip \<Rightarrow> ip option" where
  "ip_To4 x =
     (if length x = 4 then Some x
      else if length x = 16 \<and> take 12 x = v4InV6Prefix then Some (drop 12 x)
      else None)"

definition ip_Equal :: "ip \<Rightarrow> ip \<Rightarrow> bool" where
  "ip_Equal x y =
     (if length x = length y then x = y
      else if length x = 4 \<and> length y = 16 then take 12 y = v4InV6Prefix \<and> x = drop 12 y
      else if length x = 16 \<and> length y = 4 then take 12 x = v4InV6Prefix \<and> drop 12 x = y
      else False)"

text \<open>
  \<open>IP.String\<close>: dotted decimal for IPv4, RFC 5952 hexadecimal groups for IPv6 with the first
  longest run of at least two zero groups written as two colons, \<open>?\<close> and the raw
  hexadecimal digits for any other length.
\<close>

definition hex_char :: "nat \<Rightarrow> char" where
  "hex_char d = (if d < 10 then char_of (48 + d) else char_of (87 + d))"

fun hex_nat :: "nat \<Rightarrow> string" where
  "hex_nat n = (if n < 16 then [hex_char n] else hex_nat (n div 16) @ [hex_char (n mod 16)])"

declare hex_nat.simps [simp del]

definition hex_byte :: "byte \<Rightarrow> string" where
  "hex_byte b = [hex_char (unat b div 16), hex_char (unat b mod 16)]"

definition dotted :: "ip \<Rightarrow> string" where
  "dotted x = itoa_nat (unat (x ! 0)) @ ''.'' @ itoa_nat (unat (x ! 1)) @ ''.''
     @ itoa_nat (unat (x ! 2)) @ ''.'' @ itoa_nat (unat (x ! 3))"

definition ip_group :: "ip \<Rightarrow> nat \<Rightarrow> nat" where
  "ip_group x i = 256 * unat (x ! (2 * i)) + unat (x ! (2 * i + 1))"

text \<open>The run of zero groups that starts at group \<open>i\<close>, and the first longest one.\<close>

definition zero_run :: "ip \<Rightarrow> nat \<Rightarrow> nat" where
  "zero_run x i = length (takeWhile (\<lambda>j. ip_group x j = 0) [i..<8])"

definition longest_zero_run :: "ip \<Rightarrow> nat \<times> nat" where
  "longest_zero_run x =
     foldl (\<lambda>(s, e) i. let l = zero_run x i in if 2 \<le> l \<and> e - s < l then (i, i + l) else (s, e))
       (255, 255) [0..<8]"

definition colon_groups :: "ip \<Rightarrow> nat list \<Rightarrow> string" where
  "colon_groups x is =
     concat (map (\<lambda>i. (if i = hd is then [] else '':'') @ hex_nat (ip_group x i)) is)"

definition ip6_string :: "ip \<Rightarrow> string" where
  "ip6_string x =
     (case longest_zero_run x of (s, e) \<Rightarrow>
        if s = 255 then colon_groups x [0..<8]
        else colon_groups x [0..<s] @ ''::'' @ colon_groups x [e..<8])"

definition ip_String :: "ip \<Rightarrow> string" where
  "ip_String x =
     (if x = [] then ''<nil>''
      else if length x \<noteq> 4 \<and> length x \<noteq> 16 then CHR ''?'' # concat (map hex_byte x)
      else case ip_To4 x of Some v4 \<Rightarrow> dotted v4 | None \<Rightarrow> ip6_string x)"

section \<open>Transport addresses\<close>

text \<open>
  The \<open>net.Addr\<close> values the TURN code distinguishes: a UDP address, a TCP address (IP,
  port, zone), and any other implementation, known by its string only.
\<close>

datatype net_addr = UDPAddr ip int string | TCPAddr ip int string | OtherAddr string

definition joinHostPort :: "string \<Rightarrow> string \<Rightarrow> string" where
  "joinHostPort host port =
     (if CHR '':'' \<in> set host then ''['' @ host @ '']:'' @ port else host @ '':'' @ port)"

definition ipport_String :: "ip \<Rightarrow> int \<Rightarrow> string \<Rightarrow> string" where
  "ipport_String x port zone =
     (let host = (if x = [] then [] else ip_String x)
      in joinHostPort (if zone \<noteq> [] then host @ ''%'' @ zone else host) (itoa port))"

fun addr_String :: "net_addr \<Rightarrow> string" where
  "addr_String (UDPAddr x port zone) = ipport_String x port zone"
| "addr_String (TCPAddr x port zone) = ipport_String x port zone"
| "addr_String (OtherAddr s) = s"

section \<open>The helpers of package ipnet\<close>

datatype ipnet_error = errFailedToCastAddr

fun AddrIPPort :: "net_addr \<Rightarrow> ipnet_error + ip \<times> int" where
  "AddrIPPort (UDPAddr x port zone) = Inr (x, port)"
| "AddrIPPort (TCPAddr x port zone) = Inr (x, port)"
| "AddrIPPort (OtherAddr s) = Inl errFailedToCastAddr"

fun AddrEqual :: "net_addr \<Rightarrow> net_addr \<Rightarrow> bool" where
  "AddrEqual (UDPAddr x p z) (UDPAddr y q w) = (ip_Equal x y \<and> p = q)"
| "AddrEqual a b = False"

fun FingerprintAddr :: "net_addr \<Rightarrow> string" where
  "FingerprintAddr (UDPAddr x port zone) = ip_String x"
| "FingerprintAddr (TCPAddr x port zone) = ip_String x"
| "FingerprintAddr (OtherAddr s) = []"

section \<open>Facts\<close>

lemma ip_To4_length: "ip_To4 x = Some y \<Longrightarrow> length y = 4"
  by (auto simp: ip_To4_def split: if_splits)

lemma ip_Equal_refl [simp]: "ip_Equal x x"
  by (simp add: ip_Equal_def)

lemma ip_Equal_sym: "ip_Equal x y \<Longrightarrow> ip_Equal y x"
  by (auto simp: ip_Equal_def split: if_splits)

text \<open>A 16-byte address that carries the IPv4 prefix is determined by its last four bytes.\<close>

lemma v4_mapped_eq:
  "take 12 x = v4InV6Prefix \<Longrightarrow> take 12 y = v4InV6Prefix \<Longrightarrow> drop 12 x = drop 12 y \<Longrightarrow> x = y"
  by (metis append_take_drop_id)

lemma ip_Equal_To4:
  "ip_Equal x y \<Longrightarrow> x = y \<or> (\<exists>v. ip_To4 x = Some v \<and> ip_To4 y = Some v \<and> x \<noteq> [] \<and> y \<noteq> []
     \<and> (length x = 4 \<or> length x = 16) \<and> (length y = 4 \<or> length y = 16))"
  by (auto simp: ip_Equal_def ip_To4_def split: if_splits)

lemma ip_Equal_iff_To4:
  assumes "ip_To4 x = Some v" and "ip_To4 y = Some w"
  shows "ip_Equal x y \<longleftrightarrow> v = w"
  using assms v4_mapped_eq [of x y]
  by (auto simp: ip_Equal_def ip_To4_def split: if_splits)

lemma ip_Equal_trans: "ip_Equal x y \<Longrightarrow> ip_Equal y z \<Longrightarrow> ip_Equal x z"
proof -
  assume xy: "ip_Equal x y" and yz: "ip_Equal y z"
  show ?thesis
  proof (cases "x = y \<or> y = z")
    case True
    with xy yz show ?thesis by auto
  next
    case False
    with xy yz obtain v w where "ip_To4 x = Some v" "ip_To4 y = Some v"
        "ip_To4 y = Some w" "ip_To4 z = Some w"
      using ip_Equal_To4 [OF xy] ip_Equal_To4 [OF yz] by auto
    then show ?thesis by (simp add: ip_Equal_iff_To4)
  qed
qed

lemma ip_Equal_String: "ip_Equal x y \<Longrightarrow> ip_String x = ip_String y"
  using ip_Equal_To4 [of x y] by (auto simp: ip_String_def)

lemma AddrEqual_sym: "AddrEqual a b \<Longrightarrow> AddrEqual b a"
  by (cases a; cases b) (auto intro: ip_Equal_sym)

lemma AddrEqual_trans: "AddrEqual a b \<Longrightarrow> AddrEqual b c \<Longrightarrow> AddrEqual a c"
  by (cases a; cases b; cases c) (auto intro: ip_Equal_trans)

lemma AddrEqual_UDP: "AddrEqual a b \<Longrightarrow> (\<exists>x p z. a = UDPAddr x p z) \<and> (\<exists>y q w. b = UDPAddr y q w)"
  by (cases a; cases b) auto

lemma AddrEqual_fingerprint: "AddrEqual a b \<Longrightarrow> FingerprintAddr a = FingerprintAddr b"
  by (cases a; cases b) (auto intro: ip_Equal_String)

lemma AddrEqual_refl_UDP [simp]: "AddrEqual (UDPAddr x p z) (UDPAddr x p z)"
  by simp

text \<open>Dotted decimal determines the four bytes.\<close>

lemma dotted_inject:
  assumes "dotted x = dotted y" and "length x = 4" and "length y = 4"
  shows "x = y"
proof -
  note nd = itoa_nat_no_dot
  from assms(1) have
    a: "itoa_nat (unat (x ! 0)) @ CHR ''.'' # itoa_nat (unat (x ! 1)) @ CHR ''.'' #
          itoa_nat (unat (x ! 2)) @ CHR ''.'' # itoa_nat (unat (x ! 3)) =
        itoa_nat (unat (y ! 0)) @ CHR ''.'' # itoa_nat (unat (y ! 1)) @ CHR ''.'' #
          itoa_nat (unat (y ! 2)) @ CHR ''.'' # itoa_nat (unat (y ! 3))"
    by (simp add: dotted_def)
  note b = split_at_separator [OF a nd nd]
  note c = split_at_separator [OF conjunct2 [OF b] nd nd]
  note d = split_at_separator [OF conjunct2 [OF c] nd nd]
  from b c d have "x ! 0 = y ! 0" "x ! 1 = y ! 1" "x ! 2 = y ! 2" "x ! 3 = y ! 3"
    by (simp_all add: word_unat_eq_iff)
  then have "\<forall>i<4. x ! i = y ! i"
    by (auto simp: less_Suc_eq numeral_eq_Suc)
  with assms(2,3) show ?thesis by (simp add: list_eq_iff_nth_eq)
qed

lemma ip_String_v4_inject:
  assumes "ip_String x = ip_String y" and "ip_To4 x = Some v" and "ip_To4 y = Some w"
  shows "ip_Equal x y"
proof -
  have nz: "x \<noteq> []" "y \<noteq> []" "length x = 4 \<or> length x = 16" "length y = 4 \<or> length y = 16"
    using assms(2,3) by (auto simp: ip_To4_def split: if_splits)
  with assms have "dotted v = dotted w" by (auto simp: ip_String_def)
  then have "v = w" using assms(2,3) ip_To4_length dotted_inject by blast
  with assms(2,3) show ?thesis by (simp add: ip_Equal_iff_To4)
qed

end
