(* ===== verification/TurnProto.thy ===== *)
theory TurnProto
  imports GoNet
begin

text \<open>
  The TURN wire formats of \<open>lib/pion-turn/internal/proto\<close>: ChannelData messages and the
  STUN attributes of RFC 5766. STUN messages themselves belong to the \<open>pion/stun\<close> package,
  which is not part of the repository: its accessors are the fields of \<open>stun_lib\<close>, a
  parameter of every definition that calls them, and the documented behaviour the code
  relies on is the predicate \<open>stun_laws\<close>. The results are the encode/decode round trips,
  the behaviour of the ChannelData decoder on every input, and its agreement with the
  quick test \<open>IsChannelData\<close> that demultiplexes packets.
\<close>

section \<open>The STUN package as a parameter\<close>

datatype stun_attr =
    AttrChannelNumber | AttrLifetime | AttrXORPeerAddress | AttrData | AttrXORRelayedAddress
  | AttrEvenPort | AttrRequestedTransport | AttrDontFragment | AttrReservationToken
  | AttrRequestedAddressFamily | AttrConnectionID | AttrMessageIntegrity

datatype stun_class = ClassRequest | ClassIndication | ClassSuccessResponse | ClassErrorResponse

datatype stun_method =
    MethodBinding | MethodAllocate | MethodRefresh | MethodSend | MethodData
  | MethodCreatePermission | MethodChannelBind | MethodConnect | MethodConnectionBind
  | MethodConnectionAttempt | MethodOther nat

datatype proto_error =
    StunError string
  | ErrUnexpectedEOF
  | ErrInvalidChannelNumber
  | ErrBadChannelDataLength
  | ErrInvalidRequestedFamilyValue

record 'm stun_lib =
  m_Get :: "'m \<Rightarrow> stun_attr \<Rightarrow> string + bytes"
  m_Add :: "'m \<Rightarrow> stun_attr \<Rightarrow> bytes \<Rightarrow> 'm"
  CheckSize :: "stun_attr \<Rightarrow> nat \<Rightarrow> nat \<Rightarrow> string option"
  XORGetFromAs :: "'m \<Rightarrow> stun_attr \<Rightarrow> string + ip \<times> int"
  XORAddToAs :: "'m \<Rightarrow> stun_attr \<Rightarrow> ip \<times> int \<Rightarrow> string + 'm"

text \<open>
  \<open>Message.Get\<close> returns the first attribute of the given type, so an attribute added to a
  message that has none of its type is the one found; \<open>CheckSize\<close> reports an error exactly
  when the sizes differ; \<open>XORMappedAddress\<close> reads back what it wrote.
\<close>

definition stun_laws :: "'m stun_lib \<Rightarrow> bool" where
  "stun_laws L \<longleftrightarrow>
     (\<forall>m t v. (\<exists>e. m_Get L m t = Inl e) \<longrightarrow> m_Get L (m_Add L m t v) t = Inr v) \<and>
     (\<forall>m t t' v. t' \<noteq> t \<longrightarrow> m_Get L (m_Add L m t v) t' = m_Get L m t') \<and>
     (\<forall>t n k. CheckSize L t n k = None \<longleftrightarrow> n = k) \<and>
     (\<forall>m t a m'. (\<exists>e. XORGetFromAs L m t = Inl e) \<longrightarrow> XORAddToAs L m t a = Inr m' \<longrightarrow>
        XORGetFromAs L m' t = Inr a)"

text \<open>What every \<open>GetFrom\<close> does first: fetch the attribute and check its size.\<close>

definition get_sized :: "'m stun_lib \<Rightarrow> 'm \<Rightarrow> stun_attr \<Rightarrow> nat \<Rightarrow> proto_error + bytes" where
  "get_sized L m t sz =
     (case m_Get L m t of
        Inl e \<Rightarrow> Inl (StunError e)
      | Inr v \<Rightarrow> (case CheckSize L t (length v) sz of
                   Some e \<Rightarrow> Inl (StunError e)
                 | None \<Rightarrow> Inr v))"

section \<open>Channel numbers\<close>

type_synonym ChannelNumber = u16

definition channelNumberSize :: nat where "channelNumberSize = 4"
definition MinChannelNumber :: u16 where "MinChannelNumber = 0x4000"
definition MaxChannelNumber :: u16 where "MaxChannelNumber = 0x7FFF"

definition isChannelNumberValid :: "u16 \<Rightarrow> bool" where
  "isChannelNumberValid c \<longleftrightarrow> MinChannelNumber \<le> c \<and> c \<le> MaxChannelNumber"

definition ChannelNumber_Valid :: "ChannelNumber \<Rightarrow> bool" where
  "ChannelNumber_Valid n = isChannelNumberValid n"

definition ChannelNumber_String :: "ChannelNumber \<Rightarrow> string" where
  "ChannelNumber_String n = itoa (uint n)"

definition ChannelNumber_AddTo :: "'m stun_lib \<Rightarrow> ChannelNumber \<Rightarrow> 'm \<Rightarrow> 'm" where
  "ChannelNumber_AddTo L n m = m_Add L m AttrChannelNumber (put_u16 n @ [0, 0])"

definition ChannelNumber_GetFrom :: "'m stun_lib \<Rightarrow> 'm \<Rightarrow> proto_error + ChannelNumber" where
  "ChannelNumber_GetFrom L m =
     (case get_sized L m AttrChannelNumber channelNumberSize of
        Inl e \<Rightarrow> Inl e | Inr v \<Rightarrow> Inr (get_u16 (take 2 v)))"

section \<open>ChannelData messages\<close>

text \<open>
  \<open>Raw\<close> is a Go slice: \<open>Raw\<close> holds the bytes up to its length and \<open>RawSpare\<close> the
  bytes between its length and its capacity, which a reslice makes visible again. A slice
  that \<open>append\<close> had to move has zero bytes there, which is what an empty spare part
  yields when it grows again.
\<close>

record ChannelData =
  Data :: bytes
  Length :: int
  Number :: ChannelNumber
  Raw :: bytes
  RawSpare :: bytes

definition channelDataLengthSize :: nat where "channelDataLengthSize = 2"
definition channelDataNumberSize :: nat where "channelDataNumberSize = channelDataLengthSize"
definition channelDataHeaderSize :: nat where
  "channelDataHeaderSize = channelDataLengthSize + channelDataNumberSize"

lemmas channelData_sizes [codec_simps] =
  channelDataLengthSize_def channelDataNumberSize_def channelDataHeaderSize_def

text \<open>\<open>s = s[:n]\<close> and \<open>s = append(s, xs...)\<close> on the pair of visible and spare bytes.\<close>

definition raw_reslice :: "nat \<Rightarrow> ChannelData \<Rightarrow> ChannelData" where
  "raw_reslice n c =
     c\<lparr>Raw := take n (Raw c @ RawSpare c), RawSpare := drop n (Raw c @ RawSpare c)\<rparr>"

definition raw_append :: "bytes \<Rightarrow> ChannelData \<Rightarrow> ChannelData" where
  "raw_append xs c = c\<lparr>Raw := Raw c @ xs, RawSpare := drop (length xs) (RawSpare c)\<rparr>"

definition cd_grow :: "nat \<Rightarrow> ChannelData \<Rightarrow> ChannelData" where
  "cd_grow v c =
     (let n = length (Raw c) + v
      in if length (Raw c @ RawSpare c) < n then c\<lparr>Raw := Raw c @ replicate v 0, RawSpare := []\<rparr>
         else raw_reslice n c)"

definition cd_Reset :: "ChannelData \<Rightarrow> ChannelData" where
  "cd_Reset c = (raw_reslice 0 c)\<lparr>Length := 0, Data := []\<rparr>"

definition nearestPaddedValueLength :: "nat \<Rightarrow> nat" where
  "nearestPaddedValueLength l =
     (let n = 4 * (l div 4) in if n < l then n + 4 else n)"

definition cd_WriteHeader :: "ChannelData \<Rightarrow> ChannelData" where
  "cd_WriteHeader c =
     (let c1 = (if length (Raw c) < channelDataHeaderSize then cd_grow channelDataHeaderSize c else c)
      in c1\<lparr>Raw := put_u16 (Number c1) @ put_u16 (of_nat (length (Data c1)))
              @ drop channelDataHeaderSize (Raw c1)\<rparr>)"

definition cd_Encode :: "ChannelData \<Rightarrow> ChannelData" where
  "cd_Encode c =
     (let c1 = cd_WriteHeader (raw_reslice 0 c);
          c2 = raw_append (Data c1) c1;
          padded = nearestPaddedValueLength (length (Raw c2))
      in raw_append (replicate (padded - length (Raw c2)) 0) c2)"

text \<open>
  \<open>Decode\<close> writes the fields as it goes, also on the paths that end in an error, so the
  model returns the object and the error.
\<close>

definition cd_Decode :: "ChannelData \<Rightarrow> ChannelData \<times> proto_error option" where
  "cd_Decode c =
     (let buf = Raw c
      in if length buf < channelDataHeaderSize then (c, Some ErrUnexpectedEOF)
         else
           let num = get_u16 (take channelDataNumberSize buf);
               l = get_u16 (drop channelDataNumberSize (take channelDataHeaderSize buf));
               c1 = c\<lparr>Number := num, Data := drop channelDataHeaderSize buf, Length := uint l\<rparr>
           in if \<not> ChannelNumber_Valid (Number c1) then (c1, Some ErrInvalidChannelNumber)
              else
                let c2 = (if unat l < length (Data c1) then c1\<lparr>Data := take (unat l) (Data c1)\<rparr> else c1)
                in if length (drop channelDataHeaderSize buf) < unat l
                   then (c2, Some ErrBadChannelDataLength)
                   else (c2, None))"

definition cd_Equal :: "ChannelData option \<Rightarrow> ChannelData option \<Rightarrow> bool" where
  "cd_Equal c b =
     (case (c, b) of
        (None, None) \<Rightarrow> True
      | (Some c, Some b) \<Rightarrow>
          (if Number c \<noteq> Number b then False
           else if length (Data c) \<noteq> length (Data b) then False
           else Data c = Data b)
      | _ \<Rightarrow> False)"

definition IsChannelData :: "bytes \<Rightarrow> bool" where
  "IsChannelData buf =
     (if length buf < channelDataHeaderSize then False
      else if unat (get_u16 (drop channelDataNumberSize (take channelDataHeaderSize buf)))
                > length (drop channelDataHeaderSize buf) then False
      else isChannelNumberValid (get_u16 (take channelNumberSize buf)))"

section \<open>The attributes\<close>

text \<open>
  LIFETIME carries whole seconds. \<open>uint32(l.Seconds())\<close> goes through a 64-bit float, which is
  exact for the durations the code stores: whole seconds read from a message, and its own
  constants.
\<close>

type_synonym Lifetime = duration

definition DefaultLifetime :: duration where "DefaultLifetime = minute * 10"
definition lifetimeSize :: nat where "lifetimeSize = 4"

definition Lifetime_AddTo :: "'m stun_lib \<Rightarrow> Lifetime \<Rightarrow> 'm \<Rightarrow> 'm" where
  "Lifetime_AddTo L l m = m_Add L m AttrLifetime (put_u32 (word_of_int (l div second)))"

definition Lifetime_GetFrom :: "'m stun_lib \<Rightarrow> 'm \<Rightarrow> proto_error + Lifetime" where
  "Lifetime_GetFrom L m =
     (case get_sized L m AttrLifetime lifetimeSize of
        Inl e \<Rightarrow> Inl e | Inr v \<Rightarrow> Inr (second * uint (get_u32 v)))"

record EvenPort =
  ReservePort :: bool

definition evenPortSize :: nat where "evenPortSize = 1"
definition firstBitSet :: byte where "firstBitSet = 255"

definition EvenPort_String :: "EvenPort \<Rightarrow> string" where
  "EvenPort_String p = (if ReservePort p then ''reserve: true'' else ''reserve: false'')"

definition EvenPort_AddTo :: "'m stun_lib \<Rightarrow> EvenPort \<Rightarrow> 'm \<Rightarrow> 'm" where
  "EvenPort_AddTo L p m = m_Add L m AttrEvenPort [if ReservePort p then firstBitSet else 0]"

text \<open>\<open>GetFrom\<close> only ever sets the flag of its receiver, it never clears it.\<close>

definition EvenPort_GetFrom :: "'m stun_lib \<Rightarrow> EvenPort \<Rightarrow> 'm \<Rightarrow> proto_error + EvenPort" where
  "EvenPort_GetFrom L p m =
     (case get_sized L m AttrEvenPort evenPortSize of
        Inl e \<Rightarrow> Inl e
      | Inr v \<Rightarrow> Inr (if v ! 0 AND firstBitSet > 0 then p\<lparr>ReservePort := True\<rparr> else p))"

type_synonym Protocol = byte

definition ProtoTCP :: Protocol where "ProtoTCP = 6"
definition ProtoUDP :: Protocol where "ProtoUDP = 17"

definition Protocol_String :: "Protocol \<Rightarrow> string" where
  "Protocol_String p =
     (if p = ProtoTCP then ''TCP'' else if p = ProtoUDP then ''UDP'' else itoa (uint p))"

record RequestedTransport =
  rt_Protocol :: Protocol

definition requestedTransportSize :: nat where "requestedTransportSize = 4"

definition RequestedTransport_String :: "RequestedTransport \<Rightarrow> string" where
  "RequestedTransport_String t = ''protocol: '' @ Protocol_String (rt_Protocol t)"

definition RequestedTransport_AddTo :: "'m stun_lib \<Rightarrow> RequestedTransport \<Rightarrow> 'm \<Rightarrow> 'm" where
  "RequestedTransport_AddTo L t m = m_Add L m AttrRequestedTransport [rt_Protocol t, 0, 0, 0]"

definition RequestedTransport_GetFrom :: "'m stun_lib \<Rightarrow> 'm \<Rightarrow> proto_error + RequestedTransport" where
  "RequestedTransport_GetFrom L m =
     (case get_sized L m AttrRequestedTransport requestedTransportSize of
        Inl e \<Rightarrow> Inl e | Inr v \<Rightarrow> Inr \<lparr>rt_Protocol = v ! 0\<rparr>)"

type_synonym RequestedAddressFamily = byte

definition requestedFamilySize :: nat where "requestedFamilySize = 4"
definition RequestedFamilyIPv4 :: RequestedAddressFamily where "RequestedFamilyIPv4 = 1"
definition RequestedFamilyIPv6 :: RequestedAddressFamily where "RequestedFamilyIPv6 = 2"

definition RequestedAddressFamily_String :: "RequestedAddressFamily \<Rightarrow> string" where
  "RequestedAddressFamily_String f =
     (if f = RequestedFamilyIPv4 then ''IPv4''
      else if f = RequestedFamilyIPv6 then ''IPv6'' else ''unknown'')"

definition RequestedAddressFamily_AddTo :: "'m stun_lib \<Rightarrow> RequestedAddressFamily \<Rightarrow> 'm \<Rightarrow> 'm" where
  "RequestedAddressFamily_AddTo L f m = m_Add L m AttrRequestedAddressFamily [f, 0, 0, 0]"

definition RequestedAddressFamily_GetFrom ::
    "'m stun_lib \<Rightarrow> 'm \<Rightarrow> proto_error + RequestedAddressFamily" where
  "RequestedAddressFamily_GetFrom L m =
     (case get_sized L m AttrRequestedAddressFamily requestedFamilySize of
        Inl e \<Rightarrow> Inl e
      | Inr v \<Rightarrow> (if v ! 0 = RequestedFamilyIPv4 \<or> v ! 0 = RequestedFamilyIPv6 then Inr (v ! 0)
                 else Inl ErrInvalidRequestedFamilyValue))"

type_synonym ReservationToken = bytes

definition reservationTokenSize :: nat where "reservationTokenSize = 8"

definition ReservationToken_AddTo :: "'m stun_lib \<Rightarrow> ReservationToken \<Rightarrow> 'm \<Rightarrow> proto_error + 'm" where
  "ReservationToken_AddTo L t m =
     (case CheckSize L AttrReservationToken (length t) reservationTokenSize of
        Some e \<Rightarrow> Inl (StunError e) | None \<Rightarrow> Inr (m_Add L m AttrReservationToken t))"

definition ReservationToken_GetFrom :: "'m stun_lib \<Rightarrow> 'm \<Rightarrow> proto_error + ReservationToken" where
  "ReservationToken_GetFrom L m = get_sized L m AttrReservationToken reservationTokenSize"

type_synonym ConnectionID = u32

definition connectionIDSize :: nat where "connectionIDSize = 4"

definition ConnectionID_AddTo :: "'m stun_lib \<Rightarrow> ConnectionID \<Rightarrow> 'm \<Rightarrow> 'm" where
  "ConnectionID_AddTo L c m = m_Add L m AttrConnectionID (put_u32 c)"

definition ConnectionID_GetFrom :: "'m stun_lib \<Rightarrow> 'm \<Rightarrow> proto_error + ConnectionID" where
  "ConnectionID_GetFrom L m =
     (case get_sized L m AttrConnectionID connectionIDSize of
        Inl e \<Rightarrow> Inl e | Inr v \<Rightarrow> Inr (get_u32 v))"

definition Data_AddTo :: "'m stun_lib \<Rightarrow> bytes \<Rightarrow> 'm \<Rightarrow> 'm" where
  "Data_AddTo L d m = m_Add L m AttrData d"

definition Data_GetFrom :: "'m stun_lib \<Rightarrow> 'm \<Rightarrow> proto_error + bytes" where
  "Data_GetFrom L m = (case m_Get L m AttrData of Inl e \<Rightarrow> Inl (StunError e) | Inr v \<Rightarrow> Inr v)"

definition DontFragment_AddTo :: "'m stun_lib \<Rightarrow> 'm \<Rightarrow> 'm" where
  "DontFragment_AddTo L m = m_Add L m AttrDontFragment []"

definition DontFragment_GetFrom :: "'m stun_lib \<Rightarrow> 'm \<Rightarrow> proto_error option" where
  "DontFragment_GetFrom L m =
     (case m_Get L m AttrDontFragment of
        Inl e \<Rightarrow> Some (StunError e)
      | Inr v \<Rightarrow> map_option StunError (CheckSize L AttrDontFragment (length v) 0))"

definition DontFragment_IsSet :: "'m stun_lib \<Rightarrow> 'm \<Rightarrow> bool" where
  "DontFragment_IsSet L m = (case m_Get L m AttrDontFragment of Inl _ \<Rightarrow> False | Inr _ \<Rightarrow> True)"

record PeerAddress =
  pa_IP :: ip
  pa_Port :: int

definition PeerAddress_AddTo :: "'m stun_lib \<Rightarrow> PeerAddress \<Rightarrow> 'm \<Rightarrow> proto_error + 'm" where
  "PeerAddress_AddTo L a m =
     (case XORAddToAs L m AttrXORPeerAddress (pa_IP a, pa_Port a) of
        Inl e \<Rightarrow> Inl (StunError e) | Inr m' \<Rightarrow> Inr m')"

definition PeerAddress_GetFrom :: "'m stun_lib \<Rightarrow> 'm \<Rightarrow> proto_error + PeerAddress" where
  "PeerAddress_GetFrom L m =
     (case XORGetFromAs L m AttrXORPeerAddress of
        Inl e \<Rightarrow> Inl (StunError e) | Inr (i, p) \<Rightarrow> Inr \<lparr>pa_IP = i, pa_Port = p\<rparr>)"

record RelayedAddress =
  ra_IP :: ip
  ra_Port :: int

definition RelayedAddress_AddTo :: "'m stun_lib \<Rightarrow> RelayedAddress \<Rightarrow> 'm \<Rightarrow> proto_error + 'm" where
  "RelayedAddress_AddTo L a m =
     (case XORAddToAs L m AttrXORRelayedAddress (ra_IP a, ra_Port a) of
        Inl e \<Rightarrow> Inl (StunError e) | Inr m' \<Rightarrow> Inr m')"

definition RelayedAddress_GetFrom :: "'m stun_lib \<Rightarrow> 'm \<Rightarrow> proto_error + RelayedAddress" where
  "RelayedAddress_GetFrom L m =
     (case XORGetFromAs L m AttrXORRelayedAddress of
        Inl e \<Rightarrow> Inl (StunError e) | Inr (i, p) \<Rightarrow> Inr \<lparr>ra_IP = i, ra_Port = p\<rparr>)"

section \<open>Addresses and five-tuples of package proto\<close>

record proto_Addr =
  IP :: ip
  Port :: int

fun proto_Addr_FromUDPAddr :: "net_addr \<Rightarrow> proto_Addr option" where
  "proto_Addr_FromUDPAddr (UDPAddr x p z) = Some \<lparr>IP = x, Port = p\<rparr>"
| "proto_Addr_FromUDPAddr _ = None"

definition proto_Addr_EqualIP :: "proto_Addr \<Rightarrow> proto_Addr \<Rightarrow> bool" where
  "proto_Addr_EqualIP a b = ip_Equal (IP a) (IP b)"

definition proto_Addr_Equal :: "proto_Addr \<Rightarrow> proto_Addr \<Rightarrow> bool" where
  "proto_Addr_Equal a b = (if Port a \<noteq> Port b then False else ip_Equal (IP a) (IP b))"

definition proto_Addr_String :: "proto_Addr \<Rightarrow> string" where
  "proto_Addr_String a = ip_String (IP a) @ '':'' @ itoa (Port a)"

record proto_FiveTuple =
  Client :: proto_Addr
  Server :: proto_Addr
  Proto :: Protocol

definition proto_FiveTuple_String :: "proto_FiveTuple \<Rightarrow> string" where
  "proto_FiveTuple_String t =
     proto_Addr_String (Client t) @ ''->'' @ proto_Addr_String (Server t)
       @ '' ('' @ Protocol_String (Proto t) @ '')''"

definition proto_FiveTuple_Equal :: "proto_FiveTuple \<Rightarrow> proto_FiveTuple \<Rightarrow> bool" where
  "proto_FiveTuple_Equal t b =
     (if Proto t \<noteq> Proto b then False
      else if \<not> proto_Addr_Equal (Client t) (Client b) then False
      else if \<not> proto_Addr_Equal (Server t) (Server b) then False
      else True)"

section \<open>ChannelData: what the codec guarantees\<close>

abbreviation new_ChannelData :: "ChannelNumber \<Rightarrow> bytes \<Rightarrow> ChannelData" where
  "new_ChannelData n d \<equiv> \<lparr>Data = d, Length = 0, Number = n, Raw = [], RawSpare = []\<rparr>"

abbreviation raw_ChannelData :: "bytes \<Rightarrow> ChannelData" where
  "raw_ChannelData b \<equiv> \<lparr>Data = [], Length = 0, Number = 0, Raw = b, RawSpare = []\<rparr>"

abbreviation cd_padding :: "nat \<Rightarrow> nat" where
  "cd_padding n \<equiv> nearestPaddedValueLength (4 + n) - (4 + n)"

lemma nearestPadded_bounds:
  "l \<le> nearestPaddedValueLength l" "nearestPaddedValueLength l < l + 4" "4 dvd nearestPaddedValueLength l"
  by (auto simp: nearestPaddedValueLength_def Let_def)

lemma cd_padding_small: "cd_padding n < 4"
  using nearestPadded_bounds(1,2) [of "4 + n"] by linarith

lemma cd_WriteHeader_empty:
  "Raw (cd_WriteHeader (raw_reslice 0 c)) = put_u16 (Number c) @ put_u16 (of_nat (length (Data c)))"
  by (simp add: cd_WriteHeader_def cd_grow_def raw_reslice_def Let_def channelData_sizes)

lemma cd_WriteHeader_fields [simp]:
  "Data (cd_WriteHeader c) = Data c" "Number (cd_WriteHeader c) = Number c"
  by (simp_all add: cd_WriteHeader_def cd_grow_def raw_reslice_def Let_def)

lemma raw_ops_fields [simp]:
  "Data (raw_reslice n c) = Data c" "Number (raw_reslice n c) = Number c"
  "Data (raw_append xs c) = Data c" "Number (raw_append xs c) = Number c"
  by (simp_all add: raw_reslice_def raw_append_def)

lemma raw_append_Raw [simp]: "Raw (raw_append xs c) = Raw c @ xs"
  by (simp add: raw_append_def)

text \<open>The encoding depends on the number and the data only, not on what the buffer held.\<close>

lemma cd_Encode_Raw:
  "Raw (cd_Encode c) = put_u16 (Number c) @ put_u16 (of_nat (length (Data c))) @ Data c
     @ replicate (cd_padding (length (Data c))) 0"
  by (simp add: cd_Encode_def Let_def cd_WriteHeader_empty)

lemma cd_Encode_length: "length (Raw (cd_Encode c)) = nearestPaddedValueLength (4 + length (Data c))"
  using nearestPadded_bounds(1) [of "4 + length (Data c)"] by (simp add: cd_Encode_Raw)

lemma get_u16_take [simp]: "2 \<le> n \<Longrightarrow> get_u16 (take n b) = get_u16 b"
  by (simp add: get_u16_def)

text \<open>The decoder's three parts of a long enough buffer.\<close>

abbreviation cd_num :: "bytes \<Rightarrow> u16" where "cd_num b \<equiv> get_u16 b"
abbreviation cd_len :: "bytes \<Rightarrow> u16" where "cd_len b \<equiv> get_u16 (drop 2 b)"
abbreviation cd_body :: "bytes \<Rightarrow> bytes" where "cd_body b \<equiv> drop 4 b"

lemma get_u16_drop_take: "4 \<le> length b \<Longrightarrow> get_u16 (drop 2 (take 4 b)) = cd_len b"
  by (simp add: get_u16_def)

lemma cd_Decode_eq:
  "cd_Decode c =
     (if length (Raw c) < 4 then (c, Some ErrUnexpectedEOF)
      else if \<not> isChannelNumberValid (cd_num (Raw c)) then
        (c\<lparr>Number := cd_num (Raw c), Data := cd_body (Raw c), Length := uint (cd_len (Raw c))\<rparr>,
         Some ErrInvalidChannelNumber)
      else
        (c\<lparr>Number := cd_num (Raw c), Data := take (unat (cd_len (Raw c))) (cd_body (Raw c)),
           Length := uint (cd_len (Raw c))\<rparr>,
         if length (cd_body (Raw c)) < unat (cd_len (Raw c)) then Some ErrBadChannelDataLength else None))"
  by (auto simp: cd_Decode_def Let_def channelData_sizes ChannelNumber_Valid_def get_u16_drop_take)

lemma IsChannelData_eq:
  "IsChannelData b \<longleftrightarrow> 4 \<le> length b \<and> unat (cd_len b) \<le> length (cd_body b) \<and> isChannelNumberValid (cd_num b)"
  by (auto simp: IsChannelData_def channelData_sizes channelNumberSize_def get_u16_drop_take not_less)

lemma put_get_u16: "put_u16 (get_u16 [a, b]) = [a, b]"
proof -
  have 1: "ucast (drop_bit 8 (get_u16 [a, b])) = a"
    by (rule bit_word_eqI)
       (auto simp: get_u16_def bit_or_iff bit_push_bit_iff bit_ucast_iff bit_drop_bit_eq
          dest: bit_imp_le_length)
  have 2: "ucast (get_u16 [a, b]) = b"
    by (rule bit_word_eqI)
       (auto simp: get_u16_def bit_or_iff bit_push_bit_iff bit_ucast_iff)
  from 1 2 show ?thesis by (simp add: put_u16_def)
qed

lemma take4_is_header:
  assumes "4 \<le> length b"
  shows "take 4 b = put_u16 (cd_num b) @ put_u16 (cd_len b)"
proof -
  from assms obtain x y z w r where b: "b = x # y # z # w # r"
    by (metis One_nat_def Suc_le_length_iff numeral_3_eq_3 numeral_eq_Suc pred_numeral_simps(2)
        semiring_norm(26,27))
  have "cd_num b = get_u16 [x, y]" "cd_len b = get_u16 [z, w]"
    by (simp_all add: b get_u16_def)
  then show ?thesis by (simp add: b put_get_u16)
qed

lemma channel_data_back:
  assumes "isChannelNumberValid (Number c)" and "length (Data c) < 65536"
  shows "\<exists>d'. cd_Decode (d\<lparr>Raw := Raw (cd_Encode c)\<rparr>) = (d', None)
           \<and> Number d' = Number c \<and> Data d' = Data c \<and> Length d' = int (length (Data c))"
proof -
  let ?raw = "Raw (cd_Encode c)"
  have len: "unat (of_nat (length (Data c)) :: u16) = length (Data c)"
    using assms(2) by (simp add: unat_of_nat)
  then have ulen: "uint (of_nat (length (Data c)) :: u16) = int (length (Data c))"
    by (metis uint_nat)
  have num: "cd_num ?raw = Number c"
    by (simp add: cd_Encode_Raw)
  have l: "cd_len ?raw = of_nat (length (Data c))"
    by (simp add: cd_Encode_Raw)
  have body: "cd_body ?raw = Data c @ replicate (cd_padding (length (Data c))) 0"
    by (simp add: cd_Encode_Raw)
  have four: "\<not> length ?raw < 4"
    by (simp add: cd_Encode_Raw)
  show ?thesis
    using assms(1) four by (simp add: cd_Decode_eq num l body len ulen)
qed

text \<open>
  A ChannelData message survives the wire: for a channel number of the legal range and
  data of at most 65535 bytes, decoding what \<open>Encode\<close> produced, whatever the buffer and
  the receiving object held before, succeeds and yields the same number and the same data,
  with the padding removed.
\<close>

theorem channel_data_roundtrip:
  assumes "isChannelNumberValid (Number c)" and "length (Data c) < 65536"
  shows "\<exists>d'. cd_Decode (d\<lparr>Raw := Raw (cd_Encode c)\<rparr>) = (d', None)
           \<and> Number d' = Number c \<and> Data d' = Data c \<and> Length d' = int (length (Data c))"
  using assms by (rule channel_data_back)

theorem channel_data_roundtrip_witness:
  "\<exists>d'. cd_Decode (raw_ChannelData []\<lparr>Raw := Raw (cd_Encode (new_ChannelData 0x4001 [1, 2, 3]))\<rparr>) = (d', None)
      \<and> Number d' = 0x4001 \<and> Data d' = [1, 2, 3] \<and> Length d' = 3"
  using channel_data_roundtrip [of "new_ChannelData 0x4001 [1, 2, 3]" "raw_ChannelData []"]
  by (simp add: isChannelNumberValid_def MinChannelNumber_def MaxChannelNumber_def)

text \<open>
  The quick test that demultiplexes packets is exact: \<open>Decode\<close> of a buffer succeeds
  if and only if \<open>IsChannelData\<close> accepts the buffer.
\<close>

lemma is_channel_data_exact: "snd (cd_Decode c) = None \<longleftrightarrow> IsChannelData (Raw c)"
  by (auto simp: cd_Decode_eq IsChannelData_eq)

text \<open>
  What a successful decode hands out stays inside the buffer: the data is the bytes
  after the header, exactly as many as the length field says, and encoding the object again
  reproduces the consumed bytes followed by fewer than four bytes of zero padding.
\<close>

theorem channel_data_decode_sound:
  assumes "cd_Decode c = (c', None)"
  shows "Data c' = take (length (Data c')) (drop 4 (Raw c)) \<and> Length c' = int (length (Data c'))
       \<and> 4 + length (Data c') \<le> length (Raw c) \<and> isChannelNumberValid (Number c')
       \<and> (\<exists>k<4. Raw (cd_Encode c') = take (4 + length (Data c')) (Raw c) @ replicate k 0)"
proof -
  let ?b = "Raw c"
  from assms have ok: "4 \<le> length ?b" "isChannelNumberValid (cd_num ?b)"
      "unat (cd_len ?b) \<le> length (cd_body ?b)"
    and c': "c' = c\<lparr>Number := cd_num ?b, Data := take (unat (cd_len ?b)) (cd_body ?b),
           Length := uint (cd_len ?b)\<rparr>"
    by (auto simp: cd_Decode_eq split: if_splits)
  then have len: "length (Data c') = unat (cd_len ?b)" by simp
  have "take 4 ?b = put_u16 (cd_num ?b) @ put_u16 (cd_len ?b)"
    using ok(1) by (rule take4_is_header)
  then have "take (4 + unat (cd_len ?b)) ?b = put_u16 (cd_num ?b) @ put_u16 (cd_len ?b) @ Data c'"
    by (simp add: take_add c')
  then have "Raw (cd_Encode c') = take (4 + length (Data c')) ?b
      @ replicate (cd_padding (length (Data c'))) 0"
    by (simp add: cd_Encode_Raw len) (simp add: c')
  moreover have "Length c' = int (length (Data c'))" 
    unfolding len by (simp add: c')
  moreover have "Data c' = take (length (Data c')) (cd_body ?b)"
    unfolding len by (simp add: c')
  moreover have "4 + length (Data c') \<le> length ?b" "isChannelNumberValid (Number c')"
    using ok len by (simp_all add: c')
  ultimately show ?thesis
    using cd_padding_small [of "length (Data c')"] by blast
qed

theorem channel_data_decode_sound_witness:
  "\<exists>c'. cd_Decode (raw_ChannelData [0x40, 0, 0, 1, 9, 0, 0, 0]) = (c', None) \<and> Data c' = [9]
     \<and> (\<exists>k<4. Raw (cd_Encode c') = [0x40, 0, 0, 1, 9] @ replicate k 0)"
proof -
  let ?c = "raw_ChannelData [0x40, 0, 0, 1, 9, 0, 0, 0]"
  have dec: "cd_Decode ?c = (fst (cd_Decode ?c), None)" and data: "Data (fst (cd_Decode ?c)) = [9]"
    by code_simp+
  show ?thesis
    using channel_data_decode_sound [OF dec] dec data by (intro exI [of _ "fst (cd_Decode ?c)"]) simp
qed

definition encode_packet :: "ChannelNumber \<times> bytes \<Rightarrow> bytes" where
  "encode_packet x = Raw (cd_Encode (new_ChannelData (fst x) (snd x)))"

definition decode_packet :: "bytes \<Rightarrow> proto_error + ChannelNumber \<times> bytes" where
  "decode_packet b =
     (case cd_Decode (raw_ChannelData b) of
        (c, None) \<Rightarrow> Inr (Number c, Data c) | (c, Some e) \<Rightarrow> Inl e)"

interpretation cdp: wire_codec encode_packet decode_packet
    "\<lambda>x. isChannelNumberValid (fst x) \<and> length (snd x) < 65536"
proof
  fix x :: "ChannelNumber \<times> bytes"
  assume "isChannelNumberValid (fst x) \<and> length (snd x) < 65536"
  moreover have "raw_ChannelData b = (raw_ChannelData [])\<lparr>Raw := b\<rparr>" for b by simp
  ultimately show "decode_packet (encode_packet x) = Inr x"
    using channel_data_back [of "new_ChannelData (fst x) (snd x)" "raw_ChannelData []"]
    by (auto simp: decode_packet_def encode_packet_def)
qed

section \<open>The attributes read back what was added\<close>

abbreviation has_no :: "'m stun_lib \<Rightarrow> 'm \<Rightarrow> stun_attr \<Rightarrow> bool" where
  "has_no L m t \<equiv> \<exists>e. m_Get L m t = Inl e"

lemma stun_laws_simps:
  assumes "stun_laws L"
  shows "has_no L m t \<Longrightarrow> m_Get L (m_Add L m t v) t = Inr v"
    and "t' \<noteq> t \<Longrightarrow> m_Get L (m_Add L m t v) t' = m_Get L m t'"
    and "CheckSize L t n k = None \<longleftrightarrow> n = k"
    and "(\<exists>e. XORGetFromAs L m t = Inl e) \<Longrightarrow> XORAddToAs L m t a = Inr m' \<Longrightarrow> XORGetFromAs L m' t = Inr a"
proof -
  note laws = assms [unfolded stun_laws_def]
  show "has_no L m t \<Longrightarrow> m_Get L (m_Add L m t v) t = Inr v"
    using conjunct1 [OF laws] by simp
  show "t' \<noteq> t \<Longrightarrow> m_Get L (m_Add L m t v) t' = m_Get L m t'"
    using conjunct1 [OF conjunct2 [OF laws]] by simp
  show "CheckSize L t n k = None \<longleftrightarrow> n = k"
    using conjunct1 [OF conjunct2 [OF conjunct2 [OF laws]]] by simp
  show "(\<exists>e. XORGetFromAs L m t = Inl e) \<Longrightarrow> XORAddToAs L m t a = Inr m' \<Longrightarrow> XORGetFromAs L m' t = Inr a"
    using conjunct2 [OF conjunct2 [OF conjunct2 [OF laws]]] by metis
qed

lemma get_sized_added:
  assumes "stun_laws L" and "has_no L m t"
  shows "get_sized L (m_Add L m t v) t (length v) = Inr v"
proof -
  have "CheckSize L t (length v) (length v) = None"
    using stun_laws_simps(3) [OF assms(1)] by simp
  with assms show ?thesis by (simp add: get_sized_def stun_laws_simps(1))
qed

lemma get_sized_length:
  assumes "stun_laws L" and "get_sized L m t k = Inr v"
  shows "length v = k"
proof -
  from assms(2) have "CheckSize L t (length v) k = None"
    by (auto simp: get_sized_def split: sum.splits option.splits)
  with stun_laws_simps(3) [OF assms(1)] show ?thesis by simp
qed

lemma get_sized_added4:
  assumes "stun_laws L" and "has_no L m t" and "length v = k"
  shows "get_sized L (m_Add L m t v) t k = Inr v"
  using get_sized_added [OF assms(1,2), of v] assms(3) by simp

lemmas attr_sizes [codec_simps] =
  channelNumberSize_def lifetimeSize_def evenPortSize_def requestedTransportSize_def
  requestedFamilySize_def reservationTokenSize_def connectionIDSize_def

text \<open>
  Every TURN attribute with a fixed layout reads back what was added to a message
  that has no attribute of that type yet: channel number, lifetime in whole seconds below
  2 to the 32, requested transport, connection identifier, reservation token of eight
  bytes, and the even-port flag.
\<close>

theorem attributes_roundtrip:
  assumes "stun_laws L"
  shows "(has_no L m AttrChannelNumber \<longrightarrow> ChannelNumber_GetFrom L (ChannelNumber_AddTo L n m) = Inr n)
    \<and> (has_no L m AttrLifetime \<longrightarrow> s < 2 ^ 32 \<longrightarrow>
           Lifetime_GetFrom L (Lifetime_AddTo L (second * int s) m) = Inr (second * int s))
    \<and> (has_no L m AttrRequestedTransport \<longrightarrow>
           RequestedTransport_GetFrom L (RequestedTransport_AddTo L tr m) = Inr tr)
    \<and> (has_no L m AttrConnectionID \<longrightarrow> ConnectionID_GetFrom L (ConnectionID_AddTo L c m) = Inr c)
    \<and> (has_no L m AttrReservationToken \<longrightarrow> length tok = 8 \<longrightarrow>
           (\<exists>m'. ReservationToken_AddTo L tok m = Inr m' \<and> ReservationToken_GetFrom L m' = Inr tok))
    \<and> (has_no L m AttrEvenPort \<longrightarrow>
           EvenPort_GetFrom L \<lparr>ReservePort = False\<rparr> (EvenPort_AddTo L ep m) = Inr ep)"
proof (intro conjI impI)
  note added = get_sized_added4 [OF assms]
  show "ChannelNumber_GetFrom L (ChannelNumber_AddTo L n m) = Inr n" if "has_no L m AttrChannelNumber"
    using that by (simp add: ChannelNumber_GetFrom_def ChannelNumber_AddTo_def added codec_simps)
  show "Lifetime_GetFrom L (Lifetime_AddTo L (second * int s) m) = Inr (second * int s)"
    if "has_no L m AttrLifetime" "s < 2 ^ 32"
    using that
    by (simp add: Lifetime_GetFrom_def Lifetime_AddTo_def added codec_simps unsigned_of_nat take_bit_nat_eq_self)
  show "RequestedTransport_GetFrom L (RequestedTransport_AddTo L tr m) = Inr tr"
    if "has_no L m AttrRequestedTransport"
    using that by (simp add: RequestedTransport_GetFrom_def RequestedTransport_AddTo_def added codec_simps)
  show "ConnectionID_GetFrom L (ConnectionID_AddTo L c m) = Inr c" if "has_no L m AttrConnectionID"
    using that by (simp add: ConnectionID_GetFrom_def ConnectionID_AddTo_def added codec_simps)
  show "\<exists>m'. ReservationToken_AddTo L tok m = Inr m' \<and> ReservationToken_GetFrom L m' = Inr tok"
    if "has_no L m AttrReservationToken" "length tok = 8"
    using that stun_laws_simps(3) [OF assms, of AttrReservationToken "8" "8"]
    by (simp add: ReservationToken_AddTo_def ReservationToken_GetFrom_def added codec_simps)
  show "EvenPort_GetFrom L \<lparr>ReservePort = False\<rparr> (EvenPort_AddTo L ep m) = Inr ep" if "has_no L m AttrEvenPort"
    using that by (cases ep) (simp add: EvenPort_GetFrom_def EvenPort_AddTo_def added codec_simps firstBitSet_def)
qed

text \<open>A concrete message package: a message is the list of its attributes.\<close>

definition list_stun_lib :: "(stun_attr \<times> bytes) list stun_lib" where
  "list_stun_lib = \<lparr>
     m_Get = (\<lambda>m t. case map_of m t of None \<Rightarrow> Inl ''attribute not found'' | Some v \<Rightarrow> Inr v),
     m_Add = (\<lambda>m t v. m @ [(t, v)]),
     CheckSize = (\<lambda>t n k. if n = k then None else Some ''size invalid''),
     XORGetFromAs = (\<lambda>m t. case map_of m t of None \<Rightarrow> Inl ''attribute not found''
        | Some v \<Rightarrow> Inr (tl v, uint (hd v))),
     XORAddToAs = (\<lambda>m t a. if 0 \<le> snd a \<and> snd a < 256
        then Inr (m @ [(t, word_of_int (snd a) # fst a)]) else Inl ''unsupported'')\<rparr>"

lemma list_stun_lib_laws: "stun_laws list_stun_lib"
  by (auto simp: stun_laws_def list_stun_lib_def map_add_def uint_word_of_int
      split: option.splits if_splits)

theorem attributes_roundtrip_witness:
  "ChannelNumber_GetFrom list_stun_lib (ChannelNumber_AddTo list_stun_lib 0x4000 []) = Inr 0x4000
   \<and> Lifetime_GetFrom list_stun_lib (Lifetime_AddTo list_stun_lib (second * int 600) []) = Inr (second * int 600)
   \<and> (\<exists>m'. ReservationToken_AddTo list_stun_lib (replicate 8 7) [] = Inr m'
        \<and> ReservationToken_GetFrom list_stun_lib m' = Inr (replicate 8 7))"
proof -
  have none: "has_no list_stun_lib [] t" for t by (simp add: list_stun_lib_def)
  show ?thesis
    using attributes_roundtrip [OF list_stun_lib_laws, of "[]" "0x4000" 600 _ _ "replicate 8 7"] none
    by simp
qed

text \<open>
  The requested family accepts its two legal values only; a peer or relayed address reads
  back through the XOR encoding of the package.
\<close>

lemma RequestedAddressFamily_roundtrip:
  assumes "stun_laws L" and "has_no L m AttrRequestedAddressFamily"
  shows "RequestedAddressFamily_GetFrom L (RequestedAddressFamily_AddTo L f m) =
    (if f = RequestedFamilyIPv4 \<or> f = RequestedFamilyIPv6 then Inr f else Inl ErrInvalidRequestedFamilyValue)"
  by (simp add: RequestedAddressFamily_GetFrom_def RequestedAddressFamily_AddTo_def codec_simps
      get_sized_added4 [OF assms(1,2)])

lemma PeerAddress_roundtrip:
  assumes "stun_laws L" and "\<exists>e. XORGetFromAs L m AttrXORPeerAddress = Inl e"
    and "PeerAddress_AddTo L a m = Inr m'"
  shows "PeerAddress_GetFrom L m' = Inr a"
  using stun_laws_simps(4) [OF assms(1,2)] assms(3)
  by (cases a) (auto simp: PeerAddress_AddTo_def PeerAddress_GetFrom_def split: sum.splits)

end
