(* ===== verification/TurnAllocation.thy ===== *)
theory TurnAllocation
  imports TurnProto
begin

text \<open>
  The allocation table of the TURN server, \<open>lib/pion-turn/internal/allocation\<close>: permissions,
  channel bindings, allocations and the manager that owns them. Objects that Go shares by
  pointer live in a heap (the list \<open>objs\<close>); a map holds their index. Timers of
  \<open>time.AfterFunc\<close> are values that say whether and when they fire. The results: channel
  numbers and peers stay in one-to-one correspondence, permissions are keyed by their own
  address, the manager's table only holds open allocations under their own five-tuple,
  and the relay loop forwards exactly the packets its lookups allow.
\<close>

section \<open>Timers\<close>

text \<open>
  A timer is armed with the instant at which it fires, or not armed: stopped, or its
  function already started. \<open>Reset\<close> and \<open>Stop\<close> report whether it was armed.
\<close>

datatype timer = Armed int | NotArmed

definition AfterFunc :: "int \<Rightarrow> duration \<Rightarrow> timer" where
  "AfterFunc now d = Armed (now + d)"

definition timer_Reset :: "int \<Rightarrow> duration \<Rightarrow> timer \<Rightarrow> timer \<times> bool" where
  "timer_Reset now d t = (Armed (now + d), t \<noteq> NotArmed)"

definition timer_Stop :: "timer \<Rightarrow> timer" where
  "timer_Stop t = NotArmed"

fun due :: "int \<Rightarrow> timer \<Rightarrow> bool" where
  "due now (Armed t) = (t \<le> now)"
| "due now NotArmed = False"

section \<open>Permissions and channel bindings\<close>

definition permissionTimeout :: duration where "permissionTimeout = 5 * minute"

record Permission =
  Addr :: net_addr
  p_lifetimeTimer :: timer

definition NewPermission :: "net_addr \<Rightarrow> Permission" where
  "NewPermission addr = \<lparr>Addr = addr, p_lifetimeTimer = NotArmed\<rparr>"

definition Permission_start :: "int \<Rightarrow> duration \<Rightarrow> Permission \<Rightarrow> Permission" where
  "Permission_start now lifetime p = p\<lparr>p_lifetimeTimer := AfterFunc now lifetime\<rparr>"

definition Permission_refresh :: "int \<Rightarrow> duration \<Rightarrow> Permission \<Rightarrow> Permission" where
  "Permission_refresh now lifetime p =
     p\<lparr>p_lifetimeTimer := fst (timer_Reset now lifetime (p_lifetimeTimer p))\<rparr>"

record ChannelBind =
  Peer :: net_addr
  cb_Number :: ChannelNumber
  cb_lifetimeTimer :: timer

definition NewChannelBind :: "ChannelNumber \<Rightarrow> net_addr \<Rightarrow> ChannelBind" where
  "NewChannelBind number peer = \<lparr>Peer = peer, cb_Number = number, cb_lifetimeTimer = NotArmed\<rparr>"

definition ChannelBind_start :: "int \<Rightarrow> duration \<Rightarrow> ChannelBind \<Rightarrow> ChannelBind" where
  "ChannelBind_start now lifetime c = c\<lparr>cb_lifetimeTimer := AfterFunc now lifetime\<rparr>"

definition ChannelBind_refresh :: "int \<Rightarrow> duration \<Rightarrow> ChannelBind \<Rightarrow> ChannelBind" where
  "ChannelBind_refresh now lifetime c =
     c\<lparr>cb_lifetimeTimer := fst (timer_Reset now lifetime (cb_lifetimeTimer c))\<rparr>"

section \<open>Five-tuples\<close>

datatype relay_protocol = UDP | TCP

fun protocol_number :: "relay_protocol \<Rightarrow> int" where
  "protocol_number UDP = 0"
| "protocol_number TCP = 1"

record FiveTuple =
  ft_Protocol :: relay_protocol
  SrcAddr :: net_addr
  DstAddr :: net_addr

definition Fingerprint :: "FiveTuple \<Rightarrow> string" where
  "Fingerprint f =
     itoa (protocol_number (ft_Protocol f)) @ ''_'' @ addr_String (SrcAddr f) @ ''_'' @ addr_String (DstAddr f)"

definition FiveTuple_Equal :: "FiveTuple \<Rightarrow> FiveTuple \<Rightarrow> bool" where
  "FiveTuple_Equal f b \<longleftrightarrow> Fingerprint f = Fingerprint b"

section \<open>Allocations\<close>

text \<open>The STUN setters the server puts into its responses.\<close>

datatype setter =
    SRelayedAddress ip int | SLifetime duration | SXORMappedAddress ip int
  | SReservationToken string | SIntegrity bytes | SErrorCode nat
  | SUnknownAttributes "stun_attr list" | SNonce string | SRealm string | SFingerprint

datatype alloc_error =
    errSameChannelDifferentPeer | errNilFiveTuple | errNilFiveTupleSrcAddr | errNilFiveTupleDstAddr
  | errNilTurnSocket | errLifetimeZero | errDupeFiveTuple | errAllocConn string
  | errFailedToCastUDPAddr | errFailedToAllocateEvenPort | errAdminProhibited | errSocketClose string
  | errAllocatePacketConnMustBeSet | errAllocateConnMustBeSet | errLeveledLoggerMustBeSet

type_synonym sock = nat

record Allocation =
  RelayAddr :: net_addr
  TurnSocket :: sock
  RelaySocket :: sock
  fiveTuple :: FiveTuple
  permissions :: "(string, Permission) gomap"
  channelBindings :: "ChannelBind list"
  lifetimeTimer :: timer
  closed :: bool
  responseCache :: "(bytes \<times> setter list) option"

definition NewAllocation :: "sock \<Rightarrow> FiveTuple \<Rightarrow> Allocation" where
  "NewAllocation turnSocket ft =
     \<lparr>RelayAddr = OtherAddr [], TurnSocket = turnSocket, RelaySocket = 0, fiveTuple = ft,
      permissions = [], channelBindings = [], lifetimeTimer = NotArmed, closed = False,
      responseCache = None\<rparr>"

definition GetPermission :: "Allocation \<Rightarrow> net_addr \<Rightarrow> Permission option" where
  "GetPermission a addr = map_of (permissions a) (FingerprintAddr addr)"

definition AddPermission :: "int \<Rightarrow> Permission \<Rightarrow> Allocation \<Rightarrow> Allocation" where
  "AddPermission now p a =
     (let fingerprint = FingerprintAddr (Addr p)
      in case map_of (permissions a) fingerprint of
           Some existed \<Rightarrow>
             a\<lparr>permissions := AList.update fingerprint (Permission_refresh now permissionTimeout existed) (permissions a)\<rparr>
         | None \<Rightarrow>
             a\<lparr>permissions := AList.update fingerprint (Permission_start now permissionTimeout p) (permissions a)\<rparr>)"

definition RemovePermission :: "net_addr \<Rightarrow> Allocation \<Rightarrow> Allocation" where
  "RemovePermission addr a = a\<lparr>permissions := AList.delete (FingerprintAddr addr) (permissions a)\<rparr>"

text \<open>
  The lookups walk the slice from the front and return a pointer into it. The model
  returns the position: two results are the same pointer exactly when the positions agree.
\<close>

fun find_index_from :: "('a \<Rightarrow> bool) \<Rightarrow> nat \<Rightarrow> 'a list \<Rightarrow> nat option" where
  "find_index_from P i [] = None"
| "find_index_from P i (x # xs) = (if P x then Some i else find_index_from P (Suc i) xs)"

definition GetChannelByNumber :: "Allocation \<Rightarrow> ChannelNumber \<Rightarrow> nat option" where
  "GetChannelByNumber a number = find_index_from (\<lambda>cb. cb_Number cb = number) 0 (channelBindings a)"

definition GetChannelByAddr :: "Allocation \<Rightarrow> net_addr \<Rightarrow> nat option" where
  "GetChannelByAddr a addr = find_index_from (\<lambda>cb. AddrEqual (Peer cb) addr) 0 (channelBindings a)"

definition AddChannelBind ::
    "int \<Rightarrow> ChannelBind \<Rightarrow> duration \<Rightarrow> Allocation \<Rightarrow> alloc_error option \<times> Allocation" where
  "AddChannelBind now c lifetime a =
     (let channelByNumber = GetChannelByNumber a (cb_Number c)
      in if channelByNumber \<noteq> GetChannelByAddr a (Peer c) then (Some errSameChannelDifferentPeer, a)
         else case channelByNumber of
           None \<Rightarrow>
             (None, AddPermission now (NewPermission (Peer c))
                (a\<lparr>channelBindings := channelBindings a @ [ChannelBind_start now lifetime c]\<rparr>))
         | Some i \<Rightarrow>
             (let cb = channelBindings a ! i
              in (None, AddPermission now (NewPermission (Peer cb))
                   (a\<lparr>channelBindings := (channelBindings a)[i := ChannelBind_refresh now lifetime cb]\<rparr>))))"

text \<open>\<open>RemoveChannelBind\<close> scans from the back and drops the first match.\<close>

fun remove_last_match :: "('a \<Rightarrow> bool) \<Rightarrow> 'a list \<Rightarrow> 'a list option" where
  "remove_last_match P [] = None"
| "remove_last_match P (x # xs) =
     (case remove_last_match P xs of
        Some ys \<Rightarrow> Some (x # ys)
      | None \<Rightarrow> (if P x then Some xs else None))"

definition RemoveChannelBind :: "ChannelNumber \<Rightarrow> Allocation \<Rightarrow> bool \<times> Allocation" where
  "RemoveChannelBind number a =
     (case remove_last_match (\<lambda>cb. cb_Number cb = number) (channelBindings a) of
        Some cbs \<Rightarrow> (True, a\<lparr>channelBindings := cbs\<rparr>)
      | None \<Rightarrow> (False, a))"

definition Refresh :: "int \<Rightarrow> duration \<Rightarrow> Allocation \<Rightarrow> Allocation" where
  "Refresh now lifetime a = a\<lparr>lifetimeTimer := fst (timer_Reset now lifetime (lifetimeTimer a))\<rparr>"

definition SetResponseCache :: "bytes \<Rightarrow> setter list \<Rightarrow> Allocation \<Rightarrow> Allocation" where
  "SetResponseCache transactionID attrs a = a\<lparr>responseCache := Some (transactionID, attrs)\<rparr>"

text \<open>Without a cached response the caller gets the zero transaction identifier (12 bytes).\<close>

definition GetResponseCache :: "Allocation \<Rightarrow> bytes \<times> setter list" where
  "GetResponseCache a = (case responseCache a of Some r \<Rightarrow> r | None \<Rightarrow> (replicate 12 0, []))"

text \<open>\<open>Close\<close>; what \<open>RelaySocket.Close\<close> returns is the parameter \<open>sockClose\<close>.\<close>

definition Allocation_Close :: "(sock \<Rightarrow> string option) \<Rightarrow> Allocation \<Rightarrow> alloc_error option \<times> Allocation" where
  "Allocation_Close sockClose a =
     (if closed a then (None, a)
      else
        (map_option errSocketClose (sockClose (RelaySocket a)),
         a\<lparr>closed := True,
           lifetimeTimer := timer_Stop (lifetimeTimer a),
           permissions := map (\<lambda>(k, p). (k, p\<lparr>p_lifetimeTimer := timer_Stop (p_lifetimeTimer p)\<rparr>)) (permissions a),
           channelBindings := map (\<lambda>c. c\<lparr>cb_lifetimeTimer := timer_Stop (cb_lifetimeTimer c)\<rparr>) (channelBindings a)\<rparr>))"

text \<open>
  One round of \<open>packetHandler\<close> on what the relay socket returned: a read error ends the loop
  after deleting the allocation; a datagram (cut to the buffer of \<open>rtpMTU\<close> bytes) goes to the client
  as ChannelData, as a Data indication, or nowhere. \<open>build_ok\<close> says whether
  \<open>stun.Build\<close> succeeded.
\<close>

definition rtpMTU :: nat where "rtpMTU = 1600"

datatype relay_action =
    RelayChannelData bytes net_addr
  | RelayDataIndication PeerAddress bytes net_addr
  | RelayDrop
  | RelayStop
  | RelayDelete FiveTuple

definition packetHandler_step ::
    "bool \<Rightarrow> Allocation \<Rightarrow> string + bytes \<times> net_addr \<Rightarrow> relay_action" where
  "packetHandler_step build_ok a received =
     (case received of
        Inl err \<Rightarrow> RelayDelete (fiveTuple a)
      | Inr (datagram, srcAddr) \<Rightarrow>
          (let payload = take rtpMTU datagram
           in case GetChannelByAddr a srcAddr of
                Some i \<Rightarrow>
                  RelayChannelData
                    (Raw (cd_Encode (new_ChannelData (cb_Number (channelBindings a ! i)) payload)))
                    (SrcAddr (fiveTuple a))
              | None \<Rightarrow>
                  (if GetPermission a srcAddr \<noteq> None then
                     (case srcAddr of
                        UDPAddr x port zone \<Rightarrow>
                          (if build_ok
                           then RelayDataIndication \<lparr>pa_IP = x, pa_Port = port\<rparr> payload (SrcAddr (fiveTuple a))
                           else RelayStop)
                      | _ \<Rightarrow> RelayStop)
                   else RelayDrop)))"

section \<open>The manager\<close>

record reservation =
  token :: string
  port :: int

record Manager =
  now :: int
  objs :: "Allocation list"
  allocations :: "(string, nat) gomap"
  reservations :: "reservation list"

record ManagerConfig =
  LeveledLogger_set :: bool
  AllocatePacketConn_set :: bool
  AllocateConn_set :: bool

definition NewManager :: "ManagerConfig \<Rightarrow> int \<Rightarrow> alloc_error + Manager" where
  "NewManager config t =
     (if \<not> AllocatePacketConn_set config then Inl errAllocatePacketConnMustBeSet
      else if \<not> AllocateConn_set config then Inl errAllocateConnMustBeSet
      else if \<not> LeveledLogger_set config then Inl errLeveledLoggerMustBeSet
      else Inr \<lparr>now = t, objs = [], allocations = [], reservations = []\<rparr>)"

definition GetAllocation :: "Manager \<Rightarrow> FiveTuple \<Rightarrow> nat option" where
  "GetAllocation m ft = map_of (allocations m) (Fingerprint ft)"

definition AllocationCount :: "Manager \<Rightarrow> nat" where
  "AllocationCount m = length (allocations m)"

text \<open>\<open>Manager.Close\<close> stops at the first allocation whose socket does not close.\<close>

fun close_all :: "(sock \<Rightarrow> string option) \<Rightarrow> nat list \<Rightarrow> Allocation list \<Rightarrow> alloc_error option \<times> Allocation list" where
  "close_all sockClose [] os = (None, os)"
| "close_all sockClose (r # rs) os =
     (case Allocation_Close sockClose (os ! r) of
        (Some e, a') \<Rightarrow> (Some e, os[r := a'])
      | (None, a') \<Rightarrow> close_all sockClose rs (os[r := a']))"

definition Manager_Close :: "(sock \<Rightarrow> string option) \<Rightarrow> Manager \<Rightarrow> alloc_error option \<times> Manager" where
  "Manager_Close sockClose m =
     (case close_all sockClose (map snd (allocations m)) (objs m) of (e, os) \<Rightarrow> (e, m\<lparr>objs := os\<rparr>))"

text \<open>The arguments of \<open>CreateAllocation\<close> as the caller passes them, nil included.\<close>

record FiveTuple_arg =
  fa_Protocol :: relay_protocol
  fa_SrcAddr :: "net_addr option"
  fa_DstAddr :: "net_addr option"

definition CreateAllocation ::
    "(int \<Rightarrow> string + sock \<times> net_addr) \<Rightarrow> FiveTuple_arg option \<Rightarrow> sock option \<Rightarrow> int \<Rightarrow> duration \<Rightarrow> Manager
      \<Rightarrow> (alloc_error + nat) \<times> Manager" where
  "CreateAllocation allocatePacketConn fa turnSocket requestedPort lifetime m =
     (case fa of
        None \<Rightarrow> (Inl errNilFiveTuple, m)
      | Some f \<Rightarrow>
     (case fa_SrcAddr f of
        None \<Rightarrow> (Inl errNilFiveTupleSrcAddr, m)
      | Some src \<Rightarrow>
     (case fa_DstAddr f of
        None \<Rightarrow> (Inl errNilFiveTupleDstAddr, m)
      | Some dst \<Rightarrow>
     (case turnSocket of
        None \<Rightarrow> (Inl errNilTurnSocket, m)
      | Some ts \<Rightarrow>
     (if lifetime = 0 then (Inl errLifetimeZero, m)
      else
        let ft = \<lparr>ft_Protocol = fa_Protocol f, SrcAddr = src, DstAddr = dst\<rparr>
        in if GetAllocation m ft \<noteq> None then (Inl errDupeFiveTuple, m)
           else case allocatePacketConn requestedPort of
             Inl e \<Rightarrow> (Inl (errAllocConn e), m)
           | Inr (conn, relayAddr) \<Rightarrow>
               (let a = (NewAllocation ts ft)\<lparr>RelaySocket := conn, RelayAddr := relayAddr,
                          lifetimeTimer := AfterFunc (now m) lifetime\<rparr>;
                    r = length (objs m)
                in (Inr r, m\<lparr>objs := objs m @ [a],
                             allocations := AList.update (Fingerprint ft) r (allocations m)\<rparr>)))))))"

definition DeleteAllocation :: "(sock \<Rightarrow> string option) \<Rightarrow> FiveTuple \<Rightarrow> Manager \<Rightarrow> Manager" where
  "DeleteAllocation sockClose ft m =
     (let fingerprint = Fingerprint ft;
          m' = m\<lparr>allocations := AList.delete fingerprint (allocations m)\<rparr>
      in case map_of (allocations m) fingerprint of
           None \<Rightarrow> m'
         | Some r \<Rightarrow> m'\<lparr>objs := (objs m')[r := snd (Allocation_Close sockClose (objs m' ! r))]\<rparr>)"

definition CreateReservation :: "string \<Rightarrow> int \<Rightarrow> Manager \<Rightarrow> Manager" where
  "CreateReservation reservationToken p m =
     m\<lparr>reservations := reservations m @ [\<lparr>token = reservationToken, port = p\<rparr>]\<rparr>"

text \<open>What the timer that \<open>CreateReservation\<close> starts does after 30 seconds.\<close>

definition ExpireReservation :: "string \<Rightarrow> Manager \<Rightarrow> Manager" where
  "ExpireReservation reservationToken m =
     (case remove_last_match (\<lambda>r. token r = reservationToken) (reservations m) of
        Some rs \<Rightarrow> m\<lparr>reservations := rs\<rparr>
      | None \<Rightarrow> m)"

definition GetReservation :: "Manager \<Rightarrow> string \<Rightarrow> int \<times> bool" where
  "GetReservation m reservationToken =
     (case find (\<lambda>r. token r = reservationToken) (reservations m) of
        Some r \<Rightarrow> (port r, True)
      | None \<Rightarrow> (0, False))"

text \<open>
  \<open>GetRandomEvenPort\<close> opens and closes up to 128 sockets; the i-th attempt returns
  \<open>probe i\<close>: what \<open>allocatePacketConn\<close> gave and what closing the socket returned.
\<close>

fun even_port_loop :: "(nat \<Rightarrow> string + net_addr \<times> string option) \<Rightarrow> nat \<Rightarrow> nat \<Rightarrow> alloc_error + int" where
  "even_port_loop probe i 0 = Inl errFailedToAllocateEvenPort"
| "even_port_loop probe i (Suc k) =
     (case probe i of
        Inl e \<Rightarrow> Inl (errAllocConn e)
      | Inr (addr, close_err) \<Rightarrow>
          (case close_err of
             Some e \<Rightarrow> Inl (errAllocConn e)
           | None \<Rightarrow>
               (case addr of
                  UDPAddr x p z \<Rightarrow> (if p mod 2 = 0 then Inr p else even_port_loop probe (Suc i) k)
                | _ \<Rightarrow> Inl errFailedToCastUDPAddr)))"

definition GetRandomEvenPort :: "(nat \<Rightarrow> string + net_addr \<times> string option) \<Rightarrow> alloc_error + int" where
  "GetRandomEvenPort probe = even_port_loop probe 0 128"

definition GrantPermission ::
    "(net_addr \<Rightarrow> ip \<Rightarrow> bool) option \<Rightarrow> net_addr \<Rightarrow> ip \<Rightarrow> alloc_error option" where
  "GrantPermission permissionHandler sourceAddr peerIP =
     (case permissionHandler of
        None \<Rightarrow> None
      | Some h \<Rightarrow> (if h sourceAddr peerIP then None else Some errAdminProhibited))"

section \<open>Lookups\<close>

lemma find_index_from_None: "find_index_from P i xs = None \<longleftrightarrow> (\<forall>x\<in>set xs. \<not> P x)"
  by (induction xs arbitrary: i) auto

lemma find_index_from_Some:
  "find_index_from P i xs = Some j \<Longrightarrow> i \<le> j \<and> j < i + length xs \<and> P (xs ! (j - i))
     \<and> (\<forall>k<j - i. \<not> P (xs ! k))"
proof (induction xs arbitrary: i)
  case Nil
  then show ?case by simp
next
  case (Cons x xs)
  show ?case
  proof (cases "P x")
    case True
    with Cons.prems show ?thesis by simp
  next
    case False
    with Cons.prems have f: "find_index_from P (Suc i) xs = Some j" by simp
    note ih = Cons.IH [OF f]
    then have "Suc i \<le> j" by simp
    then have j: "j - i = Suc (j - Suc i)" by simp
    show ?thesis
      using ih False by (auto simp: j nth_Cons less_Suc_eq_0_disj)
  qed
qed

lemma find_index_Some:
  "find_index_from P 0 xs = Some j \<Longrightarrow> j < length xs \<and> P (xs ! j) \<and> (\<forall>k<j. \<not> P (xs ! k))"
  using find_index_from_Some [of P 0 xs j] by simp

lemma find_index_unique:
  assumes "j < length xs" and "P (xs ! j)" and "\<And>k. k < length xs \<Longrightarrow> P (xs ! k) \<Longrightarrow> k = j"
  shows "find_index_from P 0 xs = Some j"
proof (cases "find_index_from P 0 xs")
  case None
  with assms(1,2) show ?thesis by (auto simp: find_index_from_None)
next
  case (Some i)
  from find_index_Some [OF Some] assms(3) [of i] show ?thesis by (simp add: Some)
qed

lemma remove_last_match_Some:
  "remove_last_match P xs = Some ys \<Longrightarrow> \<exists>us x vs. xs = us @ x # vs \<and> ys = us @ vs \<and> P x"
proof (induction xs arbitrary: ys)
  case Nil
  then show ?case by simp
next
  case (Cons x xs)
  show ?case
  proof (cases "remove_last_match P xs")
    case None
    with Cons.prems have "P x" "ys = xs" by (auto split: if_splits)
    then show ?thesis by (intro exI [of _ "[]"]) auto
  next
    case (Some zs)
    from Cons.IH [OF Some] obtain us y vs where "xs = us @ y # vs" "zs = us @ vs" "P y" by blast
    with Cons.prems Some show ?thesis by (intro exI [of _ "x # us"]) auto
  qed
qed

lemma remove_last_match_None: "remove_last_match P xs = None \<longleftrightarrow> (\<forall>x\<in>set xs. \<not> P x)"
  by (induction xs) (auto split: option.splits)

section \<open>The invariant of an allocation\<close>

text \<open>
  Permissions are filed under the fingerprint of their own address; no channel number and
  no peer occurs in two bindings.
\<close>

definition alloc_inv :: "Allocation \<Rightarrow> bool" where
  "alloc_inv a \<longleftrightarrow>
     gomap_ok (permissions a) \<and>
     (\<forall>(k, p) \<in> set (permissions a). k = FingerprintAddr (Addr p)) \<and>
     distinct (map cb_Number (channelBindings a)) \<and>
     sorted_wrt (\<lambda>c d. \<not> AddrEqual (Peer c) (Peer d)) (channelBindings a)"

lemma alloc_inv_New: "alloc_inv (NewAllocation ts ft)"
  by (simp add: alloc_inv_def NewAllocation_def)

lemma alloc_inv_frame:
  "permissions a' = permissions a \<Longrightarrow> channelBindings a' = channelBindings a \<Longrightarrow> alloc_inv a' = alloc_inv a"
  by (simp add: alloc_inv_def)

lemma peers_distinct:
  assumes "alloc_inv a" and "i < length (channelBindings a)" and "j < length (channelBindings a)"
    and "AddrEqual (Peer (channelBindings a ! i)) (Peer (channelBindings a ! j))"
  shows "i = j"
proof (rule ccontr)
  assume "i \<noteq> j"
  then consider "i < j" | "j < i" by linarith
  then show False
    using assms AddrEqual_sym [OF assms(4)]
    by cases (simp_all add: alloc_inv_def sorted_wrt_iff_nth_less)
qed

lemma AddPermission_channels [simp]: "channelBindings (AddPermission t p a) = channelBindings a"
  by (auto simp: AddPermission_def Let_def split: option.splits)

lemma alloc_inv_AddPermission: "alloc_inv a \<Longrightarrow> alloc_inv (AddPermission t p a)"
proof -
  assume inv: "alloc_inv a"
  show ?thesis
  proof (cases "map_of (permissions a) (FingerprintAddr (Addr p))")
    case None
    with inv show ?thesis
      by (auto simp: alloc_inv_def AddPermission_def Let_def gomap_mem_update Permission_start_def
          split: if_splits)
  next
    case (Some q)
    then have "FingerprintAddr (Addr q) = FingerprintAddr (Addr p)"
      using inv map_of_SomeD [OF Some] by (auto simp: alloc_inv_def)
    with inv Some show ?thesis
      by (auto simp: alloc_inv_def AddPermission_def Let_def gomap_mem_update Permission_refresh_def
          split: if_splits)
  qed
qed

lemma alloc_inv_RemovePermission: "alloc_inv a \<Longrightarrow> alloc_inv (RemovePermission addr a)"
  by (auto simp: alloc_inv_def RemovePermission_def)

lemma ChannelBind_start_fields [simp]:
  "cb_Number (ChannelBind_start t d c) = cb_Number c" "Peer (ChannelBind_start t d c) = Peer c"
  "cb_Number (ChannelBind_refresh t d c) = cb_Number c" "Peer (ChannelBind_refresh t d c) = Peer c"
  by (simp_all add: ChannelBind_start_def ChannelBind_refresh_def)

lemma alloc_inv_append:
  assumes "alloc_inv a" and "GetChannelByNumber a (cb_Number c) = None" and "GetChannelByAddr a (Peer c) = None"
    and "cb_Number c' = cb_Number c" and "Peer c' = Peer c"
  shows "alloc_inv (a\<lparr>channelBindings := channelBindings a @ [c']\<rparr>)"
  using assms
  by (auto simp: alloc_inv_def GetChannelByNumber_def GetChannelByAddr_def find_index_from_None
      sorted_wrt_append)

lemma alloc_inv_replace:
  assumes "alloc_inv a" and "i < length (channelBindings a)"
    and "cb_Number c = cb_Number (channelBindings a ! i)" and "Peer c = Peer (channelBindings a ! i)"
  shows "alloc_inv (a\<lparr>channelBindings := (channelBindings a)[i := c]\<rparr>)"
proof -
  have "map cb_Number ((channelBindings a)[i := c]) = map cb_Number (channelBindings a)"
    using assms(2,3) by (simp add: map_update list_update_same_conv)
  moreover have "sorted_wrt (\<lambda>c d. \<not> AddrEqual (Peer c) (Peer d)) ((channelBindings a)[i := c])"
    using assms by (auto simp: alloc_inv_def sorted_wrt_iff_nth_less nth_list_update)
  ultimately show ?thesis using assms(1) by (simp add: alloc_inv_def)
qed

lemma alloc_inv_AddChannelBind:
  assumes "alloc_inv a"
  shows "alloc_inv (snd (AddChannelBind t c d a))"
proof (cases "GetChannelByNumber a (cb_Number c) = GetChannelByAddr a (Peer c)")
  case False
  with assms show ?thesis by (simp add: AddChannelBind_def Let_def)
next
  case True
  show ?thesis
  proof (cases "GetChannelByNumber a (cb_Number c)")
    case None
    with True assms show ?thesis
      by (simp add: AddChannelBind_def Let_def alloc_inv_AddPermission alloc_inv_append)
  next
    case (Some i)
    then have "i < length (channelBindings a)"
      by (auto simp: GetChannelByNumber_def dest: find_index_Some)
    moreover from True Some have "GetChannelByAddr a (Peer c) = Some i" by simp
    ultimately show ?thesis
      using Some assms
      by (simp add: AddChannelBind_def Let_def alloc_inv_AddPermission alloc_inv_replace)
  qed
qed

lemma alloc_inv_RemoveChannelBind:
  assumes "alloc_inv a"
  shows "alloc_inv (snd (RemoveChannelBind n a))"
proof (cases "remove_last_match (\<lambda>cb. cb_Number cb = n) (channelBindings a)")
  case None
  with assms show ?thesis by (simp add: RemoveChannelBind_def)
next
  case (Some ys)
  from remove_last_match_Some [OF Some] obtain us x vs where
    "channelBindings a = us @ x # vs" "ys = us @ vs" by blast
  with Some assms show ?thesis
    by (auto simp: RemoveChannelBind_def alloc_inv_def sorted_wrt_append)
qed

lemma alloc_inv_Close: "alloc_inv a \<Longrightarrow> alloc_inv (snd (Allocation_Close sc a))"
  by (force simp: alloc_inv_def Allocation_Close_def gomap_ok_def comp_def case_prod_beta sorted_wrt_map)

lemmas alloc_inv_ops = alloc_inv_AddPermission alloc_inv_RemovePermission alloc_inv_AddChannelBind
  alloc_inv_RemoveChannelBind alloc_inv_Close alloc_inv_New

section \<open>The manager as a state machine\<close>

text \<open>
  The steps that can happen to a running server, in any order: time passes; the request
  handlers create, delete and refresh allocations and add permissions and channels to the
  allocation of a five-tuple; a timer that is due runs its function; the packet handler of an
  allocation object (which keeps running after the object left the table) reads an error.
\<close>

datatype manager_event =
    EvTick duration
  | EvCreate FiveTuple sock "string + sock \<times> net_addr" duration
  | EvDelete FiveTuple
  | EvRefresh FiveTuple duration
  | EvAddPermission FiveTuple net_addr
  | EvChannelBind FiveTuple ChannelNumber net_addr duration
  | EvCacheResponse FiveTuple bytes "setter list"
  | EvReserve string int
  | EvReservationTimer string
  | EvPermissionTimer nat string
  | EvChannelTimer nat ChannelNumber
  | EvAllocationTimer nat
  | EvReadError nat

definition update_obj :: "nat \<Rightarrow> (Allocation \<Rightarrow> Allocation) \<Rightarrow> Manager \<Rightarrow> Manager" where
  "update_obj r f m = m\<lparr>objs := (objs m)[r := f (objs m ! r)]\<rparr>"

definition on_alloc :: "FiveTuple \<Rightarrow> (Allocation \<Rightarrow> Allocation) \<Rightarrow> Manager \<Rightarrow> Manager" where
  "on_alloc ft f m = (case GetAllocation m ft of None \<Rightarrow> m | Some r \<Rightarrow> update_obj r f m)"

definition arg_of :: "FiveTuple \<Rightarrow> FiveTuple_arg option" where
  "arg_of ft = Some \<lparr>fa_Protocol = ft_Protocol ft, fa_SrcAddr = Some (SrcAddr ft), fa_DstAddr = Some (DstAddr ft)\<rparr>"

fun manager_step :: "(sock \<Rightarrow> string option) \<Rightarrow> Manager \<Rightarrow> manager_event \<Rightarrow> Manager" where
  "manager_step sc m (EvTick d) = m\<lparr>now := now m + max 0 d\<rparr>"
| "manager_step sc m (EvCreate ft ts conn d) =
     snd (CreateAllocation (\<lambda>_. conn) (arg_of ft) (Some ts) 0 d m)"
| "manager_step sc m (EvDelete ft) = DeleteAllocation sc ft m"
| "manager_step sc m (EvRefresh ft d) = on_alloc ft (Refresh (now m) d) m"
| "manager_step sc m (EvAddPermission ft addr) =
     on_alloc ft (AddPermission (now m) (NewPermission addr)) m"
| "manager_step sc m (EvChannelBind ft n peer d) =
     on_alloc ft (\<lambda>a. snd (AddChannelBind (now m) (NewChannelBind n peer) d a)) m"
| "manager_step sc m (EvCacheResponse ft tid attrs) = on_alloc ft (SetResponseCache tid attrs) m"
| "manager_step sc m (EvReserve tok p) = CreateReservation tok p m"
| "manager_step sc m (EvReservationTimer tok) = ExpireReservation tok m"
| "manager_step sc m (EvPermissionTimer r k) =
     (if r < length (objs m) then
        case map_of (permissions (objs m ! r)) k of
          Some p \<Rightarrow> (if due (now m) (p_lifetimeTimer p) then update_obj r (RemovePermission (Addr p)) m else m)
        | None \<Rightarrow> m
      else m)"
| "manager_step sc m (EvChannelTimer r n) =
     (if r < length (objs m) then
        case GetChannelByNumber (objs m ! r) n of
          Some i \<Rightarrow> (if due (now m) (cb_lifetimeTimer (channelBindings (objs m ! r) ! i))
                    then update_obj r (\<lambda>a. snd (RemoveChannelBind n a)) m else m)
        | None \<Rightarrow> m
      else m)"
| "manager_step sc m (EvAllocationTimer r) =
     (if r < length (objs m) \<and> due (now m) (lifetimeTimer (objs m ! r))
      then DeleteAllocation sc (fiveTuple (objs m ! r)) m else m)"
| "manager_step sc m (EvReadError r) =
     (if r < length (objs m) then
        (case packetHandler_step True (objs m ! r) (Inl ''read'') of
           RelayDelete ft \<Rightarrow> DeleteAllocation sc ft m
         | _ \<Rightarrow> m)
      else m)"

text \<open>
  The table files every allocation under the fingerprint of its own five-tuple, only open
  allocations are in it, and every allocation object is well-formed.
\<close>

definition manager_inv :: "Manager \<Rightarrow> bool" where
  "manager_inv m \<longleftrightarrow>
     gomap_ok (allocations m) \<and>
     (\<forall>(k, r) \<in> set (allocations m). r < length (objs m) \<and> \<not> closed (objs m ! r)
        \<and> k = Fingerprint (fiveTuple (objs m ! r))) \<and>
     (\<forall>a \<in> set (objs m). alloc_inv a)"

definition empty_manager :: "int \<Rightarrow> Manager" where
  "empty_manager t = \<lparr>now = t, objs = [], allocations = [], reservations = []\<rparr>"

lemma manager_inv_empty [simp]: "manager_inv (empty_manager t)"
  by (simp add: manager_inv_def empty_manager_def)

lemma manager_inv_ref:
  assumes "manager_inv m" and "GetAllocation m ft = Some r"
  shows "r < length (objs m)" and "\<not> closed (objs m ! r)" and "alloc_inv (objs m ! r)"
    and "Fingerprint (fiveTuple (objs m ! r)) = Fingerprint ft"
proof -
  from assms have "(Fingerprint ft, r) \<in> set (allocations m)"
    by (auto simp: GetAllocation_def dest: map_of_SomeD)
  with assms(1) show "r < length (objs m)" and "\<not> closed (objs m ! r)"
    and "Fingerprint (fiveTuple (objs m ! r)) = Fingerprint ft"
    by (auto simp: manager_inv_def)
  with assms(1) show "alloc_inv (objs m ! r)" by (auto simp: manager_inv_def)
qed

text \<open>A change to one object keeps the invariant when it keeps what the table knows of it.\<close>

lemma manager_inv_update_obj:
  assumes "manager_inv m" and "r < length (objs m)"
    and "alloc_inv (f (objs m ! r))" and "closed (f (objs m ! r)) = closed (objs m ! r)"
    and "fiveTuple (f (objs m ! r)) = fiveTuple (objs m ! r)"
  shows "manager_inv (update_obj r f m)"
  using assms
  by (auto simp: manager_inv_def update_obj_def nth_list_update dest!: set_update_subset_insert [THEN subsetD])

lemma alloc_ops_frame [simp]:
  "closed (AddPermission t p a) = closed a" "fiveTuple (AddPermission t p a) = fiveTuple a"
  "closed (RemovePermission addr a) = closed a" "fiveTuple (RemovePermission addr a) = fiveTuple a"
  "closed (snd (AddChannelBind t c d a)) = closed a" "fiveTuple (snd (AddChannelBind t c d a)) = fiveTuple a"
  "closed (snd (RemoveChannelBind n a)) = closed a" "fiveTuple (snd (RemoveChannelBind n a)) = fiveTuple a"
  "closed (Refresh t d a) = closed a" "fiveTuple (Refresh t d a) = fiveTuple a"
  "closed (SetResponseCache i at a) = closed a" "fiveTuple (SetResponseCache i at a) = fiveTuple a"
  by (auto simp: AddPermission_def RemovePermission_def AddChannelBind_def RemoveChannelBind_def Refresh_def
      SetResponseCache_def Let_def split: option.splits)

lemma manager_inv_on_alloc:
  assumes "manager_inv m" and "\<And>a. alloc_inv a \<Longrightarrow> alloc_inv (f a)"
    and "\<And>a. closed (f a) = closed a" and "\<And>a. fiveTuple (f a) = fiveTuple a"
  shows "manager_inv (on_alloc ft f m)"
  using assms manager_inv_ref [OF assms(1)]
  by (auto simp: on_alloc_def manager_inv_update_obj split: option.splits)

lemma FiveTuple_eta [simp]: "\<lparr>ft_Protocol = ft_Protocol f, SrcAddr = SrcAddr f, DstAddr = DstAddr f\<rparr> = f"
  by (cases f) simp

lemma GetAllocation_create:
  assumes "CreateAllocation conn (arg_of ft) (Some ts) p d m = (Inr r, m')"
  shows "GetAllocation m' ft = Some r" and "r = length (objs m)"
    and "GetAllocation m ft = None" and "d \<noteq> 0"
    and "\<And>ft'. Fingerprint ft' \<noteq> Fingerprint ft \<Longrightarrow> GetAllocation m' ft' = GetAllocation m ft'"
  using assms
  by (auto simp: CreateAllocation_def arg_of_def GetAllocation_def Let_def gomap_simps
      split: if_splits sum.splits)

lemma manager_inv_Create:
  assumes "manager_inv m"
  shows "manager_inv (snd (CreateAllocation conn fa ts p d m))"
proof (cases "fst (CreateAllocation conn fa ts p d m)")
  case (Inl e)
  then have "snd (CreateAllocation conn fa ts p d m) = m"
    by (auto simp: CreateAllocation_def Let_def split: option.splits if_splits sum.splits)
  with assms show ?thesis by simp
next
  case (Inr r)
  then obtain a ft where
    a: "snd (CreateAllocation conn fa ts p d m) =
        m\<lparr>objs := objs m @ [a], allocations := AList.update (Fingerprint ft) (length (objs m)) (allocations m)\<rparr>"
    "alloc_inv a" "\<not> closed a" "fiveTuple a = ft"
    by (auto simp: CreateAllocation_def Let_def NewAllocation_def alloc_inv_def
        split: option.splits if_splits sum.splits)
  with assms show ?thesis
    by (auto simp: manager_inv_def gomap_mem_update nth_append split: if_splits)
qed

lemma manager_inv_Delete:
  assumes "manager_inv m"
  shows "manager_inv (DeleteAllocation sc ft m)"
proof (cases "map_of (allocations m) (Fingerprint ft)")
  case None
  with assms show ?thesis
    by (auto simp: DeleteAllocation_def Let_def manager_inv_def)
next
  case (Some r)
  then have r: "r < length (objs m)" "Fingerprint (fiveTuple (objs m ! r)) = Fingerprint ft"
    using manager_inv_ref [OF assms, of ft] by (auto simp: GetAllocation_def)
  from assms have "alloc_inv (snd (Allocation_Close sc (objs m ! r)))"
    using r(1) by (auto simp: manager_inv_def intro: alloc_inv_Close)
  with assms Some r show ?thesis
    by (auto simp: DeleteAllocation_def Let_def manager_inv_def nth_list_update
        dest!: set_update_subset_insert [THEN subsetD])
qed

lemma manager_inv_step: "manager_inv m \<Longrightarrow> manager_inv (manager_step sc m e)"
proof (cases e)
  case (EvTick d)
  then show "manager_inv m \<Longrightarrow> ?thesis" by (simp add: manager_inv_def)
next
  case (EvReserve tok p)
  then show "manager_inv m \<Longrightarrow> ?thesis" by (simp add: manager_inv_def CreateReservation_def)
next
  case (EvReservationTimer tok)
  then show "manager_inv m \<Longrightarrow> ?thesis"
    by (simp add: manager_inv_def ExpireReservation_def split: option.splits)
next
  case (EvRefresh ft d)
  then show "manager_inv m \<Longrightarrow> ?thesis"
    by (auto intro!: manager_inv_on_alloc simp: alloc_inv_def Refresh_def)
next
  case (EvCacheResponse ft i at)
  then show "manager_inv m \<Longrightarrow> ?thesis"
    by (auto intro!: manager_inv_on_alloc simp: alloc_inv_def SetResponseCache_def)
qed (auto intro!: manager_inv_on_alloc manager_inv_Create manager_inv_Delete manager_inv_update_obj
       alloc_inv_ops simp: packetHandler_step_def manager_inv_def [THEN iffD1] split: option.splits)

interpretation mgr: guarded_system "manager_step sc" manager_inv for sc
  by unfold_locales (rule manager_inv_step)

section \<open>Properties of the allocation table\<close>

text \<open>
  C22. Whatever requests, timers and socket errors a server has gone through, in every
  allocation it ever created no channel number is bound to two peers and no peer is bound
  to two channel numbers.
\<close>

theorem channel_bindings_one_to_one:
  fixes sc :: "sock \<Rightarrow> string option"
  assumes "m = foldl (manager_step sc) (empty_manager t) es" and "a \<in> set (objs m)"
    and "c \<in> set (channelBindings a)" and "d \<in> set (channelBindings a)"
    and "cb_Number c = cb_Number d \<or> AddrEqual (Peer c) (Peer d)"
  shows "c = d"
proof -
  have "manager_inv m" using mgr.run_inv [OF manager_inv_empty] assms(1) by simp
  with assms(2) have inv: "alloc_inv a" by (auto simp: manager_inv_def)
  from assms(3,4) obtain i j where i: "i < length (channelBindings a)" "c = channelBindings a ! i"
    and j: "j < length (channelBindings a)" "d = channelBindings a ! j"
    by (auto simp: in_set_conv_nth)
  have "i = j"
    using assms(5)
  proof
    assume "cb_Number c = cb_Number d"
    with i j inv show "i = j"
      by (auto simp: alloc_inv_def distinct_conv_nth)
  next
    assume "AddrEqual (Peer c) (Peer d)"
    with i j inv show "i = j" by (auto intro: peers_distinct)
  qed
  with i j show ?thesis by simp
qed

abbreviation udp4 :: "byte \<Rightarrow> int \<Rightarrow> net_addr" where
  "udp4 b p \<equiv> UDPAddr [10, 0, 0, b] p []"

abbreviation sample_tuple :: FiveTuple where
  "sample_tuple \<equiv> \<lparr>ft_Protocol = UDP, SrcAddr = udp4 1 5000, DstAddr = udp4 2 3478\<rparr>"

abbreviation sample_events :: "manager_event list" where
  "sample_events \<equiv>
     [EvCreate sample_tuple 3 (Inr (4, udp4 2 50000)) (10 * minute),
      EvChannelBind sample_tuple 0x4000 (udp4 9 7000) (10 * minute),
      EvChannelBind sample_tuple 0x4001 (udp4 9 7000) (10 * minute)]"

lemmas manager_eval = empty_manager_def CreateAllocation_def arg_of_def Let_def GetAllocation_def
  on_alloc_def update_obj_def AddChannelBind_def GetChannelByNumber_def GetChannelByAddr_def
  NewChannelBind_def NewPermission_def NewAllocation_def AddPermission_def ChannelBind_start_def
  Permission_start_def AfterFunc_def

lemma sample_run:
  "channelBindings (objs (foldl (manager_step sc) (empty_manager 0) sample_events) ! 0) =
     [\<lparr>Peer = udp4 9 7000, cb_Number = 0x4000, cb_lifetimeTimer = Armed (10 * minute)\<rparr>]"
  "length (objs (foldl (manager_step sc) (empty_manager 0) sample_events)) = 1"
  by (simp_all add: manager_eval ip_Equal_def)

theorem channel_bindings_one_to_one_witness:
  "\<exists>c. channelBindings (objs (foldl (manager_step (\<lambda>_. None)) (empty_manager 0) sample_events) ! 0) = [c]
     \<and> (\<forall>d. d \<in> set (channelBindings (objs (foldl (manager_step (\<lambda>_. None)) (empty_manager 0) sample_events) ! 0)) \<longrightarrow> c = d)"
proof -
  let ?m = "foldl (manager_step (\<lambda>_. None)) (empty_manager 0) sample_events"
  have "objs ?m ! 0 \<in> set (objs ?m)" using sample_run(2) by simp
  from channel_bindings_one_to_one [OF refl this] sample_run(1) [of "\<lambda>_. None"]
  show ?thesis by (metis list.set_intros(1) set_ConsD empty_iff list.set(1))
qed

text \<open>
  The table of the manager is consistent after any history: an allocation found for a
  five-tuple is an existing open allocation whose own five-tuple has that fingerprint.
\<close>

lemma allocation_table_consistent:
  fixes sc :: "sock \<Rightarrow> string option"
  assumes "m = foldl (manager_step sc) (empty_manager t) es" and "GetAllocation m ft = Some r"
  shows "r < length (objs m) \<and> \<not> closed (objs m ! r) \<and> FiveTuple_Equal (fiveTuple (objs m ! r)) ft"
proof -
  have "manager_inv m" using mgr.run_inv [OF manager_inv_empty] assms(1) by simp
  from manager_inv_ref [OF this assms(2)] show ?thesis by (simp add: FiveTuple_Equal_def)
qed

lemma allocation_table_consistent_witness:
  "\<not> closed (objs (foldl (manager_step (\<lambda>_. None)) (empty_manager 0) sample_events) ! 0)"
proof -
  let ?m = "foldl (manager_step (\<lambda>_. None)) (empty_manager 0) sample_events"
  have "GetAllocation ?m sample_tuple = Some 0"
    by (simp add: manager_eval ip_Equal_def)
  from allocation_table_consistent [OF refl this] show ?thesis by simp
qed

lemma AddPermission_grants:
  "\<exists>p. GetPermission (AddPermission t (NewPermission addr) a) addr = Some p
      \<and> p_lifetimeTimer p = Armed (t + permissionTimeout)"
  by (auto simp: GetPermission_def AddPermission_def Let_def NewPermission_def Permission_refresh_def
      Permission_start_def timer_Reset_def AfterFunc_def gomap_simps split: option.splits)

lemma GetPermission_AddrEqual: "AddrEqual x y \<Longrightarrow> GetPermission a x = GetPermission a y"
  by (simp add: GetPermission_def AddrEqual_fingerprint)

lemma find_index_append_new:
  "find_index_from P 0 xs = None \<Longrightarrow> P x \<Longrightarrow> find_index_from P 0 (xs @ [x]) = Some (length xs)"
proof -
  have "find_index_from P i xs = None \<Longrightarrow> P x \<Longrightarrow> find_index_from P i (xs @ [x]) = Some (i + length xs)" for i
    by (induction xs arbitrary: i) (auto split: if_splits)
  then show "find_index_from P 0 xs = None \<Longrightarrow> P x \<Longrightarrow> ?thesis" by simp
qed

lemma find_index_from_cong:
  "length xs = length ys \<Longrightarrow> (\<And>k. k < length xs \<Longrightarrow> P (xs ! k) = P (ys ! k)) \<Longrightarrow>
     find_index_from P i xs = find_index_from P i ys"
proof (induction xs ys arbitrary: i rule: list_induct2)
  case Nil
  then show ?case by simp
next
  case (Cons x xs y ys)
  from Cons.prems [of 0] have "P x = P y" by simp
  moreover have "find_index_from P (Suc i) xs = find_index_from P (Suc i) ys"
    using Cons.prems [of "Suc _"] by (intro Cons.IH) simp
  ultimately show ?case by simp
qed

text \<open>
  Adding a channel binding either fails and changes nothing, which happens exactly when the
  number and the peer are not both free and not bound to each other, or it succeeds, and
  then the number and the peer find the same binding, and the peer's address has a
  permission that lasts five minutes from now.
\<close>

theorem add_channel_bind_spec:
  assumes "AddChannelBind t (NewChannelBind n (UDPAddr x q z)) d a = (e, a')"
  shows "(e = Some errSameChannelDifferentPeer \<and> a' = a
            \<and> GetChannelByNumber a n \<noteq> GetChannelByAddr a (UDPAddr x q z))
       \<or> (e = None \<and> (\<exists>i. GetChannelByNumber a' n = Some i \<and> GetChannelByAddr a' (UDPAddr x q z) = Some i
              \<and> cb_lifetimeTimer (channelBindings a' ! i) = Armed (t + d))
            \<and> (\<exists>p. GetPermission a' (UDPAddr x q z) = Some p \<and> p_lifetimeTimer p = Armed (t + permissionTimeout)))"
proof (cases "GetChannelByNumber a n = GetChannelByAddr a (UDPAddr x q z)")
  case False
  with assms show ?thesis by (auto simp: AddChannelBind_def NewChannelBind_def Let_def)
next
  case eq: True
  let ?peer = "UDPAddr x q z"
  show ?thesis
  proof (cases "GetChannelByNumber a n")
    case None
    let ?c = "ChannelBind_start t d (NewChannelBind n ?peer)"
    let ?b = "a\<lparr>channelBindings := channelBindings a @ [?c]\<rparr>"
    from assms eq None have a': "e = None" "a' = AddPermission t (NewPermission ?peer) ?b"
      by (auto simp: AddChannelBind_def NewChannelBind_def Let_def)
    have c: "cb_Number ?c = n" "Peer ?c = ?peer" "cb_lifetimeTimer ?c = Armed (t + d)"
      by (simp_all add: NewChannelBind_def ChannelBind_start_def AfterFunc_def)
    from None eq have "GetChannelByNumber a' n = Some (length (channelBindings a))"
        "GetChannelByAddr a' ?peer = Some (length (channelBindings a))"
      using c by (simp_all add: a' GetChannelByNumber_def GetChannelByAddr_def find_index_append_new)
    with a' c AddPermission_grants [of t ?peer ?b] show ?thesis by simp
  next
    case (Some i)
    let ?cb = "channelBindings a ! i"
    let ?b = "a\<lparr>channelBindings := (channelBindings a)[i := ChannelBind_refresh t d ?cb]\<rparr>"
    from Some eq have addr: "GetChannelByAddr a ?peer = Some i" by simp
    then have i: "i < length (channelBindings a)" "AddrEqual (Peer ?cb) ?peer"
      by (auto simp: GetChannelByAddr_def dest: find_index_Some)
    from assms Some addr have a': "e = None" "a' = AddPermission t (NewPermission (Peer ?cb)) ?b"
      by (auto simp: AddChannelBind_def NewChannelBind_def Let_def)
    have "GetChannelByNumber a' n = GetChannelByNumber a n" "GetChannelByAddr a' ?peer = GetChannelByAddr a ?peer"
      unfolding GetChannelByNumber_def GetChannelByAddr_def
      using i(1) by (auto simp: a' nth_list_update intro!: find_index_from_cong split: if_splits)
    moreover have "cb_lifetimeTimer (channelBindings a' ! i) = Armed (t + d)"
      using i(1) by (simp add: a' ChannelBind_refresh_def timer_Reset_def)
    ultimately show ?thesis
      using a' Some addr AddPermission_grants [of t "Peer ?cb" ?b] GetPermission_AddrEqual [OF i(2)]
      by auto
  qed
qed

theorem add_channel_bind_spec_witness:
  "\<exists>p. GetPermission (snd (AddChannelBind 0 (NewChannelBind 0x4000 (udp4 9 7000)) (10 * minute)
          (NewAllocation 3 sample_tuple))) (udp4 9 7000) = Some p
     \<and> p_lifetimeTimer p = Armed (0 + permissionTimeout)"
proof -
  have e: "fst (AddChannelBind 0 (NewChannelBind 0x4000 (udp4 9 7000)) (10 * minute)
          (NewAllocation 3 sample_tuple)) = None"
    by (simp add: manager_eval)
  show ?thesis
    using add_channel_bind_spec [OF surjective_pairing, of 0 "0x4000" "[10, 0, 0, 9]" 7000 "[]" "10 * minute"
        "NewAllocation 3 sample_tuple"] e by auto
qed

text \<open>
  The relay loop forwards a datagram to the client of the allocation and to nobody else, and
  only if a channel is bound to the sender or the sender's IP has a permission: as
  ChannelData that decodes to the channel's number and the datagram in the first case (for
  a legal channel number), as a Data indication naming the sender in the second. Every
  other datagram is dropped or ends the loop without being sent.
\<close>

theorem relay_only_to_client:
  assumes "packetHandler_step ok a (Inr (datagram, src)) = act"
  shows "case act of
      RelayChannelData raw dst \<Rightarrow> dst = SrcAddr (fiveTuple a) \<and>
        (\<exists>cb \<in> set (channelBindings a). AddrEqual (Peer cb) src \<and>
           raw = encode_packet (cb_Number cb, take rtpMTU datagram) \<and>
           (isChannelNumberValid (cb_Number cb) \<longrightarrow>
              decode_packet raw = Inr (cb_Number cb, take rtpMTU datagram)))
    | RelayDataIndication peer payload dst \<Rightarrow> dst = SrcAddr (fiveTuple a)
        \<and> payload = take rtpMTU datagram \<and> GetPermission a src \<noteq> None
        \<and> (\<exists>z. src = UDPAddr (pa_IP peer) (pa_Port peer) z)
    | RelayDrop \<Rightarrow> GetPermission a src = None \<and> GetChannelByAddr a src = None
    | RelayStop \<Rightarrow> GetPermission a src \<noteq> None \<and> (\<not> ok \<or> (\<nexists>x p z. src = UDPAddr x p z))
    | RelayDelete ft \<Rightarrow> False"
proof (cases "GetChannelByAddr a src")
  case None
  with assms show ?thesis
    by (auto simp: packetHandler_step_def Let_def split: net_addr.splits)
next
  case (Some i)
  let ?cb = "channelBindings a ! i"
  from Some have i: "i < length (channelBindings a)" "AddrEqual (Peer ?cb) src"
    by (auto simp: GetChannelByAddr_def dest: find_index_Some)
  have "length (take rtpMTU datagram) < 65536" by (simp add: rtpMTU_def min_def)
  then have "isChannelNumberValid (cb_Number ?cb) \<Longrightarrow>
      decode_packet (encode_packet (cb_Number ?cb, take rtpMTU datagram)) = Inr (cb_Number ?cb, take rtpMTU datagram)"
    using cdp.dec_enc [of "(cb_Number ?cb, take rtpMTU datagram)"] by simp
  moreover from assms Some have "act = RelayChannelData (encode_packet (cb_Number ?cb, take rtpMTU datagram)) (SrcAddr (fiveTuple a))"
    by (auto simp: packetHandler_step_def Let_def encode_packet_def)
  moreover have "?cb \<in> set (channelBindings a)" using i(1) by simp
  ultimately show ?thesis
    using i(2) by auto
qed

theorem relay_only_to_client_witness:
  "\<exists>raw. packetHandler_step True
      (snd (AddChannelBind 0 (NewChannelBind 0x4000 (udp4 9 7000)) (10 * minute) (NewAllocation 3 sample_tuple)))
      (Inr ([1, 2], udp4 9 7000)) = RelayChannelData raw (udp4 1 5000)
    \<and> decode_packet raw = Inr (0x4000, [1, 2])"
proof -
  define a where "a = snd (AddChannelBind 0 (NewChannelBind 0x4000 (udp4 9 7000)) (10 * minute) (NewAllocation 3 sample_tuple))"
  have cbs: "channelBindings a = [\<lparr>Peer = udp4 9 7000, cb_Number = 0x4000, cb_lifetimeTimer = Armed (10 * minute)\<rparr>]"
    "SrcAddr (fiveTuple a) = udp4 1 5000" "GetChannelByAddr a (udp4 9 7000) = Some 0"
    by (simp_all add: a_def manager_eval)
  obtain raw dst where act: "packetHandler_step True a (Inr ([1, 2], udp4 9 7000)) = RelayChannelData raw dst"
    by (simp add: packetHandler_step_def Let_def cbs)
  show ?thesis
    unfolding a_def [symmetric]
    using relay_only_to_client [OF act] act
    by (auto simp: cbs rtpMTU_def isChannelNumberValid_def MinChannelNumber_def MaxChannelNumber_def)
qed

text \<open>
  Deleting an allocation closes the object, stops every timer it owns and removes it from
  the table, so that its timers never fire and a new allocation of the five-tuple is possible; the
  allocations of other five-tuples are not touched.
\<close>

theorem delete_allocation_spec:
  assumes "GetAllocation m ft = Some r" and "manager_inv m" and "m' = DeleteAllocation sc ft m"
  shows "GetAllocation m' ft = None \<and> closed (objs m' ! r)
    \<and> lifetimeTimer (objs m' ! r) = NotArmed
    \<and> (\<forall>(k, p) \<in> set (permissions (objs m' ! r)). p_lifetimeTimer p = NotArmed)
    \<and> (\<forall>c \<in> set (channelBindings (objs m' ! r)). cb_lifetimeTimer c = NotArmed)
    \<and> (\<forall>ft'. Fingerprint ft' \<noteq> Fingerprint ft \<longrightarrow> GetAllocation m' ft' = GetAllocation m ft')
    \<and> (\<forall>r'. r' \<noteq> r \<longrightarrow> objs m' ! r' = objs m ! r')"
proof -
  note r = manager_inv_ref(1,2) [OF assms(2,1)]
  from assms(1,3) have m': "m' = m\<lparr>allocations := AList.delete (Fingerprint ft) (allocations m),
      objs := (objs m)[r := snd (Allocation_Close sc (objs m ! r))]\<rparr>"
    by (simp add: DeleteAllocation_def Let_def GetAllocation_def)
  have obj: "objs m' ! r = snd (Allocation_Close sc (objs m ! r))"
    using r(1) by (simp add: m')
  have "GetAllocation m' ft = None"
    and "\<forall>ft'. Fingerprint ft' \<noteq> Fingerprint ft \<longrightarrow> GetAllocation m' ft' = GetAllocation m ft'"
    by (simp_all add: m' GetAllocation_def gomap_simps)
  moreover have "closed (objs m' ! r)" "lifetimeTimer (objs m' ! r) = NotArmed"
    and "\<forall>(k, p) \<in> set (permissions (objs m' ! r)). p_lifetimeTimer p = NotArmed"
    and "\<forall>c \<in> set (channelBindings (objs m' ! r)). cb_lifetimeTimer c = NotArmed"
    using r(2) unfolding obj by (auto simp: Allocation_Close_def timer_Stop_def)
  moreover have "\<forall>r'. r' \<noteq> r \<longrightarrow> objs m' ! r' = objs m ! r'"
    by (simp add: m')
  ultimately show ?thesis by blast
qed

theorem delete_allocation_spec_witness:
  "GetAllocation (DeleteAllocation (\<lambda>_. None) sample_tuple
      (foldl (manager_step (\<lambda>_. None)) (empty_manager 0) sample_events)) sample_tuple = None"
proof -
  let ?m = "foldl (manager_step (\<lambda>_. None)) (empty_manager 0) sample_events"
  have "GetAllocation ?m sample_tuple = Some 0" by (simp add: manager_eval ip_Equal_def)
  moreover have "manager_inv ?m" by (rule mgr.run_inv) simp
  ultimately show ?thesis using delete_allocation_spec [OF _ _ refl] by blast
qed

lemma even_port_loop_spec:
  "even_port_loop probe i k = Inr p \<Longrightarrow>
     \<exists>j<k. (\<exists>x z. probe (i + j) = Inr (UDPAddr x p z, None)) \<and> even p
       \<and> (\<forall>h<j. \<exists>x q z. probe (i + h) = Inr (UDPAddr x q z, None) \<and> odd q)"
proof (induction k arbitrary: i)
  case 0
  then show ?case by simp
next
  case (Suc k)
  from Suc.prems obtain x q z where pr: "probe i = Inr (UDPAddr x q z, None)"
    by (auto split: sum.splits option.splits net_addr.splits)
  show ?case
  proof (cases "even q")
    case True
    with Suc.prems pr have "p = q" by (simp add: even_iff_mod_2_eq_zero)
    with pr True show ?thesis by (intro exI [of _ 0]) auto
  next
    case False
    with Suc.prems pr have "even_port_loop probe (Suc i) k = Inr p"
      by (simp add: even_iff_mod_2_eq_zero)
    from Suc.IH [OF this] obtain j where j: "j < k" "\<exists>x z. probe (Suc i + j) = Inr (UDPAddr x p z, None)" "even p"
      "\<forall>h<j. \<exists>x q z. probe (Suc i + h) = Inr (UDPAddr x q z, None) \<and> odd q" by blast
    have "\<exists>x q z. probe (i + h) = Inr (UDPAddr x q z, None) \<and> odd q" if "h < Suc j" for h
      using that j(4) pr False by (cases h) auto
    with j(1-3) show ?thesis by (intro exI [of _ "Suc j"]) auto
  qed
qed

text \<open>
  \<open>GetRandomEvenPort\<close> returns within its 128 attempts; a port it returns is even and
  is the port of the first probe with an even port, all earlier probes having succeeded
  with odd ports.
\<close>

lemma random_even_port_spec:
  "case GetRandomEvenPort probe of
     Inr p \<Rightarrow> even p \<and> (\<exists>j<128. (\<exists>x z. probe j = Inr (UDPAddr x p z, None))
                \<and> (\<forall>h<j. \<exists>x q z. probe h = Inr (UDPAddr x q z, None) \<and> odd q))
   | Inl e \<Rightarrow> e \<in> {errFailedToAllocateEvenPort, errFailedToCastUDPAddr} \<union> range errAllocConn"
proof (cases "GetRandomEvenPort probe")
  case (Inr p)
  then show ?thesis using even_port_loop_spec [of probe 0 128 p] by (auto simp: GetRandomEvenPort_def)
next
  case (Inl e)
  have "even_port_loop probe i k = Inl e \<Longrightarrow>
      e \<in> {errFailedToAllocateEvenPort, errFailedToCastUDPAddr} \<union> range errAllocConn" for i k
    by (induction k arbitrary: i) (auto split: sum.splits option.splits net_addr.splits if_splits)
  with Inl show ?thesis by (auto simp: GetRandomEvenPort_def)
qed

lemma random_even_port_spec_witness:
  "GetRandomEvenPort (\<lambda>i. Inr (UDPAddr [127, 0, 0, 1] (5001 + int i) [], None)) = Inr 5002 \<and> even (5002 :: int)"
proof -
  let ?p = "\<lambda>i :: nat. Inr (UDPAddr [127, 0, 0, 1] (5001 + int i) [], None) :: string + net_addr \<times> string option"
  have "GetRandomEvenPort ?p = Inr 5002"
    by (simp add: GetRandomEvenPort_def eval_nat_numeral)
  with random_even_port_spec [of ?p] show ?thesis by simp
qed

section \<open>Two behaviours that differ from the stated intent\<close>

abbreviation silent :: "sock \<Rightarrow> string option" where "silent \<equiv> (\<lambda>_. None)"

abbreviation lapsed_events :: "manager_event list" where
  "lapsed_events \<equiv>
     [EvCreate sample_tuple 3 (Inr (4, udp4 2 50000)) hour,
      EvChannelBind sample_tuple 0x4000 (udp4 9 7000) (10 * minute),
      EvTick (6 * minute),
      EvPermissionTimer 0 (FingerprintAddr (udp4 9 7000))]"

text \<open>
  The comment above \<open>packetHandler\<close> says that a datagram is relayed only if the
  permissions of the allocation allow it. The code looks for a channel first and does not
  consult the permissions then: there is a history after which the peer has no permission any
  more (it expired after five minutes, the channel lives for ten) and its datagrams are
  still relayed.
\<close>

lemma relay_after_permission_expired:
  "\<exists>es a raw. a \<in> set (objs (foldl (manager_step silent) (empty_manager 0) es))
     \<and> \<not> closed a \<and> GetPermission a (udp4 9 7000) = None
     \<and> packetHandler_step True a (Inr ([1], udp4 9 7000)) = RelayChannelData raw (udp4 1 5000)"
proof -
  define m where "m = foldl (manager_step silent) (empty_manager 0) lapsed_events"
  define a where "a = objs m ! 0"
  have "a \<in> set (objs m)" "\<not> closed a" "SrcAddr (fiveTuple a) = udp4 1 5000" "permissions a = []"
    "channelBindings a = [\<lparr>Peer = udp4 9 7000, cb_Number = 0x4000, cb_lifetimeTimer = Armed (10 * minute)\<rparr>]"
    by (simp_all add: a_def m_def manager_eval permissionTimeout_def RemovePermission_def)
  then show ?thesis
    unfolding m_def
    by (intro exI [of _ lapsed_events] exI [of _ a])
       (simp add: GetPermission_def packetHandler_step_def GetChannelByAddr_def Let_def)
qed

text \<open>
  An allocation object that was closed stays closed and keeps its five-tuple, and a table entry is either the old one or refers to a later object.
\<close>

lemma manager_step_objs:
  assumes "r < length (objs m)"
  shows "r < length (objs (manager_step sc m e)) \<and> fiveTuple (objs (manager_step sc m e) ! r) = fiveTuple (objs m ! r) \<and>
         (closed (objs m ! r) \<longrightarrow> closed (objs (manager_step sc m e) ! r))"
  using assms
  by (cases e) (auto simp: CreateAllocation_def arg_of_def DeleteAllocation_def Allocation_Close_def on_alloc_def update_obj_def
      CreateReservation_def ExpireReservation_def packetHandler_step_def nth_list_update_any nth_append Let_def
      split: option.splits sum.splits)

lemma manager_step_entry:
  "GetAllocation (manager_step sc m e) ft = Some n \<Longrightarrow> GetAllocation m ft = Some n \<or> length (objs m) \<le> n"
  by (cases e) (auto simp: CreateAllocation_def arg_of_def DeleteAllocation_def on_alloc_def update_obj_def GetAllocation_def
      CreateReservation_def ExpireReservation_def packetHandler_step_def gomap_simps Let_def
      split: option.splits sum.splits if_splits)

definition superseded :: "nat \<Rightarrow> nat \<Rightarrow> FiveTuple \<Rightarrow> Manager \<Rightarrow> bool" where
  "superseded l r ft m \<longleftrightarrow>
     r < l \<and> l \<le> length (objs m) \<and> closed (objs m ! r) \<and> Fingerprint (fiveTuple (objs m ! r)) = Fingerprint ft \<and>
     (\<forall>n. GetAllocation m ft = Some n \<longrightarrow> l \<le> n)"

lemma objs_grow: "length (objs m) \<le> length (objs (manager_step sc m e))"
  using manager_step_objs [of "length (objs m) - 1" m sc e] by (cases "objs m") auto

interpretation gone: guarded_system "manager_step sc" "superseded l r ft" for sc l r ft
proof
  fix m :: Manager and e :: manager_event
  assume s: "superseded l r ft m"
  then have "r < length (objs m)" by (simp add: superseded_def)
  with s manager_step_objs [OF this, of sc e] manager_step_entry [of sc m e ft] objs_grow [of m sc e] show "superseded l r ft (manager_step sc m e)"
    by (fastforce simp: superseded_def)
qed

text \<open>
  C39. The packet handler of a deleted allocation reads an error from its closed socket and then deletes the allocation of its five-tuple, which may be
  a newer one. In every history in which an allocation \<open>r\<close> was deleted and the same five-tuple has an allocation \<open>n\<close> again, whatever else happened
  before, between and after: \<open>n\<close> is a later object and open, the object \<open>r\<close> is closed, and when the leftover handler of \<open>r\<close> comes to its read error,
  \<open>n\<close> leaves the table and is closed, while the entries of the other five-tuples stay.
\<close>

theorem stale_handler_deletes_new_allocation:
  assumes "m0 = foldl (manager_step sc) (empty_manager t) es" and "GetAllocation m0 ft = Some r"
    and "m = foldl (manager_step sc) m0 (EvDelete ft # fs)" and "GetAllocation m ft = Some n"
    and "m' = manager_step sc m (EvReadError r)"
  shows "r < n \<and> closed (objs m ! r) \<and> \<not> closed (objs m ! n)
     \<and> GetAllocation m' ft = None \<and> closed (objs m' ! n)
     \<and> (\<forall>ft'. Fingerprint ft' \<noteq> Fingerprint ft \<longrightarrow> GetAllocation m' ft' = GetAllocation m ft')"
proof -
  have inv0: "manager_inv m0" unfolding assms(1) by (rule mgr.run_inv) simp
  have inv: "manager_inv m" unfolding assms(3) by (rule mgr.run_inv [OF inv0])
  note r = manager_inv_ref [OF inv0 assms(2)]
  have "superseded (length (objs m0)) r ft (manager_step sc m0 (EvDelete ft))"
    using r assms(2) by (auto simp: superseded_def DeleteAllocation_def GetAllocation_def Allocation_Close_def gomap_simps Let_def)
  then have "superseded (length (objs m0)) r ft m" unfolding assms(3) by (simp add: gone.run_inv)
  then have s: "r < n" "closed (objs m ! r)" "r < length (objs m)" "Fingerprint (fiveTuple (objs m ! r)) = Fingerprint ft"
    using assms(4) by (auto simp: superseded_def)
  have m': "m' = DeleteAllocation sc (fiveTuple (objs m ! r)) m" using s(3) by (simp add: assms(5) packetHandler_step_def)
  note n = manager_inv_ref [OF inv assms(4)]
  have "GetAllocation m' ft' = GetAllocation m ft'" if "Fingerprint ft' \<noteq> Fingerprint ft" for ft'
    using that s(4) assms(4) unfolding m' by (auto simp: DeleteAllocation_def GetAllocation_def gomap_simps Let_def)
  moreover have "GetAllocation m' ft = None" "closed (objs m' ! n)"
    using s(4) n assms(4) unfolding m' by (auto simp: DeleteAllocation_def GetAllocation_def Allocation_Close_def gomap_simps Let_def)
  ultimately show ?thesis using s n by blast
qed

abbreviation reallocated :: Manager where
  "reallocated \<equiv> foldl (manager_step silent) (empty_manager 0)
     [EvCreate sample_tuple 3 (Inr (4, udp4 2 50000)) hour, EvDelete sample_tuple, EvCreate sample_tuple 3 (Inr (5, udp4 2 50002)) hour]"

theorem stale_handler_deletes_new_allocation_witness:
  "lifetimeTimer (objs reallocated ! 1) = Armed (now reallocated + hour) \<and> GetAllocation reallocated sample_tuple = Some 1 \<and>
   \<not> closed (objs reallocated ! 1) \<and>
   GetAllocation (manager_step silent reallocated (EvReadError 0)) sample_tuple = None \<and> closed (objs (manager_step silent reallocated (EvReadError 0)) ! 1)"
proof -
  have 0: "GetAllocation (foldl (manager_step silent) (empty_manager 0) [EvCreate sample_tuple 3 (Inr (4, udp4 2 50000)) hour]) sample_tuple = Some 0"
    by (simp add: manager_eval)
  have 1: "GetAllocation reallocated sample_tuple = Some 1" "lifetimeTimer (objs reallocated ! 1) = Armed (now reallocated + hour)"
    by (simp_all add: manager_eval DeleteAllocation_def Allocation_Close_def)
  from stale_handler_deletes_new_allocation [OF refl 0 _ 1(1) refl, where fs = "[EvCreate sample_tuple 3 (Inr (5, udp4 2 50002)) hour]"] 1
  show ?thesis by simp
qed

end
