(* ===== verification/TurnServer.thy ===== *)
theory TurnServer
  imports TurnAllocation
begin

text \<open>
  The request handlers of the TURN server: \<open>internal/server/{server,turn,stun,util}.go\<close>.
  A request is one datagram together with the server's configuration; the STUN package, the
  authentication callback, the sockets and the random sources are fields of the request record, the
  server's own state is the allocation manager, the nonce table and what was sent.
  Shown: nothing of the allocation state changes without a fresh nonce and a checked
  integrity attribute, data leaves a relay socket only towards a permitted or bound peer, every handler
  is a sequence of manager operations and so keeps the invariants of the manager, and
  what an Allocate request answers and installs.
\<close>

section \<open>Requests and the server state\<close>

text \<open>The part of the STUN package that the handlers use beside the attribute codec.\<close>

record 'm stun_msg_lib = "'m stun_lib" +
  msg_Decode :: "bytes \<Rightarrow> string + 'm"
  msg_Class :: "'m \<Rightarrow> stun_class"
  msg_Method :: "'m \<Rightarrow> stun_method"
  TransactionID :: "'m \<Rightarrow> bytes"
  m_Contains :: "'m \<Rightarrow> stun_attr \<Rightarrow> bool"
  Nonce_GetFrom :: "'m \<Rightarrow> string + string"
  Realm_GetFrom :: "'m \<Rightarrow> string + string"
  Username_GetFrom :: "'m \<Rightarrow> string + string"
  m_ForEach :: "'m \<Rightarrow> stun_attr \<Rightarrow> 'm list"
  Integrity_Check :: "bytes \<Rightarrow> 'm \<Rightarrow> string option"

datatype write_result = WriteOk | WriteClosed | WriteErr string

text \<open>
  \<open>Request\<close>. The fields after \<open>ChannelBindTimeout\<close> are the outside world of this one
  request: what building and sending a response returns, the relay sockets, the random sources.
\<close>

record 'm Request =
  lib :: "'m stun_msg_lib"
  Conn :: sock
  LocalAddr :: net_addr
  r_SrcAddr :: net_addr
  Buff :: bytes
  AuthHandler :: "string \<Rightarrow> string \<Rightarrow> net_addr \<Rightarrow> bytes option"
  Realm :: string
  ChannelBindTimeout :: duration
  permissionHandler :: "(net_addr \<Rightarrow> ip \<Rightarrow> bool) option"
  stun_Build :: "setter list \<Rightarrow> string option"
  conn_WriteTo :: write_result
  relay_WriteTo :: "sock \<Rightarrow> bytes \<Rightarrow> net_addr \<Rightarrow> nat \<times> string option"
  sock_Close :: "sock \<Rightarrow> string option"
  allocatePacketConn :: "int \<Rightarrow> string + sock \<times> net_addr"
  even_probe :: "nat \<Rightarrow> string + net_addr \<times> string option"
  rand_Intn :: "nat \<Rightarrow> nat"
  md5_sum :: "string \<Rightarrow> bytes"
  md5_write_err :: "string \<Rightarrow> string option"
  rand_Int63 :: nat

datatype srv_error =
    errFailedToGenerateNonce string
  | errFailedToSendError string
  | errDuplicatedNonce
  | errNoSuchUser string
  | errUnexpectedClass
  | errUnexpectedMethod
  | errFailedToHandle srv_error
  | errUnhandledSTUNPacket srv_error
  | errUnableToHandleChannelData srv_error
  | errFailedToCreateSTUNPacket string
  | errFailedToCreateChannelData proto_error
  | errRelayAlreadyAllocatedForFiveTuple
  | errUnsupportedTransportProtocol
  | errNoDontFragmentSupport
  | errRequestWithReservationTokenAndEvenPort
  | errNoAllocationFound
  | errNoPermission
  | errShortWrite
  | errNoSuchChannelBind
  | errFailedWriteSocket string
  | errStun string
  | errProto proto_error
  | errAlloc alloc_error
  | errIpnet ipnet_error
  | errConn string

text \<open>
  Keys of the nonce table. It is a \<open>sync.Map\<close>, keyed by interface values: a string and a
  pointer to a \<open>stun.Nonce\<close> are different keys whatever the pointer refers to.
\<close>

datatype nonce_key = NonceString string | NoncePointer string

datatype outgoing =
    ToClient net_addr bytes stun_method stun_class "setter list"
  | ToPeer sock bytes net_addr

record server =
  s_Manager :: Manager
  Nonces :: "(nonce_key, int) gomap"
  outbox :: "outgoing list"

definition maximumAllocationLifetime :: duration where "maximumAllocationLifetime = hour"
definition nonceLifetime :: duration where "nonceLifetime = hour"

definition CodeBadRequest :: nat where "CodeBadRequest = 400"
definition CodeUnauthorized :: nat where "CodeUnauthorized = 401"
definition CodeUnknownAttribute :: nat where "CodeUnknownAttribute = 420"
definition CodeAllocMismatch :: nat where "CodeAllocMismatch = 437"
definition CodeStaleNonce :: nat where "CodeStaleNonce = 438"
definition CodeUnsupportedTransProto :: nat where "CodeUnsupportedTransProto = 442"
definition CodeInsufficientCapacity :: nat where "CodeInsufficientCapacity = 508"

section \<open>Helpers (util.go)\<close>

definition letters :: string where
  "letters = ''abcdefghijklmnopqrstuvwxyzABCDEFGHIJKLMNOPQRSTUVWXYZ''"

definition randSeq :: "(nat \<Rightarrow> nat) \<Rightarrow> nat \<Rightarrow> string" where
  "randSeq intn n = map (\<lambda>i. letters ! intn i) [0..<n]"

text \<open>The hash is fed two strings; either write may report an error.\<close>

definition buildNonce :: "'m Request \<Rightarrow> int \<Rightarrow> srv_error + string" where
  "buildNonce r t =
     (let a = itoa (t div second); b = itoa (int (rand_Int63 r))
      in case md5_write_err r a of
           Some e \<Rightarrow> Inl (errFailedToGenerateNonce e)
         | None \<Rightarrow>
             (case md5_write_err r b of
                Some e \<Rightarrow> Inl (errFailedToGenerateNonce e)
              | None \<Rightarrow> Inr (concat (map hex_byte (md5_sum r (a @ b))))))"

type_synonym built_msg = "bytes \<times> stun_method \<times> stun_class \<times> setter list"

definition buildMsg :: "bytes \<Rightarrow> stun_method \<Rightarrow> stun_class \<Rightarrow> setter list \<Rightarrow> built_msg" where
  "buildMsg transactionID method cls additional = (transactionID, method, cls, additional)"

definition buildAndSend :: "'m Request \<Rightarrow> net_addr \<Rightarrow> built_msg \<Rightarrow> server \<Rightarrow> srv_error option \<times> server" where
  "buildAndSend r dst msg s =
     (case msg of (tid, method, cls, attrs) \<Rightarrow>
        (case stun_Build r attrs of
           Some e \<Rightarrow> (Some (errStun e), s)
         | None \<Rightarrow>
             (case conn_WriteTo r of
                WriteOk \<Rightarrow> (None, s\<lparr>outbox := outbox s @ [ToClient dst tid method cls attrs]\<rparr>)
              | WriteClosed \<Rightarrow> (None, s)
              | WriteErr e \<Rightarrow> (Some (errConn e), s))))"

text \<open>\<open>fmt.Errorf\<close> of the send error and the original error: a wrapped \<open>errFailedToSendError\<close>.\<close>

definition buildAndSendErr ::
    "'m Request \<Rightarrow> net_addr \<Rightarrow> srv_error \<Rightarrow> built_msg \<Rightarrow> server \<Rightarrow> srv_error option \<times> server" where
  "buildAndSendErr r dst err msg s =
     (case buildAndSend r dst msg s of
        (None, s') \<Rightarrow> (Some err, s')
      | (Some (errStun e), s') \<Rightarrow> (Some (errFailedToSendError e), s')
      | (Some (errConn e), s') \<Rightarrow> (Some (errFailedToSendError e), s')
      | (Some _, s') \<Rightarrow> (Some err, s'))"

definition respondWithNonce ::
    "'m Request \<Rightarrow> 'm \<Rightarrow> stun_method \<Rightarrow> nat \<Rightarrow> server \<Rightarrow> srv_error option \<times> server" where
  "respondWithNonce r m callingMethod responseCode s =
     (case buildNonce r (now (s_Manager s)) of
        Inl e \<Rightarrow> (Some e, s)
      | Inr nonce \<Rightarrow>
          (if map_of (Nonces s) (NonceString nonce) \<noteq> None then (Some errDuplicatedNonce, s)
           else buildAndSend r (r_SrcAddr r)
                  (buildMsg (TransactionID (lib r) m) callingMethod ClassErrorResponse
                     [SErrorCode responseCode, SNonce nonce, SRealm (Realm r)])
                  (s\<lparr>Nonces := AList.update (NonceString nonce) (now (s_Manager s)) (Nonces s)\<rparr>)))"

text \<open>The result: the integrity key when the request is authenticated, otherwise what to return.\<close>

definition authenticateRequest ::
    "'m Request \<Rightarrow> 'm \<Rightarrow> stun_method \<Rightarrow> server \<Rightarrow> (srv_error option + bytes) \<times> server" where
  "authenticateRequest r m callingMethod s =
     (let badRequestMsg = buildMsg (TransactionID (lib r) m) callingMethod ClassErrorResponse [SErrorCode CodeBadRequest];
          refuse = (\<lambda>res. (Inl (fst res), snd res));
          bad = (\<lambda>e. refuse (buildAndSendErr r (r_SrcAddr r) e badRequestMsg s));
          stale = (\<lambda>nonce. refuse (respondWithNonce r m callingMethod CodeStaleNonce
                     (s\<lparr>Nonces := AList.delete (NoncePointer nonce) (Nonces s)\<rparr>)))
      in if \<not> m_Contains (lib r) m AttrMessageIntegrity
         then refuse (respondWithNonce r m callingMethod CodeUnauthorized s)
         else case Nonce_GetFrom (lib r) m of
           Inl e \<Rightarrow> bad (errStun e)
         | Inr nonce \<Rightarrow>
             (case map_of (Nonces s) (NonceString nonce) of
                None \<Rightarrow> stale nonce
              | Some created \<Rightarrow>
                  (if now (s_Manager s) - created \<ge> nonceLifetime then stale nonce
                   else case Realm_GetFrom (lib r) m of
                     Inl e \<Rightarrow> bad (errStun e)
                   | Inr realm \<Rightarrow>
                       (case Username_GetFrom (lib r) m of
                          Inl e \<Rightarrow> bad (errStun e)
                        | Inr username \<Rightarrow>
                            (case AuthHandler r username realm (r_SrcAddr r) of
                               None \<Rightarrow> bad (errNoSuchUser username)
                             | Some ourKey \<Rightarrow>
                                 (case Integrity_Check (lib r) ourKey m of
                                    Some e \<Rightarrow> bad (errStun e)
                                  | None \<Rightarrow> (Inr ourKey, s)))))))"

text \<open>A requested lifetime of an hour or more falls back to the default of ten minutes.\<close>

definition allocationLifeTime :: "('m, 'z) stun_lib_scheme \<Rightarrow> 'm \<Rightarrow> duration" where
  "allocationLifeTime L m =
     (case Lifetime_GetFrom (stun_lib.truncate L) m of
        Inr d \<Rightarrow> (if d < maximumAllocationLifetime then d else DefaultLifetime)
      | Inl e \<Rightarrow> DefaultLifetime)"

section \<open>The handlers (turn.go, stun.go)\<close>

abbreviation attrs_of :: "'m Request \<Rightarrow> 'm stun_lib" where
  "attrs_of r \<equiv> stun_lib.truncate (lib r)"

definition request_tuple :: "'m Request \<Rightarrow> FiveTuple" where
  "request_tuple r = \<lparr>ft_Protocol = UDP, SrcAddr = r_SrcAddr r, DstAddr = LocalAddr r\<rparr>"

definition set_mgr :: "Manager \<Rightarrow> server \<Rightarrow> server" where
  "set_mgr m s = s\<lparr>s_Manager := m\<rparr>"

definition handleBindingRequest :: "'m Request \<Rightarrow> 'm \<Rightarrow> server \<Rightarrow> srv_error option \<times> server" where
  "handleBindingRequest r m s =
     (case AddrIPPort (r_SrcAddr r) of
        Inl e \<Rightarrow> (Some (errIpnet e), s)
      | Inr (srcIP, srcPort) \<Rightarrow>
          buildAndSend r (r_SrcAddr r)
            (buildMsg (TransactionID (lib r) m) MethodBinding ClassSuccessResponse
               [SXORMappedAddress srcIP srcPort, SFingerprint]) s)"


text \<open>
  The last part of \<open>handleAllocateRequest\<close>: the allocation \<open>i\<close> exists, the response is
  put together, cached and sent.
\<close>

definition allocate_respond ::
    "'m Request \<Rightarrow> 'm \<Rightarrow> bytes \<Rightarrow> duration \<Rightarrow> string \<Rightarrow> nat \<Rightarrow> server \<Rightarrow> srv_error option \<times> server" where
  "allocate_respond r m key lifetimeDuration reservationToken i s =
     (let bad = (\<lambda>e. buildAndSendErr r (r_SrcAddr r) e
             (buildMsg (TransactionID (lib r) m) MethodAllocate ClassErrorResponse [SErrorCode CodeBadRequest]) s)
      in case AddrIPPort (r_SrcAddr r) of
           Inl e \<Rightarrow> bad (errIpnet e)
         | Inr (srcIP, srcPort) \<Rightarrow>
             (case AddrIPPort (RelayAddr (objs (s_Manager s) ! i)) of
                Inl e \<Rightarrow> bad (errIpnet e)
              | Inr (relayIP, relayPort) \<Rightarrow>
                  (let m1 = (if reservationToken \<noteq> [] then CreateReservation reservationToken relayPort (s_Manager s)
                             else s_Manager s);
                       responseAttrs = [SRelayedAddress relayIP relayPort, SLifetime lifetimeDuration,
                           SXORMappedAddress srcIP srcPort]
                         @ (if reservationToken \<noteq> [] then [SReservationToken reservationToken] else []);
                       m2 = update_obj i (SetResponseCache (TransactionID (lib r) m) responseAttrs) m1
                   in buildAndSend r (r_SrcAddr r)
                        (buildMsg (TransactionID (lib r) m) MethodAllocate ClassSuccessResponse
                           (responseAttrs @ [SIntegrity key])) (set_mgr m2 s))))"

text \<open>Steps 7 and 8 and what follows them: create the allocation, then answer.\<close>

definition allocate_create ::
    "'m Request \<Rightarrow> 'm \<Rightarrow> bytes \<Rightarrow> int \<Rightarrow> string \<Rightarrow> server \<Rightarrow> srv_error option \<times> server" where
  "allocate_create r m messageIntegrity requestedPort reservationToken s =
     (case CreateAllocation (allocatePacketConn r) (arg_of (request_tuple r)) (Some (Conn r))
             requestedPort (allocationLifeTime (lib r) m) (s_Manager s) of
        (Inl e, mg) \<Rightarrow>
          buildAndSendErr r (r_SrcAddr r) (errAlloc e)
            (buildMsg (TransactionID (lib r) m) MethodAllocate ClassErrorResponse
               [SErrorCode CodeInsufficientCapacity]) s
      | (Inr i, mg) \<Rightarrow>
          allocate_respond r m messageIntegrity (allocationLifeTime (lib r) m) reservationToken i (set_mgr mg s))"

definition handleAllocateRequest :: "'m Request \<Rightarrow> 'm \<Rightarrow> server \<Rightarrow> srv_error option \<times> server" where
  "handleAllocateRequest r m s0 =
     (case authenticateRequest r m MethodAllocate s0 of
        (Inl e, s) \<Rightarrow> (e, s)
      | (Inr messageIntegrity, s) \<Rightarrow>
          (let fiveTuple = request_tuple r;
               errMsg = (\<lambda>attrs. buildMsg (TransactionID (lib r) m) MethodAllocate ClassErrorResponse attrs);
               refuse = (\<lambda>e attrs. buildAndSendErr r (r_SrcAddr r) e (errMsg attrs) s)
           in case GetAllocation (s_Manager s) fiveTuple of
             Some i \<Rightarrow>
               (case GetResponseCache (objs (s_Manager s) ! i) of (cid, attrs) \<Rightarrow>
                  (if cid \<noteq> TransactionID (lib r) m
                   then refuse errRelayAlreadyAllocatedForFiveTuple [SErrorCode CodeAllocMismatch]
                   else buildAndSend r (r_SrcAddr r)
                          (buildMsg (TransactionID (lib r) m) MethodAllocate ClassSuccessResponse
                             (attrs @ [SIntegrity messageIntegrity])) s))
           | None \<Rightarrow>
               (case RequestedTransport_GetFrom (attrs_of r) m of
                  Inl e \<Rightarrow> refuse (errProto e) [SErrorCode CodeBadRequest]
                | Inr requestedTransport \<Rightarrow>
                    (if rt_Protocol requestedTransport \<noteq> ProtoUDP \<and> rt_Protocol requestedTransport \<noteq> ProtoTCP
                     then refuse errUnsupportedTransportProtocol [SErrorCode CodeUnsupportedTransProto]
                     else if m_Contains (lib r) m AttrDontFragment
                     then refuse errNoDontFragmentSupport
                            [SErrorCode CodeUnknownAttribute, SUnknownAttributes [AttrDontFragment]]
                     else
                       let evenPort = EvenPort_GetFrom (attrs_of r) \<lparr>ReservePort = False\<rparr> m
                       in case (ReservationToken_GetFrom (attrs_of r) m, evenPort) of
                            (Inr _, Inr _) \<Rightarrow>
                              refuse errRequestWithReservationTokenAndEvenPort [SErrorCode CodeBadRequest]
                          | (_, Inr _) \<Rightarrow>
                              (case GetRandomEvenPort (even_probe r) of
                                 Inl e \<Rightarrow> refuse (errAlloc e) [SErrorCode CodeInsufficientCapacity]
                               | Inr randomPort \<Rightarrow> allocate_create r m messageIntegrity randomPort (randSeq (rand_Intn r) 8) s)
                          | (_, Inl _) \<Rightarrow> allocate_create r m messageIntegrity 0 [] s))))"

definition handleRefreshRequest :: "'m Request \<Rightarrow> 'm \<Rightarrow> server \<Rightarrow> srv_error option \<times> server" where
  "handleRefreshRequest r m s0 =
     (case authenticateRequest r m MethodRefresh s0 of
        (Inl e, s) \<Rightarrow> (e, s)
      | (Inr messageIntegrity, s) \<Rightarrow>
          (let lifetimeDuration = allocationLifeTime (lib r) m;
               mg = s_Manager s;
               respond = (\<lambda>mg'. buildAndSend r (r_SrcAddr r)
                  (buildMsg (TransactionID (lib r) m) MethodRefresh ClassSuccessResponse
                     [SLifetime lifetimeDuration, SIntegrity messageIntegrity]) (set_mgr mg' s))
           in if lifetimeDuration \<noteq> 0 then
                (case GetAllocation mg (request_tuple r) of
                   None \<Rightarrow> (Some errNoAllocationFound, s)
                 | Some i \<Rightarrow> respond (update_obj i (Refresh (now mg) lifetimeDuration) mg))
              else respond (DeleteAllocation (sock_Close r) (request_tuple r) mg)))"

text \<open>
  The callback over the XOR-PEER-ADDRESS attributes: it stops at the first error, which
  resets the count but not the permissions added before.
\<close>

fun add_permissions :: "'m Request \<Rightarrow> nat \<Rightarrow> 'm list \<Rightarrow> nat \<Rightarrow> Manager \<Rightarrow> nat \<times> Manager" where
  "add_permissions r i [] addCount mg = (addCount, mg)"
| "add_permissions r i (v # vs) addCount mg =
     (case PeerAddress_GetFrom (attrs_of r) v of
        Inl e \<Rightarrow> (0, mg)
      | Inr peerAddress \<Rightarrow>
          (case GrantPermission (permissionHandler r) (r_SrcAddr r) (pa_IP peerAddress) of
             Some e \<Rightarrow> (0, mg)
           | None \<Rightarrow>
               add_permissions r i vs (Suc addCount)
                 (update_obj i (AddPermission (now mg)
                    (NewPermission (UDPAddr (pa_IP peerAddress) (pa_Port peerAddress) []))) mg)))"

definition handleCreatePermissionRequest :: "'m Request \<Rightarrow> 'm \<Rightarrow> server \<Rightarrow> srv_error option \<times> server" where
  "handleCreatePermissionRequest r m s0 =
     (case GetAllocation (s_Manager s0) (request_tuple r) of
        None \<Rightarrow> (Some errNoAllocationFound, s0)
      | Some i \<Rightarrow>
          (case authenticateRequest r m MethodCreatePermission s0 of
             (Inl e, s) \<Rightarrow> (e, s)
           | (Inr messageIntegrity, s) \<Rightarrow>
               (case add_permissions r i (m_ForEach (lib r) m AttrXORPeerAddress) 0 (s_Manager s) of
                  (addCount, mg) \<Rightarrow>
                    buildAndSend r (r_SrcAddr r)
                      (buildMsg (TransactionID (lib r) m) MethodCreatePermission
                         (if addCount = 0 then ClassErrorResponse else ClassSuccessResponse)
                         [SIntegrity messageIntegrity]) (set_mgr mg s))))"

definition handleSendIndication :: "'m Request \<Rightarrow> 'm \<Rightarrow> server \<Rightarrow> srv_error option \<times> server" where
  "handleSendIndication r m s =
     (case GetAllocation (s_Manager s) (request_tuple r) of
        None \<Rightarrow> (Some errNoAllocationFound, s)
      | Some i \<Rightarrow>
          (let a = objs (s_Manager s) ! i
           in case Data_GetFrom (attrs_of r) m of
                Inl e \<Rightarrow> (Some (errProto e), s)
              | Inr dataAttr \<Rightarrow>
                  (case PeerAddress_GetFrom (attrs_of r) m of
                     Inl e \<Rightarrow> (Some (errProto e), s)
                   | Inr peerAddress \<Rightarrow>
                       (let msgDst = UDPAddr (pa_IP peerAddress) (pa_Port peerAddress) []
                        in if GetPermission a msgDst = None then (Some errNoPermission, s)
                           else case relay_WriteTo r (RelaySocket a) dataAttr msgDst of (l, err) \<Rightarrow>
                             (let s' = s\<lparr>outbox := outbox s @ [ToPeer (RelaySocket a) dataAttr msgDst]\<rparr>
                              in if l \<noteq> length dataAttr then (Some errShortWrite, s')
                                 else (map_option errConn err, s'))))))"

definition handleChannelBindRequest :: "'m Request \<Rightarrow> 'm \<Rightarrow> server \<Rightarrow> srv_error option \<times> server" where
  "handleChannelBindRequest r m s0 =
     (case GetAllocation (s_Manager s0) (request_tuple r) of
        None \<Rightarrow> (Some errNoAllocationFound, s0)
      | Some i \<Rightarrow>
          (case authenticateRequest r m MethodChannelBind s0 of
             (Inl e, s) \<Rightarrow> (e, s)
           | (Inr messageIntegrity, s) \<Rightarrow>
               (let mg = s_Manager s;
                    refuse = (\<lambda>e code. buildAndSendErr r (r_SrcAddr r) e
                       (buildMsg (TransactionID (lib r) m) MethodChannelBind ClassErrorResponse [SErrorCode code]) s)
                in case ChannelNumber_GetFrom (attrs_of r) m of
                     Inl e \<Rightarrow> refuse (errProto e) CodeBadRequest
                   | Inr channel \<Rightarrow>
                       (case PeerAddress_GetFrom (attrs_of r) m of
                          Inl e \<Rightarrow> refuse (errProto e) CodeBadRequest
                        | Inr peerAddr \<Rightarrow>
                            (case GrantPermission (permissionHandler r) (r_SrcAddr r) (pa_IP peerAddr) of
                               Some e \<Rightarrow> refuse (errAlloc e) CodeUnauthorized
                             | None \<Rightarrow>
                                 (case AddChannelBind (now mg)
                                         (NewChannelBind channel (UDPAddr (pa_IP peerAddr) (pa_Port peerAddr) []))
                                         (ChannelBindTimeout r) (objs mg ! i) of
                                    (Some e, _) \<Rightarrow> refuse (errAlloc e) CodeBadRequest
                                  | (None, a') \<Rightarrow>
                                      buildAndSend r (r_SrcAddr r)
                                        (buildMsg (TransactionID (lib r) m) MethodChannelBind ClassSuccessResponse
                                           [SIntegrity messageIntegrity])
                                        (set_mgr (update_obj i (\<lambda>_. a') mg) s)))))))"

definition handleChannelData :: "'m Request \<Rightarrow> ChannelData \<Rightarrow> server \<Rightarrow> srv_error option \<times> server" where
  "handleChannelData r c s =
     (case GetAllocation (s_Manager s) (request_tuple r) of
        None \<Rightarrow> (Some errNoAllocationFound, s)
      | Some i \<Rightarrow>
          (let a = objs (s_Manager s) ! i
           in case GetChannelByNumber a (Number c) of
                None \<Rightarrow> (Some errNoSuchChannelBind, s)
              | Some j \<Rightarrow>
                  (let peer = Peer (channelBindings a ! j)
                   in case relay_WriteTo r (RelaySocket a) (Data c) peer of (l, err) \<Rightarrow>
                        (let s' = s\<lparr>outbox := outbox s @ [ToPeer (RelaySocket a) (Data c) peer]\<rparr>
                         in case err of
                              Some e \<Rightarrow> (Some (errFailedWriteSocket e), s')
                            | None \<Rightarrow> (if l \<noteq> length (Data c) then (Some errShortWrite, s') else (None, s'))))))"

section \<open>Dispatch (server.go)\<close>

datatype handler =
    HSendIndication | HAllocateRequest | HRefreshRequest | HCreatePermissionRequest
  | HChannelBindRequest | HBindingRequest

fun run_handler :: "handler \<Rightarrow> 'm Request \<Rightarrow> 'm \<Rightarrow> server \<Rightarrow> srv_error option \<times> server" where
  "run_handler HSendIndication = handleSendIndication"
| "run_handler HAllocateRequest = handleAllocateRequest"
| "run_handler HRefreshRequest = handleRefreshRequest"
| "run_handler HCreatePermissionRequest = handleCreatePermissionRequest"
| "run_handler HChannelBindRequest = handleChannelBindRequest"
| "run_handler HBindingRequest = handleBindingRequest"

definition getMessageHandler :: "stun_class \<Rightarrow> stun_method \<Rightarrow> srv_error + handler" where
  "getMessageHandler cls method =
     (case cls of
        ClassIndication \<Rightarrow> (case method of MethodSend \<Rightarrow> Inr HSendIndication | _ \<Rightarrow> Inl errUnexpectedMethod)
      | ClassRequest \<Rightarrow>
          (case method of
             MethodAllocate \<Rightarrow> Inr HAllocateRequest
           | MethodRefresh \<Rightarrow> Inr HRefreshRequest
           | MethodCreatePermission \<Rightarrow> Inr HCreatePermissionRequest
           | MethodChannelBind \<Rightarrow> Inr HChannelBindRequest
           | MethodBinding \<Rightarrow> Inr HBindingRequest
           | _ \<Rightarrow> Inl errUnexpectedMethod)
      | _ \<Rightarrow> Inl errUnexpectedClass)"

definition handleTURNPacket :: "'m Request \<Rightarrow> server \<Rightarrow> srv_error option \<times> server" where
  "handleTURNPacket r s =
     (case msg_Decode (lib r) (Buff r) of
        Inl e \<Rightarrow> (Some (errFailedToCreateSTUNPacket e), s)
      | Inr m \<Rightarrow>
          (case getMessageHandler (msg_Class (lib r) m) (msg_Method (lib r) m) of
             Inl e \<Rightarrow> (Some (errUnhandledSTUNPacket e), s)
           | Inr h \<Rightarrow> (case run_handler h r m s of (e, s') \<Rightarrow> (map_option errFailedToHandle e, s'))))"

definition handleDataPacket :: "'m Request \<Rightarrow> server \<Rightarrow> srv_error option \<times> server" where
  "handleDataPacket r s =
     (case cd_Decode (raw_ChannelData (Buff r)) of
        (_, Some e) \<Rightarrow> (Some (errFailedToCreateChannelData e), s)
      | (c, None) \<Rightarrow>
          (case handleChannelData r c s of (e, s') \<Rightarrow> (map_option errUnableToHandleChannelData e, s')))"

definition HandleRequest :: "'m Request \<Rightarrow> server \<Rightarrow> srv_error option \<times> server" where
  "HandleRequest r s = (if IsChannelData (Buff r) then handleDataPacket r s else handleTURNPacket r s)"


section \<open>A concrete message package\<close>

text \<open>
  A message is its class, its method and the list of its attributes; every buffer decodes to one given
  message, and the integrity attribute has to hold the key itself.
\<close>

type_synonym demo_msg = "stun_class \<times> stun_method \<times> (stun_attr \<times> bytes) list"

definition demo_lib :: "demo_msg \<Rightarrow> demo_msg stun_msg_lib" where
  "demo_lib msg = \<lparr>
     m_Get = (\<lambda>m. m_Get list_stun_lib (snd (snd m))),
     m_Add = (\<lambda>m t v. (fst m, fst (snd m), m_Add list_stun_lib (snd (snd m)) t v)),
     CheckSize = CheckSize list_stun_lib,
     XORGetFromAs = (\<lambda>m. XORGetFromAs list_stun_lib (snd (snd m))),
     XORAddToAs = (\<lambda>m t a. map_sum id (\<lambda>as. (fst m, fst (snd m), as)) (XORAddToAs list_stun_lib (snd (snd m)) t a)),
     msg_Decode = (\<lambda>_. Inr msg), msg_Class = fst, msg_Method = (\<lambda>m. fst (snd m)),
     TransactionID = (\<lambda>_. replicate 12 7),
     m_Contains = (\<lambda>m t. map_of (snd (snd m)) t \<noteq> None),
     Nonce_GetFrom = (\<lambda>_. Inr ''n0''), Realm_GetFrom = (\<lambda>_. Inr ''realm''), Username_GetFrom = (\<lambda>_. Inr ''user''),
     m_ForEach = (\<lambda>m t. map (\<lambda>a. (fst m, fst (snd m), [a])) (filter (\<lambda>a. fst a = t) (snd (snd m)))),
     Integrity_Check = (\<lambda>key m. if map_of (snd (snd m)) AttrMessageIntegrity = Some key then None else Some ''integrity'')\<rparr>"

abbreviation demo_request :: "net_addr \<Rightarrow> bytes \<Rightarrow> demo_msg \<Rightarrow> demo_msg Request" where
  "demo_request src buf msg \<equiv> \<lparr>lib = demo_lib msg, Conn = 3, LocalAddr = UDPAddr [10, 0, 0, 2] 3478 [],
     r_SrcAddr = src, Buff = buf, AuthHandler = (\<lambda>u rl a. Some [5]), Realm = ''realm'',
     ChannelBindTimeout = 10 * minute, permissionHandler = None, stun_Build = (\<lambda>_. None), conn_WriteTo = WriteOk,
     relay_WriteTo = (\<lambda>k d p. (length d, None)), sock_Close = (\<lambda>_. None),
     allocatePacketConn = (\<lambda>p. Inr (4, UDPAddr [10, 0, 0, 2] 6000 [])),
     even_probe = (\<lambda>i. Inr (UDPAddr [10, 0, 0, 2] (6000 + int i) [], None)),
     rand_Intn = (\<lambda>i. i), md5_sum = (\<lambda>_. [1, 2]), md5_write_err = (\<lambda>_. None), rand_Int63 = 9\<rparr>"

abbreviation demo_client :: net_addr where "demo_client \<equiv> UDPAddr [10, 0, 0, 1] 5000 []"

abbreviation demo_allocate :: "demo_msg Request" where
  "demo_allocate \<equiv> demo_request demo_client []
     (ClassRequest, MethodAllocate, [(AttrMessageIntegrity, [5]), (AttrRequestedTransport, [17, 0, 0, 0])])"

abbreviation demo_bind :: "byte \<Rightarrow> byte \<Rightarrow> demo_msg Request" where
  "demo_bind hi lo \<equiv> demo_request demo_client []
     (ClassRequest, MethodChannelBind,
      [(AttrMessageIntegrity, [5]), (AttrChannelNumber, [hi, lo, 0, 0]), (AttrXORPeerAddress, [80, 10, 0, 0, 9])])"

abbreviation demo_data :: "byte \<Rightarrow> byte \<Rightarrow> demo_msg Request" where
  "demo_data hi lo \<equiv> demo_request demo_client [hi, lo, 0, 2, 65, 66, 0, 0] (ClassRequest, MethodBinding, [])"

abbreviation demo_server :: server where
  "demo_server \<equiv> \<lparr>s_Manager = empty_manager 0, Nonces = [(NonceString ''n0'', 0)], outbox = []\<rparr>"

text \<open>The state after that server has handled \<open>demo_allocate\<close>, and after the peer is bound to a channel.\<close>

abbreviation demo_tuple :: FiveTuple where
  "demo_tuple \<equiv> \<lparr>ft_Protocol = UDP, SrcAddr = demo_client, DstAddr = UDPAddr [10, 0, 0, 2] 3478 []\<rparr>"

abbreviation demo_attrs :: "setter list" where
  "demo_attrs \<equiv> [SRelayedAddress [10, 0, 0, 2] 6000, SLifetime (10 * minute), SXORMappedAddress [10, 0, 0, 1] 5000]"

abbreviation demo_allocation :: Allocation where
  "demo_allocation \<equiv> \<lparr>RelayAddr = UDPAddr [10, 0, 0, 2] 6000 [], TurnSocket = 3, RelaySocket = 4,
     fiveTuple = demo_tuple, permissions = [], channelBindings = [], lifetimeTimer = Armed (10 * minute),
     closed = False, responseCache = Some (replicate 12 7, demo_attrs)\<rparr>"

abbreviation demo_allocated :: server where
  "demo_allocated \<equiv> \<lparr>s_Manager = \<lparr>now = 0, objs = [demo_allocation], allocations = [(Fingerprint demo_tuple, 0)],
       reservations = []\<rparr>, Nonces = [(NonceString ''n0'', 0)],
     outbox = [ToClient demo_client (replicate 12 7) MethodAllocate ClassSuccessResponse (demo_attrs @ [SIntegrity [5]])]\<rparr>"

lemmas server_eval = HandleRequest_def handleTURNPacket_def handleDataPacket_def handleChannelData_def
  getMessageHandler_def handleAllocateRequest_def handleChannelBindRequest_def authenticateRequest_def
  nonceLifetime_def allocate_create_def allocate_respond_def buildAndSend_def buildMsg_def set_mgr_def
  request_tuple_def allocationLifeTime_def

lemmas attr_eval = demo_lib_def list_stun_lib_def stun_lib.defs get_sized_def RequestedTransport_GetFrom_def
  EvenPort_GetFrom_def ReservationToken_GetFrom_def Lifetime_GetFrom_def ChannelNumber_GetFrom_def
  PeerAddress_GetFrom_def ProtoUDP_def ProtoTCP_def DefaultLifetime_def attr_sizes

lemma demo_allocate_run: "HandleRequest demo_allocate demo_server = (None, demo_allocated)"
  by (simp add: server_eval attr_eval IsChannelData_eq manager_eval SetResponseCache_def)

section \<open>What the handlers leave alone\<close>

text \<open>\<open>quiet s s'\<close>: only messages to clients were added and the manager did not change.\<close>

definition quiet :: "server \<Rightarrow> server \<Rightarrow> bool" where
  "quiet s s' \<longleftrightarrow> s_Manager s' = s_Manager s \<and> fst ` set (Nonces s) \<subseteq> fst ` set (Nonces s') \<and>
     (\<exists>out. outbox s' = outbox s @ out \<and> (\<forall>k d p. ToPeer k d p \<notin> set out))"

lemma quiet_refl [simp]: "quiet s s"
  by (simp add: quiet_def)

lemma quiet_trans [trans]:
  assumes "quiet s t" and "quiet t u"
  shows "quiet s u"
proof -
  from assms obtain o1 o2 where "outbox t = outbox s @ o1" "outbox u = outbox t @ o2"
    "\<forall>k d p. ToPeer k d p \<notin> set o1" "\<forall>k d p. ToPeer k d p \<notin> set o2"
    by (auto simp: quiet_def)
  then have "outbox u = outbox s @ (o1 @ o2) \<and> (\<forall>k d p. ToPeer k d p \<notin> set (o1 @ o2))" by simp
  with assms show ?thesis unfolding quiet_def by (metis subset_trans)
qed

lemma quiet_buildAndSend [simp]: "quiet s (snd (buildAndSend r dst msg s))"
  by (auto simp: buildAndSend_def quiet_def split: prod.splits option.splits write_result.splits)

lemma snd_buildAndSendErr [simp]: "snd (buildAndSendErr r dst e msg s) = snd (buildAndSend r dst msg s)"
  by (simp add: buildAndSendErr_def split: prod.splits option.splits srv_error.splits)

lemma quiet_respondWithNonce [simp]: "quiet s (snd (respondWithNonce r m cm code s))"
proof (cases "buildNonce r (now (s_Manager s))")
  case (Inr nonce)
  let ?s1 = "s\<lparr>Nonces := AList.update (NonceString nonce) (now (s_Manager s)) (Nonces s)\<rparr>"
  have "quiet s ?s1" by (auto simp: quiet_def dom_update)
  with Inr show ?thesis
    by (auto simp: respondWithNonce_def intro: quiet_trans [OF _ quiet_buildAndSend])
qed (simp add: respondWithNonce_def)

text \<open>The nonce table holds string keys only, so deleting by a pointer removes nothing.\<close>

definition string_keys :: "server \<Rightarrow> bool" where
  "string_keys s \<longleftrightarrow> (\<forall>n. NoncePointer n \<notin> fst ` set (Nonces s))"

lemma delete_pointer [simp]:
  "string_keys s \<Longrightarrow> AList.delete (NoncePointer n) (Nonces s) = Nonces s"
  by (force simp: string_keys_def AList.delete_eq filter_id_conv)

lemma string_keys_update [simp]:
  "string_keys (s\<lparr>Nonces := AList.update (NonceString n) t (Nonces s)\<rparr>) = string_keys s"
  by (auto simp: string_keys_def dom_update image_Un)

lemma string_keys_frame [simp]:
  "string_keys (s\<lparr>outbox := out\<rparr>) = string_keys s" "string_keys (set_mgr mg s) = string_keys s"
  by (simp_all add: string_keys_def set_mgr_def)

lemma string_keys_send [simp]: "string_keys (snd (buildAndSend r dst msg s)) = string_keys s"
  by (simp add: buildAndSend_def split: prod.splits option.splits write_result.splits)

lemma string_keys_respond [simp]: "string_keys (snd (respondWithNonce r m cm code s)) = string_keys s"
  by (auto simp: respondWithNonce_def split: sum.splits)


text \<open>
  What an accepted request has shown: a nonce this server handed out less than an hour ago
  and an integrity attribute that is correct under the key of the user it names.
\<close>

definition authenticated :: "'m Request \<Rightarrow> 'm \<Rightarrow> bytes \<Rightarrow> server \<Rightarrow> bool" where
  "authenticated r m key s \<longleftrightarrow>
     m_Contains (lib r) m AttrMessageIntegrity \<and>
     (\<exists>nonce created realm username.
        Nonce_GetFrom (lib r) m = Inr nonce \<and> map_of (Nonces s) (NonceString nonce) = Some created \<and>
        now (s_Manager s) - created < nonceLifetime \<and>
        Realm_GetFrom (lib r) m = Inr realm \<and> Username_GetFrom (lib r) m = Inr username \<and>
        AuthHandler r username realm (r_SrcAddr r) = Some key \<and> Integrity_Check (lib r) key m = None)"

lemma authenticate_ok:
  "fst (authenticateRequest r m cm s) = Inr key \<longleftrightarrow> authenticated r m key s"
  by (simp add: authenticateRequest_def authenticated_def Let_def not_le
      split: sum.splits option.splits) (auto simp: not_le)

lemma delete_pointer_state: "string_keys s \<Longrightarrow> s\<lparr>Nonces := AList.delete (NoncePointer n) (Nonces s)\<rparr> = s"
  by simp

lemma authenticate_state:
  assumes "string_keys s"
  shows "quiet s (snd (authenticateRequest r m cm s))" and "string_keys (snd (authenticateRequest r m cm s))"
  using assms
  by (simp_all add: authenticateRequest_def Let_def delete_pointer_state split: sum.splits option.splits)

lemma authenticate_same:
  "fst (authenticateRequest r m cm s) = Inr key \<Longrightarrow> snd (authenticateRequest r m cm s) = s"
  by (auto simp: authenticateRequest_def Let_def split: if_splits sum.splits option.splits)

lemma authenticateE:
  assumes "string_keys s"
  obtains (refused) e s' where "authenticateRequest r m cm s = (Inl e, s')" "quiet s s'" "string_keys s'"
        "\<And>key. \<not> authenticated r m key s"
    | (accepted) key where "authenticateRequest r m cm s = (Inr key, s)" "authenticated r m key s"
proof (cases "authenticateRequest r m cm s")
  case (Pair res s')
  show thesis
  proof (cases res)
    case (Inl e)
    with Pair authenticate_state [OF assms, of r m cm] authenticate_ok [of r m cm s] show thesis
      by (intro refused) auto
  next
    case (Inr key)
    with Pair authenticate_same [of r m cm s key] authenticate_ok [of r m cm s key] show thesis
      by (intro accepted) auto
  qed
qed

section \<open>Every handler is a sequence of manager operations\<close>

text \<open>The events that a request of the client with five-tuple \<open>ft\<close> may cause.\<close>

fun about :: "FiveTuple \<Rightarrow> manager_event \<Rightarrow> bool" where
  "about ft (EvCreate f _ _ _) \<longleftrightarrow> f = ft"
| "about ft (EvDelete f) \<longleftrightarrow> f = ft"
| "about ft (EvRefresh f _) \<longleftrightarrow> f = ft"
| "about ft (EvAddPermission f _) \<longleftrightarrow> f = ft"
| "about ft (EvChannelBind f _ _ _) \<longleftrightarrow> f = ft"
| "about ft (EvCacheResponse f _ _) \<longleftrightarrow> f = ft"
| "about ft (EvReserve _ _) \<longleftrightarrow> True"
| "about ft _ \<longleftrightarrow> False"

text \<open>
  \<open>simulates sc ft s s'\<close>: the manager of \<open>s'\<close> results from the manager of \<open>s\<close> by such events
  of the allocation table's step function.
\<close>

definition simulates :: "(sock \<Rightarrow> string option) \<Rightarrow> FiveTuple \<Rightarrow> server \<Rightarrow> server \<Rightarrow> bool" where
  "simulates sc ft s s' \<longleftrightarrow>
     (\<exists>es. s_Manager s' = foldl (manager_step sc) (s_Manager s) es \<and> list_all (about ft) es)"

lemma simulates_same: "s_Manager s' = s_Manager s \<Longrightarrow> simulates sc ft s s'"
  by (auto simp: simulates_def intro: exI [of _ "[]"])

lemma quiet_simulates: "quiet s s' \<Longrightarrow> simulates sc ft s s'"
  by (simp add: quiet_def simulates_same)

lemma simulates_trans [trans]: "simulates sc ft s t \<Longrightarrow> simulates sc ft t u \<Longrightarrow> simulates sc ft s u"
  unfolding simulates_def by (metis foldl_append list_all_append)

lemma simulates_event: "s_Manager s' = manager_step sc (s_Manager s) e \<Longrightarrow> about ft e \<Longrightarrow> simulates sc ft s s'"
  unfolding simulates_def by (intro exI [of _ "[e]"]) simp

lemma s_Manager_set_mgr [simp]: "s_Manager (set_mgr m s) = m"
  by (simp add: set_mgr_def)

lemma simulates_send: "simulates sc ft s t \<Longrightarrow> simulates sc ft s (snd (buildAndSend r dst msg t))"
  using quiet_simulates simulates_trans quiet_buildAndSend by blast

lemma s_Manager_send [simp]: "s_Manager (snd (buildAndSend r dst msg t)) = s_Manager t"
  using quiet_buildAndSend [of t r dst msg] by (simp add: quiet_def)

lemma on_alloc_found: "GetAllocation mg ft = Some i \<Longrightarrow> on_alloc ft f mg = update_obj i f mg"
  by (simp add: on_alloc_def)


lemma GetAllocation_frame [simp]:
  "GetAllocation (update_obj i f mg) ft = GetAllocation mg ft"
  "GetAllocation (CreateReservation tok p mg) ft = GetAllocation mg ft"
  "now (update_obj i f mg) = now mg"
  by (simp_all add: GetAllocation_def update_obj_def CreateReservation_def)

lemma CreateAllocation_conn: "CreateAllocation f fa ts p d mg = CreateAllocation (\<lambda>_. f p) fa ts 0 d mg"
  by (simp add: CreateAllocation_def)

lemma sim_Refresh:
  assumes "string_keys s"
  shows "simulates (sock_Close r) (request_tuple r) s (snd (handleRefreshRequest r m s))"
proof (cases rule: authenticateE [OF assms, of r m MethodRefresh, case_names refused accepted])
  case (refused e s')
  then show ?thesis by (simp add: handleRefreshRequest_def quiet_simulates)
next
  case (accepted key)
  let ?d = "allocationLifeTime (lib r) m"
  have "simulates (sock_Close r) (request_tuple r) s (set_mgr (DeleteAllocation (sock_Close r) (request_tuple r) (s_Manager s)) s)"
    by (rule simulates_event [of _ _ _ "EvDelete (request_tuple r)"]) simp_all
  moreover have "simulates (sock_Close r) (request_tuple r) s (set_mgr (update_obj i (Refresh (now (s_Manager s)) ?d) (s_Manager s)) s)"
    if "GetAllocation (s_Manager s) (request_tuple r) = Some i" for i
    by (rule simulates_event [of _ _ _ "EvRefresh (request_tuple r) ?d"]) (simp_all add: on_alloc_found [OF that])
  ultimately show ?thesis
    by (auto simp: handleRefreshRequest_def accepted Let_def simulates_same intro!: simulates_send split: option.splits)
qed

lemma sim_allocate_respond:
  assumes "GetAllocation (s_Manager s) (request_tuple r) = Some i"
  shows "simulates sc (request_tuple r) s (snd (allocate_respond r m key d tok i s))"
proof -
  let ?cache = "\<lambda>attrs mg. update_obj i (SetResponseCache (TransactionID (lib r) m) attrs) mg"
  have c: "simulates sc (request_tuple r) s (set_mgr (?cache attrs (s_Manager s)) s)" for attrs
    by (rule simulates_event [of _ _ _ "EvCacheResponse (request_tuple r) (TransactionID (lib r) m) attrs"])
       (simp_all add: on_alloc_found [OF assms])
  have res: "simulates sc (request_tuple r) s (set_mgr (CreateReservation tok p (s_Manager s)) s)" for p
    by (rule simulates_event [of _ _ _ "EvReserve tok p"]) simp_all
  have "simulates sc (request_tuple r) s (set_mgr (?cache attrs (CreateReservation tok p (s_Manager s))) s)" for attrs p
    by (rule simulates_trans [OF res [of p]],
        rule simulates_event [of _ _ _ "EvCacheResponse (request_tuple r) (TransactionID (lib r) m) attrs"])
       (simp_all add: on_alloc_found assms)
  with c show ?thesis
    by (auto simp: allocate_respond_def Let_def simulates_same intro!: simulates_send split: sum.splits)
qed

lemma sim_create:
  assumes "CreateAllocation f (arg_of (request_tuple r)) (Some ts) p d (s_Manager s) = (res, mg)"
  shows "simulates sc (request_tuple r) s (set_mgr mg s)"
  using assms CreateAllocation_conn [of f "arg_of (request_tuple r)" "Some ts" p d "s_Manager s"]
  by (intro simulates_event [of _ _ _ "EvCreate (request_tuple r) ts (f p) d"]) simp_all

lemma sim_allocate_create: "simulates sc (request_tuple r) s (snd (allocate_create r m key p tok s))"
proof -
  have "simulates sc (request_tuple r) s (snd (allocate_respond r m key d tok i (set_mgr mg s)))"
    if "CreateAllocation f (arg_of (request_tuple r)) (Some ts) p d (s_Manager s) = (Inr i, mg)" for f ts p d i mg
    by (rule simulates_trans [OF sim_create [OF that] sim_allocate_respond])
       (simp add: GetAllocation_create(1) [OF that])
  then show ?thesis
    by (auto simp: allocate_create_def simulates_same split: sum.splits prod.splits)
qed

lemma sim_Allocate:
  assumes "string_keys s"
  shows "simulates sc (request_tuple r) s (snd (handleAllocateRequest r m s))"
proof (cases rule: authenticateE [OF assms, of r m MethodAllocate, case_names refused accepted])
  case (refused e s')
  then show ?thesis by (simp add: handleAllocateRequest_def quiet_simulates)
next
  case (accepted key)
  then show ?thesis
    by (simp add: handleAllocateRequest_def Let_def case_prod_unfold simulates_same sim_allocate_create
        split: option.split sum.split)
qed

lemma sim_add_permissions:
  assumes "GetAllocation mg (request_tuple r) = Some i"
  shows "\<exists>es. snd (add_permissions r i vs n mg) = foldl (manager_step sc) mg es
     \<and> list_all (about (request_tuple r)) es"
  using assms
proof (induction vs arbitrary: n mg)
  case Nil
  then show ?case by (auto intro: exI [of _ "[]"])
next
  case (Cons v vs)
  show ?case
  proof (cases "snd (add_permissions r i (v # vs) n mg) = mg")
    case True
    then show ?thesis by (intro exI [of _ "[]"]) simp
  next
    case False
    then obtain pa where pa: "PeerAddress_GetFrom (attrs_of r) v = Inr pa"
      "GrantPermission (permissionHandler r) (r_SrcAddr r) (pa_IP pa) = None"
      by (auto split: sum.splits option.splits)
    let ?addr = "UDPAddr (pa_IP pa) (pa_Port pa) []"
    let ?mg = "update_obj i (AddPermission (now mg) (NewPermission ?addr)) mg"
    from Cons.IH [of ?mg "Suc n"] Cons.prems obtain es where
      "snd (add_permissions r i vs (Suc n) ?mg) = foldl (manager_step sc) ?mg es"
      "list_all (about (request_tuple r)) es" by auto
    moreover have "?mg = manager_step sc mg (EvAddPermission (request_tuple r) ?addr)"
      using Cons.prems by (simp add: on_alloc_found)
    ultimately have "snd (add_permissions r i (v # vs) n mg)
        = foldl (manager_step sc) mg (EvAddPermission (request_tuple r) ?addr # es)
      \<and> list_all (about (request_tuple r)) (EvAddPermission (request_tuple r) ?addr # es)"
      using pa by simp
    then show ?thesis by blast
  qed
qed

lemma sim_CreatePermission:
  assumes "string_keys s"
  shows "simulates sc (request_tuple r) s (snd (handleCreatePermissionRequest r m s))"
proof (cases "GetAllocation (s_Manager s) (request_tuple r)")
  case None
  then show ?thesis by (simp add: handleCreatePermissionRequest_def simulates_same)
next
  case (Some i)
  show ?thesis
  proof (cases rule: authenticateE [OF assms, of r m MethodCreatePermission, case_names refused accepted])
    case (refused e s')
    with Some show ?thesis by (simp add: handleCreatePermissionRequest_def quiet_simulates)
  next
    case (accepted key)
    have "simulates sc (request_tuple r) s (set_mgr (snd (add_permissions r i vs n (s_Manager s))) s)" for vs n
      using sim_add_permissions [OF Some] by (simp add: simulates_def)
    with Some accepted(1) show ?thesis
      by (simp add: handleCreatePermissionRequest_def simulates_send split: prod.splits) (metis simulates_send snd_conv)
  qed
qed

lemma sim_ChannelBind:
  assumes "string_keys s"
  shows "simulates sc (request_tuple r) s (snd (handleChannelBindRequest r m s))"
proof (cases "GetAllocation (s_Manager s) (request_tuple r)")
  case None
  then show ?thesis by (simp add: handleChannelBindRequest_def simulates_same)
next
  case (Some i)
  show ?thesis
  proof (cases rule: authenticateE [OF assms, of r m MethodChannelBind, case_names refused accepted])
    case (refused e s')
    with Some show ?thesis by (simp add: handleChannelBindRequest_def quiet_simulates)
  next
    case (accepted key)
    have "simulates sc (request_tuple r) s (set_mgr (update_obj i (\<lambda>_. a') (s_Manager s)) s)"
      if "AddChannelBind (now (s_Manager s)) (NewChannelBind n p) d (objs (s_Manager s) ! i) = (e, a')" for n p d e a'
      by (rule simulates_event [of _ _ _ "EvChannelBind (request_tuple r) n p d"])
         (simp_all add: on_alloc_found [OF Some] update_obj_def that)
    then show ?thesis
      by (auto simp: handleChannelBindRequest_def Some accepted Let_def simulates_same
          intro!: simulates_send split: option.splits sum.splits prod.splits)
  qed
qed


lemma sim_plain:
  "simulates sc ft s (snd (handleSendIndication r m s))"
  "simulates sc ft s (snd (handleBindingRequest r m s))"
  "simulates sc ft s (snd (handleChannelData r c s))"
  by (rule simulates_same,
      simp add: handleSendIndication_def handleBindingRequest_def handleChannelData_def Let_def
        split: option.splits sum.splits prod.splits)+

lemma sim_handler:
  "string_keys s \<Longrightarrow> simulates (sock_Close r) (request_tuple r) s (snd (run_handler h r m s))"
  by (cases h) (simp_all add: sim_plain sim_Allocate sim_Refresh sim_CreatePermission sim_ChannelBind)

lemma sim_HandleRequest:
  "string_keys s \<Longrightarrow> simulates (sock_Close r) (request_tuple r) s (snd (HandleRequest r s))"
  by (auto simp: HandleRequest_def handleDataPacket_def handleTURNPacket_def case_prod_unfold
      sim_handler sim_plain simulates_same split: option.split sum.split)

text \<open>All handlers keep the nonce table a table of strings, and none shrinks it.\<close>

definition nonces_kept :: "server \<Rightarrow> server \<Rightarrow> bool" where
  "nonces_kept s s' \<longleftrightarrow> string_keys s' \<and> fst ` set (Nonces s) \<subseteq> fst ` set (Nonces s')"

lemma nonces_kept_simps [simp]:
  "string_keys s \<Longrightarrow> nonces_kept s s"
  "nonces_kept s (set_mgr mg t) = nonces_kept s t"
  "nonces_kept s (t\<lparr>outbox := out\<rparr>) = nonces_kept s t"
  "nonces_kept s (snd (buildAndSend r dst msg t)) = nonces_kept s t"
  by (simp_all add: nonces_kept_def string_keys_def set_mgr_def buildAndSend_def
      split: prod.splits option.splits write_result.splits)

lemma kept_quiet: "quiet s s' \<Longrightarrow> string_keys s' \<Longrightarrow> nonces_kept s s'"
  by (simp add: quiet_def nonces_kept_def)

lemma kept_allocate [simp]: "string_keys s \<Longrightarrow> nonces_kept s (snd (allocate_create r m key p tok s))"
  by (simp add: allocate_create_def allocate_respond_def Let_def case_prod_unfold split: sum.split)

lemma kept_handler:
  assumes "string_keys s"
  shows "nonces_kept s (snd (run_handler h r m s))"
proof (cases h)
  case HAllocateRequest
  then show ?thesis using assms
    by (cases rule: authenticateE [OF assms, of r m MethodAllocate])
       (simp_all add: handleAllocateRequest_def Let_def case_prod_unfold kept_quiet split: option.split sum.split)
next
  case HRefreshRequest
  then show ?thesis using assms
    by (cases rule: authenticateE [OF assms, of r m MethodRefresh])
       (simp_all add: handleRefreshRequest_def Let_def kept_quiet split: option.split)
next
  case HCreatePermissionRequest
  then show ?thesis using assms
    by (cases rule: authenticateE [OF assms, of r m MethodCreatePermission])
       (simp_all add: handleCreatePermissionRequest_def case_prod_unfold kept_quiet split: option.split)
next
  case HChannelBindRequest
  then show ?thesis using assms
    by (cases rule: authenticateE [OF assms, of r m MethodChannelBind])
       (simp_all add: handleChannelBindRequest_def Let_def case_prod_unfold kept_quiet split: option.split sum.split)
qed (use assms in \<open>simp_all add: handleSendIndication_def handleBindingRequest_def Let_def case_prod_unfold
       split: option.split sum.split\<close>)

lemma kept_HandleRequest:
  assumes "string_keys s"
  shows "nonces_kept s (snd (HandleRequest r s))"
  using assms
  by (simp add: HandleRequest_def handleDataPacket_def handleTURNPacket_def handleChannelData_def Let_def
      case_prod_unfold kept_handler split: option.split sum.split)

section \<open>The server as a system\<close>

datatype 'm srv_event = SrvRequest "'m Request" | SrvInternal manager_event

fun srv_step :: "(sock \<Rightarrow> string option) \<Rightarrow> server \<Rightarrow> 'm srv_event \<Rightarrow> server" where
  "srv_step sc s (SrvRequest r) = snd (HandleRequest (r\<lparr>sock_Close := sc\<rparr>) s)"
| "srv_step sc s (SrvInternal e) = set_mgr (manager_step sc (s_Manager s) e) s"

definition empty_server :: "int \<Rightarrow> server" where
  "empty_server t = \<lparr>s_Manager = empty_manager t, Nonces = [], outbox = []\<rparr>"

definition srv_inv :: "server \<Rightarrow> bool" where
  "srv_inv s \<longleftrightarrow> string_keys s \<and> manager_inv (s_Manager s)"

lemma srv_inv_empty [simp]: "srv_inv (empty_server t)"
  by (simp add: srv_inv_def empty_server_def string_keys_def)

lemma simulates_inv: "simulates sc ft s s' \<Longrightarrow> manager_inv (s_Manager s) \<Longrightarrow> manager_inv (s_Manager s')"
  by (auto simp: simulates_def mgr.run_inv)

lemma step_simulates:
  assumes "string_keys s"
  shows "\<exists>es. s_Manager (srv_step sc s e) = foldl (manager_step sc) (s_Manager s) es"
proof (cases e)
  case (SrvRequest r)
  from sim_HandleRequest [OF assms, of "r\<lparr>sock_Close := sc\<rparr>"] SrvRequest show ?thesis
    by (auto simp: simulates_def)
next
  case (SrvInternal ev)
  then show ?thesis by (intro exI [of _ "[ev]"]) simp
qed

lemma srv_inv_step: "srv_inv s \<Longrightarrow> srv_inv (srv_step sc s e)"
  using step_simulates [of s sc e] kept_HandleRequest [of s]
  by (cases e) (auto simp: srv_inv_def nonces_kept_def mgr.run_inv manager_inv_step)

interpretation srv: guarded_system "srv_step sc" srv_inv for sc
  by unfold_locales (rule srv_inv_step)


text \<open>
  The server uses the allocation table only through the manager: whatever datagrams arrive and timers fire, the
  allocation state of the server is one that the manager's own operations reach from the
  empty table. So every invariant of the table holds of the server.
\<close>

lemma server_refines_manager:
  "\<exists>es. s_Manager (foldl (srv_step sc) (empty_server t) evs) = foldl (manager_step sc) (empty_manager t) es"
proof (induction evs rule: rev_induct)
  case Nil
  show ?case by (intro exI [of _ "[]"]) (simp add: empty_server_def)
next
  case (snoc e evs)
  have "srv_inv (foldl (srv_step sc) (empty_server t) evs)" by (rule srv.run_inv) simp
  then obtain es' where "s_Manager (srv_step sc (foldl (srv_step sc) (empty_server t) evs) e)
      = foldl (manager_step sc) (s_Manager (foldl (srv_step sc) (empty_server t) evs)) es'"
    using step_simulates [of "foldl (srv_step sc) (empty_server t) evs" sc e] by (auto simp: srv_inv_def)
  moreover obtain es where "s_Manager (foldl (srv_step sc) (empty_server t) evs) = foldl (manager_step sc) (empty_manager t) es"
    using snoc.IH by blast
  ultimately have "s_Manager (foldl (srv_step sc) (empty_server t) (evs @ [e]))
      = foldl (manager_step sc) (empty_manager t) (es @ es')" by simp
  then show ?case by blast
qed

lemma handler_auth:
  assumes "string_keys s" and "s_Manager (snd (run_handler h r m s)) \<noteq> s_Manager s"
  shows "\<exists>key. authenticated r m key s"
proof (rule ccontr)
  assume no: "\<nexists>key. authenticated r m key s"
  have refused: "\<exists>e s'. authenticateRequest r m cm s = (Inl e, s') \<and> s_Manager s' = s_Manager s" for cm
    by (cases rule: authenticateE [OF assms(1), of r m cm]) (use no in \<open>auto simp: quiet_def\<close>)
  have "s_Manager (snd (run_handler h r m s)) = s_Manager s"
    using refused [of MethodAllocate] refused [of MethodRefresh] refused [of MethodCreatePermission]
      refused [of MethodChannelBind]
    by (cases h) (auto simp: handleAllocateRequest_def handleRefreshRequest_def handleCreatePermissionRequest_def
        handleChannelBindRequest_def handleSendIndication_def handleBindingRequest_def Let_def case_prod_unfold
        split: option.splits sum.splits)
  with assms(2) show False ..
qed

text \<open>
  C1. No datagram changes an allocation, a permission, a channel or a reservation unless it is a
  STUN message that was authenticated: it names a nonce that this server issued less than an hour
  ago, and its integrity attribute is correct under the key the operator's callback gives for its user.
\<close>

theorem state_change_needs_authentication:
  assumes "srv_inv s" and "HandleRequest r s = (e, s')" and "s_Manager s' \<noteq> s_Manager s"
  shows "\<exists>m key. \<not> IsChannelData (Buff r) \<and> msg_Decode (lib r) (Buff r) = Inr m \<and> authenticated r m key s"
proof -
  have s': "s' = snd (HandleRequest r s)" using assms(2) by simp
  have data: "s_Manager (snd (handleDataPacket r s)) = s_Manager s"
    by (simp add: handleDataPacket_def handleChannelData_def Let_def case_prod_unfold split: option.split)
  with assms(3) s' have no_cd: "\<not> IsChannelData (Buff r)" by (auto simp: HandleRequest_def)
  with assms(3) s' obtain m h where m: "msg_Decode (lib r) (Buff r) = Inr m"
    and "s_Manager (snd (run_handler h r m s)) \<noteq> s_Manager s"
    by (auto simp: HandleRequest_def handleTURNPacket_def case_prod_unfold split: sum.splits)
  with handler_auth assms(1) no_cd show ?thesis by (auto simp: srv_inv_def)
qed

lemma other_object:
  assumes "manager_inv mg" and "GetAllocation mg ft = Some j" and "GetAllocation mg ft' = Some i"
    and "Fingerprint ft' \<noteq> Fingerprint ft"
  shows "i \<noteq> j"
  using manager_inv_ref(4) [OF assms(1,2)] manager_inv_ref(4) [OF assms(1,3)] assms(4) by auto

lemma on_alloc_other:
  assumes "manager_inv mg" and "Fingerprint ft' \<noteq> Fingerprint ft"
  shows "GetAllocation (on_alloc ft f mg) ft' = GetAllocation mg ft'"
    and "GetAllocation mg ft' = Some i \<Longrightarrow> objs (on_alloc ft f mg) ! i = objs mg ! i"
proof -
  show "GetAllocation (on_alloc ft f mg) ft' = GetAllocation mg ft'"
    by (simp add: on_alloc_def split: option.split)
  assume i: "GetAllocation mg ft' = Some i"
  show "objs (on_alloc ft f mg) ! i = objs mg ! i"
  proof (cases "GetAllocation mg ft")
    case (Some j)
    with other_object [OF assms(1) Some i assms(2)] show ?thesis
      by (simp add: on_alloc_def update_obj_def)
  qed (simp add: on_alloc_def)
qed

lemma create_other:
  assumes "manager_inv mg" and "Fingerprint ft' \<noteq> Fingerprint ft"
  shows "GetAllocation (snd (CreateAllocation f (arg_of ft) ts p d mg)) ft' = GetAllocation mg ft'"
    and "GetAllocation mg ft' = Some i \<Longrightarrow> objs (snd (CreateAllocation f (arg_of ft) ts p d mg)) ! i = objs mg ! i"
  using assms(2) manager_inv_ref(1) [OF assms(1), of ft' i]
  by (auto simp: CreateAllocation_def arg_of_def Let_def GetAllocation_def gomap_simps nth_append
      split: option.splits sum.splits prod.splits)

lemma delete_other:
  assumes "manager_inv mg" and "Fingerprint ft' \<noteq> Fingerprint ft"
  shows "GetAllocation (DeleteAllocation sc ft mg) ft' = GetAllocation mg ft'"
    and "GetAllocation mg ft' = Some i \<Longrightarrow> objs (DeleteAllocation sc ft mg) ! i = objs mg ! i"
  using assms(2) other_object [OF assms(1), of ft _ ft' i]
  by (auto simp: DeleteAllocation_def Let_def GetAllocation_def gomap_simps split: option.splits)

lemma about_step:
  assumes "manager_inv mg" and "about ft e" and "Fingerprint ft' \<noteq> Fingerprint ft"
  shows "GetAllocation (manager_step sc mg e) ft' = GetAllocation mg ft'"
    and "GetAllocation mg ft' = Some i \<Longrightarrow> objs (manager_step sc mg e) ! i = objs mg ! i"
proof -
  note other = on_alloc_other [OF assms(1,3)] create_other [OF assms(1,3)] delete_other [OF assms(1,3)]
  show "GetAllocation (manager_step sc mg e) ft' = GetAllocation mg ft'"
    using assms(2) by (cases e) (simp_all add: other)
  show "GetAllocation mg ft' = Some i \<Longrightarrow> objs (manager_step sc mg e) ! i = objs mg ! i"
    using assms(2) by (cases e) (simp_all add: other CreateReservation_def)
qed

lemma about_run:
  assumes "manager_inv mg" and "list_all (about ft) es" and "Fingerprint ft' \<noteq> Fingerprint ft"
    and "GetAllocation mg ft' = Some i"
  shows "GetAllocation (foldl (manager_step sc) mg es) ft' = Some i
     \<and> objs (foldl (manager_step sc) mg es) ! i = objs mg ! i"
  using assms
proof (induction es arbitrary: mg)
  case Nil
  then show ?case by simp
next
  case (Cons e es)
  then have "about ft e" by simp
  note step = about_step [OF Cons.prems(1) this Cons.prems(3)]
  have "list_all (about ft) es" using Cons.prems(2) by simp
  from Cons.IH [OF manager_inv_step [OF Cons.prems(1)] this Cons.prems(3), of sc e] step(1) [of sc] step(2) [OF Cons.prems(4), of sc]
    Cons.prems(4)
  show ?case by simp
qed

text \<open>
  C14. Clients are isolated from each other: handling a datagram of one client, whatever it contains,
  leaves the allocation of every other five-tuple in the table and untouched, with its
  permissions, channels, timers and cached response.
\<close>

theorem requests_touch_own_allocation_only:
  assumes "srv_inv s" and "HandleRequest r s = (e, s')"
    and "Fingerprint ft \<noteq> Fingerprint (request_tuple r)" and "GetAllocation (s_Manager s) ft = Some i"
  shows "GetAllocation (s_Manager s') ft = Some i \<and> objs (s_Manager s') ! i = objs (s_Manager s) ! i"
proof -
  have "simulates (sock_Close r) (request_tuple r) s s'"
    using sim_HandleRequest [of s r] assms(1,2) by (simp add: srv_inv_def)
  then obtain es where es: "s_Manager s' = foldl (manager_step (sock_Close r)) (s_Manager s) es"
    "list_all (about (request_tuple r)) es" by (auto simp: simulates_def)
  have "manager_inv (s_Manager s)" using assms(1) by (simp add: srv_inv_def)
  from about_run [OF this es(2) assms(3,4)] show ?thesis by (simp add: es(1))
qed


lemma demo_bind_run:
  "\<exists>a. HandleRequest (demo_bind hi lo) demo_allocated = (None,
     demo_allocated\<lparr>s_Manager := (s_Manager demo_allocated)\<lparr>objs := [a]\<rparr>,
       outbox := outbox demo_allocated @
         [ToClient demo_client (replicate 12 7) MethodChannelBind ClassSuccessResponse [SIntegrity [5]]]\<rparr>)
   \<and> channelBindings a = [\<lparr>Peer = UDPAddr [10, 0, 0, 9] 80 [], cb_Number = get_u16 [hi, lo],
        cb_lifetimeTimer = Armed (10 * minute)\<rparr>] \<and> RelaySocket a = 4"
  by (simp add: server_eval attr_eval IsChannelData_eq manager_eval GrantPermission_def)


lemma demo_server_inv: "srv_inv demo_server"
  by (simp add: srv_inv_def string_keys_def)

lemma demo_allocated_inv: "srv_inv demo_allocated"
proof -
  have "srv_step (\<lambda>_. None) demo_server (SrvRequest demo_allocate) = demo_allocated"
    using demo_allocate_run by simp
  with srv_inv_step [OF demo_server_inv, of "\<lambda>_. None" "SrvRequest demo_allocate"] show ?thesis by metis
qed

theorem state_change_needs_authentication_witness:
  "\<exists>m key. msg_Decode (lib demo_allocate) (Buff demo_allocate) = Inr m \<and> authenticated demo_allocate m key demo_server"
  using state_change_needs_authentication [OF demo_server_inv demo_allocate_run]
  by (simp add: empty_manager_def)

abbreviation demo_other :: "demo_msg Request" where
  "demo_other \<equiv> demo_request (OtherAddr ''x'') []
     (ClassRequest, MethodAllocate, [(AttrMessageIntegrity, [5]), (AttrRequestedTransport, [17, 0, 0, 0])])"

theorem requests_touch_own_allocation_only_witness:
  "objs (s_Manager (snd (HandleRequest demo_other demo_allocated))) ! 0 = demo_allocation"
proof -
  have "Fingerprint demo_tuple \<noteq> Fingerprint (request_tuple demo_other)"
    by (simp add: Fingerprint_def request_tuple_def itoa_def itoa_nat.simps ipport_String_def ip_String_def
        ip_To4_def dotted_def joinHostPort_def digit_char_def Let_def)
  moreover have "GetAllocation (s_Manager demo_allocated) demo_tuple = Some 0"
    by (simp add: GetAllocation_def)
  ultimately show ?thesis
    using requests_touch_own_allocation_only [OF demo_allocated_inv surjective_pairing, of demo_tuple demo_other 0]
    by simp
qed

text \<open>
  The server never forgets a nonce: whatever happens, every key of the nonce table stays in
  it. Stale nonces are deleted through a pointer, which is never a key of the table, so the table
  only grows.
\<close>

theorem nonces_never_removed:
  "fst ` set (Nonces (foldl (srv_step sc) (empty_server t) evs))
     \<subseteq> fst ` set (Nonces (foldl (srv_step sc) (empty_server t) (evs @ evs')))"
proof (induction evs' rule: rev_induct)
  case (snoc e es)
  let ?s = "foldl (srv_step sc) (empty_server t) (evs @ es)"
  have "srv_inv ?s" by (rule srv.run_inv) simp
  then have "fst ` set (Nonces ?s) \<subseteq> fst ` set (Nonces (srv_step sc ?s e))"
    using kept_HandleRequest [of ?s] by (cases e) (auto simp: srv_inv_def nonces_kept_def set_mgr_def)
  with snoc.IH show ?case by simp
qed simp

text \<open>
  A ChannelBind request is accepted for every channel number: with its answer the server binds
  even a number that is not a channel number, for which no packet will ever pass the
  test for ChannelData.
\<close>

lemma channel_bind_accepts_any_number:
  "\<exists>s' a. HandleRequest (demo_bind hi lo) demo_allocated = (None, s') \<and> objs (s_Manager s') = [a]
     \<and> map cb_Number (channelBindings a) = [get_u16 [hi, lo]]
     \<and> (IsChannelData (hi # lo # rest) \<longrightarrow> isChannelNumberValid (get_u16 [hi, lo]))"
proof -
  have "get_u16 (hi # lo # rest) = get_u16 [hi, lo]" by (simp add: get_u16_def)
  with demo_bind_run [of hi lo] show ?thesis by (auto simp: IsChannelData_eq)
qed

lemma channel_bind_accepts_any_number_witness:
  "\<exists>s' a. HandleRequest (demo_bind 0 1) demo_allocated = (None, s') \<and> objs (s_Manager s') = [a]
     \<and> map cb_Number (channelBindings a) = [1] \<and> \<not> IsChannelData [0, 1, 0, 0]"
proof -
  have "get_u16 [0, 1] = 1" by (simp add: get_u16_def)
  moreover have "\<not> isChannelNumberValid 1"
    by (simp add: isChannelNumberValid_def MinChannelNumber_def word_le_nat_alt)
  ultimately show ?thesis using channel_bind_accepts_any_number [of 0 1 "[0, 0]"] by metis
qed

text \<open>
  An allocation never lives an hour or longer without a refresh, and never has a
  negative lifetime: that is the range of the lifetime computed for any request.
\<close>

lemma allocation_lifetime_bounds:
  "0 \<le> allocationLifeTime L m \<and> allocationLifeTime L m < hour"
  by (simp add: allocationLifeTime_def maximumAllocationLifetime_def DefaultLifetime_def Lifetime_GetFrom_def
      split: sum.split)


section \<open>What leaves a relay socket\<close>

lemma quiet_outbox: "quiet s s' \<Longrightarrow> outbox s' = outbox s @ out \<Longrightarrow> ToPeer k d p \<notin> set out"
  by (auto simp: quiet_def)

text \<open>All handlers but the two that relay data only answer the client.\<close>

definition answers :: "server \<Rightarrow> server \<Rightarrow> bool" where
  "answers s s' \<longleftrightarrow> (\<exists>out. outbox s' = outbox s @ out \<and> (\<forall>k d p. ToPeer k d p \<notin> set out))"

lemma answers_simps [simp]:
  "answers s s"
  "answers s (set_mgr mg t) = answers s t"
  by (simp_all add: answers_def set_mgr_def)

lemma answers_send [simp]: "answers s t \<Longrightarrow> answers s (snd (buildAndSend r dst msg t))"
  using quiet_buildAndSend [of t r dst msg] by (force simp: answers_def quiet_def)

lemma answers_quiet: "quiet s s' \<Longrightarrow> answers s s'"
  by (auto simp: quiet_def answers_def)

lemma answers_allocate [simp]: "answers s (snd (allocate_create r m key p tok s))"
  by (simp add: allocate_create_def allocate_respond_def Let_def case_prod_unfold split: sum.split)

lemma answers_handler:
  assumes "string_keys s" and "h \<noteq> HSendIndication"
  shows "answers s (snd (run_handler h r m s))"
proof (cases h)
  case HAllocateRequest
  then show ?thesis
    by (cases rule: authenticateE [OF assms(1), of r m MethodAllocate])
       (simp_all add: handleAllocateRequest_def Let_def case_prod_unfold answers_quiet split: option.split sum.split)
next
  case HRefreshRequest
  then show ?thesis
    by (cases rule: authenticateE [OF assms(1), of r m MethodRefresh])
       (simp_all add: handleRefreshRequest_def Let_def answers_quiet split: option.split)
next
  case HCreatePermissionRequest
  then show ?thesis
    by (cases rule: authenticateE [OF assms(1), of r m MethodCreatePermission])
       (simp_all add: handleCreatePermissionRequest_def case_prod_unfold answers_quiet split: option.split)
next
  case HChannelBindRequest
  then show ?thesis
    by (cases rule: authenticateE [OF assms(1), of r m MethodChannelBind])
       (simp_all add: handleChannelBindRequest_def Let_def case_prod_unfold answers_quiet split: option.split sum.split)
qed (use assms(2) in \<open>simp_all add: handleBindingRequest_def case_prod_unfold split: sum.split\<close>)

text \<open>The peers a client of allocation \<open>a\<close> may send to.\<close>

definition may_send :: "Allocation \<Rightarrow> net_addr \<Rightarrow> bool" where
  "may_send a peer \<longleftrightarrow> GetPermission a peer \<noteq> None \<or> (\<exists>c \<in> set (channelBindings a). Peer c = peer)"

lemma relays_SendIndication:
  assumes "outbox (snd (handleSendIndication r m s)) = outbox s @ out" and "ToPeer k d peer \<in> set out"
  shows "\<exists>i. GetAllocation (s_Manager s) (request_tuple r) = Some i \<and> k = RelaySocket (objs (s_Manager s) ! i)
     \<and> may_send (objs (s_Manager s) ! i) peer"
  using assms
  by (auto simp: handleSendIndication_def Let_def may_send_def split: option.splits sum.splits prod.splits if_splits)

lemma relays_ChannelData:
  assumes "outbox (snd (handleChannelData r c s)) = outbox s @ out" and "ToPeer k d peer \<in> set out"
  shows "\<exists>i. GetAllocation (s_Manager s) (request_tuple r) = Some i \<and> k = RelaySocket (objs (s_Manager s) ! i)
     \<and> may_send (objs (s_Manager s) ! i) peer"
  using assms
  by (auto simp: handleChannelData_def Let_def may_send_def GetChannelByNumber_def
      dest!: find_index_from_Some split: option.splits prod.splits if_splits)

text \<open>
  C4. Data leaves a relay socket only for the client that owns it and only towards a peer that
  client installed: for every datagram handled, what is written to a relay socket is
  written to the relay socket of the sender's own allocation and addressed to a peer for which that
  allocation has a permission or a channel.
\<close>

theorem relayed_only_to_allowed_peers:
  assumes "srv_inv s" and "HandleRequest r s = (e, s')" and "outbox s' = outbox s @ out"
    and "ToPeer k d peer \<in> set out"
  shows "\<exists>i. GetAllocation (s_Manager s) (request_tuple r) = Some i \<and> k = RelaySocket (objs (s_Manager s) ! i)
     \<and> may_send (objs (s_Manager s) ! i) peer"
proof (cases "IsChannelData (Buff r)")
  case True
  let ?c = "fst (cd_Decode (raw_ChannelData (Buff r)))"
  have s': "s' = snd (HandleRequest r s)" using assms(2) by simp
  have "outbox (snd (handleChannelData r ?c s)) = outbox s @ out"
    using True assms(3,4)
    by (auto simp: s' HandleRequest_def handleDataPacket_def case_prod_unfold split: option.splits)
  from relays_ChannelData [OF this assms(4)] show ?thesis .
next
  case False
  have s': "s' = snd (HandleRequest r s)" using assms(2) by simp
  from False assms(3,4) obtain m h where h: "outbox (snd (run_handler h r m s)) = outbox s @ out"
    by (auto simp: s' HandleRequest_def handleTURNPacket_def case_prod_unfold split: sum.splits)
  have "\<not> answers s (snd (run_handler h r m s))" using h assms(4) by (auto simp: answers_def)
  with answers_handler [of s h r m] assms(1) have "h = HSendIndication" by (auto simp: srv_inv_def)
  with h relays_SendIndication [OF _ assms(4)] show ?thesis by simp
qed

theorem relayed_only_to_allowed_peers_witness:
  "\<exists>(s :: server) i. may_send (objs (s_Manager s) ! i) (UDPAddr [10, 0, 0, 9] 80 [])
     \<and> GetAllocation (s_Manager s) demo_tuple = Some i"
proof -
  obtain s' where run: "HandleRequest (demo_bind 0x40 1) demo_allocated = (None, s')"
    and objs: "\<exists>a. objs (s_Manager s') = [a] \<and> RelaySocket a = 4 \<and> channelBindings a = [\<lparr>Peer = UDPAddr [10, 0, 0, 9] 80 [],
          cb_Number = get_u16 [0x40, 1], cb_lifetimeTimer = Armed (10 * minute)\<rparr>]"
    and find: "GetAllocation (s_Manager s') demo_tuple = Some 0"
    using demo_bind_run [of "0x40" 1] by (auto simp: GetAllocation_def)
  have inv: "srv_inv s'"
    using srv_inv_step [OF demo_allocated_inv, of "\<lambda>_. None" "SrvRequest (demo_bind 0x40 1)"] run by simp
  have cd: "cd_Decode (raw_ChannelData [0x40, 1, 0, 2, 65, 66, 0, 0]) =
      (\<lparr>Data = [65, 66], Length = 2, Number = 0x4001, Raw = [0x40, 1, 0, 2, 65, 66, 0, 0], RawSpare = []\<rparr>, None)"
    "IsChannelData [0x40, 1, 0, 2, 65, 66, 0, 0]" "get_u16 [0x40, 1] = 0x4001"
    by code_simp+
  have "HandleRequest (demo_data 0x40 1) s' = (None,
      s'\<lparr>outbox := outbox s' @ [ToPeer 4 [65, 66] (UDPAddr [10, 0, 0, 9] 80 [])]\<rparr>)"
    using objs find cd
    by (auto simp: HandleRequest_def handleDataPacket_def handleChannelData_def request_tuple_def
        GetChannelByNumber_def Let_def)
  from relayed_only_to_allowed_peers [OF inv this, of "[ToPeer 4 [65, 66] (UDPAddr [10, 0, 0, 9] 80 [])]"]
  have "\<exists>i. GetAllocation (s_Manager s') demo_tuple = Some i
      \<and> may_send (objs (s_Manager s') ! i) (UDPAddr [10, 0, 0, 9] 80 [])"
    by (auto simp: request_tuple_def)
  then show ?thesis by blast
qed


section \<open>Allocate requests\<close>

lemma buildAndSendErr_fails [simp]: "buildAndSendErr r dst e msg s \<noteq> (None, s')"
  by (simp add: buildAndSendErr_def split: prod.splits option.splits srv_error.splits)

lemma buildAndSend_sent:
  assumes "buildAndSend r dst (buildMsg tid method cls attrs) s = (None, s')" and "conn_WriteTo r = WriteOk"
  shows "stun_Build r attrs = None" and "s' = s\<lparr>outbox := outbox s @ [ToClient dst tid method cls attrs]\<rparr>"
  using assms by (auto simp: buildAndSend_def buildMsg_def split: option.splits)

text \<open>What a fresh allocation object looks like once its response is cached.\<close>

definition fresh_alloc :: "'m Request \<Rightarrow> 'm \<Rightarrow> setter list \<Rightarrow> Manager \<Rightarrow> Allocation \<Rightarrow> bool" where
  "fresh_alloc r m attrs mg a \<longleftrightarrow>
     fiveTuple a = request_tuple r \<and> TurnSocket a = Conn r \<and> permissions a = [] \<and> channelBindings a = []
     \<and> lifetimeTimer a = Armed (now mg + allocationLifeTime (lib r) m)
     \<and> responseCache a = Some (TransactionID (lib r) m, attrs)
     \<and> (\<exists>relayIP relayPort srcIP srcPort rest.
          AddrIPPort (RelayAddr a) = Inr (relayIP, relayPort) \<and> AddrIPPort (r_SrcAddr r) = Inr (srcIP, srcPort)
          \<and> attrs = [SRelayedAddress relayIP relayPort, SLifetime (allocationLifeTime (lib r) m),
              SXORMappedAddress srcIP srcPort] @ rest)"

definition created_alloc :: "FiveTuple \<Rightarrow> sock \<Rightarrow> sock \<Rightarrow> net_addr \<Rightarrow> int \<Rightarrow> Allocation" where
  "created_alloc ft ts conn ra expiry =
     (NewAllocation ts ft)\<lparr>RelaySocket := conn, RelayAddr := ra, lifetimeTimer := Armed expiry\<rparr>"

lemma CreateAllocation_success:
  "CreateAllocation f (arg_of ft) (Some ts) p d mg = (Inr i, mg') \<longleftrightarrow>
     d \<noteq> 0 \<and> GetAllocation mg ft = None \<and> i = length (objs mg) \<and>
     (\<exists>conn ra. f p = Inr (conn, ra) \<and> mg' = mg\<lparr>objs := objs mg @ [created_alloc ft ts conn ra (now mg + d)],
        allocations := AList.update (Fingerprint ft) i (allocations mg)\<rparr>)"
  by (auto simp: CreateAllocation_def arg_of_def Let_def AfterFunc_def created_alloc_def split: sum.splits)

lemma allocate_create_success:
  assumes "allocate_create r m key p tok s = (None, s')" and "conn_WriteTo r = WriteOk"
  shows "\<exists>a attrs. GetAllocation (s_Manager s') (request_tuple r) = Some (length (objs (s_Manager s)))
     \<and> objs (s_Manager s') = objs (s_Manager s) @ [a] \<and> fresh_alloc r m attrs (s_Manager s) a
     \<and> now (s_Manager s') = now (s_Manager s) \<and> Nonces s' = Nonces s
     \<and> stun_Build r (attrs @ [SIntegrity key]) = None
     \<and> outbox s' = outbox s @ [ToClient (r_SrcAddr r) (TransactionID (lib r) m) MethodAllocate
          ClassSuccessResponse (attrs @ [SIntegrity key])]"
proof -
  let ?d = "allocationLifeTime (lib r) m"
  let ?n = "length (objs (s_Manager s))"
  let ?create = "CreateAllocation (allocatePacketConn r) (arg_of (request_tuple r)) (Some (Conn r)) p ?d (s_Manager s)"
  from assms(1) have ok: "\<exists>i mg. ?create = (Inr i, mg) \<and> allocate_respond r m key ?d tok i (set_mgr mg s) = (None, s')"
    by (auto simp: allocate_create_def split: prod.splits sum.splits)
  then obtain mg where "\<exists>i. ?create = (Inr i, mg) \<and> allocate_respond r m key ?d tok i (set_mgr mg s) = (None, s')" by blast
  then obtain conn ra where mg: "mg = (s_Manager s)\<lparr>
      objs := objs (s_Manager s) @ [created_alloc (request_tuple r) (Conn r) conn ra (now (s_Manager s) + ?d)],
      allocations := AList.update (Fingerprint (request_tuple r)) ?n (allocations (s_Manager s))\<rparr>"
    and resp: "allocate_respond r m key ?d tok ?n (set_mgr mg s) = (None, s')"
    by (auto simp: CreateAllocation_success)
  obtain srcIP srcPort where src: "AddrIPPort (r_SrcAddr r) = Inr (srcIP, srcPort)"
    using resp by (auto simp: allocate_respond_def split: sum.splits)
  obtain relayIP relayPort where rel: "AddrIPPort ra = Inr (relayIP, relayPort)"
    using resp src
    by (auto simp: allocate_respond_def mg created_alloc_def split: sum.splits)
  let ?rest = "if tok \<noteq> [] then [SReservationToken tok] else []"
  let ?attrs = "[SRelayedAddress relayIP relayPort, SLifetime ?d, SXORMappedAddress srcIP srcPort] @ ?rest"
  let ?a = "SetResponseCache (TransactionID (lib r) m) ?attrs
     (created_alloc (request_tuple r) (Conn r) conn ra (now (s_Manager s) + ?d))"
  let ?mg = "(if tok \<noteq> [] then CreateReservation tok relayPort mg else mg)\<lparr>objs := objs (s_Manager s) @ [?a]\<rparr>"
  have send: "buildAndSend r (r_SrcAddr r) (buildMsg (TransactionID (lib r) m) MethodAllocate ClassSuccessResponse
      (?attrs @ [SIntegrity key])) (set_mgr ?mg s) = (None, s')"
    using resp src rel
    by (simp add: allocate_respond_def mg created_alloc_def update_obj_def CreateReservation_def set_mgr_def
        split: if_splits)
  have "fresh_alloc r m ?attrs (s_Manager s) ?a"
    using src rel by (auto simp: fresh_alloc_def created_alloc_def SetResponseCache_def NewAllocation_def)
  with buildAndSend_sent [OF send assms(2)] show ?thesis
    by (intro exI [of _ ?a] exI [of _ ?attrs]) (simp add: GetAllocation_def CreateReservation_def mg gomap_simps set_mgr_def)
qed

lemma authenticate_accepts: "authenticated r m key s \<Longrightarrow> authenticateRequest r m cm s = (Inr key, s)"
  using authenticate_ok [of r m cm s key] authenticate_same [of r m cm s key] by (metis prod.collapse)

lemma allocate_success:
  assumes "authenticated r m key s" and "GetAllocation (s_Manager s) (request_tuple r) = None"
    and "handleAllocateRequest r m s = (None, s')"
  shows "\<exists>p tok. allocate_create r m key p tok s = (None, s')"
  using assms(2,3)
  by (auto simp: handleAllocateRequest_def authenticate_accepts [OF assms(1)] Let_def
      split: sum.splits if_splits)

text \<open>
  C33. An authenticated Allocate request of a client without an allocation that the server answers
  without an error installs exactly one new allocation: it belongs to the client's five-tuple, has no
  permission and no channel, expires after the granted lifetime, and the success response carries its relay address,
  that lifetime and the client's address. Handling the same request once more, as when the response
  was lost, sends the same response again and changes nothing else.
\<close>

theorem allocate_request_idempotent:
  assumes "authenticated r m key s" and "GetAllocation (s_Manager s) (request_tuple r) = None"
    and "handleAllocateRequest r m s = (None, s')" and "conn_WriteTo r = WriteOk"
  shows "\<exists>a attrs. GetAllocation (s_Manager s') (request_tuple r) = Some (length (objs (s_Manager s)))
     \<and> objs (s_Manager s') = objs (s_Manager s) @ [a] \<and> fresh_alloc r m attrs (s_Manager s) a
     \<and> outbox s' = outbox s @ [ToClient (r_SrcAddr r) (TransactionID (lib r) m) MethodAllocate
          ClassSuccessResponse (attrs @ [SIntegrity key])]
     \<and> handleAllocateRequest r m s' = (None, s'\<lparr>outbox := outbox s' @ [last (outbox s')]\<rparr>)"
proof -
  obtain p tok where "allocate_create r m key p tok s = (None, s')"
    using allocate_success [OF assms(1-3)] by blast
  from allocate_create_success [OF this assms(4)] obtain a attrs where
    new: "GetAllocation (s_Manager s') (request_tuple r) = Some (length (objs (s_Manager s)))"
      "objs (s_Manager s') = objs (s_Manager s) @ [a]" "fresh_alloc r m attrs (s_Manager s) a"
      "outbox s' = outbox s @ [ToClient (r_SrcAddr r) (TransactionID (lib r) m) MethodAllocate
          ClassSuccessResponse (attrs @ [SIntegrity key])]"
    and same: "now (s_Manager s') = now (s_Manager s)" "Nonces s' = Nonces s" "stun_Build r (attrs @ [SIntegrity key]) = None"
    by blast
  have "authenticated r m key s'" using assms(1) same(1,2) by (simp add: authenticated_def)
  from authenticate_accepts [OF this] have "handleAllocateRequest r m s' = (None, s'\<lparr>outbox := outbox s' @ [last (outbox s')]\<rparr>)"
    using new same(3) assms(4)
    by (simp add: handleAllocateRequest_def GetResponseCache_def fresh_alloc_def buildAndSend_def buildMsg_def)
  with new show ?thesis by blast
qed

theorem allocate_request_idempotent_witness:
  "\<exists>s'. handleAllocateRequest demo_allocate (ClassRequest, MethodAllocate,
       [(AttrMessageIntegrity, [5]), (AttrRequestedTransport, [17, 0, 0, 0])]) demo_server = (None, s')
     \<and> length (objs (s_Manager s')) = 1"
proof -
  let ?m = "(ClassRequest, MethodAllocate, [(AttrMessageIntegrity, [5 :: byte]), (AttrRequestedTransport, [17, 0, 0, 0])])"
  have run: "handleAllocateRequest demo_allocate ?m demo_server = (None, demo_allocated)"
    by (simp add: server_eval attr_eval manager_eval SetResponseCache_def)
  have auth: "authenticated demo_allocate ?m [5] demo_server"
    by (simp add: authenticated_def demo_lib_def nonceLifetime_def empty_manager_def)
  have none: "GetAllocation (s_Manager demo_server) (request_tuple demo_allocate) = None"
    by (simp add: GetAllocation_def empty_manager_def)
  from allocate_request_idempotent [OF auth none run] run show ?thesis by (auto simp: empty_manager_def)
qed

end
