(* ===== verification/TurnBinding.thy ===== *)
theory TurnBinding
  imports TurnProto
begin

text \<open>
  The TURN client's tables, \<open>lib/pion-turn/internal/client/permission.go\<close> and
  \<open>binding.go\<close>: the permission map, keyed by the fingerprint of the peer's IP, and the
  binding manager, which hands out channel numbers and finds bindings by number and by
  address. Objects shared by pointer live in a heap list; the maps hold their position.
  The main result is that number and address stay inverse to each other until the channel
  numbers have been handed out once, and that they do not after that.
\<close>

section \<open>Permissions\<close>

datatype permState = permStateIdle | permStatePermitted

record permission =
  perm_addr :: "net_addr option"
  perm_st :: permState

record permissionMap =
  perms :: "permission list"
  permMap :: "(string, nat) gomap"

definition newPermissionMap :: permissionMap where
  "newPermissionMap = \<lparr>perms = [], permMap = []\<rparr>"

text \<open>\<open>&permission{}\<close>: a fresh object in state idle.\<close>

definition new_permission :: "permissionMap \<Rightarrow> nat \<times> permissionMap" where
  "new_permission m =
     (length (perms m), m\<lparr>perms := perms m @ [\<lparr>perm_addr = None, perm_st = permStateIdle\<rparr>]\<rparr>)"

definition perm_setState :: "nat \<Rightarrow> permState \<Rightarrow> permissionMap \<Rightarrow> permissionMap" where
  "perm_setState r s m = m\<lparr>perms := (perms m)[r := (perms m ! r)\<lparr>perm_st := s\<rparr>]\<rparr>"

definition perm_state :: "permissionMap \<Rightarrow> nat \<Rightarrow> permState" where
  "perm_state m r = perm_st (perms m ! r)"

definition perm_insert :: "permissionMap \<Rightarrow> net_addr \<Rightarrow> nat \<Rightarrow> permissionMap" where
  "perm_insert m addr r =
     m\<lparr>perms := (perms m)[r := (perms m ! r)\<lparr>perm_addr := Some addr\<rparr>],
       permMap := AList.update (FingerprintAddr addr) r (permMap m)\<rparr>"

definition perm_find :: "permissionMap \<Rightarrow> net_addr \<Rightarrow> nat option" where
  "perm_find m addr = map_of (permMap m) (FingerprintAddr addr)"

definition perm_delete :: "permissionMap \<Rightarrow> net_addr \<Rightarrow> permissionMap" where
  "perm_delete m addr = m\<lparr>permMap := AList.delete (FingerprintAddr addr) (permMap m)\<rparr>"

definition perm_addrs :: "permissionMap \<Rightarrow> net_addr option list" where
  "perm_addrs m = map (\<lambda>(k, r). perm_addr (perms m ! r)) (permMap m)"

interpretation pm: keyed_store FingerprintAddr perm_insert perm_find perm_delete
  by unfold_locales (simp_all add: perm_insert_def perm_find_def perm_delete_def gomap_simps)

text \<open>Every filed permission exists and carries an address of its own key.\<close>

definition pm_inv :: "permissionMap \<Rightarrow> bool" where
  "pm_inv m \<longleftrightarrow> gomap_ok (permMap m) \<and>
     (\<forall>(k, r) \<in> set (permMap m). r < length (perms m) \<and> (\<exists>a. perm_addr (perms m ! r) = Some a \<and> FingerprintAddr a = k))"

lemma pm_inv_new [simp]: "pm_inv newPermissionMap"
  by (simp add: pm_inv_def newPermissionMap_def)

lemma pm_inv_new_permission: "pm_inv m \<Longrightarrow> pm_inv (snd (new_permission m))"
  by (auto simp: pm_inv_def new_permission_def nth_append)

lemma pm_inv_setState: "pm_inv m \<Longrightarrow> pm_inv (perm_setState r s m)"
  by (auto simp: pm_inv_def perm_setState_def nth_update_proj [where f = perm_addr])

lemma pm_inv_delete: "pm_inv m \<Longrightarrow> pm_inv (perm_delete m addr)"
  by (auto simp: pm_inv_def perm_delete_def)

text \<open>Inserting an object that is not filed yet, which is how \<open>WriteTo\<close> uses it.\<close>

lemma pm_inv_insert:
  assumes "pm_inv m" and "r < length (perms m)" and "\<forall>(k, r') \<in> set (permMap m). r' \<noteq> r"
  shows "pm_inv (perm_insert m addr r)"
  using assms by (fastforce simp: pm_inv_def perm_insert_def gomap_mem_update nth_list_update split: if_splits)

section \<open>Channel bindings\<close>

definition minChannelNumber :: u16 where "minChannelNumber = 0x4000"
definition maxChannelNumber :: u16 where "maxChannelNumber = 0x7fff"

datatype bindingState =
  bindingStateIdle | bindingStateRequest | bindingStateReady | bindingStateRefresh | bindingStateFailed

record binding =
  number :: u16
  st :: bindingState
  addr :: net_addr
  refreshedAt :: int

record bindingManager =
  bindings :: "binding list"
  chanMap :: "(u16, nat) gomap"
  addrMap :: "(string, nat) gomap"
  next_number :: u16

definition newBindingManager :: bindingManager where
  "newBindingManager = \<lparr>bindings = [], chanMap = [], addrMap = [], next_number = minChannelNumber\<rparr>"

definition bnd_setState :: "nat \<Rightarrow> bindingState \<Rightarrow> bindingManager \<Rightarrow> bindingManager" where
  "bnd_setState r s m = m\<lparr>bindings := (bindings m)[r := (bindings m ! r)\<lparr>st := s\<rparr>]\<rparr>"

definition bnd_state :: "bindingManager \<Rightarrow> nat \<Rightarrow> bindingState" where
  "bnd_state m r = st (bindings m ! r)"

definition bnd_setRefreshedAt :: "nat \<Rightarrow> int \<Rightarrow> bindingManager \<Rightarrow> bindingManager" where
  "bnd_setRefreshedAt r t m = m\<lparr>bindings := (bindings m)[r := (bindings m ! r)\<lparr>refreshedAt := t\<rparr>]\<rparr>"

definition bnd_refreshedAt :: "bindingManager \<Rightarrow> nat \<Rightarrow> int" where
  "bnd_refreshedAt m r = refreshedAt (bindings m ! r)"

definition assignChannelNumber :: "bindingManager \<Rightarrow> u16 \<times> bindingManager" where
  "assignChannelNumber m =
     (let n = next_number m
      in (n, if n = maxChannelNumber then m\<lparr>next_number := minChannelNumber\<rparr>
             else m\<lparr>next_number := n + 1\<rparr>))"

definition bnd_create :: "int \<Rightarrow> net_addr \<Rightarrow> bindingManager \<Rightarrow> nat \<times> bindingManager" where
  "bnd_create now a m =
     (case assignChannelNumber m of (n, m1) \<Rightarrow>
        (let r = length (bindings m1)
         in (r, m1\<lparr>bindings := bindings m1 @ [\<lparr>number = n, st = bindingStateIdle, addr = a, refreshedAt = now\<rparr>],
                   chanMap := AList.update n r (chanMap m1),
                   addrMap := AList.update (addr_String a) r (addrMap m1)\<rparr>)))"

definition bnd_findByAddr :: "bindingManager \<Rightarrow> net_addr \<Rightarrow> nat option" where
  "bnd_findByAddr m a = map_of (addrMap m) (addr_String a)"

definition bnd_findByNumber :: "bindingManager \<Rightarrow> u16 \<Rightarrow> nat option" where
  "bnd_findByNumber m n = map_of (chanMap m) n"

definition bnd_deleteByAddr :: "net_addr \<Rightarrow> bindingManager \<Rightarrow> bool \<times> bindingManager" where
  "bnd_deleteByAddr a m =
     (case map_of (addrMap m) (addr_String a) of
        None \<Rightarrow> (False, m)
      | Some r \<Rightarrow>
          (True, m\<lparr>addrMap := AList.delete (addr_String a) (addrMap m),
                   chanMap := AList.delete (number (bindings m ! r)) (chanMap m)\<rparr>))"

definition bnd_deleteByNumber :: "u16 \<Rightarrow> bindingManager \<Rightarrow> bool \<times> bindingManager" where
  "bnd_deleteByNumber n m =
     (case map_of (chanMap m) n of
        None \<Rightarrow> (False, m)
      | Some r \<Rightarrow>
          (True, m\<lparr>addrMap := AList.delete (addr_String (addr (bindings m ! r))) (addrMap m),
                   chanMap := AList.delete n (chanMap m)\<rparr>))"

definition bnd_size :: "bindingManager \<Rightarrow> nat" where
  "bnd_size m = length (chanMap m)"

section \<open>Number and address are inverse\<close>

text \<open>
  \<open>bm_ok\<close>: the two maps file the same bindings, each under its own number and its own
  address. \<open>bm_fresh k\<close>: fewer than \<open>k\<close> numbers have been handed out, all of them
  below the next one.
\<close>

definition bm_ok :: "bindingManager \<Rightarrow> bool" where
  "bm_ok m \<longleftrightarrow> gomap_ok (chanMap m) \<and> gomap_ok (addrMap m) \<and>
     (\<forall>n r. map_of (chanMap m) n = Some r \<longrightarrow> r < length (bindings m) \<and> number (bindings m ! r) = n
        \<and> map_of (addrMap m) (addr_String (addr (bindings m ! r))) = Some r) \<and>
     (\<forall>k r. map_of (addrMap m) k = Some r \<longrightarrow> r < length (bindings m) \<and> addr_String (addr (bindings m ! r)) = k
        \<and> map_of (chanMap m) (number (bindings m ! r)) = Some r)"

definition bm_used :: "nat \<Rightarrow> bindingManager \<Rightarrow> bool" where
  "bm_used k m \<longleftrightarrow> k \<le> 0x4000
     \<and> next_number m = (if k = 0x4000 then minChannelNumber else minChannelNumber + of_nat k)
     \<and> (\<forall>n r. map_of (chanMap m) n = Some r \<longrightarrow> minChannelNumber \<le> n \<and> unat n < 0x4000 + k)"

lemma bm_ok_new [simp]: "bm_ok newBindingManager"
  by (simp add: bm_ok_def newBindingManager_def)

lemma bm_used_new [simp]: "bm_used 0 newBindingManager"
  by (simp add: bm_used_def newBindingManager_def)

lemma bm_ok_setState: "bm_ok m \<Longrightarrow> bm_ok (bnd_setState r s m)"
  by (simp add: bm_ok_def bnd_setState_def nth_update_proj [where f = addr] nth_update_proj [where f = number])

lemma bm_ok_setRefreshedAt: "bm_ok m \<Longrightarrow> bm_ok (bnd_setRefreshedAt r t m)"
  by (simp add: bm_ok_def bnd_setRefreshedAt_def nth_update_proj [where f = addr] nth_update_proj [where f = number])

lemma bm_okD:
  assumes "bm_ok m"
  shows "map_of (chanMap m) n = Some r \<Longrightarrow> r < length (bindings m) \<and> number (bindings m ! r) = n
        \<and> map_of (addrMap m) (addr_String (addr (bindings m ! r))) = Some r"
    and "map_of (addrMap m) k = Some r \<Longrightarrow> r < length (bindings m) \<and> addr_String (addr (bindings m ! r)) = k
        \<and> map_of (chanMap m) (number (bindings m ! r)) = Some r"
  using assms by (auto simp: bm_ok_def)

lemma bm_ok_unfile:
  assumes ok: "bm_ok m" and r: "map_of (chanMap m) n = Some r" "map_of (addrMap m) k = Some r"
  shows "bm_ok (m\<lparr>addrMap := AList.delete k (addrMap m), chanMap := AList.delete n (chanMap m)\<rparr>)"
proof -
  note D = bm_okD [OF ok]
  have 1: "addr_String (addr (bindings m ! q)) \<noteq> k" if "n' \<noteq> n" "map_of (chanMap m) n' = Some q" for n' q
    using D(1) [OF that(2)] D(1) [OF r(1)] r(2) that(1) by auto
  have 2: "number (bindings m ! q) \<noteq> n" if "k' \<noteq> k" "map_of (addrMap m) k' = Some q" for k' q
    using D(2) [OF that(2)] D(2) [OF r(2)] r(1) that(1) by auto
  show ?thesis
    using ok 1 2 D by (auto simp: bm_ok_def gomap_simps)
qed

lemma bm_ok_deleteByAddr: "bm_ok m \<Longrightarrow> bm_ok (snd (bnd_deleteByAddr a m))"
  by (auto simp: bnd_deleteByAddr_def bm_okD intro: bm_ok_unfile split: option.splits)

lemma bm_ok_deleteByNumber: "bm_ok m \<Longrightarrow> bm_ok (snd (bnd_deleteByNumber n m))"
  by (auto simp: bnd_deleteByNumber_def bm_okD intro: bm_ok_unfile split: option.splits)

lemma assign_fields [simp]:
  "chanMap (snd (assignChannelNumber m)) = chanMap m" "addrMap (snd (assignChannelNumber m)) = addrMap m"
  "bindings (snd (assignChannelNumber m)) = bindings m" "fst (assignChannelNumber m) = next_number m"
  by (auto simp: assignChannelNumber_def Let_def)

lemma bm_ok_create:
  assumes "bm_ok m" and "bnd_findByAddr m a = None" and "bnd_findByNumber m (next_number m) = None"
  shows "bm_ok (snd (bnd_create t a m))"
proof -
  have old: "r < length (bindings m)" "addr_String (addr (bindings m ! r)) \<noteq> addr_String a"
    if "map_of (chanMap m) n = Some r" for n r
    using that assms(1,2) by (force simp: bm_ok_def bnd_findByAddr_def)+
  have old': "r < length (bindings m)" "number (bindings m ! r) \<noteq> next_number m"
    if "map_of (addrMap m) k = Some r" for k r
    using that assms(1,3) by (force simp: bm_ok_def bnd_findByNumber_def)+
  from assms(1) old old' show ?thesis
    by (auto simp: bm_ok_def bnd_create_def Let_def case_prod_beta gomap_simps nth_append less_SucI split: if_splits)
qed

lemma bm_used_delete:
  "bm_used k m \<Longrightarrow> bm_used k (snd (bnd_deleteByAddr a m))"
  "bm_used k m \<Longrightarrow> bm_used k (snd (bnd_deleteByNumber n m))"
  by (auto simp: bm_used_def bnd_deleteByAddr_def bnd_deleteByNumber_def gomap_simps
      split: option.splits if_splits)

lemma u16_next:
  assumes "k < 0x4000"
  shows "unat (minChannelNumber + of_nat k) = 0x4000 + k"
    and "minChannelNumber + of_nat k = maxChannelNumber \<longleftrightarrow> k = 0x3fff"
    and "minChannelNumber \<le> minChannelNumber + of_nat k"
proof -
  show u: "unat (minChannelNumber + of_nat k) = 0x4000 + k"
    using assms by (simp add: minChannelNumber_def unat_word_ariths unat_of_nat)
  then show "minChannelNumber + of_nat k = maxChannelNumber \<longleftrightarrow> k = 0x3fff"
    by (simp add: maxChannelNumber_def word_unat_eq_iff)
  from u show "minChannelNumber \<le> minChannelNumber + of_nat k"
    by (simp add: word_le_nat_alt minChannelNumber_def)
qed

lemma bm_used_create:
  assumes "bm_used k m" and "k < 0x4000"
  shows "bm_used (Suc k) (snd (bnd_create t a m))" and "bnd_findByNumber m (next_number m) = None"
proof -
  note u = u16_next [OF assms(2)]
  from assms have nx: "next_number m = minChannelNumber + of_nat k"
    by (simp add: bm_used_def)
  have "map_of (chanMap m) n = Some r \<Longrightarrow> n \<noteq> next_number m" for n r
    using assms u by (auto simp: bm_used_def nx)
  then show "bnd_findByNumber m (next_number m) = None"
    by (cases "map_of (chanMap m) (next_number m)") (auto simp: bnd_findByNumber_def)
  show "bm_used (Suc k) (snd (bnd_create t a m))"
    using assms u
    by (auto simp: bm_used_def bnd_create_def Let_def case_prod_beta gomap_simps assignChannelNumber_def nx
        less_SucI split: if_splits)
qed

section \<open>Histories of the binding manager\<close>

text \<open>
  The ways \<open>UDPConn\<close> uses the manager: \<open>WriteTo\<close> finds the binding of a peer or creates it,
  a failed transaction deletes it, and the two states and the refresh time change.
\<close>

datatype bm_event =
    BmUse int net_addr
  | BmDeleteByAddr net_addr
  | BmDeleteByNumber u16
  | BmSetState nat bindingState
  | BmSetRefreshedAt nat int

fun bm_step :: "bindingManager \<Rightarrow> bm_event \<Rightarrow> bindingManager" where
  "bm_step m (BmUse t a) = (case bnd_findByAddr m a of Some r \<Rightarrow> m | None \<Rightarrow> snd (bnd_create t a m))"
| "bm_step m (BmDeleteByAddr a) = snd (bnd_deleteByAddr a m)"
| "bm_step m (BmDeleteByNumber n) = snd (bnd_deleteByNumber n m)"
| "bm_step m (BmSetState r s) = bnd_setState r s m"
| "bm_step m (BmSetRefreshedAt r t) = bnd_setRefreshedAt r t m"

fun bm_uses :: "bm_event list \<Rightarrow> nat" where
  "bm_uses [] = 0"
| "bm_uses (BmUse t a # es) = Suc (bm_uses es)"
| "bm_uses (e # es) = bm_uses es"

lemma bm_uses_Cons: "bm_uses (e # es) = (case e of BmUse t a \<Rightarrow> Suc (bm_uses es) | _ \<Rightarrow> bm_uses es)"
  by (cases e) auto

lemma bm_used_frame:
  "bm_used k m \<Longrightarrow> bm_used k (bnd_setState r s m)" "bm_used k m \<Longrightarrow> bm_used k (bnd_setRefreshedAt r t m)"
  by (simp_all add: bm_used_def bnd_setState_def bnd_setRefreshedAt_def)

lemma bm_step_ok:
  assumes "bm_ok m" and "bm_used k m" and "k < 0x4000 \<or> (\<forall>t a. e \<noteq> BmUse t a)"
  shows "bm_ok (bm_step m e)" and "\<exists>k'. bm_used k' (bm_step m e) \<and> k \<le> k' \<and> k' \<le> k + bm_uses [e]"
proof -
  show "bm_ok (bm_step m e)"
    using assms bm_used_create(2) [OF assms(2)]
    by (cases e) (auto simp: bm_ok_create bm_ok_deleteByAddr bm_ok_deleteByNumber bm_ok_setState
        bm_ok_setRefreshedAt split: option.splits)
  show "\<exists>k'. bm_used k' (bm_step m e) \<and> k \<le> k' \<and> k' \<le> k + bm_uses [e]"
  proof (cases e)
    case (BmUse t a)
    with assms(3) have "k < 0x4000" by blast
    then show ?thesis
      using assms(2) bm_used_create(1) [OF assms(2)] BmUse
      by (cases "bnd_findByAddr m a") (auto intro: exI [of _ k] exI [of _ "Suc k"])
  qed (use assms(2) in \<open>auto intro: exI [of _ k] bm_used_delete bm_used_frame\<close>)
qed

lemma bm_run_ok:
  "bm_ok m \<Longrightarrow> bm_used k m \<Longrightarrow> k + bm_uses es \<le> 0x4000 \<Longrightarrow> bm_ok (foldl bm_step m es)"
proof (induction es arbitrary: m k)
  case Nil
  then show ?case by simp
next
  case (Cons e es)
  have ok: "k < 0x4000 \<or> (\<forall>t a. e \<noteq> BmUse t a)"
    using Cons.prems(3) by (cases e) (auto simp: bm_uses_Cons)
  obtain k' where k': "bm_used k' (bm_step m e)" "k' \<le> k + bm_uses [e]"
    using bm_step_ok(2) [OF Cons.prems(1,2) ok] by blast
  moreover have "k + bm_uses [e] + bm_uses es = k + bm_uses (e # es)"
    by (cases e) auto
  ultimately have "k' + bm_uses es \<le> 0x4000" using Cons.prems(3) by linarith
  then show ?case
    using Cons.IH [OF bm_step_ok(1) [OF Cons.prems(1,2) ok] k'(1)] by simp
qed

text \<open>
  What the rest of the client relies on: a table that is looked up by address and by number.
  In a well-formed table the number that is sent for an address leads back to it.
\<close>

locale channel_table =
  fixes find_addr :: "'t \<Rightarrow> 'a \<Rightarrow> 'b option" and find_num :: "'t \<Rightarrow> 'n \<Rightarrow> 'b option"
    and num_of :: "'t \<Rightarrow> 'b \<Rightarrow> 'n" and addr_of :: "'t \<Rightarrow> 'b \<Rightarrow> 'a" and name :: "'a \<Rightarrow> 'k" and ok :: "'t \<Rightarrow> bool"
  assumes by_addr: "ok t \<Longrightarrow> find_addr t a = Some b \<Longrightarrow> find_num t (num_of t b) = Some b \<and> name (addr_of t b) = name a"
    and by_num: "ok t \<Longrightarrow> find_num t n = Some b \<Longrightarrow> num_of t b = n \<and> find_addr t (addr_of t b) = Some b"
begin

lemma number_leads_back:
  assumes "ok t" and "find_addr t a = Some b"
  shows "\<exists>b'. find_num t (num_of t b) = Some b' \<and> name (addr_of t b') = name a"
  using by_addr [OF assms] by blast

lemma numbers_distinct:
  assumes "ok t" and "find_addr t a = Some b" and "find_addr t a' = Some b'" and "num_of t b = num_of t b'"
  shows "name a = name a'"
  using by_addr [OF assms(1,2)] by_addr [OF assms(1,3)] assms(4) by (metis option.inject)

end

interpretation cht: channel_table bnd_findByAddr bnd_findByNumber "\<lambda>m b. number (bindings m ! b)"
    "\<lambda>m b. addr (bindings m ! b)" addr_String bm_ok
proof
  fix m a b
  assume "bm_ok m" and "bnd_findByAddr m a = Some b"
  then show "bnd_findByNumber m (number (bindings m ! b)) = Some b \<and> addr_String (addr (bindings m ! b)) = addr_String a"
    by (simp add: bm_ok_def bnd_findByAddr_def bnd_findByNumber_def)
next
  fix m n b
  assume "bm_ok m" and "bnd_findByNumber m n = Some b"
  then show "number (bindings m ! b) = n \<and> bnd_findByAddr m (addr (bindings m ! b)) = Some b"
    by (simp add: bm_ok_def bnd_findByAddr_def bnd_findByNumber_def)
qed

text \<open>
  The client's channel table is a bijection: after any history in which at most 16384
  peers were given a channel, a binding found by its number is the one found by its
  address and the other way round, and it carries that number and that address, so
  ChannelData is attributed to the peer that was bound.
\<close>

theorem binding_maps_inverse:
  assumes "bm_uses es \<le> 16384" and "m = foldl bm_step newBindingManager es"
  shows "(bnd_findByNumber m n = Some r \<longrightarrow>
            number (bindings m ! r) = n \<and> bnd_findByAddr m (addr (bindings m ! r)) = Some r)
       \<and> (bnd_findByAddr m a = Some r \<longrightarrow>
            addr_String (addr (bindings m ! r)) = addr_String a
            \<and> bnd_findByNumber m (number (bindings m ! r)) = Some r)"
proof -
  have "bm_ok m"
    using bm_run_ok [OF bm_ok_new bm_used_new, of es] assms by simp
  then show ?thesis
    by (auto simp: bm_ok_def bnd_findByNumber_def bnd_findByAddr_def)
qed

theorem binding_maps_inverse_witness:
  "bnd_findByNumber (foldl bm_step newBindingManager [BmUse 0 (UDPAddr [10, 0, 0, 9] 7000 [])]) 0x4000 = Some 0
   \<and> bnd_findByAddr (foldl bm_step newBindingManager [BmUse 0 (UDPAddr [10, 0, 0, 9] 7000 [])])
        (UDPAddr [10, 0, 0, 9] 7000 []) = Some 0"
proof -
  let ?m = "foldl bm_step newBindingManager [BmUse 0 (UDPAddr [10, 0, 0, 9] 7000 [])]"
  have "bnd_findByNumber ?m 0x4000 = Some 0" "addr (bindings ?m ! 0) = UDPAddr [10, 0, 0, 9] 7000 []"
    by (simp_all add: newBindingManager_def bnd_findByAddr_def bnd_create_def assignChannelNumber_def
        bnd_findByNumber_def Let_def minChannelNumber_def maxChannelNumber_def)
  then show ?thesis
    using binding_maps_inverse [of "[BmUse 0 (UDPAddr [10, 0, 0, 9] 7000 [])]" ?m "0x4000" 0]
    by (simp del: foldl_Cons foldl_Nil)
qed

section \<open>The numbers are handed out again\<close>

text \<open>One peer per port of one address.\<close>

definition port_peer :: "nat \<Rightarrow> net_addr" where
  "port_peer i = UDPAddr [10, 0, 0, 9] (int i) []"

definition used_by_peers :: "nat \<Rightarrow> bindingManager" where
  "used_by_peers k = foldl bm_step newBindingManager (map (\<lambda>i. BmUse 0 (port_peer i)) [0..<k])"

lemma port_peer_String [simp]: "addr_String (port_peer i) = addr_String (port_peer j) \<longleftrightarrow> i = j"
  by (auto simp: port_peer_def ipport_String_def joinHostPort_def itoa_def Let_def)

lemma used_by_peers_0 [simp]: "used_by_peers 0 = newBindingManager"
  by (simp add: used_by_peers_def)

lemma used_by_peers_Suc: "used_by_peers (Suc k) = bm_step (used_by_peers k) (BmUse 0 (port_peer k))"
  by (simp add: used_by_peers_def)

lemma used_by_peers_state:
  "k \<le> 0x4000 \<Longrightarrow> length (bindings (used_by_peers k)) = k \<and> bm_used k (used_by_peers k)
     \<and> (\<forall>j<k. number (bindings (used_by_peers k) ! j) = minChannelNumber + of_nat j
           \<and> addr (bindings (used_by_peers k) ! j) = port_peer j)
     \<and> (\<forall>j. bnd_findByAddr (used_by_peers k) (port_peer j) = (if j < k then Some j else None))"
proof (induction k)
  case 0
  then show ?case by (simp add: newBindingManager_def bnd_findByAddr_def bm_used_def)
next
  case (Suc k)
  then have k: "k < 0x4000" and IH: "length (bindings (used_by_peers k)) = k" "bm_used k (used_by_peers k)"
    "\<forall>j<k. number (bindings (used_by_peers k) ! j) = minChannelNumber + of_nat j
         \<and> addr (bindings (used_by_peers k) ! j) = port_peer j"
    "\<forall>j. bnd_findByAddr (used_by_peers k) (port_peer j) = (if j < k then Some j else None)"
    by auto
  let ?m = "used_by_peers k"
  have step: "used_by_peers (Suc k) = snd (bnd_create 0 (port_peer k) ?m)"
    using IH(4) by (simp add: used_by_peers_Suc)
  have nx: "next_number ?m = minChannelNumber + of_nat k"
    using IH(2) k by (simp add: bm_used_def)
  have binds: "bindings (used_by_peers (Suc k)) = bindings ?m @
      [\<lparr>number = minChannelNumber + of_nat k, st = bindingStateIdle, addr = port_peer k, refreshedAt = 0\<rparr>]"
    by (simp add: step bnd_create_def Let_def case_prod_beta nx)
  have "bm_used (Suc k) (used_by_peers (Suc k))"
    using bm_used_create(1) [OF IH(2) k] by (simp add: step)
  moreover have "bnd_findByAddr (used_by_peers (Suc k)) (port_peer j) = (if j < Suc k then Some j else None)" for j
    using IH(1,4) by (auto simp: step bnd_create_def bnd_findByAddr_def Let_def case_prod_beta gomap_simps)
  ultimately show ?case
    using IH(1,3) by (auto simp: binds nth_append less_Suc_eq)
qed

text \<open>
  Once all channel numbers have been handed out, \<open>assignChannelNumber\<close> starts again at the
  lowest one without looking whether it is in use: with 16384 peers bound, the binding of
  one more peer takes over the number of the first peer. The first peer's binding still
  carries that number, but the number now finds the new peer, so data the server relays
  from the first peer is attributed to the other one.
\<close>

theorem channel_number_reused:
  "\<exists>es. let m = foldl bm_step newBindingManager es in
     bm_uses es = 16385 \<and>
     (\<exists>r r'. bnd_findByAddr m (port_peer 0) = Some r \<and> number (bindings m ! r) = 0x4000
        \<and> bnd_findByNumber m 0x4000 = Some r' \<and> addr (bindings m ! r') = port_peer 16384
        \<and> addr_String (port_peer 16384) \<noteq> addr_String (port_peer 0))"
proof -
  define m' where "m' = used_by_peers (Suc 16384)"
  let ?m = "used_by_peers 16384"
  let ?es = "map (\<lambda>i. BmUse 0 (port_peer i)) [0..<Suc 16384]"
  have uses: "bm_uses (map (\<lambda>i. BmUse 0 (port_peer i)) xs) = length xs" for xs
    by (induction xs) simp_all
  note S = used_by_peers_state [of 16384, simplified]
  have run: "foldl bm_step newBindingManager ?es = m'"
    unfolding m'_def used_by_peers_def by (rule refl)
  have step: "m' = snd (bnd_create 0 (port_peer 16384) ?m)"
    using S by (simp only: m'_def used_by_peers_Suc bm_step.simps) simp
  have nx: "next_number ?m = 0x4000"
    using S by (simp add: bm_used_def minChannelNumber_def)
  have "bnd_findByAddr m' (port_peer 0) = Some 0"
    using S by (simp add: step bnd_create_def bnd_findByAddr_def Let_def case_prod_beta gomap_simps)
  moreover have "number (bindings m' ! 0) = 0x4000"
    using S by (simp add: step bnd_create_def Let_def case_prod_beta nth_append minChannelNumber_def)
  moreover have "bnd_findByNumber m' 0x4000 = Some 16384"
    using S by (simp add: step bnd_create_def bnd_findByNumber_def Let_def case_prod_beta gomap_simps nx)
  moreover have "addr (bindings m' ! 16384) = port_peer 16384"
    using S by (simp add: step bnd_create_def Let_def case_prod_beta nth_append)
  moreover have "addr_String (port_peer 16384) \<noteq> addr_String (port_peer 0)" by simp
  moreover have "bm_uses ?es = 16385" by (simp only: uses length_upt)
  ultimately show ?thesis
    unfolding Let_def by (intro exI [of _ ?es]) (simp only: run, blast)
qed

end
