(* ===== verification/TurnTransaction.thy ===== *)
theory TurnTransaction
  imports TurnProto
begin

text \<open>
  STUN transactions of the TURN client: \<open>internal/client/transaction.go\<close>,
  \<open>periodic_timer.go\<close>, \<open>trylock.go\<close> and the transaction part of \<open>client.go\<close>
  (\<open>PerformTransaction\<close>, \<open>onRtxTimeout\<close>, the response branch of \<open>handleSTUNMessage\<close>).
  Shown: a transaction without an answer is retransmitted on the capped doubling
  schedule and ends with an error after seven requests; an answer is delivered once; in every
  interleaving of the goroutines nobody sends on, or closes, a closed result channel, nobody closes a channel that
  somebody sends on, and a transaction gets one result at most.
\<close>

section \<open>Transactions\<close>

definition maxRtxInterval :: duration where "maxRtxInterval = 1600 * millisecond"

datatype tr_error =
    errWaitForResultOnNonResultTransaction
  | errTransactionClosed
  | errAllRetransmissionsFailed string
  | errFailedToRetransmitTransaction string
  | errConnWrite string

record 'msg TransactionResult =
  Msg :: "'msg option"
  From :: "net_addr option"
  tr_Retries :: nat
  Err :: "tr_error option"

definition zero_result :: "'msg TransactionResult" where
  "zero_result = \<lparr>Msg = None, From = None, tr_Retries = 0, Err = None\<rparr>"

text \<open>
  A result channel is nil, open or closed. It has no buffer: a value stays with its sender, which blocks until it is
  received. An open channel is therefore the list of the values whose senders are blocked.
\<close>

datatype 'r result_chan = NilChan | OpenChan "'r list" | ClosedChan

record TransactionConfig =
  cfg_Key :: string
  cfg_Raw :: bytes
  cfg_To :: net_addr
  cfg_Interval :: duration
  cfg_IgnoreResult :: bool

record 'msg Transaction =
  Key :: string
  tr_Raw :: bytes
  To :: net_addr
  nRtx :: nat
  interval :: duration
  rtx_timer :: "int option"
  resultCh :: "'msg TransactionResult result_chan"

definition NewTransaction :: "TransactionConfig \<Rightarrow> 'msg Transaction" where
  "NewTransaction config =
     \<lparr>Key = cfg_Key config, tr_Raw = cfg_Raw config, To = cfg_To config, nRtx = 0,
      interval = cfg_Interval config, rtx_timer = None,
      resultCh = (if cfg_IgnoreResult config then NilChan else OpenChan [])\<rparr>"

definition StartRtxTimer :: "int \<Rightarrow> 'msg Transaction \<Rightarrow> 'msg Transaction" where
  "StartRtxTimer t tr = tr\<lparr>rtx_timer := Some (t + interval tr)\<rparr>"

text \<open>What the timer's function does before it calls \<open>onTimeout\<close>.\<close>

definition rtx_expire :: "'msg Transaction \<Rightarrow> 'msg Transaction" where
  "rtx_expire tr =
     (let i = interval tr * 2
      in tr\<lparr>nRtx := nRtx tr + 1, rtx_timer := None,
            interval := (if i > maxRtxInterval then maxRtxInterval else i)\<rparr>)"

definition StopRtxTimer :: "'msg Transaction \<Rightarrow> 'msg Transaction" where
  "StopRtxTimer tr = tr\<lparr>rtx_timer := None\<rparr>"

text \<open>Sending on a closed channel panics; \<open>None\<close> is that panic. On an open channel the sender blocks with its value.\<close>

definition WriteResult ::
    "'msg TransactionResult \<Rightarrow> 'msg Transaction \<Rightarrow> (bool \<times> 'msg Transaction) option" where
  "WriteResult res tr =
     (case resultCh tr of
        NilChan \<Rightarrow> Some (False, tr)
      | OpenChan q \<Rightarrow> Some (True, tr\<lparr>resultCh := OpenChan (q @ [res])\<rparr>)
      | ClosedChan \<Rightarrow> None)"

text \<open>Receiving from an open empty channel blocks; \<open>None\<close> is a call that does not return yet.\<close>

definition WaitForResult :: "'msg Transaction \<Rightarrow> ('msg TransactionResult \<times> 'msg Transaction) option" where
  "WaitForResult tr =
     (case resultCh tr of
        NilChan \<Rightarrow> Some (zero_result\<lparr>Err := Some errWaitForResultOnNonResultTransaction\<rparr>, tr)
      | OpenChan [] \<Rightarrow> None
      | OpenChan (x # xs) \<Rightarrow> Some (x, tr\<lparr>resultCh := OpenChan xs\<rparr>)
      | ClosedChan \<Rightarrow> Some (zero_result\<lparr>Err := Some errTransactionClosed\<rparr>, tr))"

text \<open>Closing a closed channel panics as well, and closing a channel makes the senders blocked on it panic.\<close>

definition Transaction_Close :: "'msg Transaction \<Rightarrow> 'msg Transaction option" where
  "Transaction_Close tr =
     (case resultCh tr of
        NilChan \<Rightarrow> Some tr
      | OpenChan [] \<Rightarrow> Some (tr\<lparr>resultCh := ClosedChan\<rparr>)
      | OpenChan (x # xs) \<Rightarrow> None
      | ClosedChan \<Rightarrow> None)"

definition Retries :: "'msg Transaction \<Rightarrow> nat" where
  "Retries tr = nRtx tr"

section \<open>The transaction map\<close>

record 'msg TransactionMap =
  trs :: "'msg Transaction list"
  trMap :: "(string, nat) gomap"

definition NewTransactionMap :: "'msg TransactionMap" where
  "NewTransactionMap = \<lparr>trs = [], trMap = []\<rparr>"

definition tm_Insert :: "'msg TransactionMap \<Rightarrow> string \<Rightarrow> nat \<Rightarrow> 'msg TransactionMap" where
  "tm_Insert m k r = m\<lparr>trMap := AList.update k r (trMap m)\<rparr>"

definition tm_Find :: "'msg TransactionMap \<Rightarrow> string \<Rightarrow> nat option" where
  "tm_Find m k = map_of (trMap m) k"

definition tm_Delete :: "'msg TransactionMap \<Rightarrow> string \<Rightarrow> 'msg TransactionMap" where
  "tm_Delete m k = m\<lparr>trMap := AList.delete k (trMap m)\<rparr>"

definition tm_Size :: "'msg TransactionMap \<Rightarrow> nat" where
  "tm_Size m = length (trMap m)"

fun close_and_delete :: "(string \<times> nat) list \<Rightarrow> 'msg TransactionMap \<Rightarrow> 'msg TransactionMap option" where
  "close_and_delete [] m = Some m"
| "close_and_delete ((k, r) # krs) m =
     (case Transaction_Close (trs m ! r) of
        None \<Rightarrow> None
      | Some tr \<Rightarrow> close_and_delete krs (tm_Delete (m\<lparr>trs := (trs m)[r := tr]\<rparr>) k))"

definition CloseAndDeleteAll :: "'msg TransactionMap \<Rightarrow> 'msg TransactionMap option" where
  "CloseAndDeleteAll m = close_and_delete (trMap m) m"

interpretation tmap: keyed_store "\<lambda>k. k" tm_Insert tm_Find tm_Delete
  by unfold_locales (simp_all add: tm_Insert_def tm_Find_def tm_Delete_def gomap_simps)

section \<open>The client's use of transactions\<close>

definition defaultRTO :: duration where "defaultRTO = 200 * millisecond"
definition maxRtxCount :: nat where "maxRtxCount = 7"

text \<open>The transaction part of \<open>Client\<close>; \<open>sent\<close> records what went out on the socket.\<close>

record 'msg tr_client = "'msg TransactionMap" +
  clock :: int
  rto :: duration
  sent :: "(bytes \<times> net_addr) list"

definition upd_tr :: "nat \<Rightarrow> 'msg Transaction \<Rightarrow> 'msg tr_client \<Rightarrow> 'msg tr_client" where
  "upd_tr r tr c = c\<lparr>trs := (trs c)[r := tr]\<rparr>"

text \<open>
  \<open>PerformTransaction\<close> up to the point where it waits for the result: register, send,
  start the timer. No lock is held over the three, so each is a step of its own in the concurrent system below.
  \<open>write_err\<close> is what \<open>conn.WriteTo\<close> returned.
\<close>

definition register_transaction ::
    "string \<Rightarrow> bytes \<Rightarrow> net_addr \<Rightarrow> bool \<Rightarrow> 'msg tr_client \<Rightarrow> nat \<times> 'msg tr_client" where
  "register_transaction trKey raw to ignoreResult c =
     (let tr = NewTransaction \<lparr>cfg_Key = trKey, cfg_Raw = raw, cfg_To = to, cfg_Interval = rto c,
                 cfg_IgnoreResult = ignoreResult\<rparr>;
          r = length (trs c)
      in (r, c\<lparr>trs := trs c @ [tr], trMap := AList.update trKey r (trMap c)\<rparr>))"

definition send_request :: "nat \<Rightarrow> 'msg tr_client \<Rightarrow> 'msg tr_client" where
  "send_request r c = c\<lparr>sent := sent c @ [(tr_Raw (trs c ! r), To (trs c ! r))]\<rparr>"

definition start_timer :: "nat \<Rightarrow> 'msg tr_client \<Rightarrow> 'msg tr_client" where
  "start_timer r c = upd_tr r (StartRtxTimer (clock c) (trs c ! r)) c"

definition PerformTransaction ::
    "string option \<Rightarrow> string \<Rightarrow> bytes \<Rightarrow> net_addr \<Rightarrow> bool \<Rightarrow> 'msg tr_client \<Rightarrow> tr_error option \<times> nat \<times> 'msg tr_client" where
  "PerformTransaction write_err trKey raw to ignoreResult c =
     (let (r, c1) = register_transaction trKey raw to ignoreResult c
      in case write_err of
           Some e \<Rightarrow> (Some (errConnWrite e), r, c1)
         | None \<Rightarrow> (None, r, start_timer r (send_request r c1)))"

definition fail_transaction :: "string \<Rightarrow> nat \<Rightarrow> tr_error \<Rightarrow> 'msg tr_client \<Rightarrow> 'msg tr_client option" where
  "fail_transaction trKey r e c =
     (case WriteResult (zero_result\<lparr>Err := Some e\<rparr>) (trs c ! r) of
        None \<Rightarrow> None
      | Some (_, tr) \<Rightarrow> Some (upd_tr r tr (c\<lparr>trMap := AList.delete trKey (trMap c)\<rparr>)))"

definition onRtxTimeout :: "bool \<Rightarrow> string \<Rightarrow> nat \<Rightarrow> 'msg tr_client \<Rightarrow> 'msg tr_client option" where
  "onRtxTimeout write_ok trKey n c =
     (case map_of (trMap c) trKey of
        None \<Rightarrow> Some c
      | Some r \<Rightarrow>
          (if n = maxRtxCount then fail_transaction trKey r (errAllRetransmissionsFailed trKey) c
           else if \<not> write_ok then fail_transaction trKey r (errFailedToRetransmitTransaction trKey) c
           else Some (start_timer r (send_request r c))))"

text \<open>
  The timer of transaction object \<open>r\<close> fires: its function runs at the time it was set for. It updates the object
  under the object's lock and then calls \<open>onRtxTimeout\<close> with what it read.
\<close>

definition expire_timer :: "nat \<Rightarrow> 'msg tr_client \<Rightarrow> (string \<times> nat) option \<times> 'msg tr_client" where
  "expire_timer r c =
     (if r < length (trs c) then
        (case rtx_timer (trs c ! r) of
           None \<Rightarrow> (None, c)
         | Some t \<Rightarrow>
             (let tr = rtx_expire (trs c ! r)
              in (Some (Key tr, nRtx tr), upd_tr r tr (c\<lparr>clock := max (clock c) t\<rparr>))))
      else (None, c))"

definition fire_timer :: "bool \<Rightarrow> nat \<Rightarrow> 'msg tr_client \<Rightarrow> 'msg tr_client option" where
  "fire_timer write_ok r c =
     (case expire_timer r c of
        (None, c1) \<Rightarrow> Some c1
      | (Some (k, n), c1) \<Rightarrow> onRtxTimeout write_ok k n c1)"

text \<open>
  The response branch of \<open>handleSTUNMessage\<close>: under \<open>mutexTrMap\<close> the transaction is looked up, its timer stopped
  and its entry deleted; after the unlock the result is written. \<open>None\<close> would be a panic.
\<close>

definition take_response :: "string \<Rightarrow> 'msg tr_client \<Rightarrow> nat option \<times> 'msg tr_client" where
  "take_response trKey c =
     (case map_of (trMap c) trKey of
        None \<Rightarrow> (None, c)
      | Some r \<Rightarrow> (Some r, upd_tr r (StopRtxTimer (trs c ! r)) (c\<lparr>trMap := AList.delete trKey (trMap c)\<rparr>)))"

definition write_response :: "nat \<Rightarrow> 'msg \<Rightarrow> net_addr \<Rightarrow> 'msg tr_client \<Rightarrow> 'msg tr_client option" where
  "write_response r msg from_addr c =
     (let tr = trs c ! r
      in case WriteResult \<lparr>Msg = Some msg, From = Some from_addr, tr_Retries = Retries tr, Err = None\<rparr> tr of
           None \<Rightarrow> None
         | Some (_, tr') \<Rightarrow> Some (upd_tr r tr' c))"

definition handle_response :: "string \<Rightarrow> 'msg \<Rightarrow> net_addr \<Rightarrow> 'msg tr_client \<Rightarrow> 'msg tr_client option" where
  "handle_response trKey msg from_addr c =
     (case take_response trKey c of
        (None, c1) \<Rightarrow> Some c1
      | (Some r, c1) \<Rightarrow> write_response r msg from_addr c1)"

text \<open>\<open>Client.Close\<close>.\<close>

definition Client_Close :: "'msg tr_client \<Rightarrow> 'msg tr_client option" where
  "Client_Close c =
     (case CloseAndDeleteAll \<lparr>trs = trs c, trMap = trMap c\<rparr> of
        None \<Rightarrow> None
      | Some m \<Rightarrow> Some (c\<lparr>trs := trs m, trMap := trMap m\<rparr>))"

section \<open>Periodic timers and try-locks\<close>

text \<open>
  \<open>PeriodicTimer\<close>: running exactly while it holds a stop function. \<open>ticks\<close> are the
  handler calls its goroutine made; one tick happens per interval while it runs.
\<close>

record PeriodicTimer =
  timer_id :: int
  pt_interval :: duration
  running :: bool
  ticks :: "int list"

definition NewPeriodicTimer :: "int \<Rightarrow> duration \<Rightarrow> PeriodicTimer" where
  "NewPeriodicTimer i d = \<lparr>timer_id = i, pt_interval = d, running = False, ticks = []\<rparr>"

definition PeriodicTimer_Start :: "PeriodicTimer \<Rightarrow> bool \<times> PeriodicTimer" where
  "PeriodicTimer_Start t = (if running t then (False, t) else (True, t\<lparr>running := True\<rparr>))"

definition PeriodicTimer_Stop :: "PeriodicTimer \<Rightarrow> PeriodicTimer" where
  "PeriodicTimer_Stop t = (if running t then t\<lparr>running := False\<rparr> else t)"

definition PeriodicTimer_IsRunning :: "PeriodicTimer \<Rightarrow> bool" where
  "PeriodicTimer_IsRunning t = running t"

definition PeriodicTimer_expire :: "PeriodicTimer \<Rightarrow> PeriodicTimer" where
  "PeriodicTimer_expire t = (if running t then t\<lparr>ticks := ticks t @ [timer_id t]\<rparr> else t)"

text \<open>\<open>TryLock\<close>: a compare-and-swap on 0 and 1.\<close>

record TryLock =
  lock_n :: "32 word"

definition TryLock_Lock :: "TryLock \<Rightarrow> bool \<times> TryLock" where
  "TryLock_Lock c = (if lock_n c = 0 then (True, c\<lparr>lock_n := 1\<rparr>) else (False, c))"

definition TryLock_Unlock :: "TryLock \<Rightarrow> TryLock" where
  "TryLock_Unlock c = c\<lparr>lock_n := 0\<rparr>"

section \<open>Whole handlers, one after the other\<close>

datatype 'msg tr_event =
    TrPerform "string option" string bytes net_addr bool
  | TrFire bool nat
  | TrResponse string 'msg net_addr
  | TrClose

fun tr_step :: "'msg tr_client \<Rightarrow> 'msg tr_event \<Rightarrow> 'msg tr_client option" where
  "tr_step c (TrPerform we k raw to ign) = Some (snd (snd (PerformTransaction we k raw to ign c)))"
| "tr_step c (TrFire wok r) = fire_timer wok r c"
| "tr_step c (TrResponse k msg fr) = handle_response k msg fr c"
| "tr_step c TrClose = Client_Close c"

definition new_tr_client :: "int \<Rightarrow> duration \<Rightarrow> 'msg tr_client" where
  "new_tr_client t d = \<lparr>trs = [], trMap = [], clock = t, rto = d, sent = []\<rparr>"

lemmas perform_simps = PerformTransaction_def register_transaction_def send_request_def start_timer_def
lemmas response_simps = handle_response_def take_response_def write_response_def

section \<open>Interleaved goroutines\<close>

text \<open>
  The goroutines that use the table run concurrently and give the lock back in the middle of their work. A world is the
  client with the goroutines that stand between two atomic regions: \<open>GSend\<close> and \<open>GStart\<close> have registered a transaction and
  still have to send the request and to start the timer, \<open>GTimeout\<close> is a timer function before its call of
  \<open>onRtxTimeout\<close>, \<open>GWrite\<close> has taken a transaction out of the table for a response and still has to write the result.
  \<open>Run i\<close> lets goroutine \<open>i\<close> do its next region, its argument is whether a write to the socket works.
  \<open>onRtxTimeout\<close> and \<open>Close\<close> hold \<open>mutexTrMap\<close> to their end and are one region each. The model also lets
  them run while a sender in \<open>onRtxTimeout\<close> is blocked with the lock, which the code does not. The insertion in
  \<open>PerformTransaction\<close> does not take that lock; it has a random key of its own and commutes with the regions of other keys.
\<close>

datatype 'msg goroutine =
    GSend nat
  | GStart nat
  | GTimeout string nat
  | GWrite nat 'msg net_addr

record 'msg tr_world =
  cl :: "'msg tr_client"
  routines :: "'msg goroutine list"

datatype 'msg world_event =
    EvPerform string bytes net_addr bool
  | EvExpire nat
  | EvResponse string 'msg net_addr
  | EvWait nat
  | EvClose
  | EvRun nat bool

definition new_world :: "int \<Rightarrow> duration \<Rightarrow> 'msg tr_world" where
  "new_world t d = \<lparr>cl = new_tr_client t d, routines = []\<rparr>"

definition spawn :: "'msg goroutine \<Rightarrow> 'msg tr_world \<Rightarrow> 'msg tr_world" where
  "spawn g w = w\<lparr>routines := routines w @ [g]\<rparr>"

text \<open>The next region of a goroutine, and the goroutine that is left of it.\<close>

fun run_region :: "bool \<Rightarrow> 'msg goroutine \<Rightarrow> 'msg tr_client \<Rightarrow> ('msg goroutine list \<times> 'msg tr_client) option" where
  "run_region wok (GSend r) c = Some (if wok then ([GStart r], send_request r c) else ([], c))"
| "run_region wok (GStart r) c = Some ([], start_timer r c)"
| "run_region wok (GTimeout k n) c = map_option (Pair []) (onRtxTimeout wok k n c)"
| "run_region wok (GWrite r msg fr) c = map_option (Pair []) (write_response r msg fr c)"

fun world_step :: "'msg tr_world \<Rightarrow> 'msg world_event \<Rightarrow> 'msg tr_world option" where
  "world_step w (EvPerform k raw to ign) =
     (case register_transaction k raw to ign (cl w) of (r, c) \<Rightarrow> Some (spawn (GSend r) (w\<lparr>cl := c\<rparr>)))"
| "world_step w (EvExpire r) =
     (case expire_timer r (cl w) of
        (None, c) \<Rightarrow> Some (w\<lparr>cl := c\<rparr>)
      | (Some (k, n), c) \<Rightarrow> Some (spawn (GTimeout k n) (w\<lparr>cl := c\<rparr>)))"
| "world_step w (EvResponse k msg fr) =
     (case take_response k (cl w) of
        (None, c) \<Rightarrow> Some (w\<lparr>cl := c\<rparr>)
      | (Some r, c) \<Rightarrow> Some (spawn (GWrite r msg fr) (w\<lparr>cl := c\<rparr>)))"
| "world_step w (EvWait r) =
     (if r < length (trs (cl w)) then
        (case WaitForResult (trs (cl w) ! r) of
           None \<Rightarrow> Some w
         | Some (_, tr) \<Rightarrow> Some (w\<lparr>cl := upd_tr r tr (cl w)\<rparr>))
      else Some w)"
| "world_step w EvClose = map_option (\<lambda>c. w\<lparr>cl := c\<rparr>) (Client_Close (cl w))"
| "world_step w (EvRun i wok) =
     (if i < length (routines w) then
        (case run_region wok (routines w ! i) (cl w) of
           None \<Rightarrow> None
         | Some (gs, c) \<Rightarrow> Some (w\<lparr>cl := c, routines := take i (routines w) @ gs @ List.drop (Suc i) (routines w)\<rparr>))
      else Some w)"

text \<open>
  The invariant. A registered transaction exists, is filed under its own key, has no sender and is not closed. A
  transaction some goroutine is about to write to is no longer registered, has no other writer, no sender and is not closed.
\<close>

definition ch_clear :: "'msg Transaction \<Rightarrow> bool" where
  "ch_clear tr \<longleftrightarrow> resultCh tr = NilChan \<or> resultCh tr = OpenChan []"

definition ch_one :: "'msg Transaction \<Rightarrow> bool" where
  "ch_one tr \<longleftrightarrow> (case resultCh tr of OpenChan q \<Rightarrow> length q \<le> 1 | _ \<Rightarrow> True)"

fun write_targets :: "'msg goroutine list \<Rightarrow> nat list" where
  "write_targets [] = []"
| "write_targets (GWrite r msg fr # gs) = r # write_targets gs"
| "write_targets (g # gs) = write_targets gs"

definition tr_inv :: "nat list \<Rightarrow> 'msg tr_client \<Rightarrow> bool" where
  "tr_inv ws c \<longleftrightarrow> gomap_ok (trMap c) \<and> distinct ws \<and> (\<forall>tr \<in> set (trs c). ch_one tr)
     \<and> (\<forall>k r. map_of (trMap c) k = Some r \<longrightarrow> r < length (trs c) \<and> Key (trs c ! r) = k \<and> ch_clear (trs c ! r) \<and> r \<notin> set ws)
     \<and> (\<forall>r \<in> set ws. r < length (trs c) \<and> ch_clear (trs c ! r))"

definition world_inv :: "'msg tr_world \<Rightarrow> bool" where
  "world_inv w \<longleftrightarrow> tr_inv (write_targets (routines w)) (cl w)"

lemma write_targets_append [simp]: "write_targets (xs @ ys) = write_targets xs @ write_targets ys"
  by (induction xs rule: write_targets.induct) auto

lemma ch_clear_one: "ch_clear tr \<Longrightarrow> ch_one tr"
  by (auto simp: ch_clear_def ch_one_def)

lemma tr_invD:
  assumes "tr_inv ws c" and "map_of (trMap c) k = Some r"
  shows "r < length (trs c)" and "Key (trs c ! r) = k" and "ch_clear (trs c ! r)" and "r \<notin> set ws"
  using assms by (auto simp: tr_inv_def)

lemma tr_inv_perm: "tr_inv ws c \<Longrightarrow> set ws' = set ws \<Longrightarrow> (distinct ws \<Longrightarrow> distinct ws') \<Longrightarrow> tr_inv ws' c"
  by (simp add: tr_inv_def)

text \<open>Replacing an object keeps the invariant when it keeps its key, and its channel where that is relied on.\<close>

lemma tr_inv_upd:
  assumes "tr_inv ws c" and "Key tr = Key (trs c ! r)" and "ch_one tr"
    and "ch_clear tr \<or> map_of (trMap c) (Key tr) \<noteq> Some r \<and> r \<notin> set ws"
  shows "tr_inv ws (upd_tr r tr c)"
proof -
  have "Key tr = k \<and> ch_clear tr" if "map_of (trMap c) k = Some r" for k
    using tr_invD(2,4) [OF assms(1) that] assms(2,4) that by auto
  moreover have "\<forall>x \<in> set ((trs c)[r := tr]). ch_one x"
    using assms(1,3) set_update_subset_insert [of "trs c" r tr] by (auto simp: tr_inv_def)
  ultimately show ?thesis
    using assms(1,4) by (auto simp: tr_inv_def upd_tr_def nth_list_update_any)
qed

lemma tr_inv_keep:
  assumes "tr_inv ws c" and "Key tr = Key (trs c ! r)" and "resultCh tr = resultCh (trs c ! r)"
  shows "tr_inv ws (upd_tr r tr c)"
proof (cases "r < length (trs c)")
  case True
  then have "ch_one (trs c ! r)" using assms(1) by (simp add: tr_inv_def)
  with assms tr_invD(3) [OF assms(1), of "Key (trs c ! r)" r] show ?thesis
    by (intro tr_inv_upd) (auto simp: ch_one_def ch_clear_def tr_inv_def)
qed (use assms(1) in \<open>simp add: upd_tr_def list_update_beyond\<close>)

lemma tr_inv_unfile: "tr_inv ws c \<Longrightarrow> tr_inv ws (c\<lparr>trMap := AList.delete k (trMap c)\<rparr>)"
  by (simp add: tr_inv_def gomap_simps)

lemma tr_inv_frame [simp]:
  "tr_inv ws (c\<lparr>clock := t\<rparr>) = tr_inv ws c" "tr_inv ws (send_request r c) = tr_inv ws c"
  by (simp_all add: tr_inv_def send_request_def)

lemma tr_inv_start [intro]: "tr_inv ws c \<Longrightarrow> tr_inv ws (start_timer r c)"
  unfolding start_timer_def by (rule tr_inv_keep) (simp_all add: StartRtxTimer_def)

lemma tr_inv_register: "tr_inv ws c \<Longrightarrow> tr_inv ws (snd (register_transaction k raw to ign c))"
  by (auto simp: register_transaction_def tr_inv_def NewTransaction_def ch_clear_def ch_one_def Let_def
      gomap_simps nth_append less_SucI split: if_splits)

lemma tr_inv_expire: "tr_inv ws c \<Longrightarrow> tr_inv ws (snd (expire_timer r c))"
  by (auto simp: expire_timer_def Let_def rtx_expire_def intro!: tr_inv_keep split: option.splits)

text \<open>
  A transaction taken out of the table becomes the target of a write; writing ends that.
\<close>

lemma tr_inv_take:
  assumes "tr_inv ws c" and "map_of (trMap c) k = Some r"
  shows "tr_inv (r # ws) (c\<lparr>trMap := AList.delete k (trMap c)\<rparr>)"
proof -
  have "r' \<noteq> r" if "map_of (trMap c) k' = Some r'" "k' \<noteq> k" for k' r'
    using tr_invD(2) [OF assms(1) that(1)] tr_invD(2) [OF assms] that(2) by auto
  with assms tr_invD [OF assms] show ?thesis by (auto simp: tr_inv_def gomap_simps)
qed

lemma tr_inv_write:
  assumes "tr_inv (r # ws) c"
  shows "\<exists>b tr'. WriteResult res (trs c ! r) = Some (b, tr') \<and> tr_inv ws (upd_tr r tr' c)"
proof -
  have ch: "ch_clear (trs c ! r)" and n: "map_of (trMap c) k \<noteq> Some r" for k using assms by (auto simp: tr_inv_def)
  have inv: "tr_inv ws c" and r: "r \<notin> set ws" using assms by (auto simp: tr_inv_def)
  from ch obtain b tr' where w: "WriteResult res (trs c ! r) = Some (b, tr')" "Key tr' = Key (trs c ! r)" "ch_one tr'"
    by (cases "WriteResult res (trs c ! r)") (auto simp: ch_clear_def ch_one_def WriteResult_def)
  from tr_inv_upd [OF inv w(2,3)] n r w(1) show ?thesis by blast
qed

lemma tr_inv_fail:
  assumes "tr_inv ws c" and "map_of (trMap c) k = Some r"
  shows "\<exists>c'. fail_transaction k r e c = Some c' \<and> tr_inv ws c'"
  using tr_inv_write [OF tr_inv_take [OF assms], of "zero_result\<lparr>Err := Some e\<rparr>"] by (auto simp: fail_transaction_def)

lemma tr_inv_timeout:
  assumes "tr_inv ws c"
  shows "\<exists>c'. onRtxTimeout wok k n c = Some c' \<and> tr_inv ws c'"
  using assms tr_inv_fail [OF assms] tr_inv_start [of ws "send_request _ c"]
  by (cases "map_of (trMap c) k") (auto simp: onRtxTimeout_def)

lemma tr_inv_response:
  assumes "tr_inv ws c" and "take_response k c = (x, c')"
  shows "tr_inv (case x of None \<Rightarrow> ws | Some r \<Rightarrow> r # ws) c'"
proof (cases "map_of (trMap c) k")
  case None
  with assms show ?thesis by (simp add: take_response_def)
next
  case (Some r)
  with assms(2) have x: "x = Some r" "c' = upd_tr r (StopRtxTimer (trs c ! r)) (c\<lparr>trMap := AList.delete k (trMap c)\<rparr>)"
    by (auto simp: take_response_def)
  show ?thesis unfolding x option.case by (rule tr_inv_keep [OF tr_inv_take [OF assms(1) Some]]) (simp_all add: StopRtxTimer_def)
qed

lemma tr_inv_wait:
  assumes "tr_inv ws c" and "r < length (trs c)" and "WaitForResult (trs c ! r) = Some (x, tr)"
  shows "tr_inv ws (upd_tr r tr c)"
proof (cases "resultCh (trs c ! r)")
  case (OpenChan q)
  then have q: "q \<noteq> []" "tr = (trs c ! r)\<lparr>resultCh := OpenChan (tl q)\<rparr>"
    using assms(3) by (auto simp: WaitForResult_def split: list.splits)
  have "ch_one (trs c ! r)" using assms(1,2) by (simp add: tr_inv_def)
  with OpenChan q have "ch_clear tr" by (cases q) (auto simp: ch_one_def ch_clear_def)
  with q(2) show ?thesis by (intro tr_inv_upd [OF assms(1)]) (auto simp: ch_clear_one)
qed (use assms in \<open>auto simp: WaitForResult_def intro!: tr_inv_keep\<close>)

lemma close_and_delete_ok:
  assumes "distinct (map fst krs)"
    and "\<forall>(k, r) \<in> set krs. Key (trs m ! r) = k \<and> r < length (trs m) \<and> ch_clear (trs m ! r)"
  shows "\<exists>m'. close_and_delete krs m = Some m' \<and> length (trs m') = length (trs m)
    \<and> (\<forall>r. r \<notin> snd ` set krs \<longrightarrow> trs m' ! r = trs m ! r) \<and> (\<forall>r \<in> snd ` set krs. ch_one (trs m' ! r))
    \<and> (\<forall>k. map_of (trMap m') k = (if k \<in> fst ` set krs then None else map_of (trMap m) k))"
  using assms
proof (induction krs arbitrary: m)
  case Nil
  then show ?case by simp
next
  case (Cons kr krs)
  obtain k r where kr: "kr = (k, r)" by fastforce
  with Cons.prems have r: "Key (trs m ! r) = k" "r < length (trs m)" "ch_clear (trs m ! r)" by auto
  then obtain tr where tr: "Transaction_Close (trs m ! r) = Some tr" "ch_one tr"
    by (auto simp: Transaction_Close_def ch_clear_def ch_one_def)
  let ?m = "tm_Delete (m\<lparr>trs := (trs m)[r := tr]\<rparr>) k"
  have ne: "r' \<noteq> r" if "(k', r') \<in> set krs" for k' r'
    using that Cons.prems r(1) by (auto simp: kr rev_image_eqI)
  then have "\<forall>(k, r) \<in> set krs. Key (trs ?m ! r) = k \<and> r < length (trs ?m) \<and> ch_clear (trs ?m ! r)"
    using Cons.prems(2) by (fastforce simp: tm_Delete_def)
  moreover have "distinct (map fst krs)" using Cons.prems(1) by simp
  ultimately obtain m' where "close_and_delete krs ?m = Some m'" "length (trs m') = length (trs ?m)"
    "\<forall>r. r \<notin> snd ` set krs \<longrightarrow> trs m' ! r = trs ?m ! r" "\<forall>r \<in> snd ` set krs. ch_one (trs m' ! r)"
    "\<forall>k'. map_of (trMap m') k' = (if k' \<in> fst ` set krs then None else map_of (trMap ?m) k')"
    using Cons.IH by blast
  moreover have "r \<notin> snd ` set krs" using ne by fastforce
  ultimately show ?case using tr r(2)
    by (intro exI [of _ m']) (auto simp: kr tm_Delete_def gomap_simps)
qed

lemma tr_inv_Close:
  assumes "tr_inv ws c"
  shows "\<exists>c'. Client_Close c = Some c' \<and> tr_inv ws c' \<and> trMap c' = []"
proof -
  let ?m = "\<lparr>trs = trs c, trMap = trMap c\<rparr>"
  have reg: "\<forall>(k, r) \<in> set (trMap c). Key (trs c ! r) = k \<and> r < length (trs c) \<and> ch_clear (trs c ! r) \<and> r \<notin> set ws"
    using assms by (auto simp: tr_inv_def gomap_find_iff)
  then have "\<forall>(k, r) \<in> set (trMap c). Key (trs ?m ! r) = k \<and> r < length (trs ?m) \<and> ch_clear (trs ?m ! r)" by auto
  moreover have "distinct (map fst (trMap c))" using assms by (simp add: tr_inv_def gomap_ok_def)
  ultimately obtain m' where m': "close_and_delete (trMap c) ?m = Some m'" "length (trs m') = length (trs c)"
    "\<forall>r. r \<notin> snd ` set (trMap c) \<longrightarrow> trs m' ! r = trs c ! r" "\<forall>r \<in> snd ` set (trMap c). ch_one (trs m' ! r)"
    "\<forall>k. map_of (trMap m') k = (if k \<in> fst ` set (trMap c) then None else map_of (trMap c) k)"
    using close_and_delete_ok [of "trMap c" ?m] by auto
  have "map_of (trMap m') k = None" for k
    using m'(5) by (cases "map_of (trMap c) k") (auto simp: map_of_eq_None_iff dest!: map_of_SomeD intro: rev_image_eqI)
  then have "map_of (trMap m') = Map.empty" by (rule ext)
  then have e: "trMap m' = []" by simp
  have "ch_one (trs m' ! r)" if "r < length (trs c)" for r
    using m'(3,4) assms that by (cases "r \<in> snd ` set (trMap c)") (auto simp: tr_inv_def)
  then have "\<forall>tr \<in> set (trs m'). ch_one tr" using m'(2) by (auto simp: in_set_conv_nth)
  moreover have "r \<notin> snd ` set (trMap c)" if "r \<in> set ws" for r using that reg by auto
  ultimately have "tr_inv ws (c\<lparr>trs := trs m', trMap := trMap m'\<rparr>)"
    using assms m'(2,3) e by (simp add: tr_inv_def)
  with m'(1) e show ?thesis by (simp add: Client_Close_def CloseAndDeleteAll_def)
qed

lemma world_inv_run:
  assumes "world_inv w" and "i < length (routines w)"
  shows "\<exists>w'. world_step w (EvRun i wok) = Some w' \<and> world_inv w'"
proof -
  let ?g = "routines w ! i" and ?gs = "take i (routines w) @ List.drop (Suc i) (routines w)"
  have "routines w = take i (routines w) @ [?g] @ List.drop (Suc i) (routines w)" using id_take_nth_drop [OF assms(2)] by simp
  then have ws: "write_targets (routines w) = write_targets (take i (routines w)) @ write_targets [?g] @ write_targets (List.drop (Suc i) (routines w))"
    by (metis write_targets_append)
  have inv: "tr_inv (write_targets [?g] @ write_targets ?gs) (cl w)"
    by (rule tr_inv_perm [OF assms(1) [unfolded world_inv_def ws]]) auto
  have "\<exists>gs c. run_region wok ?g (cl w) = Some (gs, c) \<and> write_targets gs = [] \<and> tr_inv (write_targets ?gs) c"
  proof (cases ?g)
    case (GTimeout k n)
    with inv tr_inv_timeout [of "write_targets ?gs" "cl w" wok k n] show ?thesis by auto
  next
    case (GWrite r msg fr)
    with inv have "tr_inv (r # write_targets ?gs) (cl w)" by simp
    from tr_inv_write [OF this, of "\<lparr>Msg = Some msg, From = Some fr, tr_Retries = Retries (trs (cl w) ! r), Err = None\<rparr>"]
    show ?thesis by (auto simp: GWrite write_response_def Let_def)
  qed (use inv in auto)
  with assms(2) show ?thesis by (auto simp: world_inv_def)
qed

interpretation trc: unfailing_system world_step world_inv
proof
  fix w :: "'a tr_world" and e :: "'a world_event"
  assume inv: "world_inv w"
  note i = inv [unfolded world_inv_def]
  show "\<exists>w'. world_step w e = Some w' \<and> world_inv w'"
  proof (cases e)
    case (EvPerform k raw to ign)
    with tr_inv_register [OF i, of k raw to ign] show ?thesis by (auto simp: world_inv_def spawn_def split: prod.split)
  next
    case (EvExpire r)
    with tr_inv_expire [OF i, of r] show ?thesis
      by (cases "expire_timer r (cl w)") (auto simp: world_inv_def spawn_def split: option.split)
  next
    case (EvResponse k msg fr)
    obtain x c where x: "take_response k (cl w) = (x, c)" by fastforce
    from tr_inv_response [OF i x] show ?thesis
      by (cases x) (auto simp: EvResponse x world_inv_def spawn_def elim!: tr_inv_perm)
  next
    case (EvWait r)
    with inv i tr_inv_wait [OF i] show ?thesis by (auto simp: world_inv_def split: option.split)
  next
    case EvClose
    with tr_inv_Close [OF i] show ?thesis by (auto simp: world_inv_def)
  next
    case (EvRun j wok)
    with inv world_inv_run [OF inv] show ?thesis by (cases "j < length (routines w)") auto
  qed
qed

lemma world_inv_new: "world_inv (new_world t d)"
  by (simp add: world_inv_def new_world_def tr_inv_def new_tr_client_def)

text \<open>
  C36. In no interleaving of goroutines that start transactions, of timer functions, of response handlers - which look a
  transaction up under the lock and write its result after they have given the lock back - of waiting callers and of
  closing the client, does anybody send on a closed result channel, close a closed one, or close one on which a sender is
  blocked: every history runs to its end. No transaction ever has two results waiting, and closing the
  client leaves no transaction registered.
\<close>

theorem transactions_never_panic:
  "\<exists>w w'. run_opt world_step (new_world t d) es = Some w
     \<and> (\<forall>r. r < length (trs (cl w)) \<longrightarrow> (\<forall>q. resultCh (trs (cl w) ! r) = OpenChan q \<longrightarrow> length q \<le> 1))
     \<and> run_opt world_step (new_world t d) (es @ [EvClose]) = Some w' \<and> trMap (cl w') = []"
proof -
  obtain w where w: "run_opt world_step (new_world t d) es = Some w" "world_inv w"
    using trc.run_ok [OF world_inv_new] by blast
  note i = w(2) [unfolded world_inv_def]
  have "length q \<le> 1" if "r < length (trs (cl w))" "resultCh (trs (cl w) ! r) = OpenChan q" for r q
  proof -
    have "ch_one (trs (cl w) ! r)" using i that(1) by (simp add: tr_inv_def)
    with that(2) show ?thesis by (simp add: ch_one_def)
  qed
  with w tr_inv_Close [OF i] show ?thesis by (auto simp: run_opt_append)
qed

text \<open>
  A history in which the client is closed between the lookup of a response and the write of its result.
\<close>

theorem transactions_never_panic_witness:
  "\<exists>w. run_opt world_step (new_world 0 defaultRTO)
         [EvPerform ''k'' [1] (OtherAddr ''srv'') False, EvRun 0 True, EvResponse ''k'' () (OtherAddr ''srv''), EvClose, EvRun 1 True] = Some w
     \<and> resultCh (trs (cl w) ! 0) = OpenChan [\<lparr>Msg = Some (), From = Some (OtherAddr ''srv''), tr_Retries = 0, Err = None\<rparr>]
     \<and> length (trs (cl w)) = 1"
proof -
  let ?es = "[EvPerform ''k'' [1] (OtherAddr ''srv'') False, EvRun 0 True, EvResponse ''k'' () (OtherAddr ''srv''), EvClose, EvRun 1 True]"
  from transactions_never_panic [of 0 defaultRTO ?es] obtain w where w: "run_opt world_step (new_world 0 defaultRTO) ?es = Some w" by blast
  then show ?thesis
    by (auto simp: new_world_def new_tr_client_def spawn_def register_transaction_def NewTransaction_def send_request_def
        response_simps upd_tr_def StopRtxTimer_def Client_Close_def CloseAndDeleteAll_def WriteResult_def Retries_def Let_def)
qed

section \<open>The retransmission schedule\<close>

text \<open>The wait before the \<open>i\<close>-th retransmission and the time of the \<open>k\<close>-th expiry.\<close>

definition rtx_wait :: "duration \<Rightarrow> nat \<Rightarrow> duration" where
  "rtx_wait d i = min (d * 2 ^ i) maxRtxInterval"

definition rtx_time :: "duration \<Rightarrow> nat \<Rightarrow> duration" where
  "rtx_time d k = (\<Sum>i<k. rtx_wait d i)"

lemma rtx_wait_Suc:
  "0 < d \<Longrightarrow> (let i = rtx_wait d k * 2 in if i > maxRtxInterval then maxRtxInterval else i) = rtx_wait d (Suc k)"
  by (auto simp: rtx_wait_def Let_def min_def maxRtxInterval_def mult.commute)

text \<open>The state of a transaction after \<open>k\<close> expiries without an answer.\<close>

definition waiting :: "int \<Rightarrow> string \<Rightarrow> bytes \<Rightarrow> net_addr \<Rightarrow> nat \<Rightarrow> (bytes \<times> net_addr) list \<Rightarrow> nat \<Rightarrow> 'msg tr_client \<Rightarrow> bool" where
  "waiting t0 k raw to r s0 n c \<longleftrightarrow>
     r < length (trs c) \<and> map_of (trMap c) k = Some r \<and> clock c = t0 + rtx_time (rto c) n
     \<and> Key (trs c ! r) = k \<and> tr_Raw (trs c ! r) = raw \<and> To (trs c ! r) = to
     \<and> nRtx (trs c ! r) = n \<and> interval (trs c ! r) = rtx_wait (rto c) n
     \<and> rtx_timer (trs c ! r) = Some (clock c + rtx_wait (rto c) n)
     \<and> resultCh (trs c ! r) = OpenChan [] \<and> sent c = s0 @ replicate (Suc n) (raw, to)"

lemma waiting_start:
  assumes "PerformTransaction None k raw to False c = (e, r, c')" and "0 < rto c" "rto c \<le> maxRtxInterval"
  shows "e = None \<and> waiting (clock c) k raw to r (sent c) 0 c' \<and> rto c' = rto c"
  using assms
  by (auto simp: perform_simps waiting_def NewTransaction_def StartRtxTimer_def upd_tr_def Let_def
      gomap_simps rtx_time_def rtx_wait_def)

lemma rtx_wait_pos: "0 < d \<Longrightarrow> 0 \<le> rtx_wait d n"
  by (simp add: rtx_wait_def maxRtxInterval_def)

lemma waiting_fire:
  assumes "waiting t0 k raw to r s0 n c" and "0 < rto c" and "Suc n < maxRtxCount"
  shows "\<exists>c'. fire_timer True r c = Some c' \<and> waiting t0 k raw to r s0 (Suc n) c' \<and> rto c' = rto c"
proof -
  note w = assms(1) [unfolded waiting_def]
  let ?t = "clock c + rtx_wait (rto c) n"
  let ?tr = "(trs c ! r)\<lparr>nRtx := Suc n, interval := rtx_wait (rto c) (Suc n), rtx_timer := None\<rparr>"
  let ?c = "c\<lparr>clock := ?t, sent := sent c @ [(raw, to)],
     trs := (trs c)[r := ?tr\<lparr>rtx_timer := Some (?t + rtx_wait (rto c) (Suc n))\<rparr>]\<rparr>"
  have e: "rtx_expire (trs c ! r) = ?tr"
    using w rtx_wait_Suc [OF assms(2), of n] by (simp add: rtx_expire_def Let_def)
  have m: "max x (x + rtx_wait (rto c) n) = x + rtx_wait (rto c) n" for x using rtx_wait_pos [OF assms(2), of n] by simp
  have "onRtxTimeout True k (Suc n) (upd_tr r ?tr (c\<lparr>clock := ?t\<rparr>)) = Some ?c"
    using w assms(3) by (simp add: onRtxTimeout_def start_timer_def send_request_def StartRtxTimer_def upd_tr_def)
  then have "fire_timer True r c = Some ?c"
    using w by (simp add: fire_timer_def expire_timer_def Let_def e m)
  moreover have "waiting t0 k raw to r s0 (Suc n) ?c"
    using w by (simp add: waiting_def rtx_time_def replicate_append_same)
  ultimately show ?thesis by simp
qed

lemma waiting_last:
  assumes "waiting t0 k raw to r s0 n c" and "0 < rto c" and "Suc n = maxRtxCount"
  shows "\<exists>c'. fire_timer w r c = Some c' \<and> map_of (trMap c') k = None
     \<and> clock c' = t0 + rtx_time (rto c) maxRtxCount \<and> sent c' = s0 @ replicate maxRtxCount (raw, to)
     \<and> resultCh (trs c' ! r) = OpenChan [zero_result\<lparr>Err := Some (errAllRetransmissionsFailed k)\<rparr>]
     \<and> rtx_timer (trs c' ! r) = None"
proof -
  note w = assms(1) [unfolded waiting_def]
  let ?t = "clock c + rtx_wait (rto c) n"
  let ?tr = "rtx_expire (trs c ! r)"
  let ?c = "c\<lparr>clock := ?t, trMap := AList.delete k (trMap c),
     trs := (trs c)[r := ?tr\<lparr>resultCh := OpenChan [zero_result\<lparr>Err := Some (errAllRetransmissionsFailed k)\<rparr>]\<rparr>]\<rparr>"
  have e: "Key ?tr = k" "nRtx ?tr = maxRtxCount" "resultCh ?tr = OpenChan []" "rtx_timer ?tr = None"
    using w assms(3) by (simp_all add: rtx_expire_def Let_def)
  have m: "max x (x + rtx_wait (rto c) n) = x + rtx_wait (rto c) n" for x using rtx_wait_pos [OF assms(2), of n] by simp
  have "onRtxTimeout w k maxRtxCount (upd_tr r ?tr (c\<lparr>clock := ?t\<rparr>)) = Some ?c"
    using w e by (simp add: onRtxTimeout_def fail_transaction_def WriteResult_def upd_tr_def)
  then have "fire_timer w r c = Some ?c"
    using w by (simp add: fire_timer_def expire_timer_def Let_def e m)
  moreover have "clock ?c = t0 + rtx_time (rto c) maxRtxCount"
    using w by (simp add: rtx_time_def flip: assms(3))
  moreover have "sent ?c = s0 @ replicate maxRtxCount (raw, to)"
    using w by (simp flip: assms(3))
  ultimately show ?thesis
    using w e by (simp add: gomap_simps)
qed

lemma waiting_many:
  assumes "waiting t0 k raw to r s0 0 c" and "0 < rto c"
  shows "n < maxRtxCount \<Longrightarrow> \<exists>c'. run_opt tr_step c (replicate n (TrFire True r)) = Some c'
     \<and> waiting t0 k raw to r s0 n c' \<and> rto c' = rto c"
proof (induction n)
  case 0
  with assms show ?case by simp
next
  case (Suc n)
  then obtain c' where "run_opt tr_step c (replicate n (TrFire True r)) = Some c'"
    and w: "waiting t0 k raw to r s0 n c'" and r: "rto c' = rto c" by auto
  moreover from waiting_fire [OF w] assms(2) r Suc.prems obtain c'' where
    "fire_timer True r c' = Some c''" "waiting t0 k raw to r s0 (Suc n) c''" "rto c'' = rto c" by auto
  ultimately show ?case
    by (simp add: run_opt_append flip: replicate_append_same)
qed

text \<open>
  C35. A transaction whose answers never come ends: with a retransmission timeout of at most
  1.6 seconds, seven timer expiries after it was started the request has been sent exactly
  seven times, at the waits of the doubling schedule capped at 1.6 seconds, the transaction is no longer
  registered, and its waiter receives the error that all retransmissions failed.
\<close>

theorem unanswered_transaction_fails:
  assumes "PerformTransaction None k raw to False c = (e, r, c1)" and "0 < rto c" and "rto c \<le> maxRtxInterval"
  shows "\<exists>c'. run_opt tr_step c1 (replicate 7 (TrFire True r)) = Some c'
     \<and> sent c' = sent c @ replicate 7 (raw, to) \<and> map_of (trMap c') k = None
     \<and> clock c' = clock c + (\<Sum>i<7. min (rto c * 2 ^ i) (1600 * millisecond))
     \<and> (\<exists>tr. WaitForResult (trs c' ! r) =
           Some (zero_result\<lparr>Err := Some (errAllRetransmissionsFailed k)\<rparr>, tr))"
proof -
  from waiting_start [OF assms] have w0: "waiting (clock c) k raw to r (sent c) 0 c1" and r1: "rto c1 = rto c"
    by auto
  from waiting_many [OF w0, of 6] assms(2) r1 obtain c6 where
    c6: "run_opt tr_step c1 (replicate 6 (TrFire True r)) = Some c6"
      "waiting (clock c) k raw to r (sent c) 6 c6" "rto c6 = rto c"
    by (auto simp: maxRtxCount_def)
  from waiting_last [OF c6(2), of True] assms(2) c6(3) obtain c7 where
    c7: "fire_timer True r c6 = Some c7" "map_of (trMap c7) k = None"
      "clock c7 = clock c + rtx_time (rto c) 7" "sent c7 = sent c @ replicate 7 (raw, to)"
      "resultCh (trs c7 ! r) = OpenChan [zero_result\<lparr>Err := Some (errAllRetransmissionsFailed k)\<rparr>]"
    by (auto simp: maxRtxCount_def)
  have seven: "replicate 7 x = replicate 6 x @ [x]" for x :: "'a tr_event"
    by (simp add: eval_nat_numeral)
  have "run_opt tr_step c1 (replicate 7 (TrFire True r)) = Some c7"
    unfolding seven run_opt_append c6(1) by (simp add: c7(1))
  with c7 show ?thesis
    by (auto simp: WaitForResult_def rtx_time_def rtx_wait_def maxRtxInterval_def)
qed

text \<open>With the default timeout the last expiry comes after 7.8 seconds.\<close>

theorem unanswered_transaction_fails_witness:
  "\<exists>c'. run_opt tr_step (snd (snd (PerformTransaction None ''k'' [1] (OtherAddr ''srv'') False
            (new_tr_client 0 defaultRTO :: unit tr_client)))) (replicate 7 (TrFire True 0)) = Some c'
      \<and> clock c' = 7800 * millisecond \<and> length (sent c') = 7"
proof -
  let ?c = "new_tr_client 0 defaultRTO :: unit tr_client"
  let ?p = "PerformTransaction None ''k'' [1] (OtherAddr ''srv'') False ?c"
  have r: "fst (snd ?p) = 0"
    by (simp add: perform_simps new_tr_client_def Let_def)
  have p: "?p = (fst ?p, 0, snd (snd ?p))" using r by (metis prod.collapse)
  have sum: "(\<Sum>i<7. min (200000000 * 2 ^ i) (1600000000 :: int)) = 7800000000"
    by (simp add: eval_nat_numeral)
  show ?thesis
    using unanswered_transaction_fails [OF p]
    by (auto simp: new_tr_client_def defaultRTO_def maxRtxInterval_def sum)
qed

text \<open>
  A response is delivered exactly once: it stops the timer, unregisters the transaction and
  hands the message with the number of retransmissions to the waiter; a second response
  for the same key, or one for an unknown key, changes nothing.
\<close>

theorem response_delivered_once:
  assumes "r < length (trs c)" and "map_of (trMap c) k = Some r" and "resultCh (trs c ! r) = OpenChan []"
  shows "\<exists>c'. handle_response k msg fr c = Some c' \<and> map_of (trMap c') k = None
     \<and> rtx_timer (trs c' ! r) = None
     \<and> WaitForResult (trs c' ! r) =
         Some (\<lparr>Msg = Some msg, From = Some fr, tr_Retries = nRtx (trs c ! r), Err = None\<rparr>,
               (trs c' ! r)\<lparr>resultCh := OpenChan []\<rparr>)
     \<and> handle_response k msg' fr' c' = Some c' \<and> fire_timer wok r c' = Some c'"
proof -
  note r = assms(1)
  let ?res = "\<lparr>Msg = Some msg, From = Some fr, tr_Retries = nRtx (trs c ! r), Err = None\<rparr>"
  let ?tr = "(trs c ! r)\<lparr>rtx_timer := None, resultCh := OpenChan [?res]\<rparr>"
  let ?c' = "c\<lparr>trMap := AList.delete k (trMap c), trs := (trs c)[r := ?tr]\<rparr>"
  have "handle_response k msg fr c = Some ?c'"
    using assms(2,3) r
    by (simp add: response_simps WriteResult_def StopRtxTimer_def Retries_def upd_tr_def Let_def)
  moreover have "handle_response k msg' fr' ?c' = Some ?c'"
    by (simp add: response_simps gomap_simps)
  moreover have "fire_timer wok r ?c' = Some ?c'" using r by (simp add: fire_timer_def expire_timer_def)
  ultimately show ?thesis
    using r by (intro exI [of _ ?c']) (simp add: gomap_simps WaitForResult_def)
qed

theorem response_delivered_once_witness:
  "\<exists>c'. handle_response ''k'' () (OtherAddr ''srv'')
      (snd (snd (PerformTransaction None ''k'' [1] (OtherAddr ''srv'') False (new_tr_client 0 defaultRTO)))) = Some c'
      \<and> map_of (trMap c') ''k'' = None \<and> rtx_timer (trs c' ! 0) = None"
proof -
  let ?c = "snd (snd (PerformTransaction None ''k'' [1] (OtherAddr ''srv'') False
              (new_tr_client 0 defaultRTO :: unit tr_client)))"
  have l: "0 < length (trs ?c)" and m: "map_of (trMap ?c) ''k'' = Some 0" and o: "resultCh (trs ?c ! 0) = OpenChan []"
    by (simp_all add: perform_simps new_tr_client_def NewTransaction_def StartRtxTimer_def upd_tr_def Let_def)
  from response_delivered_once [OF l m o, of "()" "OtherAddr ''srv''"] show ?thesis by blast
qed

end
