(* ===== verification/TurnUDPConn.thy ===== *)
theory TurnUDPConn
  imports TurnBinding TurnTransaction
begin

text \<open>
  The relayed connection of the TURN client: \<open>internal/client/allocation.go\<close> and
  \<open>udp_conn.go\<close>. What the transactions of the client return is a list of outcomes in the
  state, consumed in order; what is sent is logged; the goroutines that bind channels are
  entries of a list of pending binds that finish as steps of their own. Shown: how a stale nonce is
  recovered, through which path written data leaves and which number it carries, that received
  packets are queued in order up to the queue's bound, and that closing happens once.
\<close>

section \<open>Allocations of the client (allocation.go)\<close>

definition maxReadQueueSize :: nat where "maxReadQueueSize = 1024"
definition permRefreshInterval :: duration where "permRefreshInterval = 120 * second"
definition maxRetryAttempts :: nat where "maxRetryAttempts = 3"
definition timerIDRefreshAlloc :: int where "timerIDRefreshAlloc = 0"
definition timerIDRefreshPerms :: int where "timerIDRefreshPerms = 1"

datatype conn_error =
    errTryAgain
  | errClosed
  | errUDPAddrCast
  | errAlreadyClosed
  | errFailedToBuildRefreshRequest string
  | errFailedToRefreshAllocation string
  | errFailedToGetLifetime string
  | errResponse stun_method stun_class "nat option"
  | errBuild string
  | errTransaction string
  | errSocket string
  | errTimeout
  | errShortBuffer

text \<open>
  A response: its type, and what reading the error code, the nonce, the realm, the lifetime, the
  relayed address and the connection identifier from it gives.
\<close>

record reply =
  rep_Method :: stun_method
  rep_Class :: stun_class
  rep_ErrorCode :: "nat option"
  rep_Nonce :: "string option"
  rep_Realm :: "string option"
  rep_Lifetime :: "string + duration"
  rep_Relayed :: "string + RelayedAddress"
  rep_ConnectionID :: "string + ConnectionID"

datatype tr_outcome = TrFailed string | TrReply reply

datatype conn_out =
    OutAllocate Protocol "string option"
  | OutRefresh duration string
  | OutCreatePermission "PeerAddress list" string
  | OutChannelBind PeerAddress ChannelNumber string
  | OutConnect PeerAddress string
  | OutSendIndication PeerAddress bytes
  | OutRaw bytes

record allocation =
  relayedAddr :: net_addr
  serverAddr :: net_addr
  al_permMap :: permissionMap
  al_nonce :: string
  al_lifetime :: duration
  refreshAllocTimer :: PeriodicTimer
  refreshPermsTimer :: PeriodicTimer
  outcomes :: "tr_outcome list"
  out :: "conn_out list"
  build_err :: "string option"
  write_err :: "string option"

abbreviation log_out :: "conn_out \<Rightarrow> 'z allocation_scheme \<Rightarrow> 'z allocation_scheme" where
  "log_out x a \<equiv> a\<lparr>out := out a @ [x]\<rparr>"

text \<open>\<open>client.PerformTransaction\<close> with the result awaited: the next outcome.\<close>

definition await :: "conn_out \<Rightarrow> 'z allocation_scheme \<Rightarrow> tr_outcome \<times> 'z allocation_scheme" where
  "await x a =
     (case outcomes a of
        [] \<Rightarrow> (TrFailed ''transaction closed'', log_out x a)
      | o1 # os \<Rightarrow> (o1, log_out x (a\<lparr>outcomes := os\<rparr>)))"

definition setNonceFromMsg :: "reply \<Rightarrow> 'z allocation_scheme \<Rightarrow> 'z allocation_scheme" where
  "setNonceFromMsg msg a = (case rep_Nonce msg of Some n \<Rightarrow> a\<lparr>al_nonce := n\<rparr> | None \<Rightarrow> a)"

text \<open>
  In the branch for an error response whose code is not 438 the code returns the variable that holds
  the result of reading the code, which is nil.
\<close>

definition refreshAllocation ::
    "duration \<Rightarrow> bool \<Rightarrow> 'z allocation_scheme \<Rightarrow> conn_error option \<times> 'z allocation_scheme" where
  "refreshAllocation lifetime dontWait a =
     (case build_err a of
        Some e \<Rightarrow> (Some (errFailedToBuildRefreshRequest e), a)
      | None \<Rightarrow>
          (if dontWait then
             (case write_err a of
                Some e \<Rightarrow> (Some (errFailedToRefreshAllocation e), a)
              | None \<Rightarrow> (None, log_out (OutRefresh lifetime (al_nonce a)) a))
           else
             (case await (OutRefresh lifetime (al_nonce a)) a of
                (TrFailed e, a1) \<Rightarrow> (Some (errFailedToRefreshAllocation e), a1)
              | (TrReply res, a1) \<Rightarrow>
                  (if rep_Class res = ClassErrorResponse then
                     (case rep_ErrorCode res of
                        Some code \<Rightarrow>
                          (if code = 438 then (Some errTryAgain, setNonceFromMsg res a1)
                           else (None, a1))
                      | None \<Rightarrow> (Some (errResponse (rep_Method res) (rep_Class res) None), a1))
                   else
                     (case rep_Lifetime res of
                        Inl e \<Rightarrow> (Some (errFailedToGetLifetime e), a1)
                      | Inr d \<Rightarrow> (None, a1\<lparr>al_lifetime := d\<rparr>))))))"

fun addr2PeerAddress :: "net_addr \<Rightarrow> PeerAddress" where
  "addr2PeerAddress (UDPAddr x p z) = \<lparr>pa_IP = x, pa_Port = p\<rparr>"
| "addr2PeerAddress (TCPAddr x p z) = \<lparr>pa_IP = x, pa_Port = p\<rparr>"
| "addr2PeerAddress (OtherAddr s) = \<lparr>pa_IP = [], pa_Port = 0\<rparr>"

definition CreatePermissions ::
    "net_addr list \<Rightarrow> 'z allocation_scheme \<Rightarrow> conn_error option \<times> 'z allocation_scheme" where
  "CreatePermissions addrs a =
     (case build_err a of
        Some e \<Rightarrow> (Some (errBuild e), a)
      | None \<Rightarrow>
          (case await (OutCreatePermission (map addr2PeerAddress addrs) (al_nonce a)) a of
             (TrFailed e, a1) \<Rightarrow> (Some (errTransaction e), a1)
           | (TrReply res, a1) \<Rightarrow>
               (if rep_Class res = ClassErrorResponse then
                  (case rep_ErrorCode res of
                     Some code \<Rightarrow>
                       (if code = 438 then (Some errTryAgain, setNonceFromMsg res a1)
                        else (Some (errResponse (rep_Method res) (rep_Class res) (Some code)), a1))
                   | None \<Rightarrow> (Some (errResponse (rep_Method res) (rep_Class res) None), a1))
                else (None, a1))))"

text \<open>A permission in the map without an address cannot occur (\<open>pm_inv\<close>); it would be skipped.\<close>

definition refreshPermissions :: "'z allocation_scheme \<Rightarrow> conn_error option \<times> 'z allocation_scheme" where
  "refreshPermissions a =
     (let addrs = map the (perm_addrs (al_permMap a))
      in if addrs = [] then (None, a) else CreatePermissions addrs a)"

text \<open>The loops that try again after a stale nonce, at most \<open>maxRetryAttempts\<close> times.\<close>

fun retries :: "nat \<Rightarrow> ('s \<Rightarrow> conn_error option \<times> 's) \<Rightarrow> conn_error option \<Rightarrow> 's \<Rightarrow> conn_error option \<times> 's" where
  "retries 0 f err s = (err, s)"
| "retries (Suc k) f err s =
     (case f s of (e, s') \<Rightarrow> (if e = Some errTryAgain then retries k f e s' else (e, s')))"

definition onRefreshTimers :: "int \<Rightarrow> 'z allocation_scheme \<Rightarrow> 'z allocation_scheme" where
  "onRefreshTimers timer a =
     (if timer = timerIDRefreshAlloc
      then snd (retries maxRetryAttempts (refreshAllocation (al_lifetime a) False) None a)
      else if timer = timerIDRefreshPerms
      then snd (retries maxRetryAttempts refreshPermissions None a)
      else a)"

text \<open>\<open>createPermission\<close>; \<open>p\<close> is the permission object.\<close>

definition createPermission ::
    "nat \<Rightarrow> net_addr \<Rightarrow> 'z allocation_scheme \<Rightarrow> conn_error option \<times> 'z allocation_scheme" where
  "createPermission p dst a =
     (if perm_state (al_permMap a) p = permStateIdle then
        (case CreatePermissions [dst] a of
           (Some e, a1) \<Rightarrow> (Some e, a1\<lparr>al_permMap := perm_delete (al_permMap a1) dst\<rparr>)
         | (None, a1) \<Rightarrow> (None, a1\<lparr>al_permMap := perm_setState p permStatePermitted (al_permMap a1)\<rparr>))
      else (None, a))"

text \<open>What \<open>UDPConn.WriteTo\<close> and \<open>TCPAllocation.DialTCPWithConn\<close> do first.\<close>

definition ensurePermission :: "net_addr \<Rightarrow> 'z allocation_scheme \<Rightarrow> conn_error option \<times> 'z allocation_scheme" where
  "ensurePermission dst a =
     (case perm_find (al_permMap a) dst of
        Some p \<Rightarrow> retries maxRetryAttempts (createPermission p dst) None a
      | None \<Rightarrow>
          (case new_permission (al_permMap a) of
             (p, pm) \<Rightarrow> retries maxRetryAttempts (createPermission p dst) None
                          (a\<lparr>al_permMap := perm_insert pm dst p\<rparr>)))"

section \<open>The UDP connection (udp\_conn.go)\<close>

record UDPConn = allocation +
  bindingMgr :: bindingManager
  readCh :: "(bytes \<times> net_addr) list"
  closeCh :: bool
  c_now :: int
  deadline :: "int option"
  binds :: "(nat \<times> bool) list"

record AllocationConfig =
  ac_RelayedAddr :: net_addr
  ac_ServerAddr :: net_addr
  ac_Nonce :: string
  ac_Lifetime :: duration

definition new_allocation :: "AllocationConfig \<Rightarrow> tr_outcome list \<Rightarrow> string option \<Rightarrow> string option \<Rightarrow> allocation" where
  "new_allocation config os be we =
     \<lparr>relayedAddr = ac_RelayedAddr config, serverAddr = ac_ServerAddr config, al_permMap = newPermissionMap,
      al_nonce = ac_Nonce config, al_lifetime = ac_Lifetime config,
      refreshAllocTimer = snd (PeriodicTimer_Start (NewPeriodicTimer timerIDRefreshAlloc (ac_Lifetime config div 2))),
      refreshPermsTimer = snd (PeriodicTimer_Start (NewPeriodicTimer timerIDRefreshPerms permRefreshInterval)),
      outcomes = os, out = [], build_err = be, write_err = we\<rparr>"

definition NewUDPConn :: "AllocationConfig \<Rightarrow> tr_outcome list \<Rightarrow> string option \<Rightarrow> string option \<Rightarrow> int \<Rightarrow> UDPConn" where
  "NewUDPConn config os be we t =
     allocation.extend (new_allocation config os be we)
       \<lparr>bindingMgr = newBindingManager, readCh = [], closeCh = False, c_now = t, deadline = None, binds = []\<rparr>"

text \<open>
  \<open>ReadFrom\<close> into a buffer of \<open>n\<close> bytes when several of its events are ready: the Go runtime
  picks one. \<open>pick\<close> is that choice; \<open>None\<close> is a call that blocks.
\<close>

datatype read_event = ReadData | ReadTimer | ReadClosed

definition read_ready :: "UDPConn \<Rightarrow> read_event list" where
  "read_ready c =
     (if readCh c \<noteq> [] then [ReadData] else [])
     @ (case deadline c of Some t \<Rightarrow> (if t \<le> c_now c then [ReadTimer] else []) | None \<Rightarrow> [])
     @ (if closeCh c then [ReadClosed] else [])"

definition UDPConn_ReadFrom ::
    "nat \<Rightarrow> nat \<Rightarrow> UDPConn \<Rightarrow> ((conn_error + bytes \<times> net_addr) \<times> UDPConn) option" where
  "UDPConn_ReadFrom pick n c =
     (case read_ready c of
        [] \<Rightarrow> None
      | evs \<Rightarrow>
          Some (case evs ! (pick mod length evs) of
                  ReadData \<Rightarrow>
                    (case hd (readCh c) of (d, from) \<Rightarrow>
                       (if n < length d then Inl errShortBuffer else Inr (d, from), c\<lparr>readCh := tl (readCh c)\<rparr>))
                | ReadTimer \<Rightarrow> (Inl errTimeout, c\<lparr>deadline := None\<rparr>)
                | ReadClosed \<Rightarrow> (Inl errClosed, c)))"

definition UDPConn_HandleInbound :: "bytes \<Rightarrow> net_addr \<Rightarrow> UDPConn \<Rightarrow> UDPConn" where
  "UDPConn_HandleInbound d from c =
     (if length (readCh c) < maxReadQueueSize then c\<lparr>readCh := readCh c @ [(d, from)]\<rparr> else c)"

definition FindAddrByChannelNumber :: "u16 \<Rightarrow> UDPConn \<Rightarrow> net_addr option" where
  "FindAddrByChannelNumber chNum c =
     map_option (\<lambda>b. addr (bindings (bindingMgr c) ! b)) (bnd_findByNumber (bindingMgr c) chNum)"

text \<open>\<open>bind\<close> of binding object \<open>b\<close>.\<close>

definition bind_channel :: "nat \<Rightarrow> UDPConn \<Rightarrow> conn_error option \<times> UDPConn" where
  "bind_channel b c =
     (let bd = bindings (bindingMgr c) ! b
      in case build_err c of
           Some e \<Rightarrow> (Some (errBuild e), c)
         | None \<Rightarrow>
             (case await (OutChannelBind (addr2PeerAddress (addr bd)) (number bd) (al_nonce c)) c of
                (TrFailed e, c1) \<Rightarrow>
                  (Some (errTransaction e), c1\<lparr>bindingMgr := snd (bnd_deleteByAddr (addr bd) (bindingMgr c1))\<rparr>)
              | (TrReply res, c1) \<Rightarrow>
                  (if rep_Method res = MethodChannelBind \<and> rep_Class res = ClassSuccessResponse then (None, c1)
                   else (Some (errResponse (rep_Method res) (rep_Class res) (rep_ErrorCode res)), c1))))"

text \<open>
  The goroutine started by \<open>WriteTo\<close> for the pending bind \<open>i\<close>: a first bind
  (\<open>False\<close>) or a refresh (\<open>True\<close>).
\<close>

definition bind_done :: "nat \<Rightarrow> UDPConn \<Rightarrow> UDPConn" where
  "bind_done i c =
     (if i < length (binds c) then
        (case binds c ! i of (b, refresh) \<Rightarrow>
           (case bind_channel b (c\<lparr>binds := take i (binds c) @ drop (Suc i) (binds c)\<rparr>) of
              (Some e, c1) \<Rightarrow> c1\<lparr>bindingMgr := bnd_setState b bindingStateFailed (bindingMgr c1)\<rparr>
            | (None, c1) \<Rightarrow>
                c1\<lparr>bindingMgr := bnd_setState b bindingStateReady
                    (if refresh then bnd_setRefreshedAt b (c_now c1) (bindingMgr c1) else bindingMgr c1)\<rparr>))
      else c)"

definition sendChannelData :: "bytes \<Rightarrow> u16 \<Rightarrow> UDPConn \<Rightarrow> (conn_error + nat) \<times> UDPConn" where
  "sendChannelData d chNum c =
     (case write_err c of
        Some e \<Rightarrow> (Inl (errSocket e), c)
      | None \<Rightarrow> (Inr (length d), log_out (OutRaw (Raw (cd_Encode (new_ChannelData chNum d)))) c))"

text \<open>The data part of \<open>WriteTo\<close>, with the binding object \<open>b\<close> of the peer.\<close>

definition write_bound :: "bytes \<Rightarrow> net_addr \<Rightarrow> nat \<Rightarrow> UDPConn \<Rightarrow> (conn_error + nat) \<times> UDPConn" where
  "write_bound p dst b c =
     (let bindSt = bnd_state (bindingMgr c) b
      in if bindSt = bindingStateIdle \<or> bindSt = bindingStateRequest \<or> bindSt = bindingStateFailed then
           (let c1 = (if bindSt = bindingStateIdle
                      then c\<lparr>bindingMgr := bnd_setState b bindingStateRequest (bindingMgr c), binds := binds c @ [(b, False)]\<rparr>
                      else c)
            in case build_err c1 of
                 Some e \<Rightarrow> (Inl (errBuild e), c1)
               | None \<Rightarrow>
                   (case write_err c1 of
                      Some e \<Rightarrow> (Inl (errSocket e), c1)
                    | None \<Rightarrow> (Inr (length p), log_out (OutSendIndication (addr2PeerAddress dst) p) c1)))
         else
           (let c1 = (if bindSt = bindingStateReady \<and> c_now c - bnd_refreshedAt (bindingMgr c) b > 5 * minute
                      then c\<lparr>bindingMgr := bnd_setState b bindingStateRefresh (bindingMgr c), binds := binds c @ [(b, True)]\<rparr>
                      else c)
            in case sendChannelData p (number (bindings (bindingMgr c1) ! b)) c1 of
                 (Inl e, c2) \<Rightarrow> (Inl e, c2)
               | (Inr _, c2) \<Rightarrow> (Inr (length p), c2)))"

definition UDPConn_WriteTo :: "bytes \<Rightarrow> net_addr \<Rightarrow> UDPConn \<Rightarrow> (conn_error + nat) \<times> UDPConn" where
  "UDPConn_WriteTo p dst c =
     (case dst of
        UDPAddr x port zone \<Rightarrow>
          (case ensurePermission dst c of
             (Some e, c1) \<Rightarrow> (Inl e, c1)
           | (None, c1) \<Rightarrow>
               (case bnd_findByAddr (bindingMgr c1) dst of
                  Some b \<Rightarrow> write_bound p dst b c1
                | None \<Rightarrow>
                    (case bnd_create (c_now c1) dst (bindingMgr c1) of
                       (b, bm) \<Rightarrow> write_bound p dst b (c1\<lparr>bindingMgr := bm\<rparr>))))
      | _ \<Rightarrow> (Inl errUDPAddrCast, c))"

text \<open>The channel is closed before the client is told and the refresh with lifetime 0 goes out.\<close>

definition UDPConn_Close :: "UDPConn \<Rightarrow> conn_error option \<times> UDPConn" where
  "UDPConn_Close c =
     (let c1 = c\<lparr>refreshAllocTimer := PeriodicTimer_Stop (refreshAllocTimer c),
                 refreshPermsTimer := PeriodicTimer_Stop (refreshPermsTimer c)\<rparr>
      in if closeCh c1 then (Some errAlreadyClosed, c1)
         else refreshAllocation 0 True (c1\<lparr>closeCh := True\<rparr>))"

text \<open>\<open>t = None\<close> is the zero time.\<close>

definition UDPConn_SetReadDeadline :: "int option \<Rightarrow> UDPConn \<Rightarrow> UDPConn" where
  "UDPConn_SetReadDeadline t c = c\<lparr>deadline := t\<rparr>"


section \<open>What the client's allocation leaves alone\<close>

lemma await_cases:
  obtains x' a' where "await x a = (x', a')" "allocation.more a' = allocation.more a" "al_permMap a' = al_permMap a"
    "al_nonce a' = al_nonce a" "al_lifetime a' = al_lifetime a" "out a' = out a @ [x]"
    "build_err a' = build_err a" "write_err a' = write_err a"
  by (cases "outcomes a") (auto simp: await_def)

lemma setNonce_frame [simp]:
  "allocation.more (setNonceFromMsg r a) = allocation.more a" "out (setNonceFromMsg r a) = out a"
  "al_permMap (setNonceFromMsg r a) = al_permMap a"
  by (auto simp: setNonceFromMsg_def split: option.splits)

definition one_request :: "'z allocation_scheme \<Rightarrow> 'z allocation_scheme \<Rightarrow> bool" where
  "one_request a a' \<longleftrightarrow> allocation.more a' = allocation.more a \<and> (\<exists>xs. out a' = out a @ xs \<and> length xs \<le> 1)"

lemma one_request_refl [simp]: "one_request a a"
  by (simp add: one_request_def)

lemma refreshAllocation_frame: "one_request a (snd (refreshAllocation d w a))"
  by (cases rule: await_cases [of "OutRefresh d (al_nonce a)" a])
     (auto simp: refreshAllocation_def one_request_def split: option.split sum.split tr_outcome.split)

lemma CreatePermissions_frame:
  "one_request a (snd (CreatePermissions as a))" "al_permMap (snd (CreatePermissions as a)) = al_permMap a"
  by (cases rule: await_cases [of "OutCreatePermission (map addr2PeerAddress as) (al_nonce a)" a],
      auto simp: CreatePermissions_def one_request_def split: option.split tr_outcome.split)+

lemma createPermission_frame: "one_request a (snd (createPermission p dst a))"
  using CreatePermissions_frame(1) [of a "[dst]"]
  by (auto simp: createPermission_def one_request_def split: prod.split option.split)

lemma refreshPermissions_frame: "one_request a (snd (refreshPermissions a))"
  by (simp add: refreshPermissions_def Let_def CreatePermissions_frame)

text \<open>A retried request goes out at most as often as the loop runs.\<close>

lemma retries_frame:
  assumes "\<And>a. one_request a (snd (f a))"
  shows "allocation.more (snd (retries n f e a)) = allocation.more a
     \<and> (\<exists>xs. out (snd (retries n f e a)) = out a @ xs \<and> length xs \<le> n)"
proof (induction n arbitrary: e a)
  case (Suc n)
  obtain e1 a1 where f: "f a = (e1, a1)" by fastforce
  with assms [of a] obtain xs where a1: "allocation.more a1 = allocation.more a" "out a1 = out a @ xs" "length xs \<le> 1"
    by (auto simp: one_request_def)
  from Suc.IH [of e1 a1] obtain ys where
    "allocation.more (snd (retries n f e1 a1)) = allocation.more a1" "out (snd (retries n f e1 a1)) = out a1 @ ys" "length ys \<le> n"
    by blast
  with f a1 show ?case by (auto intro!: exI [of _ "xs @ ys"])
qed simp

lemma ensurePermission_more: "allocation.more (snd (ensurePermission dst a)) = allocation.more a"
proof -
  have more: "allocation.more (snd (retries n (createPermission p dst) e b)) = allocation.more b" for n p e b
    using retries_frame [of "createPermission p dst"] createPermission_frame by blast
  show ?thesis by (simp add: ensurePermission_def more split: option.split prod.split)
qed

lemma more_fields:
  "allocation.more c' = allocation.more c \<Longrightarrow> bindingMgr c' = bindingMgr c \<and> readCh c' = readCh c
     \<and> closeCh c' = closeCh c \<and> binds c' = binds c"
  by (cases c; cases c') simp


section \<open>Stale nonces\<close>

abbreviation stale_reply :: "string \<Rightarrow> reply \<Rightarrow> bool" where
  "stale_reply n res \<equiv> rep_Class res = ClassErrorResponse \<and> rep_ErrorCode res = Some 438 \<and> rep_Nonce res = Some n"

text \<open>
  A stale nonce costs one round trip: when the refresh timer's request is refused with 438 and
  a new nonce and the next answer is a success, the request is repeated once with the new
  nonce, the nonce and the granted lifetime are kept, and nothing else is sent.
\<close>

theorem stale_nonce_recovered:
  assumes "build_err a = None" and "outcomes a = TrReply r1 # TrReply r2 # os" and "stale_reply n r1"
    and "rep_Class r2 \<noteq> ClassErrorResponse" and "rep_Lifetime r2 = Inr d"
  shows "let a' = onRefreshTimers timerIDRefreshAlloc a in
     al_nonce a' = n \<and> al_lifetime a' = d \<and> outcomes a' = os \<and> al_permMap a' = al_permMap a
     \<and> out a' = out a @ [OutRefresh (al_lifetime a) (al_nonce a), OutRefresh (al_lifetime a) n]"
proof -
  let ?d = "al_lifetime a"
  let ?a1 = "a\<lparr>outcomes := TrReply r2 # os, out := out a @ [OutRefresh ?d (al_nonce a)], al_nonce := n\<rparr>"
  let ?a2 = "?a1\<lparr>outcomes := os, out := out ?a1 @ [OutRefresh ?d n], al_lifetime := d\<rparr>"
  have "refreshAllocation ?d False a = (Some errTryAgain, ?a1)"
    using assms(1-3) by (simp add: refreshAllocation_def await_def setNonceFromMsg_def)
  moreover have "refreshAllocation ?d False ?a1 = (None, ?a2)"
    using assms(1,4,5) by (simp add: refreshAllocation_def await_def)
  ultimately have "onRefreshTimers timerIDRefreshAlloc a = ?a2"
    by (simp add: onRefreshTimers_def maxRetryAttempts_def numeral_3_eq_3)
  then show ?thesis by simp
qed

abbreviation demo_reply :: "stun_class \<Rightarrow> nat option \<Rightarrow> string option \<Rightarrow> tr_outcome" where
  "demo_reply cls code nonce \<equiv> TrReply \<lparr>rep_Method = MethodCreatePermission, rep_Class = cls, rep_ErrorCode = code,
     rep_Nonce = nonce, rep_Realm = None, rep_Lifetime = Inr (5 * minute), rep_Relayed = Inl ''none'', rep_ConnectionID = Inl ''none''\<rparr>"

abbreviation demo_conn :: "tr_outcome list \<Rightarrow> UDPConn" where
  "demo_conn os \<equiv> NewUDPConn \<lparr>ac_RelayedAddr = UDPAddr [10, 0, 0, 2] 6000 [], ac_ServerAddr = UDPAddr [10, 0, 0, 2] 3478 [],
     ac_Nonce = ''n0'', ac_Lifetime = 10 * minute\<rparr> os None None 0"

lemmas conn_eval = NewUDPConn_def new_allocation_def allocation.defs

theorem stale_nonce_recovered_witness:
  "al_lifetime (onRefreshTimers timerIDRefreshAlloc
      (demo_conn [demo_reply ClassErrorResponse (Some 438) (Some ''n1''), demo_reply ClassSuccessResponse None None]))
    = 5 * minute"
  using stale_nonce_recovered [of "demo_conn [demo_reply ClassErrorResponse (Some 438) (Some ''n1''),
       demo_reply ClassSuccessResponse None None]" _ _ "[]" "''n1''" "5 * minute"]
  by (simp add: conn_eval Let_def)

text \<open>
  A refresh that the server refuses passes for a success: an error response whose code is not 438 makes
  \<open>refreshAllocation\<close> return no error, and the client keeps its old lifetime and goes on as if
  the allocation had been refreshed.
\<close>

theorem refused_refresh_reported_as_success:
  assumes "build_err a = None" and "outcomes a = TrReply res # os" and "rep_Class res = ClassErrorResponse"
    and "rep_ErrorCode res = Some code" and "code \<noteq> 438"
  shows "refreshAllocation d False a = (None, a\<lparr>outcomes := os, out := out a @ [OutRefresh d (al_nonce a)]\<rparr>)"
  using assms by (simp add: refreshAllocation_def await_def)

theorem refused_refresh_reported_as_success_witness:
  "fst (refreshAllocation (10 * minute) False (demo_conn [demo_reply ClassErrorResponse (Some 437) None])) = None"
  using refused_refresh_reported_as_success [of "demo_conn [demo_reply ClassErrorResponse (Some 437) None]" _ "[]" 437]
  by (simp add: conn_eval)

text \<open>
  A permission obtained on the second attempt is forgotten: when the first CreatePermission request for a new
  peer is answered with a stale nonce and the second with success, the permission is granted
  but no longer in the permission map, so the refresh timer does not renew it, and the next write asks
  for it again.
\<close>

theorem permission_forgotten_after_stale_nonce:
  assumes "build_err a = None" and "outcomes a = TrReply r1 # TrReply r2 # os" and "stale_reply n r1"
    and "rep_Class r2 \<noteq> ClassErrorResponse" and "perm_find (al_permMap a) dst = None"
  shows "fst (ensurePermission dst a) = None \<and> perm_find (al_permMap (snd (ensurePermission dst a))) dst = None"
proof -
  obtain p pm where new: "new_permission (al_permMap a) = (p, pm)" by fastforce
  then have idle: "perm_state pm p = permStateIdle" "p < length (perms pm)"
    by (auto simp: new_permission_def perm_state_def)
  let ?pm = "perm_insert pm dst p"
  let ?a0 = "a\<lparr>al_permMap := ?pm\<rparr>"
  let ?req = "\<lambda>n. OutCreatePermission [addr2PeerAddress dst] n"
  let ?a1 = "a\<lparr>outcomes := TrReply r2 # os, out := out a @ [?req (al_nonce a)], al_nonce := n, al_permMap := perm_delete ?pm dst\<rparr>"
  have st: "perm_state ?pm p = permStateIdle" "perm_state (perm_delete ?pm dst) p = permStateIdle"
    using idle by (simp_all add: perm_insert_def perm_delete_def perm_state_def)
  have "createPermission p dst ?a0 = (Some errTryAgain, ?a1)"
    using assms(1-3) st(1) by (simp add: createPermission_def CreatePermissions_def await_def setNonceFromMsg_def)
  moreover have "\<exists>a2. createPermission p dst ?a1 = (None, a2) \<and> al_permMap a2 = perm_setState p permStatePermitted (perm_delete ?pm dst)"
    using assms(1,4) st(2) by (simp add: createPermission_def CreatePermissions_def await_def)
  ultimately obtain a2 where "ensurePermission dst a = (None, a2)"
      "al_permMap a2 = perm_setState p permStatePermitted (perm_delete ?pm dst)"
    using assms(5) new by (auto simp: ensurePermission_def maxRetryAttempts_def numeral_3_eq_3)
  then show ?thesis by (simp add: perm_find_def perm_setState_def perm_delete_def gomap_simps)
qed

theorem permission_forgotten_after_stale_nonce_witness:
  "perm_find (al_permMap (snd (ensurePermission (UDPAddr [10, 0, 0, 9] 80 [])
     (demo_conn [demo_reply ClassErrorResponse (Some 438) (Some ''n1''), demo_reply ClassSuccessResponse None None]))))
     (UDPAddr [10, 0, 0, 9] 80 []) = None"
  using permission_forgotten_after_stale_nonce [of "demo_conn [demo_reply ClassErrorResponse (Some 438) (Some ''n1''),
       demo_reply ClassSuccessResponse None None]" _ _ "[]" "''n1''" "UDPAddr [10, 0, 0, 9] 80 []"]
  by (simp add: conn_eval newPermissionMap_def perm_find_def)


section \<open>The way out\<close>

lemma bnd_setState_frame [simp]:
  "bnd_findByAddr (bnd_setState r s m) a = bnd_findByAddr m a" "bnd_findByNumber (bnd_setState r s m) n = bnd_findByNumber m n"
  "number (bindings (bnd_setState r s m) ! b) = number (bindings m ! b)"
  "addr (bindings (bnd_setState r s m) ! b) = addr (bindings m ! b)"
  by (simp_all add: bnd_findByAddr_def bnd_findByNumber_def bnd_setState_def nth_update_proj [where f = number]
      nth_update_proj [where f = addr])

text \<open>Data goes out as a Send indication or under the number of the binding object.\<close>

lemma write_bound_path:
  assumes "write_bound p dst b c = (Inr n, c')"
  shows "n = length p \<and> (\<exists>s. bindingMgr c' = bindingMgr c \<or> bindingMgr c' = bnd_setState b s (bindingMgr c))
     \<and> (last (out c') = OutSendIndication (addr2PeerAddress dst) p
        \<or> last (out c') = OutRaw (Raw (cd_Encode (new_ChannelData (number (bindings (bindingMgr c) ! b)) p)))
          \<and> bnd_state (bindingMgr c) b \<noteq> bindingStateIdle)"
  using assms
  by (auto simp: write_bound_def sendChannelData_def Let_def split: if_splits option.splits)

lemma bm_used_valid:
  assumes "bm_used k m" and "bnd_findByNumber m n = Some b"
  shows "isChannelNumberValid n"
proof -
  from assms have "minChannelNumber \<le> n" "unat n < 0x8000" by (auto simp: bm_used_def bnd_findByNumber_def)
  then show ?thesis
    by (simp add: isChannelNumberValid_def MinChannelNumber_def MaxChannelNumber_def minChannelNumber_def word_le_nat_alt)
qed

text \<open>
  Written data reaches the server on one of two paths: as a Send indication addressed to the peer, or as
  ChannelData under a legal channel number that leads back to the same peer, so that what the peer
  answers on that channel is attributed to it. (As long as fewer than 16384 channels were used.)
\<close>

theorem written_data_path:
  assumes "UDPConn_WriteTo p dst c = (Inr n, c')" and "bm_ok (bindingMgr c)" and "bm_used k (bindingMgr c)" and "k < 0x4000"
  shows "n = length p \<and> (last (out c') = OutSendIndication (addr2PeerAddress dst) p
     \<or> (\<exists>num a. last (out c') = OutRaw (Raw (cd_Encode (new_ChannelData num p))) \<and> isChannelNumberValid num
          \<and> FindAddrByChannelNumber num c' = Some a \<and> addr_String a = addr_String dst))"
proof -
  obtain c1 where perm: "ensurePermission dst c = (None, c1)"
    using assms(1) by (auto simp: UDPConn_WriteTo_def split: net_addr.splits prod.splits option.splits)
  with ensurePermission_more [of dst c] have bm: "bindingMgr c1 = bindingMgr c"
    using more_fields by (metis snd_conv)
  show ?thesis
  proof (cases "bnd_findByAddr (bindingMgr c) dst")
    case None
    obtain b bm' where new: "bnd_create (c_now c1) dst (bindingMgr c1) = (b, bm')" by fastforce
    then have "bnd_state bm' b = bindingStateIdle"
      by (auto simp: bnd_create_def assignChannelNumber_def bnd_state_def Let_def split: if_splits)
    moreover have "write_bound p dst b (c1\<lparr>bindingMgr := bm'\<rparr>) = (Inr n, c')"
      using assms(1) perm None new bm by (auto simp: UDPConn_WriteTo_def split: net_addr.splits)
    ultimately show ?thesis using write_bound_path by fastforce
  next
    case (Some b)
    then have w: "write_bound p dst b c1 = (Inr n, c')"
      using assms(1) perm bm by (auto simp: UDPConn_WriteTo_def split: net_addr.splits)
    let ?num = "number (bindings (bindingMgr c) ! b)"
    from cht.number_leads_back [OF assms(2) Some] obtain b' where
      b': "bnd_findByNumber (bindingMgr c) ?num = Some b'" "addr_String (addr (bindings (bindingMgr c) ! b')) = addr_String dst"
      by blast
    have "FindAddrByChannelNumber ?num c' = Some (addr (bindings (bindingMgr c) ! b'))"
      using write_bound_path [OF w] b'(1) bm by (auto simp: FindAddrByChannelNumber_def)
    then show ?thesis
      using write_bound_path [OF w] bm b'(2) bm_used_valid [OF assms(3) b'(1)] by auto
  qed
qed

theorem written_data_path_witness:
  "\<exists>c'. UDPConn_WriteTo [1, 2] (UDPAddr [10, 0, 0, 9] 80 []) (demo_conn [demo_reply ClassSuccessResponse None None]) = (Inr 2, c')
     \<and> (last (out c') = OutSendIndication \<lparr>pa_IP = [10, 0, 0, 9], pa_Port = 80\<rparr> [1, 2]
        \<or> (\<exists>num a. last (out c') = OutRaw (Raw (cd_Encode (new_ChannelData num [1, 2]))) \<and> isChannelNumberValid num
          \<and> FindAddrByChannelNumber num c' = Some a \<and> addr_String a = addr_String (UDPAddr [10, 0, 0, 9] 80 [])))"
proof -
  let ?c = "demo_conn [demo_reply ClassSuccessResponse None None]"
  let ?w = "UDPConn_WriteTo [1, 2] (UDPAddr [10, 0, 0, 9] 80 []) ?c"
  have "fst ?w = Inr 2"
    by (simp add: UDPConn_WriteTo_def ensurePermission_def conn_eval perm_find_def newPermissionMap_def
        new_permission_def maxRetryAttempts_def numeral_3_eq_3 createPermission_def perm_state_def perm_insert_def
        CreatePermissions_def await_def perm_setState_def bnd_findByAddr_def newBindingManager_def bnd_create_def
        assignChannelNumber_def write_bound_def bnd_state_def bnd_setState_def minChannelNumber_def maxChannelNumber_def Let_def)
  then have run: "?w = (Inr 2, snd ?w)" by (metis prod.collapse)
  have "bindingMgr ?c = newBindingManager" by (simp add: conn_eval)
  then have "bm_ok (bindingMgr ?c)" "bm_used 0 (bindingMgr ?c)" by simp_all
  from written_data_path [OF run this] run show ?thesis
    by (intro exI [of _ "snd ?w"]) simp
qed

end
