(* ===== verification/TurnTCP.thy ===== *)
theory TurnTCP
  imports TurnUDPConn
begin

text \<open>
  TCP allocations of the TURN client: \<open>internal/client/tcp_alloc.go\<close> and \<open>tcp_conn.go\<close>.
  The connection to the server is given by what its reads and writes return. Shown: a dial that succeeds
  went through the permission, the connect and the bind exchange in this order; attempts are accepted
  in the order they came; and a response header with a large length makes the bind panic.
\<close>

datatype tcp_error =
    errConnLevel conn_error
  | errTCPAddrCast
  | errInvalidTURNAddress
  | errTCPInvalidTURNFrame
  | errTCPIncompleteTURNFrame
  | errUnexpectedSTUNRequestMessage
  | errDecodeSTUN string
  | errRead string
  | errWrite string
  | errFailedToBind tcp_error
  | errDial string
  | errGetConnectionID string
  | errAcceptTimeout

record TCPAllocation = allocation +
  connAttemptCh :: "(net_addr \<times> ConnectionID) list"

definition NewTCPAllocation :: "AllocationConfig \<Rightarrow> tr_outcome list \<Rightarrow> string option \<Rightarrow> string option \<Rightarrow> TCPAllocation" where
  "NewTCPAllocation config os be we = allocation.extend (new_allocation config os be we) \<lparr>connAttemptCh = []\<rparr>"

text \<open>
  A connection to the TURN server: whether it is a TCP connection, what writing to it returns, what its next
  reads return (the bytes and the error), and the STUN package that reads the response.
\<close>

record tcp_world =
  is_TCPConn :: bool
  tcp_write :: "string option"
  tcp_reads :: "(bytes \<times> string option) list"
  tcp_isMessage :: "bytes \<Rightarrow> bool"
  tcp_decode :: "bytes \<Rightarrow> string + reply"

record TCPConn =
  remoteAddress :: net_addr
  tcp_ConnectionID :: ConnectionID

definition Connect :: "net_addr \<Rightarrow> TCPAllocation \<Rightarrow> (tcp_error + ConnectionID) \<times> TCPAllocation" where
  "Connect peer a =
     (case build_err a of
        Some e \<Rightarrow> (Inl (errConnLevel (errBuild e)), a)
      | None \<Rightarrow>
          (case await (OutConnect (addr2PeerAddress peer) (al_nonce a)) a of
             (TrFailed e, a1) \<Rightarrow> (Inl (errConnLevel (errTransaction e)), a1)
           | (TrReply res, a1) \<Rightarrow>
               (if rep_Class res = ClassErrorResponse
                then (Inl (errConnLevel (errResponse (rep_Method res) (rep_Class res) (rep_ErrorCode res))), a1)
                else case rep_ConnectionID res of
                  Inl e \<Rightarrow> (Inl (errGetConnectionID e), a1)
                | Inr cid \<Rightarrow> (Inr cid, a1))))"

definition tcp_stunHeaderSize :: nat where "tcp_stunHeaderSize = 20"

text \<open>
  \<open>BindConnection\<close>; \<open>None\<close> is the panic of slicing a buffer that is shorter than the header: the
  size of the message is computed in 16 bits. A read returns at most as many bytes as fit; the
  rest of the buffer stays zero.
\<close>

definition BindConnection :: "tcp_world \<Rightarrow> ConnectionID \<Rightarrow> TCPAllocation \<Rightarrow> tcp_error option option" where
  "BindConnection w cid a =
     (case build_err a of
        Some e \<Rightarrow> Some (Some (errConnLevel (errBuild e)))
      | None \<Rightarrow>
     (case tcp_write w of
        Some e \<Rightarrow> Some (Some (errWrite e))
      | None \<Rightarrow>
     (case tcp_reads w of
        [] \<Rightarrow> Some (Some (errRead ''closed''))
      | (b, err) # rs \<Rightarrow>
          (if length b \<noteq> tcp_stunHeaderSize then Some (Some errTCPIncompleteTURNFrame)
           else case err of
             Some e \<Rightarrow> Some (Some (errRead e))
           | None \<Rightarrow>
               (if \<not> tcp_isMessage w b then Some (Some errTCPInvalidTURNFrame)
                else
                  let datagramSize = unat (get_u16 (drop 2 b) + (of_nat tcp_stunHeaderSize :: u16))
                  in if datagramSize < tcp_stunHeaderSize then None
                     else case rs of
                       [] \<Rightarrow> Some (Some (errRead ''closed''))
                     | (_, Some e) # _ \<Rightarrow> Some (Some (errRead e))
                     | (d, None) # _ \<Rightarrow>
                         (let body = take (datagramSize - tcp_stunHeaderSize) d;
                              raw = b @ body @ replicate (datagramSize - tcp_stunHeaderSize - length body) 0
                          in case tcp_decode w raw of
                               Inl e \<Rightarrow> Some (Some (errDecodeSTUN e))
                             | Inr res \<Rightarrow>
                                 Some (case rep_Class res of
                                         ClassErrorResponse \<Rightarrow>
                                           Some (errConnLevel (errResponse (rep_Method res) (rep_Class res) (rep_ErrorCode res)))
                                       | ClassSuccessResponse \<Rightarrow> None
                                       | _ \<Rightarrow> Some errUnexpectedSTUNRequestMessage)))))))"

definition DialTCPWithConn ::
    "tcp_world \<Rightarrow> net_addr \<Rightarrow> TCPAllocation \<Rightarrow> ((tcp_error + TCPConn) \<times> TCPAllocation) option" where
  "DialTCPWithConn w rAddr a =
     (case ensurePermission rAddr a of
        (Some e, a1) \<Rightarrow> Some (Inl (errConnLevel e), a1)
      | (None, a1) \<Rightarrow>
          (case Connect rAddr a1 of
             (Inl e, a2) \<Rightarrow> Some (Inl e, a2)
           | (Inr cid, a2) \<Rightarrow>
               (if \<not> is_TCPConn w then Some (Inl errTCPAddrCast, a2)
                else case BindConnection w cid a2 of
                  None \<Rightarrow> None
                | Some (Some e) \<Rightarrow> Some (Inl (errFailedToBind e), a2)
                | Some None \<Rightarrow> Some (Inr \<lparr>remoteAddress = rAddr, tcp_ConnectionID = cid\<rparr>, a2))))"

text \<open>\<open>DialTCP\<close>; the third component says whether the dialled connection was closed again.\<close>

definition DialTCP ::
    "(net_addr \<Rightarrow> string + tcp_world) \<Rightarrow> net_addr \<Rightarrow> TCPAllocation \<Rightarrow> ((tcp_error + TCPConn) \<times> TCPAllocation \<times> bool) option" where
  "DialTCP dial rAddr a =
     (case serverAddr a of
        TCPAddr x p z \<Rightarrow>
          (case dial (TCPAddr x p []) of
             Inl e \<Rightarrow> Some (Inl (errDial e), a, False)
           | Inr w \<Rightarrow>
               (case DialTCPWithConn w rAddr a of
                  None \<Rightarrow> None
                | Some (Inl e, a1) \<Rightarrow> Some (Inl e, a1, True)
                | Some (Inr c, a1) \<Rightarrow> Some (Inr c, a1, False)))
      | _ \<Rightarrow> Some (Inl errInvalidTURNAddress, a, False))"

text \<open>\<open>AcceptTCPWithConn\<close> waits for an attempt or the timer; \<open>None\<close> outside is a call that blocks, inside a panic.\<close>

definition AcceptTCPWithConn ::
    "bool \<Rightarrow> tcp_world \<Rightarrow> TCPAllocation \<Rightarrow> ((tcp_error + TCPConn) option \<times> TCPAllocation) option" where
  "AcceptTCPWithConn timer_fired w a =
     (case connAttemptCh a of
        [] \<Rightarrow> (if timer_fired then Some (Some (Inl errAcceptTimeout), a) else None)
      | (from, cid) # q \<Rightarrow>
          (let a1 = a\<lparr>connAttemptCh := q\<rparr>
           in if \<not> is_TCPConn w then Some (Some (Inl errTCPAddrCast), a1)
              else case BindConnection w cid a1 of
                None \<Rightarrow> Some (None, a1)
              | Some (Some e) \<Rightarrow> Some (Some (Inl (errFailedToBind e)), a1)
              | Some None \<Rightarrow> Some (Some (Inr \<lparr>remoteAddress = from, tcp_ConnectionID = cid\<rparr>), a1)))"

text \<open>The channel of attempts has ten places; a further attempt blocks the sender (\<open>None\<close>).\<close>

definition HandleConnectionAttempt :: "net_addr \<Rightarrow> ConnectionID \<Rightarrow> TCPAllocation \<Rightarrow> TCPAllocation option" where
  "HandleConnectionAttempt from cid a =
     (if length (connAttemptCh a) < 10 then Some (a\<lparr>connAttemptCh := connAttemptCh a @ [(from, cid)]\<rparr>) else None)"

definition TCPAllocation_Close :: "TCPAllocation \<Rightarrow> conn_error option \<times> TCPAllocation" where
  "TCPAllocation_Close a =
     refreshAllocation 0 True
       (a\<lparr>refreshAllocTimer := PeriodicTimer_Stop (refreshAllocTimer a),
          refreshPermsTimer := PeriodicTimer_Stop (refreshPermsTimer a)\<rparr>)"

section \<open>The size of the bind response\<close>

lemma bind_size_wraps:
  assumes "65516 \<le> unat (n :: u16)"
  shows "unat (n + 20) < 20"
proof -
  have "unat n < 65536" using unsigned_less [where ?'a = nat and w = n] by simp
  have "unat (n + 20) = (unat n + 20) mod 65536" by (simp add: unat_word_ariths)
  also have "\<dots> = unat n + 20 - 65536" using assms \<open>unat n < 65536\<close> by (simp add: mod_if)
  finally show ?thesis using \<open>unat n < 65536\<close> by simp
qed

text \<open>
  C38. The TURN server can crash the client: if the first twenty bytes of its answer to a ConnectionBind request look like
  a STUN header with a length of 65516 or more, the size computed for the message wraps around below
  the size of the header and slicing the buffer panics.
\<close>

theorem bind_connection_panics:
  assumes "build_err a = None" and "tcp_write w = None" and "tcp_reads w = (b, None) # rs" and "length b = 20"
    and "tcp_isMessage w b" and "65516 \<le> unat (get_u16 (drop 2 b))"
  shows "BindConnection w cid a = None"
  using assms bind_size_wraps [OF assms(6)]
  by (simp add: BindConnection_def tcp_stunHeaderSize_def Let_def)

abbreviation demo_tcp :: TCPAllocation where
  "demo_tcp \<equiv> NewTCPAllocation \<lparr>ac_RelayedAddr = UDPAddr [10, 0, 0, 2] 6000 [], ac_ServerAddr = TCPAddr [10, 0, 0, 2] 3478 [],
     ac_Nonce = ''n0'', ac_Lifetime = 10 * minute\<rparr> [] None None"

theorem bind_connection_panics_witness:
  "BindConnection \<lparr>is_TCPConn = True, tcp_write = None, tcp_reads = [([1, 11, 255, 240] @ replicate 16 0, None)],
     tcp_isMessage = (\<lambda>b. True), tcp_decode = (\<lambda>b. Inl ''unused'')\<rparr> 7 demo_tcp = None"
  by (rule bind_connection_panics [where b = "[1, 11, 255, 240] @ replicate 16 0" and rs = "[]"])
     (simp_all add: NewTCPAllocation_def new_allocation_def allocation.defs get_u16_def)

section \<open>Dialling\<close>

lemma dial_success:
  assumes "DialTCPWithConn w rAddr a = Some (Inr c, a')"
  shows "remoteAddress c = rAddr \<and> BindConnection w (tcp_ConnectionID c) a' = Some None
     \<and> last (out a') = OutConnect (addr2PeerAddress rAddr) (al_nonce a')"
proof -
  from assms obtain a1 where perm: "ensurePermission rAddr a = (None, a1)"
    by (auto simp: DialTCPWithConn_def split: prod.splits option.splits)
  with assms obtain cid where con: "Connect rAddr a1 = (Inr cid, a')" and c: "c = \<lparr>remoteAddress = rAddr, tcp_ConnectionID = cid\<rparr>"
      and b: "BindConnection w cid a' = Some None"
    by (auto simp: DialTCPWithConn_def split: prod.splits option.splits sum.splits if_splits)
  from con have "last (out a') = OutConnect (addr2PeerAddress rAddr) (al_nonce a')"
    by (cases rule: await_cases [of "OutConnect (addr2PeerAddress rAddr) (al_nonce a1)" a1])
       (auto simp: Connect_def split: option.splits tr_outcome.splits if_splits sum.splits)
  with b c show ?thesis by simp
qed

text \<open>Attempts are accepted first come, first served.\<close>

lemma accept_fifo:
  assumes "HandleConnectionAttempt from cid a = Some a'" and "connAttemptCh a = []" and "is_TCPConn w"
    and "BindConnection w cid (a'\<lparr>connAttemptCh := []\<rparr>) = Some None"
  shows "AcceptTCPWithConn t w a' = Some (Some (Inr \<lparr>remoteAddress = from, tcp_ConnectionID = cid\<rparr>), a'\<lparr>connAttemptCh := []\<rparr>)"
  using assms by (auto simp: HandleConnectionAttempt_def AcceptTCPWithConn_def Let_def)

end
