(* ===== verification/TurnClient.thy ===== *)
theory TurnClient
  imports TurnTCP
begin

text \<open>
  The TURN client as a whole: \<open>client.go\<close>. Transactions are those of the transaction theory, the
  relayed connection and the TCP allocation those of theirs. Shown: how an inbound packet is
  demultiplexed, that data on a bound channel reaches the reader with the address of the bound
  peer, and the two-step authenticated allocation.
\<close>

section \<open>Transaction keys\<close>

text \<open>\<open>base64.StdEncoding.EncodeToString\<close>.\<close>

definition b64_alphabet :: string where
  "b64_alphabet = ''ABCDEFGHIJKLMNOPQRSTUVWXYZabcdefghijklmnopqrstuvwxyz0123456789+/''"

definition b64_char :: "nat \<Rightarrow> char" where
  "b64_char n = b64_alphabet ! (n mod 64)"

fun b64 :: "bytes \<Rightarrow> string" where
  "b64 (a # b # c # r) =
     (let v = unat a * 65536 + unat b * 256 + unat c
      in [b64_char (v div 262144), b64_char (v div 4096), b64_char (v div 64), b64_char v] @ b64 r)"
| "b64 [a, b] =
     (let v = unat a * 65536 + unat b * 256
      in [b64_char (v div 262144), b64_char (v div 4096), b64_char (v div 64), CHR ''='']) "
| "b64 [a] = (let v = unat a * 65536 in [b64_char (v div 262144), b64_char (v div 4096), CHR ''='', CHR ''=''])"
| "b64 [] = []"

section \<open>The client\<close>

datatype client_error =
    errNilConn
  | errResolve string
  | errAlreadyListening
  | errFailedToDecodeSTUN string
  | errClientUnexpectedRequest
  | errChannelBindNotFound
  | errNonSTUNMessage
  | errSTUNServerAddressNotSet
  | errOneAllocateOnly
  | errAlreadyAllocated
  | errClientProto proto_error
  | errClientBuild string
  | errClientTransaction string
  | errClientStun string
  | errClientResponse stun_method stun_class "nat option"
  | errClientConn conn_error

record 'm client_lib = "'m stun_lib" +
  cl_IsMessage :: "bytes \<Rightarrow> bool"
  cl_Decode :: "bytes \<Rightarrow> string + 'm"
  cl_Class :: "'m \<Rightarrow> stun_class"
  cl_Method :: "'m \<Rightarrow> stun_method"
  cl_TransactionID :: "'m \<Rightarrow> bytes"

record 'm Client =
  tr :: "'m tr_client"
  relayedConn :: "UDPConn option"
  tcpAllocation :: "TCPAllocation option"
  stunServerAddr :: "net_addr option"
  turnServerAddr :: "net_addr option"
  username :: string
  password :: string
  realm :: string
  integrity :: "(string \<times> string \<times> string) option"
  allocTryLock :: TryLock
  listenTryLock :: TryLock
  c_outcomes :: "tr_outcome list"
  c_out :: "conn_out list"
  c_build :: "string option"

record ClientConfig =
  cc_STUNServerAddr :: string
  cc_TURNServerAddr :: string
  cc_Username :: string
  cc_Password :: string
  cc_Realm :: string
  cc_RTO :: duration
  cc_Conn :: bool

definition resolve_server :: "(string \<Rightarrow> string + net_addr) \<Rightarrow> string \<Rightarrow> client_error + net_addr option" where
  "resolve_server resolve s =
     (if s \<noteq> [] then (case resolve s of Inl e \<Rightarrow> Inl (errResolve e) | Inr a \<Rightarrow> Inr (Some a)) else Inr None)"

definition NewClient ::
    "(string \<Rightarrow> string + net_addr) \<Rightarrow> int \<Rightarrow> tr_outcome list \<Rightarrow> string option \<Rightarrow> ClientConfig \<Rightarrow> client_error + 'm Client" where
  "NewClient resolve t os be config =
     (if \<not> cc_Conn config then Inl errNilConn
      else case resolve_server resolve (cc_STUNServerAddr config) of
        Inl e \<Rightarrow> Inl e
      | Inr stunServ \<Rightarrow>
          (case resolve_server resolve (cc_TURNServerAddr config) of
             Inl e \<Rightarrow> Inl e
           | Inr turnServ \<Rightarrow>
               Inr \<lparr>tr = new_tr_client t (if cc_RTO config > 0 then cc_RTO config else defaultRTO),
                    relayedConn = None, tcpAllocation = None, stunServerAddr = stunServ, turnServerAddr = turnServ,
                    username = cc_Username config, password = cc_Password config, realm = cc_Realm config,
                    integrity = None, allocTryLock = \<lparr>lock_n = 0\<rparr>, listenTryLock = \<lparr>lock_n = 0\<rparr>,
                    c_outcomes = os, c_out = [], c_build = be\<rparr>))"

definition c_await :: "conn_out \<Rightarrow> 'm Client \<Rightarrow> tr_outcome \<times> 'm Client" where
  "c_await x c =
     (case c_outcomes c of
        [] \<Rightarrow> (TrFailed ''transaction closed'', c\<lparr>c_out := c_out c @ [x]\<rparr>)
      | o1 # os \<Rightarrow> (o1, c\<lparr>c_outcomes := os, c_out := c_out c @ [x]\<rparr>))"

text \<open>
  \<open>sendAllocateRequest\<close>: an anonymous request whose refusal brings nonce and realm, then the
  authenticated one.
\<close>

definition sendAllocateRequest ::
    "Protocol \<Rightarrow> 'm Client \<Rightarrow> (client_error + RelayedAddress \<times> duration \<times> string) \<times> 'm Client" where
  "sendAllocateRequest protocol c =
     (case c_build c of
        Some e \<Rightarrow> (Inl (errClientBuild e), c)
      | None \<Rightarrow>
     (case c_await (OutAllocate protocol None) c of
        (TrFailed e, c1) \<Rightarrow> (Inl (errClientTransaction e), c1)
      | (TrReply res, c1) \<Rightarrow>
     (case rep_Nonce res of
        None \<Rightarrow> (Inl (errClientStun ''nonce''), c1)
      | Some nonce \<Rightarrow>
     (case rep_Realm res of
        None \<Rightarrow> (Inl (errClientStun ''realm''), c1)
      | Some rl \<Rightarrow>
          (let c2 = c1\<lparr>realm := rl, integrity := Some (username c1, rl, password c1)\<rparr>
           in case c_await (OutAllocate protocol (Some nonce)) c2 of
                (TrFailed e, c3) \<Rightarrow> (Inl (errClientTransaction e), c3)
              | (TrReply res2, c3) \<Rightarrow>
                  (if rep_Class res2 = ClassErrorResponse
                   then (Inl (errClientResponse (rep_Method res2) (rep_Class res2) (rep_ErrorCode res2)), c3)
                   else case rep_Relayed res2 of
                     Inl e \<Rightarrow> (Inl (errClientStun e), c3)
                   | Inr relayed \<Rightarrow>
                       (case rep_Lifetime res2 of
                          Inl e \<Rightarrow> (Inl (errClientStun e), c3)
                        | Inr lifetime \<Rightarrow> (Inr (relayed, lifetime, nonce), c3))))))))"

text \<open>The address of the TURN server must have been configured; nil would be dereferenced.\<close>

definition Allocate :: "int \<Rightarrow> 'm Client \<Rightarrow> client_error option \<times> 'm Client" where
  "Allocate t c =
     (case TryLock_Lock (allocTryLock c) of
        (False, _) \<Rightarrow> (Some errOneAllocateOnly, c)
      | (True, l) \<Rightarrow>
          (let c1 = c\<lparr>allocTryLock := l\<rparr>;
               unlock = (\<lambda>c. c\<lparr>allocTryLock := TryLock_Unlock (allocTryLock c)\<rparr>)
           in if relayedConn c1 \<noteq> None then (Some errAlreadyAllocated, unlock c1)
              else case sendAllocateRequest ProtoUDP c1 of
                (Inl e, c2) \<Rightarrow> (Some e, unlock c2)
              | (Inr (relayed, lifetime, nonce), c2) \<Rightarrow>
                  (None, unlock (c2\<lparr>relayedConn := Some (NewUDPConn
                     \<lparr>ac_RelayedAddr = UDPAddr (ra_IP relayed) (ra_Port relayed) [], ac_ServerAddr = the (turnServerAddr c2),
                      ac_Nonce = nonce, ac_Lifetime = lifetime\<rparr> (c_outcomes c2) (c_build c2) None t)\<rparr>))))"

definition AllocateTCP :: "'m Client \<Rightarrow> client_error option \<times> 'm Client" where
  "AllocateTCP c =
     (case TryLock_Lock (allocTryLock c) of
        (False, _) \<Rightarrow> (Some errOneAllocateOnly, c)
      | (True, l) \<Rightarrow>
          (let c1 = c\<lparr>allocTryLock := l\<rparr>;
               unlock = (\<lambda>c. c\<lparr>allocTryLock := TryLock_Unlock (allocTryLock c)\<rparr>)
           in if tcpAllocation c1 \<noteq> None then (Some errAlreadyAllocated, unlock c1)
              else case sendAllocateRequest ProtoTCP c1 of
                (Inl e, c2) \<Rightarrow> (Some e, unlock c2)
              | (Inr (relayed, lifetime, nonce), c2) \<Rightarrow>
                  (None, unlock (c2\<lparr>tcpAllocation := Some (NewTCPAllocation
                     \<lparr>ac_RelayedAddr = TCPAddr (ra_IP relayed) (ra_Port relayed) [], ac_ServerAddr = the (turnServerAddr c2),
                      ac_Nonce = nonce, ac_Lifetime = lifetime\<rparr> (c_outcomes c2) (c_build c2) None)\<rparr>))))"

definition Client_CreatePermission :: "net_addr list \<Rightarrow> 'm Client \<Rightarrow> client_error option \<times> 'm Client" where
  "Client_CreatePermission addrs c =
     (let tcp = (\<lambda>c. case tcpAllocation c of
                      None \<Rightarrow> (None, c)
                    | Some a \<Rightarrow> (case CreatePermissions addrs a of
                                  (e, a') \<Rightarrow> (map_option errClientConn e, c\<lparr>tcpAllocation := Some a'\<rparr>)))
      in case relayedConn c of
           None \<Rightarrow> tcp c
         | Some u \<Rightarrow>
             (case CreatePermissions addrs u of
                (Some e, u') \<Rightarrow> (Some (errClientConn e), c\<lparr>relayedConn := Some u'\<rparr>)
              | (None, u') \<Rightarrow> tcp (c\<lparr>relayedConn := Some u'\<rparr>)))"

definition OnDeallocated :: "'m Client \<Rightarrow> 'm Client" where
  "OnDeallocated c = c\<lparr>relayedConn := None, tcpAllocation := None\<rparr>"

section \<open>Inbound packets\<close>

definition Client_handleChannelData :: "bytes \<Rightarrow> 'm Client \<Rightarrow> client_error option \<times> 'm Client" where
  "Client_handleChannelData d c =
     (case cd_Decode (raw_ChannelData d) of
        (_, Some e) \<Rightarrow> (Some (errClientProto e), c)
      | (chData, None) \<Rightarrow>
          (case relayedConn c of
             None \<Rightarrow> (None, c)
           | Some u \<Rightarrow>
               (case FindAddrByChannelNumber (Number chData) u of
                  None \<Rightarrow> (Some errChannelBindNotFound, c)
                | Some from \<Rightarrow> (None, c\<lparr>relayedConn := Some (UDPConn_HandleInbound (Data chData) from u)\<rparr>))))"

text \<open>\<open>handleSTUNMessage\<close>; \<open>None\<close> is a call that does not return (a full channel of connection attempts) or panics.\<close>

definition handleSTUNMessage ::
    "'m client_lib \<Rightarrow> bytes \<Rightarrow> net_addr \<Rightarrow> 'm Client \<Rightarrow> (client_error option \<times> 'm Client) option" where
  "handleSTUNMessage L d from c =
     (let A = stun_lib.truncate L
      in case cl_Decode L d of
           Inl e \<Rightarrow> Some (Some (errFailedToDecodeSTUN e), c)
         | Inr msg \<Rightarrow>
             (if cl_Class L msg = ClassRequest then Some (Some errClientUnexpectedRequest, c)
              else if cl_Class L msg = ClassIndication then
                (if cl_Method L msg = MethodData then
                   (case PeerAddress_GetFrom A msg of
                      Inl e \<Rightarrow> Some (Some (errClientProto e), c)
                    | Inr pa \<Rightarrow>
                        (case Data_GetFrom A msg of
                           Inl e \<Rightarrow> Some (Some (errClientProto e), c)
                         | Inr payload \<Rightarrow>
                             (case relayedConn c of
                                None \<Rightarrow> Some (None, c)
                              | Some u \<Rightarrow>
                                  Some (None, c\<lparr>relayedConn := Some (UDPConn_HandleInbound payload
                                     (UDPAddr (pa_IP pa) (pa_Port pa) []) u)\<rparr>))))
                 else if cl_Method L msg = MethodConnectionAttempt then
                   (case PeerAddress_GetFrom A msg of
                      Inl e \<Rightarrow> Some (Some (errClientProto e), c)
                    | Inr pa \<Rightarrow>
                        (case ConnectionID_GetFrom A msg of
                           Inl e \<Rightarrow> Some (Some (errClientProto e), c)
                         | Inr cid \<Rightarrow>
                             (case tcpAllocation c of
                                None \<Rightarrow> Some (None, c)
                              | Some a \<Rightarrow>
                                  map_option (\<lambda>a'. (None, c\<lparr>tcpAllocation := Some a'\<rparr>))
                                    (HandleConnectionAttempt (TCPAddr (pa_IP pa) (pa_Port pa) []) cid a))))
                 else Some (None, c))
              else
                map_option (\<lambda>t. (None, c\<lparr>tr := t\<rparr>))
                  (handle_response (b64 (cl_TransactionID L msg)) msg from (tr c))))"

definition Client_HandleInbound ::
    "'m client_lib \<Rightarrow> bytes \<Rightarrow> net_addr \<Rightarrow> 'm Client \<Rightarrow> ((bool \<times> client_error option) \<times> 'm Client) option" where
  "Client_HandleInbound L d from c =
     (if cl_IsMessage L d then map_option (\<lambda>(e, c'). ((True, e), c')) (handleSTUNMessage L d from c)
      else if IsChannelData d then Some (case Client_handleChannelData d c of (e, c') \<Rightarrow> ((True, e), c'))
      else if (case stunServerAddr c of None \<Rightarrow> False | Some a \<Rightarrow> addr_String from = addr_String a)
      then Some ((True, Some errNonSTUNMessage), c)
      else Some ((False, None), c))"

text \<open>
  \<open>Listen\<close>: the loop over what the socket delivers. It stops at the first read error and at the first packet that
  could not be handled; the result tells how many packets were taken.
\<close>

fun listen_loop ::
    "'m client_lib \<Rightarrow> (string + bytes \<times> net_addr) list \<Rightarrow> nat \<Rightarrow> 'm Client \<Rightarrow> (nat \<times> bool \<times> 'm Client) option" where
  "listen_loop L [] k c = Some (k, True, c)"
| "listen_loop L (Inl e # ps) k c = Some (k, False, c\<lparr>listenTryLock := TryLock_Unlock (listenTryLock c)\<rparr>)"
| "listen_loop L (Inr (d, from) # ps) k c =
     (case Client_HandleInbound L d from c of
        None \<Rightarrow> None
      | Some ((_, None), c') \<Rightarrow> listen_loop L ps (Suc k) c'
      | Some ((_, Some e), c') \<Rightarrow> Some (Suc k, False, c'\<lparr>listenTryLock := TryLock_Unlock (listenTryLock c')\<rparr>))"

definition Listen ::
    "'m client_lib \<Rightarrow> (string + bytes \<times> net_addr) list \<Rightarrow> 'm Client \<Rightarrow> client_error + (nat \<times> bool \<times> 'm Client) option" where
  "Listen L ps c =
     (case TryLock_Lock (listenTryLock c) of
        (False, _) \<Rightarrow> Inl errAlreadyListening
      | (True, l) \<Rightarrow> Inr (listen_loop L ps 0 (c\<lparr>listenTryLock := l\<rparr>)))"

section \<open>Properties\<close>

lemma Number_decoded: "cd_Decode (raw_ChannelData d) = (chd, None) \<Longrightarrow> Number chd = get_u16 d"
  by (auto simp: cd_Decode_eq split: if_splits)

lemma decode_total: "IsChannelData d \<Longrightarrow> \<exists>chd. cd_Decode (raw_ChannelData d) = (chd, None)"
  by (simp add: cd_Decode_eq IsChannelData_eq)

lemma inbound_channel_data:
  assumes "\<not> cl_IsMessage L raw" and "cd_Decode (raw_ChannelData raw) = (chd, None)" and "relayedConn c = Some u"
    and "FindAddrByChannelNumber (Number chd) u = Some from"
  shows "Client_HandleInbound L raw src c =
     Some ((True, None), c\<lparr>relayedConn := Some (UDPConn_HandleInbound (Data chd) from u)\<rparr>)"
proof -
  have "IsChannelData raw" using assms(2) by (auto simp: cd_Decode_eq IsChannelData_eq split: if_splits)
  with assms show ?thesis by (simp add: Client_HandleInbound_def Client_handleChannelData_def)
qed

text \<open>The reader gets what was queued, in order, if its buffer is large enough.\<close>

lemma queued_data_read:
  assumes "readCh u = []" and "deadline u = None" and "\<not> closeCh u" and "length d \<le> n"
  shows "UDPConn_ReadFrom pick n (UDPConn_HandleInbound d from u) = Some (Inr (d, from), u)"
  using assms
  by (simp add: UDPConn_ReadFrom_def UDPConn_HandleInbound_def read_ready_def maxReadQueueSize_def)

text \<open>
  The comment above \<open>HandleInbound\<close> tells the caller to discard a packet that is answered with an error. The client's own
  read loop stops instead: one ChannelData packet with a channel number that is not bound, from any
  source, ends \<open>Listen\<close>, and nothing that arrives later is handled.
\<close>

theorem listen_stops_at_unknown_channel:
  assumes "\<not> cl_IsMessage L d" and "IsChannelData d" and "relayedConn c = Some u"
    and "FindAddrByChannelNumber (get_u16 d) u = None" and "lock_n (listenTryLock c) = 0"
  shows "Listen L (Inr (d, from) # ps) c = Inr (Some (1, False, c))"
proof -
  obtain chd where "cd_Decode (raw_ChannelData d) = (chd, None)" using decode_total [OF assms(2)] by blast
  with assms Number_decoded [OF this] show ?thesis
    by (cases "listenTryLock c")
       (simp add: Listen_def TryLock_Lock_def TryLock_Unlock_def Client_HandleInbound_def Client_handleChannelData_def)
qed

definition list_client_lib :: "(stun_attr \<times> bytes) list client_lib" where
  "list_client_lib = stun_lib.extend list_stun_lib
     \<lparr>cl_IsMessage = (\<lambda>_. False), cl_Decode = (\<lambda>_. Inl ''none''), cl_Class = (\<lambda>_. ClassIndication),
      cl_Method = (\<lambda>_. MethodData), cl_TransactionID = (\<lambda>_. replicate 12 0)\<rparr>"

abbreviation demo_client_state :: "UDPConn \<Rightarrow> (stun_attr \<times> bytes) list Client" where
  "demo_client_state u \<equiv> \<lparr>tr = new_tr_client 0 defaultRTO, relayedConn = Some u, tcpAllocation = None,
     stunServerAddr = None, turnServerAddr = Some (UDPAddr [10, 0, 0, 2] 3478 []), username = ''u'', password = ''p'',
     realm = ''r'', integrity = None, allocTryLock = \<lparr>lock_n = 0\<rparr>, listenTryLock = \<lparr>lock_n = 0\<rparr>,
     c_outcomes = [], c_out = [], c_build = None\<rparr>"

theorem listen_stops_at_unknown_channel_witness:
  "Listen list_client_lib [Inr ([0x40, 1, 0, 0], OtherAddr ''anyone''), Inr ([7], OtherAddr ''peer'')] (demo_client_state (demo_conn [])) =
     Inr (Some (1, False, demo_client_state (demo_conn [])))"
proof -
  have "IsChannelData [0x40, 1, 0, 0]" by code_simp
  then show ?thesis
    by (intro listen_stops_at_unknown_channel [where u = "demo_conn []"])
       (simp_all add: list_client_lib_def list_stun_lib_def stun_lib.defs conn_eval FindAddrByChannelNumber_def bnd_findByNumber_def
          newBindingManager_def)
qed

text \<open>
  Allocating takes exactly two requests: the anonymous one, whose answer supplies nonce and realm, and the authenticated one
  with that nonce; the connection that results carries the relayed address, the lifetime and the nonce of these
  answers, and as long as it is open a further \<open>Allocate\<close> is refused without a request.
\<close>

theorem allocate_two_requests:
  assumes "lock_n (allocTryLock c) = 0" and "relayedConn c = None" and "c_build c = None"
    and "c_outcomes c = TrReply r1 # TrReply r2 # os" and "rep_Nonce r1 = Some n" and "rep_Realm r1 = Some rl"
    and "rep_Class r2 \<noteq> ClassErrorResponse" and "rep_Relayed r2 = Inr ra" and "rep_Lifetime r2 = Inr d"
  shows "\<exists>u c'. Allocate t c = (None, c') \<and> relayedConn c' = Some u
     \<and> c_out c' = c_out c @ [OutAllocate ProtoUDP None, OutAllocate ProtoUDP (Some n)]
     \<and> integrity c' = Some (username c, rl, password c)
     \<and> relayedAddr u = UDPAddr (ra_IP ra) (ra_Port ra) [] \<and> al_nonce u = n \<and> al_lifetime u = d
     \<and> pt_interval (refreshAllocTimer u) = d div 2 \<and> running (refreshAllocTimer u)
     \<and> lock_n (allocTryLock c') = 0 \<and> Allocate t' c' = (Some errAlreadyAllocated, c')"
proof -
  have send: "sendAllocateRequest ProtoUDP (c\<lparr>allocTryLock := l\<rparr>) = (Inr (ra, d, n),
      c\<lparr>allocTryLock := l, c_outcomes := os, realm := rl, integrity := Some (username c, rl, password c),
        c_out := c_out c @ [OutAllocate ProtoUDP None, OutAllocate ProtoUDP (Some n)]\<rparr>)" for l
    using assms by (simp add: sendAllocateRequest_def c_await_def Let_def)
  show ?thesis
    using assms
    by (cases "allocTryLock c")
       (simp add: Allocate_def TryLock_Lock_def TryLock_Unlock_def send NewUDPConn_def new_allocation_def
          allocation.defs PeriodicTimer_Start_def NewPeriodicTimer_def Let_def)
qed

abbreviation demo_allocate_reply :: "stun_class \<Rightarrow> tr_outcome" where
  "demo_allocate_reply cls \<equiv> TrReply \<lparr>rep_Method = MethodAllocate, rep_Class = cls, rep_ErrorCode = Some 401, rep_Nonce = Some ''n1'',
     rep_Realm = Some ''realm'', rep_Lifetime = Inr (10 * minute), rep_Relayed = Inr \<lparr>ra_IP = [10, 0, 0, 2], ra_Port = 6000\<rparr>,
     rep_ConnectionID = Inl ''none''\<rparr>"

theorem allocate_two_requests_witness:
  "\<exists>u c'. Allocate 0 (demo_client_state (demo_conn []) \<lparr>relayedConn := None,
       c_outcomes := [demo_allocate_reply ClassErrorResponse, demo_allocate_reply ClassSuccessResponse]\<rparr>) = (None, c')
     \<and> relayedConn c' = Some u \<and> al_nonce u = ''n1''"
proof -
  let ?c = "demo_client_state (demo_conn []) \<lparr>relayedConn := None,
       c_outcomes := [demo_allocate_reply ClassErrorResponse, demo_allocate_reply ClassSuccessResponse]\<rparr>"
  from allocate_two_requests [of ?c _ _ "[]" "''n1''" "''realm''" "\<lparr>ra_IP = [10, 0, 0, 2], ra_Port = 6000\<rparr>" "10 * minute" 0 0]
  show ?thesis by fastforce
qed

end
