(* ===== verification/TurnStream.thy ===== *)
theory TurnStream
  imports TurnProto
begin

text \<open>
  TURN over a byte stream: \<open>stun_conn.go\<close>. \<open>STUNConn\<close> cuts the stream of a TCP or TLS
  connection into STUN messages and ChannelData messages. The test \<open>stun.IsMessage\<close> of the STUN
  package is a parameter. Shown: however the stream is cut into reads, reading returns exactly the
  frames that were sent, in order, within the size range the code handles; and what happens to the
  frames outside that range.
\<close>

section \<open>The packetizer\<close>

definition stunHeaderSize :: u16 where "stunHeaderSize = 20"
definition channelDataPadding :: u16 where "channelDataPadding = 4"

datatype frame_error = errInvalidTURNFrame | errIncompleteTURNFrame | errNextConn string

text \<open>All sizes are \<open>uint16\<close>: the additions wrap.\<close>

definition consumeSingleTURNFrame :: "(bytes \<Rightarrow> bool) \<Rightarrow> bytes \<Rightarrow> frame_error + nat" where
  "consumeSingleTURNFrame isMessage p =
     (if length p < 9 then Inl errIncompleteTURNFrame
      else
        let finish = (\<lambda>datagramSize :: u16.
              if length p < unat datagramSize then Inl errIncompleteTURNFrame else Inr (unat datagramSize))
        in if isMessage p then finish (get_u16 (drop 2 p) + stunHeaderSize)
           else if ChannelNumber_Valid (get_u16 p) then
             (let datagramSize = get_u16 (drop 2 p);
                  paddingOverflow = (datagramSize + channelDataPadding) mod channelDataPadding;
                  padded = (if paddingOverflow \<noteq> 0 then (datagramSize + channelDataPadding) - paddingOverflow
                            else datagramSize)
              in finish (padded + of_nat channelDataHeaderSize))
           else if length p < unat stunHeaderSize then Inl errIncompleteTURNFrame
           else Inl errInvalidTURNFrame)"

record STUNConn =
  buff :: bytes
  incoming :: "(string + bytes) list"

definition NewSTUNConn :: "(string + bytes) list \<Rightarrow> STUNConn" where
  "NewSTUNConn cs = \<lparr>buff = [], incoming = cs\<rparr>"

text \<open>
  \<open>ReadFrom\<close> into a buffer of \<open>cap\<close> bytes; the reads of the underlying connection are the
  list \<open>incoming\<close>, and \<open>None\<close> is a call that blocks because nothing more has arrived. The result is
  the number returned and the bytes copied.
\<close>

fun read_loop ::
    "(bytes \<Rightarrow> bool) \<Rightarrow> nat \<Rightarrow> bytes \<Rightarrow> (string + bytes) list \<Rightarrow> ((frame_error + nat \<times> bytes) \<times> STUNConn) option" where
  "read_loop isMessage cap b [] =
     (case consumeSingleTURNFrame isMessage b of
        Inl errInvalidTURNFrame \<Rightarrow> Some (Inl errInvalidTURNFrame, \<lparr>buff = b, incoming = []\<rparr>)
      | Inr n \<Rightarrow> Some (Inr (n, take cap (take n b)), \<lparr>buff = drop n b, incoming = []\<rparr>)
      | Inl _ \<Rightarrow> None)"
| "read_loop isMessage cap b (ch # cs) =
     (case consumeSingleTURNFrame isMessage b of
        Inl errInvalidTURNFrame \<Rightarrow> Some (Inl errInvalidTURNFrame, \<lparr>buff = b, incoming = ch # cs\<rparr>)
      | Inr n \<Rightarrow> Some (Inr (n, take cap (take n b)), \<lparr>buff = drop n b, incoming = ch # cs\<rparr>)
      | Inl _ \<Rightarrow>
          (case ch of
             Inl e \<Rightarrow> Some (Inl (errNextConn e), \<lparr>buff = b, incoming = cs\<rparr>)
           | Inr d \<Rightarrow> read_loop isMessage cap (b @ d) cs))"

definition STUNConn_ReadFrom ::
    "(bytes \<Rightarrow> bool) \<Rightarrow> nat \<Rightarrow> STUNConn \<Rightarrow> ((frame_error + nat \<times> bytes) \<times> STUNConn) option" where
  "STUNConn_ReadFrom isMessage cap s = read_loop isMessage cap (buff s) (incoming s)"

text \<open>\<open>k\<close> successful reads in a row.\<close>

fun read_frames :: "(bytes \<Rightarrow> bool) \<Rightarrow> nat \<Rightarrow> nat \<Rightarrow> STUNConn \<Rightarrow> (bytes list \<times> STUNConn) option" where
  "read_frames im cap 0 s = Some ([], s)"
| "read_frames im cap (Suc k) s =
     (case STUNConn_ReadFrom im cap s of
        Some (Inr (n, d), s') \<Rightarrow> map_option (\<lambda>(ds, s''). (d # ds, s'')) (read_frames im cap k s')
      | _ \<Rightarrow> None)"

section \<open>Frames\<close>

text \<open>
  What the code relies on of \<open>stun.IsMessage\<close>: it looks at the 20 bytes of a STUN header only, and says no to anything
  shorter.
\<close>

definition header_test :: "(bytes \<Rightarrow> bool) \<Rightarrow> bool" where
  "header_test im \<longleftrightarrow> (\<forall>b. im b \<longrightarrow> 20 \<le> length b) \<and> (\<forall>b x. 20 \<le> length b \<longrightarrow> im (b @ x) = im b)"

text \<open>The frames in range: STUN messages whose size fits, and ChannelData with 5 to 65528 bytes.\<close>

definition stun_frame :: "(bytes \<Rightarrow> bool) \<Rightarrow> bytes \<Rightarrow> bool" where
  "stun_frame im f \<longleftrightarrow> im f \<and> length f = 20 + unat (get_u16 (drop 2 f)) \<and> length f < 65536
     \<and> \<not> isChannelNumberValid (get_u16 f)"

definition channel_frame :: "(bytes \<Rightarrow> bool) \<Rightarrow> bytes \<Rightarrow> bool" where
  "channel_frame im f \<longleftrightarrow> (\<exists>n d. f = Raw (cd_Encode (new_ChannelData n d)) \<and> isChannelNumberValid n
     \<and> 5 \<le> length d \<and> length d \<le> 65528) \<and> (\<forall>x. \<not> im (f @ x))"

lemma get_u16_prefix: "2 \<le> length b \<Longrightarrow> get_u16 (b @ x) = get_u16 b"
  by (auto simp: get_u16_def nth_append)

lemma get_u16_prefix2: "4 \<le> length b \<Longrightarrow> get_u16 (drop 2 (b @ x)) = get_u16 (drop 2 b)"
  using get_u16_prefix [of "drop 2 b" x] by simp

lemma header_testD:
  assumes "header_test im"
  shows "length b < 20 \<Longrightarrow> \<not> im b" and "20 \<le> length b \<Longrightarrow> im (b @ x) = im b"
  using assms by (auto simp: header_test_def not_less)

text \<open>A frame is recognised behind any further data, and every proper prefix of it is incomplete.\<close>

definition good_frame :: "(bytes \<Rightarrow> bool) \<Rightarrow> bytes \<Rightarrow> bool" where
  "good_frame im f \<longleftrightarrow> (\<forall>x. consumeSingleTURNFrame im (f @ x) = Inr (length f))
     \<and> (\<forall>p x. f = p @ x \<longrightarrow> x \<noteq> [] \<longrightarrow> consumeSingleTURNFrame im p = Inl errIncompleteTURNFrame)"

lemma unat_add_small: "unat x + unat y < 65536 \<Longrightarrow> unat (x + y) = unat x + unat (y :: u16)"
  using unat_add_lem [of x y] by simp

lemma stun_size:
  assumes "stun_frame im f"
  shows "unat (get_u16 (drop 2 f) + stunHeaderSize) = length f" and "20 \<le> length f" and "im f"
    and "\<not> isChannelNumberValid (get_u16 f)"
proof -
  note f = assms [unfolded stun_frame_def]
  from f have len: "length f = 20 + unat (get_u16 (drop 2 f))" and "length f < 65536" by blast+
  from f show "im f" and "\<not> isChannelNumberValid (get_u16 f)" by blast+
  show "20 \<le> length f" using len by linarith
  have h: "unat stunHeaderSize = 20" by (simp add: stunHeaderSize_def)
  then have "unat (get_u16 (drop 2 f)) + unat stunHeaderSize < 65536" using len \<open>length f < 65536\<close> by linarith
  from unat_add_small [OF this] h len show "unat (get_u16 (drop 2 f) + stunHeaderSize) = length f" by linarith
qed

lemma good_stun:
  assumes "header_test im" and "stun_frame im f"
  shows "good_frame im f"
  unfolding good_frame_def
proof (intro conjI allI impI)
  note im = header_testD [OF assms(1)]
  note len = stun_size [OF assms(2)]
  fix x
  show "consumeSingleTURNFrame im (f @ x) = Inr (length f)"
    using len im(2) [of f x] get_u16_prefix [of "drop 2 f" x]
    by (simp add: consumeSingleTURNFrame_def Let_def)
next
  note im = header_testD [OF assms(1)]
  note len = stun_size [OF assms(2)]
  fix p x
  assume f: "f = p @ x" and "x \<noteq> []"
  then have short: "length p < length f" by simp
  show "consumeSingleTURNFrame im p = Inl errIncompleteTURNFrame"
  proof (cases "9 \<le> length p")
    case True
    have num: "\<not> isChannelNumberValid (get_u16 p)" and sz: "unat (get_u16 (drop 2 p) + stunHeaderSize) = length f"
      using True len(1,4) get_u16_prefix [of p x] get_u16_prefix2 [of p x] by (simp_all add: f)
    show ?thesis
    proof (cases "length p < 20")
      case True
      with num im(1) [of p] show ?thesis
        by (simp add: consumeSingleTURNFrame_def ChannelNumber_Valid_def stunHeaderSize_def)
    next
      case False
      then have "im p" using im(2) [of p x] len(3) by (simp add: f)
      with sz short True show ?thesis by (simp add: consumeSingleTURNFrame_def Let_def)
    qed
  qed (simp add: consumeSingleTURNFrame_def)
qed

text \<open>The size the code computes for ChannelData in range is that of the padded message.\<close>

definition channel_size :: "u16 \<Rightarrow> u16" where
  "channel_size n =
     (let paddingOverflow = (n + channelDataPadding) mod channelDataPadding
      in (if paddingOverflow \<noteq> 0 then (n + channelDataPadding) - paddingOverflow else n)
         + of_nat channelDataHeaderSize)"

lemma padded_value: "nearestPaddedValueLength (4 + k) = (if k mod 4 = 0 then k else k + 4 - k mod 4) + 4"
proof -
  define q r where "q = k div 4" and "r = k mod 4"
  then have k: "k = 4 * q + r" and r: "r < 4" by simp_all
  have "(4 + k) div 4 = 1 + q" using r by (simp add: k)
  then show ?thesis using r by (auto simp: nearestPaddedValueLength_def Let_def k)
qed

lemma channel_size_value:
  assumes "k \<le> 65528"
  shows "unat (channel_size (of_nat k)) = nearestPaddedValueLength (4 + k)"
proof -
  let ?n = "of_nat k :: u16"
  let ?q = "if k mod 4 = 0 then k else k + 4 - k mod 4"
  let ?p = "if (?n + 4) mod 4 \<noteq> 0 then (?n + 4) - (?n + 4) mod 4 else ?n"
  have k: "unat ?n = k" using assms by (simp add: unat_of_nat)
  have k4: "unat (?n + 4) = k + 4" using assms k unat_add_small [of ?n 4] by simp
  have m: "unat ((?n + 4) mod 4) = k mod 4" using k4 by (simp add: unat_mod)
  then have m0: "(?n + 4) mod 4 = 0 \<longleftrightarrow> k mod 4 = 0" by (metis unat_eq_zero)
  have "(?n + 4) mod 4 \<le> ?n + 4" using k4 m by (simp add: word_le_nat_alt)
  from unat_sub [OF this] have sub: "unat ((?n + 4) - (?n + 4) mod 4) = k + 4 - k mod 4" using k4 m by simp
  have p: "unat ?p = ?q" using m0 sub k by simp
  have "?q < 65532"
  proof (cases "k mod 4 = 0")
    case False
    then have "k \<noteq> 65528" by auto
    with assms False show ?thesis by auto
  qed (use assms in simp)
  then have "unat ?p + unat (4 :: u16) < 65536" using p by simp
  from unat_add_small [OF this] p have "unat (?p + 4) = ?q + 4" by simp
  moreover have "(of_nat channelDataHeaderSize :: u16) = 4"
    by (simp add: channelDataHeaderSize_def channelDataNumberSize_def channelDataLengthSize_def)
  then have "channel_size ?n = ?p + 4"
    unfolding channel_size_def channelDataPadding_def Let_def by (simp only:)
  ultimately show ?thesis by (simp only: padded_value)
qed

lemma consume_channel:
  assumes "9 \<le> length p" and "\<not> im p" and "isChannelNumberValid (get_u16 p)"
  shows "consumeSingleTURNFrame im p =
     (if length p < unat (channel_size (get_u16 (drop 2 p))) then Inl errIncompleteTURNFrame
      else Inr (unat (channel_size (get_u16 (drop 2 p)))))"
  using assms by (simp add: consumeSingleTURNFrame_def channel_size_def ChannelNumber_Valid_def Let_def)

lemma good_channel:
  assumes "header_test im" and "channel_frame im f"
  shows "good_frame im f"
proof -
  from assms(2) obtain n d where f: "f = Raw (cd_Encode (new_ChannelData n d))" and n: "isChannelNumberValid n"
    and d: "5 \<le> length d" "length d \<le> 65528" and no: "\<not> im (f @ x)" for x
    by (auto simp: channel_frame_def)
  have len: "length f = nearestPaddedValueLength (4 + length d)" using cd_Encode_length [of "new_ChannelData n d"] by (simp add: f)
  have nine: "9 \<le> length f" using d nearestPadded_bounds(1) [of "4 + length d"] by (simp add: len)
  have num: "get_u16 f = n" and sz: "get_u16 (drop 2 f) = of_nat (length d)"
    by (simp_all add: f cd_Encode_Raw)
  have no_prefix: "\<not> im p" if "f = p @ x" for p x
    using no [of "[]"] header_testD(1) [OF assms(1), of p] header_testD(2) [OF assms(1), of p x] that by (cases "length p < 20") auto
  show ?thesis
    unfolding good_frame_def
  proof (intro conjI allI impI)
    fix x
    show "consumeSingleTURNFrame im (f @ x) = Inr (length f)"
      using consume_channel [of "f @ x" im] nine no [of x] n num sz get_u16_prefix [of f x] get_u16_prefix [of "drop 2 f" x]
        channel_size_value [OF d(2)] by (simp add: len)
  next
    fix p x
    assume fp: "f = p @ x" and "x \<noteq> []"
    then have short: "length p < length f" by simp
    show "consumeSingleTURNFrame im p = Inl errIncompleteTURNFrame"
    proof (cases "9 \<le> length p")
      case True
      have "get_u16 p = n" "get_u16 (drop 2 p) = of_nat (length d)"
        using True num sz get_u16_prefix [of p x] get_u16_prefix2 [of p x] by (simp_all add: fp)
      with consume_channel [of p im] True no_prefix [OF fp] n short channel_size_value [OF d(2)] show ?thesis by (simp add: len)
    qed (simp add: consumeSingleTURNFrame_def)
  qed
qed

section \<open>Reassembly\<close>

lemma read_loop_step:
  "consumeSingleTURNFrame im b = Inr n \<Longrightarrow> read_loop im cap b cs = Some (Inr (n, take cap (take n b)), \<lparr>buff = drop n b, incoming = cs\<rparr>)"
  "consumeSingleTURNFrame im b = Inl errIncompleteTURNFrame \<Longrightarrow> read_loop im cap b (Inr d # cs) = read_loop im cap (b @ d) cs"
  by (cases cs; simp)+

lemma read_one:
  assumes "good_frame im f" and "length f \<le> cap" and "b @ concat cs = f @ x"
  shows "\<exists>b' cs'. read_loop im cap b (map Inr cs) = Some (Inr (length f, f), \<lparr>buff = b', incoming = map Inr cs'\<rparr>)
     \<and> b' @ concat cs' = x"
  using assms(3)
proof (induction cs arbitrary: b)
  case Nil
  then have "consumeSingleTURNFrame im b = Inr (length f)" using assms(1) by (simp add: good_frame_def)
  from read_loop_step(1) [OF this, of cap "[]"] have "read_loop im cap b [] = Some (Inr (length f, f), \<lparr>buff = x, incoming = []\<rparr>)"
    using Nil assms(2) by (simp del: read_loop.simps)
  then show ?case by (intro exI [of _ x] exI [of _ "[]"]) (simp del: read_loop.simps)
next
  case (Cons d cs)
  show ?case
  proof (cases "length f \<le> length b")
    case True
    with Cons.prems obtain y where b: "b = f @ y" and x: "y @ concat (d # cs) = x"
      by (metis append_eq_append_conv_if append_eq_conv_conj append_take_drop_id)
    then have "consumeSingleTURNFrame im b = Inr (length f)" using assms(1) by (simp add: good_frame_def)
    from read_loop_step(1) [OF this, of cap "map Inr (d # cs)"] b x assms(2) show ?thesis
      by (intro exI [of _ y] exI [of _ "d # cs"]) simp
  next
    case False
    with Cons.prems obtain y where f: "f = b @ y" "y \<noteq> []"
      by (metis append_eq_append_conv2 append.right_neutral le_refl length_append not_le trans_le_add1)
    then have "consumeSingleTURNFrame im b = Inl errIncompleteTURNFrame" using assms(1) by (simp add: good_frame_def)
    from read_loop_step(2) [OF this, of cap d "map Inr cs"] Cons.IH [of "b @ d"] Cons.prems show ?thesis by simp
  qed
qed


text \<open>
  C23. The packetizer is transparent: if the peer sent a sequence of frames, each a STUN message below 64 KiB or a ChannelData
  message with 5 to 65528 bytes of data that does not pass for a STUN message, and each within the caller's buffer,
  then however the stream is cut into reads, reading returns exactly these frames in this order, each complete and alone, and
  leaves nothing behind. \<open>header_test\<close> is what is documented of \<open>stun.IsMessage\<close>: it looks at the 20 bytes of a header.
\<close>

theorem stream_reassembled:
  assumes "header_test im" and "\<forall>f \<in> set fs. (stun_frame im f \<or> channel_frame im f) \<and> length f \<le> cap"
    and "concat cs = concat fs"
  shows "\<exists>s'. read_frames im cap (length fs) (NewSTUNConn (map Inr cs)) = Some (fs, s')
     \<and> buff s' = [] \<and> concat (map projr (incoming s')) = []"
proof -
  have "\<exists>b' cs'. read_frames im cap (length fs) \<lparr>buff = b, incoming = map Inr cs\<rparr> = Some (fs, \<lparr>buff = b', incoming = map Inr cs'\<rparr>)
      \<and> b' @ concat cs' = []"
    if "\<forall>f \<in> set fs. good_frame im f \<and> length f \<le> cap" "b @ concat cs = concat fs" for b cs
    using that
  proof (induction fs arbitrary: b cs)
    case Nil
    then show ?case by auto
  next
    case (Cons f fs)
    from read_one [of im f cap b cs "concat fs"] Cons.prems obtain b' cs' where
      r: "read_loop im cap b (map Inr cs) = Some (Inr (length f, f), \<lparr>buff = b', incoming = map Inr cs'\<rparr>)"
        "b' @ concat cs' = concat fs" by auto
    with Cons.IH [of b' cs'] Cons.prems show ?case by (auto simp: STUNConn_ReadFrom_def)
  qed
  from this [of "[]" cs] assms good_stun [OF assms(1)] good_channel [OF assms(1)] obtain b' cs' where
    "read_frames im cap (length fs) \<lparr>buff = [], incoming = map Inr cs\<rparr> = Some (fs, \<lparr>buff = b', incoming = map Inr cs'\<rparr>)"
    "b' @ concat cs' = []" by auto
  then show ?thesis by (auto simp: NewSTUNConn_def comp_def)
qed

abbreviation no_stun :: "bytes \<Rightarrow> bool" where "no_stun \<equiv> (\<lambda>_. False)"

text \<open>The documented test: a header of 20 bytes with the magic cookie of STUN.\<close>

definition cookie_test :: "bytes \<Rightarrow> bool" where
  "cookie_test b \<longleftrightarrow> 20 \<le> length b \<and> get_u32 (drop 4 b) = 0x2112A442"

lemma get_u32_prefix: "4 \<le> length b \<Longrightarrow> get_u32 (b @ x) = get_u32 b"
  by (auto simp: get_u32_def nth_append)

lemma cookie_header_test: "header_test cookie_test"
  using get_u32_prefix [of "drop 4 b" x for b x] by (auto simp: header_test_def cookie_test_def)

theorem stream_reassembled_witness:
  "\<exists>s'. read_frames cookie_test 1600 2 (NewSTUNConn (map Inr [[0x40, 0, 0, 5, 1, 2], [3, 4, 5, 0, 0, 0, 0, 1, 0, 0, 0x21],
         [0x12, 0xA4, 0x42, 1, 2, 3, 4, 5, 6, 7], [8, 9, 10, 11, 12]])) =
     Some ([[0x40, 0, 0, 5, 1, 2, 3, 4, 5, 0, 0, 0], [0, 1, 0, 0, 0x21, 0x12, 0xA4, 0x42, 1, 2, 3, 4, 5, 6, 7, 8, 9, 10, 11, 12]], s') \<and> buff s' = []"
proof -
  let ?f = "[0x40, 0, 0, 5, 1, 2, 3, 4, 5, 0, 0, 0] :: bytes"
  let ?g = "[0, 1, 0, 0, 0x21, 0x12, 0xA4, 0x42, 1, 2, 3, 4, 5, 6, 7, 8, 9, 10, 11, 12] :: bytes"
  have enc: "?f = Raw (cd_Encode (new_ChannelData 0x4000 [1, 2, 3, 4, 5]))" and valid: "isChannelNumberValid 0x4000" by code_simp+
  have "get_u32 (drop 4 (?f @ x)) = get_u32 (drop 4 ?f)" for x using get_u32_prefix [of "drop 4 ?f" x] by simp
  moreover have "get_u32 (drop 4 ?f) \<noteq> 0x2112A442" by code_simp
  ultimately have no: "\<not> cookie_test (?f @ x)" for x unfolding cookie_test_def by metis
  have "\<exists>n d. ?f = Raw (cd_Encode (new_ChannelData n d)) \<and> isChannelNumberValid n \<and> 5 \<le> length d \<and> length d \<le> 65528"
    using enc valid by (intro exI [of _ "0x4000"] exI [of _ "[1, 2, 3, 4, 5]"]) simp
  with no have "channel_frame cookie_test ?f" unfolding channel_frame_def by blast
  moreover have "stun_frame cookie_test ?g" unfolding stun_frame_def cookie_test_def by code_simp
  ultimately show ?thesis
    using stream_reassembled [OF cookie_header_test, of "[?f, ?g]" 1600 "[[0x40, 0, 0, 5, 1, 2], [3, 4, 5, 0, 0, 0, 0, 1, 0, 0, 0x21],
         [0x12, 0xA4, 0x42, 1, 2, 3, 4, 5, 6, 7], [8, 9, 10, 11, 12]]"]
    by (auto simp: numeral_2_eq_2)
qed

text \<open>A complete ChannelData message whose data begins with the magic cookie is taken for a longer STUN message.\<close>

lemma cookie_data_misread:
  "consumeSingleTURNFrame cookie_test (Raw (cd_Encode (new_ChannelData 0x4000 ([0x21, 0x12, 0xA4, 0x42] @ replicate 12 0)))) = Inl errIncompleteTURNFrame"
  by code_simp

text \<open>
  Outside that range the stream stalls or loses step. A complete ChannelData message with at most four bytes of data is held
  back until more bytes arrive, because fewer than nine bytes always count as incomplete; and a ChannelData header
  with length 65529 to 65535 is taken for a frame of at most four bytes, because the padded size wraps around in 16 bits, so
  the rest of the message is read as further frames.
\<close>

theorem frames_out_of_range:
  "(length d \<le> 4 \<longrightarrow> consumeSingleTURNFrame im (Raw (cd_Encode (new_ChannelData n d))) = Inl errIncompleteTURNFrame)
   \<and> (65529 \<le> k \<and> k < 65536 \<and> isChannelNumberValid n \<and> 5 \<le> length x \<and> \<not> im (put_u16 n @ put_u16 (of_nat k) @ x) \<longrightarrow>
        (\<exists>j\<le>4. consumeSingleTURNFrame im (put_u16 n @ put_u16 (of_nat k) @ x) = Inr j))"
proof (intro conjI impI)
  assume "length d \<le> 4"
  moreover have "length (Raw (cd_Encode (new_ChannelData n d))) < 4 + length d + 4"
    using cd_Encode_length [of "new_ChannelData n d"] nearestPadded_bounds(2) [of "4 + length d"] by simp
  moreover have "length d = 4 \<Longrightarrow> length (Raw (cd_Encode (new_ChannelData n d))) = 8"
    using cd_Encode_length [of "new_ChannelData n d"] by (simp add: nearestPaddedValueLength_def)
  moreover have "length d < 4 \<Longrightarrow> length (Raw (cd_Encode (new_ChannelData n d))) \<le> 8"
    using cd_Encode_length [of "new_ChannelData n d"] by (auto simp: nearestPaddedValueLength_def Let_def)
  ultimately have "length (Raw (cd_Encode (new_ChannelData n d))) < 9" by linarith
  then show "consumeSingleTURNFrame im (Raw (cd_Encode (new_ChannelData n d))) = Inl errIncompleteTURNFrame"
    by (simp add: consumeSingleTURNFrame_def)
next
  assume a: "65529 \<le> k \<and> k < 65536 \<and> isChannelNumberValid n \<and> 5 \<le> length x \<and> \<not> im (put_u16 n @ put_u16 (of_nat k) @ x)"
  then have "k \<in> {65529, 65530, 65531, 65532, 65533, 65534, 65535}" by auto
  moreover have "\<forall>n \<in> {65529, 65530, 65531, 65532, 65533, 65534, 65535}. unat (channel_size n) \<le> 4"
    by code_simp
  ultimately have "unat (channel_size (of_nat k)) \<le> 4" by auto
  with a consume_channel [of "put_u16 n @ put_u16 (of_nat k) @ x" im]
  show "\<exists>j\<le>4. consumeSingleTURNFrame im (put_u16 n @ put_u16 (of_nat k) @ x) = Inr j" by simp
qed

theorem frames_out_of_range_witness:
  "consumeSingleTURNFrame no_stun (Raw (cd_Encode (new_ChannelData 0x4000 [1, 2]))) = Inl errIncompleteTURNFrame
   \<and> (\<exists>j\<le>4. consumeSingleTURNFrame no_stun (put_u16 0x4000 @ put_u16 (of_nat 65533) @ replicate 5 0) = Inr j)"
proof -
  have "isChannelNumberValid 0x4000" by code_simp
  then show ?thesis using frames_out_of_range [of "[1, 2]" no_stun "0x4000" 65533 "replicate 5 0"] by simp
qed

end
