(* ===== verification/TransportReplay.thy ===== *)
theory TransportReplay
  imports Prelude "HOL-Library.Signed_Division"
begin

text \<open>
  Replay protection of \<open>pion-transport/replaydetector\<close>: the fixed-size bit set of \<open>fixedbig.go\<close> and the two
  sliding-window detectors of \<open>replaydetector.go\<close>. Sequence numbers are 64-bit words with the wrap-around of the
  source. The detector without wrapping is refined to the set of numbers it has accepted.
\<close>

section \<open>The bit set\<close>

record fixedBigInt =
  fb_bits :: "u64 list"
  fb_n :: nat
  fb_msbMask :: u64

definition newFixedBigInt :: "nat \<Rightarrow> fixedBigInt" where
  "newFixedBigInt n =
     (let chunkSize = (n + 63) div 64; chunkSize = (if chunkSize = 0 then 1 else chunkSize)
      in \<lparr>fb_bits = replicate chunkSize 0, fb_n = n, fb_msbMask = push_bit (64 - n mod 64) 1 - 1\<rparr>)"

text \<open>One round of the loop of \<open>Lsh\<close>: the word at \<open>i\<close> is replaced in place; a shift by 64 or more gives 0, as in Go.\<close>

definition Lsh_word :: "nat \<Rightarrow> u64 list \<Rightarrow> nat \<Rightarrow> u64" where
  "Lsh_word n bits i =
     (let nChunk = n div 64; nN = n mod 64;
          carry = (if i \<ge> nChunk
                   then push_bit nN (bits ! (i - nChunk))
                     OR (if i \<ge> nChunk + 1 then drop_bit (64 - nN) (bits ! (i - nChunk - 1)) else 0)
                   else 0)
      in push_bit n (bits ! i) OR carry)"

definition Lsh :: "nat \<Rightarrow> fixedBigInt \<Rightarrow> fixedBigInt" where
  "Lsh n s =
     (if n = 0 then s
      else
        let bits = foldl (\<lambda>bits i. bits[i := Lsh_word n bits i]) (fb_bits s) (rev [0..<length (fb_bits s)]);
            l = length bits - 1
        in s\<lparr>fb_bits := bits[l := bits ! l AND fb_msbMask s]\<rparr>)"

definition Bit :: "nat \<Rightarrow> fixedBigInt \<Rightarrow> bool" where
  "Bit i s = (if i \<ge> fb_n s then False else fb_bits s ! (i div 64) AND push_bit (i mod 64) 1 \<noteq> 0)"

definition SetBit :: "nat \<Rightarrow> fixedBigInt \<Rightarrow> fixedBigInt" where
  "SetBit i s =
     (if i \<ge> fb_n s then s
      else s\<lparr>fb_bits := (fb_bits s)[i div 64 := fb_bits s ! (i div 64) OR push_bit (i mod 64) 1]\<rparr>)"

text \<open>\<open>%016X\<close> of every word, the most significant one first.\<close>

definition hex_digit :: "nat \<Rightarrow> char" where
  "hex_digit d = (if d < 10 then char_of (48 + d) else char_of (55 + d))"

definition hex16 :: "u64 \<Rightarrow> string" where
  "hex16 w = map (\<lambda>i. hex_digit (unat (drop_bit (4 * i) w AND 15))) (rev [0..<16])"

definition fb_String :: "fixedBigInt \<Rightarrow> string" where
  "fb_String s = foldl (\<lambda>out i. out @ hex16 (fb_bits s ! i)) [] (rev [0..<length (fb_bits s)])"

section \<open>The detectors\<close>

text \<open>
  \<open>Check\<close> returns a verdict and a closure \<open>accept\<close>; the closure is an operation of its own on the detector the
  caller holds. \<open>None\<close> is the run-time panic of a division by a zero \<open>maxSeq\<close>.
\<close>

record slidingWindowDetector =
  sd_latestSeq :: u64
  sd_maxSeq :: u64
  sd_windowSize :: nat
  sd_mask :: fixedBigInt

definition sd_New :: "nat \<Rightarrow> u64 \<Rightarrow> slidingWindowDetector" where
  "sd_New windowSize maxSeq =
     \<lparr>sd_latestSeq = 0, sd_maxSeq = maxSeq, sd_windowSize = windowSize, sd_mask = newFixedBigInt windowSize\<rparr>"

definition sd_Check :: "u64 \<Rightarrow> slidingWindowDetector \<Rightarrow> bool" where
  "sd_Check seq d =
     (if seq > sd_maxSeq d then False
      else if seq \<le> sd_latestSeq d \<and> sd_latestSeq d \<ge> of_nat (sd_windowSize d) + seq then False
      else if seq \<le> sd_latestSeq d \<and> Bit (unat (sd_latestSeq d - seq)) (sd_mask d) then False
      else True)"

definition sd_accept :: "u64 \<Rightarrow> slidingWindowDetector \<Rightarrow> slidingWindowDetector option" where
  "sd_accept seq d =
     (let d' = (if seq > sd_latestSeq d
                then d\<lparr>sd_mask := Lsh (unat (seq - sd_latestSeq d)) (sd_mask d), sd_latestSeq := seq\<rparr>
                else d)
      in if sd_maxSeq d' = 0 then None
         else let diff = (sd_latestSeq d' - seq) mod sd_maxSeq d'
              in Some (d'\<lparr>sd_mask := SetBit (unat diff) (sd_mask d')\<rparr>))"

record wrappedSlidingWindowDetector =
  wd_latestSeq :: u64
  wd_maxSeq :: u64
  wd_windowSize :: nat
  wd_mask :: fixedBigInt
  wd_init :: bool

definition WithWrap :: "nat \<Rightarrow> u64 \<Rightarrow> wrappedSlidingWindowDetector" where
  "WithWrap windowSize maxSeq =
     \<lparr>wd_latestSeq = 0, wd_maxSeq = maxSeq, wd_windowSize = windowSize, wd_mask = newFixedBigInt windowSize,
      wd_init = False\<rparr>"

text \<open>The signed distance behind the head; \<open>int64\<close> is a 64-bit word read by \<open>sint\<close>, and \<open>/\<close> truncates.\<close>

definition wd_diff :: "u64 \<Rightarrow> wrappedSlidingWindowDetector \<Rightarrow> u64" where
  "wd_diff seq d =
     (let diff = wd_latestSeq d - seq in
      if sint diff > sint (wd_maxSeq d) sdiv 2 then diff - (wd_maxSeq d + 1)
      else if sint diff \<le> sint (- wd_maxSeq d) sdiv 2 then diff + (wd_maxSeq d + 1)
      else diff)"

definition wd_initialise :: "u64 \<Rightarrow> wrappedSlidingWindowDetector \<Rightarrow> wrappedSlidingWindowDetector" where
  "wd_initialise seq d =
     (if wd_init d then d
      else d\<lparr>wd_latestSeq := (if seq \<noteq> 0 then seq - 1 else wd_maxSeq d), wd_init := True\<rparr>)"

text \<open>\<open>Check\<close> changes the detector on its first call; the verdict carries the distance the closure has captured.\<close>

definition wd_Check :: "u64 \<Rightarrow> wrappedSlidingWindowDetector \<Rightarrow> u64 option \<times> wrappedSlidingWindowDetector" where
  "wd_Check seq d =
     (if seq > wd_maxSeq d then (None, d)
      else
        let d = wd_initialise seq d; diff = wd_diff seq d
        in if sint diff \<ge> sint (of_nat (wd_windowSize d) :: u64) then (None, d)
           else if sint diff \<ge> 0 \<and> Bit (unat diff) (wd_mask d) then (None, d)
           else (Some diff, d))"

definition wd_accept :: "u64 \<Rightarrow> u64 \<Rightarrow> wrappedSlidingWindowDetector \<Rightarrow> wrappedSlidingWindowDetector" where
  "wd_accept diff seq d =
     (let d' = (if sint diff < 0 then d\<lparr>wd_mask := Lsh (unat (- diff)) (wd_mask d), wd_latestSeq := seq\<rparr> else d)
      in d'\<lparr>wd_mask := SetBit (unat (wd_latestSeq d' - seq)) (wd_mask d')\<rparr>)"

section \<open>What the bit set holds\<close>

definition fb_val :: "u64 list \<Rightarrow> nat \<Rightarrow> bool" where
  "fb_val bits j = bit (bits ! (j div 64)) (j mod 64)"

definition fb_wf :: "fixedBigInt \<Rightarrow> bool" where
  "fb_wf s \<longleftrightarrow> length (fb_bits s) = max 1 ((fb_n s + 63) div 64) \<and> fb_msbMask s = mask (64 - fb_n s mod 64)"

lemma Bit_val: "Bit i s \<longleftrightarrow> i < fb_n s \<and> fb_val (fb_bits s) i"
  by (auto simp: Bit_def fb_val_def and_exp_eq_0_iff_not_bit)

lemma newFixedBigInt_wf: "fb_wf (newFixedBigInt n)" "fb_n (newFixedBigInt n) = n"
  by (auto simp: newFixedBigInt_def fb_wf_def Let_def mask_eq_exp_minus_1)

lemma fb_index: "fb_wf s \<Longrightarrow> i < fb_n s \<Longrightarrow> i div 64 < length (fb_bits s)"
  by (auto simp: fb_wf_def)

lemma newFixedBigInt_empty: "\<not> Bit i (newFixedBigInt n)"
proof
  assume b: "Bit i (newFixedBigInt n)"
  then have "i < n" by (simp add: Bit_val newFixedBigInt_wf)
  with fb_index [OF newFixedBigInt_wf(1), of i n] b show False
    by (auto simp: Bit_val fb_val_def newFixedBigInt_def Let_def split: if_splits)
qed

lemma SetBit_wf: "fb_wf s \<Longrightarrow> fb_wf (SetBit i s)" "fb_n (SetBit i s) = fb_n s"
  by (auto simp: SetBit_def fb_wf_def)

lemma Bit_SetBit: "fb_wf s \<Longrightarrow> Bit j (SetBit i s) \<longleftrightarrow> Bit j s \<or> j = i \<and> i < fb_n s"
proof -
  assume wf: "fb_wf s"
  show ?thesis
  proof (cases "i < fb_n s")
    case True
    have "j = i" if "j div 64 = i div 64" "j mod 64 = i mod 64"
      using that by (metis div_mult_mod_eq)
    with True fb_index [OF wf True] show ?thesis
      by (auto simp: Bit_val SetBit_def fb_val_def nth_list_update_any bit_simps)
  qed (simp add: SetBit_def Bit_val)
qed

text \<open>The loop replaces each word by a function of the words at or below it, so it computes on the old contents.\<close>

lemma foldl_inplace:
  assumes "\<And>xs ys i. \<forall>j\<le>i. xs ! j = ys ! j \<Longrightarrow> f xs i = f ys i" and "m \<le> length xs" and "i < length xs"
  shows "foldl (\<lambda>xs i. xs[i := f xs i]) xs (rev [0..<m]) ! i = (if i < m then f xs i else xs ! i)"
  using assms(2,3)
proof (induction m arbitrary: xs)
  case 0
  then show ?case by simp
next
  case (Suc m)
  have "f (xs[m := f xs m]) i = f xs i" if "i < m"
    by (rule assms(1)) (use that in auto)
  with Suc show ?case by (auto simp: nth_list_update less_Suc_eq)
qed

lemma length_foldl_inplace [simp]: "length (foldl (\<lambda>xs i. xs[i := f xs i]) xs is) = length xs"
  by (induction "is" arbitrary: xs) auto

lemma Lsh_word_local: "\<forall>j\<le>i. xs ! j = ys ! j \<Longrightarrow> Lsh_word n xs i = Lsh_word n ys i"
  by (auto simp: Lsh_word_def Let_def)

lemma Lsh_wf: "fb_wf s \<Longrightarrow> fb_wf (Lsh n s)" "fb_n (Lsh n s) = fb_n s"
  by (auto simp: Lsh_def fb_wf_def Let_def)

lemma div_mod_64: "q < 64 \<Longrightarrow> (64 * a + q) div 64 = a" "q < 64 \<Longrightarrow> (64 * a + q) mod 64 = q" for a q :: nat
  by simp_all

text \<open>The word that the loop leaves at \<open>i\<close>, bit by bit.\<close>

lemma bit_Lsh_word:
  assumes "p < 64" and "0 < n"
  shows "bit (Lsh_word n bits i) p \<longleftrightarrow> n \<le> 64 * i + p \<and> fb_val bits (64 * i + p - n)"
proof -
  define c r where "c = n div 64" and "r = n mod 64"
  have n: "n = 64 * c + r" "r < 64" by (simp_all add: c_def r_def)
  have body: "bit (Lsh_word n bits i) p \<longleftrightarrow>
      n \<le> p \<and> bit (bits ! i) (p - n) \<or> c \<le> i \<and> r \<le> p \<and> bit (bits ! (i - c)) (p - r)
      \<or> c + 1 \<le> i \<and> bit (bits ! (i - c - 1)) (64 - r + p)"
    using assms by (auto simp: Lsh_word_def Let_def bit_simps simp flip: c_def r_def)
  consider "i < c" | "c \<le> i" "r \<le> p" | "c = i" "p < r" | "c < i" "p < r" by linarith
  then show ?thesis
  proof cases
    case 1
    then have "\<not> n \<le> 64 * i + p" and "\<not> n \<le> p" using n assms by linarith+
    with 1 body show ?thesis by simp
  next
    case 2
    have idx: "64 * i + p - n = 64 * (i - c) + (p - r)" using 2 n by simp
    have "(64 * (i - c) + (p - r)) div 64 = i - c" "(64 * (i - c) + (p - r)) mod 64 = p - r"
      by (rule div_mod_64, use assms in linarith)+
    moreover have "n \<le> 64 * i + p" using 2 n by linarith
    ultimately have rhs: "n \<le> 64 * i + p \<and> fb_val bits (64 * i + p - n) \<longleftrightarrow> bit (bits ! (i - c)) (p - r)"
      unfolding idx fb_val_def by simp
    have no: "\<not> bit (bits ! (i - c - 1)) (64 - r + p)" using 2 n by (auto dest: bit_imp_le_length)
    show ?thesis
    proof (cases "n \<le> p")
      case True
      then have "c = 0" "n = r" using n assms(1) by (cases c; simp)+
      with body rhs no 2 show ?thesis by simp
    next
      case False
      with body rhs no 2 show ?thesis by simp
    qed
  next
    case 3
    then have "\<not> n \<le> 64 * i + p" and "\<not> n \<le> p" using n assms by linarith+
    with 3 body show ?thesis by simp
  next
    case 4
    have idx: "64 * i + p - n = 64 * (i - c - 1) + (64 - r + p)" using 4 n by simp
    have "(64 * (i - c - 1) + (64 - r + p)) div 64 = i - c - 1" "(64 * (i - c - 1) + (64 - r + p)) mod 64 = 64 - r + p"
      by (rule div_mod_64, use 4 n in linarith)+
    moreover have "n \<le> 64 * i + p" and "\<not> n \<le> p" using 4 n assms by linarith+
    ultimately show ?thesis using body 4 by (simp add: fb_val_def idx)
  qed
qed


text \<open>
  \<open>Lsh\<close> shifts the window. Its mask for the last word keeps \<open>64 - n mod 64\<close> bits where the window has \<open>n mod 64\<close>
  of them there, so this holds for sizes with at most 32 bits in the last word.
\<close>

definition mask_covers :: "nat \<Rightarrow> bool" where
  "mask_covers n \<longleftrightarrow> n mod 64 \<le> 32"

lemma last_word_kept:
  assumes "mask_covers n" and "j < n" and "j div 64 = max 1 ((n + 63) div 64) - 1"
  shows "j mod 64 < 64 - n mod 64"
proof (cases "n mod 64 = 0")
  case False
  define k where "k = n div 64"
  have n: "n = 64 * k + n mod 64" by (simp add: k_def)
  have "n mod 64 < 64" by simp
  with False n have "(n + 63) div 64 = k + 1" by linarith
  with assms(3) have "j div 64 = k" by simp
  then have "j mod 64 < n mod 64" using assms(2) n by (metis div_mult_mod_eq mult.commute nat_add_left_cancel_less)
  with assms(1) show ?thesis by (simp add: mask_covers_def)
qed simp

lemma Bit_Lsh:
  assumes wf: "fb_wf s" and ok: "mask_covers (fb_n s)" and j: "j < fb_n s"
  shows "Bit j (Lsh n s) \<longleftrightarrow> n \<le> j \<and> Bit (j - n) s"
proof (cases "n = 0")
  case True
  then show ?thesis by (simp add: Lsh_def)
next
  case False
  let ?L = "length (fb_bits s)" and ?i = "j div 64" and ?p = "j mod 64"
  let ?bs = "foldl (\<lambda>bits i. bits[i := Lsh_word n bits i]) (fb_bits s) (rev [0..<?L])"
  have i: "?i < ?L" using fb_index [OF wf j] .
  have w: "?bs ! ?i = Lsh_word n (fb_bits s) ?i"
    using foldl_inplace [of "Lsh_word n" ?L "fb_bits s" ?i] Lsh_word_local [of _ _ _ n] i by simp
  have v: "bit (?bs ! ?i) ?p \<longleftrightarrow> n \<le> j \<and> fb_val (fb_bits s) (j - n)"
    unfolding w using bit_Lsh_word [of ?p n "fb_bits s" ?i] False by simp
  have last: "?p < 64 - fb_n s mod 64" if "?i = ?L - 1"
    by (rule last_word_kept [OF ok j]) (use that wf in \<open>simp add: fb_wf_def\<close>)
  have "Bit j (Lsh n s) \<longleftrightarrow> bit (?bs ! ?i) ?p"
    using False j i last wf by (auto simp: Bit_val Lsh_def Let_def fb_val_def nth_list_update_any bit_simps fb_wf_def)
  also have "\<dots> \<longleftrightarrow> n \<le> j \<and> Bit (j - n) s" using v j by (auto simp: Bit_val)
  finally show ?thesis .
qed

section \<open>The detector and the set of accepted numbers\<close>

text \<open>
  What the detector promises: a number is let through if it is not above the maximum and either newer than every
  number accepted so far or inside the window and never accepted.
\<close>

record replay_spec =
  rs_latest :: nat
  rs_seen :: "nat list"

definition spec_Check :: "nat \<Rightarrow> nat \<Rightarrow> nat \<Rightarrow> replay_spec \<Rightarrow> bool" where
  "spec_Check w m s r \<longleftrightarrow> s \<le> m \<and> (rs_latest r < s \<or> rs_latest r < s + w \<and> s \<notin> set (rs_seen r))"

definition spec_accept :: "nat \<Rightarrow> replay_spec \<Rightarrow> replay_spec" where
  "spec_accept s r = r\<lparr>rs_latest := max (rs_latest r) s, rs_seen := s # rs_seen r\<rparr>"

definition sd_rel :: "slidingWindowDetector \<Rightarrow> replay_spec \<Rightarrow> bool" where
  "sd_rel d r \<longleftrightarrow> unat (sd_latestSeq d) = rs_latest r \<and> sd_latestSeq d \<le> sd_maxSeq d
     \<and> (\<forall>a \<in> set (rs_seen r). a \<le> rs_latest r)
     \<and> fb_wf (sd_mask d) \<and> fb_n (sd_mask d) = sd_windowSize d
     \<and> (\<forall>j. j < sd_windowSize d \<longrightarrow> (Bit j (sd_mask d) \<longleftrightarrow> j \<le> rs_latest r \<and> rs_latest r - j \<in> set (rs_seen r)))"

text \<open>The sizes the detector is used with: \<open>uint64\<close> has room for the window above the maximum.\<close>

definition sd_config :: "nat \<Rightarrow> u64 \<Rightarrow> bool" where
  "sd_config w m \<longleftrightarrow> mask_covers w \<and> w \<le> unat m \<and> m \<noteq> 0 \<and> unat m + w < 2 ^ 64"

lemma sd_New_rel: "sd_rel (sd_New w m) \<lparr>rs_latest = 0, rs_seen = []\<rparr>"
  by (simp add: sd_rel_def sd_New_def newFixedBigInt_wf newFixedBigInt_empty)

lemma sd_Check_spec:
  assumes c: "sd_config (sd_windowSize d) (sd_maxSeq d)" and r: "sd_rel d r"
  shows "sd_Check seq d \<longleftrightarrow> spec_Check (sd_windowSize d) (unat (sd_maxSeq d)) (unat seq) r"
proof (cases "seq \<le> sd_latestSeq d")
  case True
  then have le: "unat seq \<le> rs_latest r" "unat (sd_latestSeq d - seq) = rs_latest r - unat seq" "seq \<le> sd_maxSeq d"
    using r by (auto simp: sd_rel_def word_le_nat_alt unat_sub)
  have lm: "rs_latest r \<le> unat (sd_maxSeq d)" using r by (auto simp: sd_rel_def word_le_nat_alt)
  have "unat (of_nat (sd_windowSize d) + seq) = sd_windowSize d + unat seq"
    using c le(1) lm by (simp add: sd_config_def unat_word_ariths unsigned_of_nat take_bit_eq_mod)
  then have "sd_latestSeq d \<ge> of_nat (sd_windowSize d) + seq \<longleftrightarrow> sd_windowSize d + unat seq \<le> rs_latest r"
    using r by (simp add: word_le_nat_alt sd_rel_def)
  moreover have "Bit (rs_latest r - unat seq) (sd_mask d) \<longleftrightarrow> unat seq \<in> set (rs_seen r)"
    if "rs_latest r - unat seq < sd_windowSize d"
    using r that le(1) by (simp add: sd_rel_def)
  ultimately show ?thesis using True le lm by (auto simp: sd_Check_def spec_Check_def not_less)
next
  case False
  then show ?thesis using r by (auto simp: sd_Check_def spec_Check_def sd_rel_def word_le_nat_alt word_less_nat_alt)
qed


lemma sd_accept_fields: "sd_accept seq d = Some d' \<Longrightarrow> sd_windowSize d' = sd_windowSize d \<and> sd_maxSeq d' = sd_maxSeq d"
  by (auto simp: sd_accept_def Let_def split: if_splits)

lemma sd_accept_new:
  assumes r: "sd_rel d r" and c: "sd_config (sd_windowSize d) (sd_maxSeq d)" and m: "seq \<le> sd_maxSeq d"
    and new: "sd_latestSeq d < seq"
  shows "\<exists>d'. sd_accept seq d = Some d' \<and> sd_rel d' (spec_accept (unat seq) r)"
proof -
  let ?k = "unat (seq - sd_latestSeq d)" and ?w = "sd_windowSize d"
  have k: "?k = unat seq - rs_latest r" "rs_latest r < unat seq"
    using new r by (auto simp: unat_sub word_le_nat_alt word_less_nat_alt sd_rel_def)
  have mk: "fb_wf (sd_mask d)" "fb_n (sd_mask d) = ?w" "mask_covers (fb_n (sd_mask d))"
    using r c by (auto simp: sd_rel_def sd_config_def)
  let ?d = "d\<lparr>sd_mask := SetBit 0 (Lsh ?k (sd_mask d)), sd_latestSeq := seq\<rparr>"
  have "sd_accept seq d = Some ?d" using new c by (simp add: sd_accept_def Let_def sd_config_def)
  moreover have "Bit j (SetBit 0 (Lsh ?k (sd_mask d))) \<longleftrightarrow> j \<le> unat seq \<and> (unat seq - j = unat seq \<or> unat seq - j \<in> set (rs_seen r))"
    if j: "j < ?w" for j
  proof -
    have "Bit j (SetBit 0 (Lsh ?k (sd_mask d))) \<longleftrightarrow> (?k \<le> j \<and> Bit (j - ?k) (sd_mask d)) \<or> j = 0"
      using mk j by (auto simp: Bit_SetBit Lsh_wf Bit_Lsh)
    also have "Bit (j - ?k) (sd_mask d) \<longleftrightarrow> j - ?k \<le> rs_latest r \<and> rs_latest r - (j - ?k) \<in> set (rs_seen r)"
      using r j by (simp add: sd_rel_def)
    finally show ?thesis using k r by (force simp: sd_rel_def)
  qed
  ultimately show ?thesis using r k mk m
    by (auto simp: sd_rel_def spec_accept_def SetBit_wf Lsh_wf max_def)
qed

lemma sd_accept_late:
  assumes r: "sd_rel d r" and c: "sd_config (sd_windowSize d) (sd_maxSeq d)"
    and late: "seq \<le> sd_latestSeq d" and w: "rs_latest r < unat seq + sd_windowSize d"
  shows "\<exists>d'. sd_accept seq d = Some d' \<and> sd_rel d' (spec_accept (unat seq) r)"
proof -
  let ?k = "rs_latest r - unat seq"
  have k: "unat (sd_latestSeq d - seq) = ?k" "unat seq \<le> rs_latest r"
    using late r by (auto simp: unat_sub word_le_nat_alt sd_rel_def)
  have mk: "fb_wf (sd_mask d)" "fb_n (sd_mask d) = sd_windowSize d" using r by (auto simp: sd_rel_def)
  have "?k < unat (sd_maxSeq d)" using c w k unfolding sd_config_def by linarith
  then have "unat ((sd_latestSeq d - seq) mod sd_maxSeq d) = ?k" using k by (simp add: unat_mod)
  then have "sd_accept seq d = Some (d\<lparr>sd_mask := SetBit ?k (sd_mask d)\<rparr>)"
    using late c by (simp add: sd_accept_def Let_def sd_config_def not_less)
  moreover have "rs_latest r - j = unat seq \<longleftrightarrow> j = ?k" if "j \<le> rs_latest r" for j using that k by auto
  ultimately show ?thesis using r mk k w
    by (auto simp: sd_rel_def spec_accept_def SetBit_wf Bit_SetBit max_def)
qed

text \<open>A caller that accepts what passes the check.\<close>

definition sd_step :: "slidingWindowDetector \<Rightarrow> u64 \<Rightarrow> (bool \<times> slidingWindowDetector) option" where
  "sd_step d seq = (if sd_Check seq d then map_option (Pair True) (sd_accept seq d) else Some (False, d))"

definition spec_step :: "nat \<Rightarrow> nat \<Rightarrow> replay_spec \<Rightarrow> u64 \<Rightarrow> bool \<times> replay_spec" where
  "spec_step w m r seq = (if spec_Check w m (unat seq) r then (True, spec_accept (unat seq) r) else (False, r))"

definition sd_sim :: "nat \<Rightarrow> u64 \<Rightarrow> slidingWindowDetector \<Rightarrow> replay_spec \<Rightarrow> bool" where
  "sd_sim w m d r \<longleftrightarrow> sd_config w m \<and> sd_windowSize d = w \<and> sd_maxSeq d = m \<and> sd_rel d r"

lemma sd_step_sim:
  assumes "sd_sim w m d r"
  shows "\<exists>d'. sd_step d seq = Some (fst (spec_step w (unat m) r seq), d') \<and> sd_sim w m d' (snd (spec_step w (unat m) r seq))"
proof -
  from assms have c: "sd_config (sd_windowSize d) (sd_maxSeq d)" and r: "sd_rel d r"
    and wm: "sd_windowSize d = w" "sd_maxSeq d = m" by (auto simp: sd_sim_def)
  note chk = sd_Check_spec [OF c r, of seq, unfolded wm]
  show ?thesis
  proof (cases "spec_Check w (unat m) (unat seq) r")
    case True
    have "\<exists>d'. sd_accept seq d = Some d' \<and> sd_rel d' (spec_accept (unat seq) r)"
    proof (cases "sd_latestSeq d < seq")
      case new: True
      have "seq \<le> sd_maxSeq d" using True wm by (simp add: spec_Check_def word_le_nat_alt)
      from sd_accept_new [OF r c this new] show ?thesis .
    next
      case False
      then have "unat seq \<le> rs_latest r" using r by (simp add: sd_rel_def not_less word_le_nat_alt)
      then have "rs_latest r < unat seq + sd_windowSize d" using True wm by (simp add: spec_Check_def)
      from sd_accept_late [OF r c _ this] False show ?thesis by simp
    qed
    with True chk show ?thesis using c wm sd_accept_fields by (auto simp: sd_step_def spec_step_def sd_sim_def)
  next
    case False
    with chk assms show ?thesis by (simp add: sd_step_def spec_step_def)
  qed
qed

interpretation sdet: lockstep sd_step "spec_step w (unat m)" "sd_sim w m" for w m
  by unfold_locales (rule sd_step_sim)


definition accepted_seqs :: "u64 list \<Rightarrow> bool list \<Rightarrow> u64 list" where
  "accepted_seqs seqs outs = map fst (filter snd (zip seqs outs))"

lemma accepted_seqs_Cons: "accepted_seqs (s # ss) (x # xs) = (if x then s # accepted_seqs ss xs else accepted_seqs ss xs)"
  by (simp add: accepted_seqs_def)

lemma spec_accepted_distinct:
  assumes "\<forall>a \<in> set (rs_seen r). a \<le> rs_latest r"
  shows "distinct (accepted_seqs seqs (fst (spec_answers (spec_step w m) r seqs)))
    \<and> (\<forall>s \<in> set (accepted_seqs seqs (fst (spec_answers (spec_step w m) r seqs))). unat s \<notin> set (rs_seen r))"
  using assms
proof (induction seqs arbitrary: r)
  case Nil
  then show ?case by (simp add: accepted_seqs_def)
next
  case (Cons s seqs)
  show ?case
  proof (cases "spec_Check w m (unat s) r")
    case True
    then have "unat s \<notin> set (rs_seen r)" using Cons.prems by (auto simp: spec_Check_def)
    moreover have "\<forall>a \<in> set (rs_seen (spec_accept (unat s) r)). a \<le> rs_latest (spec_accept (unat s) r)"
      using Cons.prems by (auto simp: spec_accept_def)
    note Cons.IH [OF this]
    ultimately show ?thesis using True
      by (auto simp: spec_step_def [of _ _ _ s] split_beta accepted_seqs_Cons spec_accept_def)
  next
    case False
    with Cons.IH [OF Cons.prems] show ?thesis by (simp add: spec_step_def [of _ _ _ s] split_beta accepted_seqs_Cons)
  qed
qed



text \<open>With 48 bits in the last word the mask cuts the window: number 80 is let through twice.\<close>

lemma short_mask_forgets:
  "map_option fst (run_answers sd_step (sd_New 48 0xFFFFFFFFFFFF) [100, 80, 101, 80]) = Some [True, True, True, True]"
  by code_simp

section \<open>The detector with wrapping\<close>

text \<open>
  C40. Once the head has wrapped, a late number from before the wrap is never recorded: accepting it sets a bit far
  outside the window, so the detector is unchanged and lets the same number through again and again.
\<close>

theorem wrapped_late_packet_replayed:
  assumes chk: "wd_Check seq d = (Some diff, d)" and late: "0 \<le> sint diff" and wrapped: "wd_latestSeq d < seq"
    and room: "unat (wd_maxSeq d) + fb_n (wd_mask d) \<le> 2 ^ 64"
  shows "wd_Check seq (wd_accept diff seq d) = (Some diff, wd_accept diff seq d) \<and> wd_accept diff seq d = d"
proof -
  have "seq \<le> wd_maxSeq d" using chk by (auto simp: wd_Check_def split: if_splits)
  then have "unat seq \<le> unat (wd_maxSeq d)" by (simp add: word_le_nat_alt)
  moreover have "unat (wd_latestSeq d - seq) = 2 ^ 64 + unat (wd_latestSeq d) - unat seq"
    using wrapped by (simp add: unat_sub_if' word_less_nat_alt)
  ultimately have "fb_n (wd_mask d) \<le> unat (wd_latestSeq d - seq)" using room by simp
  then have "wd_accept diff seq d = d" using late by (simp add: wd_accept_def Let_def SetBit_def)
  with chk show ?thesis by simp
qed

definition wd_demo :: wrappedSlidingWindowDetector where
  "wd_demo = (case wd_Check 1 (snd (wd_Check 0xFFFE (WithWrap 64 0xFFFF))) of
     (_, d) \<Rightarrow> wd_accept (-3) 1 (wd_accept (-1) 0xFFFE d))"

theorem wrapped_late_packet_replayed_witness:
  "wd_Check 0xFFFF wd_demo = (Some 2, wd_demo) \<and> wd_Check 0xFFFF (wd_accept 2 0xFFFF wd_demo) = (Some 2, wd_accept 2 0xFFFF wd_demo)"
proof -
  have d: "wd_demo = \<lparr>wd_latestSeq = 1, wd_maxSeq = 0xFFFF, wd_windowSize = 64,
      wd_mask = \<lparr>fb_bits = [9], fb_n = 64, fb_msbMask = -1\<rparr>, wd_init = True\<rparr>" by code_simp
  have c: "wd_Check 0xFFFF wd_demo = (Some 2, wd_demo)" unfolding d by code_simp
  have "wd_Check 0xFFFF (wd_accept 2 0xFFFF wd_demo) = (Some 2, wd_accept 2 0xFFFF wd_demo) \<and> wd_accept 2 0xFFFF wd_demo = wd_demo"
    by (rule wrapped_late_packet_replayed) (use c in \<open>simp_all add: d\<close>)
  with c show ?thesis by simp
qed

end
