(* ===== verification/TransportBuffer.thy ===== *)
theory TransportBuffer
  imports Prelude
begin

text \<open>
  The packet buffer of \<open>pion-transport/packetio/buffer.go\<close>: a byte ring that stores each packet behind a
  two-byte length and grows on demand. The record keeps the ring, its two positions and the limits; an
  index outside of the ring is the error \<open>IndexPanic\<close>, so that the absence of a run-time panic is a
  theorem and not a convention. The ring is refined to a queue of packets.
\<close>

section \<open>State\<close>

text \<open>
  \<open>notify\<close> is a channel of capacity one: \<open>b_notify\<close> says whether it holds a token. The mutex makes every
  operation atomic and is left out; the read deadline is an argument of the reader.
\<close>

record Buffer =
  b_data :: bytes
  b_head :: nat
  b_tail :: nat
  b_notify :: bool
  b_waiting :: bool
  b_closed :: bool
  b_count :: int
  b_limitCount :: int
  b_limitSize :: int

datatype buf_error = ErrPacketTooBig | ErrClosedPipe | ErrFull | BufEOF | ErrShortBuffer | ErrBufTimeout
  | IndexPanic

text \<open>\<open>netError\<close>, the error a reader gets at its deadline.\<close>

record netError =
  ne_error :: buf_error
  ne_timeout :: bool
  ne_temporary :: bool

definition netError_Timeout :: "netError \<Rightarrow> bool" where
  "netError_Timeout e = ne_timeout e"

definition netError_Temporary :: "netError \<Rightarrow> bool" where
  "netError_Temporary e = ne_temporary e"

definition minSize :: nat where "minSize = 2048"
definition cutoffSize :: nat where "cutoffSize = 128 * 1024"
definition maxSize :: nat where "maxSize = 4 * 1024 * 1024"

definition NewBuffer :: Buffer where
  "NewBuffer = \<lparr>b_data = [], b_head = 0, b_tail = 0, b_notify = False, b_waiting = False, b_closed = False,
     b_count = 0, b_limitCount = 0, b_limitSize = 0\<rparr>"

section \<open>Operations\<close>

definition buf_available :: "nat \<Rightarrow> Buffer \<Rightarrow> bool" where
  "buf_available n b =
     (let av = int (b_head b) - int (b_tail b);
          av = (if av \<le> 0 then av + int (length (b_data b)) else av)
      in \<not> int n + 2 + 1 > av)"

text \<open>Go's \<open>copy\<close> into the slice of \<open>dst\<close> that starts at \<open>k\<close>: the new contents and the number of bytes copied.\<close>

definition go_copy :: "nat \<Rightarrow> 'a list \<Rightarrow> 'a list \<Rightarrow> 'a list \<times> nat" where
  "go_copy k dst src = (take k dst @ take (length dst - k) src @ drop (k + length src) dst,
     min (length dst - k) (length src))"

text \<open>The size \<open>grow\<close> chooses; \<open>hard\<close> is the build-time constant \<open>sizeHardLimit\<close>.\<close>

definition grow_newSize :: "bool \<Rightarrow> Buffer \<Rightarrow> nat" where
  "grow_newSize hard b =
     (let n = (if length (b_data b) < cutoffSize then 2 * length (b_data b) else 5 * length (b_data b) div 4);
          n = (if n < minSize then minSize else n);
          n = (if (b_limitSize b \<le> 0 \<or> hard) \<and> n > maxSize then maxSize else n)
      in if b_limitSize b > 0 \<and> int n > b_limitSize b + 1 then nat (b_limitSize b + 1) else n)"

definition buf_grow :: "bool \<Rightarrow> Buffer \<Rightarrow> buf_error + Buffer" where
  "buf_grow hard b =
     (let newSize = grow_newSize hard b in
      if newSize \<le> length (b_data b) then Inl ErrFull
      else
        let newData = replicate newSize 0;
            (newData, n) =
              (if b_head b \<le> b_tail b
               then go_copy 0 newData (take (b_tail b - b_head b) (drop (b_head b) (b_data b)))
               else let (d, n) = go_copy 0 newData (drop (b_head b) (b_data b));
                        (d, m) = go_copy n d (take (b_tail b) (b_data b))
                    in (d, n + m))
        in Inr (b\<lparr>b_head := 0, b_tail := n, b_data := newData\<rparr>))"

text \<open>
  The loop of \<open>Write\<close> that grows until the packet fits; what has been grown stays grown when a later round
  fails. \<open>None\<close> would be a loop that never ends.
\<close>

partial_function (option) buf_growLoop :: "bool \<Rightarrow> nat \<Rightarrow> Buffer \<Rightarrow> (buf_error option \<times> Buffer) option" where
  "buf_growLoop hard n b =
     (if buf_available n b then Some (None, b)
      else case buf_grow hard b of Inl e \<Rightarrow> Some (Some e, b) | Inr b' \<Rightarrow> buf_growLoop hard n b')"

declare buf_growLoop.simps [code]

definition buf_size :: "Buffer \<Rightarrow> int" where
  "buf_size b =
     (let s = int (b_tail b) - int (b_head b) in if s < 0 then s + int (length (b_data b)) else s)"

text \<open>\<open>b.data[b.tail] = v; b.tail++\<close> with the wrap-around.\<close>

definition buf_putByte :: "byte \<Rightarrow> Buffer \<Rightarrow> buf_error + Buffer" where
  "buf_putByte v b =
     (if b_tail b < length (b_data b)
      then Inr (b\<lparr>b_data := (b_data b)[b_tail b := v],
                   b_tail := (if b_tail b + 1 \<ge> length (b_data b) then 0 else b_tail b + 1)\<rparr>)
      else Inl IndexPanic)"

text \<open>The two copies that store the packet; slicing past the end panics.\<close>

definition buf_putPacket :: "bytes \<Rightarrow> Buffer \<Rightarrow> buf_error + Buffer" where
  "buf_putPacket packet b =
     (if b_tail b > length (b_data b) then Inl IndexPanic
      else
        let (d, n) = go_copy (b_tail b) (b_data b) packet;
            t = b_tail b + n
        in if t \<ge> length d
           then let (d', m) = go_copy 0 d (drop n packet) in Inr (b\<lparr>b_data := d', b_tail := m\<rparr>)
           else Inr (b\<lparr>b_data := d, b_tail := t\<rparr>))"

definition buf_store :: "bytes \<Rightarrow> Buffer \<Rightarrow> buf_error + Buffer" where
  "buf_store packet b =
     (case buf_putByte (of_nat (length packet div 256)) b of
        Inl e \<Rightarrow> Inl e
      | Inr b1 \<Rightarrow> (case buf_putByte (of_nat (length packet)) b1 of
          Inl e \<Rightarrow> Inl e
        | Inr b2 \<Rightarrow> buf_putPacket packet b2))"

definition buf_Write :: "bool \<Rightarrow> bytes \<Rightarrow> Buffer \<Rightarrow> ((nat \<times> buf_error option) \<times> Buffer) option" where
  "buf_Write hard packet b =
     (if length packet \<ge> 0x10000 then Some ((0, Some ErrPacketTooBig), b)
      else if b_closed b then Some ((0, Some ErrClosedPipe), b)
      else if b_limitCount b > 0 \<and> b_count b \<ge> b_limitCount b
        \<or> b_limitSize b > 0 \<and> buf_size b + 2 + int (length packet) > b_limitSize b
      then Some ((0, Some ErrFull), b)
      else case buf_growLoop hard (length packet) b of
        None \<Rightarrow> None
      | Some (Some e, b1) \<Rightarrow> Some ((0, Some e), b1)
      | Some (None, b1) \<Rightarrow>
          (case buf_store packet b1 of
             Inl e \<Rightarrow> Some ((0, Some e), b1)
           | Inr b2 \<Rightarrow> Some ((length packet, None), b2\<lparr>b_count := b_count b2 + 1, b_notify := True\<rparr>)))"

text \<open>
  \<open>n1 := b.data[b.head]; b.head++\<close> with the wrap-around.
\<close>

definition buf_getByte :: "Buffer \<Rightarrow> buf_error + (byte \<times> Buffer)" where
  "buf_getByte b =
     (if b_head b < length (b_data b)
      then Inr (b_data b ! b_head b,
             b\<lparr>b_head := (if b_head b + 1 \<ge> length (b_data b) then 0 else b_head b + 1)\<rparr>)
      else Inl IndexPanic)"

text \<open>Copying out of the ring into the caller's slice.\<close>

definition buf_copyOut :: "nat \<Rightarrow> bytes \<Rightarrow> Buffer \<Rightarrow> bytes" where
  "buf_copyOut copied packet b =
     (if b_head b + copied < length (b_data b)
      then fst (go_copy 0 packet (take copied (drop (b_head b) (b_data b))))
      else let (p, k) = go_copy 0 packet (drop (b_head b) (b_data b))
           in fst (go_copy k p (take (copied - k) (b_data b))))"

text \<open>
  One pass through the loop of \<open>Read\<close>: the slice after the call with what is returned, or \<open>Blocked\<close> where
  the reader waits for a token or for the deadline.
\<close>

datatype read_result = ReadDone bytes nat "buf_error option" | Blocked

definition buf_take :: "nat \<Rightarrow> bytes \<Rightarrow> Buffer \<Rightarrow> read_result \<times> Buffer" where
  "buf_take cnt packet b =
     (let copied = (if cnt > length packet then length packet else cnt);
          packet' = buf_copyOut copied packet b;
          h = b_head b + cnt;
          h = (if h \<ge> length (b_data b) then h - length (b_data b) else h);
          b' = (if h = b_tail b then b\<lparr>b_head := 0, b_tail := 0\<rparr> else b\<lparr>b_head := h\<rparr>)
      in (ReadDone packet' copied (if copied < cnt then Some ErrShortBuffer else None), b'\<lparr>b_count := b_count b' - 1\<rparr>))"

definition buf_pop :: "bytes \<Rightarrow> Buffer \<Rightarrow> read_result \<times> Buffer" where
  "buf_pop packet b =
     (case buf_getByte b of
        Inl e \<Rightarrow> (ReadDone packet 0 (Some e), b)
      | Inr (n1, b1) \<Rightarrow> (case buf_getByte b1 of
          Inl e \<Rightarrow> (ReadDone packet 0 (Some e), b1)
        | Inr (n2, b2) \<Rightarrow> buf_take (unat (push_bit 8 (ucast n1 :: u16) OR ucast n2)) packet b2))"

text \<open>
  The loop up to its \<open>select\<close>: with data it returns a packet, closed and empty it returns \<open>EOF\<close>, otherwise it
  blocks.
\<close>

definition buf_readLoop :: "bytes \<Rightarrow> Buffer \<Rightarrow> read_result \<times> Buffer" where
  "buf_readLoop packet b =
     (if b_head b \<noteq> b_tail b then buf_pop packet b
      else if b_closed b then (ReadDone packet 0 (Some BufEOF), b)
      else (Blocked, b))"

definition buf_Read :: "bool \<Rightarrow> bytes \<Rightarrow> Buffer \<Rightarrow> read_result \<times> Buffer" where
  "buf_Read expired packet b =
     (if expired then (ReadDone packet 0 (Some ErrBufTimeout), b) else buf_readLoop packet b)"

text \<open>
  A blocked reader is woken by its deadline or by the channel, which is ready when it holds a token (the reader
  takes it) or is closed; woken by the channel it looks at the ring again. A token left by a packet that was read
  without waiting costs one more round.
\<close>

datatype wake = ByDeadline | ByNotify

definition buf_wake :: "wake \<Rightarrow> bytes \<Rightarrow> Buffer \<Rightarrow> read_result \<times> Buffer" where
  "buf_wake w packet b = (case w of
       ByDeadline \<Rightarrow> (ReadDone packet 0 (Some ErrBufTimeout), b)
     | ByNotify \<Rightarrow> (if b_notify b \<or> b_closed b then buf_readLoop packet (b\<lparr>b_notify := False\<rparr>) else (Blocked, b)))"

definition buf_Close :: "Buffer \<Rightarrow> Buffer" where
  "buf_Close b = (if b_closed b then b else b\<lparr>b_waiting := False, b_closed := True\<rparr>)"

definition buf_Count :: "Buffer \<Rightarrow> int" where
  "buf_Count b = b_count b"

definition buf_SetLimitCount :: "int \<Rightarrow> Buffer \<Rightarrow> Buffer" where
  "buf_SetLimitCount limit b = b\<lparr>b_limitCount := limit\<rparr>"

definition buf_SetLimitSize :: "int \<Rightarrow> Buffer \<Rightarrow> Buffer" where
  "buf_SetLimitSize limit b = b\<lparr>b_limitSize := limit\<rparr>"

section \<open>The ring as a list of bytes\<close>

text \<open>Positions of the ring: the one \<open>i\<close> bytes after \<open>h\<close>, for \<open>h\<close> and \<open>i\<close> below the length.\<close>

definition ring_pos :: "nat \<Rightarrow> nat \<Rightarrow> nat" where
  "ring_pos L j = (if j < L then j else j - L)"

definition buf_len :: "Buffer \<Rightarrow> nat" where
  "buf_len b = (if b_head b \<le> b_tail b then b_tail b - b_head b else b_tail b + length (b_data b) - b_head b)"

definition buf_contents :: "Buffer \<Rightarrow> bytes" where
  "buf_contents b = take (buf_len b) (drop (b_head b) (b_data b) @ take (b_head b) (b_data b))"

definition buf_wf :: "Buffer \<Rightarrow> bool" where
  "buf_wf b \<longleftrightarrow> (if b_data b = [] then b_head b = 0 \<and> b_tail b = 0
      else b_head b < length (b_data b) \<and> b_tail b < length (b_data b))"

lemma buf_wf_bounds: "buf_wf b \<Longrightarrow> n < length (b_data b) \<Longrightarrow> b_head b < length (b_data b) \<and> b_tail b < length (b_data b)"
  by (cases "b_data b") (auto simp: buf_wf_def)

lemma buf_size_len: "buf_wf b \<Longrightarrow> buf_size b = int (buf_len b)"
  by (auto simp: buf_size_def buf_len_def buf_wf_def Let_def split: if_splits)

lemma buf_len_less: "buf_wf b \<Longrightarrow> b_data b \<noteq> [] \<Longrightarrow> buf_len b < length (b_data b)"
  by (auto simp: buf_len_def buf_wf_def)

lemma buf_available_iff: "buf_wf b \<Longrightarrow> buf_available n b \<longleftrightarrow> buf_len b + n + 3 \<le> length (b_data b)"
  by (auto simp: buf_available_def buf_len_def buf_wf_def Let_def split: if_splits)

lemma length_contents [simp]: "buf_wf b \<Longrightarrow> length (buf_contents b) = buf_len b"
  by (cases "b_data b = []") (use buf_len_less [of b] in \<open>auto simp: buf_contents_def buf_wf_def buf_len_def\<close>)

lemma nth_contents:
  assumes "buf_wf b" and "i < buf_len b"
  shows "buf_contents b ! i = b_data b ! ring_pos (length (b_data b)) (b_head b + i)"
proof -
  have "b_data b \<noteq> []" using assms by (auto simp: buf_wf_def buf_len_def)
  with assms show ?thesis using buf_len_less [of b]
    by (auto simp: buf_contents_def ring_pos_def nth_append buf_wf_def intro!: arg_cong [where f = "nth (b_data b)"])
qed

lemma length_go_copy [simp]: "k \<le> length dst \<Longrightarrow> length (fst (go_copy k dst src)) = length dst"
  by (auto simp: go_copy_def min_def)


lemma ring_append:
  assumes wf: "buf_wf b" and fits: "buf_len b + length src < length (b_data b)"
    and len: "length d' = length (b_data b)"
    and t': "t' = ring_pos (length (b_data b)) (b_tail b + length src)"
    and new: "\<And>i. i < length src \<Longrightarrow> d' ! ring_pos (length (b_data b)) (b_tail b + i) = src ! i"
    and old: "\<And>i. i < buf_len b \<Longrightarrow> d' ! ring_pos (length (b_data b)) (b_head b + i)
                = b_data b ! ring_pos (length (b_data b)) (b_head b + i)"
  shows "buf_wf (b\<lparr>b_data := d', b_tail := t'\<rparr>)"
    and "buf_contents (b\<lparr>b_data := d', b_tail := t'\<rparr>) = buf_contents b @ src"
proof -
  let ?b = "b\<lparr>b_data := d', b_tail := t'\<rparr>" and ?L = "length (b_data b)"
  have ne: "b_data b \<noteq> []" using fits by auto
  with wf have ht: "b_head b < ?L" "b_tail b < ?L" by (auto simp: buf_wf_def)
  have lensrc: "length src < ?L" using fits by simp
  show wf': "buf_wf ?b" using ht len lensrc ne by (auto simp: buf_wf_def t' ring_pos_def)
  have len': "buf_len ?b = buf_len b + length src"
    using ht fits len unfolding buf_len_def t' ring_pos_def by (auto split: if_splits)
  show "buf_contents ?b = buf_contents b @ src"
  proof (rule nth_equalityI)
    show "length (buf_contents ?b) = length (buf_contents b @ src)" using wf wf' len' by simp
    fix i assume "i < length (buf_contents ?b)"
    then have i: "i < buf_len b + length src" using wf' len' by simp
    have lhs: "buf_contents ?b ! i = d' ! ring_pos ?L (b_head b + i)"
      using nth_contents [OF wf', of i] i len' len by simp
    show "buf_contents ?b ! i = (buf_contents b @ src) ! i"
    proof (cases "i < buf_len b")
      case True
      then show ?thesis using lhs old [OF True] nth_contents [OF wf True] wf by (simp add: nth_append)
    next
      case False
      have "ring_pos ?L (b_head b + i) = ring_pos ?L (b_tail b + (i - buf_len b))"
        using False i fits ht by (auto simp: ring_pos_def buf_len_def split: if_splits)
      then show ?thesis using False lhs new [of "i - buf_len b"] i wf by (simp add: nth_append)
    qed
  qed
qed

lemma ring_pos_disjoint:
  assumes "buf_wf b" and "buf_len b + n < length (b_data b)" and "i < buf_len b" and "j < n"
  shows "ring_pos (length (b_data b)) (b_tail b + j) \<noteq> ring_pos (length (b_data b)) (b_head b + i)"
  using assms by (auto simp: ring_pos_def buf_len_def buf_wf_def split: if_splits)

lemma ring_pos_bound: "a < L \<Longrightarrow> i \<le> L \<Longrightarrow> ring_pos L (a + i) < L"
  by (auto simp: ring_pos_def)

lemma buf_putByte_ok:
  assumes wf: "buf_wf b" and fits: "buf_len b + 1 < length (b_data b)"
  shows "\<exists>d t. buf_putByte v b = Inr (b\<lparr>b_data := d, b_tail := t\<rparr>) \<and> length d = length (b_data b)
     \<and> buf_wf (b\<lparr>b_data := d, b_tail := t\<rparr>)
     \<and> buf_contents (b\<lparr>b_data := d, b_tail := t\<rparr>) = buf_contents b @ [v]"
proof -
  let ?L = "length (b_data b)"
  let ?d = "(b_data b)[b_tail b := v]" and ?t = "if b_tail b + 1 \<ge> ?L then 0 else b_tail b + 1"
  have ht: "b_head b < ?L" "b_tail b < ?L" using buf_wf_bounds [OF wf fits] by auto
  have old: "?d ! ring_pos ?L (b_head b + i) = b_data b ! ring_pos ?L (b_head b + i)" if "i < buf_len b" for i
    using ring_pos_disjoint [OF wf fits that, of 0] ht by (auto simp: ring_pos_def nth_list_update_any)
  have t: "?t = ring_pos ?L (b_tail b + length [v])" using ht by (auto simp: ring_pos_def)
  have new: "?d ! ring_pos ?L (b_tail b + i) = [v] ! i" if "i < length [v]" for i
    using that ht by (simp add: ring_pos_def)
  have fits': "buf_len b + length [v] < ?L" using fits by simp
  note ra = ring_append [OF wf fits' _ t new old]
  show ?thesis
    by (rule exI [of _ ?d], rule exI [of _ ?t]) (use ht ra in \<open>simp add: buf_putByte_def\<close>)
qed


lemma nth_go_copy:
  assumes "k \<le> length dst" and "i < length dst"
  shows "fst (go_copy k dst src) ! i = (if k \<le> i \<and> i < k + length src then src ! (i - k) else dst ! i)"
  using assms by (auto simp: go_copy_def nth_append min_def)

lemma snd_go_copy: "snd (go_copy k dst src) = min (length dst - k) (length src)"
  by (simp add: go_copy_def)

text \<open>What the two copies write, and where the tail ends up.\<close>

definition ring_write :: "nat \<Rightarrow> bytes \<Rightarrow> bytes \<Rightarrow> bytes" where
  "ring_write t d src =
     (let n = min (length d - t) (length src); d1 = fst (go_copy t d src)
      in if t + n \<ge> length d then fst (go_copy 0 d1 (drop n src)) else d1)"

lemma buf_putPacket_eq:
  assumes "b_tail b < length (b_data b)" and "length src < length (b_data b)"
  shows "buf_putPacket src b = Inr (b\<lparr>b_data := ring_write (b_tail b) (b_data b) src,
     b_tail := ring_pos (length (b_data b)) (b_tail b + length src)\<rparr>)"
  using assms
  by (auto simp: buf_putPacket_def ring_write_def Let_def split_beta snd_go_copy ring_pos_def min_def)

lemma length_ring_write [simp]: "t < length d \<Longrightarrow> length (ring_write t d src) = length d"
  by (simp add: ring_write_def Let_def)

lemma nth_ring_write:
  assumes "t < length d" and "length src < length d" and "i < length d"
  shows "ring_write t d src ! i =
     (if t \<le> i \<and> i < t + length src then src ! (i - t)
      else if i + length d < t + length src then src ! (i + length d - t) else d ! i)"
  using assms by (auto simp: ring_write_def Let_def nth_go_copy add.commute)

lemma ring_write_new:
  assumes "t < length d" and "length src < length d" and "i < length src"
  shows "ring_write t d src ! ring_pos (length d) (t + i) = src ! i"
  using assms by (auto simp: nth_ring_write ring_pos_def)

lemma ring_write_old:
  assumes "t < length d" and "length src < length d" and "j < length d"
    and "\<And>i. i < length src \<Longrightarrow> ring_pos (length d) (t + i) \<noteq> j"
  shows "ring_write t d src ! j = d ! j"
proof -
  have "\<not> (t \<le> j \<and> j < t + length src)"
  proof
    assume "t \<le> j \<and> j < t + length src"
    then have "j - t < length src" and "t + (j - t) = j" by auto
    with assms(3) assms(4) [of "j - t"] show False by (simp add: ring_pos_def)
  qed
  moreover have "\<not> j + length d < t + length src"
  proof
    assume "j + length d < t + length src"
    with assms(1-3) have "j + length d - t < length src" and "t + (j + length d - t) = j + length d" by auto
    with assms(4) [of "j + length d - t"] show False by (simp add: ring_pos_def)
  qed
  ultimately show ?thesis using assms(1-3) by (auto simp: nth_ring_write)
qed

lemma buf_putPacket_ok:
  assumes wf: "buf_wf b" and fits: "buf_len b + length p < length (b_data b)"
  shows "\<exists>d t. buf_putPacket p b = Inr (b\<lparr>b_data := d, b_tail := t\<rparr>) \<and> length d = length (b_data b)
     \<and> buf_wf (b\<lparr>b_data := d, b_tail := t\<rparr>)
     \<and> buf_contents (b\<lparr>b_data := d, b_tail := t\<rparr>) = buf_contents b @ p"
proof -
  let ?L = "length (b_data b)" and ?d = "ring_write (b_tail b) (b_data b) p"
  have ht: "b_head b < ?L" "b_tail b < ?L" using buf_wf_bounds [OF wf fits] by auto
  have lp: "length p < ?L" using fits by simp
  have old: "?d ! ring_pos ?L (b_head b + i) = b_data b ! ring_pos ?L (b_head b + i)" if "i < buf_len b" for i
  proof (rule ring_write_old [OF ht(2) lp])
    show "ring_pos ?L (b_head b + i) < ?L" using that fits ht by (intro ring_pos_bound) auto
    show "ring_pos ?L (b_tail b + j) \<noteq> ring_pos ?L (b_head b + i)" if "j < length p" for j
      using ring_pos_disjoint [OF wf fits \<open>i < buf_len b\<close> that] .
  qed
  note ra = ring_append [OF wf fits length_ring_write [OF ht(2)] refl ring_write_new [OF ht(2) lp] old]
  show ?thesis
    by (rule exI [of _ ?d], rule exI [of _ "ring_pos ?L (b_tail b + length p)"])
       (use ra ht lp in \<open>simp add: buf_putPacket_eq\<close>)
qed

text \<open>The bytes of a packet in the ring.\<close>

definition frame :: "bytes \<Rightarrow> bytes" where
  "frame p = [of_nat (length p div 256), of_nat (length p)] @ p"

lemma length_frame [simp]: "length (frame p) = length p + 2"
  by (simp add: frame_def)

lemma buf_store_ok:
  assumes wf: "buf_wf b" and fits: "buf_len b + length p + 3 \<le> length (b_data b)"
  shows "\<exists>d t. buf_store p b = Inr (b\<lparr>b_data := d, b_tail := t\<rparr>) \<and> length d = length (b_data b)
     \<and> buf_wf (b\<lparr>b_data := d, b_tail := t\<rparr>)
     \<and> buf_contents (b\<lparr>b_data := d, b_tail := t\<rparr>) = buf_contents b @ frame p"
proof -
  obtain d1 t1 where s1: "buf_putByte (of_nat (length p div 256)) b = Inr (b\<lparr>b_data := d1, b_tail := t1\<rparr>)"
    "length d1 = length (b_data b)" "buf_wf (b\<lparr>b_data := d1, b_tail := t1\<rparr>)"
    "buf_contents (b\<lparr>b_data := d1, b_tail := t1\<rparr>) = buf_contents b @ [of_nat (length p div 256)]"
    using buf_putByte_ok [OF wf, of "of_nat (length p div 256)"] fits by auto
  let ?b1 = "b\<lparr>b_data := d1, b_tail := t1\<rparr>"
  have l1: "buf_len ?b1 = buf_len b + 1" using length_contents [OF s1(3)] length_contents [OF wf] s1(4) by simp
  obtain d2 t2 where s2: "buf_putByte (of_nat (length p)) ?b1 = Inr (?b1\<lparr>b_data := d2, b_tail := t2\<rparr>)"
    "length d2 = length d1" "buf_wf (?b1\<lparr>b_data := d2, b_tail := t2\<rparr>)"
    "buf_contents (?b1\<lparr>b_data := d2, b_tail := t2\<rparr>) = buf_contents ?b1 @ [of_nat (length p)]"
    using buf_putByte_ok [OF s1(3), of "of_nat (length p)"] fits s1(2) l1 by auto
  let ?b2 = "?b1\<lparr>b_data := d2, b_tail := t2\<rparr>"
  have l2: "buf_len ?b2 = buf_len b + 2" using length_contents [OF s2(3)] length_contents [OF s1(3)] s2(4) l1 by simp
  obtain d3 t3 where "buf_putPacket p ?b2 = Inr (?b2\<lparr>b_data := d3, b_tail := t3\<rparr>)" "length d3 = length d2"
    "buf_wf (?b2\<lparr>b_data := d3, b_tail := t3\<rparr>)"
    "buf_contents (?b2\<lparr>b_data := d3, b_tail := t3\<rparr>) = buf_contents ?b2 @ p"
    using buf_putPacket_ok [OF s2(3), of p] fits s1(2) s2(2) l2 by auto
  with s1 s2 show ?thesis by (auto simp: buf_store_def frame_def)
qed


section \<open>Growing\<close>

text \<open>The largest ring the limits allow.\<close>

definition buf_capacity :: "bool \<Rightarrow> Buffer \<Rightarrow> nat" where
  "buf_capacity hard b =
     (if b_limitSize b \<le> 0 then maxSize
      else if hard then min maxSize (nat (b_limitSize b + 1)) else nat (b_limitSize b + 1))"

lemmas size_consts = minSize_def cutoffSize_def maxSize_def

lemma grow_newSize_le: "grow_newSize hard b \<le> buf_capacity hard b"
  by (auto simp: grow_newSize_def buf_capacity_def size_consts Let_def)

lemma grow_newSize_less: "length (b_data b) < buf_capacity hard b \<Longrightarrow> length (b_data b) < grow_newSize hard b"
  by (auto simp: grow_newSize_def buf_capacity_def size_consts Let_def split: if_splits)

lemma buf_grow_full_iff: "(\<exists>e. buf_grow hard b = Inl e) \<longleftrightarrow> buf_capacity hard b \<le> length (b_data b)"
  using grow_newSize_le [of hard b] grow_newSize_less [of b hard]
  by (fastforce simp: buf_grow_def Let_def split_beta)

lemma buf_grow_error: "buf_grow hard b = Inl e \<Longrightarrow> e = ErrFull"
  by (auto simp: buf_grow_def Let_def split_beta split: if_splits)

lemma go_copy_fits:
  "k + length src \<le> length dst \<Longrightarrow> go_copy k dst src = (take k dst @ src @ drop (k + length src) dst, length src)"
  by (simp add: go_copy_def)

lemma go_copy_fresh:
  "length xs + length ys \<le> n \<Longrightarrow>
     go_copy (length xs) (xs @ replicate (n - length xs) 0) ys = (xs @ ys @ replicate (n - length xs - length ys) 0, length ys)"
  by (simp add: go_copy_def)

lemmas go_copy_fresh0 = go_copy_fresh [of "[]", simplified]

lemma buf_grow_ok:
  assumes wf: "buf_wf b" and g: "buf_grow hard b = Inr b'"
  shows "buf_wf b' \<and> buf_contents b' = buf_contents b \<and> length (b_data b) < length (b_data b')
    \<and> length (b_data b') \<le> buf_capacity hard b \<and> (\<exists>d n. b' = b\<lparr>b_head := 0, b_tail := n, b_data := d\<rparr>)"
proof -
  let ?N = "grow_newSize hard b" and ?c = "buf_contents b"
  have bigger: "length (b_data b) < ?N" using g by (auto simp: buf_grow_def Let_def split: if_splits)
  have len: "length ?c \<le> length (b_data b)" using wf buf_len_less [OF wf] by (cases "b_data b = []") (auto simp: buf_wf_def buf_len_def)
  have "b' = b\<lparr>b_head := 0, b_tail := length ?c, b_data := ?c @ replicate (?N - length ?c) 0\<rparr>"
  proof (cases "b_head b \<le> b_tail b")
    case True
    then have "?c = take (b_tail b - b_head b) (drop (b_head b) (b_data b))"
      using wf by (auto simp: buf_contents_def buf_len_def buf_wf_def split: if_splits)
    moreover from this have "go_copy 0 (replicate ?N 0) ?c = (?c @ replicate (?N - length ?c) 0, length ?c)"
      using len bigger by (intro go_copy_fresh0) simp
    ultimately show ?thesis using g bigger True by (simp add: buf_grow_def Let_def)
  next
    case False
    let ?x = "drop (b_head b) (b_data b)" and ?y = "take (b_tail b) (b_data b)"
    from False have c: "?c = ?x @ ?y"
      using wf by (auto simp: buf_contents_def buf_len_def buf_wf_def split: if_splits)
    then have xy: "length ?x + length ?y \<le> ?N" using len bigger by simp
    have "go_copy 0 (replicate ?N 0) ?x = (?x @ replicate (?N - length ?x) 0, length ?x)"
      using xy by (intro go_copy_fresh0) simp
    moreover have "go_copy (length ?x) (?x @ replicate (?N - length ?x) 0) ?y
        = (?c @ replicate (?N - length ?c) 0, length ?y)"
      using go_copy_fresh [OF xy] c by simp
    ultimately show ?thesis using g bigger False c by (simp add: buf_grow_def Let_def)
  qed
  moreover have "length ?c < ?N" using len bigger by simp
  ultimately show ?thesis using bigger grow_newSize_le [of hard b]
    by (auto simp: buf_wf_def buf_contents_def [of "_\<lparr>b_head := 0, b_tail := _, b_data := _\<rparr>"] buf_len_def [of "_\<lparr>b_head := 0, b_tail := _, b_data := _\<rparr>"])
qed

lemma buf_capacity_grow: "buf_grow hard b = Inr b' \<Longrightarrow> buf_capacity hard b' = buf_capacity hard b"
  by (auto simp: buf_grow_def Let_def split_beta buf_capacity_def split: if_splits)

lemma buf_len_contents: "buf_wf b \<Longrightarrow> buf_wf b' \<Longrightarrow> buf_contents b' = buf_contents b \<Longrightarrow> buf_len b' = buf_len b"
  by (metis length_contents)

lemma buf_growLoop_total:
  assumes "buf_wf b"
  shows "\<exists>e b' d h t. buf_growLoop hard n b = Some (e, b') \<and> buf_wf b' \<and> buf_contents b' = buf_contents b
    \<and> b' = b\<lparr>b_head := h, b_tail := t, b_data := d\<rparr>
    \<and> (if buf_len b + n + 3 \<le> max (length (b_data b)) (buf_capacity hard b)
       then e = None \<and> buf_available n b' else e = Some ErrFull)"
  using assms
proof (induction "buf_capacity hard b - length (b_data b)" arbitrary: b rule: less_induct)
  case less
  show ?case
  proof (cases "buf_available n b")
    case True
    then show ?thesis
      by (intro exI [of _ None] exI [of _ b] exI [of _ "b_data b"] exI [of _ "b_head b"] exI [of _ "b_tail b"])
         (use less.prems in \<open>auto simp: buf_growLoop.simps [of hard n b] buf_available_iff\<close>)
  next
    case unavail: False
    show ?thesis
    proof (cases "buf_grow hard b")
      case (Inl e)
      then have "e = ErrFull" and "buf_capacity hard b \<le> length (b_data b)"
        using buf_grow_error buf_grow_full_iff by blast+
      with Inl unavail show ?thesis
        by (intro exI [of _ "Some ErrFull"] exI [of _ b] exI [of _ "b_data b"] exI [of _ "b_head b"] exI [of _ "b_tail b"])
           (use less.prems in \<open>auto simp: buf_growLoop.simps [of hard n b] buf_available_iff\<close>)
    next
      case (Inr b1)
      note ok = buf_grow_ok [OF less.prems Inr] and cap = buf_capacity_grow [OF Inr]
      from ok have smaller: "buf_capacity hard b1 - length (b_data b1) < buf_capacity hard b - length (b_data b)"
        and wf1: "buf_wf b1" and l1: "buf_len b1 = buf_len b"
        using cap buf_len_contents [OF less.prems] by auto
      have loop: "buf_growLoop hard n b = buf_growLoop hard n b1"
        using Inr unavail by (simp add: buf_growLoop.simps [of hard n b])
      from less.hyps [OF smaller wf1] obtain e b' d h t where r: "buf_growLoop hard n b1 = Some (e, b')" "buf_wf b'"
        "buf_contents b' = buf_contents b1" "b' = b1\<lparr>b_head := h, b_tail := t, b_data := d\<rparr>"
        "if buf_len b1 + n + 3 \<le> max (length (b_data b1)) (buf_capacity hard b1)
         then e = None \<and> buf_available n b' else e = Some ErrFull" by blast
      have "max (length (b_data b1)) (buf_capacity hard b1) = max (length (b_data b)) (buf_capacity hard b)"
        using ok cap by auto
      with r l1 ok loop show ?thesis by (intro exI [of _ e] exI [of _ b'] exI [of _ d] exI [of _ h] exI [of _ t]) auto
    qed
  qed
qed


section \<open>Reading\<close>

lemma ring_advance:
  assumes wf: "buf_wf b" and k: "k \<le> buf_len b" and ne: "b_data b \<noteq> []"
  shows "buf_wf (b\<lparr>b_head := ring_pos (length (b_data b)) (b_head b + k)\<rparr>)"
    and "buf_contents (b\<lparr>b_head := ring_pos (length (b_data b)) (b_head b + k)\<rparr>) = drop k (buf_contents b)"
proof -
  let ?L = "length (b_data b)"
  let ?b = "b\<lparr>b_head := ring_pos ?L (b_head b + k)\<rparr>"
  have ht: "b_head b < ?L" "b_tail b < ?L" using wf ne by (auto simp: buf_wf_def)
  have lenL: "buf_len b < ?L" using buf_len_less [OF wf ne] .
  show wf': "buf_wf ?b" using ht k lenL by (auto simp: buf_wf_def ring_pos_def)
  have len': "buf_len ?b = buf_len b - k"
    using ht k lenL unfolding buf_len_def ring_pos_def by (auto split: if_splits)
  show "buf_contents ?b = drop k (buf_contents b)"
  proof (rule nth_equalityI)
    show "length (buf_contents ?b) = length (drop k (buf_contents b))" using wf wf' len' by simp
    fix i assume "i < length (buf_contents ?b)"
    then have i: "i < buf_len b - k" using wf' len' by simp
    have "ring_pos ?L (ring_pos ?L (b_head b + k) + i) = ring_pos ?L (b_head b + (k + i))"
      using ht i lenL by (auto simp: ring_pos_def)
    then show "buf_contents ?b ! i = drop k (buf_contents b) ! i"
      using nth_contents [OF wf', of i] nth_contents [OF wf, of "k + i"] i len' wf by simp
  qed
qed

lemma buf_getByte_ok:
  assumes wf: "buf_wf b" and c: "buf_contents b = x # xs"
  shows "\<exists>h. buf_getByte b = Inr (x, b\<lparr>b_head := h\<rparr>) \<and> buf_wf (b\<lparr>b_head := h\<rparr>)
     \<and> buf_contents (b\<lparr>b_head := h\<rparr>) = xs"
proof -
  let ?L = "length (b_data b)"
  have len: "0 < buf_len b" using length_contents [OF wf] c by (metis length_greater_0_conv list.discI)
  have ne: "b_data b \<noteq> []" using c by (auto simp: buf_contents_def)
  have ht: "b_head b < ?L" using wf ne by (auto simp: buf_wf_def)
  have x: "b_data b ! b_head b = x" using nth_contents [OF wf len] c ht by (simp add: ring_pos_def)
  have h: "(if b_head b + 1 \<ge> ?L then 0 else b_head b + 1) = ring_pos ?L (b_head b + 1)"
    using ht by (auto simp: ring_pos_def)
  note adv = ring_advance [OF wf _ ne, of 1]
  show ?thesis unfolding buf_getByte_def h
    by (rule exI [of _ "ring_pos ?L (b_head b + 1)"]) (use adv len ht x c in simp)
qed

lemma buf_copyOut_ok:
  assumes wf: "buf_wf b" and n: "n \<le> buf_len b" "n \<le> length packet"
  shows "buf_copyOut n packet b = take n (buf_contents b) @ drop n packet"
proof (cases "b_data b = []")
  case True
  with wf n show ?thesis by (simp add: buf_wf_def buf_len_def buf_copyOut_def go_copy_def)
next
  case ne: False
  let ?L = "length (b_data b)" and ?h = "b_head b"
  have h: "?h < ?L" using wf ne by (auto simp: buf_wf_def)
  have nL: "n < ?L" using n buf_len_less [OF wf ne] by simp
  have c: "take n (buf_contents b) = take n (drop ?h (b_data b)) @ take (n - (?L - ?h)) (b_data b)"
    using n(1) nL h by (auto simp: buf_contents_def min_def)
  show ?thesis
  proof (cases "?h + n < ?L")
    case True
    then show ?thesis using n(2) c by (auto simp: buf_copyOut_def go_copy_def min_def)
  next
    case False
    then have "go_copy 0 packet (drop ?h (b_data b)) = (drop ?h (b_data b) @ drop (?L - ?h) packet, ?L - ?h)"
      using n(2) by (subst go_copy_fits) auto
    moreover have "go_copy (?L - ?h) (drop ?h (b_data b) @ drop (?L - ?h) packet) (take (n - (?L - ?h)) (b_data b))
        = (drop ?h (b_data b) @ take (n - (?L - ?h)) (b_data b) @ drop n packet, n - (?L - ?h))"
      using n(2) nL False h by (subst go_copy_fits) (auto simp: min_def)
    ultimately show ?thesis using False c by (simp add: buf_copyOut_def)
  qed
qed

lemma frame_length_word:
  assumes "n < 65536"
  shows "unat (push_bit 8 (ucast (of_nat (n div 256) :: byte) :: u16) OR ucast (of_nat n :: byte)) = n"
proof -
  have "of_nat n div 256 = (of_nat (n div 256) :: u16)"
    using assms by (simp add: word_unat_eq_iff unat_div unsigned_of_nat take_bit_nat_eq_self)
  moreover have "ucast (of_nat k :: u16) = (of_nat k :: byte)" for k
    by (simp add: word_unat_eq_iff unsigned_ucast_eq unsigned_of_nat)
  ultimately have "[of_nat (n div 256), of_nat n] = put_u16 (of_nat n)"
    by (simp add: put_u16_def drop_bit_eq_div)
  then have "get_u16 [of_nat (n div 256), of_nat n] = of_nat n" by simp
  then have "push_bit 8 (ucast (of_nat (n div 256) :: byte) :: u16) OR ucast (of_nat n :: byte) = of_nat n"
    by (simp add: get_u16_def or.commute)
  then show ?thesis using assms by (simp add: unsigned_of_nat take_bit_nat_eq_self)
qed


section \<open>The queue of packets\<close>

text \<open>The ring holds the frames of a list of packets, oldest first.\<close>

definition buf_rel :: "Buffer \<Rightarrow> bytes list \<Rightarrow> bool" where
  "buf_rel b q \<longleftrightarrow> buf_wf b \<and> buf_contents b = concat (map frame q) \<and> (\<forall>p \<in> set q. length p < 65536)
     \<and> b_count b = int (length q)"

definition queue_bytes :: "bytes list \<Rightarrow> nat" where
  "queue_bytes q = (\<Sum>p\<leftarrow>q. length p + 2)"

lemma length_frames: "length (concat (map frame q)) = queue_bytes q"
  by (induction q) (auto simp: queue_bytes_def)

lemma buf_rel_len: "buf_rel b q \<Longrightarrow> buf_len b = queue_bytes q"
  using length_frames length_contents unfolding buf_rel_def by metis

lemma buf_rel_empty: "buf_rel b q \<Longrightarrow> b_head b = b_tail b \<longleftrightarrow> q = []"
proof -
  assume r: "buf_rel b q"
  then have "buf_wf b" by (simp add: buf_rel_def)
  then have "b_head b = b_tail b \<longleftrightarrow> buf_len b = 0"
    by (cases "b_data b = []") (auto simp: buf_len_def buf_wf_def)
  then show ?thesis using buf_rel_len [OF r] by (cases q) (auto simp: queue_bytes_def)
qed

lemma NewBuffer_rel: "buf_rel NewBuffer []"
  by (simp add: buf_rel_def NewBuffer_def buf_wf_def buf_contents_def buf_len_def)

text \<open>When \<open>Write\<close> takes a packet of \<open>n\<close> bytes into a buffer that is not closed.\<close>

definition buf_admits :: "bool \<Rightarrow> nat \<Rightarrow> Buffer \<Rightarrow> bytes list \<Rightarrow> bool" where
  "buf_admits hard n b q \<longleftrightarrow> (b_limitCount b > 0 \<longrightarrow> int (length q) < b_limitCount b)
     \<and> (b_limitSize b > 0 \<longrightarrow> int (queue_bytes q) + 2 + int n \<le> b_limitSize b)
     \<and> queue_bytes q + n + 3 \<le> max (length (b_data b)) (buf_capacity hard b)"

lemma buf_rel_snoc:
  assumes "buf_rel b q" and "length p < 65536" and "buf_wf b'" and "buf_contents b' = buf_contents b @ frame p"
    and "b_count b' = b_count b + 1"
  shows "buf_rel b' (q @ [p])"
  using assms by (auto simp: buf_rel_def)

lemma buf_rel_irrelevant: "buf_rel (b\<lparr>b_notify := x\<rparr>) q \<longleftrightarrow> buf_rel b q"
  "buf_wf (b\<lparr>b_count := c\<rparr>) \<longleftrightarrow> buf_wf b" "buf_wf (b\<lparr>b_notify := x\<rparr>) \<longleftrightarrow> buf_wf b"
  "buf_contents (b\<lparr>b_count := c\<rparr>) = buf_contents b" "buf_contents (b\<lparr>b_notify := x\<rparr>) = buf_contents b"
  by (simp_all add: buf_rel_def buf_wf_def buf_contents_def buf_len_def)

lemma buf_Write_ok:
  assumes r: "buf_rel b q" and p: "length p < 65536" and o: "\<not> b_closed b"
  shows "\<exists>b'. buf_Write hard p b = Some ((if buf_admits hard (length p) b q then (length p, None) else (0, Some ErrFull)), b')
     \<and> buf_rel b' (if buf_admits hard (length p) b q then q @ [p] else q)
     \<and> (buf_admits hard (length p) b q \<longrightarrow> b_notify b')
     \<and> b_closed b' = b_closed b \<and> b_limitCount b' = b_limitCount b \<and> b_limitSize b' = b_limitSize b"
proof -
  have wf: "buf_wf b" and cnt: "b_count b = int (length q)" and len: "buf_len b = queue_bytes q"
    and sz: "buf_size b = int (queue_bytes q)"
    using r buf_rel_len [OF r] buf_size_len by (auto simp: buf_rel_def)
  show ?thesis
  proof (cases "b_limitCount b > 0 \<and> b_count b \<ge> b_limitCount b \<or> b_limitSize b > 0 \<and> buf_size b + 2 + int (length p) > b_limitSize b")
    case True
    then show ?thesis using o p r cnt sz by (auto simp: buf_Write_def buf_admits_def)
  next
    case False
    obtain e b1 d h t where g: "buf_growLoop hard (length p) b = Some (e, b1)" "buf_wf b1" "buf_contents b1 = buf_contents b"
      "b1 = b\<lparr>b_head := h, b_tail := t, b_data := d\<rparr>"
      "if queue_bytes q + length p + 3 \<le> max (length (b_data b)) (buf_capacity hard b)
       then e = None \<and> buf_available (length p) b1 else e = Some ErrFull"
      using buf_growLoop_total [OF wf, of hard "length p"] len by auto
    have adm: "buf_admits hard (length p) b q \<longleftrightarrow>
        queue_bytes q + length p + 3 \<le> max (length (b_data b)) (buf_capacity hard b)"
      using False cnt sz by (auto simp: buf_admits_def)
    have r1: "buf_rel b1 q" using r g by (auto simp: buf_rel_def)
    show ?thesis
    proof (cases "buf_admits hard (length p) b q")
      case no: False
      with g(5) adm have "e = Some ErrFull" by simp
      with no show ?thesis using g(1,4) r1 False o p by (auto simp: buf_Write_def)
    next
      case yes: True
      with g(5) adm have e: "e = None" and av: "buf_available (length p) b1" by simp_all
      from av buf_store_ok [OF g(2), of p] obtain d2 t2 where s: "buf_store p b1 = Inr (b1\<lparr>b_data := d2, b_tail := t2\<rparr>)"
        "buf_wf (b1\<lparr>b_data := d2, b_tail := t2\<rparr>)"
        "buf_contents (b1\<lparr>b_data := d2, b_tail := t2\<rparr>) = buf_contents b1 @ frame p"
        using buf_available_iff [OF g(2)] by auto
      let ?b2 = "b1\<lparr>b_data := d2, b_tail := t2\<rparr>"
      have "buf_rel (?b2\<lparr>b_count := b_count ?b2 + 1, b_notify := True\<rparr>) (q @ [p])"
        by (rule buf_rel_snoc [OF r1 p]) (use s in \<open>simp_all add: buf_rel_irrelevant\<close>)
      with yes show ?thesis using g(1,4) e s(1) False o p by (simp add: buf_Write_def)
    qed
  qed
qed


lemma buf_pop_ok:
  assumes r: "buf_rel b (p # q)"
  shows "\<exists>b'. buf_pop packet b =
      (ReadDone (take (length packet) p @ drop (length p) packet) (min (length p) (length packet))
         (if length packet < length p then Some ErrShortBuffer else None), b')
     \<and> buf_rel b' q \<and> b_closed b' = b_closed b \<and> b_limitCount b' = b_limitCount b \<and> b_limitSize b' = b_limitSize b"
proof -
  from r have wf: "buf_wf b" and p: "length p < 65536" and q: "\<forall>x \<in> set q. length x < 65536"
    and cnt: "b_count b = int (length q) + 1"
    and c: "buf_contents b = of_nat (length p div 256) # of_nat (length p) # p @ concat (map frame q)"
    by (auto simp: buf_rel_def frame_def)
  from buf_getByte_ok [OF wf c] obtain h1 where g1: "buf_getByte b = Inr (of_nat (length p div 256), b\<lparr>b_head := h1\<rparr>)"
    "buf_wf (b\<lparr>b_head := h1\<rparr>)" "buf_contents (b\<lparr>b_head := h1\<rparr>) = of_nat (length p) # p @ concat (map frame q)" by blast
  from buf_getByte_ok [OF g1(2,3)] obtain h2 where g2: "buf_getByte (b\<lparr>b_head := h1\<rparr>) = Inr (of_nat (length p), b\<lparr>b_head := h2\<rparr>)"
    "buf_wf (b\<lparr>b_head := h2\<rparr>)" "buf_contents (b\<lparr>b_head := h2\<rparr>) = p @ concat (map frame q)" by auto
  let ?b2 = "b\<lparr>b_head := h2\<rparr>" and ?L = "length (b_data b)"
  let ?h = "ring_pos ?L (h2 + length p)"
  have ne: "b_data b \<noteq> []" using c by (auto simp: buf_contents_def)
  have len2: "length p \<le> buf_len ?b2" using length_contents [OF g2(2)] g2(3) by simp
  have adv: "buf_wf (b\<lparr>b_head := ?h\<rparr>)" "buf_contents (b\<lparr>b_head := ?h\<rparr>) = concat (map frame q)"
    using ring_advance [OF g2(2) len2] ne g2(3) by simp_all
  have out: "buf_copyOut (min (length p) (length packet)) packet ?b2 = take (length packet) p @ drop (length p) packet"
    using buf_copyOut_ok [OF g2(2), of "min (length p) (length packet)" packet] len2 g2(3)
    by (auto simp: min_def)
  let ?b3 = "if ?h = b_tail b then ?b2\<lparr>b_head := 0, b_tail := 0\<rparr> else ?b2\<lparr>b_head := ?h\<rparr>"
  have "buf_wf ?b3 \<and> buf_contents ?b3 = concat (map frame q)"
  proof (cases "?h = b_tail b")
    case True
    then have "buf_len (b\<lparr>b_head := ?h\<rparr>) = 0" by (simp add: buf_len_def)
    then have "concat (map frame q) = []" using length_contents [OF adv(1)] adv(2) by (metis length_0_conv)
    then show ?thesis using True ne by (simp add: buf_wf_def buf_contents_def buf_len_def)
  next
    case False
    then show ?thesis using adv by simp
  qed
  then have rel: "buf_rel (?b3\<lparr>b_count := b_count ?b3 - 1\<rparr>) q" using q cnt by (auto simp: buf_rel_def buf_rel_irrelevant)
  have mn: "(if length packet < length p then length packet else length p) = min (length p) (length packet)" by auto
  have hn: "(if ?L \<le> h2 + length p then h2 + length p - ?L else h2 + length p) = ?h" by (auto simp: ring_pos_def)
  have "buf_pop packet b = buf_take (length p) packet ?b2"
    by (simp add: buf_pop_def g1(1) g2(1) frame_length_word [OF p])
  also have "\<dots> = (ReadDone (take (length packet) p @ drop (length p) packet) (min (length p) (length packet))
         (if length packet < length p then Some ErrShortBuffer else None), ?b3\<lparr>b_count := b_count ?b3 - 1\<rparr>)"
    by (simp add: buf_take_def Let_def mn hn out del: if_split) (auto simp: min_def ring_pos_def)
  finally show ?thesis using rel by auto
qed

lemma buf_readLoop_ok:
  assumes "buf_rel b (p # q)"
  shows "\<exists>b'. buf_readLoop packet b =
      (ReadDone (take (length packet) p @ drop (length p) packet) (min (length p) (length packet))
         (if length packet < length p then Some ErrShortBuffer else None), b')
     \<and> buf_rel b' q \<and> b_closed b' = b_closed b \<and> b_limitCount b' = b_limitCount b \<and> b_limitSize b' = b_limitSize b"
  using buf_pop_ok [OF assms] buf_rel_empty [OF assms] by (simp add: buf_readLoop_def)

lemma buf_readLoop_whole:
  assumes "buf_rel b (p # q)" and "length p \<le> length packet"
  shows "\<exists>b'. buf_readLoop packet b = (ReadDone (p @ drop (length p) packet) (length p) None, b') \<and> buf_rel b' q"
  using buf_readLoop_ok [OF assms(1), of packet] assms(2) by (auto simp: min_def)

lemma buf_readLoop_empty:
  "buf_rel b [] \<Longrightarrow> buf_readLoop packet b = (if b_closed b then ReadDone packet 0 (Some BufEOF) else Blocked, b)"
  using buf_rel_empty [of b "[]"] by (simp add: buf_readLoop_def)


section \<open>Writers and readers together\<close>

text \<open>A writer sees whether its packet was taken; a reader with a slice of the largest packet size sees whole packets.\<close>

definition buf_push :: "bool \<Rightarrow> bytes \<Rightarrow> Buffer \<Rightarrow> bool \<times> Buffer" where
  "buf_push hard p b = (case buf_Write hard p b of
       Some ((_, None), b') \<Rightarrow> (True, b') | Some ((_, Some _), b') \<Rightarrow> (False, b') | None \<Rightarrow> (False, b))"

definition buf_pullInto :: "bytes \<Rightarrow> Buffer \<Rightarrow> bytes option \<times> Buffer" where
  "buf_pullInto dst b = (case buf_Read False dst b of
       (ReadDone packet n None, b') \<Rightarrow> (Some (take n packet), b') | (_, b') \<Rightarrow> (None, b'))"

definition buf_pull :: "Buffer \<Rightarrow> bytes option \<times> Buffer" where
  "buf_pull = buf_pullInto (replicate 65535 0)"

lemma buf_push_rel: "buf_rel b q \<Longrightarrow> \<exists>ok b'. buf_push hard p b = (ok, b') \<and> buf_rel b' (if ok then q @ [p] else q)"
proof (cases "length p < 65536 \<and> \<not> b_closed b")
  case True
  assume "buf_rel b q"
  from buf_Write_ok [OF this, of p hard] True obtain b'
    where "buf_Write hard p b = Some (if buf_admits hard (length p) b q then (length p, None) else (0, Some ErrFull), b')"
      and "buf_rel b' (if buf_admits hard (length p) b q then q @ [p] else q)" by auto
  then show ?thesis by (cases "buf_admits hard (length p) b q") (auto simp: buf_push_def)
next
  case False
  assume "buf_rel b q"
  with False show ?thesis by (auto simp: buf_push_def buf_Write_def)
qed

lemma buf_pullInto_rel:
  assumes r: "buf_rel b q" and s: "65535 \<le> length dst"
  shows "\<exists>b'. buf_pullInto dst b = (case q of [] \<Rightarrow> None | p # _ \<Rightarrow> Some p, b') \<and> buf_rel b' (tl q)"
proof (cases q)
  case Nil
  with r show ?thesis by (auto simp: buf_pullInto_def buf_Read_def buf_readLoop_empty)
next
  case (Cons p q')
  have "length p \<le> length dst" using r s Cons by (simp add: buf_rel_def)
  from buf_readLoop_whole [OF r [unfolded Cons] this] Cons show ?thesis
    by (auto simp: buf_pullInto_def buf_Read_def)
qed

lemma buf_pull_rel: "buf_rel b q \<Longrightarrow> \<exists>b'. buf_pull b = (case q of [] \<Rightarrow> None | p # _ \<Rightarrow> Some p, b') \<and> buf_rel b' (tl q)"
  unfolding buf_pull_def by (rule buf_pullInto_rel) (simp_all only: length_replicate order_refl)

interpretation bufq: fifo_queue buf_rel "buf_push hard" buf_pull for hard
  by unfold_locales (use buf_push_rel buf_pull_rel in blast)+


text \<open>
  C32. \<open>Write\<close> always returns, although it grows the ring in a loop: on a buffer that holds the packets \<open>q\<close> it gives
  the error for an oversized packet, for a closed buffer, or \<open>ErrFull\<close> exactly when one of the limits or the largest
  ring forbids the packet, and otherwise stores it; no index is ever out of range.
\<close>

theorem buffer_write_returns:
  assumes "buf_rel b q"
  shows "\<exists>b'. buf_Write hard p b =
      Some ((if length p \<ge> 65536 then (0, Some ErrPacketTooBig)
             else if b_closed b then (0, Some ErrClosedPipe)
             else if buf_admits hard (length p) b q then (length p, None)
             else (0, Some ErrFull)), b')
     \<and> buf_rel b' (if length p < 65536 \<and> \<not> b_closed b \<and> buf_admits hard (length p) b q then q @ [p] else q)"
proof (cases "length p < 65536 \<and> \<not> b_closed b")
  case True
  with buf_Write_ok [OF assms, of p hard] show ?thesis by auto
next
  case False
  with assms show ?thesis by (auto simp: buf_Write_def)
qed

theorem buffer_write_returns_witness:
  "buf_rel NewBuffer [] \<and> (\<exists>b'. buf_Write False [1, 2, 3] NewBuffer = Some ((3, None), b') \<and> buf_rel b' [[1, 2, 3]])"
proof -
  have r: "buf_rel NewBuffer []" by (rule NewBuffer_rel)
  have "buf_admits False (length [1, 2, 3 :: byte]) NewBuffer []" and "\<not> b_closed NewBuffer"
    by (simp_all add: buf_admits_def NewBuffer_def buf_capacity_def queue_bytes_def maxSize_def)
  with buffer_write_returns [OF r, of False "[1, 2, 3]"] r show ?thesis by (simp add: numeral_3_eq_3)
qed

text \<open>
  Closing does not lose packets: a reader of a closed buffer gets what is queued and then \<open>EOF\<close>, and a blocked
  reader is woken by the write of a packet and gets it.
\<close>

lemma buf_rel_Close: "buf_rel (buf_Close b) q \<longleftrightarrow> buf_rel b q"
  by (simp add: buf_Close_def buf_rel_def buf_wf_def buf_contents_def buf_len_def)

lemma closed_buffer_drains:
  assumes "buf_rel b q"
  shows "fst (buf_Read False packet (buf_Close b)) =
     (case q of [] \<Rightarrow> ReadDone packet 0 (Some BufEOF)
      | p # _ \<Rightarrow> ReadDone (take (length packet) p @ drop (length p) packet) (min (length p) (length packet))
          (if length packet < length p then Some ErrShortBuffer else None))"
proof -
  have r: "buf_rel (buf_Close b) q" using assms by (simp add: buf_rel_Close)
  show ?thesis
  proof (cases q)
    case Nil
    with r show ?thesis by (simp add: buf_Read_def buf_readLoop_empty) (simp add: buf_Close_def)
  next
    case (Cons p q')
    with buf_readLoop_ok [OF r [unfolded Cons], of packet] show ?thesis by (auto simp: buf_Read_def)
  qed
qed

lemma blocked_reader_woken:
  assumes "buf_rel b []" and "\<not> b_closed b" and "buf_Write hard p b = Some ((n, None), b')" and "length p \<le> length packet"
  shows "fst (buf_wake ByNotify packet b') = ReadDone (p @ drop (length p) packet) (length p) None"
proof -
  have "length p < 65536" using assms(3) by (auto simp: buf_Write_def split: if_splits)
  from buf_Write_ok [OF assms(1) this assms(2), of hard] assms(3)
  have n: "b_notify b'" and "buf_rel b' [p]" by (auto split: if_splits)
  then have "buf_rel (b'\<lparr>b_notify := False\<rparr>) [p]" by (simp add: buf_rel_irrelevant)
  from buf_readLoop_whole [OF this assms(4)] n show ?thesis by (auto simp: buf_wake_def)
qed

end
