(* ===== verification/WebrtcMux.thy ===== *)
theory WebrtcMux
  imports TransportBuffer
begin

text \<open>
  The packet demultiplexer of \<open>pion-webrtc/internal/mux\<close>: the match functions of \<open>muxfunc.go\<close>, the endpoints of
  \<open>endpoint.go\<close>, each with a packet buffer, and the read loop of \<open>mux.go\<close>. The connection below (an ICE connection)
  is what its reads return. Endpoints are pointers: the multiplexer's map holds indices into a heap of buffers.
\<close>

section \<open>Match functions\<close>

type_synonym MatchFunc = "bytes \<Rightarrow> bool"

definition MatchAll :: MatchFunc where
  "MatchAll b = True"

definition MatchRange :: "byte \<Rightarrow> byte \<Rightarrow> MatchFunc" where
  "MatchRange lower upper buf = (if length buf < 1 then False else buf ! 0 \<ge> lower \<and> buf ! 0 \<le> upper)"

definition MatchDTLS :: MatchFunc where
  "MatchDTLS b = MatchRange 20 63 b"

definition MatchSRTPOrSRTCP :: MatchFunc where
  "MatchSRTPOrSRTCP b = MatchRange 128 191 b"

definition isRTCP :: MatchFunc where
  "isRTCP buf = (if length buf < 4 then False else buf ! 1 \<ge> 192 \<and> buf ! 1 \<le> 223)"

definition MatchSRTP :: MatchFunc where
  "MatchSRTP buf = (MatchSRTPOrSRTCP buf \<and> \<not> isRTCP buf)"

definition MatchSRTCP :: MatchFunc where
  "MatchSRTCP buf = (MatchSRTPOrSRTCP buf \<and> isRTCP buf)"

section \<open>The multiplexer\<close>

definition maxBufferSize :: int where "maxBufferSize = 1000 * 1000"

datatype mux_conn_error = ConnEOF | IceErrClosed | ConnShortBuffer | ConnTimeout | ErrNoCandidatePairs | ConnErrClosedPipe | ConnOther string

record Mux =
  m_endpoints :: "(nat, MatchFunc) gomap"
  m_bufferSize :: nat
  m_closedCh :: bool
  m_heap :: "Buffer list"

definition NewMux :: "nat \<Rightarrow> Mux" where
  "NewMux bufferSize = \<lparr>m_endpoints = [], m_bufferSize = bufferSize, m_closedCh = False, m_heap = []\<rparr>"

definition NewEndpoint :: "MatchFunc \<Rightarrow> Mux \<Rightarrow> nat \<times> Mux" where
  "NewEndpoint f m =
     (let e = length (m_heap m); buffer = buf_SetLimitSize maxBufferSize NewBuffer
      in (e, m\<lparr>m_heap := m_heap m @ [buffer], m_endpoints := AList.update e f (m_endpoints m)\<rparr>))"

definition RemoveEndpoint :: "nat \<Rightarrow> Mux \<Rightarrow> Mux" where
  "RemoveEndpoint e m = m\<lparr>m_endpoints := AList.delete e (m_endpoints m)\<rparr>"

definition endpoint_close :: "nat \<Rightarrow> Mux \<Rightarrow> Mux" where
  "endpoint_close e m = m\<lparr>m_heap := (m_heap m)[e := buf_Close (m_heap m ! e)]\<rparr>"

definition Endpoint_Close :: "nat \<Rightarrow> Mux \<Rightarrow> Mux" where
  "Endpoint_Close e m = RemoveEndpoint e (endpoint_close e m)"

definition Endpoint_Read :: "nat \<Rightarrow> bytes \<Rightarrow> Mux \<Rightarrow> read_result \<times> Mux" where
  "Endpoint_Read e p m =
     (let (r, b) = buf_Read False p (m_heap m ! e) in (r, m\<lparr>m_heap := (m_heap m)[e := b]\<rparr>))"

text \<open>What a write to the connection below returned, as the endpoint reports it.\<close>

definition Endpoint_Write :: "nat \<times> mux_conn_error option \<Rightarrow> nat \<times> mux_conn_error option" where
  "Endpoint_Write r = (case snd r of
       Some ErrNoCandidatePairs \<Rightarrow> (0, None)
     | Some IceErrClosed \<Rightarrow> (0, Some ConnErrClosedPipe)
     | _ \<Rightarrow> r)"

text \<open>\<open>Close\<close>: every endpoint is closed and removed, then the connection; the read loop ends with the connection.\<close>

definition Mux_Close :: "mux_conn_error option \<Rightarrow> Mux \<Rightarrow> mux_conn_error option \<times> Mux" where
  "Mux_Close connErr m =
     (let m' = foldl (\<lambda>m e. RemoveEndpoint e (endpoint_close e m)) m (map fst (m_endpoints m))
      in case connErr of Some e \<Rightarrow> (Some e, m') | None \<Rightarrow> (None, m'\<lparr>m_closedCh := True\<rparr>))"

text \<open>
  \<open>dispatch\<close> takes the first endpoint of the iteration that matches; a full buffer drops the packet and is no error. Go
  iterates over a map in an order that it draws for each loop: \<open>order\<close> gives the entries in the order of this one.
\<close>

type_synonym map_order = "(nat, MatchFunc) gomap \<Rightarrow> (nat, MatchFunc) gomap"

definition dispatch :: "bool \<Rightarrow> map_order \<Rightarrow> bytes \<Rightarrow> Mux \<Rightarrow> (buf_error option \<times> Mux) option" where
  "dispatch hard order buf m =
     (case find (\<lambda>(e, f). f buf) (order (m_endpoints m)) of
        None \<Rightarrow> Some (None, m)
      | Some (e, _) \<Rightarrow> (case buf_Write hard buf (m_heap m ! e) of
          None \<Rightarrow> None
        | Some ((_, err), b) \<Rightarrow>
            Some (if err = Some ErrFull then None else err, m\<lparr>m_heap := (m_heap m)[e := b]\<rparr>)))"

text \<open>
  \<open>readLoop\<close> over what the reads of the connection return, each a packet cut to the loop's buffer; the flag says
  whether the loop has ended, which closes \<open>closedCh\<close>. The orders are those of the successive calls of \<open>dispatch\<close>.
\<close>

fun readLoop :: "bool \<Rightarrow> (nat \<Rightarrow> map_order) \<Rightarrow> (mux_conn_error + bytes) list \<Rightarrow> Mux \<Rightarrow> Mux option" where
  "readLoop hard orders [] m = Some m"
| "readLoop hard orders (Inl err # rs) m =
     (if err = ConnEOF \<or> err = IceErrClosed then Some (m\<lparr>m_closedCh := True\<rparr>)
      else if err = ConnShortBuffer \<or> err = ConnTimeout then readLoop hard orders rs m
      else Some (m\<lparr>m_closedCh := True\<rparr>))"
| "readLoop hard orders (Inr packet # rs) m =
     (case dispatch hard (orders 0) (take (m_bufferSize m) packet) m of
        None \<Rightarrow> None
      | Some (Some e, m') \<Rightarrow> Some (m'\<lparr>m_closedCh := True\<rparr>)
      | Some (None, m') \<Rightarrow> readLoop hard (\<lambda>k. orders (Suc k)) rs m')"

text \<open>An order of the entries of a map has all of them and no others.\<close>

definition is_order :: "map_order \<Rightarrow> bool" where
  "is_order order \<longleftrightarrow> (\<forall>es. set (order es) = set es)"

section \<open>Routing\<close>

lemma match_disjoint:
  "\<not> (MatchDTLS p \<and> MatchSRTP p)" "\<not> (MatchDTLS p \<and> MatchSRTCP p)" "\<not> (MatchSRTP p \<and> MatchSRTCP p)"
  by (auto simp: MatchDTLS_def MatchSRTP_def MatchSRTCP_def MatchSRTPOrSRTCP_def MatchRange_def word_le_nat_alt)

text \<open>RFC 7983: STUN and TURN channel packets go to none of the three.\<close>

lemma match_none:
  "p \<noteq> [] \<Longrightarrow> unat (p ! 0) < 20 \<or> 64 \<le> unat (p ! 0) \<and> unat (p ! 0) < 128 \<or> 192 \<le> unat (p ! 0)
     \<Longrightarrow> \<not> MatchDTLS p \<and> \<not> MatchSRTP p \<and> \<not> MatchSRTCP p"
  by (auto simp: MatchDTLS_def MatchSRTP_def MatchSRTCP_def MatchSRTPOrSRTCP_def MatchRange_def word_le_nat_alt)

definition matchers_disjoint :: "Mux \<Rightarrow> bool" where
  "matchers_disjoint m \<longleftrightarrow> (\<forall>(e, f) \<in> set (m_endpoints m). \<forall>(e', f') \<in> set (m_endpoints m).
     e \<noteq> e' \<longrightarrow> (\<forall>p. \<not> (f p \<and> f' p)))"

text \<open>The state of the multiplexer, with the queue of every endpoint.\<close>

definition mux_rel :: "Mux \<Rightarrow> (nat \<Rightarrow> bytes list) \<Rightarrow> bool" where
  "mux_rel m q \<longleftrightarrow> gomap_ok (m_endpoints m) \<and> matchers_disjoint m
     \<and> (\<forall>(e, f) \<in> set (m_endpoints m). e < length (m_heap m) \<and> buf_rel (m_heap m ! e) (q e)
          \<and> \<not> b_closed (m_heap m ! e) \<and> b_limitSize (m_heap m ! e) = maxBufferSize \<and> b_limitCount (m_heap m ! e) = 0)"

text \<open>What an endpoint does with the packets of the connection: it takes those that match and fit into its megabyte.\<close>

definition tail_drop :: "MatchFunc \<Rightarrow> bytes list \<Rightarrow> bytes \<Rightarrow> bytes list" where
  "tail_drop f q p = (if f p \<and> queue_bytes (q @ [p]) \<le> 1000000 then q @ [p] else q)"

lemma admits_megabyte:
  "b_limitSize b = maxBufferSize \<Longrightarrow> b_limitCount b = 0 \<Longrightarrow>
     buf_admits hard (length p) b q \<longleftrightarrow> queue_bytes (q @ [p]) \<le> 1000000"
  by (auto simp: buf_admits_def maxBufferSize_def buf_capacity_def queue_bytes_def maxSize_def)

lemma find_SomeD: "find P xs = Some x \<Longrightarrow> x \<in> set xs \<and> P x"
  by (auto simp: find_Some_iff)

lemma same_endpoint:
  "matchers_disjoint m \<Longrightarrow> (e, f) \<in> set (m_endpoints m) \<Longrightarrow> (e', f') \<in> set (m_endpoints m) \<Longrightarrow> f p \<Longrightarrow> f' p \<Longrightarrow> e' = e"
  unfolding matchers_disjoint_def by fastforce

lemma same_matcher:
  "gomap_ok (m_endpoints m) \<Longrightarrow> (e, f) \<in> set (m_endpoints m) \<Longrightarrow> (e, f') \<in> set (m_endpoints m) \<Longrightarrow> f' = f"
  unfolding gomap_ok_def by (rule eq_key_imp_eq_value)

lemma dispatch_rel:
  assumes r: "mux_rel m q" and p: "length p < 65536" and o: "is_order order"
  shows "\<exists>m' q'. dispatch hard order p m = Some (None, m') \<and> mux_rel m' q' \<and> m_endpoints m' = m_endpoints m
     \<and> m_bufferSize m' = m_bufferSize m \<and> m_closedCh m' = m_closedCh m
     \<and> (\<forall>(e, f) \<in> set (m_endpoints m). q' e = tail_drop f (q e) p)"
proof (cases "find (\<lambda>(e, f). f p) (order (m_endpoints m))")
  case None
  then have "dispatch hard order p m = Some (None, m)" by (simp add: dispatch_def)
  moreover have "\<forall>(e, f) \<in> set (m_endpoints m). q e = tail_drop f (q e) p"
    using None o by (auto simp: find_None_iff tail_drop_def is_order_def)
  ultimately show ?thesis using r by blast
next
  case (Some x)
  obtain e f where x: "x = (e, f)" by (cases x)
  then have mem: "(e, f) \<in> set (m_endpoints m)" and fp: "f p" using find_SomeD [OF Some] o by (auto simp: is_order_def)
  let ?b = "m_heap m ! e"
  from mem have e: "e < length (m_heap m)" "buf_rel ?b (q e)" "\<not> b_closed ?b" "b_limitSize ?b = maxBufferSize" "b_limitCount ?b = 0"
    using r by (auto simp: mux_rel_def)
  from buf_Write_ok [OF e(2) p e(3), of hard, unfolded admits_megabyte [OF e(4,5)]] obtain b' where
    w: "buf_Write hard p ?b = Some (if queue_bytes (q e @ [p]) \<le> 1000000 then (length p, None) else (0, Some ErrFull), b')"
    and b': "buf_rel b' (tail_drop f (q e) p)" "\<not> b_closed b'" "b_limitSize b' = maxBufferSize" "b_limitCount b' = 0"
    using e(3-5) fp by (auto simp: tail_drop_def)
  let ?m = "m\<lparr>m_heap := (m_heap m)[e := b']\<rparr>" and ?q = "q(e := tail_drop f (q e) p)"
  have "dispatch hard order p m = Some (None, ?m)" using Some x w by (simp add: dispatch_def)
  moreover have "mux_rel ?m ?q"
    using r b' e(1) by (auto simp: mux_rel_def matchers_disjoint_def nth_list_update split: if_splits)
  moreover have "?q e' = tail_drop f' (q e') p" if "(e', f') \<in> set (m_endpoints m)" for e' f'
    using r that same_matcher [of m e f f'] same_endpoint [of m e f e' f' p] mem fp
    by (auto simp: mux_rel_def tail_drop_def)
  ultimately show ?thesis by (intro exI [of _ ?m] exI [of _ ?q]) auto
qed

lemma readLoop_rel:
  assumes "mux_rel m q" and "\<forall>p \<in> set ps. length p < 65536 \<and> length p \<le> m_bufferSize m" and "\<forall>k. is_order (orders k)"
  shows "\<exists>m' q'. readLoop hard orders (map Inr ps) m = Some m' \<and> mux_rel m' q' \<and> m_endpoints m' = m_endpoints m
     \<and> m_closedCh m' = m_closedCh m
     \<and> (\<forall>(e, f) \<in> set (m_endpoints m). q' e = foldl (tail_drop f) (q e) ps)"
  using assms
proof (induction ps arbitrary: m q orders)
  case Nil
  then show ?case by (intro exI [of _ m] exI [of _ q]) auto
next
  case (Cons p ps)
  from dispatch_rel [OF Cons.prems(1), of p "orders 0" hard] Cons.prems(2,3) obtain m1 q1 where d: "dispatch hard (orders 0) p m = Some (None, m1)"
    "mux_rel m1 q1" "m_endpoints m1 = m_endpoints m" "m_bufferSize m1 = m_bufferSize m" "m_closedCh m1 = m_closedCh m"
    "\<forall>(e, f) \<in> set (m_endpoints m). q1 e = tail_drop f (q e) p" by auto
  from Cons.IH [OF d(2), of "\<lambda>k. orders (Suc k)"] Cons.prems(2,3) d(4) obtain m2 q2 where l: "readLoop hard (\<lambda>k. orders (Suc k)) (map Inr ps) m1 = Some m2"
    "mux_rel m2 q2" "m_endpoints m2 = m_endpoints m" "m_closedCh m2 = m_closedCh m"
    "\<forall>(e, f) \<in> set (m_endpoints m). q2 e = foldl (tail_drop f) (q1 e) ps" using d(3,5) by auto
  have "readLoop hard orders (map Inr (p # ps)) m = Some m2" using d(1) l(1) Cons.prems(2) by simp
  moreover have "\<forall>(e, f) \<in> set (m_endpoints m). q2 e = foldl (tail_drop f) (q e) (p # ps)" using l(5) d(6) by fastforce
  ultimately show ?case using l(2-4) by blast
qed

lemma tail_drop_all:
  "queue_bytes (q @ filter f ps) \<le> 1000000 \<Longrightarrow> foldl (tail_drop f) q ps = q @ filter f ps"
proof (induction ps arbitrary: q)
  case (Cons p ps)
  then show ?case by (auto simp: tail_drop_def queue_bytes_def)
qed simp

section \<open>The multiplexer of a DTLS transport\<close>

text \<open>
  The three endpoints that a DTLS transport makes, in the iteration order of the map.
\<close>

definition transport_mux :: "nat \<Rightarrow> Mux" where
  "transport_mux n = snd (NewEndpoint MatchSRTCP (snd (NewEndpoint MatchSRTP (snd (NewEndpoint MatchDTLS (NewMux n))))))"

lemma transport_mux_endpoints: "m_endpoints (transport_mux n) = [(0, MatchDTLS), (1, MatchSRTP), (2, MatchSRTCP)]"
  by (simp add: transport_mux_def NewEndpoint_def NewMux_def Let_def)

lemma transport_mux_heap: "m_heap (transport_mux n) = replicate 3 (buf_SetLimitSize maxBufferSize NewBuffer)"
  by (simp add: transport_mux_def NewEndpoint_def NewMux_def Let_def numeral_3_eq_3)

lemma transport_mux_fields: "m_bufferSize (transport_mux n) = n" "\<not> m_closedCh (transport_mux n)"
  by (simp_all add: transport_mux_def NewEndpoint_def NewMux_def Let_def)

lemma fresh_endpoint:
  "buf_rel (buf_SetLimitSize maxBufferSize NewBuffer) []" "\<not> b_closed (buf_SetLimitSize maxBufferSize NewBuffer)"
  "b_limitSize (buf_SetLimitSize maxBufferSize NewBuffer) = maxBufferSize"
  "b_limitCount (buf_SetLimitSize maxBufferSize NewBuffer) = 0"
  by (simp_all add: NewBuffer_def buf_SetLimitSize_def buf_rel_def buf_wf_def buf_contents_def buf_len_def)

lemma transport_mux_rel:
  assumes "set eps = set (m_endpoints (transport_mux n))" and "gomap_ok eps"
  shows "mux_rel (transport_mux n\<lparr>m_endpoints := eps\<rparr>) (\<lambda>_. [])"
proof -
  have eps: "set eps = {(0, MatchDTLS), (1, MatchSRTP), (2, MatchSRTCP)}" using assms(1) by (simp add: transport_mux_endpoints)
  have "matchers_disjoint (transport_mux n\<lparr>m_endpoints := eps\<rparr>)"
    using match_disjoint by (simp add: matchers_disjoint_def eps) blast
  then show ?thesis using assms(2) fresh_endpoint
    by (auto simp: mux_rel_def eps transport_mux_heap)
qed

text \<open>
  C16. Every packet of the connection goes to the endpoint of its kind and to no other, in order, and in whatever orders
  the map is iterated for the packets: the queues of the DTLS, SRTP and SRTCP endpoints are exactly the packets that match and fit
  into the megabyte of the endpoint, and the read loop goes on.
\<close>

theorem mux_routes_by_kind:
  assumes "set eps = set (m_endpoints (transport_mux n))" and "gomap_ok eps" and "n < 65536"
    and "\<forall>p \<in> set ps. length p \<le> n" and "\<forall>k. is_order (orders k)"
  shows "\<exists>m'. readLoop hard orders (map Inr ps) (transport_mux n\<lparr>m_endpoints := eps\<rparr>) = Some m' \<and> \<not> m_closedCh m'
     \<and> buf_rel (m_heap m' ! 0) (foldl (tail_drop MatchDTLS) [] ps)
     \<and> buf_rel (m_heap m' ! 1) (foldl (tail_drop MatchSRTP) [] ps)
     \<and> buf_rel (m_heap m' ! 2) (foldl (tail_drop MatchSRTCP) [] ps)"
proof -
  have "\<forall>p \<in> set ps. length p < 65536 \<and> length p \<le> m_bufferSize (transport_mux n\<lparr>m_endpoints := eps\<rparr>)"
    using assms(3,4) by (auto simp: transport_mux_fields)
  from readLoop_rel [OF transport_mux_rel [OF assms(1,2)] this assms(5), of hard] obtain m' q'
    where m': "readLoop hard orders (map Inr ps) (transport_mux n\<lparr>m_endpoints := eps\<rparr>) = Some m'" "mux_rel m' q'" "m_endpoints m' = eps"
      "\<not> m_closedCh m'" "\<forall>(e, f) \<in> set eps. q' e = foldl (tail_drop f) [] ps"
    by (auto simp: transport_mux_fields)
  have "buf_rel (m_heap m' ! e) (foldl (tail_drop f) [] ps)" if "(e, f) \<in> set eps" for e f
    using m'(2,3,5) that by (fastforce simp: mux_rel_def)
  with m'(1,4) assms(1) show ?thesis by (simp add: transport_mux_endpoints)
qed

theorem mux_routes_by_kind_witness:
  "\<exists>m'. readLoop False (\<lambda>k. if even k then rev else id) (map Inr [[22, 1], [128, 96, 0, 1], [129, 200, 0, 7], [1, 0]])
       (transport_mux 1460\<lparr>m_endpoints := [(2, MatchSRTCP), (0, MatchDTLS), (1, MatchSRTP)]\<rparr>) = Some m'
     \<and> buf_rel (m_heap m' ! 0) [[22, 1]] \<and> buf_rel (m_heap m' ! 1) [[128, 96, 0, 1]] \<and> buf_rel (m_heap m' ! 2) [[129, 200, 0, 7]]"
proof -
  let ?ps = "[[22, 1], [128, 96, 0, 1], [129, 200, 0, 7], [1, 0 :: byte]]"
  have q: "foldl (tail_drop MatchDTLS) [] ?ps = [[22, 1]]" "foldl (tail_drop MatchSRTP) [] ?ps = [[128, 96, 0, 1]]"
    "foldl (tail_drop MatchSRTCP) [] ?ps = [[129, 200, 0, 7]]"
    by (simp_all add: tail_drop_def queue_bytes_def MatchDTLS_def MatchSRTP_def MatchSRTCP_def MatchSRTPOrSRTCP_def
        MatchRange_def isRTCP_def word_le_nat_alt)
  have "\<exists>m'. readLoop False (\<lambda>k. if even k then rev else id) (map Inr ?ps) (transport_mux 1460\<lparr>m_endpoints := [(2, MatchSRTCP), (0, MatchDTLS), (1, MatchSRTP)]\<rparr>) = Some m'
     \<and> \<not> m_closedCh m' \<and> buf_rel (m_heap m' ! 0) (foldl (tail_drop MatchDTLS) [] ?ps)
     \<and> buf_rel (m_heap m' ! 1) (foldl (tail_drop MatchSRTP) [] ?ps)
     \<and> buf_rel (m_heap m' ! 2) (foldl (tail_drop MatchSRTCP) [] ?ps)"
    by (rule mux_routes_by_kind) (auto simp: transport_mux_endpoints gomap_ok_def is_order_def)
  then show ?thesis unfolding q by blast
qed

end
