(* ===== verification/WebrtcOperations.thy ===== *)
theory WebrtcOperations
  imports Prelude
begin

text \<open>
  The operations queue of \<open>pion-webrtc/operations.go\<close>: callers append operations under a mutex, and a goroutine
  \<open>start\<close> runs them one after the other and ends when the queue is empty. Goroutines interleave between the critical
  sections, so the queue is a transition system whose steps are the critical sections; nothing in it says that there
  is one worker only, which is a theorem.
\<close>

section \<open>State and steps\<close>

text \<open>
  Where a goroutine that executes \<open>start\<close> stands: before \<open>pop\<close>, inside an operation, after the loop, inside
  \<open>onNegotiationNeeded\<close> of the peer connection (before its test, and before what it does then: set the flag when
  operations are queued, enqueue \<open>negotiationNeededOp\<close> otherwise), or at the deferred function.
\<close>

datatype 'o worker = AtPop | Running 'o | AtFlag | AtNegotiation | AtSetFlag | AtEnqueue | AtDefer

text \<open>
  \<open>op_started\<close> and \<open>op_enqueued\<close> record the operations in the order in which they were started and queued;
  \<open>op_setters\<close> counts the other goroutines that have left the test of \<open>onNegotiationNeeded\<close> to set the flag.
\<close>

record 'o operations =
  op_busy :: bool
  op_ops :: "'o list"
  op_updateFlag :: bool
  op_workers :: "'o worker list"
  op_started :: "'o list"
  op_enqueued :: "'o list"
  op_setters :: nat

definition newOperations :: "'o operations" where
  "newOperations = \<lparr>op_busy = False, op_ops = [], op_updateFlag = False, op_workers = [], op_started = [], op_enqueued = [], op_setters = 0\<rparr>"

definition ops_IsEmpty :: "'o operations \<Rightarrow> bool" where
  "ops_IsEmpty s = (length (op_ops s) = 0)"

text \<open>\<open>Enqueue\<close>: a nil operation is ignored; the caller that finds the queue idle starts a goroutine.\<close>

definition ops_Enqueue :: "'o option \<Rightarrow> 'o operations \<Rightarrow> 'o operations" where
  "ops_Enqueue mo s = (case mo of
       None \<Rightarrow> s
     | Some x \<Rightarrow>
         let running = op_busy s;
             s = s\<lparr>op_ops := op_ops s @ [x], op_busy := True, op_enqueued := op_enqueued s @ [x]\<rparr>
         in if \<not> running then s\<lparr>op_workers := op_workers s @ [AtPop]\<rparr> else s)"

definition ops_pop :: "'o operations \<Rightarrow> 'o option \<times> 'o operations" where
  "ops_pop s = (case op_ops s of
       [] \<Rightarrow> (None, s)
     | x # xs \<Rightarrow> (Some x, s\<lparr>op_ops := xs, op_started := op_started s @ [x]\<rparr>))"

text \<open>One step of worker \<open>i\<close> of \<open>start\<close>, by where it stands.\<close>

definition start_step :: "'o \<Rightarrow> nat \<Rightarrow> 'o operations \<Rightarrow> 'o operations" where
  "start_step negOp i s = (case op_workers s ! i of
       AtPop \<Rightarrow> (case ops_pop s of
           (Some x, s') \<Rightarrow> s'\<lparr>op_workers := (op_workers s)[i := Running x]\<rparr>
         | (None, s') \<Rightarrow> s'\<lparr>op_workers := (op_workers s)[i := AtFlag]\<rparr>)
     | Running x \<Rightarrow> s\<lparr>op_workers := (op_workers s)[i := AtPop]\<rparr>
     | AtFlag \<Rightarrow>
         (if \<not> op_updateFlag s then s\<lparr>op_workers := (op_workers s)[i := AtDefer]\<rparr>
          else s\<lparr>op_updateFlag := False, op_workers := (op_workers s)[i := AtNegotiation]\<rparr>)
     | AtNegotiation \<Rightarrow> s\<lparr>op_workers := (op_workers s)[i := if \<not> ops_IsEmpty s then AtSetFlag else AtEnqueue]\<rparr>
     | AtSetFlag \<Rightarrow> s\<lparr>op_updateFlag := True, op_workers := (op_workers s)[i := AtDefer]\<rparr>
     | AtEnqueue \<Rightarrow>
         (let s' = ops_Enqueue (Some negOp) s in s'\<lparr>op_workers := (op_workers s')[i := AtDefer]\<rparr>)
     | AtDefer \<Rightarrow>
         (let ws = take i (op_workers s) @ drop (i + 1) (op_workers s)
          in if length (op_ops s) = 0 then s\<lparr>op_busy := False, op_workers := ws\<rparr>
             else s\<lparr>op_workers := ws @ [AtPop]\<rparr>))"

text \<open>
  The steps of the system: some goroutine enqueues an operation (an operation that is running may do so too, and so
  does \<open>onNegotiationNeeded\<close> on an empty queue), \<open>onNegotiationNeeded\<close> finds operations queued and later sets the
  flag, or one of the workers moves.
\<close>

inductive ops_step :: "'o \<Rightarrow> 'o operations \<Rightarrow> 'o operations \<Rightarrow> bool" for negOp where
  Enqueue: "ops_step negOp s (ops_Enqueue mo s)"
| Negotiate: "\<not> ops_IsEmpty s \<Longrightarrow> ops_step negOp s (s\<lparr>op_setters := op_setters s + 1\<rparr>)"
| SetFlag: "op_setters s = n + 1 \<Longrightarrow> ops_step negOp s (s\<lparr>op_setters := n, op_updateFlag := True\<rparr>)"
| Work: "i < length (op_workers s) \<Longrightarrow> ops_step negOp s (start_step negOp i s)"

definition ops_reachable :: "'o \<Rightarrow> 'o operations \<Rightarrow> bool" where
  "ops_reachable negOp s = (ops_step negOp)\<^sup>*\<^sup>* newOperations s"

section \<open>One worker, in order, none lost\<close>

definition ops_inv :: "'o operations \<Rightarrow> bool" where
  "ops_inv s \<longleftrightarrow> length (op_workers s) = (if op_busy s then 1 else 0) \<and> (op_ops s \<noteq> [] \<longrightarrow> op_busy s)
     \<and> op_enqueued s = op_started s @ op_ops s"

lemma ops_inv_new: "ops_inv newOperations"
  by (simp add: ops_inv_def newOperations_def)

lemma ops_inv_Enqueue: "ops_inv s \<Longrightarrow> ops_inv (ops_Enqueue mo s)"
  by (auto simp: ops_inv_def ops_Enqueue_def Let_def split: option.splits if_splits)

lemma one_worker:
  assumes "ops_inv s" and "i < length (op_workers s)"
  shows "\<exists>w. op_workers s = [w] \<and> op_busy s \<and> i = 0"
  using assms by (cases "op_workers s") (auto simp: ops_inv_def split: if_splits)

lemma ops_inv_start_step:
  assumes inv: "ops_inv s" and i: "i < length (op_workers s)"
  shows "ops_inv (start_step negOp i s)"
proof -
  from one_worker [OF inv i] obtain w where w: "op_workers s = [w]" and busy: "op_busy s" and i0: "i = 0" by blast
  show ?thesis
    by (cases w; cases "op_ops s")
       (use inv w busy i0 in \<open>simp_all add: start_step_def ops_pop_def ops_inv_def ops_Enqueue_def Let_def\<close>)
qed

lemma ops_inv_irrelevant: "ops_inv (s\<lparr>op_setters := n\<rparr>) = ops_inv s" "ops_inv (s\<lparr>op_setters := n, op_updateFlag := f\<rparr>) = ops_inv s"
  by (simp_all add: ops_inv_def)

lemma ops_inv_step: "ops_step negOp s s' \<Longrightarrow> ops_inv s \<Longrightarrow> ops_inv s'"
proof (induction rule: ops_step.induct)
  case (Enqueue s mo)
  then show ?case by (rule ops_inv_Enqueue)
next
  case (Negotiate s)
  then show ?case by (simp only: ops_inv_irrelevant)
next
  case (SetFlag s n)
  then show ?case by (simp only: ops_inv_irrelevant)
next
  case (Work i s)
  show ?case by (rule ops_inv_start_step [OF Work(2) Work(1)])
qed

lemma ops_reachable_inv: "ops_reachable negOp s \<Longrightarrow> ops_inv s"
  unfolding ops_reachable_def
proof (induction rule: rtranclp_induct)
  case base
  show ?case by (rule ops_inv_new)
next
  case (step t u)
  show ?case by (rule ops_inv_step [OF step(2,3)])
qed


section \<open>The queue drains\<close>

text \<open>How many more steps the worker takes when nobody else moves.\<close>

definition steps_AtPop :: "nat \<Rightarrow> bool \<Rightarrow> nat" where
  "steps_AtPop n fl = 2 * n + 1 + (if fl then 9 else 2)"

definition steps_AtDefer :: "nat \<Rightarrow> bool \<Rightarrow> nat" where
  "steps_AtDefer n fl = (if n = 0 then 1 else 1 + steps_AtPop n fl)"

fun steps_left :: "'o worker \<Rightarrow> nat \<Rightarrow> bool \<Rightarrow> nat" where
  "steps_left AtPop n fl = steps_AtPop n fl"
| "steps_left (Running _) n fl = 1 + steps_AtPop n fl"
| "steps_left AtFlag n fl =
     (if fl then 2 + (if n = 0 then 1 + steps_AtDefer 1 False else 1 + steps_AtDefer n True) else 1 + steps_AtDefer n False)"
| "steps_left AtNegotiation n fl = 1 + (if n = 0 then 1 + steps_AtDefer 1 fl else 1 + steps_AtDefer n True)"
| "steps_left AtSetFlag n fl = 1 + steps_AtDefer n True"
| "steps_left AtEnqueue n fl = 1 + steps_AtDefer (n + 1) fl"
| "steps_left AtDefer n fl = steps_AtDefer n fl"

definition ops_left :: "'o operations \<Rightarrow> nat" where
  "ops_left s = (case op_workers s of [] \<Rightarrow> 0 | w # _ \<Rightarrow> steps_left w (length (op_ops s)) (op_updateFlag s))"

lemma start_step_left:
  assumes "op_workers s = [w]" and "op_busy s"
  shows "ops_left (start_step negOp 0 s) + 1 = ops_left s"
  using assms
  by (cases w; cases "op_ops s")
     (simp_all add: start_step_def ops_pop_def ops_left_def ops_Enqueue_def ops_IsEmpty_def Let_def steps_AtPop_def steps_AtDefer_def)

lemma start_step_enqueued: "\<exists>xs. op_enqueued (start_step negOp i s) = op_enqueued s @ xs"
  by (cases "op_workers s ! i"; cases "op_ops s")
     (simp_all add: start_step_def ops_pop_def ops_Enqueue_def Let_def)

lemma worker_drains:
  "ops_inv s \<Longrightarrow> \<exists>n. ops_inv ((start_step negOp 0 ^^ n) s) \<and> op_workers ((start_step negOp 0 ^^ n) s) = []
     \<and> (\<exists>xs. op_enqueued ((start_step negOp 0 ^^ n) s) = op_enqueued s @ xs)"
proof (induction "ops_left s" arbitrary: s)
  case 0
  then have "op_workers s = []"
    by (cases "op_workers s"; cases "hd (op_workers s)") (auto simp: ops_left_def steps_AtPop_def steps_AtDefer_def split: if_splits)
  then show ?case using 0 by (intro exI [of _ 0]) simp
next
  case (Suc k)
  then have "op_workers s \<noteq> []" by (auto simp: ops_left_def)
  then have i: "0 < length (op_workers s)" by simp
  from one_worker [OF Suc.prems i] obtain w where w: "op_workers s = [w]" "op_busy s" by blast
  let ?t = "start_step negOp 0 s"
  have "k = ops_left ?t" using start_step_left [OF w, of negOp] Suc.hyps(2) by simp
  from Suc.hyps(1) [OF this ops_inv_start_step [OF Suc.prems i]] obtain n xs
    where n: "ops_inv ((start_step negOp 0 ^^ n) ?t)" "op_workers ((start_step negOp 0 ^^ n) ?t) = []"
      "op_enqueued ((start_step negOp 0 ^^ n) ?t) = op_enqueued ?t @ xs" by blast
  moreover obtain ys where "op_enqueued ?t = op_enqueued s @ ys" using start_step_enqueued [of negOp 0 s] by auto
  ultimately show ?case by (intro exI [of _ "Suc n"]) (simp add: funpow_swap1)
qed

text \<open>
  C17. Operations run one at a time and in the order in which they were queued, and none is lost: however the callers
  and the goroutines interleave, there is at most one worker, an operation that waits has one, what was started and
  what waits is what was queued, and the worker alone comes to an end having started everything that was queued.
\<close>

theorem operations_serial:
  assumes "ops_reachable negOp s"
  shows "length (op_workers s) \<le> 1 \<and> (op_ops s \<noteq> [] \<longrightarrow> op_workers s \<noteq> []) \<and> op_enqueued s = op_started s @ op_ops s
    \<and> (\<exists>n xs. op_workers ((start_step negOp 0 ^^ n) s) = [] \<and> op_ops ((start_step negOp 0 ^^ n) s) = []
         \<and> op_started ((start_step negOp 0 ^^ n) s) = op_enqueued s @ xs)"
proof -
  have inv: "ops_inv s" by (rule ops_reachable_inv [OF assms])
  from worker_drains [OF inv, of negOp] obtain n xs where n: "ops_inv ((start_step negOp 0 ^^ n) s)"
    "op_workers ((start_step negOp 0 ^^ n) s) = []" "op_enqueued ((start_step negOp 0 ^^ n) s) = op_enqueued s @ xs" by blast
  then have "op_ops ((start_step negOp 0 ^^ n) s) = []" by (auto simp: ops_inv_def split: if_splits)
  with n have "op_workers ((start_step negOp 0 ^^ n) s) = [] \<and> op_ops ((start_step negOp 0 ^^ n) s) = []
      \<and> op_started ((start_step negOp 0 ^^ n) s) = op_enqueued s @ xs" by (simp add: ops_inv_def)
  with inv show ?thesis by (auto simp: ops_inv_def)
qed

theorem operations_serial_witness:
  "ops_reachable 0 (ops_Enqueue (Some (2 :: nat)) (ops_Enqueue (Some 1) newOperations))
   \<and> length (op_workers (ops_Enqueue (Some (2 :: nat)) (ops_Enqueue (Some 1) newOperations))) \<le> 1"
proof -
  have r: "ops_reachable 0 (ops_Enqueue (Some (2 :: nat)) (ops_Enqueue (Some 1) newOperations))"
    unfolding ops_reachable_def
    by (rule rtranclp.rtrancl_into_rtrancl [OF rtranclp.rtrancl_into_rtrancl [OF rtranclp.rtrancl_refl]]) (rule ops_step.Enqueue)+
  with operations_serial [OF r] show ?thesis by simp
qed

text \<open>
  The flag is tested and set outside of the queue's critical sections: a caller of \<open>onNegotiationNeeded\<close> that has seen
  operations waiting may set it after the last worker has looked at it. Then the flag is set, nothing runs, and the
  request for a negotiation is lost until some other operation is queued.
\<close>

lemma negotiation_request_lost:
  "\<exists>s. ops_reachable negOp s \<and> op_updateFlag s \<and> op_workers s = [] \<and> op_ops s = [] \<and> negOp \<notin> set (op_enqueued s)"
  if "x \<noteq> negOp"
proof -
  let ?s1 = "ops_Enqueue (Some x) newOperations"
  let ?s2 = "?s1\<lparr>op_setters := op_setters ?s1 + 1\<rparr>"
  let ?w = "start_step negOp 0"
  let ?s3 = "(?w ^^ 5) ?s2"
  have s3: "?s3 = \<lparr>op_busy = False, op_ops = [], op_updateFlag = False, op_workers = [], op_started = [x], op_enqueued = [x], op_setters = 1\<rparr>"
    by (simp add: eval_nat_numeral ops_Enqueue_def newOperations_def start_step_def ops_pop_def Let_def)
  have work: "ops_step negOp t (?w t)" if "op_workers t \<noteq> []" for t
    by (rule ops_step.Work) (use that in simp)
  have "(ops_step negOp)\<^sup>*\<^sup>* newOperations ?s2"
  proof (rule rtranclp.rtrancl_into_rtrancl)
    show "(ops_step negOp)\<^sup>*\<^sup>* newOperations ?s1" by (rule r_into_rtranclp) (rule ops_step.Enqueue)
    show "ops_step negOp ?s1 ?s2" by (rule ops_step.Negotiate) (simp add: ops_IsEmpty_def ops_Enqueue_def newOperations_def)
  qed
  moreover have "(ops_step negOp)\<^sup>*\<^sup>* ?s2 ?s3"
  proof -
    have "op_workers ((?w ^^ k) ?s2) \<noteq> []" if "k < 5" for k
    proof -
      from that consider "k = 0" | "k = 1" | "k = 2" | "k = 3" | "k = 4" by linarith
      then show ?thesis
        by cases (simp_all add: eval_nat_numeral ops_Enqueue_def newOperations_def start_step_def ops_pop_def Let_def)
    qed
    then have "(ops_step negOp)\<^sup>*\<^sup>* ?s2 ((?w ^^ k) ?s2)" if "k \<le> 5" for k
      using that
    proof (induction k)
      case (Suc k)
      then have "(ops_step negOp)\<^sup>*\<^sup>* ?s2 ((?w ^^ k) ?s2)" and "ops_step negOp ((?w ^^ k) ?s2) (?w ((?w ^^ k) ?s2))"
        using work by simp_all
      then show ?case by (simp add: rtranclp.rtrancl_into_rtrancl)
    qed simp
    then show ?thesis by simp
  qed
  moreover have "op_setters ?s3 = 0 + 1" unfolding s3 by simp
  then have "ops_step negOp ?s3 (?s3\<lparr>op_setters := 0, op_updateFlag := True\<rparr>)" by (rule ops_step.SetFlag)
  ultimately have "ops_reachable negOp (?s3\<lparr>op_setters := 0, op_updateFlag := True\<rparr>)"
    unfolding ops_reachable_def by (meson rtranclp.rtrancl_into_rtrancl rtranclp_trans)
  with that show ?thesis unfolding s3 by (intro exI) auto
qed

end
