(* ===== verification/WebrtcSignaling.thy ===== *)
theory WebrtcSignaling
  imports Prelude
begin

text \<open>
  Offer/answer negotiation of \<open>pion-webrtc\<close>: the enumerations of \<open>sdptype.go\<close>, \<open>signalingstate.go\<close>,
  \<open>rtptransceiverdirection.go\<close> and the connection states, the transitions of \<open>checkNextSignalingState\<close>, and the parts
  of \<open>peerconnection.go\<close> and \<open>rtptransceiver.go\<close> that act on them: \<open>setDescription\<close>, the negotiation-needed check, the
  pairing of remote media sections with transceivers, and the connection state. The SDP text is parsed by a library
  (its result is part of the description, the library's \<open>Attribute\<close> an argument).
\<close>

section \<open>Enumerations\<close>

text \<open>Each Go enumeration is an integer type; a value outside of it prints as \<open>ErrUnknownType\<close> and is the last constructor.\<close>

datatype SDPType = SDPTypeOffer | SDPTypePranswer | SDPTypeAnswer | SDPTypeRollback | SDPTypeUnknown

definition NewSDPType :: "string \<Rightarrow> SDPType" where
  "NewSDPType raw =
     (if raw = ''offer'' then SDPTypeOffer else if raw = ''pranswer'' then SDPTypePranswer
      else if raw = ''answer'' then SDPTypeAnswer else if raw = ''rollback'' then SDPTypeRollback else SDPTypeUnknown)"

fun SDPType_String :: "SDPType \<Rightarrow> string" where
  "SDPType_String SDPTypeOffer = ''offer''"
| "SDPType_String SDPTypePranswer = ''pranswer''"
| "SDPType_String SDPTypeAnswer = ''answer''"
| "SDPType_String SDPTypeRollback = ''rollback''"
| "SDPType_String SDPTypeUnknown = ''unknown''"

datatype stateChangeOp = SetLocal | SetRemote

fun stateChangeOp_String :: "stateChangeOp \<Rightarrow> string" where
  "stateChangeOp_String SetLocal = ''SetLocal''"
| "stateChangeOp_String SetRemote = ''SetRemote''"

datatype SignalingState = Stable | HaveLocalOffer | HaveRemoteOffer | HaveLocalPranswer | HaveRemotePranswer
  | SignalingClosed | SignalingUnknown

definition newSignalingState :: "string \<Rightarrow> SignalingState" where
  "newSignalingState raw =
     (if raw = ''stable'' then Stable else if raw = ''have-local-offer'' then HaveLocalOffer
      else if raw = ''have-remote-offer'' then HaveRemoteOffer
      else if raw = ''have-local-pranswer'' then HaveLocalPranswer
      else if raw = ''have-remote-pranswer'' then HaveRemotePranswer
      else if raw = ''closed'' then SignalingClosed else SignalingUnknown)"

fun SignalingState_String :: "SignalingState \<Rightarrow> string" where
  "SignalingState_String Stable = ''stable''"
| "SignalingState_String HaveLocalOffer = ''have-local-offer''"
| "SignalingState_String HaveRemoteOffer = ''have-remote-offer''"
| "SignalingState_String HaveLocalPranswer = ''have-local-pranswer''"
| "SignalingState_String HaveRemotePranswer = ''have-remote-pranswer''"
| "SignalingState_String SignalingClosed = ''closed''"
| "SignalingState_String SignalingUnknown = ''unknown''"

datatype RTPTransceiverDirection = Sendrecv | Sendonly | Recvonly | Inactive | DirectionUnknown

definition NewRTPTransceiverDirection :: "string \<Rightarrow> RTPTransceiverDirection" where
  "NewRTPTransceiverDirection raw =
     (if raw = ''sendrecv'' then Sendrecv else if raw = ''sendonly'' then Sendonly
      else if raw = ''recvonly'' then Recvonly else if raw = ''inactive'' then Inactive else DirectionUnknown)"

fun Direction_String :: "RTPTransceiverDirection \<Rightarrow> string" where
  "Direction_String Sendrecv = ''sendrecv''"
| "Direction_String Sendonly = ''sendonly''"
| "Direction_String Recvonly = ''recvonly''"
| "Direction_String Inactive = ''inactive''"
| "Direction_String DirectionUnknown = ''unknown''"

fun Revers :: "RTPTransceiverDirection \<Rightarrow> RTPTransceiverDirection" where
  "Revers Sendonly = Recvonly"
| "Revers Recvonly = Sendonly"
| "Revers t = t"

fun haveRTPTransceiverDirectionIntersection :: "RTPTransceiverDirection list \<Rightarrow> RTPTransceiverDirection list \<Rightarrow> bool" where
  "haveRTPTransceiverDirectionIntersection haystack [] = False"
| "haveRTPTransceiverDirectionIntersection haystack (n # needle) =
     (if n \<in> set haystack then True else haveRTPTransceiverDirectionIntersection haystack needle)"

datatype RTPCodecType = Audio | Video | CodecUnknown

text \<open>\<open>strings.EqualFold\<close> against ASCII text.\<close>

definition fold_char :: "char \<Rightarrow> char" where
  "fold_char c = (let n = of_char c :: nat in if 65 \<le> n \<and> n \<le> 90 then char_of (n + 32) else c)"

definition NewRTPCodecType :: "string \<Rightarrow> RTPCodecType" where
  "NewRTPCodecType r =
     (if map fold_char r = ''audio'' then Audio else if map fold_char r = ''video'' then Video else CodecUnknown)"

section \<open>Signaling transitions\<close>

datatype sig_error = CannotRollback | ProposedTransitionInvalid | SDPDoesNotMatchOffer | SDPDoesNotMatchAnswer
  | ConnectionClosed | SDPTypeInvalidValue | StateChangeInvalid | ParseError string | SDPTypeInvalidValueSetLocal
  | WithoutMidValue | TranscieverMidNil string | CannotChangeMid string | SetSendingInvalidState
  | RTPReceiverDTLSTransportNil | StopFailed string

definition checkNextSignalingState ::
    "SignalingState \<Rightarrow> SignalingState \<Rightarrow> stateChangeOp \<Rightarrow> SDPType \<Rightarrow> sig_error + SignalingState" where
  "checkNextSignalingState cur nxt oper sdpType =
     (if sdpType = SDPTypeRollback \<and> cur = Stable then Inl CannotRollback
      else
        let bad = Inl ProposedTransitionInvalid in
        case cur of
          Stable \<Rightarrow> (case oper of
              SetLocal \<Rightarrow> (if sdpType = SDPTypeOffer \<and> nxt = HaveLocalOffer then Inr nxt else bad)
            | SetRemote \<Rightarrow> (if sdpType = SDPTypeOffer \<and> nxt = HaveRemoteOffer then Inr nxt else bad))
        | HaveLocalOffer \<Rightarrow>
            (if oper = SetRemote then (case sdpType of
                 SDPTypeAnswer \<Rightarrow> (if nxt = Stable then Inr nxt else bad)
               | SDPTypePranswer \<Rightarrow> (if nxt = HaveRemotePranswer then Inr nxt else bad)
               | _ \<Rightarrow> bad)
             else bad)
        | HaveRemotePranswer \<Rightarrow>
            (if oper = SetRemote \<and> sdpType = SDPTypeAnswer then (if nxt = Stable then Inr nxt else bad) else bad)
        | HaveRemoteOffer \<Rightarrow>
            (if oper = SetLocal then (case sdpType of
                 SDPTypeAnswer \<Rightarrow> (if nxt = Stable then Inr nxt else bad)
               | SDPTypePranswer \<Rightarrow> (if nxt = HaveLocalPranswer then Inr nxt else bad)
               | _ \<Rightarrow> bad)
             else bad)
        | HaveLocalPranswer \<Rightarrow>
            (if oper = SetLocal \<and> sdpType = SDPTypeAnswer then (if nxt = Stable then Inr nxt else bad) else bad)
        | _ \<Rightarrow> bad)"

section \<open>Descriptions and transceivers\<close>

record MediaDescription =
  md_media :: string
  md_attributes :: "(string \<times> string) list"

record SessionDescription =
  sd_Type :: SDPType
  sd_SDP :: string
  sd_parsed :: "MediaDescription list"

text \<open>A sender holds a track, known by its stream and track identifiers, or none.\<close>

record RTPTransceiver =
  tv_mid :: string
  tv_sender :: "(string \<times> string) option option"
  tv_direction :: RTPTransceiverDirection
  tv_currentDirection :: RTPTransceiverDirection
  tv_stopped :: bool
  tv_kind :: RTPCodecType

definition newRTPTransceiver :: "(string \<times> string) option option \<Rightarrow> RTPTransceiverDirection \<Rightarrow> RTPCodecType \<Rightarrow> RTPTransceiver" where
  "newRTPTransceiver sender direction kind =
     \<lparr>tv_mid = [], tv_sender = sender, tv_direction = direction, tv_currentDirection = DirectionUnknown,
      tv_stopped = False, tv_kind = kind\<rparr>"

definition SetMid :: "string \<Rightarrow> RTPTransceiver \<Rightarrow> sig_error + RTPTransceiver" where
  "SetMid mid t = (if tv_mid t \<noteq> [] then Inl (CannotChangeMid (tv_mid t)) else Inr (t\<lparr>tv_mid := mid\<rparr>))"

text \<open>\<open>Stop\<close> with what stopping the sender and the receiver returned.\<close>

definition Transceiver_Stop :: "sig_error option \<Rightarrow> RTPTransceiver \<Rightarrow> sig_error option \<times> RTPTransceiver" where
  "Transceiver_Stop err t = (case err of
       Some e \<Rightarrow> (Some e, t)
     | None \<Rightarrow> (None, t\<lparr>tv_direction := Inactive, tv_currentDirection := Inactive\<rparr>))"

definition setSendingTrack :: "sig_error option \<Rightarrow> (string \<times> string) option \<Rightarrow> RTPTransceiver \<Rightarrow> sig_error option \<times> RTPTransceiver" where
  "setSendingTrack replaceErr track t = (case replaceErr of
       Some e \<Rightarrow> (Some e, t)
     | None \<Rightarrow>
         let t = (if track = None then t\<lparr>tv_sender := None\<rparr> else t\<lparr>tv_sender := Some track\<rparr>)
         in if track \<noteq> None \<and> tv_direction t = Recvonly then (None, t\<lparr>tv_direction := Sendrecv\<rparr>)
            else if track \<noteq> None \<and> tv_direction t = Inactive then (None, t\<lparr>tv_direction := Sendonly\<rparr>)
            else if track = None \<and> tv_direction t = Sendrecv then (None, t\<lparr>tv_direction := Recvonly\<rparr>)
            else if track \<noteq> None \<and> tv_direction t = Sendonly then (None, t)
            else if track \<noteq> None \<and> tv_direction t = Sendrecv then (None, t)
            else if track = None \<and> tv_direction t = Sendonly then (None, t\<lparr>tv_direction := Inactive\<rparr>)
            else (Some SetSendingInvalidState, t))"

fun getMidValue_attrs :: "(string \<times> string) list \<Rightarrow> string" where
  "getMidValue_attrs [] = []"
| "getMidValue_attrs ((k, v) # as) = (if k = ''mid'' then v else getMidValue_attrs as)"

definition getMidValue :: "MediaDescription \<Rightarrow> string" where
  "getMidValue m = getMidValue_attrs (md_attributes m)"

fun getPeerDirection_attrs :: "(string \<times> string) list \<Rightarrow> RTPTransceiverDirection" where
  "getPeerDirection_attrs [] = DirectionUnknown"
| "getPeerDirection_attrs ((k, v) # as) =
     (if NewRTPTransceiverDirection k \<noteq> DirectionUnknown then NewRTPTransceiverDirection k else getPeerDirection_attrs as)"

definition getPeerDirection :: "MediaDescription \<Rightarrow> RTPTransceiverDirection" where
  "getPeerDirection m = getPeerDirection_attrs (md_attributes m)"

text \<open>The library's \<open>Attribute\<close> is the argument \<open>attr\<close>.\<close>

definition getByMid :: "(MediaDescription \<Rightarrow> string \<Rightarrow> string option) \<Rightarrow> string \<Rightarrow> SessionDescription \<Rightarrow> MediaDescription option" where
  "getByMid attr searchMid d = find (\<lambda>m. attr m ''mid'' = Some searchMid) (sd_parsed d)"

definition haveDataChannel :: "SessionDescription \<Rightarrow> MediaDescription option" where
  "haveDataChannel d = find (\<lambda>m. md_media m = ''application'') (sd_parsed d)"

text \<open>
  Transceivers are pointers: the connection's list is the heap, and the working list of the negotiation holds indices
  into it. Both searches remove what they find from the working list.
\<close>

fun findByMid :: "RTPTransceiver list \<Rightarrow> string \<Rightarrow> nat list \<Rightarrow> nat option \<times> nat list" where
  "findByMid h mid [] = (None, [])"
| "findByMid h mid (i # is) =
     (if tv_mid (h ! i) = mid then (Some i, is) else let (r, rest) = findByMid h mid is in (r, i # rest))"

fun preferredDirections :: "RTPTransceiverDirection \<Rightarrow> RTPTransceiverDirection list" where
  "preferredDirections Sendrecv = [Recvonly, Sendrecv, Sendonly]"
| "preferredDirections Sendonly = [Recvonly, Sendrecv]"
| "preferredDirections Recvonly = [Sendonly, Sendrecv]"
| "preferredDirections _ = []"

fun pluck :: "(nat \<Rightarrow> bool) \<Rightarrow> nat list \<Rightarrow> nat option \<times> nat list" where
  "pluck P [] = (None, [])"
| "pluck P (i # is) = (if P i then (Some i, is) else let (r, rest) = pluck P is in (r, i # rest))"

fun satisfy_loop :: "RTPTransceiver list \<Rightarrow> RTPCodecType \<Rightarrow> RTPTransceiverDirection list \<Rightarrow> nat list \<Rightarrow> nat option \<times> nat list" where
  "satisfy_loop h kind [] local = (None, local)"
| "satisfy_loop h kind (d # ds) local =
     (case pluck (\<lambda>i. tv_mid (h ! i) = [] \<and> tv_kind (h ! i) = kind \<and> d = tv_direction (h ! i)) local of
        (Some i, rest) \<Rightarrow> (Some i, rest)
      | (None, _) \<Rightarrow> satisfy_loop h kind ds local)"

definition satisfyTypeAndDirection ::
    "RTPTransceiver list \<Rightarrow> RTPCodecType \<Rightarrow> RTPTransceiverDirection \<Rightarrow> nat list \<Rightarrow> nat option \<times> nat list" where
  "satisfyTypeAndDirection h kind dir local = satisfy_loop h kind (preferredDirections dir) local"

section \<open>The peer connection\<close>

datatype ICEConnectionState = ICENew | ICEChecking | ICEConnected | ICECompleted | ICEDisconnected | ICEFailed | ICEClosed | ICEUnknown
datatype DTLSTransportState = DTLSNew | DTLSConnecting | DTLSConnected | DTLSClosed | DTLSFailed | DTLSUnknown
datatype PeerConnectionState = PCNew | PCConnecting | PCConnected | PCDisconnected | PCFailed | PCClosed | PCUnknown

text \<open>What the connection tells its user, and the operations it queues.\<close>

datatype pc_event = SignalingStateChanged SignalingState | ConnectionStateChanged PeerConnectionState
  | NegotiationNeededFired

record PeerConnection =
  pc_currentLocal :: "SessionDescription option"
  pc_pendingLocal :: "SessionDescription option"
  pc_currentRemote :: "SessionDescription option"
  pc_pendingRemote :: "SessionDescription option"
  pc_signalingState :: SignalingState
  pc_connectionState :: PeerConnectionState
  pc_isClosed :: bool
  pc_isNegotiationNeeded :: bool
  pc_updateFlag :: bool
  pc_lastOffer :: string
  pc_lastAnswer :: string
  pc_transceivers :: "RTPTransceiver list"
  pc_dataChannels :: nat
  pc_queued :: nat
  pc_events :: "pc_event list"

text \<open>
  \<open>onNegotiationNeeded\<close>: \<open>pc_queued\<close> counts the operations that wait, of which \<open>negotiationNeededOp\<close> becomes one.
\<close>

definition pc_onNegotiationNeeded :: "PeerConnection \<Rightarrow> PeerConnection" where
  "pc_onNegotiationNeeded pc =
     (if pc_queued pc \<noteq> 0 then pc\<lparr>pc_updateFlag := True\<rparr> else pc\<lparr>pc_queued := pc_queued pc + 1\<rparr>)"

definition onSignalingStateChange :: "SignalingState \<Rightarrow> PeerConnection \<Rightarrow> PeerConnection" where
  "onSignalingStateChange newState pc = pc\<lparr>pc_events := pc_events pc @ [SignalingStateChanged newState]\<rparr>"

text \<open>The critical section of \<open>setDescription\<close>: the next state, and the descriptions that move.\<close>

definition nextDescription :: "SessionDescription \<Rightarrow> stateChangeOp \<Rightarrow> PeerConnection \<Rightarrow> sig_error + (SignalingState \<times> PeerConnection)" where
  "nextDescription sd oper pc =
     (let cur = pc_signalingState pc;
          commit = (\<lambda>nxt upd. case checkNextSignalingState cur nxt oper (sd_Type sd) of
              Inl e \<Rightarrow> Inl e | Inr s \<Rightarrow> Inr (s, upd))
      in case oper of
        SetLocal \<Rightarrow> (case sd_Type sd of
            SDPTypeOffer \<Rightarrow>
              (if sd_SDP sd \<noteq> pc_lastOffer pc then Inl SDPDoesNotMatchOffer
               else commit HaveLocalOffer (pc\<lparr>pc_pendingLocal := Some sd\<rparr>))
          | SDPTypeAnswer \<Rightarrow>
              (if sd_SDP sd \<noteq> pc_lastAnswer pc then Inl SDPDoesNotMatchAnswer
               else commit Stable (pc\<lparr>pc_currentLocal := Some sd, pc_currentRemote := pc_pendingRemote pc,
                 pc_pendingRemote := None, pc_pendingLocal := None\<rparr>))
          | SDPTypeRollback \<Rightarrow> commit Stable (pc\<lparr>pc_pendingLocal := None\<rparr>)
          | SDPTypePranswer \<Rightarrow>
              (if sd_SDP sd \<noteq> pc_lastAnswer pc then Inl SDPDoesNotMatchAnswer
               else commit HaveLocalPranswer (pc\<lparr>pc_pendingLocal := Some sd\<rparr>))
          | SDPTypeUnknown \<Rightarrow> Inl StateChangeInvalid)
      | SetRemote \<Rightarrow> (case sd_Type sd of
            SDPTypeOffer \<Rightarrow> commit HaveRemoteOffer (pc\<lparr>pc_pendingRemote := Some sd\<rparr>)
          | SDPTypeAnswer \<Rightarrow>
              commit Stable (pc\<lparr>pc_currentRemote := Some sd, pc_currentLocal := pc_pendingLocal pc,
                pc_pendingRemote := None, pc_pendingLocal := None\<rparr>)
          | SDPTypeRollback \<Rightarrow> commit Stable (pc\<lparr>pc_pendingRemote := None\<rparr>)
          | SDPTypePranswer \<Rightarrow> commit HaveRemotePranswer (pc\<lparr>pc_pendingRemote := Some sd\<rparr>)
          | SDPTypeUnknown \<Rightarrow> Inl StateChangeInvalid))"

definition setDescription :: "SessionDescription \<Rightarrow> stateChangeOp \<Rightarrow> PeerConnection \<Rightarrow> sig_error option \<times> PeerConnection" where
  "setDescription sd oper pc =
     (if pc_isClosed pc then (Some ConnectionClosed, pc)
      else if NewSDPType (SDPType_String (sd_Type sd)) = SDPTypeUnknown then (Some SDPTypeInvalidValue, pc)
      else case nextDescription sd oper pc of
        Inl e \<Rightarrow> (Some e, pc)
      | Inr (nextState, pc') \<Rightarrow>
          let pc' = pc'\<lparr>pc_signalingState := nextState\<rparr>;
              pc' = (if nextState = Stable then pc_onNegotiationNeeded (pc'\<lparr>pc_isNegotiationNeeded := False\<rparr>) else pc')
          in (None, onSignalingStateChange nextState pc'))"

text \<open>
  \<open>SetLocalDescription\<close> up to the point where media and candidate gathering start; \<open>parse\<close> is the SDP library.
\<close>

definition SetLocalDescription ::
    "(string \<Rightarrow> string + MediaDescription list) \<Rightarrow> SDPType \<Rightarrow> string \<Rightarrow> PeerConnection \<Rightarrow> sig_error option \<times> PeerConnection" where
  "SetLocalDescription parse typ sdp pc =
     (if pc_isClosed pc then (Some ConnectionClosed, pc)
      else
        let text = (if sdp \<noteq> [] then Some sdp
                    else case typ of
                      SDPTypeAnswer \<Rightarrow> Some (pc_lastAnswer pc)
                    | SDPTypePranswer \<Rightarrow> Some (pc_lastAnswer pc)
                    | SDPTypeOffer \<Rightarrow> Some (pc_lastOffer pc)
                    | _ \<Rightarrow> None)
        in case text of
          None \<Rightarrow> (Some SDPTypeInvalidValueSetLocal, pc)
        | Some txt \<Rightarrow> (case parse txt of
            Inl e \<Rightarrow> (Some (ParseError e), pc)
          | Inr ms \<Rightarrow> setDescription \<lparr>sd_Type = typ, sd_SDP = txt, sd_parsed = ms\<rparr> SetLocal pc))"

definition SetRemote_begin ::
    "(string \<Rightarrow> string + MediaDescription list) \<Rightarrow> SDPType \<Rightarrow> string \<Rightarrow> PeerConnection \<Rightarrow> sig_error option \<times> PeerConnection" where
  "SetRemote_begin parse typ sdp pc =
     (if pc_isClosed pc then (Some ConnectionClosed, pc)
      else case parse sdp of
        Inl e \<Rightarrow> (Some (ParseError e), pc)
      | Inr ms \<Rightarrow> setDescription \<lparr>sd_Type = typ, sd_SDP = sdp, sd_parsed = ms\<rparr> SetRemote pc)"

text \<open>The state part of \<open>Close\<close>, with the transports already stopped.\<close>

definition updateConnectionState :: "ICEConnectionState \<Rightarrow> DTLSTransportState \<Rightarrow> PeerConnection \<Rightarrow> PeerConnection" where
  "updateConnectionState ice dtls pc =
     (let connectionState =
        (if pc_isClosed pc then PCClosed
         else if ice = ICEFailed \<or> dtls = DTLSFailed then PCFailed
         else if ice = ICEDisconnected then PCDisconnected
         else if (ice = ICENew \<or> ice = ICEClosed) \<and> (dtls = DTLSNew \<or> dtls = DTLSClosed) then PCNew
         else if ice = ICENew \<or> ice = ICEChecking \<or> dtls = DTLSNew \<or> dtls = DTLSConnecting then PCConnecting
         else if (ice = ICEConnected \<or> ice = ICECompleted \<or> ice = ICEClosed) \<and> (dtls = DTLSConnected \<or> dtls = DTLSClosed)
         then PCConnected
         else PCNew)
      in if pc_connectionState pc = connectionState then pc
         else pc\<lparr>pc_connectionState := connectionState, pc_events := pc_events pc @ [ConnectionStateChanged connectionState]\<rparr>)"

definition pc_Close :: "ICEConnectionState \<Rightarrow> DTLSTransportState \<Rightarrow> PeerConnection \<Rightarrow> PeerConnection" where
  "pc_Close ice dtls pc =
     (if pc_isClosed pc then pc
      else
        let pc = pc\<lparr>pc_isClosed := True, pc_signalingState := SignalingClosed\<rparr>;
            pc = pc\<lparr>pc_transceivers := map (\<lambda>t. if \<not> tv_stopped t then snd (Transceiver_Stop None t) else t) (pc_transceivers pc)\<rparr>
        in updateConnectionState ice dtls pc)"

section \<open>Negotiation\<close>

text \<open>
  Whether a transceiver asks for a negotiation: \<open>Some True\<close> ends the check, \<open>Some False\<close> goes on to the next
  transceiver, \<open>None\<close> is a nil dereference (a sender without a track, or no remote description).
\<close>

definition stopped_check ::
    "(MediaDescription \<Rightarrow> string \<Rightarrow> string option) \<Rightarrow> SessionDescription \<Rightarrow> SessionDescription option \<Rightarrow> RTPTransceiver \<Rightarrow> bool option" where
  "stopped_check attr local remote t =
     (if tv_stopped t \<and> tv_mid t \<noteq> []
      then if getByMid attr (tv_mid t) local \<noteq> None then Some True
           else map_option (\<lambda>r. getByMid attr (tv_mid t) r \<noteq> None) remote
      else Some False)"

definition msid_check :: "(MediaDescription \<Rightarrow> string \<Rightarrow> string option) \<Rightarrow> MediaDescription \<Rightarrow> RTPTransceiver \<Rightarrow> bool option" where
  "msid_check attr m t =
     (if tv_direction t = Sendrecv \<or> tv_direction t = Sendonly
      then case tv_sender t of
          None \<Rightarrow> Some True
        | Some track \<Rightarrow> (case attr m ''msid'' of
            None \<Rightarrow> Some True
          | Some descMsid \<Rightarrow> map_option (\<lambda>(streamID, trackID). descMsid \<noteq> streamID @ '' '' @ trackID) track)
      else Some False)"

definition direction_check ::
    "(MediaDescription \<Rightarrow> string \<Rightarrow> string option) \<Rightarrow> SDPType \<Rightarrow> SessionDescription option \<Rightarrow> MediaDescription \<Rightarrow> RTPTransceiver \<Rightarrow> bool option" where
  "direction_check attr typ remote m t = (case typ of
       SDPTypeOffer \<Rightarrow> (case remote of
           None \<Rightarrow> None
         | Some r \<Rightarrow> (case getByMid attr (tv_mid t) r of
             None \<Rightarrow> Some True
           | Some rm \<Rightarrow> Some (getPeerDirection m \<noteq> tv_direction t \<and> getPeerDirection rm \<noteq> Revers (tv_direction t))))
     | SDPTypeAnswer \<Rightarrow> Some (attr m (Direction_String (tv_direction t)) = None)
     | _ \<Rightarrow> Some False)"

definition transceiver_check ::
    "(MediaDescription \<Rightarrow> string \<Rightarrow> string option) \<Rightarrow> SessionDescription \<Rightarrow> SessionDescription option \<Rightarrow> RTPTransceiver \<Rightarrow> bool option" where
  "transceiver_check attr local remote t = (case getByMid attr (tv_mid t) local of
       None \<Rightarrow> (if \<not> tv_stopped t then Some True else stopped_check attr local remote t)
     | Some m \<Rightarrow>
         (if tv_stopped t then stopped_check attr local remote t
          else case msid_check attr m t of
            None \<Rightarrow> None
          | Some True \<Rightarrow> Some True
          | Some False \<Rightarrow> direction_check attr (sd_Type local) remote m t))"

fun transceivers_check ::
    "(MediaDescription \<Rightarrow> string \<Rightarrow> string option) \<Rightarrow> SessionDescription \<Rightarrow> SessionDescription option \<Rightarrow> RTPTransceiver list \<Rightarrow> bool option" where
  "transceivers_check attr local remote [] = Some False"
| "transceivers_check attr local remote (t # ts) = (case transceiver_check attr local remote t of
       None \<Rightarrow> None
     | Some True \<Rightarrow> Some True
     | Some False \<Rightarrow> transceivers_check attr local remote ts)"

definition checkNegotiationNeeded :: "(MediaDescription \<Rightarrow> string \<Rightarrow> string option) \<Rightarrow> PeerConnection \<Rightarrow> bool option" where
  "checkNegotiationNeeded attr pc = (case pc_currentLocal pc of
       None \<Rightarrow> Some True
     | Some local \<Rightarrow>
         (if pc_dataChannels pc \<noteq> 0 \<and> haveDataChannel local = None then Some True
          else transceivers_check attr local (pc_currentRemote pc) (pc_transceivers pc)))"

text \<open>\<open>negotiationNeededOp\<close> runs as an operation: \<open>pc_queued\<close> counts those behind it.\<close>

definition negotiationNeededOp :: "(MediaDescription \<Rightarrow> string \<Rightarrow> string option) \<Rightarrow> PeerConnection \<Rightarrow> PeerConnection option" where
  "negotiationNeededOp attr pc =
     (if pc_isClosed pc then Some pc
      else if pc_queued pc \<noteq> 0 then Some (pc\<lparr>pc_updateFlag := True\<rparr>)
      else if pc_signalingState pc \<noteq> Stable then Some pc
      else case checkNegotiationNeeded attr pc of
        None \<Rightarrow> None
      | Some needed \<Rightarrow>
          (if \<not> needed then Some (pc\<lparr>pc_isNegotiationNeeded := False\<rparr>)
           else if pc_isNegotiationNeeded pc then Some pc
           else Some (pc\<lparr>pc_isNegotiationNeeded := True, pc_events := pc_events pc @ [NegotiationNeededFired]\<rparr>)))"

definition hasLocalDescriptionChanged ::
    "(MediaDescription \<Rightarrow> string \<Rightarrow> string option) \<Rightarrow> SessionDescription \<Rightarrow> PeerConnection \<Rightarrow> bool" where
  "hasLocalDescriptionChanged attr d pc = (\<exists>t \<in> set (pc_transceivers pc). case getByMid attr (tv_mid t) d of
       None \<Rightarrow> True | Some m \<Rightarrow> getPeerDirection m \<noteq> tv_direction t)"

text \<open>
  The loop of \<open>SetRemoteDescription\<close> that pairs the media sections of an offer with transceivers. The codecs a new
  transceiver prefers and the negotiation a new one asks for are left out. \<open>stopErr i\<close> is what stopping the sender and
  the receiver of transceiver \<open>i\<close> returns, and \<open>dtls\<close> says whether there is a DTLS transport: \<open>NewRTPReceiver\<close> fails
  without one.
\<close>

definition pair_new :: "RTPTransceiverDirection \<Rightarrow> RTPCodecType \<Rightarrow> RTPTransceiver" where
  "pair_new direction kind =
     newRTPTransceiver None (if direction = Recvonly then Sendonly else if direction = Inactive then Inactive else Recvonly) kind"

definition pair_direction :: "RTPTransceiverDirection \<Rightarrow> RTPTransceiver \<Rightarrow> RTPTransceiver" where
  "pair_direction direction t =
     (if direction = Recvonly then (if tv_direction t = Sendrecv then t\<lparr>tv_direction := Sendonly\<rparr> else t)
      else if direction = Sendrecv then (if tv_direction t = Sendonly then t\<lparr>tv_direction := Sendrecv\<rparr> else t)
      else t)"

definition pair_mid :: "string \<Rightarrow> RTPTransceiver \<Rightarrow> RTPTransceiver" where
  "pair_mid mid t = (if tv_mid t = [] then t\<lparr>tv_mid := mid\<rparr> else t)"

definition pair_media ::
    "(nat \<Rightarrow> sig_error option) \<Rightarrow> bool \<Rightarrow> MediaDescription \<Rightarrow> RTPTransceiver list \<Rightarrow> nat list \<Rightarrow>
     sig_error + RTPTransceiver list \<times> nat list" where
  "pair_media stopErr dtls media h local =
     (let mid = getMidValue media; kind = NewRTPCodecType (md_media media); direction = getPeerDirection media in
      case findByMid h mid local of
        (Some i, rest) \<Rightarrow>
          (case (if direction = Inactive then Transceiver_Stop (stopErr i) (h ! i) else (None, h ! i)) of
             (Some e, _) \<Rightarrow> Inl e
           | (None, t) \<Rightarrow> Inr (h[i := pair_mid mid (pair_direction direction t)], rest))
      | (None, _) \<Rightarrow> (case satisfyTypeAndDirection h kind direction local of
          (Some i, rest) \<Rightarrow> Inr (h[i := pair_mid mid (pair_direction direction (h ! i))], rest)
        | (None, rest) \<Rightarrow>
            if \<not> dtls then Inl RTPReceiverDTLSTransportNil
            else Inr (h @ [pair_mid mid (pair_new direction kind)], rest)))"

definition pair_skip :: "MediaDescription \<Rightarrow> bool" where
  "pair_skip media = (md_media media = ''application'' \<or> NewRTPCodecType (md_media media) = CodecUnknown
     \<or> getPeerDirection media = DirectionUnknown)"

fun pairTransceivers ::
    "(nat \<Rightarrow> sig_error option) \<Rightarrow> bool \<Rightarrow> MediaDescription list \<Rightarrow> RTPTransceiver list \<Rightarrow> nat list \<Rightarrow>
     sig_error option \<times> RTPTransceiver list" where
  "pairTransceivers stopErr dtls [] h local = (None, h)"
| "pairTransceivers stopErr dtls (media # ms) h local =
     (if getMidValue media = [] then (Some WithoutMidValue, h)
      else if pair_skip media then pairTransceivers stopErr dtls ms h local
      else case pair_media stopErr dtls media h local of
             Inl e \<Rightarrow> (Some e, h)
           | Inr (h', local') \<Rightarrow> pairTransceivers stopErr dtls ms h' local')"

text \<open>\<open>setRTPTransceiverCurrentDirection\<close>: an answer gives the transceivers their current directions.\<close>

fun setRTPTransceiverCurrentDirection ::
    "MediaDescription list \<Rightarrow> bool \<Rightarrow> RTPTransceiver list \<Rightarrow> nat list \<Rightarrow> sig_error option \<times> RTPTransceiver list" where
  "setRTPTransceiverCurrentDirection [] weOffer h local = (None, h)"
| "setRTPTransceiverCurrentDirection (media # ms) weOffer h local =
     (let mid = getMidValue media in
      if mid = [] then (Some WithoutMidValue, h)
      else if md_media media = ''application'' then setRTPTransceiverCurrentDirection ms weOffer h local
      else case findByMid h mid local of
        (None, _) \<Rightarrow> (Some (TranscieverMidNil mid), h)
      | (Some i, rest) \<Rightarrow>
          let direction = getPeerDirection media in
          if direction = DirectionUnknown then setRTPTransceiverCurrentDirection ms weOffer h rest
          else
            let direction = (if weOffer then Revers direction else direction);
                direction = (if direction = Sendonly \<and> tv_sender (h ! i) = None then Inactive else direction)
            in setRTPTransceiverCurrentDirection ms weOffer (h[i := (h ! i)\<lparr>tv_currentDirection := direction\<rparr>]) rest)"

section \<open>Signaling is well formed\<close>

lemma SDPType_roundtrip: "NewSDPType (SDPType_String t) = t"
  by (cases t) (simp_all add: NewSDPType_def)

lemma SignalingState_roundtrip: "newSignalingState (SignalingState_String t) = t"
  by (cases t) (simp_all add: newSignalingState_def)

lemma Direction_roundtrip: "NewRTPTransceiverDirection (Direction_String t) = t"
  by (cases t) (simp_all add: NewRTPTransceiverDirection_def)

lemma Revers_involutive [simp]: "Revers (Revers t) = t"
  by (cases t) simp_all

definition has_type :: "SDPType \<Rightarrow> SessionDescription option \<Rightarrow> bool" where
  "has_type t d = (case d of None \<Rightarrow> False | Some sd \<Rightarrow> sd_Type sd = t)"

lemma has_type_simps [simp]: "\<not> has_type t None" "has_type t (Some sd) \<longleftrightarrow> sd_Type sd = t"
  by (simp_all add: has_type_def)

text \<open>What was negotiated: nothing yet, or an offer on one side and its answer on the other.\<close>

definition negotiated :: "SessionDescription option \<Rightarrow> SessionDescription option \<Rightarrow> bool" where
  "negotiated l r \<longleftrightarrow> l = None \<and> r = None \<or> has_type SDPTypeOffer l \<and> has_type SDPTypeAnswer r
     \<or> has_type SDPTypeAnswer l \<and> has_type SDPTypeOffer r"

fun pending_ok :: "SignalingState \<Rightarrow> SessionDescription option \<Rightarrow> SessionDescription option \<Rightarrow> bool" where
  "pending_ok Stable l r \<longleftrightarrow> l = None \<and> r = None"
| "pending_ok HaveLocalOffer l r \<longleftrightarrow> has_type SDPTypeOffer l \<and> r = None"
| "pending_ok HaveRemoteOffer l r \<longleftrightarrow> l = None \<and> has_type SDPTypeOffer r"
| "pending_ok HaveLocalPranswer l r \<longleftrightarrow> has_type SDPTypePranswer l \<and> has_type SDPTypeOffer r"
| "pending_ok HaveRemotePranswer l r \<longleftrightarrow> has_type SDPTypeOffer l \<and> has_type SDPTypePranswer r"
| "pending_ok SignalingClosed l r \<longleftrightarrow> True"
| "pending_ok SignalingUnknown l r \<longleftrightarrow> False"

definition sig_inv :: "PeerConnection \<Rightarrow> bool" where
  "sig_inv pc \<longleftrightarrow> negotiated (pc_currentLocal pc) (pc_currentRemote pc)
     \<and> pending_ok (pc_signalingState pc) (pc_pendingLocal pc) (pc_pendingRemote pc)
     \<and> (pc_isClosed pc \<longleftrightarrow> pc_signalingState pc = SignalingClosed)"

lemma sig_inv_irrelevant:
  "sig_inv (pc\<lparr>pc_isNegotiationNeeded := x\<rparr>) = sig_inv pc" "sig_inv (pc\<lparr>pc_updateFlag := x\<rparr>) = sig_inv pc"
  "sig_inv (pc\<lparr>pc_queued := n\<rparr>) = sig_inv pc" "sig_inv (pc\<lparr>pc_events := e\<rparr>) = sig_inv pc"
  by (simp_all add: sig_inv_def)

lemma sig_inv_notify: "sig_inv (pc_onNegotiationNeeded pc) = sig_inv pc" "sig_inv (onSignalingStateChange st pc) = sig_inv pc"
  by (simp_all add: pc_onNegotiationNeeded_def onSignalingStateChange_def sig_inv_irrelevant)

lemma nextDescription_inv:
  assumes "sig_inv pc" and "\<not> pc_isClosed pc" and "nextDescription sd oper pc = Inr (st, pc')"
  shows "sig_inv (pc'\<lparr>pc_signalingState := st\<rparr>)"
  using assms
  by (cases "pc_signalingState pc"; cases oper; cases "sd_Type sd")
     (auto simp: nextDescription_def checkNextSignalingState_def sig_inv_def negotiated_def split: if_splits)

lemma setDescription_inv: "sig_inv pc \<Longrightarrow> sig_inv (snd (setDescription sd oper pc))"
proof -
  assume i: "sig_inv pc"
  show ?thesis
  proof (cases "nextDescription sd oper pc")
    case (Inl e)
    with i show ?thesis by (simp add: setDescription_def)
  next
    case (Inr r)
    obtain st pc' where r: "r = (st, pc')" by (cases r)
    show ?thesis
    proof (cases "pc_isClosed pc")
      case False
      from nextDescription_inv [OF i False Inr [unfolded r]] show ?thesis
        using Inr r i by (auto simp: setDescription_def Let_def sig_inv_notify sig_inv_irrelevant)
    qed (use i in \<open>simp add: setDescription_def\<close>)
  qed
qed

text \<open>What a user of the connection, and the connection itself, can do; the texts of offers and answers are any.\<close>

datatype pc_action = DoSetLocal SDPType string | DoSetRemote SDPType string | DoCreateOffer string | DoCreateAnswer string
  | DoTransceivers "RTPTransceiver list" | DoDataChannel | DoTransport ICEConnectionState DTLSTransportState
  | DoOperationDone | DoClose ICEConnectionState DTLSTransportState

fun pc_step :: "(string \<Rightarrow> string + MediaDescription list) \<Rightarrow> PeerConnection \<Rightarrow> pc_action \<Rightarrow> PeerConnection" where
  "pc_step parse pc (DoSetLocal t s) = snd (SetLocalDescription parse t s pc)"
| "pc_step parse pc (DoSetRemote t s) = snd (SetRemote_begin parse t s pc)"
| "pc_step parse pc (DoCreateOffer s) = pc\<lparr>pc_lastOffer := s\<rparr>"
| "pc_step parse pc (DoCreateAnswer s) = pc\<lparr>pc_lastAnswer := s\<rparr>"
| "pc_step parse pc (DoTransceivers ts) = pc_onNegotiationNeeded (pc\<lparr>pc_transceivers := ts\<rparr>)"
| "pc_step parse pc DoDataChannel = pc\<lparr>pc_dataChannels := pc_dataChannels pc + 1\<rparr>"
| "pc_step parse pc (DoTransport ice dtls) = updateConnectionState ice dtls pc"
| "pc_step parse pc DoOperationDone = pc\<lparr>pc_queued := pc_queued pc - 1\<rparr>"
| "pc_step parse pc (DoClose ice dtls) = pc_Close ice dtls pc"

definition new_pc :: PeerConnection where
  "new_pc = \<lparr>pc_currentLocal = None, pc_pendingLocal = None, pc_currentRemote = None, pc_pendingRemote = None,
     pc_signalingState = Stable, pc_connectionState = PCNew, pc_isClosed = False, pc_isNegotiationNeeded = False,
     pc_updateFlag = False, pc_lastOffer = [], pc_lastAnswer = [], pc_transceivers = [], pc_dataChannels = 0,
     pc_queued = 0, pc_events = []\<rparr>"

lemma updateConnectionState_sig: "sig_inv (updateConnectionState ice dtls pc) = sig_inv pc"
  unfolding updateConnectionState_def Let_def by (simp add: sig_inv_def)

lemma pc_step_inv: "sig_inv pc \<Longrightarrow> sig_inv (pc_step parse pc a)"
proof (cases a)
  case (DoSetLocal t s)
  assume "sig_inv pc"
  then show ?thesis using DoSetLocal setDescription_inv
    by (auto simp: SetLocalDescription_def Let_def split: option.splits sum.splits)
next
  case (DoSetRemote t s)
  assume "sig_inv pc"
  then show ?thesis using DoSetRemote setDescription_inv by (auto simp: SetRemote_begin_def split: sum.splits)
next
  case (DoClose ice dtls)
  assume "sig_inv pc"
  then show ?thesis using DoClose
    by (simp add: pc_Close_def Let_def updateConnectionState_sig) (simp add: sig_inv_def)
qed (simp_all add: sig_inv_notify updateConnectionState_sig, simp_all add: sig_inv_def)

interpretation pcs: guarded_system "pc_step parse" sig_inv for parse
  by unfold_locales (rule pc_step_inv)


lemma transceiver_check_total:
  assumes "negotiated (Some local) remote" and "tv_sender t \<noteq> Some None"
  shows "transceiver_check attr local remote t \<noteq> None"
proof -
  from assms(1) obtain r where r: "remote = Some r" by (cases remote) (auto simp: negotiated_def)
  have "msid_check attr m t \<noteq> None" for m
    using assms(2) by (auto simp: msid_check_def split: option.splits)
  moreover have "stopped_check attr local remote t \<noteq> None" by (auto simp: stopped_check_def r)
  moreover have "direction_check attr ty remote m t \<noteq> None" for m ty
    by (cases ty) (auto simp: direction_check_def r split: option.splits)
  ultimately have d: "\<exists>b. msid_check attr m t = Some b" "\<exists>b. stopped_check attr local remote t = Some b"
    "\<exists>b. direction_check attr ty remote m t = Some b" for m ty by simp_all
  show ?thesis
  proof (cases "getByMid attr (tv_mid t) local")
    case None
    then show ?thesis using d(2) by (auto simp: transceiver_check_def)
  next
    case (Some m)
    from d(1) obtain b where "msid_check attr m t = Some b" by blast
    then show ?thesis using Some d(2) d(3) [of "sd_Type local" m] by (cases b) (auto simp: transceiver_check_def)
  qed
qed

lemma transceivers_check_total:
  "negotiated (Some local) remote \<Longrightarrow> \<forall>t \<in> set ts. tv_sender t \<noteq> Some None \<Longrightarrow> transceivers_check attr local remote ts \<noteq> None"
  by (induction ts) (use transceiver_check_total in \<open>auto split: option.splits bool.splits\<close>)

text \<open>
  C10. Whatever sequence of descriptions, answers and closings arrives, the descriptions fit the signaling state: in
  \<open>stable\<close> nothing is pending and what was negotiated is an offer on one side and an answer on the other (or nothing);
  in the other states the pending descriptions are those the state is named after. Hence the negotiation-needed check
  dereferences no missing description; only a sender without a track can make it fail.
\<close>

theorem signaling_well_formed:
  "sig_inv (foldl (pc_step parse) new_pc as)
   \<and> ((\<forall>t \<in> set (pc_transceivers (foldl (pc_step parse) new_pc as)). tv_sender t \<noteq> Some None)
        \<longrightarrow> checkNegotiationNeeded attr (foldl (pc_step parse) new_pc as) \<noteq> None)"
proof -
  have "sig_inv new_pc" by (simp add: sig_inv_def new_pc_def negotiated_def)
  then have i: "sig_inv (foldl (pc_step parse) new_pc as)" by (rule pcs.run_inv)
  then have "negotiated (pc_currentLocal (foldl (pc_step parse) new_pc as)) (pc_currentRemote (foldl (pc_step parse) new_pc as))"
    by (simp add: sig_inv_def)
  with i transceivers_check_total show ?thesis by (auto simp: checkNegotiationNeeded_def split: option.splits)
qed

theorem signaling_well_formed_witness:
  "checkNegotiationNeeded (\<lambda>_ _. None) (foldl (pc_step (\<lambda>_. Inr []))
     new_pc [DoCreateOffer ''o'', DoSetLocal SDPTypeOffer ''o'', DoSetRemote SDPTypeAnswer ''a'']) \<noteq> None"
proof -
  have "pc_transceivers (foldl (pc_step (\<lambda>_. Inr [])) new_pc [DoCreateOffer ''o'', DoSetLocal SDPTypeOffer ''o'', DoSetRemote SDPTypeAnswer ''a'']) = []"
    by code_simp
  with signaling_well_formed [of "\<lambda>_. Inr []" "[DoCreateOffer ''o'', DoSetLocal SDPTypeOffer ''o'', DoSetRemote SDPTypeAnswer ''a'']" "\<lambda>_ _. None"]
  show ?thesis by simp
qed

text \<open>A sender whose track was replaced by none does make the check fail.\<close>

lemma check_fails_without_track:
  "checkNegotiationNeeded (\<lambda>m k. map_of (md_attributes m) k)
     (new_pc\<lparr>pc_currentLocal := Some \<lparr>sd_Type = SDPTypeAnswer, sd_SDP = [], sd_parsed = [\<lparr>md_media = ''audio'',
        md_attributes = [(''mid'', ''0''), (''msid'', ''s t'')]\<rparr>]\<rparr>,
      pc_transceivers := [(newRTPTransceiver (Some None) Sendrecv Audio)\<lparr>tv_mid := ''0''\<rparr>]\<rparr>) = None"
  by (simp add: checkNegotiationNeeded_def new_pc_def transceiver_check_def getByMid_def newRTPTransceiver_def msid_check_def)

section \<open>The transitions of the WebRTC specification\<close>

text \<open>The state diagram of the W3C specification, with its self-loops and the rollback of a pending offer.\<close>

fun w3c_next :: "SignalingState \<Rightarrow> stateChangeOp \<Rightarrow> SDPType \<Rightarrow> SignalingState option" where
  "w3c_next Stable SetLocal SDPTypeOffer = Some HaveLocalOffer"
| "w3c_next Stable SetRemote SDPTypeOffer = Some HaveRemoteOffer"
| "w3c_next HaveLocalOffer SetLocal SDPTypeOffer = Some HaveLocalOffer"
| "w3c_next HaveLocalOffer SetRemote SDPTypeAnswer = Some Stable"
| "w3c_next HaveLocalOffer SetRemote SDPTypePranswer = Some HaveRemotePranswer"
| "w3c_next HaveLocalOffer SetLocal SDPTypeRollback = Some Stable"
| "w3c_next HaveRemoteOffer SetRemote SDPTypeOffer = Some HaveRemoteOffer"
| "w3c_next HaveRemoteOffer SetLocal SDPTypeAnswer = Some Stable"
| "w3c_next HaveRemoteOffer SetLocal SDPTypePranswer = Some HaveLocalPranswer"
| "w3c_next HaveRemoteOffer SetRemote SDPTypeRollback = Some Stable"
| "w3c_next HaveLocalPranswer SetLocal SDPTypePranswer = Some HaveLocalPranswer"
| "w3c_next HaveLocalPranswer SetLocal SDPTypeAnswer = Some Stable"
| "w3c_next HaveRemotePranswer SetRemote SDPTypePranswer = Some HaveRemotePranswer"
| "w3c_next HaveRemotePranswer SetRemote SDPTypeAnswer = Some Stable"
| "w3c_next _ _ _ = None"

text \<open>A local description must be the text that \<open>CreateOffer\<close> or \<open>CreateAnswer\<close> returned last.\<close>

definition local_text_ok :: "SessionDescription \<Rightarrow> stateChangeOp \<Rightarrow> PeerConnection \<Rightarrow> bool" where
  "local_text_ok sd oper pc = (oper = SetRemote
     \<or> sd_Type sd = SDPTypeOffer \<and> sd_SDP sd = pc_lastOffer pc
     \<or> (sd_Type sd = SDPTypeAnswer \<or> sd_Type sd = SDPTypePranswer) \<and> sd_SDP sd = pc_lastAnswer pc)"

lemma nextDescription_iff:
  "(\<exists>pc'. nextDescription sd oper pc = Inr (st, pc')) \<longleftrightarrow>
     w3c_next (pc_signalingState pc) oper (sd_Type sd) = Some st \<and> st \<noteq> pc_signalingState pc
       \<and> sd_Type sd \<noteq> SDPTypeRollback \<and> local_text_ok sd oper pc"
  by (cases "pc_signalingState pc"; cases oper; cases "sd_Type sd")
     (auto simp: nextDescription_def checkNextSignalingState_def local_text_ok_def)

lemma setDescription_state: "fst (setDescription sd oper pc) = None \<Longrightarrow>
   \<exists>st pc'. nextDescription sd oper pc = Inr (st, pc') \<and> pc_signalingState (snd (setDescription sd oper pc)) = st"
  by (auto simp: setDescription_def Let_def pc_onNegotiationNeeded_def onSignalingStateChange_def split: if_splits sum.splits)

text \<open>
  C31. \<open>setDescription\<close> moves an open connection exactly along the state diagram of the specification, without its
  self-loops and its rollbacks: it succeeds if and only if the diagram has a transition to another state, the
  description is no rollback and a local text is the one created last; a refused description changes nothing. So a
  rollback is refused in every state, and a provisional answer cannot be updated.
\<close>

theorem signaling_transitions_exact:
  assumes "\<not> pc_isClosed pc" and "sd_Type sd \<noteq> SDPTypeUnknown"
  shows "(fst (setDescription sd oper pc) = None \<longleftrightarrow>
       (\<exists>st. w3c_next (pc_signalingState pc) oper (sd_Type sd) = Some st \<and> st \<noteq> pc_signalingState pc
          \<and> sd_Type sd \<noteq> SDPTypeRollback \<and> local_text_ok sd oper pc))
     \<and> (fst (setDescription sd oper pc) = None \<longrightarrow>
          w3c_next (pc_signalingState pc) oper (sd_Type sd) = Some (pc_signalingState (snd (setDescription sd oper pc))))
     \<and> (fst (setDescription sd oper pc) \<noteq> None \<longrightarrow> snd (setDescription sd oper pc) = pc)"
proof -
  have ok: "fst (setDescription sd oper pc) = None \<longleftrightarrow> (\<exists>st pc'. nextDescription sd oper pc = Inr (st, pc'))"
    using assms by (cases "nextDescription sd oper pc") (auto simp: setDescription_def SDPType_roundtrip Let_def)
  moreover have "snd (setDescription sd oper pc) = pc" if "fst (setDescription sd oper pc) \<noteq> None"
    using that by (auto simp: setDescription_def Let_def split: if_splits sum.splits)
  moreover have "w3c_next (pc_signalingState pc) oper (sd_Type sd) = Some (pc_signalingState (snd (setDescription sd oper pc)))"
    if "fst (setDescription sd oper pc) = None"
    using setDescription_state [OF that] nextDescription_iff [of sd oper pc] by auto
  ultimately show ?thesis using nextDescription_iff [of sd oper pc] by blast
qed

theorem signaling_transitions_exact_witness:
  "fst (setDescription \<lparr>sd_Type = SDPTypeOffer, sd_SDP = ''r'', sd_parsed = []\<rparr> SetRemote new_pc) = None
   \<and> fst (setDescription \<lparr>sd_Type = SDPTypeRollback, sd_SDP = ''r'', sd_parsed = []\<rparr> SetRemote
        (new_pc\<lparr>pc_signalingState := HaveRemoteOffer\<rparr>)) \<noteq> None"
  using signaling_transitions_exact [of new_pc "\<lparr>sd_Type = SDPTypeOffer, sd_SDP = ''r'', sd_parsed = []\<rparr>" SetRemote]
    signaling_transitions_exact [of "new_pc\<lparr>pc_signalingState := HaveRemoteOffer\<rparr>" "\<lparr>sd_Type = SDPTypeRollback, sd_SDP = ''r'', sd_parsed = []\<rparr>" SetRemote]
  by (simp add: new_pc_def local_text_ok_def)

section \<open>Pairing media sections with transceivers\<close>

text \<open>The two searches take an element out of the working list.\<close>

lemma findByMid_pluck: "findByMid h mid is = pluck (\<lambda>i. tv_mid (h ! i) = mid) is"
  by (induction "is") auto

lemma pluck_Some: "pluck P is = (Some i, rest) \<Longrightarrow> distinct is \<Longrightarrow> P i \<and> i \<in> set is \<and> set rest = set is - {i} \<and> distinct rest"
proof (induction "is" arbitrary: rest)
  case (Cons j js)
  show ?case
  proof (cases "P j")
    case False
    with Cons.prems(1) obtain r where r: "pluck P js = (Some i, r)" "rest = j # r" by (auto split: prod.splits)
    have "distinct js" "j \<notin> set js" using Cons.prems(2) by simp_all
    with Cons.IH [OF r(1)] have "P i" "i \<in> set js" "set r = set js - {i}" "distinct r" by blast+
    then show ?thesis using r(2) \<open>j \<notin> set js\<close> by auto
  qed (use Cons.prems in auto)
qed simp

lemma pluck_None: "pluck P is = (None, rest) \<Longrightarrow> (\<forall>i \<in> set is. \<not> P i) \<and> rest = is"
  by (induction "is" arbitrary: rest) (auto split: if_splits prod.splits)

lemma satisfy_Some:
  "satisfy_loop h kind ds local = (Some i, rest) \<Longrightarrow> distinct local \<Longrightarrow>
     tv_mid (h ! i) = [] \<and> i \<in> set local \<and> set rest = set local - {i} \<and> distinct rest"
  by (induction ds) (auto split: prod.splits option.splits dest!: pluck_Some)

lemma satisfy_None: "satisfy_loop h kind ds local = (None, rest) \<Longrightarrow> rest = local"
  by (induction ds) (auto split: prod.splits option.splits)

lemma pair_fields [simp]: "tv_mid (pair_direction d t) = tv_mid t" "tv_mid (pair_mid m t) = (if tv_mid t = [] then m else tv_mid t)"
  "tv_mid (snd (Transceiver_Stop None t)) = tv_mid t" "tv_mid (pair_new d k) = []"
  by (simp_all add: pair_direction_def pair_mid_def Transceiver_Stop_def pair_new_def newRTPTransceiver_def)

text \<open>
  While the sections with the identifiers \<open>V\<close> are still to come: no identifier is used twice, and a transceiver that
  has one of \<open>V\<close> is still in the working list.
\<close>

definition mids_distinct :: "RTPTransceiver list \<Rightarrow> bool" where
  "mids_distinct h \<longleftrightarrow> (\<forall>i j. i < length h \<longrightarrow> j < length h \<longrightarrow> tv_mid (h ! i) \<noteq> [] \<longrightarrow> tv_mid (h ! i) = tv_mid (h ! j) \<longrightarrow> i = j)"

definition pair_inv :: "string set \<Rightarrow> RTPTransceiver list \<Rightarrow> nat list \<Rightarrow> bool" where
  "pair_inv V h local \<longleftrightarrow> mids_distinct h \<and> distinct local \<and> (\<forall>i \<in> set local. i < length h)
     \<and> (\<forall>i < length h. tv_mid (h ! i) \<in> V \<longrightarrow> i \<in> set local)"

lemma pair_invD:
  assumes "pair_inv V h local"
  shows "mids_distinct h" "distinct local" "i \<in> set local \<Longrightarrow> i < length h" "i < length h \<Longrightarrow> tv_mid (h ! i) \<in> V \<Longrightarrow> i \<in> set local"
  using assms unfolding pair_inv_def by blast+

lemma pair_invI:
  "mids_distinct h \<Longrightarrow> distinct local \<Longrightarrow> (\<And>i. i \<in> set local \<Longrightarrow> i < length h) \<Longrightarrow>
     (\<And>i. i < length h \<Longrightarrow> tv_mid (h ! i) \<in> V \<Longrightarrow> i \<in> set local) \<Longrightarrow> pair_inv V h local"
  unfolding pair_inv_def by blast

lemma mids_distinctD: "mids_distinct h \<Longrightarrow> i < length h \<Longrightarrow> j < length h \<Longrightarrow> tv_mid (h ! i) \<noteq> [] \<Longrightarrow> tv_mid (h ! i) = tv_mid (h ! j) \<Longrightarrow> i = j"
  unfolding mids_distinct_def by blast

lemma mids_distinct_update:
  assumes "mids_distinct h" and "\<And>j. j < length h \<Longrightarrow> tv_mid (h ! j) = tv_mid t \<Longrightarrow> j = i"
  shows "mids_distinct (h[i := t])"
  unfolding mids_distinct_def
proof (intro allI impI)
  fix a b
  assume a: "a < length (h[i := t])" "b < length (h[i := t])" "tv_mid (h[i := t] ! a) \<noteq> []" "tv_mid (h[i := t] ! a) = tv_mid (h[i := t] ! b)"
  then have a': "a < length h" "b < length h" by simp_all
  consider "a = i" "b = i" | "a = i" "b \<noteq> i" | "a \<noteq> i" "b = i" | "a \<noteq> i" "b \<noteq> i" by blast
  then show "a = b"
  proof cases
    case 2
    with a a' have "tv_mid (h ! b) = tv_mid t" by simp
    then have "b = i" by (rule assms(2) [OF a'(2)])
    with 2 show ?thesis by simp
  next
    case 3
    with a a' have "tv_mid (h ! a) = tv_mid t" by simp
    then have "a = i" by (rule assms(2) [OF a'(1)])
    with 3 show ?thesis by simp
  next
    case 4
    with a have "tv_mid (h ! a) \<noteq> []" "tv_mid (h ! a) = tv_mid (h ! b)" by simp_all
    then show ?thesis by (rule mids_distinctD [OF assms(1) a'])
  qed simp
qed

lemma mids_distinct_append:
  assumes "mids_distinct h" and "\<And>j. j < length h \<Longrightarrow> tv_mid (h ! j) \<noteq> tv_mid t"
  shows "mids_distinct (h @ [t])"
  unfolding mids_distinct_def
proof (intro allI impI)
  fix a b
  assume a: "a < length (h @ [t])" "b < length (h @ [t])" "tv_mid ((h @ [t]) ! a) \<noteq> []" "tv_mid ((h @ [t]) ! a) = tv_mid ((h @ [t]) ! b)"
  consider "a < length h" "b < length h" | "a < length h" "b = length h" | "a = length h" "b < length h" | "a = length h" "b = length h"
    using a(1,2) by fastforce
  then show "a = b"
  proof cases
    case 1
    with a have "tv_mid (h ! a) \<noteq> []" "tv_mid (h ! a) = tv_mid (h ! b)" by (simp_all add: nth_append)
    then show ?thesis by (rule mids_distinctD [OF assms(1) 1])
  next
    case 2
    with a assms(2) [OF 2(1)] show ?thesis by (simp add: nth_append)
  next
    case 3
    with a assms(2) [OF 3(2)] show ?thesis by (simp add: nth_append)
  qed simp
qed

lemma pair_inv_set:
  assumes inv: "pair_inv (insert v V) h local" and i: "i \<in> set local" and rest: "set rest = set local - {i}" "distinct rest"
    and v: "v \<notin> V" and mid: "tv_mid t = v" and free: "\<And>j. j < length h \<Longrightarrow> tv_mid (h ! j) = v \<Longrightarrow> j = i"
  shows "pair_inv V (h[i := t]) rest"
proof -
  have "mids_distinct (h[i := t])"
  proof (rule mids_distinct_update)
    show "mids_distinct h" by (rule pair_invD(1) [OF inv])
    show "j = i" if "j < length h" "tv_mid (h ! j) = tv_mid t" for j using free [OF that(1)] that(2) mid by blast
  qed
  moreover have "j \<in> set rest" if "j < length h" "tv_mid (h[i := t] ! j) \<in> V" for j
  proof -
    have ne: "j \<noteq> i" using that v mid by auto
    then have "j \<in> set local" using that by (intro pair_invD(4) [OF inv]) simp_all
    with ne rest(1) show ?thesis by simp
  qed
  ultimately show ?thesis by (intro pair_invI) (use rest pair_invD(3) [OF inv] in simp_all)
qed

lemma pair_inv_append:
  assumes inv: "pair_inv (insert v V) h local" and v: "v \<notin> V" and mid: "tv_mid t = v"
    and free: "\<And>j. j < length h \<Longrightarrow> tv_mid (h ! j) \<noteq> v"
  shows "pair_inv V (h @ [t]) local"
proof -
  have "mids_distinct (h @ [t])"
  proof (rule mids_distinct_append)
    show "mids_distinct h" by (rule pair_invD(1) [OF inv])
    show "tv_mid (h ! j) \<noteq> tv_mid t" if "j < length h" for j using free [OF that] mid by simp
  qed
  moreover have "j \<in> set local" if "j < length (h @ [t])" "tv_mid ((h @ [t]) ! j) \<in> V" for j
  proof (cases "j < length h")
    case True
    then show ?thesis using that by (intro pair_invD(4) [OF inv]) (simp_all add: nth_append)
  next
    case False
    then have "j = length h" using that(1) by simp
    then show ?thesis using that(2) v mid by simp
  qed
  ultimately show ?thesis
    by (intro pair_invI) (use pair_invD(2) [OF inv] pair_invD(3) [OF inv] in \<open>simp_all add: less_SucI\<close>)
qed

text \<open>What pairing one section does to the heap: one transceiver, old or new, now has the section's identifier.\<close>

lemma pair_media_cases:
  assumes p: "pair_media stopErr dtls m h local = Inr (h', local')" and d: "distinct local" and ne: "getMidValue m \<noteq> []"
  obtains (Found) i t where "h' = h[i := t]" "tv_mid t = getMidValue m" "tv_mid (h ! i) = getMidValue m" "i \<in> set local"
      "set local' = set local - {i}" "distinct local'"
  | (Taken) i t where "h' = h[i := t]" "tv_mid t = getMidValue m" "tv_mid (h ! i) = []" "i \<in> set local"
      "set local' = set local - {i}" "distinct local'" "\<forall>j \<in> set local. tv_mid (h ! j) \<noteq> getMidValue m"
  | (New) t where "h' = h @ [t]" "tv_mid t = getMidValue m" "local' = local" "\<forall>j \<in> set local. tv_mid (h ! j) \<noteq> getMidValue m"
proof (cases "findByMid h (getMidValue m) local")
  case (Pair r rest)
  show ?thesis
  proof (cases r)
    case (Some i)
    note f = pluck_Some [OF Pair [unfolded Some findByMid_pluck] d]
    obtain u where u: "h' = h[i := pair_mid (getMidValue m) (pair_direction (getPeerDirection m) u)]" "local' = rest" "tv_mid u = tv_mid (h ! i)"
    proof (cases "getPeerDirection m = Inactive")
      case True
      with p have "stopErr i = None" by (cases "stopErr i") (simp_all add: pair_media_def Pair Some Let_def Transceiver_Stop_def)
      with True p show ?thesis
        by (intro that [of "(h ! i)\<lparr>tv_direction := Inactive, tv_currentDirection := Inactive\<rparr>"])
          (simp_all add: pair_media_def Pair Some Let_def Transceiver_Stop_def)
    next
      case False
      with p show ?thesis by (intro that [of "h ! i"]) (simp_all add: pair_media_def Pair Some Let_def)
    qed
    moreover have "tv_mid (pair_mid (getMidValue m) (pair_direction (getPeerDirection m) u)) = getMidValue m" using f ne u(3) by simp
    ultimately show ?thesis using f by (intro Found [OF u(1)]) auto
  next
    case None
    note none = pluck_None [OF Pair [unfolded None findByMid_pluck]]
    show ?thesis
    proof (cases "satisfyTypeAndDirection h (NewRTPCodecType (md_media m)) (getPeerDirection m) local")
      case s: (Pair r' rest')
      show ?thesis
      proof (cases r')
        case some: (Some i)
        note f = satisfy_Some [OF s [unfolded some satisfyTypeAndDirection_def] d]
        let ?t = "pair_mid (getMidValue m) (pair_direction (getPeerDirection m) (h ! i))"
        have "h' = h[i := ?t]" "local' = rest'" using p by (simp_all add: pair_media_def Pair None s some Let_def)
        then show ?thesis using f none by (intro Taken [of i ?t]) auto
      next
        case n: None
        let ?t = "pair_mid (getMidValue m) (pair_new (getPeerDirection m) (NewRTPCodecType (md_media m)))"
        have "h' = h @ [?t]" "local' = rest'" using p by (auto simp: pair_media_def Pair None s n Let_def split: if_splits)
        moreover have "rest' = local" by (rule satisfy_None [OF s [unfolded n satisfyTypeAndDirection_def]])
        ultimately show ?thesis using none by (intro New [of ?t]) auto
      qed
    qed
  qed
qed

lemma pair_media_ok:
  assumes inv: "pair_inv (insert (getMidValue m) V) h local" and v: "getMidValue m \<notin> V" "getMidValue m \<noteq> []"
    and p: "pair_media stopErr dtls m h local = Inr (h', local')"
  shows "pair_inv V h' local' \<and> (\<exists>t \<in> set h'. tv_mid t = getMidValue m)
    \<and> (\<forall>u \<in> set h. tv_mid u \<noteq> [] \<longrightarrow> (\<exists>u' \<in> set h'. tv_mid u' = tv_mid u))"
proof -
  let ?v = "getMidValue m"
  have d: "distinct local" and lt: "\<And>i. i \<in> set local \<Longrightarrow> i < length h" and md: "mids_distinct h"
    using pair_invD [OF inv] by simp_all
  have free: "tv_mid (h ! j) \<noteq> ?v" if "\<forall>i \<in> set local. tv_mid (h ! i) \<noteq> ?v" "j < length h" for j
    using pair_invD(4) [OF inv that(2)] that(1) by blast
  have keep: "\<exists>u' \<in> set (h[i := t]). tv_mid u' = tv_mid u"
    if same: "tv_mid (h ! i) = [] \<or> tv_mid t = tv_mid (h ! i)" "tv_mid u \<noteq> []" "i < length h" and u: "u \<in> set h" for i t u
  proof -
    obtain j where "j < length h" "u = h ! j" using u by (auto simp: in_set_conv_nth)
    moreover from this have "h[i := t] ! j \<in> set (h[i := t])" by (intro nth_mem) simp
    ultimately show ?thesis using same by (intro bexI [of _ "h[i := t] ! j"]) (auto simp: nth_list_update)
  qed
  show ?thesis using p d v(2)
  proof (cases rule: pair_media_cases)
    case (Found i t)
    have "pair_inv V h' local'" unfolding Found(1)
    proof (rule pair_inv_set [OF inv Found(4-6) v(1) Found(2)])
      fix j assume j: "j < length h" "tv_mid (h ! j) = ?v"
      show "j = i" by (rule mids_distinctD [OF md j(1) lt [OF Found(4)]]) (use j(2) Found(3) v(2) in simp_all)
    qed
    moreover have "t \<in> set h'" using Found(1) lt [OF Found(4)] by (simp add: set_update_memI)
    ultimately show ?thesis using Found(1-3) keep [of i t] lt [OF Found(4)] by auto
  next
    case (Taken i t)
    have "pair_inv V h' local'" unfolding Taken(1)
      by (rule pair_inv_set [OF inv Taken(4-6) v(1) Taken(2)]) (use free [OF Taken(7)] in blast)
    moreover have "t \<in> set h'" using Taken(1) lt [OF Taken(4)] by (simp add: set_update_memI)
    ultimately show ?thesis using Taken(1-3) keep [of i t] lt [OF Taken(4)] by auto
  next
    case (New t)
    have "pair_inv V h' local'" unfolding New(1,3)
      by (rule pair_inv_append [OF inv v(1) New(2)]) (use free [OF New(4)] in blast)
    then show ?thesis using New(1,2) by auto
  qed
qed


lemma pair_inv_weaken: "pair_inv V h local \<Longrightarrow> W \<subseteq> V \<Longrightarrow> pair_inv W h local"
  unfolding pair_inv_def by blast

lemma pair_media_error:
  "pair_media stopErr dtls m h local = Inl e \<Longrightarrow> \<not> dtls \<and> e = RTPReceiverDTLSTransportNil \<or> (\<exists>i. stopErr i = Some e)"
  by (auto simp: pair_media_def Let_def Transceiver_Stop_def split: prod.splits option.splits if_splits)

definition pair_result :: "(nat \<Rightarrow> sig_error option) \<Rightarrow> bool \<Rightarrow> MediaDescription list \<Rightarrow> sig_error option \<Rightarrow> RTPTransceiver list \<Rightarrow> bool" where
  "pair_result stopErr dtls ms e h' \<longleftrightarrow> (case e of
       None \<Rightarrow> \<forall>m \<in> set ms. \<not> pair_skip m \<longrightarrow> (\<exists>t \<in> set h'. tv_mid t = getMidValue m)
     | Some err \<Rightarrow> \<not> dtls \<and> err = RTPReceiverDTLSTransportNil \<or> (\<exists>i. stopErr i = Some err))"

lemma pairTransceivers_ok:
  assumes "pair_inv (set (map getMidValue ms)) h local" and "distinct (map getMidValue ms)" and "\<forall>m \<in> set ms. getMidValue m \<noteq> []"
  shows "\<exists>e h'. pairTransceivers stopErr dtls ms h local = (e, h') \<and> mids_distinct h' \<and> pair_result stopErr dtls ms e h'
    \<and> (\<forall>u \<in> set h. tv_mid u \<noteq> [] \<longrightarrow> (\<exists>u' \<in> set h'. tv_mid u' = tv_mid u))"
  using assms
proof (induction ms arbitrary: h local)
  case Nil
  then have "mids_distinct h" by (intro pair_invD(1)) simp
  then show ?case by (auto simp: pair_result_def)
next
  case (Cons m ms)
  let ?V = "set (map getMidValue ms)"
  have inv: "pair_inv (insert (getMidValue m) ?V) h local" and new: "getMidValue m \<notin> ?V" "getMidValue m \<noteq> []"
    and d: "distinct (map getMidValue ms)" and ne: "\<forall>m \<in> set ms. getMidValue m \<noteq> []"
    using Cons.prems by simp_all
  show ?case
  proof (cases "pair_skip m")
    case True
    have "pair_inv ?V h local" by (rule pair_inv_weaken [OF inv]) blast
    from Cons.IH [OF this d ne] obtain e h' where "pairTransceivers stopErr dtls ms h local = (e, h')" "mids_distinct h'" "pair_result stopErr dtls ms e h'"
      "\<forall>u \<in> set h. tv_mid u \<noteq> [] \<longrightarrow> (\<exists>u' \<in> set h'. tv_mid u' = tv_mid u)" by blast
    moreover from this(3) True have "pair_result stopErr dtls (m # ms) e h'" by (simp add: pair_result_def split: option.splits)
    ultimately show ?thesis using True new(2) by simp
  next
    case False
    show ?thesis
    proof (cases "pair_media stopErr dtls m h local")
      case (Inl e)
      with False new(2) pair_media_error [OF Inl] pair_invD(1) [OF inv] show ?thesis by (auto simp: pair_result_def)
    next
      case (Inr p)
      obtain h1 l1 where p: "pair_media stopErr dtls m h local = Inr (h1, l1)" using Inr by (cases p) simp
      note ok = pair_media_ok [OF inv new p]
      then have "pair_inv ?V h1 l1" by blast
      from Cons.IH [OF this d ne] obtain e h' where h': "pairTransceivers stopErr dtls ms h1 l1 = (e, h')" "mids_distinct h'"
        "pair_result stopErr dtls ms e h'" "\<forall>u \<in> set h1. tv_mid u \<noteq> [] \<longrightarrow> (\<exists>u' \<in> set h'. tv_mid u' = tv_mid u)" by blast
      have kept: "\<exists>u' \<in> set h'. tv_mid u' = x" if "\<exists>u \<in> set h1. tv_mid u = x" "x \<noteq> []" for x
        using h'(4) that by auto
      have "\<exists>t \<in> set h'. tv_mid t = getMidValue m" using ok new(2) by (intro kept) blast+
      then have "pair_result stopErr dtls (m # ms) e h'" using h'(3) by (simp add: pair_result_def split: option.splits)
      moreover have "\<exists>u' \<in> set h'. tv_mid u' = tv_mid u" if "u \<in> set h" "tv_mid u \<noteq> []" for u
        using ok that by (intro kept) blast+
      moreover have "pairTransceivers stopErr dtls (m # ms) h local = (e, h')" using False new(2) p h'(1) by simp
      ultimately show ?thesis using h'(2) by blast
    qed
  qed
qed

text \<open>
  C28. Pairing an offer's media sections with transceivers, for an offer whose sections carry distinct, non-empty identifiers and a connection whose
  transceivers have distinct ones: if no error is returned, then every audio or video section with a direction has a transceiver of its own. An error is one of
  stopping a transceiver, or that of a missing DTLS transport. In both cases no two transceivers share an identifier afterwards, and none of the earlier
  identifiers is lost.
\<close>

theorem media_sections_paired:
  assumes "mids_distinct h" and "distinct (map getMidValue ms)" and "\<forall>m \<in> set ms. getMidValue m \<noteq> []"
  shows "\<exists>e h'. pairTransceivers stopErr dtls ms h [0..<length h] = (e, h') \<and> mids_distinct h'
    \<and> (case e of
         None \<Rightarrow> \<forall>m \<in> set ms. \<not> pair_skip m \<longrightarrow> (\<exists>t \<in> set h'. tv_mid t = getMidValue m)
       | Some err \<Rightarrow> \<not> dtls \<and> err = RTPReceiverDTLSTransportNil \<or> (\<exists>i. stopErr i = Some err))
    \<and> (\<forall>u \<in> set h. tv_mid u \<noteq> [] \<longrightarrow> (\<exists>u' \<in> set h'. tv_mid u' = tv_mid u))"
proof -
  have "pair_inv (set (map getMidValue ms)) h [0..<length h]" by (rule pair_invI) (use assms(1) in simp_all)
  from pairTransceivers_ok [OF this assms(2,3), of stopErr dtls] show ?thesis unfolding pair_result_def .
qed

abbreviation demo_sections :: "MediaDescription list" where
  "demo_sections \<equiv>
     [\<lparr>md_media = ''audio'', md_attributes = [(''mid'', ''0''), (''sendrecv'', [])]\<rparr>,
      \<lparr>md_media = ''video'', md_attributes = [(''mid'', ''1''), (''sendonly'', [])]\<rparr>]"

theorem media_sections_paired_witness:
  "\<exists>h'. pairTransceivers (\<lambda>_. None) True demo_sections [newRTPTransceiver None Recvonly Video] [0..<1] = (None, h') \<and> mids_distinct h'
     \<and> (\<exists>t \<in> set h'. tv_mid t = ''0'') \<and> (\<exists>t \<in> set h'. tv_mid t = ''1'')"
proof -
  let ?h = "[newRTPTransceiver None Recvonly Video]"
  have "mids_distinct ?h" "distinct (map getMidValue demo_sections)" "\<forall>m \<in> set demo_sections. getMidValue m \<noteq> []"
    by (simp_all add: mids_distinct_def getMidValue_def)
  from media_sections_paired [OF this, of "\<lambda>_. None" True] obtain e h' where
    r: "pairTransceivers (\<lambda>_. None) True demo_sections ?h [0..<length ?h] = (e, h')" "mids_distinct h'"
      "case e of None \<Rightarrow> \<forall>m \<in> set demo_sections. \<not> pair_skip m \<longrightarrow> (\<exists>t \<in> set h'. tv_mid t = getMidValue m)
       | Some err \<Rightarrow> \<not> True \<and> err = RTPReceiverDTLSTransportNil \<or> (\<exists>i :: nat. None = Some err)" by blast
  from r(3) have e: "e = None" by (cases e) simp_all
  have l: "[0..<length ?h] = [0..<1]" by simp
  have m: "getMidValue (demo_sections ! 0) = ''0''" "getMidValue (demo_sections ! 1) = ''1''" "\<not> pair_skip (demo_sections ! 0)" "\<not> pair_skip (demo_sections ! 1)"
    by code_simp+
  have paired: "\<not> pair_skip (demo_sections ! k) \<longrightarrow> (\<exists>t \<in> set h'. tv_mid t = getMidValue (demo_sections ! k))" if "k < 2" for k
    using r(3) e that by (auto simp: less_2_cases_iff)
  have "\<exists>t \<in> set h'. tv_mid t = ''0''" "\<exists>t \<in> set h'. tv_mid t = ''1''" using paired [of 0] paired [of 1] unfolding m(1,2) using m(3,4) by simp_all
  with r(1,2) show ?thesis unfolding e l by blast
qed

end
