(* ===== verification/IceCandidate.thy ===== *)
theory IceCandidate
  imports GoNet
begin

text \<open>
  ICE candidates and candidate pairs of \<open>lib/pion-ice\<close>: the enumerations of \<open>candidatetype.go\<close>, \<open>networktype.go\<close>, \<open>tcptype.go\<close>, \<open>role.go\<close> and
  \<open>candidatepair_state.go\<close>, the address helpers of \<open>addr.go\<close>, the candidates of \<open>candidate_base.go\<close> with their constructors, priorities and textual form,
  and the pairs of \<open>candidatepair.go\<close>. \<open>net.ParseIP\<close> is an argument of the constructors.
\<close>

section \<open>Enumerations\<close>

datatype ice_error =
    ErrAddressParseFailed
  | ErrDetermineNetworkType
  | ErrUnknownCandidateTyp
  | ErrAttributeTooShort
  | ErrParseComponent
  | ErrParsePriority
  | ErrParsePort
  | ErrParseRelatedAddr
  | ErrParseTCPType
  | ErrUnknownRole
  | ErrRemoteUfragEmpty
  | ErrRemotePwdEmpty
  | ErrMultipleStart
  | ErrLocalUfragInsufficientBits
  | ErrLocalPwdInsufficientBits
  | ErrClosed

datatype CandidateType =
    CandidateTypeUnspecified
  | CandidateTypeHost
  | CandidateTypeServerReflexive
  | CandidateTypePeerReflexive
  | CandidateTypeRelay

fun CandidateType_String :: "CandidateType \<Rightarrow> string" where
  "CandidateType_String CandidateTypeHost = ''host''"
| "CandidateType_String CandidateTypeServerReflexive = ''srflx''"
| "CandidateType_String CandidateTypePeerReflexive = ''prflx''"
| "CandidateType_String CandidateTypeRelay = ''relay''"
| "CandidateType_String CandidateTypeUnspecified = ''Unknown candidate type''"

fun Preference :: "CandidateType \<Rightarrow> u16" where
  "Preference CandidateTypeHost = 126"
| "Preference CandidateTypePeerReflexive = 110"
| "Preference CandidateTypeServerReflexive = 100"
| "Preference CandidateTypeRelay = 0"
| "Preference CandidateTypeUnspecified = 0"

definition containsCandidateType :: "CandidateType \<Rightarrow> CandidateType list \<Rightarrow> bool" where
  "containsCandidateType t ts \<longleftrightarrow> t \<in> set ts"

text \<open>\<open>NetworkTypeNone\<close> is the value 0, which names no network.\<close>

datatype NetworkType = NetworkTypeNone | NetworkTypeUDP4 | NetworkTypeUDP6 | NetworkTypeTCP4 | NetworkTypeTCP6

definition supportedNetworkTypes :: "NetworkType list" where
  "supportedNetworkTypes = [NetworkTypeUDP4, NetworkTypeUDP6, NetworkTypeTCP4, NetworkTypeTCP6]"

fun NetworkType_String :: "NetworkType \<Rightarrow> string" where
  "NetworkType_String NetworkTypeUDP4 = ''udp4''"
| "NetworkType_String NetworkTypeUDP6 = ''udp6''"
| "NetworkType_String NetworkTypeTCP4 = ''tcp4''"
| "NetworkType_String NetworkTypeTCP6 = ''tcp6''"
| "NetworkType_String NetworkTypeNone = ''Unknown''"

definition IsUDP :: "NetworkType \<Rightarrow> bool" where
  "IsUDP t \<longleftrightarrow> t = NetworkTypeUDP4 \<or> t = NetworkTypeUDP6"

definition IsTCP :: "NetworkType \<Rightarrow> bool" where
  "IsTCP t \<longleftrightarrow> t = NetworkTypeTCP4 \<or> t = NetworkTypeTCP6"

definition NetworkShort :: "NetworkType \<Rightarrow> string" where
  "NetworkShort t = (if IsUDP t then ''udp'' else if IsTCP t then ''tcp'' else ''Unknown'')"

fun IsReliable :: "NetworkType \<Rightarrow> bool" where
  "IsReliable NetworkTypeTCP4 = True"
| "IsReliable NetworkTypeTCP6 = True"
| "IsReliable _ = False"

fun IsIPv4 :: "NetworkType \<Rightarrow> bool" where
  "IsIPv4 NetworkTypeUDP4 = True"
| "IsIPv4 NetworkTypeTCP4 = True"
| "IsIPv4 _ = False"

fun IsIPv6 :: "NetworkType \<Rightarrow> bool" where
  "IsIPv6 NetworkTypeUDP6 = True"
| "IsIPv6 NetworkTypeTCP6 = True"
| "IsIPv6 _ = False"

text \<open>\<open>strings.ToLower\<close> on ASCII and \<open>strings.HasPrefix\<close>, \<open>strings.HasSuffix\<close>.\<close>

definition lower_char :: "char \<Rightarrow> char" where
  "lower_char c = (let n = (of_char c :: nat) in if 65 \<le> n \<and> n \<le> 90 then char_of (n + 32) else c)"

definition ToLower :: "string \<Rightarrow> string" where
  "ToLower = map lower_char"

definition HasPrefix :: "string \<Rightarrow> string \<Rightarrow> bool" where
  "HasPrefix s p \<longleftrightarrow> take (length p) s = p"

definition HasSuffix :: "string \<Rightarrow> string \<Rightarrow> bool" where
  "HasSuffix s p \<longleftrightarrow> length p \<le> length s \<and> drop (length s - length p) s = p"

definition determineNetworkType :: "string \<Rightarrow> ip \<Rightarrow> ice_error + NetworkType" where
  "determineNetworkType network x =
     (let ipv4 = (ip_To4 x \<noteq> None)
      in if HasPrefix (ToLower network) ''udp'' then Inr (if ipv4 then NetworkTypeUDP4 else NetworkTypeUDP6)
         else if HasPrefix (ToLower network) ''tcp'' then Inr (if ipv4 then NetworkTypeTCP4 else NetworkTypeTCP6)
         else Inl ErrDetermineNetworkType)"

datatype TCPType = TCPTypeUnspecified | TCPTypeActive | TCPTypePassive | TCPTypeSimultaneousOpen

definition NewTCPType :: "string \<Rightarrow> TCPType" where
  "NewTCPType v =
     (if ToLower v = ''active'' then TCPTypeActive
      else if ToLower v = ''passive'' then TCPTypePassive
      else if ToLower v = ''so'' then TCPTypeSimultaneousOpen
      else TCPTypeUnspecified)"

fun TCPType_String :: "TCPType \<Rightarrow> string" where
  "TCPType_String TCPTypeUnspecified = []"
| "TCPType_String TCPTypeActive = ''active''"
| "TCPType_String TCPTypePassive = ''passive''"
| "TCPType_String TCPTypeSimultaneousOpen = ''so''"

datatype Role = Controlling | Controlled

definition Role_UnmarshalText :: "string \<Rightarrow> ice_error + Role" where
  "Role_UnmarshalText t =
     (if t = ''controlling'' then Inr Controlling else if t = ''controlled'' then Inr Controlled else Inl ErrUnknownRole)"

fun Role_String :: "Role \<Rightarrow> string" where
  "Role_String Controlling = ''controlling''"
| "Role_String Controlled = ''controlled''"

datatype CandidatePairState =
    CandidatePairStateWaiting
  | CandidatePairStateInProgress
  | CandidatePairStateFailed
  | CandidatePairStateSucceeded

section \<open>Addresses\<close>

fun ice_parseAddr :: "net_addr \<Rightarrow> (ip \<times> int \<times> NetworkType) option" where
  "ice_parseAddr (UDPAddr x p z) = Some (x, p, NetworkTypeUDP4)"
| "ice_parseAddr (TCPAddr x p z) = Some (x, p, NetworkTypeTCP4)"
| "ice_parseAddr (OtherAddr s) = None"

definition createAddr :: "NetworkType \<Rightarrow> ip \<Rightarrow> int \<Rightarrow> net_addr" where
  "createAddr network x p = (if IsTCP network then TCPAddr x p [] else UDPAddr x p [])"

definition ice_addrEqual :: "net_addr \<Rightarrow> net_addr \<Rightarrow> bool" where
  "ice_addrEqual a b =
     (case ice_parseAddr a of
        None \<Rightarrow> False
      | Some (aIP, aPort, aType) \<Rightarrow>
          (case ice_parseAddr b of
             None \<Rightarrow> False
           | Some (bIP, bPort, bType) \<Rightarrow> aType = bType \<and> ip_Equal aIP bIP \<and> aPort = bPort))"

definition related_Equal :: "(string \<times> int) option \<Rightarrow> (string \<times> int) option \<Rightarrow> bool" where
  "related_Equal a b =
     (case (a, b) of
        (None, None) \<Rightarrow> True
      | (Some (x, p), Some (y, q)) \<Rightarrow> x = y \<and> p = q
      | _ \<Rightarrow> False)"

section \<open>Candidates\<close>

text \<open>
  \<open>candidateBase\<close>; \<open>c_agent\<close> is the \<open>tcpPriorityOffset\<close> of the agent that runs the candidate, \<open>c_open\<close> says that its connection has been
  started and not closed.
\<close>

record candidate =
  c_networkType :: NetworkType
  c_candidateType :: CandidateType
  c_component :: u16
  c_address :: string
  c_port :: int
  c_relatedAddress :: "(string \<times> int) option"
  c_tcpType :: TCPType
  c_resolvedAddr :: "net_addr option"
  c_lastSent :: "int option"
  c_lastReceived :: "int option"
  c_open :: bool
  c_agent :: "u16 option"
  c_foundationOverride :: string
  c_priorityOverride :: u32

definition directionPref :: "CandidateType \<Rightarrow> TCPType \<Rightarrow> u16" where
  "directionPref t tcp =
     (case t of
        CandidateTypeUnspecified \<Rightarrow> 0
      | _ \<Rightarrow>
        (if t = CandidateTypeHost \<or> t = CandidateTypeRelay
         then (case tcp of TCPTypeActive \<Rightarrow> 6 | TCPTypePassive \<Rightarrow> 4 | TCPTypeSimultaneousOpen \<Rightarrow> 2 | TCPTypeUnspecified \<Rightarrow> 0)
         else (case tcp of TCPTypeSimultaneousOpen \<Rightarrow> 6 | TCPTypeActive \<Rightarrow> 4 | TCPTypePassive \<Rightarrow> 2 | TCPTypeUnspecified \<Rightarrow> 0)))"

definition LocalPreference :: "candidate \<Rightarrow> u16" where
  "LocalPreference c =
     (if IsTCP (c_networkType c) then push_bit 13 1 * directionPref (c_candidateType c) (c_tcpType c) + 8191 else 65535)"

definition TypePreference :: "candidate \<Rightarrow> u16" where
  "TypePreference c =
     (let pref = Preference (c_candidateType c)
      in if pref = 0 then 0
         else if IsTCP (c_networkType c) then pref - (case c_agent c of Some off \<Rightarrow> off | None \<Rightarrow> 27)
         else pref)"

definition cand_Priority :: "candidate \<Rightarrow> u32" where
  "cand_Priority c =
     (if c_priorityOverride c \<noteq> 0 then c_priorityOverride c
      else push_bit 24 1 * ucast (TypePreference c) + push_bit 8 1 * ucast (LocalPreference c) + ucast (256 - c_component c))"

definition cand_Equal :: "candidate \<Rightarrow> candidate \<Rightarrow> bool" where
  "cand_Equal c d \<longleftrightarrow> c_networkType c = c_networkType d \<and> c_candidateType c = c_candidateType d \<and> c_address c = c_address d \<and>
     c_port c = c_port d \<and> c_tcpType c = c_tcpType d \<and> related_Equal (c_relatedAddress c) (c_relatedAddress d)"

text \<open>\<open>crc32.ChecksumIEEE\<close>.\<close>

fun crc_bits :: "nat \<Rightarrow> u32 \<Rightarrow> u32" where
  "crc_bits 0 w = w"
| "crc_bits (Suc n) w = crc_bits n (if bit w 0 then drop_bit 1 w XOR 0xEDB88320 else drop_bit 1 w)"

definition ChecksumIEEE :: "string \<Rightarrow> u32" where
  "ChecksumIEEE s = foldl (\<lambda>w c. crc_bits 8 (w XOR of_char c)) 0xFFFFFFFF s XOR 0xFFFFFFFF"

definition Foundation :: "candidate \<Rightarrow> string" where
  "Foundation c =
     (if c_foundationOverride c \<noteq> [] then c_foundationOverride c
      else itoa_nat (unat (ChecksumIEEE (CandidateType_String (c_candidateType c) @ c_address c @
             NetworkType_String (c_networkType c)))))"

section \<open>Constructors\<close>

text \<open>A candidate with its zero values, as the constructors start from.\<close>

definition base_candidate ::
    "CandidateType \<Rightarrow> NetworkType \<Rightarrow> string \<Rightarrow> int \<Rightarrow> u16 \<Rightarrow> u32 \<Rightarrow> string \<Rightarrow> (string \<times> int) option \<Rightarrow> TCPType \<Rightarrow> net_addr option \<Rightarrow> candidate" where
  "base_candidate t network address port component priority foundation rel tcp resolved =
     \<lparr>c_networkType = network, c_candidateType = t, c_component = component, c_address = address, c_port = port, c_relatedAddress = rel,
      c_tcpType = tcp, c_resolvedAddr = resolved, c_lastSent = None, c_lastReceived = None, c_open = False, c_agent = None,
      c_foundationOverride = foundation, c_priorityOverride = priority\<rparr>"

definition NewCandidateHost ::
    "(string \<Rightarrow> ip option) \<Rightarrow> string \<Rightarrow> string \<Rightarrow> int \<Rightarrow> u16 \<Rightarrow> u32 \<Rightarrow> string \<Rightarrow> TCPType \<Rightarrow> ice_error + candidate" where
  "NewCandidateHost parseIP network address port component priority foundation tcp =
     (let c = (\<lambda>net addr. base_candidate CandidateTypeHost net address port component priority foundation None tcp addr)
      in if \<not> HasSuffix address ''.local''
         then (case parseIP address of
                 None \<Rightarrow> Inl ErrAddressParseFailed
               | Some x \<Rightarrow>
                   (case determineNetworkType network x of
                      Inl err \<Rightarrow> Inl err
                    | Inr networkType \<Rightarrow> Inr (c networkType (Some (createAddr networkType x port)))))
         else Inr (c NetworkTypeUDP4 None))"

text \<open>
  The other constructors differ in the type of the candidate and in the address: a peer reflexive candidate has an address of its network type, the
  other two always a UDP address.
\<close>

definition new_reflexive ::
    "(NetworkType \<Rightarrow> ip \<Rightarrow> int \<Rightarrow> net_addr) \<Rightarrow> CandidateType \<Rightarrow> (string \<Rightarrow> ip option) \<Rightarrow> string \<Rightarrow> string \<Rightarrow> int \<Rightarrow> u16 \<Rightarrow> u32 \<Rightarrow> string \<Rightarrow> string \<Rightarrow> int \<Rightarrow>
     ice_error + candidate" where
  "new_reflexive mk t parseIP network address port component priority foundation relAddr relPort =
     (case parseIP address of
        None \<Rightarrow> Inl ErrAddressParseFailed
      | Some x \<Rightarrow>
          (case determineNetworkType network x of
             Inl err \<Rightarrow> Inl err
           | Inr networkType \<Rightarrow>
               Inr (base_candidate t networkType address port component priority foundation (Some (relAddr, relPort)) TCPTypeUnspecified
                      (Some (mk networkType x port)))))"

definition NewCandidateServerReflexive where
  "NewCandidateServerReflexive = new_reflexive (\<lambda>_ x p. UDPAddr x p []) CandidateTypeServerReflexive"

definition NewCandidatePeerReflexive where
  "NewCandidatePeerReflexive = new_reflexive createAddr CandidateTypePeerReflexive"

definition NewCandidateRelay where
  "NewCandidateRelay = new_reflexive (\<lambda>_ x p. UDPAddr x p []) CandidateTypeRelay"

section \<open>Textual form\<close>

fun before_percent :: "string \<Rightarrow> string" where
  "before_percent [] = []"
| "before_percent (c # s) = (if c = CHR ''%'' then [] else c # before_percent s)"

definition removeZoneIDFromAddress :: "string \<Rightarrow> string" where
  "removeZoneIDFromAddress addr = before_percent addr"

definition Marshal :: "candidate \<Rightarrow> string" where
  "Marshal c =
     (let val = (if Foundation c = '' '' then [] else Foundation c);
          val = val @ '' '' @ itoa_nat (unat (c_component c)) @ '' '' @ NetworkShort (c_networkType c) @ '' '' @
            itoa_nat (unat (cand_Priority c)) @ '' '' @ removeZoneIDFromAddress (c_address c) @ '' '' @ itoa (c_port c) @ '' typ '' @
            CandidateType_String (c_candidateType c);
          val = (if c_tcpType c \<noteq> TCPTypeUnspecified then val @ '' tcptype '' @ TCPType_String (c_tcpType c) else val)
      in (case c_relatedAddress c of
            Some (address, port) \<Rightarrow>
              if address \<noteq> [] \<and> port \<noteq> 0 then val @ '' raddr '' @ address @ '' rport '' @ itoa port else val
          | None \<Rightarrow> val))"

text \<open>\<open>strings.Fields\<close> on ASCII and \<open>strconv.ParseUint\<close> in base ten.\<close>

definition is_space :: "char \<Rightarrow> bool" where
  "is_space c \<longleftrightarrow> (let n = (of_char c :: nat) in n = 32 \<or> (9 \<le> n \<and> n \<le> 13))"

fun fields_from :: "string \<Rightarrow> string \<Rightarrow> string list" where
  "fields_from w [] = (if w = [] then [] else [w])"
| "fields_from w (c # s) =
     (if is_space c then (if w = [] then fields_from [] s else w # fields_from [] s) else fields_from (w @ [c]) s)"

definition Fields :: "string \<Rightarrow> string list" where
  "Fields s = fields_from [] s"

definition is_digit :: "char \<Rightarrow> bool" where
  "is_digit c \<longleftrightarrow> (let n = (of_char c :: nat) in 48 \<le> n \<and> n \<le> 57)"

definition ParseUint :: "string \<Rightarrow> nat \<Rightarrow> nat option" where
  "ParseUint s bits = (if s \<noteq> [] \<and> list_all is_digit s \<and> digits_value s < 2 ^ bits then Some (digits_value s) else None)"

definition parse_extension :: "string list \<Rightarrow> ice_error + string \<times> int \<times> TCPType" where
  "parse_extension ext =
     (case ext of
        [] \<Rightarrow> Inr ([], 0, TCPTypeUnspecified)
      | e # _ \<Rightarrow>
          if e = ''raddr''
          then (if length ext < 4 then Inl ErrParseRelatedAddr
                else (case ParseUint (ext ! 3) 16 of
                        None \<Rightarrow> Inl ErrParsePort
                      | Some p \<Rightarrow> Inr (ext ! 1, int p, TCPTypeUnspecified)))
          else if e = ''tcptype''
          then (if length ext < 2 then Inl ErrParseTCPType else Inr ([], 0, NewTCPType (ext ! 1)))
          else Inr ([], 0, TCPTypeUnspecified))"

definition UnmarshalCandidate :: "(string \<Rightarrow> ip option) \<Rightarrow> string \<Rightarrow> ice_error + candidate" where
  "UnmarshalCandidate parseIP raw =
     (let sp = Fields raw;
          sp = (if raw \<noteq> [] \<and> hd raw = CHR '' '' then '' '' # sp else sp)
      in if length sp < 8 then Inl ErrAttributeTooShort
         else (case ParseUint (sp ! 1) 16 of
                 None \<Rightarrow> Inl ErrParseComponent
               | Some component \<Rightarrow>
                   (case ParseUint (sp ! 3) 32 of
                      None \<Rightarrow> Inl ErrParsePriority
                    | Some priority \<Rightarrow>
                        (case ParseUint (sp ! 5) 16 of
                           None \<Rightarrow> Inl ErrParsePort
                         | Some port \<Rightarrow>
                             (case parse_extension (drop 8 sp) of
                                Inl err \<Rightarrow> Inl err
                              | Inr (relAddr, relPort, tcp) \<Rightarrow>
                                  let foundation = sp ! 0; protocol = sp ! 2; address = removeZoneIDFromAddress (sp ! 4); typ' = sp ! 7;
                                      new = (\<lambda>mk. mk parseIP protocol address (int port) (of_nat component) (of_nat priority) foundation relAddr relPort)
                                  in if typ' = ''host''
                                     then NewCandidateHost parseIP protocol address (int port) (of_nat component) (of_nat priority) foundation tcp
                                     else if typ' = ''srflx'' then new NewCandidateServerReflexive
                                     else if typ' = ''prflx'' then new NewCandidatePeerReflexive
                                     else if typ' = ''relay'' then new NewCandidateRelay
                                     else Inl ErrUnknownCandidateTyp)))))"

text \<open>\<open>copy\<close> of the base candidate.\<close>

definition cand_copy :: "(string \<Rightarrow> ip option) \<Rightarrow> candidate \<Rightarrow> ice_error + candidate" where
  "cand_copy parseIP c = UnmarshalCandidate parseIP (Marshal c)"

section \<open>Candidate pairs\<close>

record CandidatePair =
  iceRoleControlling :: bool
  pair_Remote :: nat
  pair_Local :: nat
  bindingRequestCount :: u16
  pair_state :: CandidatePairState
  nominated :: bool
  nominateOnBindingSuccess :: bool

definition newCandidatePair :: "nat \<Rightarrow> nat \<Rightarrow> bool \<Rightarrow> CandidatePair" where
  "newCandidatePair local remote controlling =
     \<lparr>iceRoleControlling = controlling, pair_Remote = remote, pair_Local = local, bindingRequestCount = 0,
      pair_state = CandidatePairStateWaiting, nominated = False, nominateOnBindingSuccess = False\<rparr>"

text \<open>The priority of a pair from the priorities of its local and its remote candidate.\<close>

definition pair_priority :: "bool \<Rightarrow> u32 \<Rightarrow> u32 \<Rightarrow> u64" where
  "pair_priority controlling localP remoteP =
     (let g = (if controlling then localP else remoteP);
          d = (if controlling then remoteP else localP);
          mi = (\<lambda>x y :: u32. if x < y then ucast x else ucast y :: u64);
          ma = (\<lambda>x y :: u32. if x > y then ucast x else ucast y :: u64);
          cm = (\<lambda>x y :: u32. if x > y then 1 else 0 :: u64)
      in (push_bit 32 1 - 1) * mi g d + 2 * ma g d + cm g d)"

section \<open>Priorities\<close>

lemma uint_pair_priority:
  "uint (pair_priority b l r) =
     (2 ^ 32 - 1) * min (uint l) (uint r) + 2 * max (uint l) (uint r) + (if (if b then r < l else l < r) then 1 else 0)"
proof -
  have bound: "0 \<le> uint w" "uint w < 2 ^ 32" for w :: u32 using uint_lt2p [of w] by simp_all
  define mi ma e where "mi = min (uint l) (uint r)" and "ma = max (uint l) (uint r)"
    and "e = (if (if b then r < l else l < r) then 1 else 0 :: int)"
  have mm: "0 \<le> mi" "mi \<le> ma" "ma < 2 ^ 32" "e \<le> 1" "0 \<le> e" using bound by (auto simp: mi_def ma_def e_def)
  have strict: "e = 1 \<Longrightarrow> mi < ma" by (auto simp: e_def mi_def ma_def word_less_def split: if_splits)
  have small: "(2 ^ 32 - 1) * mi + 2 * ma + e < 2 ^ 64"
  proof (cases "e = 1")
    case True
    with strict mm show ?thesis by simp
  next
    case False
    with mm show ?thesis by simp
  qed
  have "take_bit 64 (uint w) = uint w" for w :: u32
    using bound [of w] by (intro take_bit_int_eq_self) simp_all
  then have "uint (pair_priority b l r) = ((2 ^ 32 - 1) * mi + 2 * ma + e) mod 2 ^ 64"
    by (auto simp: pair_priority_def mi_def ma_def e_def uint_word_ariths unsigned_ucast_eq min_def max_def word_less_def
        mod_simps push_bit_eq_mult split: if_splits)
  also have "\<dots> = (2 ^ 32 - 1) * mi + 2 * ma + e" using small mm by simp
  finally show ?thesis by (simp add: mi_def ma_def e_def)
qed

text \<open>
  C34. Both agents compute the same priority for a pair, whichever of them controls: no step of the 64-bit computation wraps around, the
  value is symmetric under exchanging the roles, and a pair with better candidates on both sides has a higher priority.
\<close>

theorem pair_priority_agreed:
  assumes "l \<le> l'" and "r \<le> r'" and "(l, r) \<noteq> (l', r')"
  shows "uint (pair_priority b l r) = (2 ^ 32 - 1) * min (uint l) (uint r) + 2 * max (uint l) (uint r) +
      (if (if b then r < l else l < r) then 1 else 0) \<and>
    pair_priority b l r = pair_priority (\<not> b) r l \<and> pair_priority b l r < pair_priority b l' r'"
proof (intro conjI)
  show "uint (pair_priority b l r) = (2 ^ 32 - 1) * min (uint l) (uint r) + 2 * max (uint l) (uint r) +
      (if (if b then r < l else l < r) then 1 else 0)" by (rule uint_pair_priority)
  show "pair_priority b l r = pair_priority (\<not> b) r l"
    by (rule word_uint_eqI) (simp add: uint_pair_priority min.commute max.commute)
  have less: "uint l \<le> uint l'" "uint r \<le> uint r'" "uint l < uint l' \<or> uint r < uint r'"
    using assms by (auto simp: word_le_def order_less_le word_uint_eq_iff)
  define x y where "x = uint l" and "y = uint r"
  define x' y' where "x' = uint l'" and "y' = uint r'"
  have "(2 ^ 32 - 1) * min x y + 2 * max x y + 1 < (2 ^ 32 - 1) * min x' y' + 2 * max x' y'"
    using less unfolding x_def [symmetric] y_def [symmetric] x'_def [symmetric] y'_def [symmetric] by (auto simp: min_def max_def)
  then show "pair_priority b l r < pair_priority b l' r'"
    unfolding word_less_def uint_pair_priority x_def y_def x'_def y'_def by auto
qed

theorem pair_priority_agreed_witness:
  "(1::u32) \<le> 2 \<and> (5::u32) \<le> 5 \<and> pair_priority True 1 5 = pair_priority False 5 1 \<and>
   pair_priority True 1 5 < pair_priority True 2 5"
proof -
  have "(1::u32) \<le> 2" "(5::u32) \<le> 5" "((1::u32), (5::u32)) \<noteq> (2, 5)" by simp_all
  with pair_priority_agreed [OF this, of True] show ?thesis unfolding not_True_eq_False by blast
qed

text \<open>
  The factor is not the one of the comment above the code and of RFC 5245: two pairs that have the same priority by the documented formula are
  ordered by the code.
\<close>

definition rfc_pair_priority :: "bool \<Rightarrow> u32 \<Rightarrow> u32 \<Rightarrow> int" where
  "rfc_pair_priority controlling l r =
     2 ^ 32 * min (uint l) (uint r) + 2 * max (uint l) (uint r) + (if (if controlling then r < l else l < r) then 1 else 0)"

lemma pair_order_differs_from_rfc:
  "rfc_pair_priority True 10 3 = rfc_pair_priority True 2147483658 2 \<and>
   pair_priority True 10 3 < pair_priority True 2147483658 2"
  by (simp add: rfc_pair_priority_def word_less_def uint_pair_priority)

text \<open>The priority of a candidate is never 0, the value that stands for no override.\<close>

lemma cand_Priority_nonzero: "cand_Priority c \<noteq> 0"
proof (cases "c_priorityOverride c = 0")
  case True
  define t l k where "t = uint (TypePreference c)" and "l = uint (LocalPreference c)" and "k = uint (256 - c_component c)"
  have k: "0 \<le> k" "k < 65536" using uint_lt2p [of "256 - c_component c"] by (simp_all add: k_def)
  have ext: "uint (ucast w :: u32) = uint w" for w :: u16
    using uint_lt2p [of w] by (simp add: unsigned_ucast_eq take_bit_int_eq_self)
  have val: "uint (cand_Priority c) = (2 ^ 24 * t + 2 ^ 8 * l + k) mod 2 ^ 32"
    using True by (simp add: cand_Priority_def t_def l_def k_def uint_word_ariths ext mod_simps push_bit_eq_mult)
  show ?thesis
  proof (cases "IsTCP (c_networkType c)")
    case tcp: True
    define d where "d = directionPref (c_candidateType c) (c_tcpType c)"
    have "d \<in> {0, 2, 4, 6}"
      unfolding d_def by (cases "c_candidateType c"; cases "c_tcpType c") (simp_all add: directionPref_def)
    with tcp have l: "l \<in> {8191, 24575, 40959, 57343}"
      unfolding l_def LocalPreference_def d_def [symmetric] by (auto simp: push_bit_eq_mult)
    have "(2 ^ 24 * t + 2 ^ 8 * l + k) mod 2 ^ 24 = (2 ^ 8 * l + k) mod 2 ^ 24"
      by (simp only: mod_mult_self4 add.assoc)
    also have "\<dots> = 2 ^ 8 * l + k" using l k by (intro mod_pos_pos_trivial) auto
    finally have "(2 ^ 24 * t + 2 ^ 8 * l + k) mod 2 ^ 24 = 2 ^ 8 * l + k" .
    moreover have "2 ^ 8 * l + k \<noteq> 0" using l k by auto
    ultimately have "(2 ^ 24 * t + 2 ^ 8 * l + k) mod 2 ^ 32 \<noteq> 0"
      using mod_mod_cancel [of "2 ^ 24" "2 ^ 32" "2 ^ 24 * t + 2 ^ 8 * l + k"] by auto
    with val show ?thesis by auto
  next
    case False
    have l: "l = 65535" using False by (simp add: l_def LocalPreference_def)
    have t: "t \<in> {0, 100, 110, 126}"
      using False unfolding t_def TypePreference_def by (cases "c_candidateType c") simp_all
    have "uint (cand_Priority c) = 2 ^ 24 * t + 2 ^ 8 * l + k" using t k l by (auto simp: val)
    then have "uint (cand_Priority c) \<noteq> 0" using t k l by auto
    then show ?thesis by auto
  qed
qed (simp add: cand_Priority_def)

section \<open>The textual form is read back\<close>

text \<open>A word of the textual form: not empty and without white space.\<close>

definition is_word :: "string \<Rightarrow> bool" where
  "is_word w \<longleftrightarrow> w \<noteq> [] \<and> list_all (\<lambda>c. \<not> is_space c) w"

fun join_words :: "string list \<Rightarrow> string" where
  "join_words [] = []"
| "join_words [w] = w"
| "join_words (w # ws) = w @ '' '' @ join_words ws"

lemma is_word_Nil [simp]: "\<not> is_word []"
  by (simp add: is_word_def)

lemma fields_from_word: "list_all (\<lambda>c. \<not> is_space c) w \<Longrightarrow> fields_from v (w @ s) = fields_from (v @ w) s"
  by (induction w arbitrary: v) auto

lemma space_is_space [simp]: "is_space CHR '' ''"
  by (simp add: is_space_def)

lemma Fields_join: "list_all is_word ws \<Longrightarrow> Fields (join_words ws) = ws"
proof (induction ws rule: join_words.induct)
  case (2 w)
  then show ?case using fields_from_word [of w "[]" "[]"] by (simp add: Fields_def is_word_def)
next
  case (3 w v vs)
  then show ?case using fields_from_word [of w "[]" "'' '' @ join_words (v # vs)"] by (simp add: Fields_def is_word_def)
qed (simp add: Fields_def)

lemma Fields_blank: "Fields (CHR '' '' # s) = Fields s"
  by (simp add: Fields_def)

lemma digit_char_range: "d < 10 \<Longrightarrow> is_digit (digit_char d) \<and> \<not> is_space (digit_char d)"
  by (simp add: is_digit_def is_space_def digit_char_def)

lemma itoa_nat_nonempty: "itoa_nat n \<noteq> []"
  by (simp add: itoa_nat.simps [of n])

lemma itoa_nat_word: "is_word (itoa_nat n)" and itoa_nat_all_digits: "list_all is_digit (itoa_nat n)"
  using itoa_nat_digits [of _ n] digit_char_range
  by (fastforce simp: is_word_def itoa_nat_nonempty list_all_iff)+

lemma ParseUint_itoa: "n < 2 ^ bits \<Longrightarrow> ParseUint (itoa_nat n) bits = Some n"
  by (simp add: ParseUint_def itoa_nat_nonempty itoa_nat_all_digits)

lemma before_percent_id: "CHR ''%'' \<notin> set s \<Longrightarrow> before_percent s = s"
  by (induction s) auto

text \<open>
  What the constructors produce, from words: the address is a host name for multicast DNS or one that parses to an address of the candidate's
  family, and only candidates other than host candidates have a related address.
\<close>

definition marshal_ok :: "(string \<Rightarrow> ip option) \<Rightarrow> candidate \<Rightarrow> bool" where
  "marshal_ok parseIP c \<longleftrightarrow>
     is_word (c_address c) \<and> CHR ''%'' \<notin> set (c_address c) \<and> 0 \<le> c_port c \<and> c_port c < 65536 \<and>
     c_candidateType c \<noteq> CandidateTypeUnspecified \<and>
     (c_foundationOverride c = [] \<or> c_foundationOverride c = '' '' \<or> is_word (c_foundationOverride c)) \<and>
     (if c_candidateType c = CandidateTypeHost \<and> HasSuffix (c_address c) ''.local'' then c_networkType c = NetworkTypeUDP4
      else \<exists>x. parseIP (c_address c) = Some x \<and> c_networkType c \<noteq> NetworkTypeNone \<and> IsIPv4 (c_networkType c) = (ip_To4 x \<noteq> None)) \<and>
     (if c_candidateType c = CandidateTypeHost then c_relatedAddress c = None
      else c_tcpType c = TCPTypeUnspecified \<and>
        (case c_relatedAddress c of
           None \<Rightarrow> False
         | Some (a, p) \<Rightarrow> (a = [] \<and> p = 0) \<or> (is_word a \<and> 0 < p \<and> p < 65536)))"

definition extension_words :: "candidate \<Rightarrow> string list" where
  "extension_words c =
     (if c_tcpType c \<noteq> TCPTypeUnspecified then [''tcptype'', TCPType_String (c_tcpType c)] else []) @
     (case c_relatedAddress c of
        Some (a, p) \<Rightarrow> if a \<noteq> [] \<and> p \<noteq> 0 then [''raddr'', a, ''rport'', itoa p] else []
      | None \<Rightarrow> [])"

definition plain_words :: "candidate \<Rightarrow> string list" where
  "plain_words c =
     [itoa_nat (unat (c_component c)), NetworkShort (c_networkType c), itoa_nat (unat (cand_Priority c)), c_address c,
      itoa (c_port c), ''typ'', CandidateType_String (c_candidateType c)] @ extension_words c"

lemma join_append: "ws \<noteq> [] \<Longrightarrow> vs \<noteq> [] \<Longrightarrow> join_words (ws @ vs) = join_words ws @ '' '' @ join_words vs"
proof (induction ws rule: join_words.induct)
  case (2 w)
  then show ?case by (cases vs) simp_all
qed simp_all

lemma Marshal_words:
  assumes "CHR ''%'' \<notin> set (c_address c)"
  shows "Marshal c = (if Foundation c = '' '' then [] else Foundation c) @ '' '' @ join_words (plain_words c)"
  using assms join_append [of "take 7 (plain_words c)" "drop 7 (plain_words c)"]
  by (auto simp: Marshal_def removeZoneIDFromAddress_def before_percent_id plain_words_def extension_words_def Let_def
      split: option.splits)

lemma type_is_word: "t \<noteq> CandidateTypeUnspecified \<Longrightarrow> is_word (CandidateType_String t)"
  by (cases t) (simp_all add: is_word_def is_space_def)

lemma tcp_is_word: "t \<noteq> TCPTypeUnspecified \<Longrightarrow> is_word (TCPType_String t)"
  by (cases t) (simp_all add: is_word_def is_space_def)

lemma names_are_words: "is_word (NetworkShort n)" "is_word ''typ''" "is_word ''raddr''" "is_word ''rport''" "is_word ''tcptype''"
  by (simp_all add: is_word_def is_space_def NetworkShort_def)

lemma itoa_word: "0 \<le> p \<Longrightarrow> is_word (itoa p)"
  by (simp add: itoa_def itoa_nat_word)

lemma plain_words_ok:
  assumes "marshal_ok parseIP c"
  shows "list_all is_word (plain_words c)"
proof -
  have "list_all is_word (extension_words c)"
    using assms
    by (auto simp: marshal_ok_def extension_words_def names_are_words tcp_is_word itoa_word split: option.splits if_splits)
  moreover have "is_word (c_address c)" "is_word (itoa (c_port c))" "is_word (CandidateType_String (c_candidateType c))"
    using assms by (simp_all add: marshal_ok_def itoa_word type_is_word)
  ultimately show ?thesis by (simp add: plain_words_def itoa_nat_word names_are_words)
qed

lemma foundation_word:
  assumes "marshal_ok parseIP c"
  shows "Foundation c = '' '' \<or> is_word (Foundation c)"
  using assms by (auto simp: marshal_ok_def Foundation_def itoa_nat_word)

lemma unmarshal_words:
  assumes "marshal_ok parseIP c"
  shows "(if Marshal c \<noteq> [] \<and> hd (Marshal c) = CHR '' '' then '' '' # Fields (Marshal c) else Fields (Marshal c)) =
    Foundation c # plain_words c"
proof -
  have m: "Marshal c = (if Foundation c = '' '' then [] else Foundation c) @ '' '' @ join_words (plain_words c)"
    using assms by (intro Marshal_words) (simp add: marshal_ok_def)
  note words = plain_words_ok [OF assms]
  show ?thesis
  proof (cases "Foundation c = '' ''")
    case True
    with m words show ?thesis by (simp add: Fields_blank Fields_join)
  next
    case False
    with foundation_word [OF assms] have w: "is_word (Foundation c)" by simp
    have "plain_words c \<noteq> []" by (simp add: plain_words_def)
    with m False have "Marshal c = join_words (Foundation c # plain_words c)" by (cases "plain_words c") simp_all
    moreover have "hd (Marshal c) \<noteq> CHR '' ''"
      using m False w by (cases "Foundation c") (auto simp: is_word_def)
    ultimately show ?thesis using Fields_join [of "Foundation c # plain_words c"] w words by simp
  qed
qed

lemma NewTCPType_String: "NewTCPType (TCPType_String t) = t"
  by (cases t) (simp_all add: NewTCPType_def ToLower_def lower_char_def)

lemma determine_short:
  assumes "n \<noteq> NetworkTypeNone" and "IsIPv4 n = (ip_To4 x \<noteq> None)"
  shows "determineNetworkType (NetworkShort n) x = Inr n"
  using assms by (cases n) (auto simp: determineNetworkType_def NetworkShort_def IsUDP_def IsTCP_def HasPrefix_def ToLower_def lower_char_def)

lemma itoa_port: "0 \<le> p \<Longrightarrow> p < 65536 \<Longrightarrow> ParseUint (itoa p) 16 = Some (nat p)"
  using ParseUint_itoa [of "nat p" 16] by (simp add: itoa_def)

lemma extension_read:
  assumes "marshal_ok parseIP c"
  shows "parse_extension (extension_words c) =
    Inr (case c_relatedAddress c of None \<Rightarrow> ([], 0, c_tcpType c) | Some (a, p) \<Rightarrow> (a, p, c_tcpType c))"
  using assms
  by (auto simp: marshal_ok_def extension_words_def parse_extension_def NewTCPType_String itoa_port split: option.splits if_splits)

text \<open>The candidate that the constructors build from the words.\<close>

definition rebuilt :: "candidate \<Rightarrow> net_addr option \<Rightarrow> candidate" where
  "rebuilt c resolved =
     base_candidate (c_candidateType c) (c_networkType c) (c_address c) (c_port c) (c_component c) (cand_Priority c) (Foundation c)
       (c_relatedAddress c) (c_tcpType c) resolved"

lemma Foundation_nonempty: "Foundation c \<noteq> []"
  by (simp add: Foundation_def itoa_nat_nonempty)

lemma rebuilt_same:
  assumes "marshal_ok parseIP c"
  shows "cand_Equal c (rebuilt c res)" "cand_Priority (rebuilt c res) = cand_Priority c" "Foundation (rebuilt c res) = Foundation c"
    "c_component (rebuilt c res) = c_component c" "Marshal (rebuilt c res) = Marshal c"
proof -
  show "cand_Equal c (rebuilt c res)"
    by (simp add: cand_Equal_def rebuilt_def base_candidate_def related_Equal_def split: option.split)
  show prio: "cand_Priority (rebuilt c res) = cand_Priority c"
    using cand_Priority_nonzero [of c] by (simp add: cand_Priority_def [of "rebuilt c res"]) (simp add: rebuilt_def base_candidate_def)
  show found: "Foundation (rebuilt c res) = Foundation c"
    using Foundation_nonempty [of c] by (simp add: Foundation_def [of "rebuilt c res"]) (simp add: rebuilt_def base_candidate_def)
  show "c_component (rebuilt c res) = c_component c" by (simp add: rebuilt_def base_candidate_def)
  have no: "CHR ''%'' \<notin> set (c_address c)" using assms by (simp add: marshal_ok_def)
  have fields: "c_address (rebuilt c res) = c_address c" "c_component (rebuilt c res) = c_component c"
    "c_networkType (rebuilt c res) = c_networkType c" "c_port (rebuilt c res) = c_port c"
    "c_candidateType (rebuilt c res) = c_candidateType c" "c_tcpType (rebuilt c res) = c_tcpType c"
    "c_relatedAddress (rebuilt c res) = c_relatedAddress c" by (simp_all add: rebuilt_def base_candidate_def)
  have words: "plain_words (rebuilt c res) = plain_words c"
    by (simp add: plain_words_def extension_words_def prio fields)
  have no': "CHR ''%'' \<notin> set (c_address (rebuilt c res))" using no fields(1) by simp
  show "Marshal (rebuilt c res) = Marshal c"
    unfolding Marshal_words [OF no] Marshal_words [OF no'] words found ..
qed

lemma unmarshal_rebuilds:
  assumes ok: "marshal_ok parseIP c"
  shows "\<exists>res. UnmarshalCandidate parseIP (Marshal c) = Inr (rebuilt c res)"
proof -
  have ext: "drop 7 (plain_words c) = extension_words c" by (simp add: plain_words_def)
  have port: "0 \<le> c_port c" "c_port c < 65536" and type: "c_candidateType c \<noteq> CandidateTypeUnspecified"
    and addr: "before_percent (c_address c) = c_address c"
    using ok by (auto simp: marshal_ok_def before_percent_id)
  have comp: "ParseUint (itoa_nat (unat (c_component c))) 16 = Some (unat (c_component c))"
    and prio: "ParseUint (itoa_nat (unat (cand_Priority c))) 32 = Some (unat (cand_Priority c))"
    by (rule ParseUint_itoa, rule order_less_le_trans [OF unsigned_less], simp)+
  note split = unmarshal_words [OF ok] extension_read [OF ok] itoa_port [OF port] comp prio
  have words: "Foundation c # plain_words c =
      [Foundation c, itoa_nat (unat (c_component c)), NetworkShort (c_networkType c), itoa_nat (unat (cand_Priority c)), c_address c,
       itoa (c_port c), ''typ'', CandidateType_String (c_candidateType c)] @ extension_words c" by (simp add: plain_words_def)
  show ?thesis
  proof (cases "c_candidateType c")
    case CandidateTypeHost
    with ok split addr port determine_short [of "c_networkType c"] show ?thesis
      unfolding UnmarshalCandidate_def Let_def split(1) words
      by (auto simp: removeZoneIDFromAddress_def NewCandidateHost_def rebuilt_def marshal_ok_def Let_def split: if_splits)
  next
    case CandidateTypeServerReflexive
    with ok split addr port determine_short [of "c_networkType c"] show ?thesis
      unfolding UnmarshalCandidate_def Let_def split(1) words
      by (auto simp: removeZoneIDFromAddress_def NewCandidateServerReflexive_def new_reflexive_def rebuilt_def marshal_ok_def
          split: option.splits)
  next
    case CandidateTypePeerReflexive
    with ok split addr port determine_short [of "c_networkType c"] show ?thesis
      unfolding UnmarshalCandidate_def Let_def split(1) words
      by (auto simp: removeZoneIDFromAddress_def NewCandidatePeerReflexive_def new_reflexive_def rebuilt_def marshal_ok_def
          split: option.splits)
  next
    case CandidateTypeRelay
    with ok split addr port determine_short [of "c_networkType c"] show ?thesis
      unfolding UnmarshalCandidate_def Let_def split(1) words
      by (auto simp: removeZoneIDFromAddress_def NewCandidateRelay_def new_reflexive_def rebuilt_def marshal_ok_def
          split: option.splits)
  qed (use type in simp)
qed

text \<open>
  C20. A candidate whose data fit into the text survives it: what \<open>Marshal\<close> prints, \<open>UnmarshalCandidate\<close> reads back as an equal candidate with the same
  priority, foundation and component, whose own textual form is the same; this is how \<open>copy\<close> duplicates a candidate. The conditions of
  \<open>marshal_ok\<close> are: the address is one word without a zone that \<open>net.ParseIP\<close> accepts in the family of the network type, or the mDNS name of a host candidate
  over UDP; the port has 16 bits; the foundation is generated, blank or one word; a host candidate has no related address, and any other has no TCP type and a
  related address that is empty or has a port other than 0.
\<close>

theorem candidate_text_roundtrip:
  assumes "marshal_ok parseIP c"
  shows "\<exists>c'. cand_copy parseIP c = Inr c' \<and> UnmarshalCandidate parseIP (Marshal c) = Inr c' \<and> cand_Equal c c' \<and>
    cand_Priority c' = cand_Priority c \<and> Foundation c' = Foundation c \<and> c_component c' = c_component c \<and> Marshal c' = Marshal c"
  using unmarshal_rebuilds [OF assms] rebuilt_same [OF assms] unfolding cand_copy_def by auto

definition demo_parseIP :: "string \<Rightarrow> ip option" where
  "demo_parseIP s = (if s = ''10.0.0.1'' then Some [10, 0, 0, 1] else if s = ''10.0.0.2'' then Some [10, 0, 0, 2] else None)"

definition demo_srflx :: candidate where
  "demo_srflx = base_candidate CandidateTypeServerReflexive NetworkTypeUDP4 ''10.0.0.1'' 5000 1 0 [] (Some (''192.168.0.7'', 6000))
     TCPTypeUnspecified (Some (UDPAddr [10, 0, 0, 1] 5000 []))"

text \<open>A related address with port 0 is not printed, so the copy of such a candidate is not equal to it.\<close>

lemma related_port_zero_lost:
  assumes "marshal_ok parseIP (c\<lparr>c_relatedAddress := Some ([], 0)\<rparr>)" and "address \<noteq> []"
  shows "\<exists>c'. cand_copy parseIP (c\<lparr>c_relatedAddress := Some (address, 0)\<rparr>) = Inr c' \<and> \<not> cand_Equal (c\<lparr>c_relatedAddress := Some (address, 0)\<rparr>) c'"
proof -
  let ?c = "c\<lparr>c_relatedAddress := Some (address, 0)\<rparr>" and ?d = "c\<lparr>c_relatedAddress := Some ([], 0)\<rparr>"
  have pref: "cand_Priority ?c = cand_Priority ?d" "Foundation ?c = Foundation ?d"
    by (simp_all add: cand_Priority_def TypePreference_def LocalPreference_def Foundation_def cong: if_cong)
  then have "Marshal ?c = Marshal ?d" by (simp add: Marshal_def Let_def)
  with unmarshal_rebuilds [OF assms(1)] obtain res where "cand_copy parseIP ?c = Inr (rebuilt ?d res)" unfolding cand_copy_def by metis
  moreover have "\<not> cand_Equal ?c (rebuilt ?d res)" using assms(2) by (simp add: cand_Equal_def rebuilt_def base_candidate_def related_Equal_def)
  ultimately show ?thesis by blast
qed

theorem candidate_text_roundtrip_witness:
  "\<exists>c'. UnmarshalCandidate demo_parseIP (Marshal demo_srflx) = Inr c' \<and> cand_Equal demo_srflx c'"
proof -
  have "marshal_ok demo_parseIP demo_srflx"
    by (simp add: marshal_ok_def demo_srflx_def base_candidate_def demo_parseIP_def is_word_def is_space_def ip_To4_def)
  from candidate_text_roundtrip [OF this] show ?thesis by blast
qed

end
