(* ===== verification/WebrtcCodecs.thy ===== *)
theory WebrtcCodecs
  imports WebrtcSignaling IceCandidate
begin

text \<open>
  The media engine of \<open>lib/pion-webrtc\<close> (\<open>mediaengine.go\<close>, \<open>rtpcodec.go\<close>, \<open>internal/fmtp\<close> and the two functions of \<open>sdp.go\<close> that read a media section): the codecs and
  header extensions an application registers, and what is negotiated of them with the remote side. Text is ASCII, for which case folding is that of letters. A map
  is an association list whose order stands for the order of an iteration. What the SDP package reads out of a media section is part of the section.
\<close>

section \<open>Text\<close>

definition EqualFold :: "string \<Rightarrow> string \<Rightarrow> bool" where
  "EqualFold a b \<longleftrightarrow> map fold_char a = map fold_char b"

definition ToLower :: "string \<Rightarrow> string" where
  "ToLower s = map fold_char s"

fun split_at :: "char \<Rightarrow> string \<Rightarrow> string list" where
  "split_at c [] = [[]]"
| "split_at c (x # xs) =
     (if x = c then [] # split_at c xs else (case split_at c xs of [] \<Rightarrow> [[x]] | y # ys \<Rightarrow> (x # y) # ys))"

definition is_blank :: "char \<Rightarrow> bool" where
  "is_blank c \<longleftrightarrow> (of_char c :: nat) = 32 \<or> 9 \<le> (of_char c :: nat) \<and> (of_char c :: nat) \<le> 13"

definition TrimSpace :: "string \<Rightarrow> string" where
  "TrimSpace s = rev (dropWhile is_blank (rev (dropWhile is_blank s)))"

fun replace_first :: "string \<Rightarrow> string \<Rightarrow> string \<Rightarrow> string" where
  "replace_first old new s =
     (if take (length old) s = old then new @ drop (length old) s
      else case s of [] \<Rightarrow> [] | c # cs \<Rightarrow> c # replace_first old new cs)"

declare replace_first.simps [simp del]

definition hex_value :: "char \<Rightarrow> nat option" where
  "hex_value c =
     (let n = of_char c :: nat
      in if 48 \<le> n \<and> n \<le> 57 then Some (n - 48) else if 97 \<le> n \<and> n \<le> 102 then Some (n - 87)
         else if 65 \<le> n \<and> n \<le> 70 then Some (n - 55) else None)"

fun hex_DecodeString :: "string \<Rightarrow> nat list option" where
  "hex_DecodeString [] = Some []"
| "hex_DecodeString [_] = None"
| "hex_DecodeString (a # b # s) =
     (case (hex_value a, hex_value b, hex_DecodeString s) of
        (Some x, Some y, Some rest) \<Rightarrow> Some ((16 * x + y) # rest)
      | _ \<Rightarrow> None)"

section \<open>Format parameters\<close>

type_synonym fmtp_params = "(string, string) gomap"

definition parse_parameter :: "fmtp_params \<Rightarrow> string \<Rightarrow> fmtp_params" where
  "parse_parameter parameters p =
     (let t = TrimSpace p; key = ToLower (takeWhile (\<lambda>c. c \<noteq> CHR ''='') t); rest = dropWhile (\<lambda>c. c \<noteq> CHR ''='') t
      in AList.update key (drop 1 rest) parameters)"

definition parseParameters :: "string \<Rightarrow> fmtp_params" where
  "parseParameters line = foldl parse_parameter [] (split_at CHR '';'' line)"

datatype FMTP = GenericFMTP string fmtp_params | H264FMTP fmtp_params | VP9FMTP fmtp_params | AV1FMTP fmtp_params

definition fmtp_Parse :: "string \<Rightarrow> string \<Rightarrow> FMTP" where
  "fmtp_Parse mimeType line =
     (let parameters = parseParameters line
      in if EqualFold mimeType ''video/h264'' then H264FMTP parameters
         else if EqualFold mimeType ''video/vp9'' then VP9FMTP parameters
         else if EqualFold mimeType ''video/av1'' then AV1FMTP parameters
         else GenericFMTP mimeType parameters)"

fun fmtp_Parameter :: "FMTP \<Rightarrow> string \<Rightarrow> string option" where
  "fmtp_Parameter (GenericFMTP _ p) key = map_of p key"
| "fmtp_Parameter (H264FMTP p) key = map_of p key"
| "fmtp_Parameter (VP9FMTP p) key = map_of p key"
| "fmtp_Parameter (AV1FMTP p) key = map_of p key"

definition profileLevelIDMatches :: "string \<Rightarrow> string \<Rightarrow> bool" where
  "profileLevelIDMatches a b =
     (case hex_DecodeString a of
        None \<Rightarrow> False
      | Some aa \<Rightarrow>
          if length aa < 2 then False
          else (case hex_DecodeString b of
                  None \<Rightarrow> False
                | Some bb \<Rightarrow> if length bb < 2 then False else aa ! 0 = bb ! 0 \<and> aa ! 1 = bb ! 1))"

definition generic_agree :: "fmtp_params \<Rightarrow> fmtp_params \<Rightarrow> bool" where
  "generic_agree p q \<longleftrightarrow> list_all (\<lambda>(k, v). case map_of q k of Some vb \<Rightarrow> EqualFold vb v | None \<Rightarrow> True) p"

definition h264_agree :: "fmtp_params \<Rightarrow> fmtp_params \<Rightarrow> bool" where
  "h264_agree h c =
     (case map_of h ''packetization-mode'' of
        None \<Rightarrow> False
      | Some hpmode \<Rightarrow>
          (case map_of c ''packetization-mode'' of
             None \<Rightarrow> False
           | Some cpmode \<Rightarrow>
               if hpmode \<noteq> cpmode then False
               else (case map_of h ''profile-level-id'' of
                       None \<Rightarrow> False
                     | Some hplid \<Rightarrow>
                         (case map_of c ''profile-level-id'' of None \<Rightarrow> False | Some cplid \<Rightarrow> profileLevelIDMatches hplid cplid))))"

definition profile_of :: "string \<Rightarrow> fmtp_params \<Rightarrow> string" where
  "profile_of key p = (case map_of p key of None \<Rightarrow> ''0'' | Some v \<Rightarrow> v)"

fun fmtp_Match :: "FMTP \<Rightarrow> FMTP \<Rightarrow> bool" where
  "fmtp_Match (GenericFMTP m p) (GenericFMTP n q) = (if \<not> EqualFold m n then False else generic_agree p q \<and> generic_agree q p)"
| "fmtp_Match (H264FMTP p) (H264FMTP q) = h264_agree p q"
| "fmtp_Match (VP9FMTP p) (VP9FMTP q) = (profile_of ''profile-id'' p = profile_of ''profile-id'' q)"
| "fmtp_Match (AV1FMTP p) (AV1FMTP q) = (profile_of ''profile'' p = profile_of ''profile'' q)"
| "fmtp_Match _ _ = False"

section \<open>Codecs\<close>

record RTPCodecParameters =
  MimeType :: string
  ClockRate :: nat
  Channels :: nat
  SDPFmtpLine :: string
  RTCPFeedback :: "(string \<times> string) list"
  PayloadType :: nat
  statsID :: string

definition no_codec :: RTPCodecParameters where
  "no_codec = \<lparr>MimeType = '''', ClockRate = 0, Channels = 0, SDPFmtpLine = '''', RTCPFeedback = [], PayloadType = 0, statsID = ''''\<rparr>"

datatype codecMatchType = codecMatchNone | codecMatchPartial | codecMatchExact

definition codec_fmtp :: "RTPCodecParameters \<Rightarrow> FMTP" where
  "codec_fmtp c = fmtp_Parse (MimeType c) (SDPFmtpLine c)"

definition codecParametersFuzzySearch :: "RTPCodecParameters \<Rightarrow> RTPCodecParameters list \<Rightarrow> RTPCodecParameters \<times> codecMatchType" where
  "codecParametersFuzzySearch needle haystack =
     (case find (\<lambda>c. fmtp_Match (codec_fmtp needle) (codec_fmtp c)) haystack of
        Some c \<Rightarrow> (c, codecMatchExact)
      | None \<Rightarrow>
          (case find (\<lambda>c. EqualFold (MimeType c) (MimeType needle)) haystack of
             Some c \<Rightarrow> (c, codecMatchPartial)
           | None \<Rightarrow> (no_codec, codecMatchNone)))"

section \<open>Media engine\<close>

record mediaEngineHeaderExtension =
  uri :: string
  isAudio :: bool
  isVideo :: bool
  allowedDirections :: "RTPTransceiverDirection list"

record MediaEngine =
  negotiatedVideo :: bool
  negotiatedAudio :: bool
  videoCodecs :: "RTPCodecParameters list"
  audioCodecs :: "RTPCodecParameters list"
  negotiatedVideoCodecs :: "RTPCodecParameters list"
  negotiatedAudioCodecs :: "RTPCodecParameters list"
  headerExtensions :: "mediaEngineHeaderExtension list"
  negotiatedHeaderExtensions :: "(int, mediaEngineHeaderExtension) gomap option"

datatype me_error = ErrUnknownType | ErrInvalidDirection | ErrCodecNotFound | ErrParse | ErrNoPayloaderForCodec

definition new_MediaEngine :: MediaEngine where
  "new_MediaEngine = \<lparr>negotiatedVideo = False, negotiatedAudio = False, videoCodecs = [], audioCodecs = [], negotiatedVideoCodecs = [],
     negotiatedAudioCodecs = [], headerExtensions = [], negotiatedHeaderExtensions = None\<rparr>"

definition addCodec :: "RTPCodecParameters list \<Rightarrow> RTPCodecParameters \<Rightarrow> RTPCodecParameters list" where
  "addCodec codecs codec =
     (if list_ex (\<lambda>c. MimeType c = MimeType codec \<and> PayloadType c = PayloadType codec) codecs then codecs else codecs @ [codec])"

text \<open>The clock at the call becomes the identifier for statistics.\<close>

definition RegisterCodec :: "int \<Rightarrow> RTPCodecParameters \<Rightarrow> RTPCodecType \<Rightarrow> MediaEngine \<Rightarrow> me_error option \<times> MediaEngine" where
  "RegisterCodec now codec typ m =
     (let codec = codec\<lparr>statsID := ''RTPCodec-'' @ itoa now\<rparr>
      in case typ of
           Audio \<Rightarrow> (None, m\<lparr>audioCodecs := addCodec (audioCodecs m) codec\<rparr>)
         | Video \<Rightarrow> (None, m\<lparr>videoCodecs := addCodec (videoCodecs m) codec\<rparr>)
         | CodecUnknown \<Rightarrow> (Some ErrUnknownType, m))"

definition codec_of :: "string \<Rightarrow> nat \<Rightarrow> nat \<Rightarrow> string \<Rightarrow> (string \<times> string) list \<Rightarrow> nat \<Rightarrow> RTPCodecParameters" where
  "codec_of mime rate ch fmtp fb pt =
     \<lparr>MimeType = mime, ClockRate = rate, Channels = ch, SDPFmtpLine = fmtp, RTCPFeedback = fb, PayloadType = pt, statsID = ''''\<rparr>"

definition default_audio :: "RTPCodecParameters list" where
  "default_audio =
     [codec_of ''audio/opus'' 48000 2 ''minptime=10;useinbandfec=1'' [] 111, codec_of ''audio/G722'' 8000 0 '''' [] 9,
      codec_of ''audio/PCMU'' 8000 0 '''' [] 0, codec_of ''audio/PCMA'' 8000 0 '''' [] 8]"

definition h264_line :: "string \<Rightarrow> string \<Rightarrow> string" where
  "h264_line mode profile = ''level-asymmetry-allowed=1;packetization-mode='' @ mode @ '';profile-level-id='' @ profile"

definition default_video :: "RTPCodecParameters list" where
  "default_video =
     (let fb = [(''goog-remb'', ''''), (''ccm'', ''fir''), (''nack'', ''''), (''nack'', ''pli'')];
          rtx = (\<lambda>apt pt. codec_of ''video/rtx'' 90000 0 (''apt='' @ apt) [] pt);
          h264 = (\<lambda>mode profile pt. codec_of ''video/H264'' 90000 0 (h264_line mode profile) fb pt)
      in [codec_of ''video/VP8'' 90000 0 '''' fb 96, rtx ''96'' 97,
          h264 ''1'' ''42001f'' 102, rtx ''102'' 103, h264 ''0'' ''42001f'' 104, rtx ''104'' 105,
          h264 ''1'' ''42e01f'' 106, rtx ''106'' 107, h264 ''0'' ''42e01f'' 108, rtx ''108'' 109,
          h264 ''1'' ''4d001f'' 127, rtx ''127'' 125, h264 ''0'' ''4d001f'' 39, rtx ''39'' 40,
          codec_of ''video/AV1'' 90000 0 '''' fb 45, rtx ''45'' 46,
          codec_of ''video/VP9'' 90000 0 ''profile-id=0'' fb 98, rtx ''98'' 99,
          codec_of ''video/VP9'' 90000 0 ''profile-id=2'' fb 100, rtx ''100'' 101,
          h264 ''1'' ''64001f'' 112, rtx ''112'' 113])"

fun register_all :: "int \<Rightarrow> RTPCodecType \<Rightarrow> RTPCodecParameters list \<Rightarrow> MediaEngine \<Rightarrow> me_error option \<times> MediaEngine" where
  "register_all now typ [] m = (None, m)"
| "register_all now typ (c # cs) m =
     (case RegisterCodec now c typ m of (Some e, m) \<Rightarrow> (Some e, m) | (None, m) \<Rightarrow> register_all now typ cs m)"

definition RegisterDefaultCodecs :: "int \<Rightarrow> MediaEngine \<Rightarrow> me_error option \<times> MediaEngine" where
  "RegisterDefaultCodecs now m =
     (case register_all now Audio default_audio m of
        (Some e, m) \<Rightarrow> (Some e, m)
      | (None, m) \<Rightarrow> register_all now Video default_video m)"

text \<open>\<open>extensionIndex\<close> is that of the last entry with the URI.\<close>

definition ext_index :: "string \<Rightarrow> mediaEngineHeaderExtension list \<Rightarrow> nat option" where
  "ext_index u exts = (case filter (\<lambda>i. uri (exts ! i) = u) [0..<length exts] of [] \<Rightarrow> None | is \<Rightarrow> Some (last is))"

definition RegisterHeaderExtension :: "string \<Rightarrow> RTPCodecType \<Rightarrow> RTPTransceiverDirection list \<Rightarrow> MediaEngine \<Rightarrow> me_error option \<times> MediaEngine" where
  "RegisterHeaderExtension extension typ directions m =
     (let m = (if negotiatedHeaderExtensions m = None then m\<lparr>negotiatedHeaderExtensions := Some []\<rparr> else m);
          directions = (if directions = [] then [Recvonly, Sendonly] else directions)
      in if list_ex (\<lambda>d. d \<noteq> Recvonly \<and> d \<noteq> Sendonly) directions then (Some ErrInvalidDirection, m)
         else let exts = (if ext_index extension (headerExtensions m) = None
                          then headerExtensions m @ [\<lparr>uri = '''', isAudio = False, isVideo = False, allowedDirections = []\<rparr>] else headerExtensions m);
                  i = (case ext_index extension (headerExtensions m) of None \<Rightarrow> length exts - 1 | Some i \<Rightarrow> i);
                  h = exts ! i;
                  h = (case typ of Audio \<Rightarrow> h\<lparr>isAudio := True\<rparr> | Video \<Rightarrow> h\<lparr>isVideo := True\<rparr> | CodecUnknown \<Rightarrow> h)
              in (None, m\<lparr>headerExtensions := exts[i := h\<lparr>uri := extension, allowedDirections := directions\<rparr>]\<rparr>))"

definition RegisterFeedback :: "string \<times> string \<Rightarrow> RTPCodecType \<Rightarrow> MediaEngine \<Rightarrow> MediaEngine" where
  "RegisterFeedback feedback typ m =
     (let add = map (\<lambda>v. v\<lparr>RTCPFeedback := RTCPFeedback v @ [feedback]\<rparr>)
      in case typ of
           Video \<Rightarrow> m\<lparr>videoCodecs := add (videoCodecs m)\<rparr>
         | Audio \<Rightarrow> m\<lparr>audioCodecs := add (audioCodecs m)\<rparr>
         | CodecUnknown \<Rightarrow> m)"

definition getHeaderExtensionID :: "string \<Rightarrow> MediaEngine \<Rightarrow> int \<times> bool \<times> bool" where
  "getHeaderExtensionID extension m =
     (case negotiatedHeaderExtensions m of
        None \<Rightarrow> (0, False, False)
      | Some exts \<Rightarrow>
          (case find (\<lambda>(i, h). extension = uri h) exts of Some (i, h) \<Rightarrow> (i, isAudio h, isVideo h) | None \<Rightarrow> (0, False, False)))"

definition me_copy :: "MediaEngine \<Rightarrow> MediaEngine" where
  "me_copy m =
     new_MediaEngine\<lparr>videoCodecs := videoCodecs m, audioCodecs := audioCodecs m, headerExtensions := headerExtensions m,
       negotiatedHeaderExtensions := if headerExtensions m \<noteq> [] then Some [] else None\<rparr>"

definition findCodecByPayload :: "RTPCodecParameters list \<Rightarrow> nat \<Rightarrow> RTPCodecParameters option" where
  "findCodecByPayload codecs payloadType = find (\<lambda>c. PayloadType c = payloadType) codecs"

definition getCodecByPayload :: "nat \<Rightarrow> MediaEngine \<Rightarrow> me_error + RTPCodecParameters \<times> RTPCodecType" where
  "getCodecByPayload payloadType m =
     (let look = (\<lambda>guard codecs. if guard then findCodecByPayload codecs payloadType else None)
      in case look (negotiatedVideo m) (negotiatedVideoCodecs m) of
           Some c \<Rightarrow> Inr (c, Video)
         | None \<Rightarrow>
             (case look (negotiatedAudio m) (negotiatedAudioCodecs m) of
                Some c \<Rightarrow> Inr (c, Audio)
              | None \<Rightarrow>
                  (case look (\<not> negotiatedVideo m) (videoCodecs m) of
                     Some c \<Rightarrow> Inr (c, Video)
                   | None \<Rightarrow>
                       (case look (\<not> negotiatedAudio m) (audioCodecs m) of
                          Some c \<Rightarrow> Inr (c, Audio)
                        | None \<Rightarrow> Inl ErrCodecNotFound))))"

text \<open>Look up a codec of the remote side. A codec with an \<open>apt\<close> parameter repairs another one, which has to have been matched before.\<close>

definition matchRemoteCodec :: "RTPCodecParameters \<Rightarrow> RTPCodecType \<Rightarrow> RTPCodecParameters list \<Rightarrow> RTPCodecParameters list \<Rightarrow> MediaEngine \<Rightarrow> me_error + codecMatchType" where
  "matchRemoteCodec remoteCodec typ exactMatches partialMatches m =
     (let codecs = (if typ = Audio then audioCodecs m else videoCodecs m)
      in case fmtp_Parameter (codec_fmtp remoteCodec) ''apt'' of
           None \<Rightarrow> Inr (snd (codecParametersFuzzySearch remoteCodec codecs))
         | Some apt \<Rightarrow>
             (case ParseUint apt 8 of
                None \<Rightarrow> Inl ErrParse
              | Some payloadType \<Rightarrow>
                  let (aptMatch, aptCodec) =
                        (case find (\<lambda>c. PayloadType c = payloadType) exactMatches of
                           Some c \<Rightarrow> (codecMatchExact, c)
                         | None \<Rightarrow>
                             (case find (\<lambda>c. PayloadType c = payloadType) partialMatches of
                                Some c \<Rightarrow> (codecMatchPartial, c)
                              | None \<Rightarrow> (codecMatchNone, no_codec)))
                  in if aptMatch = codecMatchNone then Inr codecMatchNone
                     else let (aptMatched, mt) = codecParametersFuzzySearch aptCodec codecs;
                              toMatchCodec = (if mt = aptMatch
                                              then remoteCodec\<lparr>SDPFmtpLine := replace_first (''apt='' @ itoa_nat payloadType) (''apt='' @ itoa_nat (PayloadType aptMatched))
                                                                                (SDPFmtpLine remoteCodec)\<rparr>
                                              else remoteCodec);
                              matchType = snd (codecParametersFuzzySearch toMatchCodec codecs)
                          in Inr (if matchType = codecMatchExact \<and> aptMatch = codecMatchPartial then codecMatchPartial else matchType)))"

text \<open>A media section, with what the SDP package finds in it: the codec of a payload type and the values of the \<open>extmap\<close> attributes.\<close>

record sdp_codec =
  sdp_Name :: string
  sdp_ClockRate :: nat
  sdp_EncodingParameters :: string
  sdp_Fmtp :: string
  sdp_RTCPFeedback :: "string list"

record media_section =
  ms_Media :: string
  ms_Formats :: "string list"
  ms_GetCodec :: "nat \<Rightarrow> sdp_codec option"
  ms_extmaps :: "(string \<times> int) option list"

definition feedback_of :: "string \<Rightarrow> string \<times> string" where
  "feedback_of raw = (let sp = split_at CHR '' '' raw in (sp ! 0, if length sp = 2 then sp ! 1 else ''''))"

fun codecs_of_formats :: "media_section \<Rightarrow> string list \<Rightarrow> me_error + RTPCodecParameters list" where
  "codecs_of_formats m [] = Inr []"
| "codecs_of_formats m (payloadStr # formats) =
     (case ParseUint payloadStr 8 of
        None \<Rightarrow> Inl ErrParse
      | Some payloadType \<Rightarrow>
          (case ms_GetCodec m payloadType of
             None \<Rightarrow> if payloadType = 0 then codecs_of_formats m formats else Inl ErrParse
           | Some codec \<Rightarrow>
               (case codecs_of_formats m formats of
                  Inl e \<Rightarrow> Inl e
                | Inr out \<Rightarrow>
                    Inr (codec_of (ms_Media m @ ''/'' @ sdp_Name codec) (sdp_ClockRate codec)
                           (case ParseUint (sdp_EncodingParameters codec) 16 of None \<Rightarrow> 0 | Some val \<Rightarrow> val) (sdp_Fmtp codec)
                           (map feedback_of (sdp_RTCPFeedback codec)) payloadType # out))))"

definition codecsFromMediaDescription :: "media_section \<Rightarrow> me_error + RTPCodecParameters list" where
  "codecsFromMediaDescription m = codecs_of_formats m (ms_Formats m)"

fun extensions_of :: "(string \<times> int) option list \<Rightarrow> (string, int) gomap \<Rightarrow> me_error + (string, int) gomap" where
  "extensions_of [] out = Inr out"
| "extensions_of (None # es) out = Inl ErrParse"
| "extensions_of (Some (u, v) # es) out = extensions_of es (AList.update u v out)"

definition rtpExtensionsFromMediaDescription :: "media_section \<Rightarrow> me_error + (string, int) gomap" where
  "rtpExtensionsFromMediaDescription m = extensions_of (ms_extmaps m) []"

definition enable_extension :: "int \<Rightarrow> string \<Rightarrow> RTPCodecType \<Rightarrow> (int, mediaEngineHeaderExtension) gomap \<Rightarrow> mediaEngineHeaderExtension \<Rightarrow>
    (int, mediaEngineHeaderExtension) gomap" where
  "enable_extension i extension typ negs l =
     (if uri l \<noteq> extension then negs
      else let h = (case map_of negs i of
                      Some existingValue \<Rightarrow> existingValue
                    | None \<Rightarrow> \<lparr>uri = extension, isAudio = False, isVideo = False, allowedDirections = allowedDirections l\<rparr>)
           in AList.update i (if isAudio l \<and> typ = Audio then h\<lparr>isAudio := True\<rparr>
                              else if isVideo l \<and> typ = Video then h\<lparr>isVideo := True\<rparr> else h) negs)"

definition updateHeaderExtension :: "int \<Rightarrow> string \<Rightarrow> RTPCodecType \<Rightarrow> MediaEngine \<Rightarrow> MediaEngine" where
  "updateHeaderExtension i extension typ m =
     (case negotiatedHeaderExtensions m of
        None \<Rightarrow> m
      | Some negs \<Rightarrow>
          m\<lparr>negotiatedHeaderExtensions := Some (foldl (enable_extension i extension typ) negs (headerExtensions m))\<rparr>)"

definition updateHeaderExtensionFromMediaSection :: "media_section \<Rightarrow> MediaEngine \<Rightarrow> me_error option \<times> MediaEngine" where
  "updateHeaderExtensionFromMediaSection media m =
     (let typ = NewRTPCodecType (ms_Media media)
      in if typ = CodecUnknown then (None, m)
         else case rtpExtensionsFromMediaDescription media of
                Inl e \<Rightarrow> (Some e, m)
              | Inr extensions \<Rightarrow> (None, foldl (\<lambda>m (extension, i). updateHeaderExtension i extension typ m) m extensions))"

definition pushCodecs :: "RTPCodecParameters list \<Rightarrow> RTPCodecType \<Rightarrow> MediaEngine \<Rightarrow> MediaEngine" where
  "pushCodecs codecs typ m =
     (case typ of
        Audio \<Rightarrow> m\<lparr>negotiatedAudioCodecs := foldl addCodec (negotiatedAudioCodecs m) codecs\<rparr>
      | Video \<Rightarrow> m\<lparr>negotiatedVideoCodecs := foldl addCodec (negotiatedVideoCodecs m) codecs\<rparr>
      | CodecUnknown \<Rightarrow> m)"

fun match_codecs :: "RTPCodecParameters list \<Rightarrow> RTPCodecType \<Rightarrow> RTPCodecParameters list \<Rightarrow> RTPCodecParameters list \<Rightarrow> MediaEngine \<Rightarrow>
    me_error + RTPCodecParameters list \<times> RTPCodecParameters list" where
  "match_codecs [] typ exactMatches partialMatches m = Inr (exactMatches, partialMatches)"
| "match_codecs (codec # codecs) typ exactMatches partialMatches m =
     (case matchRemoteCodec codec typ exactMatches partialMatches m of
        Inl e \<Rightarrow> Inl e
      | Inr codecMatchExact \<Rightarrow> match_codecs codecs typ (exactMatches @ [codec]) partialMatches m
      | Inr codecMatchPartial \<Rightarrow> match_codecs codecs typ exactMatches (partialMatches @ [codec]) m
      | Inr codecMatchNone \<Rightarrow> match_codecs codecs typ exactMatches partialMatches m)"

text \<open>A media section whose kind has not been negotiated yet.\<close>

definition negotiate_section :: "media_section \<Rightarrow> RTPCodecType \<Rightarrow> MediaEngine \<Rightarrow> me_error option \<times> MediaEngine" where
  "negotiate_section media typ m =
     (case codecsFromMediaDescription media of
        Inl e \<Rightarrow> (Some e, m)
      | Inr codecs \<Rightarrow>
          (case match_codecs codecs typ [] [] m of
             Inl e \<Rightarrow> (Some e, m)
           | Inr (exactMatches, partialMatches) \<Rightarrow>
               if exactMatches \<noteq> [] then updateHeaderExtensionFromMediaSection media (pushCodecs exactMatches typ m)
               else if partialMatches \<noteq> [] then updateHeaderExtensionFromMediaSection media (pushCodecs partialMatches typ m)
               else (None, m)))"

fun updateFromRemoteDescription :: "media_section list \<Rightarrow> MediaEngine \<Rightarrow> me_error option \<times> MediaEngine" where
  "updateFromRemoteDescription [] m = (None, m)"
| "updateFromRemoteDescription (media # medias) m =
     (let typ = NewRTPCodecType (ms_Media media);
          r = (if \<not> negotiatedAudio m \<and> typ = Audio then negotiate_section media typ (m\<lparr>negotiatedAudio := True\<rparr>)
               else if \<not> negotiatedVideo m \<and> typ = Video then negotiate_section media typ (m\<lparr>negotiatedVideo := True\<rparr>)
               else updateHeaderExtensionFromMediaSection media m)
      in case r of (Some e, m) \<Rightarrow> (Some e, m) | (None, m) \<Rightarrow> updateFromRemoteDescription medias m)"

definition getCodecsByKind :: "RTPCodecType \<Rightarrow> MediaEngine \<Rightarrow> RTPCodecParameters list" where
  "getCodecsByKind typ m =
     (case typ of
        Video \<Rightarrow> if negotiatedVideo m then negotiatedVideoCodecs m else videoCodecs m
      | Audio \<Rightarrow> if negotiatedAudio m then negotiatedAudioCodecs m else audioCodecs m
      | CodecUnknown \<Rightarrow> [])"

text \<open>The identifiers of extensions in an offer: that of the negotiated extension with the same URI, else the first free one from 1 to 14.\<close>

definition assign_id :: "(int, mediaEngineHeaderExtension) gomap \<Rightarrow> (int, mediaEngineHeaderExtension) gomap \<Rightarrow> mediaEngineHeaderExtension \<Rightarrow>
    (int, mediaEngineHeaderExtension) gomap" where
  "assign_id negs mediaExts e =
     (case find (\<lambda>(i, h). uri h = uri e) negs of
        Some (i, _) \<Rightarrow> AList.update i e mediaExts
      | None \<Rightarrow>
          (case find (\<lambda>i. map_of mediaExts i = None \<and> map_of negs i = None) [1..14] of
             Some i \<Rightarrow> AList.update i e mediaExts
           | None \<Rightarrow> mediaExts))"

definition ext_applies :: "RTPCodecType \<Rightarrow> RTPTransceiverDirection list \<Rightarrow> mediaEngineHeaderExtension \<Rightarrow> bool" where
  "ext_applies typ directions e \<longleftrightarrow>
     haveRTPTransceiverDirectionIntersection (allowedDirections e) directions \<and> (isAudio e \<and> typ = Audio \<or> isVideo e \<and> typ = Video)"

definition ext_list :: "MediaEngine \<Rightarrow> (int, mediaEngineHeaderExtension) gomap" where
  "ext_list m = (case negotiatedHeaderExtensions m of None \<Rightarrow> [] | Some exts \<Rightarrow> exts)"

definition getRTPParametersByKind :: "RTPCodecType \<Rightarrow> RTPTransceiverDirection list \<Rightarrow> MediaEngine \<Rightarrow> (int \<times> string) list \<times> RTPCodecParameters list" where
  "getRTPParametersByKind typ directions m =
     (let exts = (if negotiatedVideo m \<and> typ = Video \<or> negotiatedAudio m \<and> typ = Audio then ext_list m
                  else foldl (assign_id (ext_list m)) [] (headerExtensions m))
      in (map (\<lambda>(i, e). (i, uri e)) (filter (\<lambda>(i, e). ext_applies typ directions e) exts), getCodecsByKind typ m))"

definition getRTPParametersByPayloadType :: "nat \<Rightarrow> MediaEngine \<Rightarrow> me_error + (int \<times> string) list \<times> RTPCodecParameters list" where
  "getRTPParametersByPayloadType payloadType m =
     (case getCodecByPayload payloadType m of
        Inl e \<Rightarrow> Inl e
      | Inr (codec, typ) \<Rightarrow>
          Inr (map (\<lambda>(i, e). (i, uri e)) (filter (\<lambda>(i, e). isAudio e \<and> typ = Audio \<or> isVideo e \<and> typ = Video) (ext_list m)), [codec]))"

datatype payloader = H264Payloader | OpusPayloader | VP8Payloader | VP9Payloader | AV1Payloader | G722Payloader | G711Payloader

definition payloaderForCodec :: "string \<Rightarrow> me_error + payloader" where
  "payloaderForCodec mime =
     (let l = ToLower mime
      in if l = ''video/h264'' then Inr H264Payloader
         else if l = ''audio/opus'' then Inr OpusPayloader
         else if l = ''video/vp8'' then Inr VP8Payloader
         else if l = ''video/vp9'' then Inr VP9Payloader
         else if l = ''video/av1'' then Inr AV1Payloader
         else if l = ''audio/g722'' then Inr G722Payloader
         else if l = ''audio/pcmu'' \<or> l = ''audio/pcma'' then Inr G711Payloader
         else Inl ErrNoPayloaderForCodec)"

section \<open>Matching\<close>

lemma EqualFold_sym: "EqualFold a b = EqualFold b a"
  by (auto simp: EqualFold_def)

lemma EqualFold_trans: "EqualFold a b \<Longrightarrow> EqualFold b c \<Longrightarrow> EqualFold a c"
  by (simp add: EqualFold_def)

lemma profileLevelIDMatches_sym: "profileLevelIDMatches a b = profileLevelIDMatches b a"
  by (auto simp: profileLevelIDMatches_def split: option.splits)

lemma h264_agree_sym: "h264_agree p q = h264_agree q p"
  using profileLevelIDMatches_sym by (auto simp: h264_agree_def split: option.splits)

text \<open>Whether two descriptions are compatible does not depend on which side asks.\<close>

lemma fmtp_Match_sym: "fmtp_Match f g = fmtp_Match g f"
  using EqualFold_sym h264_agree_sym by (cases f; cases g) auto

lemma codec_fmtp_match: "fmtp_Match (codec_fmtp c) (codec_fmtp d) \<Longrightarrow> EqualFold (MimeType d) (MimeType c)"
  unfolding codec_fmtp_def fmtp_Parse_def Let_def
  by (auto simp: EqualFold_def split: if_splits)

lemma fuzzy_search_mime:
  assumes "snd (codecParametersFuzzySearch needle haystack) \<noteq> codecMatchNone"
  shows "\<exists>l \<in> set haystack. EqualFold (MimeType l) (MimeType needle)"
  using assms codec_fmtp_match
  by (auto simp: codecParametersFuzzySearch_def find_Some_iff split: option.splits intro: nth_mem)

definition local_codecs :: "RTPCodecType \<Rightarrow> MediaEngine \<Rightarrow> RTPCodecParameters list" where
  "local_codecs typ m = (if typ = Audio then audioCodecs m else videoCodecs m)"

definition known_codec :: "RTPCodecType \<Rightarrow> MediaEngine \<Rightarrow> RTPCodecParameters \<Rightarrow> bool" where
  "known_codec typ m c \<longleftrightarrow> (\<exists>l \<in> set (local_codecs typ m). EqualFold (MimeType l) (MimeType c))"

lemma matchRemoteCodec_known:
  assumes "matchRemoteCodec c typ ex pa m = Inr mt" "mt \<noteq> codecMatchNone"
  shows "known_codec typ m c"
proof -
  have known: "known_codec typ m c" if "snd (codecParametersFuzzySearch c' (local_codecs typ m)) \<noteq> codecMatchNone" "MimeType c' = MimeType c" for c'
    using fuzzy_search_mime [OF that(1)] that(2) by (simp add: known_codec_def)
  have "known_codec typ m c" if "snd (codecParametersFuzzySearch (c\<lparr>SDPFmtpLine := l\<rparr>) (local_codecs typ m)) \<noteq> codecMatchNone" for l
    using known [OF that] by simp
  moreover from this have "known_codec typ m c" if "snd (codecParametersFuzzySearch (c\<lparr>SDPFmtpLine := l\<rparr>) (local_codecs typ m)) = codecMatchExact" for l
    using that by force
  ultimately show ?thesis using assms known [of c] unfolding matchRemoteCodec_def Let_def local_codecs_def [symmetric]
    by (auto split: option.splits if_splits prod.splits)
qed

lemma match_codecs_known:
  "match_codecs cs typ ex pa m = Inr (ex', pa') \<Longrightarrow> c \<in> set ex' \<union> set pa' \<Longrightarrow>
   c \<in> set ex \<union> set pa \<or> c \<in> set cs \<and> known_codec typ m c"
proof (induction cs arbitrary: ex pa)
  case (Cons d cs)
  show ?case
  proof (cases "matchRemoteCodec d typ ex pa m")
    case (Inr mt)
    with matchRemoteCodec_known [OF Inr] Cons.IH [of "ex @ [d]" pa] Cons.IH [of ex "pa @ [d]"] Cons.IH [of ex pa] Cons.prems
    show ?thesis by (cases mt) auto
  qed (use Cons.prems in simp)
qed simp

section \<open>What negotiation changes\<close>

lemma addCodec_set: "set (addCodec cs c) \<subseteq> insert c (set cs)"
  by (auto simp: addCodec_def)

lemma foldl_addCodec_set: "set (foldl addCodec cs ds) \<subseteq> set cs \<union> set ds"
proof (induction ds arbitrary: cs)
  case (Cons d ds)
  from Cons.IH [of "addCodec cs d"] addCodec_set [of cs d] show ?case by auto
qed simp

text \<open>The header extensions have no part in it.\<close>

definition same_codecs :: "MediaEngine \<Rightarrow> MediaEngine \<Rightarrow> bool" where
  "same_codecs m m' \<longleftrightarrow>
     negotiatedVideo m' = negotiatedVideo m \<and> negotiatedAudio m' = negotiatedAudio m \<and> videoCodecs m' = videoCodecs m \<and> audioCodecs m' = audioCodecs m \<and>
     negotiatedVideoCodecs m' = negotiatedVideoCodecs m \<and> negotiatedAudioCodecs m' = negotiatedAudioCodecs m"

lemma updateHeaderExtension_same: "same_codecs m (updateHeaderExtension i u typ m)"
  by (simp add: updateHeaderExtension_def same_codecs_def split: option.split)

lemma section_extensions_same:
  assumes "updateHeaderExtensionFromMediaSection media m = (e, m')"
  shows "same_codecs m m'"
proof -
  have "same_codecs m (foldl (\<lambda>m (u, i). updateHeaderExtension i u ty m) m exts)" for ty exts
  proof (induction exts arbitrary: m)
    case (Cons x exts)
    have "same_codecs m k" if "same_codecs m n" "same_codecs n k" for n k using that by (simp add: same_codecs_def)
    from this [OF updateHeaderExtension_same Cons.IH] show ?case by (simp add: split_beta)
  qed (simp add: same_codecs_def)
  moreover have "same_codecs m m" by (simp add: same_codecs_def)
  ultimately show ?thesis using assms
    by (auto simp: updateHeaderExtensionFromMediaSection_def Let_def split: if_splits sum.splits)
qed

definition negotiated_codecs :: "RTPCodecType \<Rightarrow> MediaEngine \<Rightarrow> RTPCodecParameters list" where
  "negotiated_codecs typ m = (case typ of Audio \<Rightarrow> negotiatedAudioCodecs m | Video \<Rightarrow> negotiatedVideoCodecs m | CodecUnknown \<Rightarrow> [])"

definition offers :: "media_section \<Rightarrow> RTPCodecType \<Rightarrow> RTPCodecParameters \<Rightarrow> bool" where
  "offers media typ c \<longleftrightarrow> NewRTPCodecType (ms_Media media) = typ \<and> (\<exists>cs. codecsFromMediaDescription media = Inr cs \<and> c \<in> set cs)"

lemma same_codecsD:
  "same_codecs m m' \<Longrightarrow> negotiated_codecs k m' = negotiated_codecs k m" "same_codecs m m' \<Longrightarrow> local_codecs k m' = local_codecs k m"
  by (auto simp: same_codecs_def negotiated_codecs_def local_codecs_def split: RTPCodecType.split)

lemma pushCodecs_codecs:
  assumes "typ \<noteq> CodecUnknown"
  shows "negotiated_codecs k (pushCodecs cs typ m) = (if k = typ then foldl addCodec (negotiated_codecs k m) cs else negotiated_codecs k m)"
    and "local_codecs k (pushCodecs cs typ m) = local_codecs k m"
  using assms by (auto simp: pushCodecs_def negotiated_codecs_def local_codecs_def split: RTPCodecType.splits)

lemma negotiate_section_codecs:
  assumes r: "negotiate_section media typ m = (e, m')" and ty: "typ = NewRTPCodecType (ms_Media media)" "typ \<noteq> CodecUnknown"
  shows "local_codecs k m' = local_codecs k m"
    and "c \<in> set (negotiated_codecs k m') \<Longrightarrow> c \<in> set (negotiated_codecs k m) \<or> k = typ \<and> offers media k c \<and> known_codec k m c"
proof -
  have "m' = m \<or> (\<exists>cs ex pa ds e2. codecsFromMediaDescription media = Inr cs \<and> match_codecs cs typ [] [] m = Inr (ex, pa) \<and> (ds = ex \<or> ds = pa) \<and>
      updateHeaderExtensionFromMediaSection media (pushCodecs ds typ m) = (e2, m'))"
    using r by (fastforce simp: negotiate_section_def split: sum.splits prod.splits if_splits)
  then consider "m' = m" | cs ex pa ds e2 where "codecsFromMediaDescription media = Inr cs" "match_codecs cs typ [] [] m = Inr (ex, pa)" "ds = ex \<or> ds = pa"
      "updateHeaderExtensionFromMediaSection media (pushCodecs ds typ m) = (e2, m')" by blast
  then have "local_codecs k m' = local_codecs k m \<and>
    (c \<in> set (negotiated_codecs k m') \<longrightarrow> c \<in> set (negotiated_codecs k m) \<or> k = typ \<and> offers media k c \<and> known_codec k m c)"
  proof cases
    case (2 cs ex pa ds e2)
    note same = same_codecsD [OF section_extensions_same [OF 2(4)]] and push = pushCodecs_codecs [OF ty(2)]
    have "c \<in> set cs \<and> known_codec typ m c" if "c \<in> set ds" using match_codecs_known [OF 2(2), of c] 2(3) that by auto
    then show ?thesis
      using foldl_addCodec_set [of "negotiated_codecs k m" ds] 2(1) ty(1) unfolding same push by (auto simp: offers_def split: if_splits)
  qed simp
  then show "local_codecs k m' = local_codecs k m"
    "c \<in> set (negotiated_codecs k m') \<Longrightarrow> c \<in> set (negotiated_codecs k m) \<or> k = typ \<and> offers media k c \<and> known_codec k m c" by blast+
qed

section \<open>Runs\<close>

datatype me_op =
    OpRegisterCodec int RTPCodecParameters RTPCodecType
  | OpRegisterDefaultCodecs int
  | OpRegisterHeaderExtension string RTPCodecType "RTPTransceiverDirection list"
  | OpRegisterFeedback "string \<times> string" RTPCodecType
  | OpCopy
  | OpRemoteDescription "media_section list"

fun me_step :: "MediaEngine \<Rightarrow> me_op \<Rightarrow> MediaEngine" where
  "me_step m (OpRegisterCodec now codec typ) = snd (RegisterCodec now codec typ m)"
| "me_step m (OpRegisterDefaultCodecs now) = snd (RegisterDefaultCodecs now m)"
| "me_step m (OpRegisterHeaderExtension u typ ds) = snd (RegisterHeaderExtension u typ ds m)"
| "me_step m (OpRegisterFeedback fb typ) = RegisterFeedback fb typ m"
| "me_step m OpCopy = me_copy m"
| "me_step m (OpRemoteDescription medias) = snd (updateFromRemoteDescription medias m)"

fun op_sections :: "me_op \<Rightarrow> media_section set" where
  "op_sections (OpRemoteDescription medias) = set medias"
| "op_sections _ = {}"

text \<open>Every negotiated codec was offered in a section of its kind and has a counterpart among the registered ones.\<close>

definition me_inv :: "media_section set \<Rightarrow> MediaEngine \<Rightarrow> bool" where
  "me_inv S m \<longleftrightarrow> (\<forall>k. \<forall>c \<in> set (negotiated_codecs k m). (\<exists>media \<in> S. offers media k c) \<and> known_codec k m c)"

definition mimes :: "RTPCodecType \<Rightarrow> MediaEngine \<Rightarrow> string set" where
  "mimes k m = MimeType ` set (local_codecs k m)"

lemma known_codec_mimes: "known_codec k m c \<longleftrightarrow> (\<exists>t \<in> mimes k m. EqualFold t (MimeType c))"
  by (auto simp: known_codec_def mimes_def)

lemma me_inv_mono:
  assumes "me_inv S m" "S \<subseteq> T" "\<And>k. negotiated_codecs k m' = negotiated_codecs k m \<or> negotiated_codecs k m' = []" "\<And>k. mimes k m \<subseteq> mimes k m'"
  shows "me_inv T m'"
  unfolding me_inv_def known_codec_mimes
proof (intro allI ballI conjI)
  fix k c
  assume c: "c \<in> set (negotiated_codecs k m')"
  then have "c \<in> set (negotiated_codecs k m)" using assms(3) [of k] by auto
  then show "\<exists>media \<in> T. offers media k c" "\<exists>t \<in> mimes k m'. EqualFold t (MimeType c)"
    using assms(1,2,4) unfolding me_inv_def known_codec_mimes by blast+
qed

lemma negotiated_flags:
  "negotiated_codecs k (m\<lparr>negotiatedAudio := a\<rparr>) = negotiated_codecs k m" "negotiated_codecs k (m\<lparr>negotiatedVideo := a\<rparr>) = negotiated_codecs k m"
  "local_codecs k (m\<lparr>negotiatedAudio := a\<rparr>) = local_codecs k m" "local_codecs k (m\<lparr>negotiatedVideo := a\<rparr>) = local_codecs k m"
  by (simp_all add: negotiated_codecs_def local_codecs_def split: RTPCodecType.split)

lemma negotiate_section_inv:
  assumes "me_inv S m" "negotiate_section media typ m = (e, m')" "typ = NewRTPCodecType (ms_Media media)" "typ \<noteq> CodecUnknown" "media \<in> S"
  shows "me_inv S m'"
  using assms(1,5) negotiate_section_codecs [OF assms(2-4)] unfolding me_inv_def known_codec_def by metis

lemma update_inv:
  "me_inv S m \<Longrightarrow> set medias \<subseteq> S \<Longrightarrow> me_inv S (snd (updateFromRemoteDescription medias m))"
proof (induction medias arbitrary: m)
  case (Cons media medias)
  let ?t = "NewRTPCodecType (ms_Media media)"
  define r where "r = (if \<not> negotiatedAudio m \<and> ?t = Audio then negotiate_section media ?t (m\<lparr>negotiatedAudio := True\<rparr>)
      else if \<not> negotiatedVideo m \<and> ?t = Video then negotiate_section media ?t (m\<lparr>negotiatedVideo := True\<rparr>)
      else updateHeaderExtensionFromMediaSection media m)"
  have flags: "me_inv S (m\<lparr>negotiatedAudio := True\<rparr>)" "me_inv S (m\<lparr>negotiatedVideo := True\<rparr>)"
    using Cons.prems(1) by (simp_all add: me_inv_def known_codec_def negotiated_flags)
  obtain e m1 where r1: "r = (e, m1)" by (cases r)
  have m: "media \<in> S" using Cons.prems(2) by simp
  consider "?t = Audio" "negotiate_section media ?t (m\<lparr>negotiatedAudio := True\<rparr>) = (e, m1)"
    | "?t = Video" "negotiate_section media ?t (m\<lparr>negotiatedVideo := True\<rparr>) = (e, m1)"
    | "updateHeaderExtensionFromMediaSection media m = (e, m1)"
    using r1 unfolding r_def by (auto split: if_splits)
  then have inv: "me_inv S m1"
  proof cases
    case 3
    from same_codecsD [OF section_extensions_same [OF 3]] Cons.prems(1) show ?thesis by (simp add: me_inv_def known_codec_def)
  qed (use negotiate_section_inv [OF flags(1) _ refl _ m] negotiate_section_inv [OF flags(2) _ refl _ m] in auto)
  have "updateFromRemoteDescription (media # medias) m = (case r of (Some e, m) \<Rightarrow> (Some e, m) | (None, m) \<Rightarrow> updateFromRemoteDescription medias m)"
    by (simp add: r_def Let_def)
  then show ?case using inv Cons.IH [OF inv] Cons.prems(2) r1 by (cases e) auto
qed simp

lemma RegisterCodec_codecs:
  "negotiated_codecs k (snd (RegisterCodec now c typ m)) = negotiated_codecs k m" (is ?neg)
  "mimes k m \<subseteq> mimes k (snd (RegisterCodec now c typ m))" (is ?known)
proof -
  show ?neg by (cases "typ"; cases k; simp add: RegisterCodec_def Let_def negotiated_codecs_def)
  show ?known by (cases "typ"; cases k; auto simp: RegisterCodec_def Let_def mimes_def local_codecs_def addCodec_def)
qed

lemma register_all_codecs:
  "negotiated_codecs k (snd (register_all now typ cs m)) = negotiated_codecs k m \<and> mimes k m \<subseteq> mimes k (snd (register_all now typ cs m))"
proof (induction cs arbitrary: m)
  case (Cons c cs)
  obtain e m1 where r: "RegisterCodec now c typ m = (e, m1)" by (cases "RegisterCodec now c typ m")
  with RegisterCodec_codecs(1) [of k now c "typ" m] RegisterCodec_codecs(2) [of k m now c "typ"] Cons.IH [of m1] show ?case by (cases e) auto
qed simp

lemma RegisterDefaultCodecs_codecs:
  "negotiated_codecs k (snd (RegisterDefaultCodecs now m)) = negotiated_codecs k m" "mimes k m \<subseteq> mimes k (snd (RegisterDefaultCodecs now m))"
proof -
  obtain e m1 where r: "register_all now Audio default_audio m = (e, m1)" by (cases "register_all now Audio default_audio m")
  note a = register_all_codecs [of k now Audio default_audio m, unfolded r] and b = register_all_codecs [of k now Video default_video m1]
  show "negotiated_codecs k (snd (RegisterDefaultCodecs now m)) = negotiated_codecs k m" "mimes k m \<subseteq> mimes k (snd (RegisterDefaultCodecs now m))"
    using a b by (cases e; auto simp: RegisterDefaultCodecs_def r)+
qed

lemma me_step_inv: "me_inv S m \<Longrightarrow> me_inv (S \<union> op_sections a) (me_step m a)"
proof (cases a)
  case (OpRemoteDescription medias)
  assume "me_inv S m"
  then have "me_inv (S \<union> set medias) m" by (rule me_inv_mono) auto
  from update_inv [OF this] OpRemoteDescription show ?thesis by simp
next
  case (OpRegisterHeaderExtension u ty ds)
  assume "me_inv S m"
  then show ?thesis
    by (rule me_inv_mono) (auto simp: OpRegisterHeaderExtension RegisterHeaderExtension_def Let_def negotiated_codecs_def mimes_def local_codecs_def split: RTPCodecType.split)
next
  case (OpRegisterFeedback fb ty)
  assume "me_inv S m"
  then show ?thesis
    by (rule me_inv_mono) (auto simp: OpRegisterFeedback RegisterFeedback_def Let_def negotiated_codecs_def mimes_def local_codecs_def image_image split: RTPCodecType.split)
next
  case OpCopy
  assume "me_inv S m"
  then show ?thesis
    by (rule me_inv_mono) (auto simp: OpCopy me_copy_def new_MediaEngine_def negotiated_codecs_def mimes_def local_codecs_def split: RTPCodecType.split)
qed (use me_inv_mono [of S m] RegisterCodec_codecs RegisterDefaultCodecs_codecs in auto)

lemma me_run_inv: "me_inv S m \<Longrightarrow> me_inv (S \<union> \<Union> (op_sections ` set ops)) (foldl me_step m ops)"
proof (induction ops arbitrary: S m)
  case (Cons a ops)
  from Cons.IH [OF me_step_inv [OF Cons.prems, of a]] show ?case by (simp add: Un_assoc)
qed simp

section \<open>Codecs are settled once\<close>

lemma negotiate_section_video:
  assumes "negotiate_section media typ m = (e, m')" "typ = NewRTPCodecType (ms_Media media)" "typ \<noteq> CodecUnknown"
  shows "negotiatedVideo m' = negotiatedVideo m" "typ \<noteq> Video \<Longrightarrow> negotiatedVideoCodecs m' = negotiatedVideoCodecs m"
proof -
  have "m' = m \<or> (\<exists>ds e2. updateHeaderExtensionFromMediaSection media (pushCodecs ds typ m) = (e2, m'))"
    using assms(1) by (fastforce simp: negotiate_section_def split: sum.splits prod.splits if_splits)
  then consider "m' = m" | ds where "same_codecs (pushCodecs ds typ m) m'" using section_extensions_same by blast
  then have "negotiatedVideo m' = negotiatedVideo m \<and> (typ \<noteq> Video \<longrightarrow> negotiatedVideoCodecs m' = negotiatedVideoCodecs m)"
    by cases (auto simp: same_codecs_def pushCodecs_def split: RTPCodecType.splits)
  then show "negotiatedVideo m' = negotiatedVideo m" "typ \<noteq> Video \<Longrightarrow> negotiatedVideoCodecs m' = negotiatedVideoCodecs m" by blast+
qed

lemma update_frozen:
  "negotiatedVideo m \<Longrightarrow> updateFromRemoteDescription medias m = (e, m') \<Longrightarrow> negotiatedVideo m' \<and> negotiatedVideoCodecs m' = negotiatedVideoCodecs m"
proof (induction medias arbitrary: m)
  case (Cons media medias)
  let ?t = "NewRTPCodecType (ms_Media media)"
  obtain e1 m1 where r: "(if \<not> negotiatedAudio m \<and> ?t = Audio then negotiate_section media ?t (m\<lparr>negotiatedAudio := True\<rparr>)
      else updateHeaderExtensionFromMediaSection media m) = (e1, m1)" by fastforce
  have m1: "negotiatedVideo m1 \<and> negotiatedVideoCodecs m1 = negotiatedVideoCodecs m"
  proof (cases "\<not> negotiatedAudio m \<and> ?t = Audio")
    case True
    with r negotiate_section_video [of media ?t "m\<lparr>negotiatedAudio := True\<rparr>" e1 m1] Cons.prems(1) show ?thesis by simp
  next
    case False
    with r section_extensions_same [of media m e1 m1] Cons.prems(1) show ?thesis by (simp add: same_codecs_def)
  qed
  have "updateFromRemoteDescription (media # medias) m = (case (e1, m1) of (Some e, m) \<Rightarrow> (Some e, m) | (None, m) \<Rightarrow> updateFromRemoteDescription medias m)"
    unfolding r [symmetric] using Cons.prems(1) by (simp add: Let_def)
  then show ?case using m1 Cons.IH [of m1] Cons.prems(2) by (cases e1) auto
qed simp

lemma descriptions_frozen:
  "negotiatedVideo m \<Longrightarrow> negotiatedVideo (foldl me_step m (map OpRemoteDescription descs)) \<and>
     negotiatedVideoCodecs (foldl me_step m (map OpRemoteDescription descs)) = negotiatedVideoCodecs m"
proof (induction descs arbitrary: m)
  case (Cons d descs)
  obtain e m1 where u: "updateFromRemoteDescription d m = (e, m1)" by fastforce
  with update_frozen [OF Cons.prems u] Cons.IH [of m1] show ?case by simp
qed simp

section \<open>Properties\<close>

text \<open>Sections with one codec each, for examples.\<close>

definition demo_section :: "string \<Rightarrow> string \<Rightarrow> media_section" where
  "demo_section kind name =
     \<lparr>ms_Media = kind, ms_Formats = [''96''],
      ms_GetCodec = (\<lambda>_. Some \<lparr>sdp_Name = name, sdp_ClockRate = 90, sdp_EncodingParameters = '''', sdp_Fmtp = '''', sdp_RTCPFeedback = []\<rparr>), ms_extmaps = []\<rparr>"

definition demo_history :: "me_op list" where
  "demo_history = [OpRegisterCodec 1 (codec_of ''video/VP8'' 90 0 '''' [] 100) Video, OpRegisterCodec 1 (codec_of ''audio/opus'' 48 2 '''' [] 111) Audio,
     OpRemoteDescription [demo_section ''video'' ''vp8'', demo_section ''audio'' ''OPUS'']]"

definition demo_engine :: MediaEngine where
  "demo_engine = new_MediaEngine\<lparr>videoCodecs := [codec_of ''video/VP8'' 90 0 '''' [] 96], audioCodecs := [codec_of ''audio/opus'' 48 2 '''' [] 111]\<rparr>"

text \<open>
  C15. After any history of registrations and remote descriptions, once both kinds of media have been negotiated, every codec the engine uses was offered by the remote side in a
  section of that kind and has a registered codec of the same type: this holds of the codecs of a kind, and of the codec that a payload type of an incoming packet stands for.
\<close>

theorem negotiated_codecs_agreed:
  assumes "m = foldl me_step new_MediaEngine ops" "negotiatedVideo m" "negotiatedAudio m"
    and "c \<in> set (getCodecsByKind k m) \<or> getCodecByPayload pt m = Inr (c, k)"
  shows "(\<exists>medias media. OpRemoteDescription medias \<in> set ops \<and> media \<in> set medias \<and> NewRTPCodecType (ms_Media media) = k \<and>
            (\<exists>cs. codecsFromMediaDescription media = Inr cs \<and> c \<in> set cs)) \<and>
         (\<exists>l \<in> set (if k = Audio then audioCodecs m else videoCodecs m). EqualFold (MimeType l) (MimeType c))"
proof -
  have "me_inv {} new_MediaEngine" by (simp add: me_inv_def new_MediaEngine_def negotiated_codecs_def split: RTPCodecType.split)
  from me_run_inv [OF this, of ops] have inv: "me_inv (\<Union> (op_sections ` set ops)) m" using assms(1) by simp
  have "c \<in> set (negotiated_codecs k m)"
    using assms(2-4)
    by (auto simp: getCodecsByKind_def getCodecByPayload_def findCodecByPayload_def negotiated_codecs_def find_Some_iff Let_def
        split: RTPCodecType.splits option.splits)
  with inv have "(\<exists>media \<in> \<Union> (op_sections ` set ops). offers media k c) \<and> known_codec k m c" unfolding me_inv_def by blast
  then obtain a media where "a \<in> set ops" "media \<in> op_sections a" "offers media k c" "known_codec k m c" by auto
  moreover from this(2) obtain medias where "a = OpRemoteDescription medias" "media \<in> set medias" by (cases a) auto
  ultimately show ?thesis by (auto simp: offers_def known_codec_def local_codecs_def)
qed

theorem negotiated_codecs_agreed_witness:
  "\<exists>c. getCodecByPayload 96 (foldl me_step new_MediaEngine demo_history) = Inr (c, Video) \<and>
     (\<exists>l \<in> set (videoCodecs (foldl me_step new_MediaEngine demo_history)). EqualFold (MimeType l) (MimeType c))"
proof -
  let ?m = "foldl me_step new_MediaEngine demo_history"
  have n: "negotiatedVideo ?m" "negotiatedAudio ?m" by code_simp+
  have "getCodecByPayload 96 ?m \<noteq> Inl ErrCodecNotFound \<and> map_sum id snd (getCodecByPayload 96 ?m) = Inr Video" by code_simp
  then obtain c where c: "getCodecByPayload 96 ?m = Inr (c, Video)" by (cases "getCodecByPayload 96 ?m") auto
  from negotiated_codecs_agreed [OF refl n disjI2 [OF c]] c show ?thesis by auto
qed

text \<open>
  A kind of media is settled by the first section of that kind, even if nothing in it matches: from then on the engine has no codec of that kind, whatever later descriptions
  offer, although the code says that the kind is not negotiated in this case.
\<close>

theorem unmatched_kind_stays_empty:
  assumes "\<not> negotiatedVideo m" "negotiatedVideoCodecs m = []" "NewRTPCodecType (ms_Media media) = Video"
    and "codecsFromMediaDescription media = Inr cs" "\<forall>c \<in> set cs. \<forall>l \<in> set (videoCodecs m). \<not> EqualFold (MimeType l) (MimeType c)"
  shows "getCodecsByKind Video (foldl me_step m (map OpRemoteDescription ((media # medias) # descs))) = []"
proof -
  let ?m = "m\<lparr>negotiatedVideo := True\<rparr>"
  obtain e m1 where n: "negotiate_section media Video ?m = (e, m1)" by fastforce
  note ty = assms(3) [symmetric]
  have "c \<notin> set (negotiated_codecs Video m1)" for c
  proof
    assume "c \<in> set (negotiated_codecs Video m1)"
    then have "c \<in> set (negotiated_codecs Video ?m) \<or> offers media Video c \<and> known_codec Video ?m c"
      using negotiate_section_codecs(2) [OF n ty] by blast
    then show False using assms(2,4,5) by (auto simp: negotiated_codecs_def offers_def known_codec_def local_codecs_def)
  qed
  then have "negotiated_codecs Video m1 = []" by (meson last_in_set)
  then have "negotiatedVideoCodecs m1 = []" by (simp add: negotiated_codecs_def)
  moreover have "negotiatedVideo m1" using negotiate_section_video(1) [OF n ty] by simp
  ultimately have m1: "negotiatedVideo m1" "negotiatedVideoCodecs m1 = []" by simp_all
  obtain e2 m2 where u: "updateFromRemoteDescription (media # medias) m = (e2, m2)" by fastforce
  have "negotiatedVideo m2 \<and> negotiatedVideoCodecs m2 = []"
    using u n assms(1,3) m1 update_frozen [OF m1(1)] by (cases e) (auto simp: Let_def)
  then show ?thesis using descriptions_frozen [of m2 descs] u by (simp add: getCodecsByKind_def)
qed

theorem unmatched_kind_stays_empty_witness:
  "getCodecsByKind Video (foldl me_step demo_engine (map OpRemoteDescription [[demo_section ''video'' ''H264''], [demo_section ''video'' ''VP8'']])) = []"
proof (rule unmatched_kind_stays_empty)
  show "codecsFromMediaDescription (demo_section ''video'' ''H264'') = Inr [codec_of ''video/H264'' 90 0 '''' [] 96]"
    by (simp add: codecsFromMediaDescription_def demo_section_def ParseUint_def is_digit_def digits_value_def char_digit_def)
qed (simp_all add: demo_engine_def new_MediaEngine_def demo_section_def NewRTPCodecType_def fold_char_def EqualFold_def codec_of_def)

end
