(* ===== verification/JitterBuffer.thy ===== *)
theory JitterBuffer
  imports Prelude "HOL-Library.Multiset"
begin

text \<open>
  The jitter buffer of \<open>livekit-server-sdk/pkg/jitter/buffer.go\<close>: RTP packets arrive in any order, are kept in a
  linked list by sequence number and leave it as complete samples. The doubly linked list is a list; free nodes wait in
  a pool and keep the flag \<open>reset\<close> of their last use, so the pool is a list of these flags. Sequence numbers and
  timestamps are words with the wrap-around of the source. What a payload means is the depacketizer's business (an
  argument); the latency is given in clock ticks.
\<close>

section \<open>State\<close>

record rtp_packet =
  rp_SequenceNumber :: u16
  rp_Timestamp :: u32
  rp_Marker :: bool
  rp_Payload :: bytes

record depacketizer =
  IsPartitionHead :: "bytes \<Rightarrow> bool"
  IsPartitionTail :: "bool \<Rightarrow> bytes \<Rightarrow> bool"

record jpacket =
  jp_start :: bool
  jp_end :: bool
  jp_reset :: bool
  jp_padding :: bool
  jp_packet :: rtp_packet

abbreviation jp_SN :: "jpacket \<Rightarrow> u16" where "jp_SN c \<equiv> rp_SequenceNumber (jp_packet c)"
abbreviation jp_TS :: "jpacket \<Rightarrow> u32" where "jp_TS c \<equiv> rp_Timestamp (jp_packet c)"

record jitter =
  jb_maxLate :: u32
  jb_packetsDropped :: int
  jb_packetsTotal :: int
  jb_pool :: "bool list"
  jb_size :: int
  jb_initialized :: bool
  jb_prevSN :: u16
  jb_list :: "jpacket list"
  jb_maxSampleSize :: u32
  jb_minTS :: u32
  jb_callbacks :: nat

definition jb_NewBuffer :: "u32 \<Rightarrow> jitter" where
  "jb_NewBuffer maxLate = \<lparr>jb_maxLate = maxLate, jb_packetsDropped = 0, jb_packetsTotal = 0, jb_pool = [], jb_size = 0,
     jb_initialized = False, jb_prevSN = 0, jb_list = [], jb_maxSampleSize = 0, jb_minTS = 0, jb_callbacks = 0\<rparr>"

section \<open>Sequence arithmetic\<close>

definition before16 :: "u16 \<Rightarrow> u16 \<Rightarrow> bool" where
  "before16 a b = ((b - a) AND 0x8000 = 0)"

definition before32 :: "u32 \<Rightarrow> u32 \<Rightarrow> bool" where
  "before32 a b = ((b - a) AND 0x80000000 = 0)"

definition outsideRange :: "u16 \<Rightarrow> u16 \<Rightarrow> bool" where
  "outsideRange a b = (a - b > 3000 \<and> b - a > 3000)"

section \<open>Operations\<close>

definition jb_UpdateMaxLatency :: "u32 \<Rightarrow> jitter \<Rightarrow> jitter" where
  "jb_UpdateMaxLatency maxLate b = b\<lparr>jb_minTS := jb_minTS b + (jb_maxLate b - maxLate), jb_maxLate := maxLate\<rparr>"

definition newPacket :: "bool \<Rightarrow> bool \<Rightarrow> bool \<Rightarrow> rtp_packet \<Rightarrow> jitter \<Rightarrow> jpacket \<times> jitter" where
  "newPacket start end padding pkt b =
     (let b = b\<lparr>jb_size := jb_size b + 1\<rparr> in
      case jb_pool b of
        [] \<Rightarrow> (\<lparr>jp_start = start, jp_end = end, jp_reset = False, jp_padding = padding, jp_packet = pkt\<rparr>, b)
      | r # rs \<Rightarrow> (\<lparr>jp_start = start, jp_end = end, jp_reset = r, jp_padding = padding, jp_packet = pkt\<rparr>, b\<lparr>jb_pool := rs\<rparr>))"

definition jb_free :: "jpacket \<Rightarrow> jitter \<Rightarrow> jitter" where
  "jb_free c b = b\<lparr>jb_size := jb_size b - 1, jb_pool := jp_reset c # jb_pool b\<rparr>"

text \<open>\<open>maxSampleSize\<close> follows the largest timestamp step between neighbours.\<close>

definition note_step :: "rtp_packet \<Rightarrow> jpacket \<Rightarrow> jitter \<Rightarrow> jitter" where
  "note_step pkt c b =
     (if rp_SequenceNumber pkt = jp_SN c + 1
      then let f = rp_Timestamp pkt - jp_TS c in (if f > jb_maxSampleSize b then b\<lparr>jb_maxSampleSize := f\<rparr> else b)
      else b)"

text \<open>
  The search from the element before the tail towards the head: the list is reversed and without its tail; the packet
  goes behind the first element that is not skipped. Without such an element the packet is not stored.
\<close>

fun insert_behind :: "(jpacket \<Rightarrow> bool) \<Rightarrow> (jpacket \<Rightarrow> jpacket) \<Rightarrow> jpacket list \<Rightarrow> (jpacket \<times> jpacket list) option" where
  "insert_behind skip p [] = None"
| "insert_behind skip p (c # cs) =
     (if skip c then map_option (\<lambda>(d, r). (d, c # r)) (insert_behind skip p cs) else Some (c, p c # c # cs))"

definition jb_Push :: "depacketizer \<Rightarrow> rtp_packet \<Rightarrow> jitter \<Rightarrow> jitter" where
  "jb_Push dp pkt b0 =
     (let b = b0\<lparr>jb_packetsTotal := jb_packetsTotal b0 + 1\<rparr>; padding = (rp_Payload pkt = []); sn = rp_SequenceNumber pkt in
      if padding \<and> \<not> jb_initialized b then b
      else
        let start = (padding \<or> IsPartitionHead dp (rp_Payload pkt));
            end = (padding \<or> IsPartitionTail dp (rp_Marker pkt) (rp_Payload pkt));
            (p, b) = newPacket start end padding pkt b;
            beforePrev = before16 sn (jb_prevSN b);
            outsidePrevRange = outsideRange sn (jb_prevSN b)
        in if jb_initialized b \<and> beforePrev \<and> \<not> outsidePrevRange
           then (if \<not> padding then b\<lparr>jb_packetsDropped := jb_packetsDropped b + 1, jb_callbacks := jb_callbacks b + 1\<rparr> else b)
           else
             let (p, b) =
               (if \<not> jb_initialized b \<and> jp_start p \<and> (jb_list b = [] \<or> before16 sn (jp_SN (hd (jb_list b))))
                then (p\<lparr>jp_reset := True\<rparr>,
                      b\<lparr>jb_initialized := True, jb_prevSN := sn - 1, jb_minTS := rp_Timestamp pkt - jb_maxLate b\<rparr>)
                else (p, b))
             in if jb_list b = []
                then let p = (if \<not> jp_reset p then p\<lparr>jp_reset := jp_start p \<and> outsidePrevRange\<rparr> else p)
                     in b\<lparr>jb_minTS := rp_Timestamp pkt - jb_maxLate b, jb_list := [p]\<rparr>
                else
                  let h = hd (jb_list b); t = last (jb_list b);
                      beforeHead = before16 sn (jp_SN h); beforeTail = before16 sn (jp_SN t);
                      outsideHeadRange = outsideRange sn (jp_SN h); outsideTailRange = outsideRange sn (jp_SN t)
                  in if \<not> beforeTail \<and> \<not> outsideTailRange
                     then let b = b\<lparr>jb_minTS := jb_minTS b + (rp_Timestamp pkt - jp_TS t)\<rparr>
                          in (note_step pkt t b)\<lparr>jb_list := jb_list b @ [p]\<rparr>
                     else if outsideHeadRange \<and> outsideTailRange
                     then b\<lparr>jb_minTS := jb_minTS b + jb_maxSampleSize b, jb_list := jb_list b @ [p\<lparr>jp_reset := jp_start p\<rparr>]\<rparr>
                     else if beforeHead \<and> \<not> outsideHeadRange
                     then b\<lparr>jb_list := p\<lparr>jp_reset := jp_start p \<and> outsidePrevRange\<rparr> # jb_list b\<rparr>
                     else if outsideTailRange
                     then (case insert_behind (\<lambda>c. before16 sn (jp_SN c) \<or> outsideRange sn (jp_SN c)) (\<lambda>c. p)
                             (rev (butlast (jb_list b))) of
                             None \<Rightarrow> b
                           | Some (c, r) \<Rightarrow> (note_step pkt c b)\<lparr>jb_list := rev r @ [t]\<rparr>)
                     else (case insert_behind (\<lambda>c. before16 sn (jp_SN c) \<and> \<not> outsideRange sn (jp_SN c))
                             (\<lambda>c. if jp_start p \<and> outsideRange sn (jp_SN c) then p\<lparr>jp_reset := True\<rparr> else p)
                             (rev (butlast (jb_list b))) of
                             None \<Rightarrow> b
                           | Some (c, r) \<Rightarrow>
                               (if jp_start p \<and> outsideRange sn (jp_SN c) then b else note_step pkt c b)\<lparr>jb_list := rev r @ [t]\<rparr>))"

text \<open>\<open>minTS\<close> follows a jump of the sequence numbers between neighbours that leave the buffer.\<close>

definition adjust_minTS :: "jpacket \<Rightarrow> jpacket list \<Rightarrow> jitter \<Rightarrow> jitter" where
  "adjust_minTS c rest b = (case rest of
       [] \<Rightarrow> b
     | d # _ \<Rightarrow> (if outsideRange (jp_SN d) (jp_SN c)
                then b\<lparr>jb_minTS := jb_minTS b + (jp_TS d - jp_TS c - jb_maxSampleSize b)\<rparr> else b))"

definition dropHead :: "jitter \<Rightarrow> jitter" where
  "dropHead b = (case jb_list b of
       [] \<Rightarrow> b
     | c # rest \<Rightarrow> jb_free c (adjust_minTS c rest (b\<lparr>jb_prevSN := jp_SN c, jb_list := rest\<rparr>)))"

lemma dropHead_list [simp]: "jb_list (dropHead b) = tl (jb_list b)"
  by (auto simp: dropHead_def jb_free_def adjust_minTS_def split: list.splits)

definition count_drop :: "jitter \<Rightarrow> jitter" where
  "count_drop b = b\<lparr>jb_packetsDropped := jb_packetsDropped b + 1\<rparr>"

lemma count_drop_list [simp]: "jb_list (count_drop b) = jb_list b"
  by (simp add: count_drop_def)

text \<open>The packets at the head that belong to a sample whose first packet is lost.\<close>

function drop_broken :: "bool \<times> jitter \<Rightarrow> bool \<times> jitter" where
  "drop_broken (dropped, b) =
     (if jb_list b \<noteq> [] \<and> \<not> jp_start (hd (jb_list b))
         \<and> before32 (jp_TS (hd (jb_list b)) - jb_maxSampleSize b) (jb_minTS b)
      then drop_broken (True, dropHead ((count_drop b)\<lparr>jb_prevSN := jp_SN (hd (jb_list b)) - 1\<rparr>))
      else (dropped, b))"
  by pat_completeness auto
termination
  by (relation "measure (\<lambda>(d, b). length (jb_list b))") auto

declare drop_broken.simps [simp del]

text \<open>All packets at the head with timestamp \<open>ts\<close>, at least one.\<close>

function drop_sample :: "u32 \<Rightarrow> jitter \<Rightarrow> jitter" where
  "drop_sample ts b =
     (let b' = dropHead (count_drop b) in
      if jb_list b = [] \<or> jb_list b' = [] \<or> jp_TS (hd (jb_list b')) \<noteq> ts then b' else drop_sample ts b')"
  by pat_completeness auto
termination
  by (relation "measure (\<lambda>(ts, b). length (jb_list b))") (auto simp: Let_def)

declare drop_sample.simps [simp del]

lemma drop_sample_shorter: "length (jb_list (drop_sample ts b)) \<le> length (jb_list b) - 1"
proof (induction ts b rule: drop_sample.induct)
  case (1 ts b)
  let ?b' = "dropHead (count_drop b)"
  show ?case
  proof (cases "jb_list b = [] \<or> jb_list ?b' = [] \<or> jp_TS (hd (jb_list ?b')) \<noteq> ts")
    case True
    then show ?thesis by (simp add: drop_sample.simps [of ts b] Let_def)
  next
    case False
    with 1 [OF refl] show ?thesis by (simp add: drop_sample.simps [of ts b] Let_def)
  qed
qed

function drop_old :: "bool \<times> jitter \<Rightarrow> bool \<times> jitter" where
  "drop_old (dropped, b) = (case jb_list b of
       [] \<Rightarrow> (dropped, b)
     | c # _ \<Rightarrow>
         (if jp_start c \<and> before32 (jb_minTS b) (jp_TS c) \<or> \<not> jp_start c \<and> \<not> before32 (jp_TS c) (jb_minTS b)
          then (dropped, b)
          else drop_old (True, drop_sample (jp_TS c) b)))"
  by pat_completeness auto
termination
proof (relation "measure (\<lambda>(d, b). length (jb_list b))")
  fix b :: jitter and c cs
  assume "jb_list b = c # cs"
  then show "((True, drop_sample (jp_TS c) b), dropped, b) \<in> measure (\<lambda>(d, b). length (jb_list b))" for dropped
    using drop_sample_shorter [of "jp_TS c" b] by simp
qed simp

declare drop_old.simps [simp del]

text \<open>The first half of \<open>drop\<close>: the packets before the head are lost for good when the head is about to be too old.\<close>

definition drop_lost :: "jpacket \<Rightarrow> jitter \<Rightarrow> bool \<times> jitter" where
  "drop_lost h b =
     (if jp_SN h \<noteq> jb_prevSN b + 1
         \<and> (jp_start h \<and> before32 (jp_TS h - jb_maxSampleSize b) (jb_minTS b)
            \<or> \<not> jp_start h \<and> before32 (jp_TS h) (jb_minTS b))
      then
        let (dropped, b) = drop_broken (if \<not> jp_reset h then (True, count_drop b) else (False, b))
        in (dropped, if jb_list b \<noteq> [] then b\<lparr>jb_prevSN := jp_SN (hd (jb_list b)) - 1\<rparr> else b)
      else (False, b))"

definition jb_drop :: "jitter \<Rightarrow> jitter" where
  "jb_drop b = (case jb_list b of
       [] \<Rightarrow> b
     | h # _ \<Rightarrow>
         let (dropped, b) = drop_old (drop_lost h b)
         in if dropped then b\<lparr>jb_callbacks := jb_callbacks b + 1\<rparr> else b)"

text \<open>\<open>getEnd\<close>: how many packets at the head may leave, up to the last complete sample.\<close>

fun getEnd_loop :: "jitter \<Rightarrow> u16 \<Rightarrow> bool \<Rightarrow> nat \<Rightarrow> nat option \<Rightarrow> jpacket list \<Rightarrow> nat option" where
  "getEnd_loop b prevSN prevComplete n found [] = found"
| "getEnd_loop b prevSN prevComplete n found (c # cs) =
     (if jp_SN c \<noteq> prevSN + 1
         \<and> (\<not> prevComplete \<or> \<not> jp_reset c \<or> \<not> before32 (jp_TS c - jb_maxSampleSize b) (jb_minTS b))
      then found
      else getEnd_loop b (jp_SN c) (jp_end c) (n + 1) (if jp_end c then Some (n + 1) else found) cs)"

definition getEnd :: "jitter \<Rightarrow> nat option" where
  "getEnd b = getEnd_loop b (jb_prevSN b) True 0 None (jb_list b)"

text \<open>The loop of \<open>pop\<close> over the first \<open>n\<close> packets.\<close>

fun pop_loop :: "nat \<Rightarrow> jitter \<Rightarrow> rtp_packet list \<times> jitter" where
  "pop_loop 0 b = ([], b)"
| "pop_loop (Suc n) b = (case jb_list b of
       [] \<Rightarrow> ([], b)
     | c # rest \<Rightarrow>
         let b = adjust_minTS c rest (b\<lparr>jb_list := rest\<rparr>);
             b = (if n = 0 then b\<lparr>jb_prevSN := jp_SN c\<rparr> else b);
             (ps, b) = pop_loop n (jb_free c b)
         in (if \<not> jp_padding c then jp_packet c # ps else ps, b))"

definition jb_pop :: "jitter \<Rightarrow> rtp_packet list \<times> jitter" where
  "jb_pop b0 =
     (if \<not> jb_initialized b0 then ([], b0)
      else let b = jb_drop b0 in
        if jb_list b = [] \<or> \<not> jp_start (hd (jb_list b)) then ([], b)
        else case getEnd b of None \<Rightarrow> ([], b) | Some n \<Rightarrow> pop_loop n b)"

fun forcePop_loop :: "jpacket list \<Rightarrow> jitter \<Rightarrow> rtp_packet list \<times> jitter" where
  "forcePop_loop [] b = ([], b)"
| "forcePop_loop (c # cs) b = (let (ps, b) = forcePop_loop cs (jb_free c b) in (jp_packet c # ps, b))"

definition forcePop :: "jitter \<Rightarrow> rtp_packet list \<times> jitter" where
  "forcePop b = (let (ps, b) = forcePop_loop (jb_list b) b in (ps, b\<lparr>jb_list := []\<rparr>))"

definition jb_Pop :: "bool \<Rightarrow> jitter \<Rightarrow> rtp_packet list \<times> jitter" where
  "jb_Pop force b = (if force then forcePop b else jb_pop b)"

text \<open>The same, with the packets grouped into samples.\<close>

fun forcePopSamples_loop :: "jpacket list \<Rightarrow> rtp_packet list \<Rightarrow> jitter \<Rightarrow> rtp_packet list list \<times> jitter" where
  "forcePopSamples_loop [] sample b = ([], b)"
| "forcePopSamples_loop (c # cs) sample b =
     (let (closed, sample) = (if jp_start c \<and> length sample > 0 then ([sample], []) else ([], sample));
          sample = sample @ [jp_packet c];
          (closed, sample) = (if jp_end c then (closed @ [sample], []) else (closed, sample));
          (rest, b) = forcePopSamples_loop cs sample (jb_free c b)
      in (closed @ rest, b))"

definition forcePopSamples :: "jitter \<Rightarrow> rtp_packet list list \<times> jitter" where
  "forcePopSamples b = (let (ss, b) = forcePopSamples_loop (jb_list b) [] b in (ss, b\<lparr>jb_list := []\<rparr>))"

fun popSamples_loop :: "nat \<Rightarrow> rtp_packet list \<Rightarrow> jitter \<Rightarrow> rtp_packet list list \<times> jitter" where
  "popSamples_loop 0 sample b = ([], b)"
| "popSamples_loop (Suc n) sample b = (case jb_list b of
       [] \<Rightarrow> ([], b)
     | c # rest \<Rightarrow>
         let sample = (if \<not> jp_padding c then sample @ [jp_packet c] else sample);
             b = adjust_minTS c rest (b\<lparr>jb_list := rest\<rparr>);
             (closed, sample) = (if jp_end c then ([sample], []) else ([], sample));
             b = (if n = 0 then b\<lparr>jb_prevSN := jp_SN c\<rparr> else b);
             (ss, b) = popSamples_loop n sample (jb_free c b)
         in (closed @ ss, b))"

definition popSamples :: "jitter \<Rightarrow> rtp_packet list list \<times> jitter" where
  "popSamples b0 =
     (if \<not> jb_initialized b0 then ([], b0)
      else let b = jb_drop b0 in
        if jb_list b = [] \<or> \<not> jp_start (hd (jb_list b)) then ([], b)
        else case getEnd b of None \<Rightarrow> ([], b) | Some n \<Rightarrow> popSamples_loop n [] b)"

definition jb_PopSamples :: "bool \<Rightarrow> jitter \<Rightarrow> rtp_packet list list \<times> jitter" where
  "jb_PopSamples force b = (if force then forcePopSamples b else popSamples b)"

section \<open>Sequence numbers inside a window\<close>

text \<open>The position of a sequence number after \<open>base\<close>.\<close>

definition sn_off :: "u16 \<Rightarrow> u16 \<Rightarrow> nat" where
  "sn_off base a = unat (a - base)"

lemma and_top_bit16: "x AND 0x8000 = 0 \<longleftrightarrow> unat x < 0x8000" for x :: u16
proof -
  have "x AND 2 ^ 15 = 0 \<longleftrightarrow> \<not> bit x 15" by (rule and_exp_eq_0_iff_not_bit)
  also have "bit x 15 \<longleftrightarrow> bit (unat x) 15" by (simp add: bit_unsigned_iff)
  also have "\<dots> \<longleftrightarrow> odd (unat x div 2 ^ 15)" by (rule bit_iff_odd)
  finally have "x AND 0x8000 = 0 \<longleftrightarrow> even (unat x div 32768)" by simp
  moreover have "unat x < 2 ^ LENGTH(16)" by (rule unsigned_less)
  then have "unat x div 32768 < 2" by (simp add: less_mult_imp_div_less)
  ultimately show ?thesis by (cases "unat x < 32768") (auto simp: less_2_cases_iff div_eq_0_iff)
qed

lemma sn_diff:
  "unat (b - a) = (if sn_off base a \<le> sn_off base b then sn_off base b - sn_off base a
     else sn_off base b + 65536 - sn_off base a)"
proof -
  have "unat (b - a) = unat ((b - base) - (a - base))" by simp
  then show ?thesis unfolding sn_off_def by (simp only: unat_sub_if') simp
qed

lemma before16_off:
  "sn_off base a < 3000 \<Longrightarrow> sn_off base b < 3000 \<Longrightarrow> before16 a b \<longleftrightarrow> sn_off base a \<le> sn_off base b"
  unfolding before16_def and_top_bit16 sn_diff [of b a base] by auto

lemma outsideRange_off: "sn_off base a < 3000 \<Longrightarrow> sn_off base b < 3000 \<Longrightarrow> \<not> outsideRange a b"
  unfolding outsideRange_def word_less_nat_alt sn_diff [of b a base] sn_diff [of a b base] by auto

lemma sn_off_inject: "sn_off base a = sn_off base b \<Longrightarrow> a = b"
  unfolding sn_off_def by (metis diff_add_cancel word_unat_eq_iff)

section \<open>Reordering\<close>

text \<open>
  The packets in the buffer are in the window after the last one delivered and in strictly ascending order.
\<close>

definition in_window :: "jitter \<Rightarrow> u16 \<Rightarrow> bool" where
  "in_window b sn \<longleftrightarrow> 0 < sn_off (jb_prevSN b) sn \<and> sn_off (jb_prevSN b) sn < 3000"

definition jb_sorted :: "jitter \<Rightarrow> bool" where
  "jb_sorted b \<longleftrightarrow> jb_initialized b \<and> sorted_wrt (<) (map (\<lambda>c. sn_off (jb_prevSN b) (jp_SN c)) (jb_list b))
     \<and> (\<forall>c \<in> set (jb_list b). in_window b (jp_SN c))"

text \<open>A packet of the window that is not in the buffer is stored at its place.\<close>

lemma newPacket_fields:
  "newPacket st en pad pkt b = (p, b') \<Longrightarrow> jp_packet p = pkt \<and> jb_list b' = jb_list b \<and> jb_prevSN b' = jb_prevSN b
     \<and> jb_initialized b' = jb_initialized b"
  by (auto simp: newPacket_def Let_def split: list.splits)

lemma note_step_fields [simp]:
  "jb_list (note_step pkt c b) = jb_list b" "jb_prevSN (note_step pkt c b) = jb_prevSN b"
  "jb_initialized (note_step pkt c b) = jb_initialized b"
  by (simp_all add: note_step_def Let_def)

lemma insert_behind_split:
  "insert_behind skip p cs = Some (c, r) \<Longrightarrow> \<exists>as bs. cs = as @ c # bs \<and> r = as @ p c # c # bs \<and> \<not> skip c \<and> (\<forall>a \<in> set as. skip a)"
proof (induction cs arbitrary: r)
  case (Cons x cs)
  show ?case
  proof (cases "skip x")
    case True
    with Cons.prems obtain r' where r': "insert_behind skip p cs = Some (c, r')" "r = x # r'" by auto
    from Cons.IH [OF r'(1)] obtain as bs where "cs = as @ c # bs" "r' = as @ p c # c # bs" "\<not> skip c" "\<forall>a \<in> set as. skip a" by blast
    then show ?thesis using r'(2) True by (intro exI [of _ "x # as"] exI [of _ bs]) auto
  next
    case False
    with Cons.prems show ?thesis by (intro exI [of _ "[]"] exI [of _ cs]) auto
  qed
qed simp

lemma insert_behind_exists: "\<exists>c \<in> set cs. \<not> skip c \<Longrightarrow> \<exists>c r. insert_behind skip p cs = Some (c, r)"
  by (induction cs) auto


lemma before16_prev: "in_window b sn \<Longrightarrow> \<not> before16 sn (jb_prevSN b)" "in_window b sn \<Longrightarrow> \<not> outsideRange sn (jb_prevSN b)"
  by (auto simp: in_window_def sn_off_def before16_off [of "jb_prevSN b"] outsideRange_off [of "jb_prevSN b"])

text \<open>What \<open>Push\<close> does to the list of an initialised buffer when the packet and the stored ones are in the window.\<close>

definition push_list :: "rtp_packet \<Rightarrow> jpacket list \<Rightarrow> jpacket list \<Rightarrow> bool" where
  "push_list pkt xs ys \<longleftrightarrow> (\<exists>as bs p. xs = as @ bs \<and> ys = as @ p # bs \<and> jp_packet p = pkt
     \<and> (\<forall>a \<in> set as. \<not> before16 (rp_SequenceNumber pkt) (jp_SN a))
     \<and> (bs \<noteq> [] \<longrightarrow> before16 (rp_SequenceNumber pkt) (jp_SN (hd bs))))"

lemma sorted_last: "sorted_wrt (<) (map g xs) \<Longrightarrow> a \<in> set xs \<Longrightarrow> (g a :: nat) \<le> g (last xs)"
  by (induction xs) (auto simp: last_in_set less_imp_le)

lemma push_window:
  assumes init: "jb_initialized b" and w: "in_window b (rp_SequenceNumber pkt)"
    and ws: "\<forall>c \<in> set (jb_list b). in_window b (jp_SN c)"
    and mono: "sorted_wrt (<) (map (\<lambda>c. sn_off (jb_prevSN b) (jp_SN c)) (jb_list b))"
  shows "push_list pkt (jb_list b) (jb_list (jb_Push dp pkt b)) \<and> jb_prevSN (jb_Push dp pkt b) = jb_prevSN b
    \<and> jb_initialized (jb_Push dp pkt b)"
proof -
  let ?sn = "rp_SequenceNumber pkt" and ?pad = "rp_Payload pkt = []" and ?xs = "jb_list b"
  let ?st = "?pad \<or> IsPartitionHead dp (rp_Payload pkt)" and ?en = "?pad \<or> IsPartitionTail dp (rp_Marker pkt) (rp_Payload pkt)"
  let ?b0 = "b\<lparr>jb_packetsTotal := jb_packetsTotal b + 1\<rparr>"
  obtain p b1 where np: "newPacket ?st ?en ?pad pkt ?b0 = (p, b1)" by (cases "newPacket ?st ?en ?pad pkt ?b0")
  have f: "jp_packet p = pkt" "jb_list b1 = ?xs" "jb_prevSN b1 = jb_prevSN b" "jb_initialized b1"
    using newPacket_fields [OF np] init by simp_all
  note prev = before16_prev [OF w]
  have inr: "\<not> outsideRange ?sn (jp_SN c)" if "c \<in> set ?xs" for c
    using ws that w by (intro outsideRange_off [of "jb_prevSN b"]) (auto simp: in_window_def)
  have bf: "before16 ?sn (jp_SN c) \<longleftrightarrow> sn_off (jb_prevSN b) ?sn \<le> sn_off (jb_prevSN b) (jp_SN c)" if "c \<in> set ?xs" for c
    using ws that w by (intro before16_off) (auto simp: in_window_def)
  show ?thesis
  proof (cases "?xs = []")
    case True
    then show ?thesis using np f prev init
      by (auto simp: jb_Push_def Let_def push_list_def)
  next
    case ne: False
    let ?h = "hd ?xs" and ?t = "last ?xs"
    have mem: "?h \<in> set ?xs" "?t \<in> set ?xs" using ne by simp_all
    note base = np f prev init ne inr [OF mem(1)] inr [OF mem(2)]
    consider "\<not> before16 ?sn (jp_SN ?t)" | "before16 ?sn (jp_SN ?t)" "before16 ?sn (jp_SN ?h)"
      | "before16 ?sn (jp_SN ?t)" "\<not> before16 ?sn (jp_SN ?h)" by blast
    then show ?thesis
    proof cases
      case 1
      have all: "\<forall>a \<in> set ?xs. \<not> before16 ?sn (jp_SN a)"
      proof
        fix a assume a: "a \<in> set ?xs"
        with sorted_last [OF mono] have "sn_off (jb_prevSN b) (jp_SN a) \<le> sn_off (jb_prevSN b) (jp_SN ?t)" .
        with 1 bf [OF mem(2)] bf [OF a] show "\<not> before16 ?sn (jp_SN a)" by simp
      qed
      have "jb_list (jb_Push dp pkt b) = ?xs @ [p]" "jb_prevSN (jb_Push dp pkt b) = jb_prevSN b" "jb_initialized (jb_Push dp pkt b)"
        using 1 by (simp_all add: jb_Push_def Let_def base)
      then show ?thesis using all f(1) unfolding push_list_def
        by (intro conjI exI [of _ ?xs] exI [of _ "[]"] exI [of _ p]) simp_all
    next
      case 2
      have "jb_list (jb_Push dp pkt b) = p\<lparr>jp_reset := False\<rparr> # ?xs" "jb_prevSN (jb_Push dp pkt b) = jb_prevSN b" "jb_initialized (jb_Push dp pkt b)"
        using 2 by (simp_all add: jb_Push_def Let_def base)
      then show ?thesis using 2(2) f(1) unfolding push_list_def
        by (intro conjI exI [of _ "[]"] exI [of _ ?xs] exI [of _ "p\<lparr>jp_reset := False\<rparr>"]) simp_all
    next
      case 3
      let ?skip = "\<lambda>c. before16 ?sn (jp_SN c) \<and> \<not> outsideRange ?sn (jp_SN c)"
      let ?p = "\<lambda>c. if jp_start p \<and> outsideRange ?sn (jp_SN c) then p\<lparr>jp_reset := True\<rparr> else p"
      have xs: "?xs = butlast ?xs @ [?t]" using ne by simp
      have "?h \<in> set (butlast ?xs)" using 3 ne by (cases ?xs) (auto split: if_splits)
      then have "\<exists>c \<in> set (rev (butlast ?xs)). \<not> ?skip c" using 3 by auto
      from insert_behind_exists [OF this, of ?p] obtain c r where ib: "insert_behind ?skip ?p (rev (butlast ?xs)) = Some (c, r)" by blast
      from insert_behind_split [OF ib] obtain as bs where sp: "rev (butlast ?xs) = as @ c # bs" "r = as @ ?p c # c # bs" "\<not> ?skip c"
        "\<forall>a \<in> set as. ?skip a" by blast
      from sp(1) have bl: "butlast ?xs = rev bs @ c # rev as" by (metis append.assoc append_Cons append_Nil rev_append rev_rev_ident rev.simps(2))
      then have xs': "?xs = rev bs @ c # rev as @ [?t]" using xs by simp
      then have cm: "c \<in> set ?xs" by (metis in_set_conv_decomp)
      have mono': "sorted_wrt (<) (map (\<lambda>c. sn_off (jb_prevSN b) (jp_SN c)) (rev bs @ c # rev as @ [?t]))"
        by (subst xs' [symmetric]) (rule mono)
      have pc: "?p c = p" using inr [OF cm] by simp
      have lst: "jb_list (jb_Push dp pkt b) = rev r @ [?t]" "jb_prevSN (jb_Push dp pkt b) = jb_prevSN b" "jb_initialized (jb_Push dp pkt b)"
        using 3 ib inr [OF cm] by (simp_all add: jb_Push_def Let_def base)
      have "\<forall>a \<in> set (rev bs @ [c]). \<not> before16 ?sn (jp_SN a)"
      proof
        fix a assume a: "a \<in> set (rev bs @ [c])"
        then have am: "a \<in> set ?xs" using xs' by (metis (no_types, lifting) Un_iff append.assoc append_Cons append_Nil set_append)
        have "\<not> before16 ?sn (jp_SN c)" using sp(3) inr [OF cm] by simp
        moreover have "sn_off (jb_prevSN b) (jp_SN a) \<le> sn_off (jb_prevSN b) (jp_SN c)"
          using mono' a by (auto simp: sorted_wrt_append)
        ultimately show "\<not> before16 ?sn (jp_SN a)" using bf [OF cm] bf [OF am] by simp
      qed
      moreover have "before16 ?sn (jp_SN (hd (rev as @ [?t])))"
      proof (cases as rule: rev_cases)
        case Nil
        then show ?thesis using 3 by simp
      next
        case (snoc ys y)
        then show ?thesis using sp(4) by simp
      qed
      moreover have "rev r @ [?t] = (rev bs @ [c]) @ p # (rev as @ [?t])" using sp(2) pc by simp
      moreover have "?xs = (rev bs @ [c]) @ (rev as @ [?t])" using xs' by simp
      ultimately show ?thesis using lst f(1) unfolding push_list_def
        by (intro conjI exI [of _ "rev bs @ [c]"] exI [of _ "rev as @ [?t]"] exI [of _ p]) simp_all
    qed
  qed
qed


abbreviation jb_off :: "jitter \<Rightarrow> jpacket \<Rightarrow> nat" where
  "jb_off b c \<equiv> sn_off (jb_prevSN b) (jp_SN c)"

lemma push_sorted:
  assumes s: "jb_sorted b" and w: "in_window b (rp_SequenceNumber pkt)" and new: "\<forall>c \<in> set (jb_list b). jp_SN c \<noteq> rp_SequenceNumber pkt"
  shows "jb_sorted (jb_Push dp pkt b) \<and> jb_prevSN (jb_Push dp pkt b) = jb_prevSN b
    \<and> mset (map jp_packet (jb_list (jb_Push dp pkt b))) = add_mset pkt (mset (map jp_packet (jb_list b)))"
proof -
  let ?sn = "rp_SequenceNumber pkt" and ?o = "sn_off (jb_prevSN b)"
  from s have init: "jb_initialized b" and mono: "sorted_wrt (<) (map (jb_off b) (jb_list b))"
    and ws: "\<forall>c \<in> set (jb_list b). in_window b (jp_SN c)" by (auto simp: jb_sorted_def)
  from push_window [OF init w ws mono, of dp] obtain as bs p
    where xs: "jb_list b = as @ bs" and ys: "jb_list (jb_Push dp pkt b) = as @ p # bs" and p: "jp_packet p = pkt"
      and lo: "\<forall>a \<in> set as. \<not> before16 ?sn (jp_SN a)" and hi: "bs \<noteq> [] \<longrightarrow> before16 ?sn (jp_SN (hd bs))"
      and prev: "jb_prevSN (jb_Push dp pkt b) = jb_prevSN b" and init': "jb_initialized (jb_Push dp pkt b)"
    unfolding push_list_def by blast
  have bf: "before16 ?sn (jp_SN c) \<longleftrightarrow> ?o ?sn \<le> jb_off b c" if "c \<in> set (jb_list b)" for c
    using ws that w by (intro before16_off) (auto simp: in_window_def)
  have lo': "jb_off b a < ?o ?sn" if "a \<in> set as" for a using lo bf [of a] that xs by auto
  have hi': "?o ?sn < jb_off b a" if a: "a \<in> set bs" for a
  proof -
    have "bs \<noteq> []" "hd bs \<in> set bs" using a by (cases bs; auto)+
    then have "?o ?sn \<le> jb_off b (hd bs)" using hi bf [of "hd bs"] xs by auto
    moreover have "jb_off b (hd bs) \<le> jb_off b a" using mono xs a by (cases bs) (auto simp: sorted_wrt_append)
    moreover have "?o ?sn \<noteq> jb_off b a" using new xs a sn_off_inject by (metis Un_iff set_append)
    ultimately show ?thesis by simp
  qed
  have "sorted_wrt (<) (map (jb_off b) (as @ p # bs))"
    using mono xs lo' hi' p by (auto simp: sorted_wrt_append intro: less_trans)
  moreover have "\<forall>c \<in> set (as @ p # bs). in_window b (jp_SN c)" using ws xs w p by auto
  ultimately have "jb_sorted (jb_Push dp pkt b)" using prev init' ys by (simp add: jb_sorted_def in_window_def)
  then show ?thesis using prev ys xs p by simp
qed

lemma pushes_sorted:
  assumes "jb_sorted b" and "\<forall>p \<in> set ps. in_window b (rp_SequenceNumber p)" and "distinct (map rp_SequenceNumber ps)"
    and "\<forall>c \<in> set (jb_list b). \<forall>p \<in> set ps. jp_SN c \<noteq> rp_SequenceNumber p"
  shows "jb_sorted (foldl (\<lambda>b p. jb_Push dp p b) b ps) \<and> jb_prevSN (foldl (\<lambda>b p. jb_Push dp p b) b ps) = jb_prevSN b
    \<and> mset (map jp_packet (jb_list (foldl (\<lambda>b p. jb_Push dp p b) b ps))) = mset (map jp_packet (jb_list b)) + mset ps"
  using assms
proof (induction ps arbitrary: b)
  case (Cons p ps)
  let ?b = "jb_Push dp p b"
  have p: "jb_sorted ?b" "jb_prevSN ?b = jb_prevSN b"
    "mset (map jp_packet (jb_list ?b)) = add_mset p (mset (map jp_packet (jb_list b)))"
    using push_sorted [OF Cons.prems(1), of p dp] Cons.prems(2,4) by auto
  have "jp_packet ` set (jb_list ?b) = insert p (jp_packet ` set (jb_list b))"
    using arg_cong [OF p(3), of set_mset] by simp
  then have "\<forall>c \<in> set (jb_list ?b). jp_packet c = p \<or> jp_packet c \<in> jp_packet ` set (jb_list b)" by blast
  then have sep: "\<forall>c \<in> set (jb_list ?b). \<forall>q \<in> set ps. jp_SN c \<noteq> rp_SequenceNumber q"
    using Cons.prems(3,4) by fastforce
  have "\<forall>q \<in> set ps. in_window ?b (rp_SequenceNumber q)" using Cons.prems(2) p(2) by (simp add: in_window_def)
  from Cons.IH [OF p(1) this _ sep] Cons.prems(3) p(2,3) show ?case by simp
qed simp

lemma forcePop_all: "fst (forcePop b) = map jp_packet (jb_list b)"
proof -
  have "fst (forcePop_loop cs b) = map jp_packet cs" for cs b
    by (induction cs arbitrary: b) (auto simp: split_beta)
  then show ?thesis by (simp add: forcePop_def split_beta)
qed

lemma first_push:
  assumes "rp_Payload p \<noteq> []" and "IsPartitionHead dp (rp_Payload p)"
  shows "jb_sorted (jb_Push dp p (jb_NewBuffer l)) \<and> jb_prevSN (jb_Push dp p (jb_NewBuffer l)) = rp_SequenceNumber p - 1
    \<and> map jp_packet (jb_list (jb_Push dp p (jb_NewBuffer l))) = [p]"
proof -
  have "sn_off (rp_SequenceNumber p - 1) (rp_SequenceNumber p) = 1" by (simp add: sn_off_def)
  with assms show ?thesis
    by (simp add: jb_Push_def jb_NewBuffer_def newPacket_def Let_def jb_sorted_def in_window_def)
qed

text \<open>
  C13. The jitter buffer puts packets back into order. If the packet with the lowest number arrives first and is a non-empty
  head of a partition, and packets with distinct numbers from the 3000 that follow it (the numbers may wrap around) arrive in
  any order behind it, then all of them are stored, each once, and a forced pop returns them in the order of their sequence
  numbers. A packet below the first one is dropped instead, and a duplicate is stored again (\<open>duplicate_stored\<close>).
\<close>

theorem jitter_reorders:
  assumes "rp_Payload p \<noteq> []" and "IsPartitionHead dp (rp_Payload p)"
    and "distinct (map rp_SequenceNumber (p # ps))"
    and "\<forall>q \<in> set ps. sn_off (rp_SequenceNumber p - 1) (rp_SequenceNumber q) \<in> {1..<3000}"
  shows "fst (jb_Pop True (foldl (\<lambda>b q. jb_Push dp q b) (jb_NewBuffer l) (p # ps))) =
     sort_key (\<lambda>q. sn_off (rp_SequenceNumber p - 1) (rp_SequenceNumber q)) (p # ps)"
proof -
  let ?b = "jb_Push dp p (jb_NewBuffer l)" and ?f = "\<lambda>q. sn_off (rp_SequenceNumber p - 1) (rp_SequenceNumber q)"
  let ?c = "foldl (\<lambda>b q. jb_Push dp q b) ?b ps"
  note first = first_push [OF assms(1,2), of l]
  have "jb_sorted ?c \<and> jb_prevSN ?c = jb_prevSN ?b \<and> mset (map jp_packet (jb_list ?c)) = mset (map jp_packet (jb_list ?b)) + mset ps"
  proof (rule pushes_sorted)
    show "jb_sorted ?b" using first by simp
    show "\<forall>q \<in> set ps. in_window ?b (rp_SequenceNumber q)" using assms(4) first by (auto simp: in_window_def)
    show "distinct (map rp_SequenceNumber ps)" using assms(3) by simp
    have "jp_packet c = p" if "c \<in> set (jb_list ?b)" for c using first that by auto
    then show "\<forall>c \<in> set (jb_list ?b). \<forall>q \<in> set ps. jp_SN c \<noteq> rp_SequenceNumber q" using assms(3) by force
  qed
  then have c: "jb_sorted ?c" "jb_prevSN ?c = rp_SequenceNumber p - 1" "mset (p # ps) = mset (map jp_packet (jb_list ?c))"
    using first by auto
  have "sort_key ?f (p # ps) = map jp_packet (jb_list ?c)"
  proof (rule sort_key_inj_key_eq [OF c(3)])
    show "inj_on ?f (set (p # ps))"
      using assms(3) sn_off_inject by (intro inj_onI) (metis distinct_map inj_onD)
    have "sorted_wrt (<) (map ?f (map jp_packet (jb_list ?c)))" using c(1,2) by (simp add: jb_sorted_def comp_def)
    then show "sorted (map ?f (map jp_packet (jb_list ?c)))" by (rule strict_sorted_imp_sorted)
  qed
  then show ?thesis by (simp add: jb_Pop_def forcePop_all)
qed


abbreviation demo_rtp :: "u16 \<Rightarrow> rtp_packet" where
  "demo_rtp sn \<equiv> \<lparr>rp_SequenceNumber = sn, rp_Timestamp = 1000, rp_Marker = False, rp_Payload = [1]\<rparr>"

abbreviation demo_dp :: depacketizer where
  "demo_dp \<equiv> \<lparr>IsPartitionHead = (\<lambda>_. True), IsPartitionTail = (\<lambda>_ _. True)\<rparr>"

theorem jitter_reorders_witness:
  "map rp_SequenceNumber (fst (jb_Pop True (foldl (\<lambda>b q. jb_Push demo_dp q b) (jb_NewBuffer 0)
     [demo_rtp 0xFFFE, demo_rtp 2, demo_rtp 0, demo_rtp 0xFFFF, demo_rtp 1]))) = [0xFFFE, 0xFFFF, 0, 1, 2]"
proof -
  have "fst (jb_Pop True (foldl (\<lambda>b q. jb_Push demo_dp q b) (jb_NewBuffer 0)
     [demo_rtp 0xFFFE, demo_rtp 2, demo_rtp 0, demo_rtp 0xFFFF, demo_rtp 1])) =
     sort_key (\<lambda>q. sn_off (rp_SequenceNumber (demo_rtp 0xFFFE) - 1) (rp_SequenceNumber q))
       [demo_rtp 0xFFFE, demo_rtp 2, demo_rtp 0, demo_rtp 0xFFFF, demo_rtp 1]"
    by (rule jitter_reorders) (simp_all add: sn_off_def)
  then show ?thesis by (simp add: sn_off_def)
qed

section \<open>Popping\<close>

text \<open>
  The packets that \<open>getEnd\<close> admits: each follows its predecessor or is a reset at the start of a sample.
\<close>

definition follows :: "u16 \<Rightarrow> bool \<Rightarrow> jpacket \<Rightarrow> bool" where
  "follows prevSN complete c \<longleftrightarrow> jp_SN c = prevSN + 1 \<or> complete \<and> jp_reset c"

fun gapless :: "u16 \<Rightarrow> bool \<Rightarrow> jpacket list \<Rightarrow> bool" where
  "gapless prevSN complete [] = True"
| "gapless prevSN complete (c # cs) = (follows prevSN complete c \<and> gapless (jp_SN c) (jp_end c) cs)"

lemma getEnd_loop_ok:
  assumes "getEnd_loop b sn whole n found cs = r"
  shows "r = found \<or> (\<exists>k. r = Some (n + k) \<and> 0 < k \<and> k \<le> length cs \<and> jp_end (cs ! (k - 1)) \<and> gapless sn whole (take k cs))"
  using assms
proof (induction cs arbitrary: sn whole n found)
  case (Cons c cs)
  show ?case
  proof (cases "jp_SN c \<noteq> sn + 1 \<and> (\<not> whole \<or> \<not> jp_reset c \<or> \<not> before32 (jp_TS c - jb_maxSampleSize b) (jb_minTS b))")
    case True
    with Cons.prems show ?thesis by simp
  next
    case False
    then have f: "follows sn whole c" by (auto simp: follows_def)
    have "getEnd_loop b (jp_SN c) (jp_end c) (n + 1) (if jp_end c then Some (n + 1) else found) cs = r"
      using Cons.prems by (simp only: getEnd_loop.simps False if_False)
    from Cons.IH [OF this] consider "r = (if jp_end c then Some (n + 1) else found)"
      | k where "r = Some (n + 1 + k)" "0 < k" "k \<le> length cs" "jp_end (cs ! (k - 1))" "gapless (jp_SN c) (jp_end c) (take k cs)" by blast
    then show ?thesis
    proof cases
      case 1
      then show ?thesis using f by (cases "jp_end c") (auto intro!: exI [of _ "1::nat"])
    next
      case (2 k)
      then show ?thesis using f by (intro disjI2 exI [of _ "k + 1"]) (auto simp: nth_Cons')
    qed
  qed
qed simp

lemma jb_free_fields [simp]: "jb_list (jb_free c b) = jb_list b" "jb_prevSN (jb_free c b) = jb_prevSN b"
  by (simp_all add: jb_free_def)

lemma adjust_minTS_fields [simp]: "jb_list (adjust_minTS c r b) = jb_list b" "jb_prevSN (adjust_minTS c r b) = jb_prevSN b"
  by (simp_all add: adjust_minTS_def split: list.splits)

lemma pop_loop_ok:
  "n \<le> length (jb_list b) \<Longrightarrow> fst (pop_loop n b) = map jp_packet (filter (\<lambda>c. \<not> jp_padding c) (take n (jb_list b)))
     \<and> jb_list (snd (pop_loop n b)) = drop n (jb_list b)
     \<and> jb_prevSN (snd (pop_loop n b)) = (if n = 0 then jb_prevSN b else jp_SN (jb_list b ! (n - 1)))"
proof (induction n arbitrary: b)
  case (Suc n)
  then obtain c rest where l: "jb_list b = c # rest" by (cases "jb_list b") auto
  let ?b1 = "adjust_minTS c rest (b\<lparr>jb_list := rest\<rparr>)"
  let ?b2 = "jb_free c (if n = 0 then ?b1\<lparr>jb_prevSN := jp_SN c\<rparr> else ?b1)"
  have l2: "jb_list ?b2 = rest" "n = 0 \<Longrightarrow> jb_prevSN ?b2 = jp_SN c" by simp_all
  have pl: "pop_loop (Suc n) b = (if \<not> jp_padding c then jp_packet c # fst (pop_loop n ?b2) else fst (pop_loop n ?b2), snd (pop_loop n ?b2))"
    using l by (simp add: split_beta Let_def)
  have "n \<le> length (jb_list ?b2)" using Suc.prems l l2(1) by simp
  note ih = Suc.IH [OF this]
  show ?case unfolding pl using ih l l2 by (auto simp: nth_Cons')
qed simp

lemma drop_broken_suffix: "\<exists>k. jb_list (snd (drop_broken db)) = drop k (jb_list (snd db))"
proof (induction db rule: drop_broken.induct)
  case (1 dropped b)
  show ?case
  proof (cases "jb_list b \<noteq> [] \<and> \<not> jp_start (hd (jb_list b)) \<and> before32 (jp_TS (hd (jb_list b)) - jb_maxSampleSize b) (jb_minTS b)")
    case True
    let ?b' = "dropHead ((count_drop b)\<lparr>jb_prevSN := jp_SN (hd (jb_list b)) - 1\<rparr>)"
    have "drop_broken (dropped, b) = drop_broken (True, ?b')" using True by (subst drop_broken.simps) simp
    moreover from 1 [OF True] obtain k where "jb_list (snd (drop_broken (True, ?b'))) = drop k (tl (jb_list b))" by auto
    ultimately show ?thesis by (intro exI [of _ "k + 1"]) (simp add: drop_Suc)
  next
    case False
    then have "drop_broken (dropped, b) = (dropped, b)" by (subst drop_broken.simps) auto
    then show ?thesis by (intro exI [of _ 0]) simp
  qed
qed

lemma drop_sample_suffix: "\<exists>k. jb_list (drop_sample ts b) = drop k (jb_list b)"
proof (induction ts b rule: drop_sample.induct)
  case (1 ts b)
  let ?b' = "dropHead (count_drop b)"
  show ?case
  proof (cases "jb_list b = [] \<or> jb_list ?b' = [] \<or> jp_TS (hd (jb_list ?b')) \<noteq> ts")
    case True
    then have "jb_list (drop_sample ts b) = drop 1 (jb_list b)" by (subst drop_sample.simps) (simp add: Let_def drop_Suc)
    then show ?thesis by blast
  next
    case False
    with 1 [OF refl] obtain k where "jb_list (drop_sample ts ?b') = drop k (jb_list ?b')" by blast
    moreover have "drop_sample ts b = drop_sample ts ?b'" using False by (subst drop_sample.simps) (simp add: Let_def)
    ultimately show ?thesis by (intro exI [of _ "k + 1"]) (simp add: drop_Suc)
  qed
qed


lemma drop_old_suffix: "\<exists>k. jb_list (snd (drop_old db)) = drop k (jb_list (snd db))"
proof (induction db rule: drop_old.induct)
  case (1 dropped b)
  show ?case
  proof (cases "jb_list b")
    case Nil
    then have "drop_old (dropped, b) = (dropped, b)" by (subst drop_old.simps) simp
    then show ?thesis by (intro exI [of _ 0]) simp
  next
    case (Cons c cs)
    show ?thesis
    proof (cases "jp_start c \<and> before32 (jb_minTS b) (jp_TS c) \<or> \<not> jp_start c \<and> \<not> before32 (jp_TS c) (jb_minTS b)")
      case True
      then have "drop_old (dropped, b) = (dropped, b)" using Cons by (subst drop_old.simps) simp
      then show ?thesis by (intro exI [of _ 0]) simp
    next
      case False
      have "drop_old (dropped, b) = drop_old (True, drop_sample (jp_TS c) b)" using Cons False by (subst drop_old.simps) (simp only: list.case if_False)
      moreover from 1 [OF Cons False] obtain k where "jb_list (snd (drop_old (True, drop_sample (jp_TS c) b))) = drop k (jb_list (drop_sample (jp_TS c) b))"
        by auto
      moreover obtain m where "jb_list (drop_sample (jp_TS c) b) = drop m (jb_list b)" using drop_sample_suffix by blast
      ultimately show ?thesis by (intro exI [of _ "k + m"]) simp
    qed
  qed
qed

lemma drop_lost_suffix: "\<exists>k. jb_list (snd (drop_lost h b)) = drop k (jb_list b)"
proof -
  let ?d = "if \<not> jp_reset h then (True, count_drop b) else (False, b)"
  have "jb_list (snd ?d) = jb_list b" by simp
  then obtain k where "jb_list (snd (drop_broken ?d)) = drop k (jb_list b)" using drop_broken_suffix [of ?d] by metis
  then show ?thesis unfolding drop_lost_def by (auto simp: split_beta Let_def intro: exI [of _ 0])
qed

lemma jb_drop_suffix: "\<exists>k. jb_list (jb_drop b) = drop k (jb_list b)"
proof (cases "jb_list b")
  case Nil
  then show ?thesis by (simp add: jb_drop_def)
next
  case (Cons h r)
  obtain m where m: "jb_list (snd (drop_old (drop_lost h b))) = drop m (jb_list (snd (drop_lost h b)))" using drop_old_suffix by blast
  obtain k where k: "jb_list (snd (drop_lost h b)) = drop k (jb_list b)" using drop_lost_suffix by blast
  have "jb_list (jb_drop b) = jb_list (snd (drop_old (drop_lost h b)))" by (simp add: jb_drop_def Cons split_beta)
  then show ?thesis using m k by (intro exI [of _ "m + k"]) simp
qed

text \<open>
  What \<open>Pop\<close> delivers has no gap: after too old packets have been dropped from the head, the packets that leave are
  the first ones of the list without the padding, they begin and end with the boundary of a sample, and each sequence
  number is the successor of the one before (the first one of the last packet delivered), except where a sample that
  was marked as a reset of the stream begins. The rest stays in the buffer.
\<close>

theorem jitter_pops_gapless:
  assumes "jb_initialized b"
  shows "\<exists>k n. jb_list (jb_drop b) = drop k (jb_list b)
    \<and> fst (jb_Pop False b) = map jp_packet (filter (\<lambda>c. \<not> jp_padding c) (take n (jb_list (jb_drop b))))
    \<and> jb_list (snd (jb_Pop False b)) = drop n (jb_list (jb_drop b))
    \<and> n \<le> length (jb_list (jb_drop b))
    \<and> gapless (jb_prevSN (jb_drop b)) True (take n (jb_list (jb_drop b)))
    \<and> (0 < n \<longrightarrow> jp_start (hd (jb_list (jb_drop b))) \<and> jp_end (jb_list (jb_drop b) ! (n - 1))
         \<and> jb_prevSN (snd (jb_Pop False b)) = jp_SN (jb_list (jb_drop b) ! (n - 1)))"
proof -
  let ?b = "jb_drop b"
  obtain k where k: "jb_list ?b = drop k (jb_list b)" using jb_drop_suffix by blast
  show ?thesis
  proof (cases "jb_list ?b = [] \<or> \<not> jp_start (hd (jb_list ?b)) \<or> getEnd ?b = None")
    case True
    then have "jb_Pop False b = ([], ?b)" using assms by (auto simp: jb_Pop_def jb_pop_def Let_def)
    then show ?thesis using k by (intro exI [of _ k] exI [of _ "0::nat"]) simp
  next
    case False
    then obtain n where n: "getEnd ?b = Some n" by auto
    then have "Some n = None \<or> (\<exists>m. Some n = Some (0 + m) \<and> 0 < m \<and> m \<le> length (jb_list ?b) \<and> jp_end (jb_list ?b ! (m - 1))
        \<and> gapless (jb_prevSN ?b) True (take m (jb_list ?b)))"
      unfolding getEnd_def by (rule getEnd_loop_ok)
    then have g: "0 < n" "n \<le> length (jb_list ?b)" "jp_end (jb_list ?b ! (n - 1))" "gapless (jb_prevSN ?b) True (take n (jb_list ?b))"
      by auto
    have "jb_Pop False b = pop_loop n ?b" using assms False n by (simp add: jb_Pop_def jb_pop_def Let_def)
    then show ?thesis using k g False pop_loop_ok [OF g(2)] by (intro exI [of _ k] exI [of _ n]) auto
  qed
qed

theorem jitter_pops_gapless_witness:
  "jb_initialized (foldl (\<lambda>b q. jb_Push demo_dp q b) (jb_NewBuffer 0) [demo_rtp 7, demo_rtp 9, demo_rtp 8])
   \<and> (\<exists>n. fst (jb_Pop False (foldl (\<lambda>b q. jb_Push demo_dp q b) (jb_NewBuffer 0) [demo_rtp 7, demo_rtp 9, demo_rtp 8])) =
      map jp_packet (filter (\<lambda>c. \<not> jp_padding c) (take n
        (jb_list (jb_drop (foldl (\<lambda>b q. jb_Push demo_dp q b) (jb_NewBuffer 0) [demo_rtp 7, demo_rtp 9, demo_rtp 8]))))))"
proof -
  have i: "jb_initialized (foldl (\<lambda>b q. jb_Push demo_dp q b) (jb_NewBuffer 0) [demo_rtp 7, demo_rtp 9, demo_rtp 8])"
    by code_simp
  with jitter_pops_gapless [OF i] show ?thesis by blast
qed

text \<open>
  A node that comes from the pool keeps the mark \<open>reset\<close> of its last use, so a packet can count as the reset of a
  stream that it merely continues: here packet 11, directly behind packet 10.
\<close>

lemma recycled_reset:
  "let b = jb_Push demo_dp (demo_rtp 10) (jb_NewBuffer 0); (_, b) = jb_Pop True b;
       b = jb_Push demo_dp (demo_rtp 11) b
   in map jp_reset (jb_list b) = [True]"
  by code_simp

text \<open>A packet that arrives twice while the first copy is in the buffer is stored twice and delivered twice.\<close>

lemma duplicate_stored:
  "map rp_SequenceNumber (fst (jb_Pop True (foldl (\<lambda>b q. jb_Push demo_dp q b) (jb_NewBuffer 0) [demo_rtp 7, demo_rtp 8, demo_rtp 8]))) = [7, 8, 8]"
  by code_simp

end
