(* ===== verification/WebsocketMask.thy ===== *)
theory WebsocketMask
  imports Prelude
begin

text \<open>
  Payload masking of \<open>lib/websocket\<close>: \<open>mask.go\<close>, which works on whole machine words after reaching a word boundary,
  and \<open>mask_safe.go\<close>, the byte-wise version of the same function. Both are proved equal to the definition of
  masking in RFC 6455, for every address of the buffer.
\<close>

section \<open>Machine words in memory\<close>

text \<open>
  A load and a store of a \<open>uintptr\<close> through an \<open>unsafe.Pointer\<close>: eight bytes, the lowest first.
\<close>

abbreviation (input) wordSize :: nat where "wordSize \<equiv> 8"

definition load_word :: "bytes \<Rightarrow> u64" where
  "load_word b = foldr (\<lambda>i w. w OR push_bit (8 * i) (ucast (b ! i))) [0..<wordSize] 0"

definition store_word :: "u64 \<Rightarrow> bytes" where
  "store_word w = map (\<lambda>i. ucast (drop_bit (8 * i) w)) [0..<wordSize]"

section \<open>The two versions of maskBytes\<close>

text \<open>The loop \<open>for i := range b\<close>, with the position it leaves behind.\<close>

fun mask_loop :: "bytes \<Rightarrow> nat \<Rightarrow> bytes \<Rightarrow> bytes \<times> nat" where
  "mask_loop key pos [] = ([], pos)"
| "mask_loop key pos (x # b) =
     (let (r, p) = mask_loop key (pos + 1) b in ((x XOR key ! (pos AND 3)) # r, p))"

text \<open>One round of the word loop changes eight bytes in place.\<close>

definition mask_word :: "u64 \<Rightarrow> bytes \<Rightarrow> nat \<Rightarrow> bytes" where
  "mask_word kw b i = take i b @ store_word (load_word (take wordSize (drop i b)) XOR kw) @ drop (i + wordSize) b"

text \<open>
  \<open>maskBytes(key, pos, b)\<close> on a buffer that starts at the given address: the buffer afterwards and the new position.
\<close>

definition maskBytes :: "nat \<Rightarrow> bytes \<Rightarrow> nat \<Rightarrow> bytes \<Rightarrow> bytes \<times> nat" where
  "maskBytes addr key pos b =
     (if length b < 2 * wordSize
      then (let (r, p) = mask_loop key pos b in (r, p AND 3))
      else
        let n = addr mod wordSize;
            n = (if n \<noteq> 0 then wordSize - n else 0);
            (pre, pos) = mask_loop key pos (take n b);
            b = drop n b;
            k = map (\<lambda>i. key ! ((pos + i) AND 3)) [0..<wordSize];
            kw = load_word k;
            n = (length b div wordSize) * wordSize;
            b = foldl (mask_word kw) b (map (\<lambda>i. i * wordSize) [0..<n div wordSize]);
            (post, pos) = mask_loop key pos (drop n b)
        in (pre @ take n b @ post, pos AND 3))"

definition maskBytes_safe :: "bytes \<Rightarrow> nat \<Rightarrow> bytes \<Rightarrow> bytes \<times> nat" where
  "maskBytes_safe key pos b = (let (r, p) = mask_loop key pos b in (r, p AND 3))"

section \<open>Masking as the standard defines it\<close>

text \<open>Octet \<open>i\<close> of the payload is combined with octet \<open>i mod 4\<close> of the key.\<close>

definition masked :: "bytes \<Rightarrow> nat \<Rightarrow> bytes \<Rightarrow> bytes" where
  "masked key pos b = map (\<lambda>i. b ! i XOR key ! ((pos + i) mod 4)) [0..<length b]"

lemma and_3 [simp]: "(n::nat) AND 3 = n mod 4"
  using take_bit_eq_mask [of 2 n] by (simp add: take_bit_eq_mod mask_eq_exp_minus_1)

lemma length_masked [simp]: "length (masked key pos b) = length b"
  by (simp add: masked_def)

lemma nth_masked [simp]: "i < length b \<Longrightarrow> masked key pos b ! i = b ! i XOR key ! ((pos + i) mod 4)"
  by (simp add: masked_def)

lemma masked_Nil [simp]: "masked key pos [] = []"
  by (simp add: masked_def)

lemma masked_append: "masked key pos (b @ b') = masked key pos b @ masked key (pos + length b) b'"
  by (rule nth_equalityI) (auto simp: nth_append)

lemma masked_masked [simp]: "masked key pos (masked key pos b) = b"
  by (rule nth_equalityI) (auto simp: xor.assoc)

lemma masked_mod [simp]: "masked key (pos mod 4) b = masked key pos b"
  by (rule nth_equalityI) (auto simp: mod_simps)

lemma masked_shift: "masked key (pos + 4 * m) b = masked key pos b"
proof (rule nth_equalityI)
  fix i
  have "pos + 4 * m + i = (pos + i) + 4 * m" by simp
  then have "(pos + 4 * m + i) mod 4 = (pos + i) mod 4" by (metis mod_mult_self2)
  moreover assume "i < length (masked key (pos + 4 * m) b)"
  ultimately show "masked key (pos + 4 * m) b ! i = masked key pos b ! i" by simp
qed simp

lemma mask_loop_eq: "mask_loop key pos b = (masked key pos b, pos + length b)"
proof (induction b arbitrary: pos)
  case (Cons x b)
  have "masked key pos (x # b) = masked key pos [x] @ masked key (pos + 1) b"
    using masked_append [of key pos "[x]" b] by simp
  with Cons show ?case by (simp add: masked_def [of key pos "[x]"])
qed simp

section \<open>The word loop\<close>

lemma bit_load_word:
  assumes "n < 64"
  shows "bit (load_word b) n = bit (b ! (n div 8)) (n mod 8)"
proof -
  have fold: "bit (foldr (\<lambda>i w. w OR push_bit (8 * i) (ucast (b ! i))) xs (0::u64)) n
      \<longleftrightarrow> (\<exists>i\<in>set xs. 8 * i \<le> n \<and> n < 8 * i + 8 \<and> bit (b ! i) (n - 8 * i))" for xs
    using assms by (induction xs) (auto simp: bit_or_iff bit_push_bit_iff bit_ucast_iff dest: bit_imp_le_length)
  have at: "8 * i \<le> n \<and> n < 8 * i + 8 \<and> P \<longleftrightarrow> i = n div 8 \<and> P" for i P by auto
  have "bit (load_word b) n \<longleftrightarrow> n div 8 < 8 \<and> bit (b ! (n div 8)) (n - 8 * (n div 8))"
    unfolding load_word_def fold at by auto
  with assms show ?thesis by (auto simp: minus_mult_div_eq_mod)
qed

lemma length_store_word [simp]: "length (store_word w) = 8"
  by (simp add: store_word_def)

lemma nth_store_xor:
  assumes "i < 8" and "length b = 8"
  shows "store_word (load_word b XOR load_word k) ! i = b ! i XOR k ! i"
proof (rule bit_word_eqI)
  fix n
  assume "n < LENGTH(8)"
  then have n: "n < 8" by simp
  with assms(1) have "8 * i + n < 64" by linarith
  with n assms show "bit (store_word (load_word b XOR load_word k) ! i) n = bit (b ! i XOR k ! i) n"
    by (simp add: store_word_def bit_ucast_iff bit_drop_bit_eq bit_xor_iff bit_load_word)
qed

lemma length_mask_word [simp]: "i + 8 \<le> length b \<Longrightarrow> length (mask_word kw b i) = length b"
  by (simp add: mask_word_def)

lemma nth_mask_word:
  assumes "i + 8 \<le> length b" and "j < length b"
  shows "mask_word (load_word k) b i ! j = (if i \<le> j \<and> j < i + 8 then b ! j XOR k ! (j - i) else b ! j)"
  using assms by (auto simp: mask_word_def nth_append nth_store_xor)

lemma word_loop:
  assumes "m * 8 \<le> length b"
  shows "length (foldl (mask_word (load_word k)) b (map (\<lambda>i. i * 8) [0..<m])) = length b \<and>
    (\<forall>j < length b. foldl (mask_word (load_word k)) b (map (\<lambda>i. i * 8) [0..<m]) ! j =
       (if j < m * 8 then b ! j XOR k ! (j mod 8) else b ! j))"
  using assms
proof (induction m)
  case (Suc m)
  let ?b = "foldl (mask_word (load_word k)) b (map (\<lambda>i. i * 8) [0..<m])"
  from Suc have len: "length ?b = length b"
    and nth: "\<And>j. j < length b \<Longrightarrow> ?b ! j = (if j < m * 8 then b ! j XOR k ! (j mod 8) else b ! j)" by auto
  have mod8: "j - m * 8 = j mod 8" if "m * 8 \<le> j" "j < m * 8 + 8" for j
    using that by (metis add_less_cancel_left le_add_diff_inverse mod_less mod_mult_self3)
  show ?case using Suc.prems by (auto simp: len nth nth_mask_word mod8)
qed simp

lemma word_loop_masked:
  assumes "m * 8 \<le> length b"
  shows "foldl (mask_word (load_word (map (\<lambda>i. key ! ((pos + i) mod 4)) [0..<8]))) b (map (\<lambda>i. i * 8) [0..<m]) =
    masked key pos (take (m * 8) b) @ drop (m * 8) b"
proof -
  have "(pos + j mod 8) mod 4 = (pos + j) mod 4" for j :: nat
    by (metis mod_add_right_eq mod_mod_cancel dvd_triv_left numeral_Bit0 mult_2 numeral_times_numeral one_eq_numeral_iff
        semiring_norm(11) semiring_norm(13))
  with word_loop [OF assms] show ?thesis
    by (intro nth_equalityI) (use assms in \<open>auto simp: nth_append\<close>)
qed

lemma maskBytes_eq: "maskBytes addr key pos b = (masked key pos b, (pos + length b) mod 4)"
proof (cases "length b < 16")
  case True
  then show ?thesis by (simp add: maskBytes_def mask_loop_eq)
next
  case False
  define n where "n = (if addr mod 8 \<noteq> 0 then 8 - addr mod 8 else 0)"
  define m where "m = (length b - n) div 8"
  have n: "n \<le> length b" using False by (auto simp: n_def)
  have m: "m * 8 \<le> length (drop n b)" by (simp add: m_def)
  let ?k = "map (\<lambda>i. key ! ((pos + n + i) mod 4)) [0..<8]"
  let ?b = "foldl (mask_word (load_word ?k)) (drop n b) (map (\<lambda>i. i * 8) [0..<m])"
  have loop: "?b = masked key (pos + n) (take (m * 8) (drop n b)) @ drop (m * 8) (drop n b)"
    by (rule word_loop_masked [OF m])
  have tb: "take (m * 8) ?b = masked key (pos + n) (take (m * 8) (drop n b))"
    and db: "drop (m * 8) ?b = drop (m * 8) (drop n b)" using m unfolding loop by simp_all
  have run: "maskBytes addr key pos b =
      (masked key pos (take n b) @ take (m * 8) ?b @ masked key (pos + n) (drop (m * 8) ?b),
       (pos + n + length (drop (m * 8) ?b)) mod 4)"
    using False n unfolding maskBytes_def mask_loop_eq Let_def n_def [symmetric]
    by (simp add: m_def)
  have four: "(pos + n + (length b - n - m * 8)) mod 4 = (pos + length b) mod 4"
  proof -
    have "pos + length b = pos + n + (length b - n - m * 8) + 4 * (2 * m)" using n m by simp
    then show ?thesis by (metis mod_mult_self2)
  qed
  have "masked key (pos + n) (drop (m * 8) (drop n b)) = masked key (pos + n + m * 8) (drop (m * 8) (drop n b))"
    using masked_shift [of key "pos + n" "2 * m"] by (simp add: mult.commute)
  moreover have "masked key pos b = masked key pos (take n b) @ masked key (pos + n) (take (m * 8) (drop n b)) @
      masked key (pos + n + m * 8) (drop (m * 8) (drop n b))"
    using masked_append [of key pos "take n b" "drop n b"]
      masked_append [of key "pos + n" "take (m * 8) (drop n b)" "drop (m * 8) (drop n b)"] n m
    by (simp del: drop_drop)
  ultimately show ?thesis using run four unfolding tb db by (simp add: add.commute [of n])
qed

text \<open>
  C29. The word-wise masking is the byte-wise one: for every address of the buffer and every starting position
  \<open>maskBytes\<close> combines each byte with the key byte of its position and returns the position after the last byte. It agrees with the
  portable version, and masking the pieces of a payload one after the other, each from the returned position on, masks the whole;
  applied twice it gives the payload back.
\<close>

theorem mask_bytes_exact:
  "maskBytes addr key pos b = (map (\<lambda>i. b ! i XOR key ! ((pos + i) mod 4)) [0..<length b], (pos + length b) mod 4) \<and>
   maskBytes addr key pos b = maskBytes_safe key pos b \<and>
   maskBytes addr' key pos (b @ b') =
     (fst (maskBytes addr key pos b) @ fst (maskBytes addr'' key (snd (maskBytes addr key pos b)) b'),
      snd (maskBytes addr'' key (snd (maskBytes addr key pos b)) b')) \<and>
   fst (maskBytes addr' key pos (fst (maskBytes addr key pos b))) = b"
proof (intro conjI)
  show "maskBytes addr key pos b = (map (\<lambda>i. b ! i XOR key ! ((pos + i) mod 4)) [0..<length b], (pos + length b) mod 4)"
    by (simp add: maskBytes_eq masked_def)
  show "maskBytes addr key pos b = maskBytes_safe key pos b"
    by (simp add: maskBytes_eq maskBytes_safe_def mask_loop_eq)
  show "maskBytes addr' key pos (b @ b') =
      (fst (maskBytes addr key pos b) @ fst (maskBytes addr'' key (snd (maskBytes addr key pos b)) b'),
       snd (maskBytes addr'' key (snd (maskBytes addr key pos b)) b'))"
    by (simp add: maskBytes_eq masked_append mod_simps add.assoc)
  show "fst (maskBytes addr' key pos (fst (maskBytes addr key pos b))) = b"
    by (simp add: maskBytes_eq)
qed

end
