(* ===== verification/WebsocketConn.thy ===== *)
theory WebsocketConn
  imports WebsocketMask
begin

text \<open>
  The WebSocket connection of \<open>lib/websocket/conn.go\<close>. The network is part of the state: \<open>br\<close> holds the bytes still to be received
  and \<open>sent\<close> the bytes written so far; how many bytes one read returns (\<open>chunk\<close>), what the writes and deadlines of the network
  answer, the random mask keys and the time are read from fields that the code never changes. The message writers
  and readers that the application holds are numbered, so that the connection and the application may refer to the same one.
  The compression library behind \<open>newCompressionWriter\<close> and \<open>newDecompressionReader\<close> is a parameter: the pieces it writes
  and the result of reading it.
\<close>

section \<open>Constants and errors\<close>

abbreviation (input) maxFrameHeaderSize :: nat where "maxFrameHeaderSize \<equiv> 14"
abbreviation (input) maxControlFramePayloadSize :: nat where "maxControlFramePayloadSize \<equiv> 125"
abbreviation (input) writeWait :: duration where "writeWait \<equiv> second"
abbreviation (input) continuationFrame :: nat where "continuationFrame \<equiv> 0"
abbreviation (input) noFrame :: int where "noFrame \<equiv> - 1"
abbreviation (input) TextMessage :: nat where "TextMessage \<equiv> 1"
abbreviation (input) BinaryMessage :: nat where "BinaryMessage \<equiv> 2"
abbreviation (input) CloseMessage :: nat where "CloseMessage \<equiv> 8"
abbreviation (input) PingMessage :: nat where "PingMessage \<equiv> 9"
abbreviation (input) PongMessage :: nat where "PongMessage \<equiv> 10"
abbreviation (input) finalBit :: byte where "finalBit \<equiv> 128"
abbreviation (input) rsv1Bit :: byte where "rsv1Bit \<equiv> 64"
abbreviation (input) rsv2Bit :: byte where "rsv2Bit \<equiv> 32"
abbreviation (input) rsv3Bit :: byte where "rsv3Bit \<equiv> 16"
abbreviation (input) maskBit :: byte where "maskBit \<equiv> 128"
abbreviation (input) CloseProtocolError :: int where "CloseProtocolError \<equiv> 1002"
abbreviation (input) CloseNoStatusReceived :: int where "CloseNoStatusReceived \<equiv> 1005"
abbreviation (input) CloseAbnormalClosure :: int where "CloseAbnormalClosure \<equiv> 1006"
abbreviation (input) CloseMessageTooBig :: int where "CloseMessageTooBig \<equiv> 1009"

text \<open>\<open>EOF\<close> is \<open>io.EOF\<close>, \<open>NetErr\<close> an error of the network connection, \<open>Panicked\<close> a Go panic.\<close>

datatype ws_error =
    ErrCloseSent
  | ErrReadLimit
  | CloseError int bytes
  | ErrWriteTimeout
  | ErrBadWriteOpCode
  | ErrWriteClosed
  | ErrInvalidControlFrame
  | NewError string
  | EOF
  | NetErr string
  | Panicked string

definition str_bytes :: "string \<Rightarrow> bytes" where
  "str_bytes s = map of_char s"

definition errUnexpectedEOF :: ws_error where
  "errUnexpectedEOF = CloseError CloseAbnormalClosure (str_bytes ''unexpected EOF'')"

definition IsCloseError :: "ws_error \<Rightarrow> int list \<Rightarrow> bool" where
  "IsCloseError err codes = (case err of CloseError code _ \<Rightarrow> code \<in> set codes | _ \<Rightarrow> False)"

definition IsUnexpectedCloseError :: "ws_error \<Rightarrow> int list \<Rightarrow> bool" where
  "IsUnexpectedCloseError err expectedCodes =
     (case err of CloseError code _ \<Rightarrow> code \<notin> set expectedCodes | _ \<Rightarrow> False)"

definition isControl :: "nat \<Rightarrow> bool" where
  "isControl frameType \<longleftrightarrow> frameType = CloseMessage \<or> frameType = PingMessage \<or> frameType = PongMessage"

definition isData :: "nat \<Rightarrow> bool" where
  "isData frameType \<longleftrightarrow> frameType = TextMessage \<or> frameType = BinaryMessage"

definition validReceivedCloseCodes :: "int \<Rightarrow> bool" where
  "validReceivedCloseCodes code =
     (case map_of [(1000, True), (1001, True), (1002, True), (1003, True), (1005, False), (1006, False), (1007, True),
        (1008, True), (1009, True), (1010, True), (1011, True), (1012, True), (1013, True), (1015, False)] code of
        Some v \<Rightarrow> v | None \<Rightarrow> False)"

definition isValidReceivedCloseCode :: "int \<Rightarrow> bool" where
  "isValidReceivedCloseCode code \<longleftrightarrow> validReceivedCloseCodes code \<or> (3000 \<le> code \<and> code \<le> 4999)"

definition FormatCloseMessage :: "int \<Rightarrow> bytes \<Rightarrow> bytes" where
  "FormatCloseMessage closeCode txt =
     (if closeCode = CloseNoStatusReceived then [] else put_u16 (word_of_int closeCode) @ txt)"

text \<open>\<open>binary.BigEndian.PutUint64\<close> and \<open>Uint64\<close>.\<close>

definition put_u64 :: "u64 \<Rightarrow> bytes" where
  "put_u64 v = put_u32 (ucast (drop_bit 32 v)) @ put_u32 (ucast v)"

definition get_u64 :: "bytes \<Rightarrow> u64" where
  "get_u64 b = ucast (get_u32 (drop 4 b)) OR push_bit 32 (ucast (get_u32 b))"

text \<open>\<open>utf8.ValidString\<close>: continuation bytes, with the tighter ranges for the second byte of some sequences.\<close>

definition between :: "byte \<Rightarrow> byte \<Rightarrow> byte \<Rightarrow> bool" where
  "between lo x hi \<longleftrightarrow> lo \<le> x \<and> x \<le> hi"

fun utf8_ValidString :: "bytes \<Rightarrow> bool" where
  "utf8_ValidString [] = True"
| "utf8_ValidString (x # b) =
     (if x < 0x80 then utf8_ValidString b
      else if between 0xC2 x 0xDF then
        (case b of y # b' \<Rightarrow> between 0x80 y 0xBF \<and> utf8_ValidString b' | _ \<Rightarrow> False)
      else if between 0xE0 x 0xEF then
        (case b of y # z # b' \<Rightarrow>
             between (if x = 0xE0 then 0xA0 else 0x80) y (if x = 0xED then 0x9F else 0xBF) \<and> between 0x80 z 0xBF \<and>
             utf8_ValidString b' | _ \<Rightarrow> False)
      else if between 0xF0 x 0xF4 then
        (case b of y # z # u # b' \<Rightarrow>
             between (if x = 0xF0 then 0x90 else 0x80) y (if x = 0xF4 then 0x8F else 0xBF) \<and> between 0x80 z 0xBF \<and>
             between 0x80 u 0xBF \<and> utf8_ValidString b' | _ \<Rightarrow> False)
      else False)"

section \<open>The connection\<close>

record messageWriter =
  mw_compress :: bool
  mw_pos :: nat
  mw_frameType :: nat
  mw_err :: "ws_error option"

text \<open>
  A handler \<open>None\<close> is the default one, \<open>Some h\<close> one that the application has set and that does not use the connection.
  \<open>netWrite n\<close> is the answer to the n-th write: \<open>None\<close> when everything was written, \<open>Some (k, e)\<close> when an error came after \<open>k\<close> bytes.
  \<open>brEager\<close> says that the network reports its error together with the last bytes. \<open>muTimeout\<close> says that another
  goroutine holds the write lock beyond the deadline of a control message.
\<close>

record Conn =
  isServer :: bool
  writeBuf :: "bytes option"
  writePool :: bool
  pooled :: "bytes list"
  writeBufSize :: nat
  writeDeadline :: "duration option"
  writer :: "nat option"
  isWriting :: bool
  writeErr :: "ws_error option"
  enableWriteCompression :: bool
  newCompressionWriter :: "(bytes \<Rightarrow> bytes list) option"
  readErr :: "ws_error option"
  readRemaining :: int
  readFinal :: bool
  readLength :: int
  readLimit :: int
  readMaskPos :: nat
  readMaskKey :: bytes
  handlePong :: "(bytes \<Rightarrow> ws_error option) option"
  handlePing :: "(bytes \<Rightarrow> ws_error option) option"
  handleClose :: "(int \<Rightarrow> bytes \<Rightarrow> ws_error option) option"
  readErrCount :: nat
  messageReader :: "nat option"
  readDecompress :: bool
  newDecompressionReader :: "(bytes \<Rightarrow> ws_error option \<Rightarrow> bytes \<times> ws_error option) option"
  writers :: "messageWriter list"
  readers :: nat
  br :: bytes
  brErr :: ws_error
  brEager :: bool
  chunk :: "nat \<Rightarrow> nat"
  reads :: nat
  sent :: bytes
  netWrite :: "nat \<Rightarrow> (nat \<times> ws_error) option"
  netDeadline :: "nat \<Rightarrow> ws_error option"
  writes :: nat
  maskRand :: "nat \<Rightarrow> bytes"
  keys :: nat
  bufAddr :: nat
  poolGet :: "nat \<Rightarrow> bytes option"
  now :: duration
  muTimeout :: bool

definition newConn :: "bool \<Rightarrow> int \<Rightarrow> bool \<Rightarrow> bytes option \<Rightarrow> Conn \<Rightarrow> Conn" where
  "newConn isServ writeBufferSize writeBufferPool wbuf env =
     (let size = (if writeBufferSize \<le> 0 then 4096 else nat writeBufferSize) + maxFrameHeaderSize;
          wbuf = (if wbuf = None \<and> \<not> writeBufferPool then Some (replicate size 0) else wbuf)
      in env\<lparr>isServer := isServ, readFinal := True, writeBuf := wbuf, writePool := writeBufferPool, pooled := [],
           writeBufSize := size, enableWriteCompression := True, newCompressionWriter := None, writeDeadline := None,
           writer := None, isWriting := False, writeErr := None, readErr := None, readRemaining := 0, readLength := 0,
           readLimit := 0, readMaskPos := 0, readMaskKey := [0, 0, 0, 0], readErrCount := 0, messageReader := None,
           readDecompress := False, newDecompressionReader := None, writers := [], readers := 0,
           handlePong := None, handlePing := None, handleClose := None\<rparr>)"

section \<open>Writing\<close>

text \<open>A nil buffer has length 0.\<close>

definition wbuf :: "Conn \<Rightarrow> bytes" where
  "wbuf c = (case writeBuf c of None \<Rightarrow> [] | Some b \<Rightarrow> b)"

definition put_at :: "nat \<Rightarrow> bytes \<Rightarrow> bytes \<Rightarrow> bytes" where
  "put_at i xs b = take i b @ xs @ drop (i + length xs) b"

definition upd_writer :: "nat \<Rightarrow> (messageWriter \<Rightarrow> messageWriter) \<Rightarrow> Conn \<Rightarrow> Conn" where
  "upd_writer w f c = c\<lparr>writers := (writers c)[w := f (writers c ! w)]\<rparr>"

definition newMaskKey :: "Conn \<Rightarrow> bytes \<times> Conn" where
  "newMaskKey c = (take 4 (maskRand c (keys c) @ [0, 0, 0, 0]), c\<lparr>keys := keys c + 1\<rparr>)"

definition writeFatal :: "ws_error \<Rightarrow> Conn \<Rightarrow> Conn" where
  "writeFatal err c = (if writeErr c = None then c\<lparr>writeErr := Some err\<rparr> else c)"

definition net_write :: "bytes \<Rightarrow> Conn \<Rightarrow> ws_error option \<times> Conn" where
  "net_write p c =
     (case netWrite c (writes c) of
        None \<Rightarrow> (None, c\<lparr>writes := writes c + 1, sent := sent c @ p\<rparr>)
      | Some (k, e) \<Rightarrow> (Some e, c\<lparr>writes := writes c + 1, sent := sent c @ take k p\<rparr>))"

definition conn_write :: "nat \<Rightarrow> bytes \<Rightarrow> bytes \<Rightarrow> Conn \<Rightarrow> ws_error option \<times> Conn" where
  "conn_write frameType buf0 buf1 c =
     (case writeErr c of
        Some err \<Rightarrow> (Some err, c)
      | None \<Rightarrow>
          (case netDeadline c (writes c) of
             Some err \<Rightarrow> (Some err, writeFatal err c)
           | None \<Rightarrow>
               (case net_write (buf0 @ buf1) c of
                  (Some err, c) \<Rightarrow> (Some err, writeFatal err c)
                | (None, c) \<Rightarrow> (None, if frameType = CloseMessage then writeFatal ErrCloseSent c else c))))"

definition WriteControl :: "nat \<Rightarrow> bytes \<Rightarrow> duration option \<Rightarrow> Conn \<Rightarrow> ws_error option \<times> Conn" where
  "WriteControl messageType data deadline c =
     (if \<not> isControl messageType then (Some ErrBadWriteOpCode, c)
      else if length data > maxControlFramePayloadSize then (Some ErrInvalidControlFrame, c)
      else
        let b0 = of_nat messageType OR finalBit;
            b1 = of_nat (length data);
            b1 = (if \<not> isServer c then b1 OR maskBit else b1);
            (buf, c) =
              (if isServer c then ([b0, b1] @ data, c)
               else let (key, c) = newMaskKey c in ([b0, b1] @ key @ fst (maskBytes (bufAddr c) key 0 data), c))
        in if (case deadline of None \<Rightarrow> False | Some d \<Rightarrow> d - now c < 0 \<or> muTimeout c) then (Some ErrWriteTimeout, c)
           else conn_write messageType buf [] c)"

definition endMessage :: "ws_error \<Rightarrow> nat \<Rightarrow> Conn \<Rightarrow> Conn" where
  "endMessage err w c =
     (if mw_err (writers c ! w) \<noteq> None then c
      else
        let c = (upd_writer w (\<lambda>m. m\<lparr>mw_err := Some err\<rparr>) c)\<lparr>writer := None\<rparr>
        in if writePool c then c\<lparr>pooled := pooled c @ [wbuf c], writeBuf := None\<rparr> else c)"

text \<open>The fixed header and the length field, and the place in the buffer where the frame starts.\<close>

definition frame_header :: "byte \<Rightarrow> byte \<Rightarrow> nat \<Rightarrow> bytes" where
  "frame_header b0 b1 len =
     (if len \<ge> 65536 then [b0, b1 OR 127] @ put_u64 (of_nat len)
      else if len > 125 then [b0, b1 OR 126] @ put_u16 (of_nat len)
      else [b0, b1 OR of_nat len])"

definition frame_start :: "bool \<Rightarrow> nat \<Rightarrow> nat" where
  "frame_start isServ len =
     (let framePos = (if isServ then 4 else 0)
      in if len \<ge> 65536 then framePos else if len > 125 then framePos + 6 else framePos + 8)"

definition frame_b0 :: "bool \<Rightarrow> messageWriter \<Rightarrow> byte" where
  "frame_b0 final m =
     (let b0 = of_nat (mw_frameType m);
          b0 = (if final then b0 OR finalBit else b0)
      in if mw_compress m then b0 OR rsv1Bit else b0)"

text \<open>A new key goes in front of the payload, and the payload in the buffer is masked.\<close>

definition mask_frame :: "nat \<Rightarrow> bytes \<Rightarrow> Conn \<Rightarrow> bytes \<times> Conn" where
  "mask_frame pos buf c =
     (let (key, c) = newMaskKey c;
          buf = put_at (maxFrameHeaderSize - 4) key buf
      in (put_at maxFrameHeaderSize (fst (maskBytes (bufAddr c) key 0 (drop maxFrameHeaderSize (take pos buf)))) buf, c))"

definition flush_send :: "bool \<Rightarrow> nat \<Rightarrow> nat \<Rightarrow> bytes \<Rightarrow> nat \<Rightarrow> Conn \<Rightarrow> ws_error option \<times> Conn" where
  "flush_send final frameType framePos extra w c =
     (if isWriting c then (Some (Panicked ''concurrent write to websocket connection''), c)
      else
        let (err, c) = conn_write frameType (drop framePos (take (mw_pos (writers c ! w)) (wbuf c))) extra
              (c\<lparr>isWriting := True\<rparr>)
        in if \<not> isWriting c then (Some (Panicked ''concurrent write to websocket connection''), c)
           else
             let c = c\<lparr>isWriting := False\<rparr>
             in (case err of
                   Some e \<Rightarrow> (Some e, endMessage e w c)
                 | None \<Rightarrow>
                     if final then (None, endMessage ErrWriteClosed w c)
                     else (None, upd_writer w (\<lambda>m. m\<lparr>mw_pos := maxFrameHeaderSize, mw_frameType := continuationFrame\<rparr>) c)))"

definition flushFrame :: "bool \<Rightarrow> bytes \<Rightarrow> nat \<Rightarrow> Conn \<Rightarrow> ws_error option \<times> Conn" where
  "flushFrame final extra w c =
     (let m = writers c ! w;
          len = mw_pos m - maxFrameHeaderSize + length extra
      in if isControl (mw_frameType m) \<and> (\<not> final \<or> len > maxControlFramePayloadSize)
         then (Some ErrInvalidControlFrame, endMessage ErrInvalidControlFrame w c)
         else if length (wbuf c) < maxFrameHeaderSize then (Some (Panicked ''index out of range''), c)
         else
           let b0 = frame_b0 final m;
               c = upd_writer w (\<lambda>m. m\<lparr>mw_compress := False\<rparr>) c;
               b1 = (if \<not> isServer c then maskBit else 0);
               framePos = frame_start (isServer c) len;
               buf = put_at framePos (frame_header b0 b1 len) (wbuf c);
               (buf, c) = (if \<not> isServer c then mask_frame (mw_pos m) buf c else (buf, c));
               c = c\<lparr>writeBuf := Some buf\<rparr>
           in if \<not> isServer c \<and> extra \<noteq> []
              then let e = NewError ''websocket: internal error, extra used in client mode''
                   in (Some e, endMessage e w (writeFatal e c))
              else flush_send final (mw_frameType m) framePos extra w c)"

definition mw_ncopy :: "nat \<Rightarrow> nat \<Rightarrow> Conn \<Rightarrow> (ws_error + nat) \<times> Conn" where
  "mw_ncopy mx w c =
     (if length (wbuf c) \<le> mw_pos (writers c ! w)
      then (case flushFrame False [] w c of
              (Some err, c) \<Rightarrow> (Inl err, c)
            | (None, c) \<Rightarrow> (Inr (min mx (length (wbuf c) - mw_pos (writers c ! w))), c))
      else (Inr (min mx (length (wbuf c) - mw_pos (writers c ! w))), c))"

definition mw_put :: "bytes \<Rightarrow> nat \<Rightarrow> Conn \<Rightarrow> Conn" where
  "mw_put p w c =
     upd_writer w (\<lambda>m. m\<lparr>mw_pos := mw_pos m + length p\<rparr>)
       (c\<lparr>writeBuf := Some (put_at (mw_pos (writers c ! w)) p (wbuf c))\<rparr>)"

text \<open>
  The loop of \<open>Write\<close> and \<open>WriteString\<close>. With a buffer that has no room behind the header it would run forever; \<open>None\<close>
  stands for that.
\<close>

partial_function (option) mw_copy :: "bytes \<Rightarrow> nat \<Rightarrow> Conn \<Rightarrow> (ws_error option \<times> Conn) option" where
  "mw_copy p w c =
     (if p = [] then Some (None, c)
      else (case mw_ncopy (length p) w c of
              (Inl err, c) \<Rightarrow> Some (Some err, c)
            | (Inr n, c) \<Rightarrow> mw_copy (drop n p) w (mw_put (take n p) w c)))"

declare mw_copy.simps [code]

definition mw_WriteString :: "bytes \<Rightarrow> nat \<Rightarrow> Conn \<Rightarrow> (ws_error option \<times> Conn) option" where
  "mw_WriteString p w c =
     (case mw_err (writers c ! w) of Some err \<Rightarrow> Some (Some err, c) | None \<Rightarrow> mw_copy p w c)"

definition mw_Write :: "bytes \<Rightarrow> nat \<Rightarrow> Conn \<Rightarrow> (ws_error option \<times> Conn) option" where
  "mw_Write p w c =
     (case mw_err (writers c ! w) of
        Some err \<Rightarrow> Some (Some err, c)
      | None \<Rightarrow>
          if length p > 2 * length (wbuf c) \<and> isServer c then Some (flushFrame False p w c)
          else mw_copy p w c)"

definition mw_Close :: "nat \<Rightarrow> Conn \<Rightarrow> ws_error option \<times> Conn" where
  "mw_Close w c = (case mw_err (writers c ! w) of Some err \<Rightarrow> (Some err, c) | None \<Rightarrow> flushFrame True [] w c)"

definition begin_new :: "nat \<Rightarrow> Conn \<Rightarrow> (ws_error + nat) \<times> Conn" where
  "begin_new messageType c =
     (if \<not> isControl messageType \<and> \<not> isData messageType then (Inl ErrBadWriteOpCode, c)
      else (case writeErr c of
              Some err \<Rightarrow> (Inl err, c)
            | None \<Rightarrow>
                let w = length (writers c);
                    c = c\<lparr>writers := writers c @ [\<lparr>mw_compress = False, mw_pos = maxFrameHeaderSize,
                           mw_frameType = messageType, mw_err = None\<rparr>]\<rparr>
                in (Inr w,
                    if writeBuf c = None
                    then c\<lparr>writeBuf := Some (case poolGet c w of Some b \<Rightarrow> b | None \<Rightarrow> replicate (writeBufSize c) 0)\<rparr>
                    else c)))"

definition beginMessage :: "nat \<Rightarrow> Conn \<Rightarrow> (ws_error + nat) \<times> Conn" where
  "beginMessage messageType c =
     (case writer c of
        None \<Rightarrow> begin_new messageType c
      | Some w \<Rightarrow>
          (case mw_Close w c of
             (Some (Panicked s), c) \<Rightarrow> (Inl (Panicked s), c)
           | (_, c) \<Rightarrow> begin_new messageType (c\<lparr>writer := None\<rparr>)))"

definition compressing :: "nat \<Rightarrow> Conn \<Rightarrow> bool" where
  "compressing messageType c \<longleftrightarrow> newCompressionWriter c \<noteq> None \<and> enableWriteCompression c \<and> isData messageType"

definition NextWriter :: "nat \<Rightarrow> Conn \<Rightarrow> (ws_error + nat) \<times> Conn" where
  "NextWriter messageType c =
     (case beginMessage messageType c of
        (Inl err, c) \<Rightarrow> (Inl err, c)
      | (Inr w, c) \<Rightarrow>
          let c = c\<lparr>writer := Some w\<rparr>
          in (Inr w, if compressing messageType c then upd_writer w (\<lambda>m. m\<lparr>mw_compress := True\<rparr>) c else c))"

text \<open>
  What reaches the message writer when the application writes \<open>data\<close> to the writer of \<open>NextWriter\<close> and closes it: the data itself, or the
  pieces of its compressed form.
\<close>

definition write_pieces :: "nat \<Rightarrow> bytes \<Rightarrow> Conn \<Rightarrow> bytes list" where
  "write_pieces messageType data c =
     (case newCompressionWriter c of
        Some z \<Rightarrow> if compressing messageType c then z data else [data]
      | None \<Rightarrow> [data])"

fun mw_Writes :: "bytes list \<Rightarrow> nat \<Rightarrow> Conn \<Rightarrow> (ws_error option \<times> Conn) option" where
  "mw_Writes [] w c = Some (None, c)"
| "mw_Writes (p # ps) w c =
     (case mw_Write p w c of
        None \<Rightarrow> None
      | Some (Some err, c) \<Rightarrow> Some (Some err, c)
      | Some (None, c) \<Rightarrow> mw_Writes ps w c)"

definition WriteMessage :: "nat \<Rightarrow> bytes \<Rightarrow> Conn \<Rightarrow> (ws_error option \<times> Conn) option" where
  "WriteMessage messageType data c =
     (if isServer c \<and> (newCompressionWriter c = None \<or> \<not> enableWriteCompression c)
      then (case beginMessage messageType c of
              (Inl err, c) \<Rightarrow> Some (Some err, c)
            | (Inr w, c) \<Rightarrow>
                let n = min (length (wbuf c) - mw_pos (writers c ! w)) (length data)
                in Some (flushFrame True (drop n data) w (mw_put (take n data) w c)))
      else (case NextWriter messageType c of
              (Inl err, c) \<Rightarrow> Some (Some err, c)
            | (Inr w, c) \<Rightarrow>
                (case mw_Writes (write_pieces messageType data c) w c of
                   None \<Rightarrow> None
                 | Some (Some err, c) \<Rightarrow> Some (Some err, c)
                 | Some (None, c) \<Rightarrow> Some (mw_Close w c))))"

section \<open>Reading\<close>

definition conn_read :: "nat \<Rightarrow> Conn \<Rightarrow> bytes \<times> ws_error option \<times> Conn" where
  "conn_read n c =
     (take n (br c),
      if length (br c) < n then Some (if brErr c = EOF then errUnexpectedEOF else brErr c) else None,
      c\<lparr>br := drop n (br c)\<rparr>)"

text \<open>\<open>bufio.Reader.Read\<close> into a slice of length \<open>n\<close>: at least one byte as long as there is one.\<close>

definition br_Read :: "nat \<Rightarrow> Conn \<Rightarrow> bytes \<times> ws_error option \<times> Conn" where
  "br_Read n c =
     (if n = 0 then ([], None, c)
      else if br c = [] then ([], Some (brErr c), c)
      else
        let k = min n (chunk c (reads c) + 1);
            rest = drop k (br c)
        in (take k (br c), if rest = [] \<and> brEager c then Some (brErr c) else None, c\<lparr>br := rest, reads := reads c + 1\<rparr>))"

definition setReadRemaining :: "int \<Rightarrow> Conn \<Rightarrow> ws_error option \<times> Conn" where
  "setReadRemaining n c = (if n < 0 then (Some ErrReadLimit, c) else (None, c\<lparr>readRemaining := n\<rparr>))"

definition int64 :: "int \<Rightarrow> int" where
  "int64 = signed_take_bit 63"

text \<open>\<open>strings.Join(errors, ", ")\<close>.\<close>

fun join_errors :: "string list \<Rightarrow> string" where
  "join_errors [] = []"
| "join_errors [e] = e"
| "join_errors (e # es) = e @ '', '' @ join_errors es"

definition handleProtocolError :: "string \<Rightarrow> Conn \<Rightarrow> ws_error \<times> Conn" where
  "handleProtocolError message c =
     (let data = FormatCloseMessage CloseProtocolError (str_bytes message);
          data = (if length data > maxControlFramePayloadSize then take maxControlFramePayloadSize data else data)
      in (NewError (''websocket: '' @ message), snd (WriteControl CloseMessage data (Some (now c + writeWait)) c)))"

definition run_handlePong :: "bytes \<Rightarrow> Conn \<Rightarrow> ws_error option \<times> Conn" where
  "run_handlePong payload c = (case handlePong c of Some h \<Rightarrow> (h payload, c) | None \<Rightarrow> (None, c))"

definition run_handlePing :: "bytes \<Rightarrow> Conn \<Rightarrow> ws_error option \<times> Conn" where
  "run_handlePing payload c =
     (case handlePing c of
        Some h \<Rightarrow> (h payload, c)
      | None \<Rightarrow> (None, snd (WriteControl PongMessage payload (Some (now c + writeWait)) c)))"

definition run_handleClose :: "int \<Rightarrow> bytes \<Rightarrow> Conn \<Rightarrow> ws_error option \<times> Conn" where
  "run_handleClose code txt c =
     (case handleClose c of
        Some h \<Rightarrow> (h code txt, c)
      | None \<Rightarrow> (None, snd (WriteControl CloseMessage (FormatCloseMessage code []) (Some (now c + writeWait)) c)))"

text \<open>The steps of \<open>advanceFrame\<close>, as its comments number them. 1: skip the rest of the previous frame.\<close>

definition af_skip :: "Conn \<Rightarrow> ws_error option \<times> Conn" where
  "af_skip c =
     (if readRemaining c > 0
      then (if int (length (br c)) < readRemaining c then (Some (brErr c), c\<lparr>br := []\<rparr>)
            else (None, c\<lparr>br := drop (nat (readRemaining c)) (br c)\<rparr>))
      else (None, c))"

text \<open>2: the first two bytes of the header, with the list of everything that is wrong in them.\<close>

definition af_frameType :: "bytes \<Rightarrow> nat" where
  "af_frameType p = unat (p ! 0 AND 15)"

definition af_mask_set :: "bytes \<Rightarrow> bool" where
  "af_mask_set p \<longleftrightarrow> p ! 1 AND maskBit \<noteq> 0"

definition af_type_errors :: "nat \<Rightarrow> bool \<Rightarrow> Conn \<Rightarrow> string list \<times> Conn" where
  "af_type_errors frameType final c =
     (if isControl frameType
      then ((if readRemaining c > int maxControlFramePayloadSize then [''len > 125 for control''] else []) @
            (if \<not> final then [''FIN not set on control''] else []), c)
      else if isData frameType
      then (if \<not> readFinal c then [''data before FIN''] else [], c\<lparr>readFinal := final\<rparr>)
      else if frameType = continuationFrame
      then (if readFinal c then [''continuation after FIN''] else [], c\<lparr>readFinal := final\<rparr>)
      else ([''bad opcode '' @ itoa (int frameType)], c))"

definition af_header :: "bytes \<Rightarrow> Conn \<Rightarrow> string list \<times> Conn" where
  "af_header p c =
     (let rsv1 = (p ! 0 AND rsv1Bit \<noteq> 0);
          rsv2 = (p ! 0 AND rsv2Bit \<noteq> 0);
          rsv3 = (p ! 0 AND rsv3Bit \<noteq> 0);
          c = snd (setReadRemaining (uint (p ! 1 AND 127)) c);
          c = c\<lparr>readDecompress := rsv1 \<and> newDecompressionReader c \<noteq> None\<rparr>;
          errs = (if rsv1 \<and> newDecompressionReader c = None then [''RSV1 set''] else []) @
            (if rsv2 then [''RSV2 set''] else []) @ (if rsv3 then [''RSV3 set''] else []);
          (type_errs, c) = af_type_errors (af_frameType p) (p ! 0 AND finalBit \<noteq> 0) c
      in (errs @ type_errs @ (if af_mask_set p \<noteq> isServer c then [''bad MASK''] else []), c))"

text \<open>3: the extended length.\<close>

definition af_length :: "Conn \<Rightarrow> ws_error option \<times> Conn" where
  "af_length c =
     (if readRemaining c = 126
      then (case conn_read 2 c of
              (_, Some err, c) \<Rightarrow> (Some err, c)
            | (p, None, c) \<Rightarrow> setReadRemaining (uint (get_u16 p)) c)
      else if readRemaining c = 127
      then (case conn_read 8 c of
              (_, Some err, c) \<Rightarrow> (Some err, c)
            | (p, None, c) \<Rightarrow> setReadRemaining (sint (get_u64 p)) c)
      else (None, c))"

text \<open>4: the mask key.\<close>

definition af_mask :: "bool \<Rightarrow> Conn \<Rightarrow> ws_error option \<times> Conn" where
  "af_mask msk c =
     (if msk
      then (case conn_read 4 (c\<lparr>readMaskPos := 0\<rparr>) of
              (_, Some err, c) \<Rightarrow> (Some err, c)
            | (p, None, c) \<Rightarrow> (None, c\<lparr>readMaskKey := p\<rparr>))
      else (None, c))"

text \<open>5: text, binary and continuation frames count towards the read limit.\<close>

definition af_data :: "nat \<Rightarrow> Conn \<Rightarrow> (ws_error + nat) \<times> Conn" where
  "af_data frameType c =
     (let c = c\<lparr>readLength := int64 (readLength c + readRemaining c)\<rparr>
      in if readLength c < 0 then (Inl ErrReadLimit, c)
         else if readLimit c > 0 \<and> readLength c > readLimit c
         then (Inl ErrReadLimit,
               snd (WriteControl CloseMessage (FormatCloseMessage CloseMessageTooBig []) (Some (now c + writeWait)) c))
         else (Inr frameType, c))"

text \<open>6: the payload of a control frame.\<close>

definition af_payload :: "Conn \<Rightarrow> (ws_error + bytes) \<times> Conn" where
  "af_payload c =
     (if readRemaining c > 0
      then (let (payload, err, c) = conn_read (nat (readRemaining c)) c;
                c = snd (setReadRemaining 0 c)
            in case err of
                 Some e \<Rightarrow> (Inl e, c)
               | None \<Rightarrow> (Inr (if isServer c then fst (maskBytes (bufAddr c) (readMaskKey c) 0 payload) else payload), c))
      else (Inr [], c))"

text \<open>7: processing it.\<close>

definition af_close :: "bytes \<Rightarrow> Conn \<Rightarrow> ws_error \<times> Conn" where
  "af_close payload c =
     (let closed = (\<lambda>code txt. case run_handleClose code txt c of
             (Some err, c) \<Rightarrow> (err, c)
           | (None, c) \<Rightarrow> (CloseError code txt, c))
      in if length payload \<ge> 2
         then (let closeCode = uint (get_u16 payload); closeText = drop 2 payload
               in if \<not> isValidReceivedCloseCode closeCode
                  then handleProtocolError (''bad close code '' @ itoa closeCode) c
                  else if \<not> utf8_ValidString closeText
                  then handleProtocolError ''invalid utf8 payload in close frame'' c
                  else closed closeCode closeText)
         else closed CloseNoStatusReceived [])"

definition af_control :: "nat \<Rightarrow> Conn \<Rightarrow> (ws_error + nat) \<times> Conn" where
  "af_control frameType c =
     (case af_payload c of
        (Inl err, c) \<Rightarrow> (Inl err, c)
      | (Inr payload, c) \<Rightarrow>
          if frameType = PongMessage
          then (case run_handlePong payload c of (Some err, c) \<Rightarrow> (Inl err, c) | (None, c) \<Rightarrow> (Inr frameType, c))
          else if frameType = PingMessage
          then (case run_handlePing payload c of (Some err, c) \<Rightarrow> (Inl err, c) | (None, c) \<Rightarrow> (Inr frameType, c))
          else if frameType = CloseMessage
          then (case af_close payload c of (err, c) \<Rightarrow> (Inl err, c))
          else (Inr frameType, c))"

definition af_body :: "bytes \<Rightarrow> Conn \<Rightarrow> (ws_error + nat) \<times> Conn" where
  "af_body p c =
     (case af_length c of
        (Some err, c) \<Rightarrow> (Inl err, c)
      | (None, c) \<Rightarrow>
          (case af_mask (af_mask_set p) c of
             (Some err, c) \<Rightarrow> (Inl err, c)
           | (None, c) \<Rightarrow>
               if af_frameType p = continuationFrame \<or> af_frameType p = TextMessage \<or> af_frameType p = BinaryMessage
               then af_data (af_frameType p) c
               else af_control (af_frameType p) c))"

definition advanceFrame :: "Conn \<Rightarrow> (ws_error + nat) \<times> Conn" where
  "advanceFrame c =
     (case af_skip c of
        (Some err, c) \<Rightarrow> (Inl err, c)
      | (None, c) \<Rightarrow>
          (case conn_read 2 c of
             (_, Some err, c) \<Rightarrow> (Inl err, c)
           | (p, None, c) \<Rightarrow>
               (case af_header p c of
                  ([], c) \<Rightarrow> af_body p c
                | (errs, c) \<Rightarrow> (case handleProtocolError (join_errors errs) c of (err, c) \<Rightarrow> (Inl err, c)))))"

text \<open>What writing a control message leaves alone.\<close>

lemma writeFatal_frame: "\<exists>e. writeFatal err c = c\<lparr>writeErr := e\<rparr>"
proof (cases "writeErr c")
  case (Some e)
  then have "writeFatal err c = c\<lparr>writeErr := writeErr c\<rparr>" by (simp add: writeFatal_def)
  then show ?thesis by blast
qed (auto simp: writeFatal_def)

definition writing :: "ws_error option \<times> nat \<times> bytes \<times> nat \<Rightarrow> Conn \<Rightarrow> Conn" where
  "writing x c = (case x of (e, n, s, k) \<Rightarrow> c\<lparr>writeErr := e, writes := n, sent := s, keys := k\<rparr>)"

lemma writing_self: "c = writing (writeErr c, writes c, sent c, keys c) c"
  by (simp add: writing_def)

lemma writing_writing [simp]: "writing x (writing y c) = writing x c"
  by (simp add: writing_def split: prod.split)

lemma conn_write_frame: "\<exists>x. snd (conn_write t p q c) = writing x c"
proof -
  have fatal: "\<exists>x. writeFatal e c' = writing x c" if "c' = writing y c" for e c' y
  proof -
    obtain a where "writeFatal e c' = c'\<lparr>writeErr := a\<rparr>" using writeFatal_frame by blast
    also have "\<dots> = writing (a, writes c', sent c', keys c') c'" by (simp add: writing_def)
    finally show ?thesis using that by auto
  qed
  have net: "\<exists>y. snd (net_write r c) = writing y c" for r
  proof -
    have "snd (net_write r c) = writing (writeErr c, writes c + 1, sent (snd (net_write r c)), keys c) c"
      by (auto simp: net_write_def writing_def split: option.split)
    then show ?thesis by blast
  qed
  then obtain a1 a2 a3 a4 where y: "snd (net_write (p @ q) c) = writing (a1, a2, a3, a4) c" by (metis prod_cases4)
  show ?thesis
  proof (cases "writeErr c = None \<and> netDeadline c (writes c) = None")
    case False
    then show ?thesis using fatal [OF writing_self] writing_self [of c]
      by (auto simp: conn_write_def split: option.split)
  next
    case True
    with y fatal [OF y] show ?thesis
      by (auto simp: conn_write_def split: option.split prod.split) blast
  qed
qed

lemma WriteControl_frame: "\<exists>x. snd (WriteControl t data d c) = writing x c"
proof -
  have keys: "c\<lparr>keys := k\<rparr> = writing (writeErr c, writes c, sent c, k) c" for k by (simp add: writing_def)
  have conn: "\<exists>x. snd (conn_write t p [] (c\<lparr>keys := k\<rparr>)) = writing x c" for p k
    using conn_write_frame [of t p "[]" "c\<lparr>keys := k\<rparr>"] unfolding keys by auto
  show ?thesis
    using conn_write_frame [of t _ "[]" c] conn writing_self [of c] keys
    by (auto simp: WriteControl_def Let_def newMaskKey_def)
qed

lemma writing_simps [simp]:
  "isServer (writing x c) = isServer c" "readErr (writing x c) = readErr c" "readRemaining (writing x c) = readRemaining c"
  "readFinal (writing x c) = readFinal c" "readLength (writing x c) = readLength c" "readLimit (writing x c) = readLimit c"
  "readMaskPos (writing x c) = readMaskPos c" "readMaskKey (writing x c) = readMaskKey c"
  "handlePong (writing x c) = handlePong c" "handlePing (writing x c) = handlePing c"
  "handleClose (writing x c) = handleClose c" "readErrCount (writing x c) = readErrCount c"
  "messageReader (writing x c) = messageReader c" "readDecompress (writing x c) = readDecompress c"
  "newDecompressionReader (writing x c) = newDecompressionReader c" "readers (writing x c) = readers c"
  "br (writing x c) = br c" "brErr (writing x c) = brErr c" "brEager (writing x c) = brEager c"
  "chunk (writing x c) = chunk c" "reads (writing x c) = reads c" "bufAddr (writing x c) = bufAddr c"
  by (simp_all add: writing_def split: prod.split)

lemma br_WriteControl [simp]: "br (snd (WriteControl t data d c)) = br c"
  using WriteControl_frame [of t data d c] by auto

text \<open>Every frame that is accepted has consumed its header.\<close>

lemma br_af_length: "length (br (snd (af_length c))) \<le> length (br c)"
  by (simp add: af_length_def conn_read_def setReadRemaining_def)

lemma br_af_mask: "length (br (snd (af_mask b c))) \<le> length (br c)"
  by (simp add: af_mask_def conn_read_def)

lemma br_af_data: "br (snd (af_data t c)) = br c"
  by (simp add: af_data_def Let_def)

lemma br_af_payload: "length (br (snd (af_payload c))) \<le> length (br c)"
  by (simp add: af_payload_def conn_read_def setReadRemaining_def Let_def)

lemma br_handlers [simp]:
  "br (snd (run_handlePong p c)) = br c" "br (snd (run_handlePing p c)) = br c" "br (snd (run_handleClose k p c)) = br c"
  "br (snd (handleProtocolError s c)) = br c"
  by (simp_all add: run_handlePong_def run_handlePing_def run_handleClose_def handleProtocolError_def Let_def split: option.split)

lemma br_af_control: "af_control t c = (Inr t', c') \<Longrightarrow> length (br c') \<le> length (br c)"
  using br_af_payload [of c] br_handlers(1,2) [of _ "snd (af_payload c)"]
  by (auto simp: af_control_def split: prod.splits sum.splits option.splits if_splits) (metis br_handlers(1,2) snd_conv)+

lemma af_body_br: "af_body p c = (Inr t, c') \<Longrightarrow> length (br c') \<le> length (br c)"
proof -
  assume body: "af_body p c = (Inr t, c')"
  then obtain c1 c2 where l: "af_length c = (None, c1)" and m: "af_mask (af_mask_set p) c1 = (None, c2)"
    and "af_data (af_frameType p) c2 = (Inr t, c') \<or> af_control (af_frameType p) c2 = (Inr t, c')"
    by (auto simp: af_body_def split: prod.splits option.splits if_splits)
  then have "length (br c') \<le> length (br c2)"
    using br_af_data [of "af_frameType p" c2] br_af_control by auto
  with br_af_length [of c] br_af_mask [of "af_mask_set p" c1] l m show ?thesis by simp
qed

lemma br_af_header [simp]: "br (snd (af_header p c)) = br c"
  by (simp add: af_header_def af_type_errors_def setReadRemaining_def Let_def split: prod.split)

lemma advanceFrame_br: "advanceFrame c = (Inr t, c') \<Longrightarrow> length (br c') < length (br c)"
proof -
  assume "advanceFrame c = (Inr t, c')"
  then obtain c1 p c2 c3 where "af_skip c = (None, c1)" and "conn_read 2 c1 = (p, None, c2)"
    and hd: "af_header p c2 = ([], c3)" and body: "af_body p c3 = (Inr t, c')"
    by (auto simp: advanceFrame_def split: prod.splits option.splits list.splits)
  then have "length (br c1) \<le> length (br c)" and "length (br c2) < length (br c1)"
    by (auto simp: af_skip_def conn_read_def split: if_splits)
  moreover have "br c3 = br c2" using br_af_header [of p c2] hd by simp
  ultimately show ?thesis using af_body_br [OF body] by simp
qed

text \<open>The loop of \<open>NextReader\<close>.\<close>

function next_frame :: "Conn \<Rightarrow> (ws_error + nat) \<times> Conn" where
  "next_frame c =
     (case readErr c of
        Some err \<Rightarrow> (Inl err, c)
      | None \<Rightarrow>
          (case advanceFrame c of
             (Inl err, c) \<Rightarrow> (Inl err, c\<lparr>readErr := Some err\<rparr>)
           | (Inr frameType, c) \<Rightarrow>
               if isData frameType then (Inr frameType, c) else next_frame c))"
  by auto
termination by (relation "measure (\<lambda>c. length (br c))") (auto dest: advanceFrame_br [OF sym])

declare next_frame.simps [simp del]

definition NextReader :: "Conn \<Rightarrow> (ws_error + nat \<times> nat) \<times> Conn" where
  "NextReader c =
     (case next_frame (c\<lparr>messageReader := None, readLength := 0\<rparr>) of
        (Inr frameType, c) \<Rightarrow> (Inr (frameType, readers c), c\<lparr>messageReader := Some (readers c), readers := readers c + 1\<rparr>)
      | (Inl err, c) \<Rightarrow>
          let c = c\<lparr>readErrCount := readErrCount c + 1\<rparr>
          in if readErrCount c \<ge> 1000 then (Inl (Panicked ''repeated read on failed websocket connection''), c)
             else (Inl err, c))"

text \<open>\<open>messageReader.Read\<close> into a slice of length \<open>n\<close>.\<close>

function mr_loop :: "nat \<Rightarrow> nat \<Rightarrow> Conn \<Rightarrow> bytes \<times> ws_error option \<times> Conn" where
  "mr_loop r n c =
     (case readErr c of
        Some err \<Rightarrow> ([], Some (if err = EOF \<and> messageReader c = Some r then errUnexpectedEOF else err), c)
      | None \<Rightarrow>
          if readRemaining c > 0 then
            (let n = (if int n > readRemaining c then nat (readRemaining c) else n);
                 (b, err, c) = br_Read n c;
                 c = c\<lparr>readErr := err\<rparr>;
                 (b, c) =
                   (if isServer c
                    then (let (b, pos) = maskBytes (bufAddr c) (readMaskKey c) (readMaskPos c) b in (b, c\<lparr>readMaskPos := pos\<rparr>))
                    else (b, c));
                 c = snd (setReadRemaining (readRemaining c - int (length b)) c);
                 c = (if readRemaining c > 0 \<and> readErr c = Some EOF then c\<lparr>readErr := Some errUnexpectedEOF\<rparr> else c)
             in (b, readErr c, c))
          else if readFinal c then ([], Some EOF, c\<lparr>messageReader := None\<rparr>)
          else
            (case advanceFrame c of
               (Inl err, c) \<Rightarrow> mr_loop r n (c\<lparr>readErr := Some err\<rparr>)
             | (Inr frameType, c) \<Rightarrow>
                 mr_loop r n (if isData frameType
                   then c\<lparr>readErr := Some (NewError ''websocket: internal error, unexpected text or binary in Reader'')\<rparr>
                   else c)))"
  by auto
termination
  by (relation "measures [\<lambda>(r, n, c). if readErr c = None then 1 else 0, \<lambda>(r, n, c). length (br c)]")
     (auto dest: advanceFrame_br [OF sym])

declare mr_loop.simps [simp del]

definition mr_Read :: "nat \<Rightarrow> nat \<Rightarrow> Conn \<Rightarrow> bytes \<times> ws_error option \<times> Conn" where
  "mr_Read r n c = (if messageReader c \<noteq> Some r then ([], Some EOF, c) else mr_loop r n c)"

lemma mr_loop_br: "mr_loop r n c = (b, None, c') \<Longrightarrow> 0 < n \<Longrightarrow> length (br c') < length (br c)"
proof (induction r n c rule: mr_loop.induct)
  case (1 r n c)
  from "1.prems"(1) have ok: "readErr c = None" by (auto simp: mr_loop.simps [of r n c] split: option.splits)
  consider "readRemaining c > 0" | "\<not> readRemaining c > 0" "\<not> readFinal c"
    using "1.prems"(1) ok by (cases "readRemaining c > 0") (auto simp: mr_loop.simps [of r n c] split: if_splits)
  then show ?case
  proof cases
    case 1
    let ?k = "if int n > readRemaining c then nat (readRemaining c) else n"
    have "?k > 0" using 1 "1.prems"(2) by auto
    obtain d e c1 where rd: "br_Read ?k c = (d, e, c1)" by (cases "br_Read ?k c") auto
    have fields: "br c' = br c1" and "e = None"
      using "1.prems"(1) ok 1 rd
      by (auto simp: mr_loop.simps [of r n c] setReadRemaining_def Let_def split: prod.splits if_splits)
    with rd \<open>?k > 0\<close> show ?thesis
      by (auto simp: br_Read_def Let_def split: if_splits)
  next
    case 2
    obtain x c1 where adv: "advanceFrame c = (x, c1)" by (cases "advanceFrame c") auto
    show ?thesis
    proof (cases x)
      case (Inl err)
      with "1.prems"(1) ok 2 adv show ?thesis
        by (simp add: mr_loop.simps [of r n c] mr_loop.simps [of r n "c1\<lparr>readErr := Some err\<rparr>"])
    next
      case (Inr t)
      with "1.prems"(1) ok 2 adv have "\<not> isData t" and "mr_loop r n c1 = (b, None, c')"
        by (auto simp: mr_loop.simps [of r n c] mr_loop.simps [of r n "c1\<lparr>readErr := Some _\<rparr>"] split: if_splits)
      with "1.IH"(2) [OF ok 2 adv [symmetric]] "1.prems"(2) Inr adv advanceFrame_br [of c t c1] show ?thesis by force
    qed
  qed
qed

lemma mr_Read_br: "mr_Read r n c = (b, None, c') \<Longrightarrow> 0 < n \<Longrightarrow> length (br c') < length (br c)"
  by (auto simp: mr_Read_def dest: mr_loop_br split: if_splits)

text \<open>\<open>io.ReadAll\<close>: \<open>room n\<close> is the free space of its slice when it holds \<open>n\<close> bytes; there is always some.\<close>

function read_all :: "(nat \<Rightarrow> nat) \<Rightarrow> nat \<Rightarrow> bytes \<Rightarrow> Conn \<Rightarrow> bytes \<times> ws_error option \<times> Conn" where
  "read_all room r acc c =
     (case mr_Read r (room (length acc) + 1) c of
        (b, None, c') \<Rightarrow> read_all room r (acc @ b) c'
      | (b, Some err, c') \<Rightarrow> (acc @ b, if err = EOF then None else Some err, c'))"
  by auto
termination
  by (relation "measure (\<lambda>(room, r, acc, c). length (br c))") (auto dest: mr_Read_br [OF sym])

declare read_all.simps [simp del]

definition ReadMessage :: "(nat \<Rightarrow> nat) \<Rightarrow> Conn \<Rightarrow> (int \<times> bytes \<times> ws_error option) \<times> Conn" where
  "ReadMessage room c =
     (case NextReader c of
        (Inl err, c) \<Rightarrow> ((noFrame, [], Some err), c)
      | (Inr (messageType, r), c) \<Rightarrow>
          (case read_all room r [] c of
             (p, err, c') \<Rightarrow>
               (case newDecompressionReader c of
                  Some z \<Rightarrow> (if readDecompress c then (case z p err of (q, err) \<Rightarrow> ((int messageType, q, err), c'))
                             else ((int messageType, p, err), c'))
                | None \<Rightarrow> ((int messageType, p, err), c'))))"

section \<open>Settings\<close>

definition SetReadLimit :: "int \<Rightarrow> Conn \<Rightarrow> Conn" where
  "SetReadLimit limit c = c\<lparr>readLimit := limit\<rparr>"

definition SetWriteDeadline :: "duration option \<Rightarrow> Conn \<Rightarrow> Conn" where
  "SetWriteDeadline t c = c\<lparr>writeDeadline := t\<rparr>"

definition SetCloseHandler :: "(int \<Rightarrow> bytes \<Rightarrow> ws_error option) option \<Rightarrow> Conn \<Rightarrow> Conn" where
  "SetCloseHandler h c = c\<lparr>handleClose := h\<rparr>"

definition SetPingHandler :: "(bytes \<Rightarrow> ws_error option) option \<Rightarrow> Conn \<Rightarrow> Conn" where
  "SetPingHandler h c = c\<lparr>handlePing := h\<rparr>"

definition SetPongHandler :: "(bytes \<Rightarrow> ws_error option) option \<Rightarrow> Conn \<Rightarrow> Conn" where
  "SetPongHandler h c = c\<lparr>handlePong := h\<rparr>"

definition EnableWriteCompression :: "bool \<Rightarrow> Conn \<Rightarrow> Conn" where
  "EnableWriteCompression enable c = c\<lparr>enableWriteCompression := enable\<rparr>"

end
