(* ===== verification/WebsocketStream.thy ===== *)
theory WebsocketStream
  imports WebsocketConn
begin

text \<open>
  Messages over a WebSocket: the bytes of a frame and the assembly of messages from frames as RFC 6455 defines them, and the
  proof that the writing half of a connection produces such frames and the reading half of the other side
  gives the messages back.
\<close>

section \<open>Frames\<close>

text \<open>A frame: final bit, opcode, mask key and payload.\<close>

type_synonym frame = "bool \<times> nat \<times> bytes option \<times> bytes"

definition frame_bytes :: "frame \<Rightarrow> bytes" where
  "frame_bytes f =
     (case f of (fin, t, k, p) \<Rightarrow>
        frame_header (of_nat t OR (if fin then 128 else 0)) (if k = None then 0 else 128) (length p) @
        (case k of None \<Rightarrow> p | Some key \<Rightarrow> key @ masked key 0 p))"

definition wire :: "frame list \<Rightarrow> bytes" where
  "wire fs = concat (map frame_bytes fs)"

lemma wire_simps [simp]: "wire [] = []" "wire (f # fs) = frame_bytes f @ wire fs" "wire (fs @ gs) = wire fs @ wire gs"
  by (simp_all add: wire_def)

text \<open>Frames that a connection accepts from its peer; \<open>srv\<close> says that the receiving side is the server.\<close>

definition frame_ok :: "bool \<Rightarrow> frame \<Rightarrow> bool" where
  "frame_ok srv f =
     (case f of (fin, t, k, p) \<Rightarrow>
        (case k of None \<Rightarrow> \<not> srv | Some key \<Rightarrow> srv \<and> length key = 4) \<and> length p < 2 ^ 63 \<and>
        t \<in> {0, 1, 2, 9, 10} \<and> (isControl t \<longrightarrow> fin \<and> length p \<le> 125))"

text \<open>
  Assembling: control frames may stand between the fragments of a message, a message starts with a text or binary frame and goes on
  with continuation frames up to the first one with the final bit.
\<close>

fun continued :: "frame list \<Rightarrow> (bytes \<times> frame list) option" where
  "continued [] = None"
| "continued ((fin, t, k, p) # fs) =
     (if isControl t then continued fs
      else if t \<noteq> 0 then None
      else if fin then Some (p, fs)
      else map_option (\<lambda>(q, gs). (p @ q, gs)) (continued fs))"

fun first_message :: "frame list \<Rightarrow> (nat \<times> bytes \<times> frame list) option" where
  "first_message [] = None"
| "first_message ((fin, t, k, p) # fs) =
     (if isControl t then first_message fs
      else if \<not> isData t then None
      else if fin then Some (t, p, fs)
      else map_option (\<lambda>(q, gs). (t, p @ q, gs)) (continued fs))"

section \<open>The writing half\<close>

lemma length_put_u64 [simp]: "length (put_u64 v) = 8"
  by (simp add: put_u64_def)

lemma frame_header_start:
  "frame_start srv n + length (frame_header b0 b1 n) = (if srv then 14 else 10)"
  by (simp add: frame_start_def frame_header_def Let_def)

text \<open>The network takes everything, no error is pending and no other goroutine writes.\<close>

definition line_open :: "Conn \<Rightarrow> bool" where
  "line_open c \<longleftrightarrow> writeErr c = None \<and> \<not> isWriting c \<and> netWrite c = (\<lambda>_. None) \<and> netDeadline c = (\<lambda>_. None) \<and>
     \<not> muTimeout c \<and> newCompressionWriter c = None \<and> 14 < writeBufSize c \<and>
     (\<forall>n b. poolGet c n = Some b \<longrightarrow> 14 < length b)"

definition write_idle :: "Conn \<Rightarrow> bool" where
  "write_idle c \<longleftrightarrow> line_open c \<and> writer c = None \<and> (case writeBuf c of None \<Rightarrow> writePool c | Some b \<Rightarrow> 14 < length b)"

text \<open>Writer \<open>w\<close> has an open message of type \<open>t\<close> with the bytes \<open>p\<close> in the buffer.\<close>

definition pending :: "nat \<Rightarrow> nat \<Rightarrow> bytes \<Rightarrow> Conn \<Rightarrow> bool" where
  "pending w t p c \<longleftrightarrow> line_open c \<and> w < length (writers c) \<and>
     writers c ! w = \<lparr>mw_compress = False, mw_pos = 14 + length p, mw_frameType = t, mw_err = None\<rparr> \<and>
     14 < length (wbuf c) \<and> 14 + length p \<le> length (wbuf c) \<and> take (length p) (drop 14 (wbuf c)) = p \<and>
     writeBuf c \<noteq> None"

lemma conn_write_open:
  assumes "line_open c" and "t \<noteq> 8"
  shows "conn_write t p q (c\<lparr>isWriting := b\<rparr>) = (None, c\<lparr>isWriting := b, writes := writes c + 1, sent := sent c @ p @ q\<rparr>)"
  using assms by (simp add: line_open_def conn_write_def net_write_def)

text \<open>The buffer holds the whole frame, from the place where it starts to the end of the data.\<close>

lemma put_at_prefix:
  assumes "i + length h = j" and "j \<le> length b"
  shows "drop i (take (j + n) (put_at i h b)) = h @ take n (drop j b)"
  using assms by (auto simp: put_at_def take_add)

lemma length_put_at [simp]: "i + length h \<le> length b \<Longrightarrow> length (put_at i h b) = length b"
  by (simp add: put_at_def)

lemma drop_put_at [simp]: "i \<le> length b \<Longrightarrow> i + length h \<le> j \<Longrightarrow> drop j (put_at i h b) = drop j b"
  by (simp add: put_at_def)

lemma take_put_at [simp]: "i \<le> length b \<Longrightarrow> j \<le> i \<Longrightarrow> take j (put_at i h b) = take j b"
  by (simp add: put_at_def)

lemma put_at_put_at: "i + length h \<le> length b \<Longrightarrow> put_at (i + length h) k (put_at i h b) = put_at i (h @ k) b"
  by (simp add: put_at_def ac_simps)

lemma not_writing: "\<not> isWriting c \<Longrightarrow> c\<lparr>isWriting := False\<rparr> = c"
  by simp

lemma upd_writer_same [simp]: "f (writers c ! w) = writers c ! w \<Longrightarrow> upd_writer w f c = c"
  by (simp add: upd_writer_def)

definition key_for :: "bool \<Rightarrow> bytes option \<Rightarrow> bool" where
  "key_for srv k = (case k of None \<Rightarrow> srv | Some key \<Rightarrow> \<not> srv \<and> length key = 4)"

definition flushed :: "frame \<Rightarrow> bytes \<Rightarrow> nat \<Rightarrow> Conn \<Rightarrow> Conn" where
  "flushed f buf n c =
     c\<lparr>keys := n, writeBuf := Some buf, writes := writes c + 1, sent := sent c @ frame_bytes f\<rparr>"

lemma mask_frame_eq:
  assumes "i + length h = 10" and "14 \<le> length b" and "take n (drop 14 b) = p" and "14 + n \<le> length b" and "length p = n"
  obtains key where "length key = 4"
    "mask_frame (14 + n) (put_at i h b) c = (put_at i (h @ key @ masked key 0 p) b, c\<lparr>keys := keys c + 1\<rparr>)"
proof -
  define key where "key = take 4 (maskRand c (keys c) @ [0, 0, 0, 0])"
  have len: "length key = 4" by (simp add: key_def)
  have one: "put_at 10 key (put_at i h b) = put_at i (h @ key) b"
    using put_at_put_at [of i h b key] assms by simp
  have body: "drop 14 (take (14 + n) (put_at i (h @ key) b)) = p"
    using assms len by (simp add: drop_take)
  have two: "put_at 14 m (put_at i (h @ key) b) = put_at i (h @ key @ m) b" for m
    using put_at_put_at [of i "h @ key" b m] assms len by (simp add: add.assoc [symmetric])
  have "mask_frame (14 + n) (put_at i h b) c = (put_at i (h @ key @ masked key 0 p) b, c\<lparr>keys := keys c + 1\<rparr>)"
    unfolding mask_frame_def newMaskKey_def Let_def prod.case key_def [symmetric]
    using one two body by (simp add: maskBytes_eq)
  with len show ?thesis by (rule that)
qed

lemma flush_frame:
  assumes pend: "pending w t p c" and ex: "isServer c \<or> extra = []" and t: "t \<noteq> 8"
    and ctl: "isControl t \<longrightarrow> final \<and> length (p @ extra) \<le> 125"
  shows "\<exists>k buf n. key_for (isServer c) k \<and> length buf = length (wbuf c) \<and>
    flushFrame final extra w c =
      (None, let c' = flushed (final, t, k, p @ extra) buf n c
             in if final then endMessage ErrWriteClosed w c'
                else upd_writer w (\<lambda>m. m\<lparr>mw_pos := 14, mw_frameType := 0\<rparr>) c')"
proof -
  let ?b0 = "of_nat t OR (if final then 128 else 0) :: byte"
  let ?b1 = "if isServer c then 0 else 128 :: byte"
  let ?len = "length p + length extra"
  let ?h = "frame_header ?b0 ?b1 ?len"
  let ?i = "frame_start (isServer c) ?len"
  let ?b = "wbuf c"
  from pend have m: "writers c ! w = \<lparr>mw_compress = False, mw_pos = 14 + length p, mw_frameType = t, mw_err = None\<rparr>"
    and buf: "14 < length ?b" "14 + length p \<le> length ?b" "take (length p) (drop 14 ?b) = p" and line: "line_open c"
    by (auto simp: pending_def)
  have start: "?i + length ?h = (if isServer c then 14 else 10)" by (rule frame_header_start)
  have send: "flush_send final t ?i extra w (c\<lparr>keys := n, writeBuf := Some buf\<rparr>) =
      (None, let c' = flushed (final, t, k, p @ extra) buf n c
             in if final then endMessage ErrWriteClosed w c'
                else upd_writer w (\<lambda>m. m\<lparr>mw_pos := 14, mw_frameType := 0\<rparr>) c')"
    if "drop ?i (take (14 + length p) buf) @ extra = frame_bytes (final, t, k, p @ extra)" for buf n k
  proof -
    have "line_open (c\<lparr>keys := n, writeBuf := Some buf\<rparr>)" using line by (simp add: line_open_def)
    from conn_write_open [OF this t] have
      "conn_write t q extra (c\<lparr>keys := n, writeBuf := Some buf, isWriting := True\<rparr>) =
       (None, c\<lparr>keys := n, writeBuf := Some buf, isWriting := True, writes := writes c + 1, sent := sent c @ q @ extra\<rparr>)" for q
      by simp
    then show ?thesis using that line m
      by (simp add: flush_send_def flushed_def wbuf_def Let_def line_open_def not_writing)
  qed
  have flush: "flushFrame final extra w c =
      (let (buf, c) = (if \<not> isServer c then mask_frame (14 + length p) (put_at ?i ?h ?b) c else (put_at ?i ?h ?b, c));
           c = c\<lparr>writeBuf := Some buf\<rparr>
       in if \<not> isServer c \<and> extra \<noteq> []
          then let e = NewError ''websocket: internal error, extra used in client mode''
               in (Some e, endMessage e w (writeFatal e c))
          else flush_send final t ?i extra w c)"
    using ctl buf m
    by (cases "isControl t"; cases final; cases "isServer c")
       (simp_all add: flushFrame_def Let_def frame_b0_def not_less split: prod.split)
  show ?thesis
  proof (cases "isServer c")
    case True
    with start have "?i + length ?h = 14" by simp
    then have bytes: "drop ?i (take (14 + length p) (put_at ?i ?h ?b)) = ?h @ p"
      using put_at_prefix [of ?i ?h 14 ?b "length p"] buf by simp
    then have "drop ?i (take (14 + length p) (put_at ?i ?h ?b)) @ extra = frame_bytes (final, t, None, p @ extra)"
      using True by (simp add: frame_bytes_def)
    from send [OF this, of "keys c"] True flush
    have "flushFrame final extra w c = (None, let c' = flushed (final, t, None, p @ extra) (put_at ?i ?h ?b) (keys c) c
             in if final then endMessage ErrWriteClosed w c'
                else upd_writer w (\<lambda>m. m\<lparr>mw_pos := 14, mw_frameType := 0\<rparr>) c')" by simp
    moreover have "length (put_at ?i ?h ?b) = length ?b" using start True buf by simp
    moreover have "key_for (isServer c) None" using True by (simp add: key_for_def)
    ultimately show ?thesis by blast
  next
    case False
    with ex have no: "extra = []" by simp
    have "?i + length ?h = 10" using start False by simp
    then obtain key where key: "length key = 4" and mf:
      "mask_frame (14 + length p) (put_at ?i ?h ?b) c =
         (put_at ?i (?h @ key @ masked key 0 p) ?b, c\<lparr>keys := keys c + 1\<rparr>)"
      using mask_frame_eq [of ?i ?h ?b "length p" p c] buf by auto
    let ?buf = "put_at ?i (?h @ key @ masked key 0 p) ?b"
    have len: "?i + length (?h @ key @ masked key 0 p) = 14 + length p" using start False key by simp
    then have "drop ?i (take (14 + length p) ?buf) = ?h @ key @ masked key 0 p"
      using put_at_prefix [OF len, of ?b 0] buf by simp
    then have "drop ?i (take (14 + length p) ?buf) @ extra = frame_bytes (final, t, Some key, p @ extra)"
      using False no by (simp add: frame_bytes_def)
    from send [OF this, of "keys c + 1"] False flush mf no
    have "flushFrame final extra w c = (None, let c' = flushed (final, t, Some key, p @ extra) ?buf (keys c + 1) c
             in if final then endMessage ErrWriteClosed w c'
                else upd_writer w (\<lambda>m. m\<lparr>mw_pos := 14, mw_frameType := 0\<rparr>) c')" by simp
    moreover have "length ?buf = length ?b" using len buf by simp
    moreover have "key_for (isServer c) (Some key)" using False key by (simp add: key_for_def)
    ultimately show ?thesis by blast
  qed
qed

lemma line_open_fields:
  "line_open (c\<lparr>keys := n, writeBuf := b, writes := m, sent := s\<rparr>) = line_open c"
  "line_open (c\<lparr>writers := ws\<rparr>) = line_open c" "line_open (c\<lparr>writer := r\<rparr>) = line_open c"
  "line_open (c\<lparr>writeBuf := b\<rparr>) = line_open c" "line_open (c\<lparr>pooled := ps\<rparr>) = line_open c"
  "line_open (c\<lparr>keys := n, writes := m, sent := s\<rparr>) = line_open c"
  by (simp_all add: line_open_def)

lemma flush_more:
  assumes "pending w t p c" and "isServer c \<or> extra = []" and "\<not> isControl t"
  shows "\<exists>k c'. flushFrame False extra w c = (None, c') \<and> key_for (isServer c) k \<and> pending w 0 [] c' \<and>
    sent c' = sent c @ frame_bytes (False, t, k, p @ extra) \<and> isServer c' = isServer c"
proof -
  have "t \<noteq> 8" using assms(3) by (auto simp: isControl_def)
  from flush_frame [OF assms(1,2) this, of False] assms(3) obtain k buf n
    where k: "key_for (isServer c) k" and b: "length buf = length (wbuf c)"
      and fl: "flushFrame False extra w c =
        (None, upd_writer w (\<lambda>m. m\<lparr>mw_pos := 14, mw_frameType := 0\<rparr>) (flushed (False, t, k, p @ extra) buf n c))"
    by (auto simp: Let_def)
  have "pending w 0 [] (upd_writer w (\<lambda>m. m\<lparr>mw_pos := 14, mw_frameType := 0\<rparr>) (flushed (False, t, k, p @ extra) buf n c))"
    using assms(1) b by (simp add: pending_def upd_writer_def flushed_def line_open_fields wbuf_def)
  with k fl show ?thesis by (auto simp: upd_writer_def flushed_def)
qed

lemma flush_last:
  assumes "pending w t p c" and "isServer c \<or> extra = []" and "isData t \<or> t = 0"
  shows "\<exists>k c'. flushFrame True extra w c = (None, c') \<and> key_for (isServer c) k \<and> write_idle c' \<and>
    sent c' = sent c @ frame_bytes (True, t, k, p @ extra) \<and> isServer c' = isServer c"
proof -
  have "t \<noteq> 8" and "\<not> isControl t" using assms(3) by (auto simp: isControl_def isData_def)
  with flush_frame [OF assms(1,2), of True] obtain k buf n
    where k: "key_for (isServer c) k" and b: "length buf = length (wbuf c)"
      and fl: "flushFrame True extra w c = (None, endMessage ErrWriteClosed w (flushed (True, t, k, p @ extra) buf n c))"
    by (auto simp: Let_def)
  have "write_idle (endMessage ErrWriteClosed w (flushed (True, t, k, p @ extra) buf n c))"
    using assms(1) b
    by (simp add: pending_def endMessage_def upd_writer_def flushed_def write_idle_def line_open_fields wbuf_def Let_def)
  with k fl show ?thesis by (auto simp: endMessage_def upd_writer_def flushed_def Let_def)
qed

lemma mw_put_pending:
  assumes "pending w t q c" and "14 + length q + length p \<le> length (wbuf c)"
  shows "pending w t (q @ p) (mw_put p w c) \<and> sent (mw_put p w c) = sent c \<and> isServer (mw_put p w c) = isServer c \<and>
    length (wbuf (mw_put p w c)) = length (wbuf c)"
proof -
  from assms have "take (length q + length p) (drop 14 (put_at (14 + length q) p (wbuf c))) = q @ p"
    by (simp add: pending_def put_at_def take_add drop_take)
  with assms show ?thesis
    by (simp add: pending_def mw_put_def upd_writer_def line_open_fields wbuf_def)
qed

text \<open>What the loop of \<open>Write\<close> sends is a sequence of fragments, the first with the type of the message.\<close>

fun fragments :: "nat \<Rightarrow> (bytes option \<times> bytes) list \<Rightarrow> frame list" where
  "fragments t [] = []"
| "fragments t ((k, p) # ps) = (False, t, k, p) # fragments 0 ps"

definition type_after :: "nat \<Rightarrow> (bytes option \<times> bytes) list \<Rightarrow> nat" where
  "type_after t ps = (if ps = [] then t else 0)"

definition wrote :: "nat \<Rightarrow> bytes \<Rightarrow> (bytes option \<times> bytes) list \<Rightarrow> nat \<Rightarrow> bytes \<Rightarrow> Conn \<Rightarrow> Conn \<Rightarrow> bool" where
  "wrote t p ps w q c c' \<longleftrightarrow> pending w (type_after t ps) q c' \<and> sent c' = sent c @ wire (fragments t ps) \<and>
     concat (map snd ps) @ q = p \<and> (\<forall>(k, r) \<in> set ps. key_for (isServer c) k) \<and> isServer c' = isServer c"

lemma room_made:
  assumes "pending w t q c" and "\<not> isControl t"
  shows "\<exists>c' ps q'. mw_ncopy n w c = (Inr (min n (length (wbuf c') - (14 + length q'))), c') \<and> wrote t q ps w q' c c' \<and>
    14 + length q' < length (wbuf c')"
proof (cases "length (wbuf c) \<le> 14 + length q")
  case True
  from flush_more [OF assms(1) _ assms(2), of "[]"] obtain k c' where fl: "flushFrame False [] w c = (None, c')"
    and new: "key_for (isServer c) k" "pending w 0 [] c'" "sent c' = sent c @ frame_bytes (False, t, k, q)" "isServer c' = isServer c"
    by auto
  have "wrote t q [(k, q)] w [] c c'" using new by (simp add: wrote_def type_after_def)
  moreover have "14 < length (wbuf c')" "mw_pos (writers c' ! w) = 14" using new(2) by (auto simp: pending_def)
  ultimately show ?thesis using True fl assms(1)
    by (intro exI [of _ c'] exI [of _ "[(k, q)]"] exI [of _ "[]"]) (simp add: mw_ncopy_def pending_def)
next
  case False
  have "wrote t q [] w q c c" using assms(1) by (simp add: wrote_def type_after_def)
  with False assms(1) show ?thesis
    by (intro exI [of _ c] exI [of _ "[]"] exI [of _ q]) (auto simp: mw_ncopy_def pending_def)
qed

lemma fragments_append: "fragments t (ps @ qs) = fragments t ps @ fragments (type_after t ps) qs"
  by (induction t ps rule: fragments.induct) (auto simp: type_after_def)

lemma wrote_trans:
  assumes "wrote t p ps w q c c'" and "wrote (type_after t ps) (q @ r) qs w q' c' c''"
  shows "wrote t (p @ r) (ps @ qs) w q' c c''"
  using assms by (auto simp: wrote_def fragments_append type_after_def split: if_splits)

lemma mw_copy_ok:
  assumes "pending w t q c" and "\<not> isControl t"
  shows "\<exists>ps q' c'. mw_copy p w c = Some (None, c') \<and> wrote t (q @ p) ps w q' c c'"
  using assms
proof (induction "length p" arbitrary: p t q c rule: less_induct)
  case less
  show ?case
  proof (cases "p = []")
    case True
    then show ?thesis using less.prems
      by (intro exI [of _ "[]"] exI [of _ q] exI [of _ c]) (simp add: mw_copy.simps wrote_def type_after_def)
  next
    case False
    from room_made [OF less.prems, of "length p"] obtain c1 ps q1
      where nc: "mw_ncopy (length p) w c = (Inr (min (length p) (length (wbuf c1) - (14 + length q1))), c1)"
        and w1: "wrote t q ps w q1 c c1" and room: "14 + length q1 < length (wbuf c1)" by blast
    define n where "n = min (length p) (length (wbuf c1) - (14 + length q1))"
    have n: "0 < n" "n \<le> length p" "14 + length q1 + length (take n p) \<le> length (wbuf c1)"
      using False room by (auto simp: n_def)
    have "pending w (type_after t ps) q1 c1" using w1 by (simp add: wrote_def)
    from mw_put_pending [OF this n(3)] have put: "pending w (type_after t ps) (q1 @ take n p) (mw_put (take n p) w c1)"
      "sent (mw_put (take n p) w c1) = sent c1" "isServer (mw_put (take n p) w c1) = isServer c1" by simp_all
    have "\<not> isControl (type_after t ps)" using less.prems(2) by (simp add: type_after_def isControl_def)
    with less.hyps [of "drop n p" "type_after t ps" "q1 @ take n p"] put(1) n(1) False obtain qs q' c'
      where cp: "mw_copy (drop n p) w (mw_put (take n p) w c1) = Some (None, c')"
        and w2: "wrote (type_after t ps) ((q1 @ take n p) @ drop n p) qs w q' (mw_put (take n p) w c1) c'" by force
    have "wrote (type_after t ps) (q1 @ p) qs w q' c1 c'" using w2 put(2,3) by (simp add: wrote_def)
    from wrote_trans [OF w1 this] cp nc False show ?thesis
      by (auto simp: mw_copy.simps [of p] n_def [symmetric])
  qed
qed

lemma first_fragments:
  assumes "isData t"
  shows "first_message (fragments t ps @ (True, type_after t ps, k, q) # gs) = Some (t, concat (map snd ps) @ q, gs)"
proof -
  have c0: "\<not> isControl 0" and ct: "\<not> isControl t" using assms by (auto simp: isControl_def isData_def)
  have rest: "continued (fragments 0 qs @ (True, 0, k, q) # gs) = Some (concat (map snd qs) @ q, gs)" for qs
    by (induction qs) (auto simp: c0)
  show ?thesis using assms ct rest by (cases ps) (auto simp: type_after_def)
qed

lemma fragments_ok:
  assumes "\<forall>(k, r) \<in> set ps. key_for srv k \<and> length r < 2 ^ 63" and "t = 0 \<or> isData t"
  shows "\<forall>f \<in> set (fragments t ps). frame_ok (\<not> srv) f"
  using assms
proof (induction t ps rule: fragments.induct)
  case (2 t k p ps)
  from "2.prems"(1) have "key_for srv k" "length p < 2 ^ 63" by simp_all
  moreover have "t \<in> {0, 1, 2, 9, 10}" "\<not> isControl t" using "2.prems"(2) by (auto simp: isData_def isControl_def)
  ultimately have "frame_ok (\<not> srv) (False, t, k, p)"
    unfolding frame_ok_def key_for_def by (cases k) simp_all
  moreover have "\<forall>f \<in> set (fragments 0 ps). frame_ok (\<not> srv) f" using "2.IH" "2.prems"(1) by simp
  ultimately show ?case by simp
qed simp

text \<open>What one call of \<open>WriteMessage\<close> or \<open>WriteControl\<close> adds to the stream.\<close>

definition sends :: "frame list \<Rightarrow> Conn \<Rightarrow> Conn \<Rightarrow> bool" where
  "sends fs c c' \<longleftrightarrow> write_idle c' \<and> isServer c' = isServer c \<and> sent c' = sent c @ wire fs \<and>
     (\<forall>f \<in> set fs. frame_ok (\<not> isServer c) f)"

lemma begin_new_ok:
  assumes "write_idle c" and "isData t"
  shows "\<exists>c'. beginMessage t c = (Inr (length (writers c)), c') \<and> pending (length (writers c)) t [] c' \<and> sent c' = sent c \<and>
    isServer c' = isServer c \<and> newCompressionWriter c' = None"
  using assms
  by (auto simp: write_idle_def beginMessage_def begin_new_def pending_def line_open_def wbuf_def Let_def nth_append
      intro: less_imp_le split: option.split)

lemma concat_lengths: "(k, r) \<in> set ps \<Longrightarrow> length r \<le> length (concat (map snd ps))"
  by (induction ps) auto

lemma finished:
  assumes "wrote t data ps w q c c1" and "isServer c \<or> extra = []" and "isData t" and "length (data @ extra) < 2 ^ 63"
  shows "\<exists>fs c'. flushFrame True extra w c1 = (None, c') \<and> sends fs c c' \<and>
    (\<forall>gs. first_message (fs @ gs) = Some (t, data @ extra, gs))"
proof -
  have pend: "pending w (type_after t ps) q c1" and same: "isServer c1 = isServer c" and data: "concat (map snd ps) @ q = data"
    and keys: "\<forall>(k, r) \<in> set ps. key_for (isServer c) k" and sent: "sent c1 = sent c @ wire (fragments t ps)"
    using assms(1) by (auto simp: wrote_def)
  have ta: "isData (type_after t ps) \<or> type_after t ps = 0" using assms(3) by (simp add: type_after_def)
  from flush_last [OF pend _ ta, of extra] assms(2) same obtain k c' where fl: "flushFrame True extra w c1 = (None, c')"
    and k: "key_for (isServer c) k" and c': "write_idle c'" "isServer c' = isServer c"
      "sent c' = sent c1 @ frame_bytes (True, type_after t ps, k, q @ extra)" by auto
  let ?fs = "fragments t ps @ [(True, type_after t ps, k, q @ extra)]"
  have len: "length (concat (map snd ps)) < 2 ^ 63" "length (q @ extra) < 2 ^ 63" using data assms(4) by auto
  have "\<forall>(k, r) \<in> set ps. key_for (isServer c) k \<and> length r < 2 ^ 63"
    using keys concat_lengths [of _ _ ps] len(1) by fastforce
  from fragments_ok [OF this, of t] assms(3) have "\<forall>f \<in> set (fragments t ps). frame_ok (\<not> isServer c) f" by simp
  moreover have "frame_ok (\<not> isServer c) (True, type_after t ps, k, q @ extra)"
    using k ta len(2) by (auto simp: frame_ok_def key_for_def isData_def isControl_def split: option.splits)
  ultimately have "sends ?fs c c'" using c' sent by (auto simp: sends_def)
  moreover have "first_message (?fs @ gs) = Some (t, data @ extra, gs)" for gs
    using first_fragments [OF assms(3), of ps k "q @ extra" gs] data by auto
  ultimately show ?thesis using fl by blast
qed

lemma WriteMessage_ok:
  assumes idle: "write_idle c" and t: "isData t" and len: "length data < 2 ^ 63"
  shows "\<exists>fs c'. WriteMessage t data c = Some (None, c') \<and> sends fs c c' \<and> (\<forall>gs. first_message (fs @ gs) = Some (t, data, gs))"
proof -
  have nz: "newCompressionWriter c = None" using idle by (simp add: write_idle_def line_open_def)
  have nc: "\<not> isControl t" using t by (auto simp: isControl_def isData_def)
  let ?w = "length (writers c)"
  from begin_new_ok [OF idle t] obtain c1 where b: "beginMessage t c = (Inr ?w, c1)" and pend: "pending ?w t [] c1"
    and c1: "sent c1 = sent c" "isServer c1 = isServer c" "newCompressionWriter c1 = None" by blast
  show ?thesis
  proof (cases "isServer c")
    case True
    let ?n = "min (length (wbuf c1) - 14) (length data)"
    let ?c2 = "mw_put (take ?n data) ?w c1"
    have m: "mw_pos (writers c1 ! ?w) = 14" "14 < length (wbuf c1)" using pend by (simp_all add: pending_def)
    with mw_put_pending [OF pend, of "take ?n data"] c1 have "wrote t (take ?n data) [] ?w (take ?n data) c ?c2"
      by (simp add: wrote_def type_after_def)
    from finished [OF this _ t, of "drop ?n data"] True len
    show ?thesis using b True nz m by (auto simp: WriteMessage_def Let_def)
  next
    case False
    let ?c2 = "c1\<lparr>writer := Some ?w\<rparr>"
    have p2: "pending ?w t [] ?c2" using pend by (simp add: pending_def line_open_fields wbuf_def)
    from mw_copy_ok [OF p2 nc, of data] obtain ps q c3
      where cp: "mw_copy data ?w ?c2 = Some (None, c3)" and wr: "wrote t data ps ?w q ?c2 c3" by auto
    have "wrote t data ps ?w q c c3" using wr c1 by (simp add: wrote_def)
    moreover from wr have "mw_err (writers c3 ! ?w) = None" by (simp add: wrote_def pending_def)
    moreover have "mw_err (writers ?c2 ! ?w) = None" using p2 by (simp add: pending_def)
    moreover have "NextWriter t c = (Inr ?w, ?c2)"
      using b c1(3) by (simp add: NextWriter_def compressing_def)
    ultimately show ?thesis using finished [of t data ps ?w q c c3 "[]"] False len t c1 cp nz
      by (auto simp: WriteMessage_def write_pieces_def mw_Write_def mw_Close_def)
  qed
qed

lemma WriteControl_ok:
  assumes idle: "write_idle c" and t: "t = 9 \<or> t = 10" and len: "length data \<le> 125" and d: "case d of None \<Rightarrow> True | Some d \<Rightarrow> now c \<le> d"
  shows "\<exists>k c'. WriteControl t data d c = (None, c') \<and> sends [(True, t, k, data)] c c'"
proof -
  have ctl: "isControl t" "t \<noteq> 8" using t by (auto simp: isControl_def)
  have line: "line_open c" "\<not> muTimeout c" using idle by (simp_all add: write_idle_def line_open_def)
  define key where "key = take 4 (maskRand c (keys c) @ [0, 0, 0, 0])"
  have nk: "newMaskKey c = (key, c\<lparr>keys := keys c + 1\<rparr>)" by (simp add: newMaskKey_def key_def)
  define k where "k = (if isServer c then None else Some key)"
  define c1 where "c1 = (if isServer c then c else c\<lparr>keys := keys c + 1\<rparr>)"
  have key: "length key = 4" by (simp add: key_def)
  have "WriteControl t data d c = conn_write t (frame_bytes (True, t, k, data)) [] c1"
    using ctl len d line(2) key
    by (auto simp: WriteControl_def nk Let_def maskBytes_eq frame_bytes_def frame_header_def k_def
        c1_def or.commute split: option.split)
  moreover have "line_open c1" "isWriting c1 = False"
    using line(1) by (simp_all add: c1_def line_open_def)
  then have "conn_write t p [] c1 = (None, c1\<lparr>writes := writes c1 + 1, sent := sent c1 @ p\<rparr>)" for p
    using conn_write_open [of c1 t p "[]" False] ctl by (simp add: not_writing)
  moreover have "sends [(True, t, k, data)] c (c1\<lparr>writes := writes c1 + 1, sent := sent c1 @ frame_bytes (True, t, k, data)\<rparr>)"
    using idle t len key
    by (auto simp: sends_def write_idle_def line_open_def c1_def k_def frame_ok_def isControl_def split: option.splits)
  ultimately show ?thesis by auto
qed

section \<open>The reading half: headers\<close>

lemma b0_bits:
  assumes "t \<in> {0, 1, 2, 9, 10}"
  shows "unat ((of_nat t OR (if fin then 128 else 0)) AND 15 :: byte) = t"
    and "(of_nat t OR (if fin then 128 else 0)) AND 64 = (0::byte)"
    and "(of_nat t OR (if fin then 128 else 0)) AND 32 = (0::byte)"
    and "(of_nat t OR (if fin then 128 else 0)) AND 16 = (0::byte)"
    and "((of_nat t OR (if fin then 128 else 0)) AND 128 \<noteq> (0::byte)) = fin"
  using assms by (cases fin; auto)+

lemma small_byte: "l < 128 \<Longrightarrow> (of_nat l :: byte) AND 127 = of_nat l \<and> (of_nat l :: byte) AND 128 = 0"
proof -
  assume l: "l < 128"
  have bit: "n < 7" if "bit (of_nat l :: byte) n" for n
  proof -
    from that have "bit l n" by (simp add: bit_of_nat_iff)
    then show ?thesis using l take_bit_nat_eq_self [of l 7] bit_take_bit_iff [of 7 l n] by auto
  qed
  have "(of_nat l :: byte) AND 127 = take_bit 7 (of_nat l)" by (simp add: take_bit_eq_mask mask_eq_exp_minus_1)
  also have "\<dots> = of_nat l" by (rule bit_word_eqI) (auto simp: bit_take_bit_iff dest: bit)
  finally have "(of_nat l :: byte) AND 127 = of_nat l" .
  moreover have "(of_nat l :: byte) AND 128 = 0"
    using bit [of 7] and_exp_eq_0_iff_not_bit [of "of_nat l :: byte" 7] by auto
  ultimately show ?thesis ..
qed

lemma b1_bits:
  assumes "l < 128" and "m = 0 \<or> m = (128::byte)"
  shows "uint ((m OR of_nat l) AND 127) = int l" and "((m OR of_nat l) AND 128 \<noteq> 0) = (m = 128)"
proof -
  have "(m OR of_nat l) AND 127 = of_nat l"
    using assms(2) small_byte [OF assms(1)] by (auto simp: and.commute bit.conj_disj_distrib2)
  then have "uint ((m OR of_nat l) AND 127) = uint (of_nat l :: byte)" by simp
  also have "\<dots> = int l" using assms(1) by (simp add: unsigned_of_nat take_bit_nat_eq_self)
  finally show "uint ((m OR of_nat l) AND 127) = int l" .
  show "((m OR of_nat l) AND 128 \<noteq> 0) = (m = 128)"
    using assms(2) small_byte [OF assms(1)] by (auto simp: and.commute bit.conj_disj_distrib2)
qed

lemma get_put_u64 [simp]: "get_u64 (put_u64 v @ xs) = v"
proof -
  have "get_u64 (put_u64 v @ xs) = ucast (ucast v :: u32) OR push_bit 32 (ucast (ucast (drop_bit 32 v) :: u32))"
    by (simp add: get_u64_def put_u64_def)
  also have "\<dots> = v"
    by (rule bit_word_eqI) (auto simp: bit_or_iff bit_push_bit_iff bit_ucast_iff bit_drop_bit_eq not_le)
  finally show ?thesis .
qed

lemma get_put_u64_only [simp]: "get_u64 (put_u64 v) = v"
  using get_put_u64 [of v "[]"] by simp

definition len_code :: "nat \<Rightarrow> nat" where
  "len_code n = (if n \<ge> 65536 then 127 else if n > 125 then 126 else n)"

definition len_ext :: "nat \<Rightarrow> bytes" where
  "len_ext n = (if n \<ge> 65536 then put_u64 (of_nat n) else if n > 125 then put_u16 (of_nat n) else [])"

lemma frame_header_eq: "frame_header b0 b1 n = [b0, b1 OR of_nat (len_code n)] @ len_ext n"
  by (simp add: frame_header_def len_code_def len_ext_def)

lemma len_code_less: "len_code n < 128"
  by (simp add: len_code_def)

lemma af_length_ok:
  assumes "readRemaining c = int (len_code n)" and "br c = len_ext n @ rest" and "n < 2 ^ 63"
  shows "af_length c = (None, c\<lparr>br := rest, readRemaining := int n\<rparr>)"
proof -
  consider "n \<ge> 65536" | "125 < n" "n < 65536" | "n \<le> 125" by linarith
  then show ?thesis
  proof cases
    case 1
    have "sint (of_nat n :: u64) = int n"
      using assms(3) by (simp add: sint_uint unsigned_of_nat take_bit_nat_eq_self signed_take_bit_int_eq_self)
    with 1 assms show ?thesis
      by (simp add: af_length_def len_code_def len_ext_def conn_read_def setReadRemaining_def)
  next
    case 2
    have "uint (of_nat n :: u16) = int n"
      using 2 by (simp add: unsigned_of_nat take_bit_nat_eq_self)
    with 2 assms show ?thesis
      by (simp add: af_length_def len_code_def len_ext_def conn_read_def setReadRemaining_def)
  next
    case 3
    with assms show ?thesis
      by (simp add: af_length_def len_code_def len_ext_def)
  qed
qed

section \<open>The reading half: frames\<close>

text \<open>The connection can read on: no error yet, and the handlers of control messages are the default ones.\<close>

definition reader_ok :: "Conn \<Rightarrow> bool" where
  "reader_ok c \<longleftrightarrow> readErr c = None \<and> \<not> brEager c \<and> newDecompressionReader c = None \<and> handlePing c = None \<and>
     handlePong c = None"

definition same_reader :: "Conn \<Rightarrow> Conn \<Rightarrow> bool" where
  "same_reader c c' \<longleftrightarrow> isServer c' = isServer c \<and> readLimit c' = readLimit c \<and> messageReader c' = messageReader c \<and>
     readers c' = readers c"

text \<open>Inside a frame: the payload \<open>p\<close> is still to be read, then \<open>rest\<close> follows.\<close>

definition in_frame :: "bytes \<Rightarrow> bytes \<Rightarrow> Conn \<Rightarrow> bool" where
  "in_frame p rest c \<longleftrightarrow> readRemaining c = int (length p) \<and>
     br c = (if isServer c then masked (readMaskKey c) (readMaskPos c) p else p) @ rest"

definition fits :: "Conn \<Rightarrow> int \<Rightarrow> bool" where
  "fits c n \<longleftrightarrow> n < 2 ^ 63 \<and> (0 < readLimit c \<longrightarrow> n \<le> readLimit c)"

text \<open>The state in which \<open>advanceFrame\<close> has parsed the header of a frame.\<close>

definition after_header :: "frame \<Rightarrow> bytes \<Rightarrow> Conn \<Rightarrow> Conn" where
  "after_header f rest c =
     (case f of (fin, t, k, p) \<Rightarrow>
        let c = c\<lparr>readDecompress := False, readRemaining := int (length p), readFinal := (if isControl t then readFinal c else fin)\<rparr>
        in (case k of
              None \<Rightarrow> c\<lparr>br := p @ rest\<rparr>
            | Some key \<Rightarrow> c\<lparr>br := masked key 0 p @ rest, readMaskPos := 0, readMaskKey := key\<rparr>))"

lemma af_mask_ok:
  assumes "br c = (case k of None \<Rightarrow> p | Some key \<Rightarrow> key @ masked key 0 p) @ rest" and "\<forall>key. k = Some key \<longrightarrow> length key = 4"
  shows "af_mask (k \<noteq> None) c =
    (None, case k of None \<Rightarrow> c | Some key \<Rightarrow> c\<lparr>br := masked key 0 p @ rest, readMaskPos := 0, readMaskKey := key\<rparr>)"
  using assms by (auto simp: af_mask_def conn_read_def split: option.split)

lemma af_header_ok:
  assumes ok: "newDecompressionReader c = None" and f: "frame_ok (isServer c) (fin, t, k, p)"
    and seq: "\<not> isControl t \<Longrightarrow> (t = 0) = (\<not> readFinal c)"
    and h: "h = [of_nat t OR (if fin then 128 else 0), (if k = None then 0 else 128) OR of_nat (len_code (length p))]"
  shows "af_header h c =
    ([], c\<lparr>readRemaining := int (len_code (length p)), readDecompress := False,
           readFinal := (if isControl t then readFinal c else fin)\<rparr>)"
    and "af_frameType h = t" and "af_mask_set h \<longleftrightarrow> k \<noteq> None"
proof -
  have t: "t \<in> {0, 1, 2, 9, 10}" using f by (simp add: frame_ok_def)
  note bits = b0_bits [OF t] b1_bits [OF len_code_less [of "length p"], of "if k = None then 0 else 128"]
  show type: "af_frameType h = t" and msk: "af_mask_set h \<longleftrightarrow> k \<noteq> None"
    using bits by (simp_all add: af_frameType_def af_mask_set_def h)
  let ?c1 = "c\<lparr>readRemaining := int (len_code (length p)), readDecompress := False\<rparr>"
  have ctl: "isControl t \<longrightarrow> fin \<and> len_code (length p) \<le> 125" and srv: "isServer c = (k \<noteq> None)"
    using f by (auto simp: frame_ok_def len_code_def split: option.splits)
  have types: "af_type_errors t fin ?c1 = ([], ?c1\<lparr>readFinal := (if isControl t then readFinal c else fin)\<rparr>)"
  proof (cases "isControl t")
    case True
    with ctl show ?thesis by (simp add: af_type_errors_def)
  next
    case False
    then have "t = 0 \<or> isData t" using t by (auto simp: isControl_def isData_def)
    with False seq [OF False] show ?thesis by (auto simp: af_type_errors_def isData_def)
  qed
  have "h ! 0 AND 64 = 0" "h ! 0 AND 32 = 0" "h ! 0 AND 16 = 0" "(h ! 0 AND 128 \<noteq> 0) = fin"
    and "uint (h ! 1 AND 127) = int (len_code (length p))" using bits by (simp_all add: h)
  with ok srv types show "af_header h c = ([], c\<lparr>readRemaining := int (len_code (length p)), readDecompress := False,
           readFinal := (if isControl t then readFinal c else fin)\<rparr>)"
    unfolding af_header_def type msk by (simp add: setReadRemaining_def Let_def)
qed

lemma advance_to_body:
  assumes ok: "newDecompressionReader c = None" "\<not> brEager c" and rem: "readRemaining c = 0" and br: "br c = frame_bytes (fin, t, k, p) @ rest"
    and f: "frame_ok (isServer c) (fin, t, k, p)" and seq: "\<not> isControl t \<Longrightarrow> (t = 0) = (\<not> readFinal c)"
  shows "advanceFrame c =
    (if isControl t then af_control t (after_header (fin, t, k, p) rest c) else af_data t (after_header (fin, t, k, p) rest c))"
proof -
  let ?h = "[of_nat t OR (if fin then 128 else 0), (if k = None then 0 else 128) OR of_nat (len_code (length p))] :: bytes"
  let ?body = "(case k of None \<Rightarrow> p | Some key \<Rightarrow> key @ masked key 0 p) @ rest"
  let ?c1 = "c\<lparr>br := len_ext (length p) @ ?body\<rparr>"
  let ?c2 = "?c1\<lparr>readRemaining := int (len_code (length p)), readDecompress := False,
           readFinal := (if isControl t then readFinal c else fin)\<rparr>"
  have "br c = ?h @ len_ext (length p) @ ?body" using br by (simp add: frame_bytes_def frame_header_eq)
  then have read: "conn_read 2 c = (?h, None, ?c1)" by (simp add: conn_read_def)
  have ok1: "newDecompressionReader ?c1 = None" and f1: "frame_ok (isServer ?c1) (fin, t, k, p)" using ok f by simp_all
  note hd = af_header_ok [OF ok1 f1 _ refl]
  have hd1: "af_header ?h ?c1 = ([], ?c2)" using hd(1) seq by simp
  have hd2: "af_frameType ?h = t" "af_mask_set ?h = (k \<noteq> None)" using hd(2,3) seq by simp_all
  have size: "length p < 2 ^ 63" and keys: "\<forall>key. k = Some key \<longrightarrow> length key = 4"
    and t: "isControl t \<longleftrightarrow> \<not> (t = 0 \<or> t = 1 \<or> t = 2)"
    using f by (auto simp: frame_ok_def isControl_def)
  have len: "af_length ?c2 = (None, ?c2\<lparr>br := ?body, readRemaining := int (length p)\<rparr>)"
    using size by (intro af_length_ok) simp_all
  have body: "af_body ?h ?c2 =
      (if isControl t then af_control t (after_header (fin, t, k, p) rest c)
       else af_data t (after_header (fin, t, k, p) rest c))"
  proof -
    let ?c3 = "?c2\<lparr>br := ?body, readRemaining := int (length p)\<rparr>"
    have "(case k of None \<Rightarrow> ?c3 | Some key \<Rightarrow> ?c3\<lparr>br := masked key 0 p @ rest, readMaskPos := 0, readMaskKey := key\<rparr>) =
        after_header (fin, t, k, p) rest c"
      by (cases k) (simp_all add: after_header_def)
    then have "af_mask (k \<noteq> None) ?c3 = (None, after_header (fin, t, k, p) rest c)"
      using af_mask_ok [of ?c3 p k rest] keys by simp
    then show ?thesis unfolding af_body_def len hd2 prod.case option.case using t by auto
  qed
  show ?thesis using rem read hd1 body by (simp add: advanceFrame_def af_skip_def)
qed

lemma after_header_fields [simp]:
  "isServer (after_header f rest c) = isServer c" "readLimit (after_header f rest c) = readLimit c"
  "messageReader (after_header f rest c) = messageReader c" "readers (after_header f rest c) = readers c"
  "readLength (after_header f rest c) = readLength c" "reader_ok (after_header f rest c) = reader_ok c"
  by (simp_all add: after_header_def reader_ok_def Let_def split: prod.split option.split)

lemma after_header_in_frame:
  assumes "frame_ok (isServer c) (fin, t, k, p)"
  shows "in_frame p rest (after_header (fin, t, k, p) rest c)"
    and "readFinal (after_header (fin, t, k, p) rest c) = (if isControl t then readFinal c else fin)"
  using assms by (auto simp: in_frame_def after_header_def frame_ok_def Let_def split: option.splits)

lemma advance_data:
  assumes "reader_ok c" and "readRemaining c = 0" and "br c = frame_bytes (fin, t, k, p) @ rest"
    and f: "frame_ok (isServer c) (fin, t, k, p)" and "\<not> isControl t" and "(t = 0) = (\<not> readFinal c)"
    and len: "0 \<le> readLength c" "fits c (readLength c + int (length p))"
  shows "\<exists>c'. advanceFrame c = (Inr t, c') \<and> reader_ok c' \<and> in_frame p rest c' \<and> readFinal c' = fin \<and>
    readLength c' = readLength c + int (length p) \<and> same_reader c c'"
proof -
  let ?c = "after_header (fin, t, k, p) rest c"
  let ?c' = "?c\<lparr>readLength := readLength c + int (length p)\<rparr>"
  have adv: "advanceFrame c = af_data t ?c" using advance_to_body [OF _ _ assms(2-4)] assms(1,5,6) by (simp add: reader_ok_def)
  have rem: "readRemaining ?c = int (length p)" using after_header_in_frame [OF f] by (simp add: in_frame_def)
  have wrap: "int64 (readLength c + int (length p)) = readLength c + int (length p)"
    using len by (simp add: int64_def fits_def signed_take_bit_int_eq_self)
  have "advanceFrame c = (Inr t, ?c')"
    using len rem wrap by (auto simp: adv af_data_def Let_def fits_def)
  moreover have "reader_ok ?c'" "in_frame p rest ?c'" "readFinal ?c' = fin" "same_reader c ?c'"
    using assms(1,5) after_header_in_frame [OF f, of rest]
    by (simp_all add: reader_ok_def in_frame_def same_reader_def after_header_fields(6) [unfolded reader_ok_def])
  ultimately show ?thesis by fastforce
qed

lemma af_payload_ok:
  assumes "in_frame p rest c"
  shows "af_payload c = (Inr (if isServer c then masked (readMaskKey c) 0 (take (length p) (br c)) else p),
    c\<lparr>br := rest, readRemaining := 0\<rparr>)"
  using assms by (auto simp: af_payload_def in_frame_def conn_read_def setReadRemaining_def maskBytes_eq Let_def)

lemma advance_control:
  assumes ok: "reader_ok c" and rem: "readRemaining c = 0" and br: "br c = frame_bytes (fin, t, k, p) @ rest"
    and f: "frame_ok (isServer c) (fin, t, k, p)" and ctl: "isControl t"
  shows "\<exists>c'. advanceFrame c = (Inr t, c') \<and> reader_ok c' \<and> readRemaining c' = 0 \<and> br c' = rest \<and> readFinal c' = readFinal c \<and>
    readLength c' = readLength c \<and> same_reader c c'"
proof -
  let ?c = "after_header (fin, t, k, p) rest c"
  let ?c1 = "?c\<lparr>br := rest, readRemaining := 0\<rparr>"
  have t: "t = 9 \<or> t = 10" using f ctl by (auto simp: frame_ok_def isControl_def)
  have adv: "advanceFrame c = af_control t ?c" using advance_to_body [OF _ _ rem br f] ok ctl by (simp add: reader_ok_def)
  obtain q where pay: "af_payload ?c = (Inr q, ?c1)"
    using af_payload_ok [OF after_header_in_frame(1) [OF f]] by blast
  have handlers: "handlePing ?c1 = None" "handlePong ?c1 = None"
    using ok after_header_fields(6) [of "(fin, t, k, p)" rest c] by (simp_all add: reader_ok_def)
  obtain x where ping: "snd (WriteControl 10 q (Some (now ?c1 + second)) ?c1) = writing x ?c1" using WriteControl_frame by blast
  have "advanceFrame c = (Inr t, ?c1) \<or> advanceFrame c = (Inr t, writing x ?c1)"
    using t pay ping handlers by (auto simp: adv af_control_def run_handlePong_def run_handlePing_def)
  moreover have "reader_ok ?c1" "readRemaining ?c1 = 0" "br ?c1 = rest" "readFinal ?c1 = readFinal c"
    "readLength ?c1 = readLength c" "same_reader c ?c1"
    using ok ctl after_header_in_frame(2) [OF f, of rest] after_header_fields(6) [of "(fin, t, k, p)" rest c]
    by (simp_all add: reader_ok_def same_reader_def)
  moreover have "reader_ok (writing x d) = reader_ok d" "same_reader c (writing x d) = same_reader c d" for d
    by (simp_all add: reader_ok_def same_reader_def)
  ultimately show ?thesis by (metis writing_simps)
qed

text \<open>The payload of a ping or a pong reaches the handler as it was sent, unmasked, and the stream continues behind the frame.\<close>

lemma advance_handler:
  assumes ok: "newDecompressionReader c = None" "\<not> brEager c" and rem: "readRemaining c = 0" and br: "br c = frame_bytes (fin, t, k, p) @ rest"
    and f: "frame_ok (isServer c) (fin, t, k, p)" and ctl: "isControl t" and h: "handlePing c = Some h" "handlePong c = Some h"
  shows "fst (advanceFrame c) = (case h p of Some e \<Rightarrow> Inl e | None \<Rightarrow> Inr t)" and "br (snd (advanceFrame c)) = rest"
proof -
  let ?c = "after_header (fin, t, k, p) rest c"
  let ?c1 = "?c\<lparr>br := rest, readRemaining := 0\<rparr>"
  have t: "t = 9 \<or> t = 10" using f ctl by (auto simp: frame_ok_def isControl_def)
  have adv: "advanceFrame c = af_control t ?c" using advance_to_body [OF ok rem br f] ctl by simp
  have key: "isServer c \<longleftrightarrow> k \<noteq> None" using f by (auto simp: frame_ok_def split: option.splits)
  have "masked (readMaskKey ?c) 0 (take (length p) (br ?c)) = p" if "isServer c"
    using that key by (auto simp: after_header_def Let_def)
  then have pay: "af_payload ?c = (Inr p, ?c1)"
    using af_payload_ok [OF after_header_in_frame(1) [OF f]] by auto
  have handlers: "handlePing ?c1 = Some h" "handlePong ?c1 = Some h"
    using h by (simp_all add: after_header_def Let_def split: option.split)
  have "advanceFrame c = (case h p of Some e \<Rightarrow> Inl e | None \<Rightarrow> Inr t, ?c1)"
    using t pay handlers by (auto simp: adv af_control_def run_handlePong_def run_handlePing_def split: option.split)
  then show "fst (advanceFrame c) = (case h p of Some e \<Rightarrow> Inl e | None \<Rightarrow> Inr t)" "br (snd (advanceFrame c)) = rest" by simp_all
qed

section \<open>The reading half: messages\<close>

text \<open>
  Reader \<open>r\<close> is inside a message: \<open>p\<close> is the rest of the current frame, \<open>fs\<close> the frames that follow, \<open>q\<close> what they contribute to the
  message and \<open>gs\<close> the frames behind it.
\<close>

definition reading :: "nat \<Rightarrow> bytes \<Rightarrow> frame list \<Rightarrow> bytes \<Rightarrow> frame list \<Rightarrow> bytes \<Rightarrow> Conn \<Rightarrow> bool" where
  "reading r p fs q gs tail c \<longleftrightarrow> reader_ok c \<and> messageReader c = Some r \<and> in_frame p (wire fs @ tail) c \<and>
     (\<forall>f \<in> set fs. frame_ok (isServer c) f) \<and> (if readFinal c then q = [] \<and> gs = fs else continued fs = Some (q, gs)) \<and>
     0 \<le> readLength c \<and> fits c (readLength c + int (length q))"

text \<open>The connection is between two messages.\<close>

definition between_messages :: "frame list \<Rightarrow> bytes \<Rightarrow> Conn \<Rightarrow> bool" where
  "between_messages fs tail c \<longleftrightarrow> reader_ok c \<and> readRemaining c = 0 \<and> readFinal c \<and> br c = wire fs @ tail \<and>
     (\<forall>f \<in> set fs. frame_ok (isServer c) f)"

definition same_side :: "Conn \<Rightarrow> Conn \<Rightarrow> bool" where
  "same_side c c' \<longleftrightarrow> isServer c' = isServer c \<and> readLimit c' = readLimit c \<and> readers c' = readers c"

lemma read_inside:
  assumes "reading r p fs q gs tail c" and "p \<noteq> []" and "0 < n"
  shows "\<exists>b p' c'. mr_loop r n c = (b, None, c') \<and> p = b @ p' \<and> reading r p' fs q gs tail c' \<and> same_side c c'"
proof -
  let ?rest = "wire fs @ tail"
  define m where "m = (if int n > readRemaining c then nat (readRemaining c) else n)"
  define k where "k = min m (chunk c (reads c) + 1)"
  define enc where "enc = (if isServer c then masked (readMaskKey c) (readMaskPos c) p else p)"
  define b where "b = take k p"
  define p' where "p' = drop k p"
  have ok: "reader_ok c" and inf: "in_frame p ?rest c" using assms(1) by (simp_all add: reading_def)
  have rem: "readRemaining c = int (length p)" and br: "br c = enc @ ?rest" using inf by (simp_all add: in_frame_def enc_def)
  have k: "0 < k" "k \<le> length p" "0 < m" using rem assms(2,3) by (auto simp: m_def k_def)
  have bp: "p = b @ p'" "length b = k" using k by (simp_all add: b_def p'_def)
  have err: "readErr c = None" "\<not> brEager c" using ok by (simp_all add: reader_ok_def)
  have len: "length enc = length p" by (simp add: enc_def)
  with br assms(2) have "br c \<noteq> []" by auto
  then have rd: "br_Read m c = (take k enc, None, c\<lparr>br := drop k enc @ ?rest, reads := reads c + 1\<rparr>)"
    using k err(2) unfolding br_Read_def Let_def k_def [symmetric] by (simp add: br len)
  let ?key = "readMaskKey c" and ?pos = "readMaskPos c"
  have enc_parts: "isServer c \<Longrightarrow> take k enc = masked ?key ?pos b" "isServer c \<Longrightarrow> drop k enc = masked ?key (?pos + k) p'"
    "\<not> isServer c \<Longrightarrow> take k enc = b" "\<not> isServer c \<Longrightarrow> drop k enc = p'"
    using masked_append [of ?key ?pos b p'] bp by (simp_all add: enc_def)
  define c' where "c' = c\<lparr>br := drop k enc @ ?rest, reads := reads c + 1,
    readMaskPos := (if isServer c then (?pos + k) mod 4 else ?pos), readRemaining := int (length p')\<rparr>"
  have left: "readRemaining c - int k = int (length p')" using rem k by (simp add: p'_def)
  have "0 < readRemaining c" using rem assms(2) by simp
  then have "mr_loop r n c = (b, None, c')"
    using err(1) rd enc_parts bp(2) left unfolding mr_loop.simps [of r n c] m_def [symmetric]
    by (cases "isServer c") (simp_all add: maskBytes_eq setReadRemaining_def c'_def Let_def)
  moreover have "in_frame p' ?rest c'" using enc_parts by (simp add: in_frame_def c'_def)
  then have "reading r p' fs q gs tail c'"
    using assms(1) by (simp add: reading_def c'_def reader_ok_def fits_def)
  moreover have "same_side c c'" by (simp add: same_side_def c'_def)
  ultimately show ?thesis using bp(1) k by (intro exI [of _ b] exI [of _ p'] exI [of _ c']) simp
qed

lemma read_inside_more:
  assumes "reading r p fs q gs tail c" and "p \<noteq> []" and "0 < n"
  shows "\<exists>b p' fs' q' c'. mr_loop r n c = (b, None, c') \<and> b @ p' @ q' = p @ q \<and> reading r p' fs' q' gs tail c' \<and> same_side c c'"
proof -
  from read_inside [OF assms] obtain b p' c' where "mr_loop r n c = (b, None, c')" "p = b @ p'"
    "reading r p' fs q gs tail c'" "same_side c c'" by blast
  then show ?thesis by (intro exI [of _ b] exI [of _ p'] exI [of _ fs] exI [of _ q] exI [of _ c']) simp
qed

lemma read_end:
  assumes "reading r [] fs q gs tail c" and "readFinal c"
  shows "\<exists>c'. mr_loop r n c = ([], Some EOF, c') \<and> between_messages gs tail c' \<and> same_side c c'"
proof -
  have "mr_loop r n c = ([], Some EOF, c\<lparr>messageReader := None\<rparr>)"
    using assms by (simp add: mr_loop.simps [of r n c] reading_def reader_ok_def in_frame_def)
  moreover have "between_messages gs tail (c\<lparr>messageReader := None\<rparr>)"
    using assms by (auto simp: between_messages_def reading_def reader_ok_def in_frame_def)
  ultimately show ?thesis by (simp add: same_side_def)
qed

lemma loop_advance:
  assumes "readErr c = None" and "readRemaining c = 0" and "\<not> readFinal c" and "advanceFrame c = (Inr t, c1)" and "\<not> isData t"
  shows "mr_loop r n c = mr_loop r n c1"
  using assms by (simp add: mr_loop.simps [of r n c])

lemma same_side_trans: "same_side c c' \<Longrightarrow> same_side c' c'' \<Longrightarrow> same_side c c''"
  by (simp add: same_side_def)

text \<open>At the end of a fragment the reader goes on to the next one, past control frames.\<close>

lemma read_next_fragment:
  assumes rd: "reading r [] ((fin, t, k, pl) # fs) q gs tail c" and nf: "\<not> readFinal c"
  shows "\<exists>p1 q1 c1. mr_loop r n c = mr_loop r n c1 \<and> q = p1 @ q1 \<and> reading r p1 fs q1 gs tail c1 \<and> same_side c c1"
proof -
  have ok: "reader_ok c" "readErr c = None" and rem: "readRemaining c = 0" and mr: "messageReader c = Some r"
    and br: "br c = frame_bytes (fin, t, k, pl) @ (wire fs @ tail)"
    and f: "frame_ok (isServer c) (fin, t, k, pl)" "\<forall>f \<in> set fs. frame_ok (isServer c) f"
    and cont: "continued ((fin, t, k, pl) # fs) = Some (q, gs)" and len: "0 \<le> readLength c" "fits c (readLength c + int (length q))"
    using rd nf by (auto simp: reading_def reader_ok_def in_frame_def)
  show ?thesis
  proof (cases "isControl t")
    case True
    from advance_control [OF ok(1) rem br f(1) True] obtain c1 where adv: "advanceFrame c = (Inr t, c1)"
      and c1: "reader_ok c1" "readRemaining c1 = 0" "br c1 = wire fs @ tail" "readFinal c1 = readFinal c" "readLength c1 = readLength c"
        "same_reader c c1" by blast
    have "\<not> isData t" using True by (auto simp: isControl_def isData_def)
    from loop_advance [OF ok(2) rem nf adv this] have "mr_loop r n c = mr_loop r n c1" .
    moreover have "reading r [] fs q gs tail c1"
      using c1 f(2) cont True len nf mr by (auto simp: reading_def in_frame_def same_reader_def fits_def)
    moreover have "same_side c c1" using c1(6) by (simp add: same_side_def same_reader_def)
    ultimately show ?thesis by (intro exI [of _ "[]"] exI [of _ q] exI [of _ c1]) simp
  next
    case False
    with cont have t0: "t = 0" by (auto split: if_splits)
    obtain q1 where q: "q = pl @ q1" and rest: "if fin then q1 = [] \<and> gs = fs else continued fs = Some (q1, gs)"
      using cont False t0 by (cases fin) auto
    have "fits c (readLength c + int (length pl))" using len(2) q by (auto simp: fits_def)
    from advance_data [OF ok(1) rem br f(1) False _ len(1) this] t0 nf obtain c1 where adv: "advanceFrame c = (Inr t, c1)"
      and c1: "reader_ok c1" "in_frame pl (wire fs @ tail) c1" "readFinal c1 = fin" "readLength c1 = readLength c + int (length pl)"
        "same_reader c c1" by auto
    have "\<not> isData t" using t0 by (simp add: isData_def)
    from loop_advance [OF ok(2) rem nf adv this] have "mr_loop r n c = mr_loop r n c1" .
    moreover have "reading r pl fs q1 gs tail c1"
      using c1 f(2) rest len q mr by (auto simp: reading_def same_reader_def fits_def)
    moreover have "same_side c c1" using c1(5) by (simp add: same_side_def same_reader_def)
    ultimately show ?thesis using q by blast
  qed
qed

lemma read_loop:
  assumes "reading r p fs q gs tail c" and "0 < n"
  shows "if p @ q = [] then \<exists>c'. mr_loop r n c = ([], Some EOF, c') \<and> between_messages gs tail c' \<and> same_side c c'
    else \<exists>b p' fs' q' c'. mr_loop r n c = (b, None, c') \<and> b @ p' @ q' = p @ q \<and> reading r p' fs' q' gs tail c' \<and> same_side c c'"
  using assms
proof (induction fs arbitrary: p q c)
  case Nil
  show ?case
  proof (cases "p = []")
    case True
    with Nil.prems have "readFinal c" "q = []" by (auto simp: reading_def split: if_splits)
    with True read_end Nil.prems show ?thesis by auto
  next
    case False
    with read_inside_more [OF Nil.prems(1) False Nil.prems(2)] show ?thesis by simp
  qed
next
  case (Cons f fs)
  consider "p \<noteq> []" | "p = []" "readFinal c" | "p = []" "\<not> readFinal c" by blast
  then show ?case
  proof cases
    case 1
    with read_inside_more [OF Cons.prems(1) 1 Cons.prems(2)] show ?thesis by simp
  next
    case 2
    with Cons.prems have "q = []" by (auto simp: reading_def)
    with 2 read_end Cons.prems show ?thesis by auto
  next
    case 3
    obtain fin t k pl where f: "f = (fin, t, k, pl)" by (cases f)
    from read_next_fragment [of r fin t k pl fs q gs tail c n] Cons.prems(1) 3 f obtain p1 q1 c1
      where loop: "mr_loop r n c = mr_loop r n c1" and q: "q = p1 @ q1" and rd: "reading r p1 fs q1 gs tail c1"
        and same: "same_side c c1" by blast
    from Cons.IH [OF rd Cons.prems(2)] show ?thesis
      using same_side_trans [OF same] unfolding loop q 3(1) append_Nil by (metis (no_types, lifting))
  qed
qed

text \<open>\<open>io.ReadAll\<close> collects the whole message.\<close>

lemma read_all_ok:
  assumes "reading r p fs q gs tail c"
  shows "\<exists>c'. read_all room r acc c = (acc @ p @ q, None, c') \<and> between_messages gs tail c' \<and> same_side c c'"
  using assms
proof (induction "length (br c)" arbitrary: p fs q c acc rule: less_induct)
  case less
  let ?n = "room (length acc) + 1"
  have n: "0 < ?n" by simp
  have rd: "mr_Read r ?n c = mr_loop r ?n c" using less.prems by (simp add: mr_Read_def reading_def)
  show ?case
  proof (cases "p @ q = []")
    case True
    with read_loop [OF less.prems n] obtain c' where "mr_loop r ?n c = ([], Some EOF, c')" "between_messages gs tail c'" "same_side c c'"
      by auto
    with True rd show ?thesis by (simp add: read_all.simps [of room r acc c])
  next
    case False
    with read_loop [OF less.prems n] obtain b p' fs' q' c1 where loop: "mr_loop r ?n c = (b, None, c1)"
      and parts: "b @ p' @ q' = p @ q" and next1: "reading r p' fs' q' gs tail c1" and same: "same_side c c1" by auto
    from less.hyps [OF mr_loop_br [OF loop n] next1, of "acc @ b"] obtain c'
      where "read_all room r (acc @ b) c1 = ((acc @ b) @ p' @ q', None, c')" "between_messages gs tail c'" "same_side c1 c'" by blast
    with loop rd parts same_side_trans [OF same] show ?thesis by (simp add: read_all.simps [of room r acc c])
  qed
qed

lemma next_frame_ok:
  assumes "between_messages fs tail c" and "first_message fs = Some (t, data, gs)"
    and "0 \<le> readLength c" and "fits c (readLength c + int (length data))"
  shows "\<exists>p q fs' c'. next_frame c = (Inr t, c') \<and> data = p @ q \<and> same_side c c' \<and>
    (\<forall>r n. reading r p fs' q gs tail (c'\<lparr>messageReader := Some r, readers := n\<rparr>))"
  using assms
proof (induction fs arbitrary: c)
  case (Cons f fs)
  obtain fin t' k pl where f: "f = (fin, t', k, pl)" by (cases f)
  have ok: "reader_ok c" "readErr c = None" and rem: "readRemaining c = 0" and fin: "readFinal c"
    and br: "br c = frame_bytes (fin, t', k, pl) @ (wire fs @ tail)"
    and fr: "frame_ok (isServer c) (fin, t', k, pl)" "\<forall>f \<in> set fs. frame_ok (isServer c) f"
    using Cons.prems(1) f by (auto simp: between_messages_def reader_ok_def)
  show ?case
  proof (cases "isControl t'")
    case True
    from advance_control [OF ok(1) rem br fr(1) True] obtain c1 where adv: "advanceFrame c = (Inr t', c1)"
      and c1: "reader_ok c1" "readRemaining c1 = 0" "br c1 = wire fs @ tail" "readFinal c1 = readFinal c" "readLength c1 = readLength c"
        "same_reader c c1" by blast
    have "between_messages fs tail c1" using c1 fin fr(2) by (simp add: between_messages_def same_reader_def)
    moreover have "first_message fs = Some (t, data, gs)" using Cons.prems(2) f True by simp
    moreover have "0 \<le> readLength c1" "fits c1 (readLength c1 + int (length data))"
      using Cons.prems(3,4) c1(5,6) by (simp_all add: fits_def same_reader_def)
    ultimately obtain p q fs' c' where "next_frame c1 = (Inr t, c')" "data = p @ q" "same_side c1 c'"
      "\<forall>r n. reading r p fs' q gs tail (c'\<lparr>messageReader := Some r, readers := n\<rparr>)" using Cons.IH by blast
    moreover have "\<not> isData t'" using True by (auto simp: isControl_def isData_def)
    moreover have "same_side c c1" using c1(6) by (simp add: same_side_def same_reader_def)
    ultimately show ?thesis using adv ok(2) same_side_trans by (simp add: next_frame.simps [of c]) blast
  next
    case False
    with Cons.prems(2) f have t: "t' = t" "isData t" by (auto split: if_splits)
    obtain q where q: "data = pl @ q" and rest: "if fin then q = [] \<and> gs = fs else continued fs = Some (q, gs)"
      using Cons.prems(2) f False by (cases fin) (auto split: if_splits)
    have "fits c (readLength c + int (length pl))" using Cons.prems(4) q by (auto simp: fits_def)
    moreover have "(t' = 0) = (\<not> readFinal c)" using t fin by (auto simp: isData_def)
    ultimately obtain c1 where adv: "advanceFrame c = (Inr t', c1)"
      and c1: "reader_ok c1" "in_frame pl (wire fs @ tail) c1" "readFinal c1 = fin" "readLength c1 = readLength c + int (length pl)"
        "same_reader c c1" using advance_data [OF ok(1) rem br fr(1) False _ Cons.prems(3)] by blast
    have "reading r pl fs q gs tail (c1\<lparr>messageReader := Some r, readers := n\<rparr>)" for r n
      using c1 fr(2) rest Cons.prems(3,4) q
      by (auto simp: reading_def same_reader_def fits_def in_frame_def reader_ok_def)
    moreover have "same_side c c1" using c1(5) by (simp add: same_side_def same_reader_def)
    ultimately show ?thesis using adv ok(2) t q by (auto simp: next_frame.simps [of c])
  qed
qed simp

lemma ReadMessage_ok:
  assumes bm: "between_messages fs tail c" and fm: "first_message fs = Some (t, data, gs)" and fit: "fits c (int (length data))"
  shows "\<exists>c'. ReadMessage room c = ((int t, data, None), c') \<and> between_messages gs tail c' \<and> isServer c' = isServer c \<and>
    readLimit c' = readLimit c"
proof -
  let ?c = "c\<lparr>messageReader := None, readLength := 0\<rparr>"
  have "between_messages fs tail ?c" using bm by (simp add: between_messages_def reader_ok_def)
  moreover have "0 \<le> readLength ?c" "fits ?c (readLength ?c + int (length data))" using fit by (simp_all add: fits_def)
  ultimately obtain p q fs' c1 where nf: "next_frame ?c = (Inr t, c1)" and data: "data = p @ q" and same: "same_side ?c c1"
    and rd: "\<And>r n. reading r p fs' q gs tail (c1\<lparr>messageReader := Some r, readers := n\<rparr>)"
    using next_frame_ok [OF _ fm] by blast
  let ?c2 = "c1\<lparr>messageReader := Some (readers c1), readers := readers c1 + 1\<rparr>"
  from read_all_ok [OF rd [of "readers c1" "readers c1 + 1"], of room "[]"] data obtain c'
    where ra: "read_all room (readers c1) [] ?c2 = (data, None, c')" and c': "between_messages gs tail c'" "same_side ?c2 c'" by auto
  have "newDecompressionReader ?c2 = None" using rd [of "readers c1" "readers c1 + 1"] by (simp add: reading_def reader_ok_def)
  with nf ra have "ReadMessage room c = ((int t, data, None), c')" by (simp add: ReadMessage_def NextReader_def)
  with c' same show ?thesis by (simp add: same_side_def)
qed

section \<open>From one side to the other\<close>

text \<open>What a program may do on the sending side: whole messages, with pings and pongs between them.\<close>

datatype ws_op = Send nat bytes | Control nat bytes

fun send_all :: "ws_op list \<Rightarrow> Conn \<Rightarrow> Conn option" where
  "send_all [] c = Some c"
| "send_all (Send t data # ops) c =
     (case WriteMessage t data c of Some (None, c') \<Rightarrow> send_all ops c' | _ \<Rightarrow> None)"
| "send_all (Control t data # ops) c =
     (case WriteControl t data None c of (None, c') \<Rightarrow> send_all ops c' | _ \<Rightarrow> None)"

fun sent_messages :: "ws_op list \<Rightarrow> (nat \<times> bytes) list" where
  "sent_messages [] = []"
| "sent_messages (Send t data # ops) = (t, data) # sent_messages ops"
| "sent_messages (Control t data # ops) = sent_messages ops"

primrec read_many :: "nat \<Rightarrow> (nat \<Rightarrow> nat) \<Rightarrow> Conn \<Rightarrow> (int \<times> bytes \<times> ws_error option) list \<times> Conn" where
  "read_many 0 room c = ([], c)"
| "read_many (Suc n) room c =
     (let (m, c) = ReadMessage room c; (ms, c) = read_many n room c in (m # ms, c))"

definition op_ok :: "int \<Rightarrow> ws_op \<Rightarrow> bool" where
  "op_ok limit op =
     (case op of
        Send t data \<Rightarrow> isData t \<and> length data < 2 ^ 63 \<and> (0 < limit \<longrightarrow> int (length data) \<le> limit)
      | Control t data \<Rightarrow> (t = PingMessage \<or> t = PongMessage) \<and> length data \<le> 125)"

fun carries :: "frame list \<Rightarrow> (nat \<times> bytes) list \<Rightarrow> bool" where
  "carries fs [] = True"
| "carries fs ((t, data) # ms) =
     (case first_message fs of Some (t', data', gs) \<Rightarrow> t' = t \<and> data' = data \<and> carries gs ms | None \<Rightarrow> False)"

lemma carries_control: "isControl t \<Longrightarrow> carries fs ms \<Longrightarrow> carries ((fin, t, k, p) # fs) ms"
  by (cases ms) (auto split: option.splits)

lemma sends_trans: "sends fs c c' \<Longrightarrow> sends gs c' c'' \<Longrightarrow> sends (fs @ gs) c c''"
  by (auto simp: sends_def)

lemma send_all_ok:
  assumes "write_idle c" and "\<forall>op \<in> set ops. op_ok limit op"
  shows "\<exists>fs c'. send_all ops c = Some c' \<and> sends fs c c' \<and> carries fs (sent_messages ops)"
  using assms
proof (induction ops arbitrary: c)
  case Nil
  then show ?case by (intro exI [of _ "[]"]) (simp add: sends_def)
next
  case (Cons op ops)
  show ?case
  proof (cases op)
    case (Send t data)
    with Cons.prems have "isData t" "length data < 2 ^ 63" by (simp_all add: op_ok_def)
    from WriteMessage_ok [OF Cons.prems(1) this] obtain fs c1 where "WriteMessage t data c = Some (None, c1)"
      and s: "sends fs c c1" and m: "\<forall>gs. first_message (fs @ gs) = Some (t, data, gs)" by blast
    moreover from s have "write_idle c1" by (simp add: sends_def)
    with Cons.IH [of c1] Cons.prems(2) obtain gs c' where "send_all ops c1 = Some c'" "sends gs c1 c'"
      "carries gs (sent_messages ops)" by auto
    ultimately show ?thesis using Send sends_trans [OF s] by (intro exI [of _ "fs @ gs"] exI [of _ c']) simp
  next
    case (Control t data)
    with Cons.prems have t: "t = 9 \<or> t = 10" "length data \<le> 125" by (simp_all add: op_ok_def)
    from WriteControl_ok [OF Cons.prems(1) this, of None] obtain k c1 where "WriteControl t data None c = (None, c1)"
      and s: "sends [(True, t, k, data)] c c1" by auto
    moreover from s have "write_idle c1" by (simp add: sends_def)
    with Cons.IH [of c1] Cons.prems(2) obtain gs c' where "send_all ops c1 = Some c'" "sends gs c1 c'"
      "carries gs (sent_messages ops)" by auto
    moreover have "isControl t" using t by (auto simp: isControl_def)
    ultimately show ?thesis using Control sends_trans [OF s] carries_control
      by (intro exI [of _ "(True, t, k, data) # gs"] exI [of _ c']) simp
  qed
qed

lemma read_many_ok:
  assumes "between_messages fs tail c" and "carries fs ms" and "\<forall>(t, data) \<in> set ms. fits c (int (length data))"
  shows "fst (read_many (length ms) room c) = map (\<lambda>(t, data). (int t, data, None)) ms"
  using assms
proof (induction ms arbitrary: fs c)
  case (Cons m ms)
  obtain t data where m: "m = (t, data)" by (cases m)
  with Cons.prems(2) obtain gs where fm: "first_message fs = Some (t, data, gs)" and rest: "carries gs ms"
    by (auto split: option.splits)
  have "fits c (int (length data))" using Cons.prems(3) m by simp
  from ReadMessage_ok [OF Cons.prems(1) fm this] obtain c' where rm: "ReadMessage room c = ((int t, data, None), c')"
    and c': "between_messages gs tail c'" "readLimit c' = readLimit c" by blast
  have "\<forall>(t, data) \<in> set ms. fits c' (int (length data))" using Cons.prems(3) c'(2) by (auto simp: fits_def)
  from Cons.IH [OF c'(1) rest this] m rm show ?case by (simp add: Let_def case_prod_beta)
qed simp

lemma control_delivered:
  assumes "write_idle c" and "op_ok limit (Control t data)" and "newDecompressionReader d = None" "\<not> brEager d" "readRemaining d = 0"
    and "handlePing d = Some h" "handlePong d = Some h" and "isServer d = (\<not> isServer c)"
  shows "\<exists>c'. WriteControl t data None c = (None, c') \<and>
    fst (advanceFrame (d\<lparr>br := drop (length (sent c)) (sent c') @ tail\<rparr>)) = (case h data of Some e \<Rightarrow> Inl e | None \<Rightarrow> Inr t) \<and>
    br (snd (advanceFrame (d\<lparr>br := drop (length (sent c)) (sent c') @ tail\<rparr>))) = tail"
proof -
  have t: "t = 9 \<or> t = 10" "length data \<le> 125" using assms(2) by (simp_all add: op_ok_def)
  from WriteControl_ok [OF assms(1) this, of None] obtain k c' where w: "WriteControl t data None c = (None, c')"
    and s: "sends [(True, t, k, data)] c c'" by auto
  let ?d = "d\<lparr>br := drop (length (sent c)) (sent c') @ tail\<rparr>"
  have d: "newDecompressionReader ?d = None" "\<not> brEager ?d" "readRemaining ?d = 0" "handlePing ?d = Some h" "handlePong ?d = Some h"
    using assms(3-7) by simp_all
  have "br ?d = frame_bytes (True, t, k, data) @ tail" "frame_ok (isServer ?d) (True, t, k, data)" "isControl t"
    using s assms(8) t by (auto simp: sends_def isControl_def)
  from advance_handler [OF d(1-3) this d(4,5)] w show ?thesis by simp
qed

text \<open>
  C11. What a side sends with \<open>WriteMessage\<close> and \<open>WriteControl\<close> arrives at the other side: every call succeeds, and reading the bytes that
  were written - in pieces of any size, behind any buffer size, masked or not - returns exactly the text and binary messages, in order and
  with their types, past the pings and pongs between them. The payload of a ping or a pong, read as the next frame, is given unchanged to the handler, whose error
  is the result. This holds in both directions, as long as no message exceeds the read limit and no payload of a control frame 125 bytes.
\<close>

theorem message_round_trip:
  assumes "write_idle c" and "\<forall>op \<in> set ops. op_ok (readLimit d) op"
    and "reader_ok d" and "readRemaining d = 0" and "readFinal d" and "isServer d = (\<not> isServer c)"
  shows "\<exists>c'. send_all ops c = Some c' \<and> write_idle c' \<and> take (length (sent c)) (sent c') = sent c \<and>
    fst (read_many (length (sent_messages ops)) room (d\<lparr>br := drop (length (sent c)) (sent c') @ tail\<rparr>)) =
      map (\<lambda>(t, data). (int t, data, None)) (sent_messages ops) \<and>
    (\<forall>t data h. op_ok (readLimit d) (Control t data) \<longrightarrow> (\<exists>c''. WriteControl t data None c = (None, c'') \<and>
       fst (advanceFrame (d\<lparr>handlePing := Some h, handlePong := Some h, br := drop (length (sent c)) (sent c'') @ tail\<rparr>)) =
         (case h data of Some e \<Rightarrow> Inl e | None \<Rightarrow> Inr t)))"
proof -
  from send_all_ok [OF assms(1,2)] obtain fs c' where s: "send_all ops c = Some c'" and fs: "sends fs c c'"
    and carry: "carries fs (sent_messages ops)" by blast
  let ?d = "d\<lparr>br := drop (length (sent c)) (sent c') @ tail\<rparr>"
  have "between_messages fs tail ?d"
    using fs assms(3-6) by (simp add: between_messages_def sends_def reader_ok_def)
  moreover have "\<forall>(t, data) \<in> set (sent_messages ops). fits ?d (int (length data))"
    using assms(2) by (induction ops rule: sent_messages.induct) (auto simp: op_ok_def fits_def)
  ultimately have "fst (read_many (length (sent_messages ops)) room ?d) = map (\<lambda>(t, data). (int t, data, None)) (sent_messages ops)"
    using read_many_ok carry by blast
  moreover have "\<exists>c''. WriteControl t data None c = (None, c'') \<and>
       fst (advanceFrame (d\<lparr>handlePing := Some h, handlePong := Some h, br := drop (length (sent c)) (sent c'') @ tail\<rparr>)) =
         (case h data of Some e \<Rightarrow> Inl e | None \<Rightarrow> Inr t)" if "op_ok (readLimit d) (Control t data)" for t data h
    using control_delivered [OF assms(1) that, of "d\<lparr>handlePing := Some h, handlePong := Some h\<rparr>" h tail] assms(3,4,6)
    by (auto simp: reader_ok_def)
  ultimately show ?thesis using s fs by (auto simp: sends_def)
qed

text \<open>A connection with a buffer for twenty bytes of payload, and its peer.\<close>

definition sample_conn :: "bool \<Rightarrow> Conn" where
  "sample_conn srv =
     newConn srv 20 False None
       \<lparr>isServer = srv, writeBuf = None, writePool = False, pooled = [], writeBufSize = 0, writeDeadline = None, writer = None,
        isWriting = False, writeErr = None, enableWriteCompression = True, newCompressionWriter = None, readErr = None,
        readRemaining = 0, readFinal = True, readLength = 0, readLimit = 0, readMaskPos = 0, readMaskKey = [], handlePong = None,
        handlePing = None, handleClose = None, readErrCount = 0, messageReader = None, readDecompress = False,
        newDecompressionReader = None, writers = [], readers = 0, br = [], brErr = EOF, brEager = False, chunk = (\<lambda>n. n mod 3),
        reads = 0, sent = [], netWrite = (\<lambda>_. None), netDeadline = (\<lambda>_. None), writes = 0,
        maskRand = (\<lambda>n. [of_nat n, 7, 9, 200]), keys = 0, bufAddr = 3, poolGet = (\<lambda>_. None), now = 5, muTimeout = False\<rparr>"

lemma sample_conn_fields:
  "write_idle (sample_conn srv)" "reader_ok (sample_conn srv)" "readRemaining (sample_conn srv) = 0"
  "readFinal (sample_conn srv)" "isServer (sample_conn srv) = srv" "sent (sample_conn srv) = []" "readLimit (sample_conn srv) = 0"
  by (simp_all add: sample_conn_def newConn_def write_idle_def line_open_def reader_ok_def Let_def)

theorem message_round_trip_witness:
  "\<exists>c'. send_all [Send 1 (map of_nat [1..<51]), Control 9 [1, 2, 3], Send 2 []] (sample_conn False) = Some c' \<and> write_idle c' \<and>
    fst (read_many 2 (\<lambda>n. 30) ((sample_conn True)\<lparr>br := sent c' @ [7]\<rparr>)) = [(1, map of_nat [1..<51], None), (2, [], None)]"
proof -
  let ?ops = "[Send 1 (map of_nat [1..<51]), Control 9 [1, 2, 3], Send 2 []]"
  have "\<forall>op \<in> set ?ops. op_ok (readLimit (sample_conn True)) op"
    by (simp add: op_ok_def isData_def sample_conn_fields)
  from message_round_trip [OF sample_conn_fields(1) [of False] this sample_conn_fields(2-4), of "\<lambda>n. 30" "[7]"]
  show ?thesis by (simp add: sample_conn_fields numeral_2_eq_2) blast
qed

text \<open>
  The limit on the size of a message counts the discarded part of the message before. The stream holds a text message in two frames of four and
  six bytes and one of five bytes, all within the limit of ten; when the first is abandoned after its first frame, its second frame is added to the size
  of the next message, which is refused.
\<close>

definition two_small_messages :: Conn where
  "two_small_messages = (SetReadLimit 10 (sample_conn False))\<lparr>br :=
     [1, 4, 65, 65, 65, 65, 128, 6, 66, 66, 66, 66, 66, 66, 129, 5, 67, 67, 67, 67, 67]\<rparr>"

lemma discarded_counts_towards_limit:
  "fst (NextReader two_small_messages) = Inr (1, 0) \<and>
   fst (NextReader (snd (NextReader two_small_messages))) = Inl ErrReadLimit"
  by code_simp

end
