(* ===== verification/IceAgent.thy ===== *)
theory IceAgent
  imports IceCandidate
begin

text \<open>
  The ICE agent of \<open>lib/pion-ice\<close>: the state and the tasks of \<open>agent.go\<close>, and the controlling, controlled and lite selectors of \<open>selection.go\<close>. All of
  this runs in the task loop, one task after the other, so a task is a function on the state of the agent. Candidates and pairs are pointers in the
  code; here they are indices into two heaps. The STUN package is not part of the repository: a message is its class, transaction identifier and list of
  attributes, and the check of MESSAGE-INTEGRITY is a field of the state, as are the clock, the random transaction identifiers, the outcome of
  writes to sockets, the connections for active TCP candidates and the next credentials from the random generator. Credentials are ASCII strings.
\<close>

section \<open>Messages and state\<close>

datatype ice_class = IceRequest | IceIndication | IceSuccessResponse | IceErrorResponse

datatype ice_attr =
    IceUsername string
  | IceUseCandidate
  | IceAttrControlling u64
  | IceAttrControlled u64
  | IcePriority u32
  | IceXORMappedAddress ip int
  | IceIntegrity string
  | IceFingerprint

record ice_msg =
  im_binding :: bool
  im_class :: ice_class
  im_txid :: bytes
  im_attrs :: "ice_attr list"

definition has_UseCandidate :: "ice_msg \<Rightarrow> bool" where
  "has_UseCandidate m \<longleftrightarrow> IceUseCandidate \<in> set (im_attrs m)"

definition has_Controlling :: "ice_msg \<Rightarrow> bool" where
  "has_Controlling m \<longleftrightarrow> list_ex (\<lambda>x. case x of IceAttrControlling _ \<Rightarrow> True | _ \<Rightarrow> False) (im_attrs m)"

definition has_Controlled :: "ice_msg \<Rightarrow> bool" where
  "has_Controlled m \<longleftrightarrow> list_ex (\<lambda>x. case x of IceAttrControlled _ \<Rightarrow> True | _ \<Rightarrow> False) (im_attrs m)"

fun get_Username :: "ice_attr list \<Rightarrow> string option" where
  "get_Username [] = None"
| "get_Username (IceUsername u # as) = Some u"
| "get_Username (_ # as) = get_Username as"

definition AssertUsername :: "ice_msg \<Rightarrow> string \<Rightarrow> bool" where
  "AssertUsername m expected \<longleftrightarrow> get_Username (im_attrs m) = Some expected"

datatype IceConnectionState =
    IceStateUnknown
  | IceStateNew
  | IceStateChecking
  | IceStateConnected
  | IceStateCompleted
  | IceStateFailed
  | IceStateDisconnected
  | IceStateClosed

datatype IceGatheringState = IceGatheringNew | IceGatheringGathering | IceGatheringComplete

record bindingRequest =
  req_timestamp :: int
  req_transactionID :: bytes
  req_destination :: "net_addr option"
  req_isUseCandidate :: bool

text \<open>The start time of a controlling selector and the pair it has nominated.\<close>

datatype ice_selector = NoSelector | ControllingSelector int "nat option" | ControlledSelector

record Agent =
  tieBreaker :: u64
  a_lite :: bool
  a_connectionState :: IceConnectionState
  a_gatheringState :: IceGatheringState
  a_started :: bool
  a_done :: bool
  isControlling :: bool
  maxBindingRequests :: u16
  hostAcceptanceMinWait :: duration
  srflxAcceptanceMinWait :: duration
  prflxAcceptanceMinWait :: duration
  relayAcceptanceMinWait :: duration
  tcpPriorityOffset :: u16
  disableActiveTCP :: bool
  disconnectedTimeout :: duration
  failedTimeout :: duration
  keepaliveInterval :: duration
  localUfrag :: string
  localPwd :: string
  localCandidates :: "(NetworkType, nat list) gomap"
  remoteUfrag :: string
  remotePwd :: string
  remoteCandidates :: "(NetworkType, nat list) gomap"
  checklist :: "nat list"
  a_selector :: ice_selector
  selectedPair :: "nat option"
  networkTypes :: "NetworkType list"
  pendingBindingRequests :: "bindingRequest list"
  userBindingRequestHandler :: "(ice_msg \<Rightarrow> nat \<Rightarrow> nat \<Rightarrow> nat \<Rightarrow> bool) option"
  forceCandidateContact :: bool
  onConnected :: bool
  lastConnectionState :: IceConnectionState
  checkingSince :: int
  stateNotes :: "IceConnectionState list"
  candidateNotes :: "nat list"
  pairNotes :: "nat list"
  cands :: "candidate list"
  pairs :: "CandidatePair list"
  a_outgoing :: "(nat \<times> net_addr option \<times> ice_msg) list"
  a_now :: int
  a_txids :: "nat \<Rightarrow> bytes"
  a_built :: nat
  a_netOk :: "nat \<Rightarrow> bool"
  a_writes :: nat
  integrityOk :: "string \<Rightarrow> ice_msg \<Rightarrow> bool"
  a_parseIP :: "string \<Rightarrow> ip option"
  activeTCPConns :: "candidate \<Rightarrow> (string \<times> int) list"
  generatedUfrag :: string
  generatedPwd :: string

section \<open>Helpers\<close>

definition upd_cand :: "nat \<Rightarrow> (candidate \<Rightarrow> candidate) \<Rightarrow> Agent \<Rightarrow> Agent" where
  "upd_cand i f a = a\<lparr>cands := (cands a)[i := f (cands a ! i)]\<rparr>"

definition upd_pair :: "nat \<Rightarrow> (CandidatePair \<Rightarrow> CandidatePair) \<Rightarrow> Agent \<Rightarrow> Agent" where
  "upd_pair i f a = a\<lparr>pairs := (pairs a)[i := f (pairs a ! i)]\<rparr>"

text \<open>\<open>time.Since\<close>; a time that was never set is further back than any duration.\<close>

definition time_since :: "int option \<Rightarrow> Agent \<Rightarrow> duration" where
  "time_since t a = (case t of None \<Rightarrow> 2 ^ 63 - 1 | Some x \<Rightarrow> a_now a - x)"

definition set_of :: "(NetworkType, nat list) gomap \<Rightarrow> NetworkType \<Rightarrow> nat list" where
  "set_of m t = (case map_of m t of None \<Rightarrow> [] | Some s \<Rightarrow> s)"

definition cand_seen :: "bool \<Rightarrow> nat \<Rightarrow> Agent \<Rightarrow> Agent" where
  "cand_seen outbound i a =
     upd_cand i (\<lambda>c. if outbound then c\<lparr>c_lastSent := Some (a_now a)\<rparr> else c\<lparr>c_lastReceived := Some (a_now a)\<rparr>) a"

definition the_priority :: "Agent \<Rightarrow> nat \<Rightarrow> u64" where
  "the_priority a i =
     (let p = pairs a ! i
      in pair_priority (iceRoleControlling p) (cand_Priority (cands a ! pair_Local p)) (cand_Priority (cands a ! pair_Remote p)))"

definition pair_equal :: "Agent \<Rightarrow> nat \<Rightarrow> nat \<Rightarrow> bool" where
  "pair_equal a i j \<longleftrightarrow>
     cand_Equal (cands a ! pair_Local (pairs a ! i)) (cands a ! pair_Local (pairs a ! j)) \<and>
     cand_Equal (cands a ! pair_Remote (pairs a ! i)) (cands a ! pair_Remote (pairs a ! j))"

section \<open>Sending\<close>

definition ice_writeTo :: "nat \<Rightarrow> ice_msg \<Rightarrow> nat \<Rightarrow> Agent \<Rightarrow> Agent" where
  "ice_writeTo local msg remote a =
     (let ok = (a_netOk a (a_writes a) \<and> c_open (cands a ! local));
          a = a\<lparr>a_writes := a_writes a + 1\<rparr>
      in if ok then cand_seen True local (a\<lparr>a_outgoing := a_outgoing a @ [(local, c_resolvedAddr (cands a ! remote), msg)]\<rparr>) else a)"

definition sendSTUN :: "ice_msg \<Rightarrow> nat \<Rightarrow> nat \<Rightarrow> Agent \<Rightarrow> Agent" where
  "sendSTUN msg local remote a = ice_writeTo local msg remote a"

definition maxBindingRequestTimeout :: duration where
  "maxBindingRequestTimeout = 4000 * millisecond"

definition invalidatePendingBindingRequests :: "int \<Rightarrow> Agent \<Rightarrow> Agent" where
  "invalidatePendingBindingRequests filterTime a =
     a\<lparr>pendingBindingRequests :=
         filter (\<lambda>r. filterTime - req_timestamp r < maxBindingRequestTimeout) (pendingBindingRequests a)\<rparr>"

definition sendBindingRequest :: "ice_msg \<Rightarrow> nat \<Rightarrow> nat \<Rightarrow> Agent \<Rightarrow> Agent" where
  "sendBindingRequest m local remote a =
     (let a = invalidatePendingBindingRequests (a_now a) a;
          a = a\<lparr>pendingBindingRequests := pendingBindingRequests a @
                 [\<lparr>req_timestamp = a_now a, req_transactionID = im_txid m, req_destination = c_resolvedAddr (cands a ! remote),
                   req_isUseCandidate = has_UseCandidate m\<rparr>]\<rparr>
      in sendSTUN m local remote a)"

definition sendBindingSuccess :: "ice_msg \<Rightarrow> nat \<Rightarrow> nat \<Rightarrow> Agent \<Rightarrow> Agent" where
  "sendBindingSuccess m local remote a =
     (case c_resolvedAddr (cands a ! remote) of
        None \<Rightarrow> a
      | Some addr \<Rightarrow>
          (case ice_parseAddr addr of
             None \<Rightarrow> a
           | Some (x, port, _) \<Rightarrow>
               sendSTUN \<lparr>im_binding = True, im_class = IceSuccessResponse, im_txid = im_txid m,
                  im_attrs = [IceXORMappedAddress x port, IceIntegrity (localPwd a), IceFingerprint]\<rparr> local remote a))"

text \<open>\<open>stun.Build\<close> of a Binding request with a new transaction identifier.\<close>

definition build_request :: "ice_attr list \<Rightarrow> Agent \<Rightarrow> ice_msg \<times> Agent" where
  "build_request as a =
     (\<lparr>im_binding = True, im_class = IceRequest, im_txid = a_txids a (a_built a), im_attrs = as\<rparr>, a\<lparr>a_built := a_built a + 1\<rparr>)"

definition remote_username :: "Agent \<Rightarrow> string" where
  "remote_username a = remoteUfrag a @ '':'' @ localUfrag a"

definition controlling_Ping :: "nat \<Rightarrow> nat \<Rightarrow> Agent \<Rightarrow> Agent" where
  "controlling_Ping local remote a =
     (let (msg, a) = build_request [IceUsername (remote_username a), IceAttrControlling (tieBreaker a),
            IcePriority (cand_Priority (cands a ! local)), IceIntegrity (remotePwd a), IceFingerprint] a
      in sendBindingRequest msg local remote a)"

definition controlled_Ping :: "nat \<Rightarrow> nat \<Rightarrow> Agent \<Rightarrow> Agent" where
  "controlled_Ping local remote a =
     (let (msg, a) = build_request [IceUsername (remote_username a), IceAttrControlled (tieBreaker a),
            IcePriority (cand_Priority (cands a ! local)), IceIntegrity (remotePwd a), IceFingerprint] a
      in sendBindingRequest msg local remote a)"

definition PingCandidate :: "nat \<Rightarrow> nat \<Rightarrow> Agent \<Rightarrow> Agent" where
  "PingCandidate local remote a =
     (case a_selector a of
        ControllingSelector _ _ \<Rightarrow> controlling_Ping local remote a
      | ControlledSelector \<Rightarrow> controlled_Ping local remote a
      | NoSelector \<Rightarrow> a)"

definition nominatePair :: "nat \<Rightarrow> Agent \<Rightarrow> Agent" where
  "nominatePair i a =
     (let p = pairs a ! i;
          (msg, a) = build_request [IceUsername (remote_username a), IceUseCandidate, IceAttrControlling (tieBreaker a),
            IcePriority (cand_Priority (cands a ! pair_Local p)), IceIntegrity (remotePwd a), IceFingerprint] a
      in sendBindingRequest msg (pair_Local p) (pair_Remote p) a)"

section \<open>Connection state and selected pair\<close>

definition close_cands :: "nat list \<Rightarrow> Agent \<Rightarrow> Agent" where
  "close_cands is a = foldl (\<lambda>a i. upd_cand i (\<lambda>c. c\<lparr>c_open := False\<rparr>) a) a is"

definition deleteAllCandidates :: "Agent \<Rightarrow> Agent" where
  "deleteAllCandidates a =
     (let a = close_cands (concat (map snd (localCandidates a))) a;
          a = close_cands (concat (map snd (remoteCandidates a))) (a\<lparr>localCandidates := []\<rparr>)
      in a\<lparr>remoteCandidates := []\<rparr>)"

definition ice_updateConnectionState :: "IceConnectionState \<Rightarrow> Agent \<Rightarrow> Agent" where
  "ice_updateConnectionState newState a =
     (if a_connectionState a \<noteq> newState
      then (let a = (if newState = IceStateFailed
                     then deleteAllCandidates (a\<lparr>checklist := [], pendingBindingRequests := [], selectedPair := None\<rparr>)
                     else a)
            in a\<lparr>a_connectionState := newState, stateNotes := stateNotes a @ [newState]\<rparr>)
      else a)"

definition setSelectedPair :: "nat \<Rightarrow> Agent \<Rightarrow> Agent" where
  "setSelectedPair i a =
     (let a = upd_pair i (\<lambda>p. p\<lparr>nominated := True\<rparr>) a;
          a = ice_updateConnectionState IceStateConnected (a\<lparr>selectedPair := Some i\<rparr>)
      in a\<lparr>pairNotes := pairNotes a @ [i], onConnected := True\<rparr>)"

definition validateSelectedPair :: "Agent \<Rightarrow> bool \<times> Agent" where
  "validateSelectedPair a =
     (case selectedPair a of
        None \<Rightarrow> (False, a)
      | Some i \<Rightarrow>
          let disconnectedTime = time_since (c_lastReceived (cands a ! pair_Remote (pairs a ! i))) a;
              totalTimeToFailure = (if failedTimeout a \<noteq> 0 then failedTimeout a + disconnectedTimeout a else 0)
          in (True,
              if totalTimeToFailure \<noteq> 0 \<and> disconnectedTime > totalTimeToFailure then ice_updateConnectionState IceStateFailed a
              else if disconnectedTimeout a \<noteq> 0 \<and> disconnectedTime > disconnectedTimeout a
              then ice_updateConnectionState IceStateDisconnected a
              else ice_updateConnectionState IceStateConnected a))"

definition checkKeepalive :: "Agent \<Rightarrow> Agent" where
  "checkKeepalive a =
     (case selectedPair a of
        None \<Rightarrow> a
      | Some i \<Rightarrow>
          let p = pairs a ! i
          in if keepaliveInterval a \<noteq> 0 \<and>
                (time_since (c_lastSent (cands a ! pair_Local p)) a > keepaliveInterval a \<or>
                 time_since (c_lastReceived (cands a ! pair_Remote p)) a > keepaliveInterval a)
             then PingCandidate (pair_Local p) (pair_Remote p) a else a)"

section \<open>The check list\<close>

definition addPair :: "nat \<Rightarrow> nat \<Rightarrow> Agent \<Rightarrow> nat \<times> Agent" where
  "addPair local remote a =
     (length (pairs a),
      a\<lparr>pairs := pairs a @ [newCandidatePair local remote (isControlling a)], checklist := checklist a @ [length (pairs a)]\<rparr>)"

definition findPair :: "nat \<Rightarrow> nat \<Rightarrow> Agent \<Rightarrow> nat option" where
  "findPair local remote a =
     find (\<lambda>i. cand_Equal (cands a ! pair_Local (pairs a ! i)) (cands a ! local) \<and>
               cand_Equal (cands a ! pair_Remote (pairs a ! i)) (cands a ! remote)) (checklist a)"

text \<open>One round of the loop of \<open>pingAllCandidates\<close>.\<close>

definition ping_pair :: "Agent \<Rightarrow> nat \<Rightarrow> Agent" where
  "ping_pair a i =
     (let p = pairs a ! i
      in if pair_state p = CandidatePairStateWaiting \<or> pair_state p = CandidatePairStateInProgress
         then (let a = upd_pair i (\<lambda>p. p\<lparr>pair_state := CandidatePairStateInProgress\<rparr>) a
               in if bindingRequestCount p > maxBindingRequests a
                  then upd_pair i (\<lambda>p. p\<lparr>pair_state := CandidatePairStateFailed\<rparr>) a
                  else upd_pair i (\<lambda>p. p\<lparr>bindingRequestCount := bindingRequestCount p + 1\<rparr>)
                         (PingCandidate (pair_Local p) (pair_Remote p) a))
         else a)"

definition pingAllCandidates :: "Agent \<Rightarrow> Agent" where
  "pingAllCandidates a = foldl ping_pair a (checklist a)"

text \<open>The two searches for the best pair differ in the pairs they skip.\<close>

definition best_pair :: "(CandidatePair \<Rightarrow> bool) \<Rightarrow> Agent \<Rightarrow> nat option" where
  "best_pair ok a =
     foldl (\<lambda>best i. if \<not> ok (pairs a ! i) then best
                      else case best of
                             None \<Rightarrow> Some i
                           | Some j \<Rightarrow> if the_priority a j < the_priority a i then Some i else Some j) None (checklist a)"

definition getBestAvailableCandidatePair :: "Agent \<Rightarrow> nat option" where
  "getBestAvailableCandidatePair = best_pair (\<lambda>p. pair_state p \<noteq> CandidatePairStateFailed)"

definition getBestValidCandidatePair :: "Agent \<Rightarrow> nat option" where
  "getBestValidCandidatePair = best_pair (\<lambda>p. pair_state p = CandidatePairStateSucceeded)"

section \<open>Selectors\<close>

definition isNominatable :: "int \<Rightarrow> nat \<Rightarrow> Agent \<Rightarrow> bool" where
  "isNominatable startTime i a =
     (case c_candidateType (cands a ! i) of
        CandidateTypeHost \<Rightarrow> a_now a - startTime > hostAcceptanceMinWait a
      | CandidateTypeServerReflexive \<Rightarrow> a_now a - startTime > srflxAcceptanceMinWait a
      | CandidateTypePeerReflexive \<Rightarrow> a_now a - startTime > prflxAcceptanceMinWait a
      | CandidateTypeRelay \<Rightarrow> a_now a - startTime > relayAcceptanceMinWait a
      | CandidateTypeUnspecified \<Rightarrow> False)"

definition selector_Start :: "Agent \<Rightarrow> Agent" where
  "selector_Start a =
     (case a_selector a of
        ControllingSelector _ _ \<Rightarrow> a\<lparr>a_selector := ControllingSelector (a_now a) None\<rparr>
      | _ \<Rightarrow> a)"

definition check_selected :: "Agent \<Rightarrow> Agent" where
  "check_selected a = (case validateSelectedPair a of (ok, a) \<Rightarrow> if ok then checkKeepalive a else a)"

definition controlling_Contact :: "int \<Rightarrow> nat option \<Rightarrow> Agent \<Rightarrow> Agent" where
  "controlling_Contact startTime nominatedPair a =
     (if selectedPair a \<noteq> None then check_selected a
      else case nominatedPair of
             Some i \<Rightarrow> nominatePair i a
           | None \<Rightarrow>
               (case getBestValidCandidatePair a of
                  Some i \<Rightarrow>
                    if isNominatable startTime (pair_Local (pairs a ! i)) a \<and> isNominatable startTime (pair_Remote (pairs a ! i)) a
                    then nominatePair i ((upd_pair i (\<lambda>p. p\<lparr>nominated := True\<rparr>) a)\<lparr>a_selector := ControllingSelector startTime (Some i)\<rparr>)
                    else pingAllCandidates a
                | None \<Rightarrow> pingAllCandidates a))"

definition controlled_Contact :: "Agent \<Rightarrow> Agent" where
  "controlled_Contact a = (if selectedPair a \<noteq> None then check_selected a else pingAllCandidates a)"

definition ContactCandidates :: "Agent \<Rightarrow> Agent" where
  "ContactCandidates a =
     (case a_selector a of
        ControllingSelector startTime nominatedPair \<Rightarrow> controlling_Contact startTime nominatedPair a
      | ControlledSelector \<Rightarrow> if a_lite a then snd (validateSelectedPair a) else controlled_Contact a
      | NoSelector \<Rightarrow> a)"

definition user_switch :: "ice_msg \<Rightarrow> nat \<Rightarrow> nat \<Rightarrow> nat \<Rightarrow> Agent \<Rightarrow> Agent" where
  "user_switch m local remote i a =
     (case userBindingRequestHandler a of
        Some h \<Rightarrow> if h m local remote i then setSelectedPair i a else a
      | None \<Rightarrow> a)"

definition controlling_HandleRequest :: "int \<Rightarrow> nat option \<Rightarrow> ice_msg \<Rightarrow> nat \<Rightarrow> nat \<Rightarrow> Agent \<Rightarrow> Agent" where
  "controlling_HandleRequest startTime nominatedPair m local remote a =
     (let a = sendBindingSuccess m local remote a
      in case findPair local remote a of
           None \<Rightarrow> snd (addPair local remote a)
         | Some i \<Rightarrow>
             let p = pairs a ! i;
                 a = (if pair_state p = CandidatePairStateSucceeded \<and> nominatedPair = None \<and> selectedPair a = None
                      then (case getBestAvailableCandidatePair a of
                              None \<Rightarrow> a
                            | Some best \<Rightarrow>
                                if pair_equal a best i \<and> isNominatable startTime (pair_Local p) a \<and> isNominatable startTime (pair_Remote p) a
                                then nominatePair i (a\<lparr>a_selector := ControllingSelector startTime (Some i)\<rparr>)
                                else a)
                      else a)
             in user_switch m local remote i a)"

definition handleInboundBindingSuccess :: "bytes \<Rightarrow> Agent \<Rightarrow> bindingRequest option \<times> Agent" where
  "handleInboundBindingSuccess txid a =
     (let a = invalidatePendingBindingRequests (a_now a) a
      in case find (\<lambda>r. req_transactionID r = txid) (pendingBindingRequests a) of
           None \<Rightarrow> (None, a)
         | Some r \<Rightarrow>
             (Some r,
              a\<lparr>pendingBindingRequests :=
                  takeWhile (\<lambda>r. req_transactionID r \<noteq> txid) (pendingBindingRequests a) @
                  tl (dropWhile (\<lambda>r. req_transactionID r \<noteq> txid) (pendingBindingRequests a))\<rparr>))"

text \<open>The common part of the two handlers of success responses: the pending request and the pair that the response confirms.\<close>

definition confirm_pair :: "ice_msg \<Rightarrow> nat \<Rightarrow> nat \<Rightarrow> net_addr \<Rightarrow> Agent \<Rightarrow> (bindingRequest \<times> nat) option \<times> Agent" where
  "confirm_pair m local remote remoteAddr a =
     (case handleInboundBindingSuccess (im_txid m) a of
        (None, a) \<Rightarrow> (None, a)
      | (Some r, a) \<Rightarrow>
          if \<not> (case req_destination r of None \<Rightarrow> False | Some d \<Rightarrow> ice_addrEqual d remoteAddr) then (None, a)
          else (case findPair local remote a of
                  None \<Rightarrow> (None, a)
                | Some i \<Rightarrow> (Some (r, i), upd_pair i (\<lambda>p. p\<lparr>pair_state := CandidatePairStateSucceeded\<rparr>) a)))"

definition controlling_HandleSuccess :: "ice_msg \<Rightarrow> nat \<Rightarrow> nat \<Rightarrow> net_addr \<Rightarrow> Agent \<Rightarrow> Agent" where
  "controlling_HandleSuccess m local remote remoteAddr a =
     (case confirm_pair m local remote remoteAddr a of
        (None, a) \<Rightarrow> a
      | (Some (r, i), a) \<Rightarrow> if req_isUseCandidate r \<and> selectedPair a = None then setSelectedPair i a else a)"

text \<open>The controlled side replaces its selected pair only by one of at least the same priority.\<close>

definition switch_to :: "nat \<Rightarrow> Agent \<Rightarrow> Agent" where
  "switch_to i a =
     (case selectedPair a of
        None \<Rightarrow> setSelectedPair i a
      | Some j \<Rightarrow> if j \<noteq> i \<and> the_priority a j \<le> the_priority a i then setSelectedPair i a else a)"

definition controlled_HandleSuccess :: "ice_msg \<Rightarrow> nat \<Rightarrow> nat \<Rightarrow> net_addr \<Rightarrow> Agent \<Rightarrow> Agent" where
  "controlled_HandleSuccess m local remote remoteAddr a =
     (case confirm_pair m local remote remoteAddr a of
        (None, a) \<Rightarrow> a
      | (Some (r, i), a) \<Rightarrow> if nominateOnBindingSuccess (pairs a ! i) then switch_to i a else a)"

definition controlled_HandleRequest :: "ice_msg \<Rightarrow> nat \<Rightarrow> nat \<Rightarrow> Agent \<Rightarrow> Agent" where
  "controlled_HandleRequest m local remote a =
     (let (i, a) = (case findPair local remote a of Some i \<Rightarrow> (i, a) | None \<Rightarrow> addPair local remote a);
          a = (if has_UseCandidate m
               then (if pair_state (pairs a ! i) = CandidatePairStateSucceeded then switch_to i a
                     else upd_pair i (\<lambda>p. p\<lparr>nominateOnBindingSuccess := True\<rparr>) a)
               else a);
          a = sendBindingSuccess m local remote a;
          a = controlled_Ping local remote a
      in user_switch m local remote i a)"

section \<open>Candidates\<close>

definition alloc_cand :: "candidate \<Rightarrow> Agent \<Rightarrow> nat \<times> Agent" where
  "alloc_cand c a = (length (cands a), a\<lparr>cands := cands a @ [c]\<rparr>)"

definition start_cand :: "nat \<Rightarrow> Agent \<Rightarrow> Agent" where
  "start_cand i a = upd_cand i (\<lambda>c. if c_open c then c else c\<lparr>c_open := True, c_agent := Some (tcpPriorityOffset a)\<rparr>) a"

definition requestConnectivityCheck :: "Agent \<Rightarrow> Agent" where
  "requestConnectivityCheck a = a\<lparr>forceCandidateContact := True\<rparr>"

definition add_local :: "nat \<Rightarrow> Agent \<Rightarrow> Agent" where
  "add_local i a =
     (let t = c_networkType (cands a ! i)
      in a\<lparr>localCandidates := AList.update t (set_of (localCandidates a) t @ [i]) (localCandidates a)\<rparr>)"

text \<open>One round of the loop over the local addresses: a connection for an active TCP candidate and its pair.\<close>

definition add_active :: "nat \<Rightarrow> Agent \<Rightarrow> string \<times> int \<Rightarrow> Agent" where
  "add_active remote a conn =
     (case NewCandidateHost (a_parseIP a) (NetworkType_String (c_networkType (cands a ! remote))) (fst conn) (snd conn) 1 0 [] TCPTypeActive of
        Inl _ \<Rightarrow> a
      | Inr c \<Rightarrow>
          let (i, a) = alloc_cand c a;
              a = add_local i (start_cand i a);
              a = a\<lparr>candidateNotes := candidateNotes a @ [i]\<rparr>
          in snd (addPair i remote a))"

definition addRemotePassiveTCPCandidate :: "nat \<Rightarrow> Agent \<Rightarrow> Agent" where
  "addRemotePassiveTCPCandidate remote a = foldl (add_active remote) a (activeTCPConns a (cands a ! remote))"

definition addRemoteCandidate :: "nat \<Rightarrow> Agent \<Rightarrow> Agent" where
  "addRemoteCandidate i a =
     (let c = cands a ! i; t = c_networkType c; known = set_of (remoteCandidates a) t
      in if list_ex (\<lambda>j. cand_Equal (cands a ! j) c) known then a
         else
           let a = (if \<not> disableActiveTCP a \<and> list_ex IsTCP (networkTypes a) \<and> c_tcpType c = TCPTypePassive
                    then addRemotePassiveTCPCandidate i a else a);
               a = a\<lparr>remoteCandidates := AList.update t (known @ [i]) (remoteCandidates a)\<rparr>;
               a = (if c_tcpType c \<noteq> TCPTypePassive
                    then foldl (\<lambda>a l. snd (addPair l i a)) a (set_of (localCandidates a) t) else a)
           in requestConnectivityCheck a)"

text \<open>\<open>AddRemoteCandidate\<close>; \<open>mdns\<close> is the candidate with the address that multicast DNS found, if it found one.\<close>

definition AddRemoteCandidate :: "candidate \<Rightarrow> candidate option \<Rightarrow> Agent \<Rightarrow> Agent" where
  "AddRemoteCandidate c mdns a =
     (if c_tcpType c = TCPTypeActive then a
      else if c_candidateType c = CandidateTypeHost \<and> HasSuffix (c_address c) ''.local''
      then (case mdns of None \<Rightarrow> a | Some c \<Rightarrow> (case alloc_cand c a of (i, a) \<Rightarrow> addRemoteCandidate i a))
      else (case alloc_cand c a of (i, a) \<Rightarrow> addRemoteCandidate i a))"

definition addCandidate :: "candidate \<Rightarrow> Agent \<Rightarrow> Agent" where
  "addCandidate c a =
     (let t = c_networkType c; known = set_of (localCandidates a) t
      in if list_ex (\<lambda>j. cand_Equal (cands a ! j) c) known then a
         else
           let (i, a) = alloc_cand c a;
               a = add_local i (start_cand i a);
               a = foldl (\<lambda>a r. snd (addPair i r a)) a (set_of (remoteCandidates a) t);
               a = requestConnectivityCheck a
           in a\<lparr>candidateNotes := candidateNotes a @ [i]\<rparr>)"

definition findRemoteCandidate :: "NetworkType \<Rightarrow> net_addr \<Rightarrow> Agent \<Rightarrow> nat option" where
  "findRemoteCandidate t addr a =
     (case ice_parseAddr addr of
        None \<Rightarrow> None
      | Some (x, port, _) \<Rightarrow>
          find (\<lambda>i. c_address (cands a ! i) = ip_String x \<and> c_port (cands a ! i) = port) (set_of (remoteCandidates a) t))"

section \<open>Inbound messages\<close>

definition HandleSuccessResponse :: "ice_msg \<Rightarrow> nat \<Rightarrow> nat \<Rightarrow> net_addr \<Rightarrow> Agent \<Rightarrow> Agent" where
  "HandleSuccessResponse m local remote remoteAddr a =
     (case a_selector a of
        ControllingSelector _ _ \<Rightarrow> controlling_HandleSuccess m local remote remoteAddr a
      | ControlledSelector \<Rightarrow> controlled_HandleSuccess m local remote remoteAddr a
      | NoSelector \<Rightarrow> a)"

definition HandleBindingRequest :: "ice_msg \<Rightarrow> nat \<Rightarrow> nat \<Rightarrow> Agent \<Rightarrow> Agent" where
  "HandleBindingRequest m local remote a =
     (case a_selector a of
        ControllingSelector startTime nominatedPair \<Rightarrow> controlling_HandleRequest startTime nominatedPair m local remote a
      | ControlledSelector \<Rightarrow> controlled_HandleRequest m local remote a
      | NoSelector \<Rightarrow> a)"

text \<open>The roles of the two agents must differ, and only the controlling one may nominate.\<close>

definition role_conflict :: "ice_msg \<Rightarrow> Agent \<Rightarrow> bool" where
  "role_conflict m a = (if isControlling a then has_Controlling m \<or> has_UseCandidate m else has_Controlled m)"

text \<open>A request from an unknown address makes a new peer reflexive candidate.\<close>

definition request_remote :: "nat \<Rightarrow> net_addr \<Rightarrow> nat option \<Rightarrow> Agent \<Rightarrow> nat option \<times> Agent" where
  "request_remote local remote found a =
     (case found of
        Some r \<Rightarrow> (Some r, a)
      | None \<Rightarrow>
          (case ice_parseAddr remote of
             None \<Rightarrow> (None, a)
           | Some (x, port, networkType) \<Rightarrow>
               (case NewCandidatePeerReflexive (a_parseIP a) (NetworkType_String networkType) (ip_String x) port
                       (c_component (cands a ! local)) 0 [] [] 0 of
                  Inl _ \<Rightarrow> (None, a)
                | Inr c \<Rightarrow> (case alloc_cand c a of (r, a) \<Rightarrow> (Some r, addRemoteCandidate r a)))))"

definition handleInbound :: "ice_msg \<Rightarrow> nat \<Rightarrow> net_addr \<Rightarrow> Agent \<Rightarrow> Agent" where
  "handleInbound m local remote a =
     (if \<not> im_binding m \<or> im_class m = IceErrorResponse then a
      else if role_conflict m a then a
      else
        let found = findRemoteCandidate (c_networkType (cands a ! local)) remote a
        in case im_class m of
             IceSuccessResponse \<Rightarrow>
               if \<not> integrityOk a (remotePwd a) m then a
               else (case found of
                       None \<Rightarrow> a
                     | Some r \<Rightarrow> cand_seen False r (HandleSuccessResponse m local r remote a))
           | IceRequest \<Rightarrow>
               if \<not> AssertUsername m (localUfrag a @ '':'' @ remoteUfrag a) then a
               else if \<not> integrityOk a (localPwd a) m then a
               else (case request_remote local remote found a of
                       (None, a) \<Rightarrow> a
                     | (Some r, a) \<Rightarrow> cand_seen False r (HandleBindingRequest m local r a))
           | _ \<Rightarrow> (case found of None \<Rightarrow> a | Some r \<Rightarrow> cand_seen False r a))"

definition validateNonSTUNTraffic :: "nat \<Rightarrow> net_addr \<Rightarrow> Agent \<Rightarrow> bool \<times> Agent" where
  "validateNonSTUNTraffic local remote a =
     (case findRemoteCandidate (c_networkType (cands a ! local)) remote a of
        None \<Rightarrow> (False, a)
      | Some r \<Rightarrow> (True, cand_seen False r a))"

section \<open>Tasks\<close>

text \<open>One round of the connectivity checks.\<close>

definition ice_contact :: "Agent \<Rightarrow> Agent" where
  "ice_contact a =
     (let a = (case a_connectionState a of
                 IceStateFailed \<Rightarrow> a
               | IceStateChecking \<Rightarrow>
                   let a = (if lastConnectionState a \<noteq> a_connectionState a then a\<lparr>checkingSince := a_now a\<rparr> else a)
                   in if a_now a - checkingSince a > disconnectedTimeout a + failedTimeout a
                      then ice_updateConnectionState IceStateFailed a
                      else ContactCandidates a
               | _ \<Rightarrow> ContactCandidates a)
      in a\<lparr>lastConnectionState := a_connectionState a\<rparr>)"

definition SetRemoteCredentials :: "string \<Rightarrow> string \<Rightarrow> Agent \<Rightarrow> ice_error option \<times> Agent" where
  "SetRemoteCredentials ufrag pwd a =
     (if ufrag = [] then (Some ErrRemoteUfragEmpty, a)
      else if pwd = [] then (Some ErrRemotePwdEmpty, a)
      else if a_done a then (Some ErrClosed, a)
      else (None, a\<lparr>remoteUfrag := ufrag, remotePwd := pwd\<rparr>))"

definition startConnectivityChecks :: "bool \<Rightarrow> string \<Rightarrow> string \<Rightarrow> Agent \<Rightarrow> ice_error option \<times> Agent" where
  "startConnectivityChecks controlling ufrag pwd a =
     (if a_started a then (Some ErrMultipleStart, a)
      else case SetRemoteCredentials ufrag pwd a of
             (Some err, a) \<Rightarrow> (Some err, a)
           | (None, a) \<Rightarrow>
               let a = a\<lparr>isControlling := controlling, remoteUfrag := ufrag, remotePwd := pwd,
                       a_selector := (if controlling then ControllingSelector 0 None else ControlledSelector)\<rparr>;
                   a = (selector_Start a)\<lparr>a_started := True\<rparr>;
                   a = ice_updateConnectionState IceStateChecking a
               in (None, requestConnectivityCheck a))"

definition ice_Restart :: "string \<Rightarrow> string \<Rightarrow> Agent \<Rightarrow> ice_error option \<times> Agent" where
  "ice_Restart ufrag pwd a =
     (let ufrag = (if ufrag = [] then generatedUfrag a else ufrag);
          pwd = (if pwd = [] then generatedPwd a else pwd)
      in if length ufrag * 8 < 24 then (Some ErrLocalUfragInsufficientBits, a)
      else if length pwd * 8 < 128 then (Some ErrLocalPwdInsufficientBits, a)
      else if a_done a then (Some ErrClosed, a)
      else
        let a = a\<lparr>localUfrag := ufrag, localPwd := pwd, remoteUfrag := [], remotePwd := [], a_gatheringState := IceGatheringNew,
                checklist := [], pendingBindingRequests := [], selectedPair := None\<rparr>;
            a = selector_Start (deleteAllCandidates a)
        in (None, if a_connectionState a \<noteq> IceStateNew then ice_updateConnectionState IceStateChecking a else a))"

definition ice_Close :: "Agent \<Rightarrow> ice_error option \<times> Agent" where
  "ice_Close a =
     (if a_done a then (Some ErrClosed, a)
      else (None, ice_updateConnectionState IceStateClosed ((deleteAllCandidates (a\<lparr>a_done := True\<rparr>))\<lparr>a_started := True\<rparr>)))"

datatype ice_op =
    IceStart bool string string
  | IceContact
  | IceAddRemote candidate "candidate option"
  | IceAddLocal candidate
  | IceInbound ice_msg nat net_addr
  | IceData nat net_addr
  | IceCredentials string string
  | IceRestart string string
  | IceClose
  | IceTick nat

text \<open>
  Messages reach the agent through a running local candidate after the checks were started; a closed agent runs no tasks.
\<close>

definition ice_step :: "Agent \<Rightarrow> ice_op \<Rightarrow> Agent" where
  "ice_step a op =
     (case op of
        IceTick d \<Rightarrow> a\<lparr>a_now := a_now a + int d\<rparr>
      | IceStart controlling ufrag pwd \<Rightarrow> snd (startConnectivityChecks controlling ufrag pwd a)
      | IceCredentials ufrag pwd \<Rightarrow> snd (SetRemoteCredentials ufrag pwd a)
      | IceRestart ufrag pwd \<Rightarrow> snd (ice_Restart ufrag pwd a)
      | IceClose \<Rightarrow> snd (ice_Close a)
      | IceContact \<Rightarrow> if a_done a \<or> \<not> a_started a then a else ice_contact a
      | IceAddRemote c mdns \<Rightarrow> if a_done a then a else AddRemoteCandidate c mdns a
      | IceAddLocal c \<Rightarrow> if a_done a then a else addCandidate c a
      | IceInbound m local remote \<Rightarrow>
          if a_done a \<or> \<not> a_started a \<or> local \<notin> set (concat (map snd (localCandidates a))) then a else handleInbound m local remote a
      | IceData local remote \<Rightarrow>
          if a_done a \<or> local \<notin> set (concat (map snd (localCandidates a))) then a else snd (validateNonSTUNTraffic local remote a))"

end
