(* ===== verification/IceInvariant.thy ===== *)
theory IceInvariant
  imports IceAgent
begin

text \<open>
  The invariant of the agent and what follows from it for every run: the references of the check list, of the pairs and of the candidate tables are
  valid, and the connection state and the selected pair belong together. Operations that only send are handled once, by the relation \<open>calm\<close>; every
  other operation has a lemma that it keeps the invariant, and \<open>ice_step\<close> is an instance of \<open>guarded_system\<close>.
\<close>

section \<open>Operations that only send\<close>

definition calm :: "Agent \<Rightarrow> Agent \<Rightarrow> bool" where
  "calm a b \<longleftrightarrow>
     pairs b = pairs a \<and> checklist b = checklist a \<and> selectedPair b = selectedPair a \<and> a_connectionState b = a_connectionState a \<and>
     localCandidates b = localCandidates a \<and> remoteCandidates b = remoteCandidates a \<and> length (cands b) = length (cands a) \<and>
     a_selector b = a_selector a \<and> a_started b = a_started a \<and> a_done b = a_done a \<and>
     userBindingRequestHandler b = userBindingRequestHandler a \<and> isControlling b = isControlling a \<and> a_now b = a_now a"

named_theorems calm_intros \<open>operations that only send\<close>

lemma calm_refl [calm_intros]: "calm a a"
  by (simp add: calm_def)

lemma calm_trans: "calm a b \<Longrightarrow> calm b c \<Longrightarrow> calm a c"
  by (simp add: calm_def)

lemma calm_upd_cand [calm_intros]: "calm a (upd_cand i f a)"
  by (simp add: calm_def upd_cand_def)

lemma calm_cand_seen [calm_intros]: "calm a (cand_seen out i a)"
  by (simp add: cand_seen_def calm_intros)

lemma calm_writeTo [calm_intros]: "calm a (ice_writeTo l m r a)"
  by (simp add: ice_writeTo_def Let_def calm_def cand_seen_def upd_cand_def)

lemma calm_sendBindingRequest [calm_intros]: "calm a (sendBindingRequest m l r a)"
  unfolding sendBindingRequest_def sendSTUN_def Let_def
  by (rule calm_trans [OF _ calm_writeTo]) (simp add: calm_def invalidatePendingBindingRequests_def)

lemma calm_sendBindingSuccess [calm_intros]: "calm a (sendBindingSuccess m l r a)"
  by (auto simp: sendBindingSuccess_def sendSTUN_def calm_intros split: option.split)

lemma calm_build: "calm a (snd (build_request as a))"
  by (simp add: build_request_def calm_def)

lemma calm_Ping [calm_intros]: "calm a (controlling_Ping l r a)" "calm a (controlled_Ping l r a)" "calm a (PingCandidate l r a)"
proof -
  show 1: "calm a (controlling_Ping l r a)" and 2: "calm a (controlled_Ping l r a)"
    unfolding controlling_Ping_def controlled_Ping_def split_beta Let_def
    by (rule calm_trans [OF calm_build calm_sendBindingRequest])+
  show "calm a (PingCandidate l r a)"
    by (simp add: PingCandidate_def 1 2 calm_refl split: ice_selector.split)
qed

lemma calm_nominatePair [calm_intros]: "calm a (nominatePair i a)"
  unfolding nominatePair_def split_beta Let_def by (rule calm_trans [OF calm_build calm_sendBindingRequest])

lemma calm_close_cands [calm_intros]: "calm a (close_cands is a)"
  unfolding close_cands_def
proof (induction "is" arbitrary: a)
  case (Cons i "is")
  show ?case
    using Cons.IH [of "upd_cand i (\<lambda>c. c\<lparr>c_open := False\<rparr>) a"] by (auto intro: calm_trans calm_upd_cand)
qed (simp add: calm_refl)

lemma calm_checkKeepalive [calm_intros]: "calm a (checkKeepalive a)"
  by (simp add: checkKeepalive_def Let_def calm_intros split: option.split)

lemma calm_handleInboundBindingSuccess [calm_intros]: "calm a (snd (handleInboundBindingSuccess txid a))"
  by (simp add: handleInboundBindingSuccess_def invalidatePendingBindingRequests_def calm_def Let_def split: option.split)

lemma calm_findPair: "findPair l r a = Some i \<Longrightarrow> i \<in> set (checklist a)"
  by (auto simp: findPair_def find_Some_iff)

section \<open>The invariant\<close>

definition all_refs :: "(NetworkType, nat list) gomap \<Rightarrow> nat list" where
  "all_refs m = concat (map snd m)"

fun nominated_ref :: "ice_selector \<Rightarrow> nat option" where
  "nominated_ref (ControllingSelector t x) = x"
| "nominated_ref _ = None"

definition refs_ok :: "Agent \<Rightarrow> bool" where
  "refs_ok a \<longleftrightarrow>
     distinct (checklist a) \<and>
     (\<forall>i \<in> set (checklist a). i < length (pairs a)) \<and>
     (\<forall>p \<in> set (pairs a). pair_Local p < length (cands a) \<and> pair_Remote p < length (cands a)) \<and>
     (\<forall>i \<in> set (all_refs (localCandidates a)) \<union> set (all_refs (remoteCandidates a)). i < length (cands a)) \<and>
     (\<forall>i. nominated_ref (a_selector a) = Some i \<longrightarrow> i < length (pairs a))"

text \<open>
  A selected pair is in the check list and nominated. Unless the application has a handler of its own for Binding requests, which may select any
  pair, a check over the pair has succeeded.
\<close>

definition selected_ok :: "Agent \<Rightarrow> bool" where
  "selected_ok a \<longleftrightarrow>
     (selectedPair a = None \<longrightarrow> a_connectionState a \<notin> {IceStateConnected, IceStateDisconnected}) \<and>
     (\<forall>i. selectedPair a = Some i \<longrightarrow>
        i \<in> set (checklist a) \<and> nominated (pairs a ! i) \<and>
        (userBindingRequestHandler a = None \<longrightarrow> pair_state (pairs a ! i) = CandidatePairStateSucceeded) \<and>
        a_connectionState a \<in> {IceStateConnected, IceStateDisconnected, IceStateClosed} \<and> a_started a)"

definition ice_inv :: "Agent \<Rightarrow> bool" where
  "ice_inv a \<longleftrightarrow> refs_ok a \<and> selected_ok a"

lemma inv_calm: "calm a b \<Longrightarrow> ice_inv a \<Longrightarrow> ice_inv b"
  by (simp add: calm_def ice_inv_def refs_ok_def selected_ok_def)

lemma inv_refs: "ice_inv a \<Longrightarrow> refs_ok a"
  by (simp add: ice_inv_def)

text \<open>Pairs may move on in their state, as long as their candidates stay and nothing is lost for the selected pair.\<close>

lemma inv_upd_pair:
  assumes "ice_inv a"
    and "\<And>p. pair_Local (f p) = pair_Local p \<and> pair_Remote (f p) = pair_Remote p"
    and "\<And>p. nominated p \<Longrightarrow> nominated (f p)"
    and "pair_state (pairs a ! i) = CandidatePairStateSucceeded \<Longrightarrow> pair_state (f (pairs a ! i)) = CandidatePairStateSucceeded"
  shows "ice_inv (upd_pair i f a)"
proof -
  have 1: "pair_Local p < length (cands a) \<and> pair_Remote p < length (cands a)" if "p \<in> set (pairs (upd_pair i f a))" for p
  proof (cases "i < length (pairs a)")
    case True
    from that have "p \<in> set (pairs a) \<or> p = f (pairs a ! i)"
      using set_update_subset_insert [of "pairs a" i "f (pairs a ! i)"] by (auto simp: upd_pair_def)
    with True assms(1,2) show ?thesis by (auto simp: ice_inv_def refs_ok_def)
  next
    case False
    with that assms(1) show ?thesis by (simp add: upd_pair_def ice_inv_def refs_ok_def list_update_beyond not_less)
  qed
  have "refs_ok (upd_pair i f a)"
    using assms(1) 1 unfolding ice_inv_def refs_ok_def by (simp add: upd_pair_def)
  moreover have "nominated (pairs (upd_pair i f a) ! j)" if "nominated (pairs a ! j)" for j
    using that assms(3) by (cases "i < length (pairs a)") (auto simp: upd_pair_def nth_list_update list_update_beyond not_less)
  moreover have "pair_state (pairs (upd_pair i f a) ! j) = CandidatePairStateSucceeded"
    if "pair_state (pairs a ! j) = CandidatePairStateSucceeded" for j
    using that assms(4) by (cases "i < length (pairs a)"; cases "i = j") (auto simp: upd_pair_def list_update_beyond not_less)
  ultimately have "refs_ok (upd_pair i f a)" "selected_ok (upd_pair i f a)"
    using assms(1) unfolding ice_inv_def selected_ok_def by (simp_all add: upd_pair_def)
  then show ?thesis by (simp add: ice_inv_def)
qed

lemma inv_checklist_updates [simp]:
  "ice_inv (a\<lparr>stateNotes := x1\<rparr>) = ice_inv a"
  "ice_inv (a\<lparr>pairNotes := x2\<rparr>) = ice_inv a"
  "ice_inv (a\<lparr>onConnected := x3\<rparr>) = ice_inv a"
  "ice_inv (a\<lparr>candidateNotes := x4\<rparr>) = ice_inv a"
  "ice_inv (a\<lparr>forceCandidateContact := x5\<rparr>) = ice_inv a"
  "ice_inv (a\<lparr>lastConnectionState := x6\<rparr>) = ice_inv a"
  "ice_inv (a\<lparr>checkingSince := x7\<rparr>) = ice_inv a"
  "ice_inv (a\<lparr>a_now := x8\<rparr>) = ice_inv a"
  "ice_inv (a\<lparr>remoteUfrag := x9\<rparr>) = ice_inv a"
  "ice_inv (a\<lparr>remotePwd := x10\<rparr>) = ice_inv a"
  "ice_inv (a\<lparr>isControlling := x11\<rparr>) = ice_inv a"
  "ice_inv (a\<lparr>a_done := x12\<rparr>) = ice_inv a"
  "ice_inv (a\<lparr>localUfrag := x13\<rparr>) = ice_inv a"
  "ice_inv (a\<lparr>localPwd := x14\<rparr>) = ice_inv a"
  "ice_inv (a\<lparr>a_gatheringState := x15\<rparr>) = ice_inv a"
  "ice_inv (a\<lparr>pendingBindingRequests := x16\<rparr>) = ice_inv a"
  by (simp_all add: ice_inv_def refs_ok_def selected_ok_def)

lemma inv_started: "ice_inv a \<Longrightarrow> ice_inv (a\<lparr>a_started := True\<rparr>)"
  by (auto simp: ice_inv_def refs_ok_def selected_ok_def)

lemma refs_ok_nominate: "refs_ok a \<Longrightarrow> i < length (pairs a) \<Longrightarrow> refs_ok (a\<lparr>a_selector := ControllingSelector t (Some i)\<rparr>)"
  by (simp add: refs_ok_def)

lemma inv_nominate: "ice_inv a \<Longrightarrow> i < length (pairs a) \<Longrightarrow> ice_inv (a\<lparr>a_selector := ControllingSelector t (Some i)\<rparr>)"
  by (simp add: ice_inv_def refs_ok_nominate selected_ok_def)

section \<open>Connection state and selected pair\<close>

lemma calm_emptied:
  "calm (a\<lparr>localCandidates := [], remoteCandidates := []\<rparr>) (deleteAllCandidates a)"
proof -
  let ?b = "close_cands (concat (map snd (localCandidates a))) a"
  let ?c = "close_cands (concat (map snd (remoteCandidates ?b))) (?b\<lparr>localCandidates := []\<rparr>)"
  have "calm a ?b" "calm (?b\<lparr>localCandidates := []\<rparr>) ?c" by (rule calm_close_cands)+
  then show ?thesis by (simp add: deleteAllCandidates_def Let_def calm_def)
qed

lemma inv_deleteAllCandidates: "ice_inv a \<Longrightarrow> ice_inv (deleteAllCandidates a)"
  by (rule inv_calm [OF calm_emptied]) (auto simp: ice_inv_def refs_ok_def selected_ok_def all_refs_def)

text \<open>Without a selected pair every state but Connected and Disconnected is fine; with one, exactly these two and Closed.\<close>

lemma refs_deleteAllCandidates: "refs_ok a \<Longrightarrow> refs_ok (deleteAllCandidates a)"
  using calm_emptied [of a]
  by (auto simp: calm_def refs_ok_def all_refs_def)

lemma inv_failed: "ice_inv a \<Longrightarrow> ice_inv (ice_updateConnectionState IceStateFailed a)"
proof (cases "a_connectionState a = IceStateFailed")
  case False
  assume a: "ice_inv a"
  let ?a = "a\<lparr>checklist := [], pendingBindingRequests := [], selectedPair := None\<rparr>"
  from a have "refs_ok ?a" by (simp add: ice_inv_def refs_ok_def)
  with False refs_deleteAllCandidates [of ?a] calm_emptied [of ?a] show ?thesis
    by (simp add: ice_updateConnectionState_def Let_def ice_inv_def selected_ok_def calm_def)
       (simp add: refs_ok_def)
qed (simp add: ice_updateConnectionState_def)

lemma updateConnectionState_other:
  "s \<noteq> IceStateFailed \<Longrightarrow> ice_updateConnectionState s a = (if a_connectionState a \<noteq> s then a\<lparr>a_connectionState := s, stateNotes := stateNotes a @ [s]\<rparr> else a)"
  by (simp add: ice_updateConnectionState_def)

lemma inv_state:
  assumes "refs_ok a" "s \<noteq> IceStateFailed" "selected_ok (a\<lparr>a_connectionState := s\<rparr>)"
  shows "ice_inv (ice_updateConnectionState s a)"
proof (cases "a_connectionState a = s")
  case True
  with assms show ?thesis by (simp add: updateConnectionState_other ice_inv_def selected_ok_def)
next
  case False
  with assms show ?thesis by (simp add: updateConnectionState_other ice_inv_def selected_ok_def refs_ok_def)
qed

lemma inv_validateSelectedPair: "ice_inv a \<Longrightarrow> ice_inv (snd (validateSelectedPair a))"
proof (cases "selectedPair a")
  case (Some i)
  assume a: "ice_inv a"
  have "ice_inv (ice_updateConnectionState s a)" if "s \<in> {IceStateDisconnected, IceStateConnected}" for s
    by (rule inv_state) (use a Some that in \<open>auto simp: ice_inv_def selected_ok_def\<close>)
  with a inv_failed [OF a] Some show ?thesis by (simp add: validateSelectedPair_def Let_def)
qed (simp add: validateSelectedPair_def)

lemma inv_setSelectedPair:
  assumes a: "ice_inv a" and "i \<in> set (checklist a)" "a_started a"
    and "userBindingRequestHandler a = None \<Longrightarrow> pair_state (pairs a ! i) = CandidatePairStateSucceeded"
  shows "ice_inv (setSelectedPair i a)"
proof -
  have 1: "ice_inv (upd_pair i (\<lambda>p. p\<lparr>nominated := True\<rparr>) a)"
    by (rule inv_upd_pair [OF a]) auto
  let ?b = "(upd_pair i (\<lambda>p. p\<lparr>nominated := True\<rparr>) a)\<lparr>selectedPair := Some i\<rparr>"
  have "i < length (pairs a)" using assms by (simp add: ice_inv_def refs_ok_def)
  with assms have "selected_ok (?b\<lparr>a_connectionState := IceStateConnected\<rparr>)"
    by (simp add: selected_ok_def upd_pair_def)
  moreover have "refs_ok ?b" using 1 by (simp add: ice_inv_def refs_ok_def)
  ultimately have "ice_inv (ice_updateConnectionState IceStateConnected ?b)" by (intro inv_state) auto
  then show ?thesis by (simp add: setSelectedPair_def Let_def)
qed


section \<open>The check list\<close>

lemma addPair_fst: "fst (addPair l r a) = length (pairs a)"
  by (simp add: addPair_def)

lemma inv_addPair:
  assumes "ice_inv a" "l < length (cands a)" "r < length (cands a)"
  shows "ice_inv (snd (addPair l r a))"
  using assms by (auto simp: ice_inv_def refs_ok_def selected_ok_def addPair_def newCandidatePair_def nth_append less_Suc_eq)

lemma upd_pair_state:
  "pair_state (pairs (upd_pair i (\<lambda>p. p\<lparr>pair_state := s\<rparr>) a) ! i) = (if i < length (pairs a) then s else pair_state (pairs a ! i))"
  by (simp add: upd_pair_def list_update_beyond not_less)

lemma inv_ping_pair: "ice_inv a \<Longrightarrow> ice_inv (ping_pair a i)"
proof -
  assume a: "ice_inv a"
  let ?p = "pairs a ! i"
  let ?b = "upd_pair i (\<lambda>p. p\<lparr>pair_state := CandidatePairStateInProgress\<rparr>) a"
  let ?c = "PingCandidate (pair_Local ?p) (pair_Remote ?p) ?b"
  have q: "calm ?b ?c" by (rule calm_Ping)
  have "ice_inv ?b" if "pair_state ?p \<noteq> CandidatePairStateSucceeded"
    by (rule inv_upd_pair [OF a]) (use that in auto)
  moreover have "ice_inv (upd_pair i (\<lambda>p. p\<lparr>pair_state := CandidatePairStateFailed\<rparr>) ?b)"
    if "ice_inv ?b" "pair_state ?p \<noteq> CandidatePairStateSucceeded"
    by (rule inv_upd_pair [OF that(1)]) (use that(2) in \<open>auto simp: upd_pair_state split: if_splits\<close>)
  moreover have "ice_inv (upd_pair i (\<lambda>p. p\<lparr>bindingRequestCount := bindingRequestCount p + 1\<rparr>) ?c)" if "ice_inv ?b"
    by (rule inv_upd_pair [OF inv_calm [OF q that]]) auto
  ultimately show ?thesis using a by (auto simp: ping_pair_def Let_def)
qed

lemma inv_foldl: "(\<And>a i. ice_inv a \<Longrightarrow> ice_inv (f a i)) \<Longrightarrow> ice_inv a \<Longrightarrow> ice_inv (foldl f a xs)"
  by (induction xs arbitrary: a) auto

lemma inv_pingAllCandidates: "ice_inv a \<Longrightarrow> ice_inv (pingAllCandidates a)"
  unfolding pingAllCandidates_def by (rule inv_foldl) (rule inv_ping_pair)

text \<open>The search for the best pair returns an eligible pair of the check list with the highest priority, if there is an eligible one.\<close>

definition best_of :: "(nat \<Rightarrow> bool) \<Rightarrow> (nat \<Rightarrow> u64) \<Rightarrow> nat set \<Rightarrow> nat option \<Rightarrow> bool" where
  "best_of ok prio S best \<longleftrightarrow>
     (best = None \<longrightarrow> (\<forall>i \<in> S. \<not> ok i)) \<and> (\<forall>j. best = Some j \<longrightarrow> j \<in> S \<and> ok j \<and> (\<forall>i \<in> S. ok i \<longrightarrow> prio i \<le> prio j))"

lemma best_fold:
  assumes "best_of ok prio S best"
  shows "best_of ok prio (S \<union> set xs)
           (foldl (\<lambda>best i. if \<not> ok i then best else case best of None \<Rightarrow> Some i | Some j \<Rightarrow> if prio j < prio i then Some i else Some j) best xs)"
  using assms
proof (induction xs arbitrary: best S)
  case (Cons x xs)
  have "best_of ok prio (insert x S)
          (if \<not> ok x then best else case best of None \<Rightarrow> Some x | Some j \<Rightarrow> if prio j < prio x then Some x else Some j)"
    using Cons.prems by (auto simp: best_of_def not_less intro: order.trans less_imp_le split: option.splits)
  from Cons.IH [OF this] show ?case by simp
qed simp

lemma best_pair_maximal: "best_of (\<lambda>i. ok (pairs a ! i)) (the_priority a) (set (checklist a)) (best_pair ok a)"
proof -
  have "best_of (\<lambda>i. ok (pairs a ! i)) (the_priority a) {} None" by (simp add: best_of_def)
  from best_fold [OF this, of "checklist a"] show ?thesis by (simp add: best_pair_def)
qed

lemma best_pair_in: "best_pair ok a = Some i \<Longrightarrow> i \<in> set (checklist a)"
  using best_pair_maximal [where ok = ok and a = a] by (simp add: best_of_def)

lemma inv_in_range: "ice_inv a \<Longrightarrow> i \<in> set (checklist a) \<Longrightarrow> i < length (pairs a)"
  by (simp add: ice_inv_def refs_ok_def)

section \<open>Selectors\<close>

lemma inv_check_selected: "ice_inv a \<Longrightarrow> ice_inv (check_selected a)"
  using inv_validateSelectedPair [of a] inv_calm [OF calm_checkKeepalive]
  by (auto simp: check_selected_def split: prod.split)

lemma inv_controlling_Contact: "ice_inv a \<Longrightarrow> ice_inv (controlling_Contact t n a)"
proof -
  assume a: "ice_inv a"
  let ?nom = "\<lambda>i. upd_pair i (\<lambda>p. p\<lparr>nominated := True\<rparr>) a"
  have "ice_inv (nominatePair i ((?nom i)\<lparr>a_selector := ControllingSelector t (Some i)\<rparr>))" if "i < length (pairs a)" for i
  proof (rule inv_calm [OF calm_nominatePair inv_nominate])
    show "ice_inv (?nom i)" by (rule inv_upd_pair [OF a]) auto
    show "i < length (pairs (?nom i))" using that by (simp add: upd_pair_def)
  qed
  with a show ?thesis
    by (auto simp: controlling_Contact_def getBestValidCandidatePair_def inv_check_selected inv_pingAllCandidates inv_calm [OF calm_nominatePair]
        dest: best_pair_in inv_in_range split: option.split)
qed

lemma inv_ContactCandidates: "ice_inv a \<Longrightarrow> ice_inv (ContactCandidates a)"
  by (auto simp: ContactCandidates_def controlled_Contact_def inv_controlling_Contact inv_validateSelectedPair inv_check_selected
      inv_pingAllCandidates split: ice_selector.split)

lemma inv_user_switch: "ice_inv a \<Longrightarrow> i \<in> set (checklist a) \<Longrightarrow> a_started a \<Longrightarrow> ice_inv (user_switch m l r i a)"
  by (auto simp: user_switch_def intro: inv_setSelectedPair split: option.split)


lemma inv_controlling_HandleRequest:
  assumes a: "ice_inv a" and s: "a_started a" and "l < length (cands a)" "r < length (cands a)"
  shows "ice_inv (controlling_HandleRequest t n m l r a)"
proof -
  let ?b = "sendBindingSuccess m l r a"
  have q: "calm a ?b" by (rule calm_sendBindingSuccess)
  then have b: "ice_inv ?b" "a_started ?b" "length (cands ?b) = length (cands a)"
    using inv_calm [OF q a] s by (auto simp: calm_def)
  show ?thesis
  proof (cases "findPair l r ?b")
    case None
    with b assms inv_addPair [of ?b l r] show ?thesis by (simp add: controlling_HandleRequest_def Let_def)
  next
    case (Some i)
    then have i: "i \<in> set (checklist ?b)" by (rule calm_findPair)
    let ?d = "nominatePair i (?b\<lparr>a_selector := ControllingSelector t (Some i)\<rparr>)"
    have d: "calm (?b\<lparr>a_selector := ControllingSelector t (Some i)\<rparr>) ?d" by (rule calm_nominatePair)
    have "ice_inv ?d" using inv_calm [OF d inv_nominate [OF b(1) inv_in_range [OF b(1) i]]] .
    moreover have "i \<in> set (checklist ?d)" "a_started ?d" using d i b(2) by (simp_all add: calm_def)
    ultimately show ?thesis
      using Some b i by (auto simp: controlling_HandleRequest_def Let_def intro!: inv_user_switch split: option.split)
  qed
qed

text \<open>A confirmed pair is in the check list, in state Succeeded, and nothing else of the pairs has changed.\<close>

lemma confirm_pair_inv:
  assumes a: "ice_inv a" and c: "confirm_pair m l r addr a = (x, b)"
  shows "ice_inv b" "a_started b = a_started a"
    "x = Some (q, i) \<Longrightarrow> i \<in> set (checklist b) \<and> pair_state (pairs b ! i) = CandidatePairStateSucceeded"
proof -
  obtain y d where h: "handleInboundBindingSuccess (im_txid m) a = (y, d)" by fastforce
  with calm_handleInboundBindingSuccess [of a "im_txid m"] have qd: "calm a d" by simp
  with a have d: "ice_inv d" "a_started d = a_started a" by (auto intro: inv_calm simp: calm_def)
  have s: "ice_inv (upd_pair i (\<lambda>p. p\<lparr>pair_state := CandidatePairStateSucceeded\<rparr>) d)" for i
    by (rule inv_upd_pair [OF d(1)]) auto
  show "ice_inv b" "a_started b = a_started a"
    using c h d s by (auto simp: confirm_pair_def upd_pair_def split: option.splits if_splits)
  show "i \<in> set (checklist b) \<and> pair_state (pairs b ! i) = CandidatePairStateSucceeded" if "x = Some (q, i)"
    using c h that inv_in_range [OF d(1)]
    by (auto simp: confirm_pair_def upd_pair_def split: option.splits if_splits dest: calm_findPair)
qed

lemma inv_controlling_HandleSuccess:
  assumes "ice_inv a" "a_started a"
  shows "ice_inv (controlling_HandleSuccess m l r addr a)"
proof -
  obtain x b where c: "confirm_pair m l r addr a = (x, b)" by fastforce
  with confirm_pair_inv [OF assms(1) c] assms(2) show ?thesis
    by (auto simp: controlling_HandleSuccess_def intro: inv_setSelectedPair split: option.split)
qed

lemma inv_switch_to:
  "ice_inv a \<Longrightarrow> a_started a \<Longrightarrow> i \<in> set (checklist a) \<Longrightarrow> pair_state (pairs a ! i) = CandidatePairStateSucceeded \<Longrightarrow> ice_inv (switch_to i a)"
  by (auto simp: switch_to_def intro: inv_setSelectedPair split: option.split)

lemma inv_controlled_HandleSuccess:
  assumes "ice_inv a" "a_started a"
  shows "ice_inv (controlled_HandleSuccess m l r addr a)"
proof -
  obtain x b where c: "confirm_pair m l r addr a = (x, b)" by fastforce
  with confirm_pair_inv [OF assms(1) c] assms(2) show ?thesis
    by (auto simp: controlled_HandleSuccess_def intro: inv_switch_to split: option.split)
qed

lemma keeps_setSelectedPair [simp]:
  "checklist (setSelectedPair i a) = checklist a" "a_started (setSelectedPair i a) = a_started a"
  by (simp_all add: setSelectedPair_def Let_def ice_updateConnectionState_def upd_pair_def)

lemma keeps_switch_to [simp]: "checklist (switch_to i a) = checklist a" "a_started (switch_to i a) = a_started a"
  by (simp_all add: switch_to_def split: option.split)

text \<open>Finding or adding the pair of a request.\<close>

lemma inv_pair_of:
  assumes "ice_inv a" "l < length (cands a)" "r < length (cands a)"
    and f: "(case findPair l r a of Some i \<Rightarrow> (i, a) | None \<Rightarrow> addPair l r a) = (i, b)"
  shows "ice_inv b" "i \<in> set (checklist b)" "a_started b = a_started a"
proof -
  have "addPair l r a = (length (pairs a), snd (addPair l r a))" by (simp add: addPair_def)
  with assms inv_addPair [OF assms(1-3)] show "ice_inv b" "i \<in> set (checklist b)" "a_started b = a_started a"
    by (auto simp: addPair_def split: option.splits dest: calm_findPair)
qed

lemma inv_controlled_HandleRequest:
  assumes "ice_inv a" "a_started a" "l < length (cands a)" "r < length (cands a)"
  shows "ice_inv (controlled_HandleRequest m l r a)"
proof -
  obtain i b where f: "(case findPair l r a of Some i \<Rightarrow> (i, a) | None \<Rightarrow> addPair l r a) = (i, b)" by fastforce
  note b = inv_pair_of [OF assms(1,3,4) f]
  let ?c = "if has_UseCandidate m
            then (if pair_state (pairs b ! i) = CandidatePairStateSucceeded then switch_to i b
                  else upd_pair i (\<lambda>p. p\<lparr>nominateOnBindingSuccess := True\<rparr>) b)
            else b"
  have "ice_inv (upd_pair i (\<lambda>p. p\<lparr>nominateOnBindingSuccess := True\<rparr>) b)" by (rule inv_upd_pair [OF b(1)]) auto
  then have c: "ice_inv ?c" "i \<in> set (checklist ?c)" "a_started ?c"
    using b assms(2) by (auto simp: inv_switch_to) (simp_all add: upd_pair_def)
  let ?d = "controlled_Ping l r (sendBindingSuccess m l r ?c)"
  have q: "calm ?c ?d" by (rule calm_trans [OF calm_sendBindingSuccess calm_Ping(2)])
  have "ice_inv ?d" "i \<in> set (checklist ?d)" "a_started ?d" using inv_calm [OF q c(1)] q c(2,3) by (simp_all only: calm_def)
  then have "ice_inv (user_switch m l r i ?d)" by (rule inv_user_switch)
  then show ?thesis unfolding controlled_HandleRequest_def by (simp add: f Let_def)
qed


section \<open>Candidates\<close>

lemma set_of_refs: "set (set_of m t) \<subseteq> set (all_refs m)"
proof (cases "map_of m t")
  case (Some s)
  then have "(t, s) \<in> set m" by (rule map_of_SomeD)
  with Some show ?thesis by (force simp: set_of_def all_refs_def)
qed (simp add: set_of_def)

lemma refs_update: "set (all_refs (AList.update t is m)) \<subseteq> set is \<union> set (all_refs m)"
  by (induction m) (auto simp: all_refs_def split: if_splits)

lemma inv_alloc_cand: "ice_inv a \<Longrightarrow> ice_inv (a\<lparr>cands := cands a @ cs\<rparr>)"
  by (simp add: ice_inv_def refs_ok_def selected_ok_def trans_less_add1)

lemma calm_start_cand [calm_intros]: "calm a (start_cand i a)"
  by (simp add: start_cand_def calm_intros)

lemma inv_localCandidates:
  "ice_inv a \<Longrightarrow> \<forall>i \<in> set is. i < length (cands a) \<Longrightarrow> ice_inv (a\<lparr>localCandidates := AList.update t is (localCandidates a)\<rparr>)"
  using refs_update [of t "is" "localCandidates a"] by (fastforce simp: ice_inv_def refs_ok_def selected_ok_def)

lemma inv_remoteCandidates:
  "ice_inv a \<Longrightarrow> \<forall>i \<in> set is. i < length (cands a) \<Longrightarrow> ice_inv (a\<lparr>remoteCandidates := AList.update t is (remoteCandidates a)\<rparr>)"
  using refs_update [of t "is" "remoteCandidates a"] by (fastforce simp: ice_inv_def refs_ok_def selected_ok_def)

lemma inv_set_of:
  assumes "ice_inv a"
  shows "i \<in> set (set_of (localCandidates a) t) \<Longrightarrow> i < length (cands a)" "i \<in> set (set_of (remoteCandidates a) t) \<Longrightarrow> i < length (cands a)"
  using assms set_of_refs [of "localCandidates a" t] set_of_refs [of "remoteCandidates a" t] by (auto simp: ice_inv_def refs_ok_def)

lemma inv_add_local: "ice_inv a \<Longrightarrow> i < length (cands a) \<Longrightarrow> ice_inv (add_local i a)"
  by (auto simp: add_local_def Let_def inv_set_of intro!: inv_localCandidates)

lemma keeps_add_local [simp]: "cands (add_local i a) = cands a" "a_started (add_local i a) = a_started a"
  by (simp_all add: add_local_def Let_def)

lemma keeps_addPair [simp]:
  "cands (snd (addPair l r a)) = cands a" "a_started (snd (addPair l r a)) = a_started a"
  "localCandidates (snd (addPair l r a)) = localCandidates a" "remoteCandidates (snd (addPair l r a)) = remoteCandidates a"
  by (simp_all add: addPair_def)

text \<open>What adding candidates keeps: the invariant, the heap of candidates up to new ones, and whether the agent was started.\<close>

definition grows :: "Agent \<Rightarrow> Agent \<Rightarrow> bool" where
  "grows a b \<longleftrightarrow> ice_inv b \<and> length (cands a) \<le> length (cands b) \<and> a_started b = a_started a"

lemma grows_refl: "ice_inv a \<Longrightarrow> grows a a"
  by (simp add: grows_def)

lemma grows_trans: "grows a b \<Longrightarrow> grows b c \<Longrightarrow> grows a c"
  by (simp add: grows_def)

lemma grows_calm: "grows a b \<Longrightarrow> calm b c \<Longrightarrow> grows a c"
  using inv_calm [of b c] by (simp add: grows_def calm_def)

lemma grows_foldl:
  assumes "ice_inv a" "\<And>b x. x \<in> set xs \<Longrightarrow> grows a b \<Longrightarrow> grows a (f b x)"
  shows "grows a (foldl f a xs)"
proof -
  have "grows a (foldl f b xs)" if "grows a b" for b
    using that assms(2) by (induction xs arbitrary: b) auto
  with assms(1) show ?thesis by (simp add: grows_refl)
qed

lemma grows_addPairs:
  assumes "ice_inv a" "\<And>x. x \<in> set xs \<Longrightarrow> fst (g x) < length (cands a) \<and> snd (g x) < length (cands a)"
  shows "grows a (foldl (\<lambda>b x. snd (addPair (fst (g x)) (snd (g x)) b)) a xs)"
  by (rule grows_foldl [OF assms(1)]) (use assms(2) in \<open>force simp: grows_def intro: inv_addPair\<close>)

text \<open>A new local candidate: its place in the heap, its start and its entry in the table.\<close>

lemma grows_new_local:
  assumes "ice_inv a" and i: "i = length (cands a)" and b: "b = start_cand i (a\<lparr>cands := cands a @ [c]\<rparr>)"
  shows "grows a (add_local i b)" "i < length (cands (add_local i b))"
proof -
  have q: "calm (a\<lparr>cands := cands a @ [c]\<rparr>) b" unfolding b by (rule calm_start_cand)
  with inv_calm [OF q inv_alloc_cand [OF assms(1)]] i
  have "ice_inv b" "i < length (cands b)" "length (cands b) = Suc (length (cands a))" "a_started b = a_started a"
    by (simp_all add: calm_def)
  then show "grows a (add_local i b)" "i < length (cands (add_local i b))" by (simp_all add: grows_def inv_add_local)
qed

lemma grows_add_active:
  assumes "ice_inv a" "r < length (cands a)"
  shows "grows a (add_active r a conn)"
proof (cases "NewCandidateHost (a_parseIP a) (NetworkType_String (c_networkType (cands a ! r))) (fst conn) (snd conn) 1 0 [] TCPTypeActive")
  case (Inr c)
  let ?i = "length (cands a)"
  let ?b = "add_local ?i (start_cand ?i (a\<lparr>cands := cands a @ [c]\<rparr>))"
  let ?c = "?b\<lparr>candidateNotes := candidateNotes ?b @ [?i]\<rparr>"
  note g = grows_new_local [OF assms(1) refl refl, of c]
  have "ice_inv ?c" "length (cands ?c) = length (cands ?b)" "a_started ?c = a_started ?b"
    using g by (simp_all add: grows_def)
  moreover from this have "ice_inv (snd (addPair ?i r ?c))"
    using g assms(2) by (intro inv_addPair) (auto simp: grows_def)
  ultimately show ?thesis using g(1) Inr by (simp add: add_active_def alloc_cand_def Let_def grows_def)
qed (use assms in \<open>simp add: add_active_def grows_refl\<close>)

lemma grows_addRemoteCandidate:
  assumes a: "ice_inv a" and i: "i < length (cands a)"
  shows "grows a (addRemoteCandidate i a)"
proof -
  let ?c = "cands a ! i" and ?t = "c_networkType (cands a ! i)"
  let ?known = "set_of (remoteCandidates a) ?t"
  define b where
    "b = (if \<not> disableActiveTCP a \<and> list_ex IsTCP (networkTypes a) \<and> c_tcpType ?c = TCPTypePassive then addRemotePassiveTCPCandidate i a else a)"
  define d where "d = b\<lparr>remoteCandidates := AList.update ?t (?known @ [i]) (remoteCandidates b)\<rparr>"
  have "grows a (foldl (add_active i) a (activeTCPConns a ?c))"
  proof (rule grows_foldl [OF a])
    fix b x assume b: "grows a b"
    with i have "ice_inv b" "i < length (cands b)" by (simp_all add: grows_def)
    then show "grows a (add_active i b x)" by (rule grows_trans [OF b grows_add_active])
  qed
  then have b: "grows a b" using a by (simp add: addRemotePassiveTCPCandidate_def grows_refl b_def)
  have k: "\<forall>j \<in> set (?known @ [i]). j < length (cands b)"
    using b i inv_set_of(2) [OF a, of _ ?t] by (auto simp: grows_def dest: order.strict_trans2)
  have "ice_inv d" unfolding d_def by (rule inv_remoteCandidates [OF _ k]) (use b in \<open>simp only: grows_def\<close>)
  with b have d: "grows a d" "ice_inv d" "length (cands d) = length (cands b)" by (simp_all add: grows_def d_def)
  have "grows d (foldl (\<lambda>a l. snd (addPair l i a)) d (set_of (localCandidates d) ?t))"
    using grows_addPairs [OF d(2), of "set_of (localCandidates d) ?t" "\<lambda>l. (l, i)"] inv_set_of(1) [OF d(2), of _ ?t] k d(3) by simp
  then have "grows a (if c_tcpType ?c \<noteq> TCPTypePassive then foldl (\<lambda>a l. snd (addPair l i a)) d (set_of (localCandidates d) ?t) else d)"
    using d(1) grows_trans by simp
  then show ?thesis
    unfolding addRemoteCandidate_def Let_def requestConnectivityCheck_def b_def [symmetric] d_def [symmetric]
    using grows_refl [OF a] by (simp add: grows_def)
qed

lemma grows_alloc: "ice_inv a \<Longrightarrow> grows a (a\<lparr>cands := cands a @ [c]\<rparr>)"
  by (simp add: grows_def inv_alloc_cand)

lemma inv_AddRemoteCandidate: "ice_inv a \<Longrightarrow> ice_inv (AddRemoteCandidate c mdns a)"
proof -
  assume a: "ice_inv a"
  have "ice_inv (addRemoteCandidate (length (cands a)) (a\<lparr>cands := cands a @ [d]\<rparr>))" for d
    using grows_addRemoteCandidate [OF inv_alloc_cand [OF a], of "length (cands a)" "[d]"] by (simp add: grows_def)
  with a show ?thesis by (simp add: AddRemoteCandidate_def alloc_cand_def split: option.split)
qed

lemma inv_addCandidate: "ice_inv a \<Longrightarrow> ice_inv (addCandidate c a)"
proof -
  assume a: "ice_inv a"
  let ?i = "length (cands a)"
  let ?b = "add_local ?i (start_cand ?i (a\<lparr>cands := cands a @ [c]\<rparr>))"
  have b: "ice_inv ?b" "?i < length (cands ?b)" using grows_new_local [OF a refl refl, of c] by (simp_all add: grows_def)
  have "grows ?b (foldl (\<lambda>a r. snd (addPair ?i r a)) ?b (set_of (remoteCandidates ?b) (c_networkType c)))"
    using grows_addPairs [OF b(1), of "set_of (remoteCandidates ?b) (c_networkType c)" "\<lambda>r. (?i, r)"] b(2)
      inv_set_of(2) [OF b(1), of _ "c_networkType c"] by simp
  with a show ?thesis by (simp add: addCandidate_def alloc_cand_def Let_def requestConnectivityCheck_def grows_def)
qed


section \<open>Inbound messages and tasks\<close>

lemma findRemoteCandidate_in: "findRemoteCandidate t addr a = Some r \<Longrightarrow> r \<in> set (set_of (remoteCandidates a) t)"
  by (auto simp: findRemoteCandidate_def find_Some_iff split: option.splits)

lemma request_remote_grows:
  assumes a: "ice_inv a" and f: "\<And>r. found = Some r \<Longrightarrow> r < length (cands a)" and q: "request_remote l addr found a = (x, b)"
  shows "grows a b" "x = Some r \<Longrightarrow> r < length (cands b)"
proof -
  have g: "grows a (addRemoteCandidate (length (cands a)) (a\<lparr>cands := cands a @ [c]\<rparr>))"
    "length (cands a) < length (cands (addRemoteCandidate (length (cands a)) (a\<lparr>cands := cands a @ [c]\<rparr>)))" for c
    using grows_addRemoteCandidate [OF inv_alloc_cand [OF a], of "length (cands a)" "[c]"] by (auto simp: grows_def)
  show "grows a b" "x = Some r \<Longrightarrow> r < length (cands b)"
    using a f q g by (auto simp: request_remote_def alloc_cand_def grows_refl split: option.splits sum.splits)
qed

lemma inv_HandleBindingRequest:
  "ice_inv a \<Longrightarrow> a_started a \<Longrightarrow> l < length (cands a) \<Longrightarrow> r < length (cands a) \<Longrightarrow> ice_inv (HandleBindingRequest m l r a)"
  by (simp add: HandleBindingRequest_def inv_controlling_HandleRequest inv_controlled_HandleRequest split: ice_selector.split)

lemma inv_HandleSuccessResponse: "ice_inv a \<Longrightarrow> a_started a \<Longrightarrow> ice_inv (HandleSuccessResponse m l r addr a)"
  by (simp add: HandleSuccessResponse_def inv_controlling_HandleSuccess inv_controlled_HandleSuccess split: ice_selector.split)

lemma inv_handleInbound:
  assumes a: "ice_inv a" "a_started a" and l: "l < length (cands a)"
  shows "ice_inv (handleInbound m l addr a)"
proof -
  let ?found = "findRemoteCandidate (c_networkType (cands a ! l)) addr a"
  have f: "r < length (cands a)" if "?found = Some r" for r
    using inv_set_of(2) [OF a(1) findRemoteCandidate_in [OF that]] .
  have seen: "ice_inv b \<Longrightarrow> ice_inv (cand_seen out r b)" for b out r by (rule inv_calm [OF calm_cand_seen])
  obtain x b where q: "request_remote l addr ?found a = (x, b)" by fastforce
  note g = request_remote_grows [OF a(1) f q]
  have "ice_inv (case x of None \<Rightarrow> b | Some r \<Rightarrow> cand_seen False r (HandleBindingRequest m l r b))"
    using g a(2) l by (auto simp: grows_def intro!: seen inv_HandleBindingRequest split: option.split)
  then show ?thesis
    using a q by (auto simp: handleInbound_def Let_def seen inv_HandleSuccessResponse split: ice_class.split option.split)
qed

lemma inv_ice_contact: "ice_inv a \<Longrightarrow> ice_inv (ice_contact a)"
  by (simp add: ice_contact_def Let_def inv_failed inv_ContactCandidates split: IceConnectionState.split)

text \<open>The operations that reset the agent leave no selected pair, and no state that needs one.\<close>

lemma inv_selector_Start: "ice_inv a \<Longrightarrow> ice_inv (selector_Start a)"
  by (simp add: selector_Start_def ice_inv_def refs_ok_def selected_ok_def split: ice_selector.split)

lemma keeps_selector_Start [simp]:
  "selectedPair (selector_Start a) = selectedPair a" "a_connectionState (selector_Start a) = a_connectionState a"
  by (simp_all add: selector_Start_def split: ice_selector.split)

lemma inv_to_checking: "refs_ok a \<Longrightarrow> selectedPair a = None \<Longrightarrow> ice_inv (ice_updateConnectionState IceStateChecking a)"
  by (rule inv_state) (simp_all add: selected_ok_def)

lemma inv_startConnectivityChecks:
  assumes "ice_inv a"
  shows "ice_inv (snd (startConnectivityChecks c u p a))"
proof (cases "a_started a \<or> u = [] \<or> p = [] \<or> a_done a")
  case False
  let ?b = "a\<lparr>remoteUfrag := u, remotePwd := p, isControlling := c, remoteUfrag := u, remotePwd := p,
              a_selector := (if c then ControllingSelector 0 None else ControlledSelector)\<rparr>"
  from assms have "ice_inv ?b" by (auto simp: ice_inv_def refs_ok_def selected_ok_def)
  from inv_selector_Start [OF this] have "refs_ok ((selector_Start ?b)\<lparr>a_started := True\<rparr>)" by (simp add: ice_inv_def refs_ok_def)
  moreover have "selectedPair a = None" using assms False by (auto simp: ice_inv_def selected_ok_def)
  ultimately have "ice_inv (ice_updateConnectionState IceStateChecking ((selector_Start ?b)\<lparr>a_started := True\<rparr>))"
    by (intro inv_to_checking) simp_all
  with False show ?thesis
    by (simp add: startConnectivityChecks_def SetRemoteCredentials_def Let_def requestConnectivityCheck_def)
qed (use assms in \<open>auto simp: startConnectivityChecks_def SetRemoteCredentials_def\<close>)

lemma inv_Restart:
  assumes "ice_inv a"
  shows "ice_inv (snd (ice_Restart u p a))"
proof -
  let ?b = "\<lambda>u p. a\<lparr>localUfrag := u, localPwd := p, remoteUfrag := [], remotePwd := [], a_gatheringState := IceGatheringNew,
              checklist := [], pendingBindingRequests := [], selectedPair := None\<rparr>"
  let ?c = "\<lambda>u p. selector_Start (deleteAllCandidates (?b u p))"
  have "refs_ok (?b u p)" for u p using assms by (simp add: ice_inv_def refs_ok_def)
  then have r: "refs_ok (?c u p)" for u p
    by (simp add: selector_Start_def refs_ok_def split: ice_selector.split) (use refs_deleteAllCandidates [of "?b u p"] in \<open>simp add: refs_ok_def\<close>)
  have q: "selectedPair (?c u p) = None" "a_connectionState (?c u p) = a_connectionState a" for u p
    using calm_emptied [of "?b u p"] by (simp_all add: calm_def)
  have "ice_inv (ice_updateConnectionState IceStateChecking (?c u p))" for u p using r q by (intro inv_to_checking) simp_all
  moreover have "ice_inv (?c u p)" if "a_connectionState a = IceStateNew" for u p using r q that by (simp add: ice_inv_def selected_ok_def)
  ultimately show ?thesis using assms q by (simp add: ice_Restart_def Let_def del: keeps_selector_Start)
qed

lemma inv_Close: "ice_inv a \<Longrightarrow> ice_inv (snd (ice_Close a))"
proof -
  assume a: "ice_inv a"
  let ?b = "(deleteAllCandidates (a\<lparr>a_done := True\<rparr>))\<lparr>a_started := True\<rparr>"
  from a have "ice_inv ?b" by (intro inv_started inv_deleteAllCandidates) simp
  then have "ice_inv (ice_updateConnectionState IceStateClosed ?b)"
    by (intro inv_state) (auto simp: ice_inv_def selected_ok_def)
  with a show ?thesis by (simp add: ice_Close_def)
qed

lemma ice_step_inv: "ice_inv a \<Longrightarrow> ice_inv (ice_step a op)"
proof -
  assume a: "ice_inv a"
  have "l < length (cands a)" if "l \<in> set (concat (map snd (localCandidates a)))" for l
    using a that unfolding ice_inv_def refs_ok_def all_refs_def by blast
  moreover have "ice_inv (snd (validateNonSTUNTraffic l addr a))" for l addr
    using a by (simp add: validateNonSTUNTraffic_def inv_calm [OF calm_cand_seen] split: option.split)
  moreover have "ice_inv (snd (SetRemoteCredentials u p a))" for u p
    using a by (simp add: SetRemoteCredentials_def)
  ultimately show ?thesis
    using a inv_startConnectivityChecks inv_Restart inv_Close inv_ice_contact inv_AddRemoteCandidate inv_addCandidate inv_handleInbound
    by (cases op) (simp_all add: ice_step_def)
qed

interpretation ice: guarded_system ice_step ice_inv
  by unfold_locales (rule ice_step_inv)

end
