(* ===== verification/IceValidity.thy ===== *)
theory IceValidity
  imports IceInvariant
begin

text \<open>
  What can make a pair valid and what can select one. A check over a pair succeeds only through an authenticated response to a request that this
  agent sent, from the address it was sent to; and the selected pair changes only on an authenticated message. Then the results on whole runs:
  the selected pair belongs to the connection state, and a pair is pinged a bounded number of times.
\<close>

section \<open>Operations that confirm and select nothing\<close>

definition succeeded :: "Agent \<Rightarrow> nat set" where
  "succeeded a = {i. i < length (pairs a) \<and> pair_state (pairs a ! i) = CandidatePairStateSucceeded}"

definition inert :: "Agent \<Rightarrow> Agent \<Rightarrow> bool" where
  "inert a b \<longleftrightarrow> succeeded b \<subseteq> succeeded a \<and> selectedPair b \<in> {selectedPair a, None}"

lemma inert_refl [simp]: "inert a a"
  by (simp add: inert_def)

lemma inert_trans: "inert a b \<Longrightarrow> inert b c \<Longrightarrow> inert a c"
  by (auto simp: inert_def)

lemma inert_calm: "calm a b \<Longrightarrow> inert a b"
  by (simp add: inert_def succeeded_def calm_def)

lemma inert_same: "pairs b = pairs a \<Longrightarrow> selectedPair b \<in> {selectedPair a, None} \<Longrightarrow> inert a b"
  by (simp add: inert_def succeeded_def)

lemma succeeded_upd_pair:
  assumes "\<And>p. pair_state (f p) = CandidatePairStateSucceeded \<Longrightarrow> pair_state p = CandidatePairStateSucceeded"
  shows "succeeded (upd_pair i f a) \<subseteq> succeeded a"
proof
  fix j assume "j \<in> succeeded (upd_pair i f a)"
  with assms show "j \<in> succeeded a" by (cases "i = j") (auto simp: succeeded_def upd_pair_def)
qed

lemma inert_upd_pair:
  "(\<And>p. pair_state (f p) = CandidatePairStateSucceeded \<Longrightarrow> pair_state p = CandidatePairStateSucceeded) \<Longrightarrow> inert a (upd_pair i f a)"
  using succeeded_upd_pair [of f i a] by (simp add: inert_def) (simp add: upd_pair_def)

lemma inert_addPair: "inert a (snd (addPair l r a))"
  by (auto simp: inert_def succeeded_def addPair_def nth_append newCandidatePair_def split: if_splits)

lemma inert_foldl: "(\<And>b x. inert b (f b x)) \<Longrightarrow> inert a (foldl f a xs)"
  by (induction xs arbitrary: a) (auto intro: inert_trans)

lemma inert_deleteAllCandidates: "inert a (deleteAllCandidates a)"
  using calm_emptied [of a] by (auto simp: calm_def intro: inert_same)

lemma inert_updateConnectionState: "inert a (ice_updateConnectionState s a)"
proof -
  let ?a = "a\<lparr>checklist := [], pendingBindingRequests := [], selectedPair := None\<rparr>"
  have "inert ?a (deleteAllCandidates ?a)" by (rule inert_deleteAllCandidates)
  then have "inert a ((deleteAllCandidates ?a)\<lparr>a_connectionState := s, stateNotes := n\<rparr>)" for s n
    by (simp add: inert_def succeeded_def)
  moreover have "inert a (a\<lparr>a_connectionState := s, stateNotes := n\<rparr>)" for n by (rule inert_same) simp_all
  ultimately show ?thesis unfolding ice_updateConnectionState_def Let_def by (simp split: if_split)
qed

lemma inert_ping_pair: "inert a (ping_pair a i)"
proof -
  let ?p = "pairs a ! i"
  let ?b = "upd_pair i (\<lambda>p. p\<lparr>pair_state := CandidatePairStateInProgress\<rparr>) a"
  let ?c = "PingCandidate (pair_Local ?p) (pair_Remote ?p) ?b"
  have b: "inert a ?b" and f: "inert ?b (upd_pair i (\<lambda>p. p\<lparr>pair_state := CandidatePairStateFailed\<rparr>) ?b)"
    by (rule inert_upd_pair, simp)+
  have c: "inert ?c (upd_pair i (\<lambda>p. p\<lparr>bindingRequestCount := bindingRequestCount p + 1\<rparr>) ?c)" by (rule inert_upd_pair) simp
  have "inert ?b ?c" by (rule inert_calm) (rule calm_Ping)
  with b c have "inert a (upd_pair i (\<lambda>p. p\<lparr>bindingRequestCount := bindingRequestCount p + 1\<rparr>) ?c)" by (blast intro: inert_trans)
  with inert_trans [OF b f] show ?thesis by (simp add: ping_pair_def Let_def)
qed

lemma inert_check_selected: "inert a (check_selected a)" "inert a (snd (validateSelectedPair a))"
proof -
  show 1: "inert a (snd (validateSelectedPair a))"
    by (simp add: validateSelectedPair_def Let_def inert_updateConnectionState split: option.split)
  then show "inert a (check_selected a)"
    using inert_trans [OF 1 inert_calm [OF calm_checkKeepalive]] by (simp add: check_selected_def split_beta)
qed

lemma inert_pingAllCandidates: "inert a (pingAllCandidates a)"
  unfolding pingAllCandidates_def by (rule inert_foldl) (rule inert_ping_pair)

lemma inert_nominate:
  "inert a (nominatePair i ((upd_pair i (\<lambda>p. p\<lparr>nominated := True\<rparr>) a)\<lparr>a_selector := s\<rparr>))"
proof -
  let ?b = "upd_pair i (\<lambda>p. p\<lparr>nominated := True\<rparr>) a"
  have "inert a ?b" by (rule inert_upd_pair) simp
  moreover have "inert ?b (?b\<lparr>a_selector := s\<rparr>)" by (rule inert_same) simp_all
  moreover have "inert (?b\<lparr>a_selector := s\<rparr>) (nominatePair i (?b\<lparr>a_selector := s\<rparr>))" by (rule inert_calm) (rule calm_nominatePair)
  ultimately show ?thesis by (blast intro: inert_trans)
qed

lemma inert_ContactCandidates: "inert a (ContactCandidates a)"
  by (simp add: ContactCandidates_def controlled_Contact_def controlling_Contact_def inert_check_selected inert_pingAllCandidates
      inert_nominate inert_calm [OF calm_nominatePair] split: ice_selector.split option.split)

lemma inert_ice_contact: "inert a (ice_contact a)"
proof -
  let ?b = "a\<lparr>checkingSince := a_now a\<rparr>"
  have u: "inert x (y\<lparr>lastConnectionState := s\<rparr>) = inert x y" "inert (x\<lparr>checkingSince := t\<rparr>) y = inert x y" for x y s t
    by (simp_all add: inert_def succeeded_def)
  have "inert a (ice_updateConnectionState s ?b)" "inert a (ContactCandidates ?b)" for s
    using inert_updateConnectionState [of ?b s] inert_ContactCandidates [of ?b] by (simp_all only: u)
  then show ?thesis
    by (simp add: ice_contact_def Let_def u inert_updateConnectionState inert_ContactCandidates split: IceConnectionState.split)
qed

lemma inert_add_active: "inert a (add_active r a conn)"
proof (cases "NewCandidateHost (a_parseIP a) (NetworkType_String (c_networkType (cands a ! r))) (fst conn) (snd conn) 1 0 [] TCPTypeActive")
  case (Inr c)
  let ?i = "length (cands a)"
  let ?b = "(add_local ?i (start_cand ?i (a\<lparr>cands := cands a @ [c]\<rparr>)))"
  let ?c = "?b\<lparr>candidateNotes := candidateNotes ?b @ [?i]\<rparr>"
  have "inert a ?c" by (rule inert_same) (simp_all add: add_local_def Let_def start_cand_def upd_cand_def)
  from inert_trans [OF this inert_addPair] Inr show ?thesis by (simp add: add_active_def alloc_cand_def Let_def)
qed (simp add: add_active_def)

lemma inert_tables: "inert a (b\<lparr>remoteCandidates := r\<rparr>) = inert a b" "inert a (b\<lparr>forceCandidateContact := f\<rparr>) = inert a b"
  by (simp_all add: inert_def succeeded_def)

lemma inert_addRemoteCandidate: "inert a (addRemoteCandidate i a)"
proof -
  have 1: "inert a (addRemotePassiveTCPCandidate i a)"
    unfolding addRemotePassiveTCPCandidate_def by (rule inert_foldl) (rule inert_add_active)
  have 2: "inert b (foldl (\<lambda>a l. snd (addPair l i a)) b ls)" for b ls by (rule inert_foldl) (rule inert_addPair)
  have 3: "inert a (foldl (\<lambda>a l. snd (addPair l i a)) (b\<lparr>remoteCandidates := r\<rparr>) ls)" if "inert a b" for b r ls
    using that inert_trans [OF _ 2] by (simp add: inert_tables)
  show ?thesis
    unfolding addRemoteCandidate_def Let_def requestConnectivityCheck_def using 1 by (simp add: inert_tables 3)
qed

lemma inert_alloc: "inert a (a\<lparr>cands := cs\<rparr>)"
  by (rule inert_same) simp_all

lemma inert_AddRemoteCandidate: "inert a (AddRemoteCandidate c mdns a)"
  by (simp add: AddRemoteCandidate_def alloc_cand_def inert_trans [OF inert_alloc inert_addRemoteCandidate] split: option.split)

lemma inert_addCandidate: "inert a (addCandidate c a)"
proof -
  let ?i = "length (cands a)"
  let ?b = "add_local ?i (start_cand ?i (a\<lparr>cands := cands a @ [c]\<rparr>))"
  have "inert a ?b" by (rule inert_same) (simp_all add: add_local_def Let_def start_cand_def upd_cand_def)
  moreover have "inert ?b (foldl (\<lambda>a r. snd (addPair ?i r a)) ?b rs)" for rs by (rule inert_foldl) (rule inert_addPair)
  ultimately have "inert a (foldl (\<lambda>a r. snd (addPair ?i r a)) ?b rs)" for rs by (blast intro: inert_trans)
  then show ?thesis
    by (simp add: addCandidate_def alloc_cand_def Let_def requestConnectivityCheck_def inert_def succeeded_def)
qed


lemma inert_selector_Start: "inert a (selector_Start a)"
  by (simp add: selector_Start_def inert_same split: ice_selector.split)

lemma inert_started: "inert a (snd (startConnectivityChecks c u p a))"
proof -
  have "inert a ((selector_Start (a\<lparr>isControlling := x, remoteUfrag := u, remotePwd := p, a_selector := s\<rparr>))\<lparr>a_started := True\<rparr>)" for x s
    using inert_selector_Start [of "a\<lparr>isControlling := x, remoteUfrag := u, remotePwd := p, a_selector := s\<rparr>"]
    by (simp add: inert_def succeeded_def)
  note 1 = inert_trans [OF this inert_updateConnectionState]
  show ?thesis
    by (simp add: startConnectivityChecks_def SetRemoteCredentials_def Let_def requestConnectivityCheck_def inert_tables 1)
qed

lemma inert_Restart: "inert a (snd (ice_Restart u p a))"
proof -
  let ?b = "\<lambda>u p. a\<lparr>localUfrag := u, localPwd := p, remoteUfrag := [], remotePwd := [], a_gatheringState := IceGatheringNew,
              checklist := [], pendingBindingRequests := [], selectedPair := None\<rparr>"
  have "inert (?b u p) (selector_Start (deleteAllCandidates (?b u p)))" for u p
    by (rule inert_trans [OF inert_deleteAllCandidates inert_selector_Start])
  then have 1: "inert a (selector_Start (deleteAllCandidates (?b u p)))" for u p by (simp add: inert_def succeeded_def)
  show ?thesis by (simp add: ice_Restart_def Let_def 1 inert_trans [OF 1 inert_updateConnectionState])
qed

lemma inert_Close: "inert a (snd (ice_Close a))"
proof -
  let ?b = "deleteAllCandidates (a\<lparr>a_done := True\<rparr>)"
  have "inert a (?b\<lparr>a_started := True\<rparr>)" using inert_deleteAllCandidates [of "a\<lparr>a_done := True\<rparr>"] by (simp add: inert_def succeeded_def)
  from inert_trans [OF this inert_updateConnectionState] show ?thesis by (simp add: ice_Close_def)
qed

lemma inert_data: "inert a (snd (validateNonSTUNTraffic l addr a))" "inert a (snd (SetRemoteCredentials u p a))"
  by (simp_all add: validateNonSTUNTraffic_def SetRemoteCredentials_def inert_calm [OF calm_cand_seen] inert_same split: option.split)

text \<open>Every task but the handling of a message.\<close>

lemma inert_step: "\<nexists>m l addr. op = IceInbound m l addr \<Longrightarrow> inert a (ice_step a op)"
  by (cases op) (simp_all add: ice_step_def inert_started inert_Restart inert_Close inert_ice_contact inert_AddRemoteCandidate
      inert_addCandidate inert_data inert_same)

section \<open>Binding requests\<close>

lemma succeeded_calm: "calm a b \<Longrightarrow> succeeded b = succeeded a"
  by (simp add: succeeded_def calm_def)

lemma succeeded_setSelectedPair: "succeeded (setSelectedPair i a) \<subseteq> succeeded a"
  using succeeded_upd_pair [of "\<lambda>p. p\<lparr>nominated := True\<rparr>" i a]
  by (simp add: setSelectedPair_def Let_def ice_updateConnectionState_def succeeded_def)

lemma succeeded_user_switch: "succeeded (user_switch m l r i a) \<subseteq> succeeded a"
  by (simp add: user_switch_def succeeded_setSelectedPair split: option.split)

lemma succeeded_switch_to: "succeeded (switch_to i a) \<subseteq> succeeded a"
  by (simp add: switch_to_def succeeded_setSelectedPair split: option.split)

lemma succeeded_inert: "inert a b \<Longrightarrow> succeeded b \<subseteq> succeeded a"
  by (simp add: inert_def)

lemma succeeded_controlling_HandleRequest: "succeeded (controlling_HandleRequest t n m l r a) \<subseteq> succeeded a"
proof -
  let ?b = "sendBindingSuccess m l r a"
  have b: "succeeded ?b = succeeded a" by (rule succeeded_calm) (rule calm_sendBindingSuccess)
  have n: "succeeded (nominatePair i (?b\<lparr>a_selector := s\<rparr>)) = succeeded a" for i s
    using succeeded_calm [OF calm_nominatePair, of i "?b\<lparr>a_selector := s\<rparr>"] b by (simp add: succeeded_def)
  have u: "succeeded (user_switch m l r i c) \<subseteq> succeeded a" if "succeeded c = succeeded a" for i c
    using succeeded_user_switch [of m l r i c] that by simp
  show ?thesis
  proof (cases "findPair l r ?b")
    case None
    with succeeded_inert [OF inert_addPair, of l r ?b] b show ?thesis by (simp add: controlling_HandleRequest_def Let_def)
  next
    case (Some i)
    show ?thesis
      unfolding controlling_HandleRequest_def Let_def Some option.case by (rule u) (simp add: b n split: option.split)
  qed
qed

lemma succeeded_controlled_HandleRequest: "succeeded (controlled_HandleRequest m l r a) \<subseteq> succeeded a"
proof -
  obtain i b where f: "(case findPair l r a of Some i \<Rightarrow> (i, a) | None \<Rightarrow> addPair l r a) = (i, b)" by fastforce
  have b: "succeeded b \<subseteq> succeeded a"
    using f succeeded_inert [OF inert_addPair, of l r a] by (auto split: option.splits)
  define c where "c = (if has_UseCandidate m
            then (if pair_state (pairs b ! i) = CandidatePairStateSucceeded then switch_to i b
                  else upd_pair i (\<lambda>p. p\<lparr>nominateOnBindingSuccess := True\<rparr>) b)
            else b)"
  have c: "succeeded c \<subseteq> succeeded a"
    using b succeeded_switch_to [of i b] succeeded_upd_pair [of "\<lambda>p. p\<lparr>nominateOnBindingSuccess := True\<rparr>" i b] by (auto simp: c_def)
  have "calm c (controlled_Ping l r (sendBindingSuccess m l r c))" by (rule calm_trans [OF calm_sendBindingSuccess calm_Ping(2)])
  from succeeded_calm [OF this] c succeeded_user_switch [of m l r i "controlled_Ping l r (sendBindingSuccess m l r c)"]
  have "succeeded (user_switch m l r i (controlled_Ping l r (sendBindingSuccess m l r c))) \<subseteq> succeeded a" by simp
  then show ?thesis unfolding controlled_HandleRequest_def by (simp add: f Let_def c_def)
qed

lemma inert_request_remote: "request_remote l addr found a = (x, b) \<Longrightarrow> inert a b"
  by (auto simp: request_remote_def alloc_cand_def inert_trans [OF inert_alloc inert_addRemoteCandidate] split: option.splits sum.splits)

lemma succeeded_HandleBindingRequest: "succeeded (HandleBindingRequest m l r a) \<subseteq> succeeded a"
  by (simp add: HandleBindingRequest_def succeeded_controlling_HandleRequest succeeded_controlled_HandleRequest split: ice_selector.split)


section \<open>Success responses\<close>

text \<open>The request of this agent that a response belongs to: the same transaction, not older than four seconds, sent to the response's source.\<close>

definition confirmed_by :: "bindingRequest \<Rightarrow> ice_msg \<Rightarrow> net_addr \<Rightarrow> Agent \<Rightarrow> bool" where
  "confirmed_by q m addr a \<longleftrightarrow>
     q \<in> set (pendingBindingRequests a) \<and> req_transactionID q = im_txid m \<and> a_now a - req_timestamp q < maxBindingRequestTimeout \<and>
     (\<exists>d. req_destination q = Some d \<and> ice_addrEqual d addr)"

lemma find_found: "find P xs = Some x \<Longrightarrow> x \<in> set xs \<and> P x"
  by (induction xs) (auto split: if_splits)

lemma handleInboundBindingSuccess_pending:
  assumes "handleInboundBindingSuccess txid a = (Some q, b)"
  shows "q \<in> set (pendingBindingRequests a) \<and> req_transactionID q = txid \<and> a_now a - req_timestamp q < maxBindingRequestTimeout"
proof -
  let ?fresh = "filter (\<lambda>r. a_now a - req_timestamp r < maxBindingRequestTimeout) (pendingBindingRequests a)"
  from assms have "find (\<lambda>r. req_transactionID r = txid) ?fresh = Some q"
    by (auto simp: handleInboundBindingSuccess_def invalidatePendingBindingRequests_def Let_def split: option.splits)
  then have "q \<in> set ?fresh \<and> req_transactionID q = txid" by (rule find_found)
  then show ?thesis by simp
qed

lemma findPair_pending [simp]: "findPair l r (a\<lparr>pendingBindingRequests := x\<rparr>) = findPair l r a"
  by (simp add: findPair_def)

lemma handleInboundBindingSuccess_frame:
  "handleInboundBindingSuccess txid a = (x, b) \<Longrightarrow> \<exists>p. b = a\<lparr>pendingBindingRequests := p\<rparr>"
  by (auto simp: handleInboundBindingSuccess_def invalidatePendingBindingRequests_def Let_def split: option.splits)

lemma confirm_pair_result:
  assumes "confirm_pair m l r addr a = (x, b)"
  shows "x = None \<and> (\<exists>p. b = a\<lparr>pendingBindingRequests := p\<rparr>) \<or>
         (\<exists>q i p. x = Some (q, i) \<and> confirmed_by q m addr a \<and> findPair l r a = Some i \<and>
            b = upd_pair i (\<lambda>p. p\<lparr>pair_state := CandidatePairStateSucceeded\<rparr>) (a\<lparr>pendingBindingRequests := p\<rparr>))"
proof -
  obtain y d where h: "handleInboundBindingSuccess (im_txid m) a = (y, d)" by fastforce
  from handleInboundBindingSuccess_frame [OF h] obtain p where d: "d = a\<lparr>pendingBindingRequests := p\<rparr>" by blast
  show ?thesis
  proof (cases y)
    case None
    with assms h d show ?thesis by (auto simp: confirm_pair_def)
  next
    case (Some q)
    with h handleInboundBindingSuccess_pending [of "im_txid m" a q d] assms d show ?thesis
      by (auto simp: confirm_pair_def confirmed_by_def split: option.splits if_splits)
  qed
qed

lemma succeeded_upd_new: "succeeded (upd_pair i f a) \<subseteq> insert i (succeeded a)"
  by (auto simp: succeeded_def upd_pair_def nth_list_update)

text \<open>What handling a response adds to the succeeded pairs, whichever the selector.\<close>

lemma succeeded_HandleSuccessResponse:
  assumes "i \<in> succeeded (HandleSuccessResponse m l r addr a)" "i \<notin> succeeded a"
  shows "findPair l r a = Some i \<and> (\<exists>q. confirmed_by q m addr a)"
proof -
  obtain x b where c: "confirm_pair m l r addr a = (x, b)" by fastforce
  have "i \<in> succeeded b"
    using assms c
    by (auto simp: HandleSuccessResponse_def controlling_HandleSuccess_def controlled_HandleSuccess_def split: ice_selector.splits option.splits
        if_splits dest: subsetD [OF succeeded_setSelectedPair] subsetD [OF succeeded_switch_to])
  from confirm_pair_result [OF c] show ?thesis
  proof
    assume "x = None \<and> (\<exists>p. b = a\<lparr>pendingBindingRequests := p\<rparr>)"
    then have "succeeded b = succeeded a" by (auto simp: succeeded_def)
    with \<open>i \<in> succeeded b\<close> assms(2) show ?thesis by simp
  next
    assume "\<exists>q j p. x = Some (q, j) \<and> confirmed_by q m addr a \<and> findPair l r a = Some j \<and>
              b = upd_pair j (\<lambda>p. p\<lparr>pair_state := CandidatePairStateSucceeded\<rparr>) (a\<lparr>pendingBindingRequests := p\<rparr>)"
    then obtain q j p where "confirmed_by q m addr a" "findPair l r a = Some j"
      and b: "b = upd_pair j (\<lambda>p. p\<lparr>pair_state := CandidatePairStateSucceeded\<rparr>) (a\<lparr>pendingBindingRequests := p\<rparr>)" by blast
    moreover have "i = j"
      using \<open>i \<in> succeeded b\<close> assms(2) succeeded_upd_new unfolding b by (fastforce simp: succeeded_def)
    ultimately show ?thesis by blast
  qed
qed

section \<open>Results\<close>

text \<open>
  C7. A candidate pair becomes valid only by an authenticated response: whatever task the agent runs, if a pair is in state Succeeded afterwards that
  was not before, the task was the handling of a Binding success response that passes the integrity check under the remote password, it arrived at a
  running local candidate from the address of a known remote candidate, the pair is the one of these two candidates, and the response carries the
  transaction identifier of a request that this agent sent to that very address less than four seconds ago.
\<close>

theorem pair_confirmed_by_peer:
  assumes "i \<in> succeeded (ice_step a op)" "i \<notin> succeeded a"
  shows "\<exists>m l addr r q. op = IceInbound m l addr \<and> im_binding m \<and> im_class m = IceSuccessResponse \<and> integrityOk a (remotePwd a) m \<and>
           l \<in> set (all_refs (localCandidates a)) \<and> findRemoteCandidate (c_networkType (cands a ! l)) addr a = Some r \<and>
           findPair l r a = Some i \<and> confirmed_by q m addr a"
proof (cases op)
  case (IceInbound m l addr)
  have seen: "succeeded (cand_seen out r b) = succeeded b" for out r b by (rule succeeded_calm) (rule calm_cand_seen)
  have req: "succeeded (HandleBindingRequest m l r b) \<subseteq> succeeded a" if "request_remote l addr found a = (x, b)" for found x b r
    using succeeded_HandleBindingRequest [of m l r b] succeeded_inert [OF inert_request_remote [OF that]] by blast
  show ?thesis
    using assms IceInbound succeeded_HandleSuccessResponse [of i m l _ addr a]
    by (auto simp: ice_step_def handleInbound_def Let_def seen all_refs_def split: if_splits ice_class.splits option.splits prod.splits
        dest: subsetD [OF req] subsetD [OF succeeded_inert [OF inert_request_remote]])
qed (use assms succeeded_inert [OF inert_step, of op a] in auto)

text \<open>
  C21. A selection needs an authenticated message: whatever task the agent runs, the selected pair changes to another pair only while it handles a
  Binding success response with a valid integrity under the remote password, or a Binding request with the expected user name and a valid integrity
  under the local password. All other tasks keep the selected pair or unset it.
\<close>

theorem selection_authenticated:
  assumes "selectedPair (ice_step a op) \<noteq> selectedPair a" "selectedPair (ice_step a op) \<noteq> None"
  shows "\<exists>m l addr. op = IceInbound m l addr \<and> im_binding m \<and> \<not> role_conflict m a \<and>
           (im_class m = IceSuccessResponse \<and> integrityOk a (remotePwd a) m \<or>
            im_class m = IceRequest \<and> AssertUsername m (localUfrag a @ '':'' @ remoteUfrag a) \<and> integrityOk a (localPwd a) m)"
proof (cases op)
  case (IceInbound m l addr)
  have seen: "selectedPair (cand_seen out r a) = selectedPair a" for out r by (simp add: cand_seen_def upd_cand_def)
  show ?thesis
    using assms IceInbound
    by (auto simp: ice_step_def handleInbound_def Let_def seen split: if_splits ice_class.splits option.splits)
qed (use assms inert_step [of op a] in \<open>auto simp: inert_def\<close>)


section \<open>Runs\<close>

definition ice_new :: "Agent \<Rightarrow> bool" where
  "ice_new a \<longleftrightarrow>
     a_connectionState a = IceStateNew \<and> \<not> a_started a \<and> a_selector a = NoSelector \<and> selectedPair a = None \<and> checklist a = [] \<and>
     pairs a = [] \<and> cands a = [] \<and> localCandidates a = [] \<and> remoteCandidates a = []"

lemma ice_new_inv: "ice_new a \<Longrightarrow> ice_inv a"
  by (simp add: ice_new_def ice_inv_def refs_ok_def selected_ok_def all_refs_def)

text \<open>
  C6. The selected pair belongs to the connection state: after any sequence of tasks of a new agent, a selected pair is a pair of the check list over
  existing candidates, it is nominated, and a check over it has succeeded (unless the application installed a handler that switches pairs on its own);
  the agent reports Connected or Disconnected only with a selected pair, and with a selected pair it reports one of these or Closed.
\<close>

theorem selected_pair_valid:
  assumes "ice_new a" "b = foldl ice_step a ops"
  shows "(\<forall>i. selectedPair b = Some i \<longrightarrow>
            i \<in> set (checklist b) \<and> i < length (pairs b) \<and> nominated (pairs b ! i) \<and>
            pair_Local (pairs b ! i) < length (cands b) \<and> pair_Remote (pairs b ! i) < length (cands b) \<and>
            (userBindingRequestHandler b = None \<longrightarrow> pair_state (pairs b ! i) = CandidatePairStateSucceeded)) \<and>
         (a_connectionState b \<in> {IceStateConnected, IceStateDisconnected} \<longrightarrow> selectedPair b \<noteq> None) \<and>
         (selectedPair b \<noteq> None \<longrightarrow> a_connectionState b \<in> {IceStateConnected, IceStateDisconnected, IceStateClosed})"
proof -
  have "ice_inv b" unfolding assms(2) by (rule ice.run_inv [OF ice_new_inv [OF assms(1)]])
  then show ?thesis by (auto simp: ice_inv_def refs_ok_def selected_ok_def)
qed

text \<open>A concrete agent and the run in which it gets connected as the controlling side.\<close>

definition demo_addr :: "nat \<Rightarrow> net_addr" where
  "demo_addr k = UDPAddr [10, 0, 0, of_nat k] 5000 []"

definition demo_cand :: "nat \<Rightarrow> candidate" where
  "demo_cand k = base_candidate CandidateTypeHost NetworkTypeUDP4 (ip_String [10, 0, 0, of_nat k]) 5000 1 0 [] None TCPTypeUnspecified (Some (demo_addr k))"

definition demo_agent :: Agent where
  "demo_agent =
     \<lparr>tieBreaker = 7, a_lite = False, a_connectionState = IceStateNew, a_gatheringState = IceGatheringNew, a_started = False, a_done = False,
      isControlling = False, maxBindingRequests = 7, hostAcceptanceMinWait = 0, srflxAcceptanceMinWait = 500, prflxAcceptanceMinWait = 1000,
      relayAcceptanceMinWait = 2000, tcpPriorityOffset = 27, disableActiveTCP = False, disconnectedTimeout = 5000, failedTimeout = 25000,
      keepaliveInterval = 2000, localUfrag = ''luf'', localPwd = ''lpw'', localCandidates = [], remoteUfrag = [], remotePwd = [],
      remoteCandidates = [], checklist = [], a_selector = NoSelector, selectedPair = None, networkTypes = [NetworkTypeUDP4],
      pendingBindingRequests = [], userBindingRequestHandler = None, forceCandidateContact = False, onConnected = False,
      lastConnectionState = IceStateUnknown, checkingSince = 0, stateNotes = [], candidateNotes = [], pairNotes = [], cands = [], pairs = [],
      a_outgoing = [], a_now = 0, a_txids = (\<lambda>n. [of_nat n]), a_built = 0, a_netOk = (\<lambda>_. True), a_writes = 0,
      integrityOk = (\<lambda>pwd m. IceIntegrity pwd \<in> set (im_attrs m)), a_parseIP = (\<lambda>_. None), activeTCPConns = (\<lambda>_. []),
      generatedUfrag = ''abcd'', generatedPwd = ''abcdefghijklmnop''\<rparr>"

definition demo_response :: "bytes \<Rightarrow> ice_msg" where
  "demo_response txid = \<lparr>im_binding = True, im_class = IceSuccessResponse, im_txid = txid, im_attrs = [IceIntegrity ''rpw'', IceFingerprint]\<rparr>"

definition demo_run :: "ice_op list" where
  "demo_run =
     [IceAddLocal (demo_cand 1), IceAddRemote (demo_cand 2) None, IceStart True ''ruf'' ''rpw'', IceContact,
      IceInbound (demo_response [0]) 0 (demo_addr 2), IceTick 10, IceContact, IceInbound (demo_response [1]) 0 (demo_addr 2)]"

lemma demo_new: "ice_new demo_agent"
  by (simp add: ice_new_def demo_agent_def)

theorem selected_pair_valid_witness:
  "selectedPair (foldl ice_step demo_agent demo_run) = Some 0 \<and>
   a_connectionState (foldl ice_step demo_agent demo_run) \<in> {IceStateConnected, IceStateDisconnected, IceStateClosed} \<and>
   0 \<in> set (checklist (foldl ice_step demo_agent demo_run))"
proof -
  have 0: "selectedPair (foldl ice_step demo_agent demo_run) = Some 0" by code_simp
  with selected_pair_valid [OF demo_new refl, of demo_run] show ?thesis by simp
qed

definition demo_checking :: Agent where
  "demo_checking = foldl ice_step demo_agent (take 4 demo_run)"

theorem pair_confirmed_by_peer_witness:
  "\<exists>q. confirmed_by q (demo_response [0]) (demo_addr 2) demo_checking \<and>
       integrityOk demo_checking (remotePwd demo_checking) (demo_response [0])"
proof -
  let ?op = "IceInbound (demo_response [0]) 0 (demo_addr 2)"
  have "0 < length (pairs (ice_step demo_checking ?op)) \<and> pair_state (pairs (ice_step demo_checking ?op) ! 0) = CandidatePairStateSucceeded"
    "pair_state (pairs demo_checking ! 0) \<noteq> CandidatePairStateSucceeded" by code_simp+
  then have "0 \<in> succeeded (ice_step demo_checking ?op)" "0 \<notin> succeeded demo_checking" by (simp_all add: succeeded_def)
  from pair_confirmed_by_peer [OF this] show ?thesis by auto
qed

definition demo_nominating :: Agent where
  "demo_nominating = foldl ice_step demo_agent (take 7 demo_run)"

theorem selection_authenticated_witness:
  "\<not> role_conflict (demo_response [1]) demo_nominating \<and> integrityOk demo_nominating (remotePwd demo_nominating) (demo_response [1])"
proof -
  let ?op = "IceInbound (demo_response [1]) 0 (demo_addr 2)"
  have "selectedPair (ice_step demo_nominating ?op) = Some 0" "selectedPair demo_nominating = None" by code_simp+
  then have "selectedPair (ice_step demo_nominating ?op) \<noteq> selectedPair demo_nominating" "selectedPair (ice_step demo_nominating ?op) \<noteq> None"
    by simp_all
  from selection_authenticated [OF this] show ?thesis by (auto simp: demo_response_def)
qed

section \<open>Unanswered checks\<close>

text \<open>What a round of checks does to one pair, whatever happens to the others.\<close>

definition ping_state :: "u16 \<Rightarrow> CandidatePair \<Rightarrow> CandidatePair" where
  "ping_state n p =
     (if pair_state p = CandidatePairStateWaiting \<or> pair_state p = CandidatePairStateInProgress
      then if bindingRequestCount p > n then p\<lparr>pair_state := CandidatePairStateFailed\<rparr>
           else p\<lparr>pair_state := CandidatePairStateInProgress, bindingRequestCount := bindingRequestCount p + 1\<rparr>
      else p)"

lemma PingCandidate_pairs [simp]: "pairs (PingCandidate l r a) = pairs a" "checklist (PingCandidate l r a) = checklist a"
  using calm_Ping(3) [of a l r] by (simp_all add: calm_def)

lemma PingCandidate_max [simp]: "maxBindingRequests (PingCandidate l r a) = maxBindingRequests a"
  by (simp add: PingCandidate_def controlling_Ping_def controlled_Ping_def build_request_def sendBindingRequest_def Let_def
      invalidatePendingBindingRequests_def sendSTUN_def ice_writeTo_def cand_seen_def upd_cand_def split: ice_selector.split)

lemma ping_pair_at:
  assumes "i < length (pairs a)"
  shows "pairs (ping_pair a i) = (pairs a)[i := ping_state (maxBindingRequests a) (pairs a ! i)]"
    "checklist (ping_pair a i) = checklist a" "maxBindingRequests (ping_pair a i) = maxBindingRequests a"
  using assms by (simp_all add: ping_pair_def ping_state_def Let_def upd_pair_def)

lemma ping_fold:
  assumes "distinct xs" "\<forall>j \<in> set xs. j < length (pairs a)"
  shows "pairs (foldl ping_pair a xs) =
           map (\<lambda>i. if i \<in> set xs then ping_state (maxBindingRequests a) (pairs a ! i) else pairs a ! i) [0..<length (pairs a)]"
    and "checklist (foldl ping_pair a xs) = checklist a" "maxBindingRequests (foldl ping_pair a xs) = maxBindingRequests a"
  using assms
proof (induction xs arbitrary: a)
  case Nil
  { case 1 show ?case by (simp add: map_nth)
  next case 2 show ?case by simp
  next case 3 show ?case by simp }
next
  case (Cons x xs)
  { case 1
    then have "pairs (foldl ping_pair (ping_pair a x) xs) =
        map (\<lambda>i. if i \<in> set xs then ping_state (maxBindingRequests a) (pairs (ping_pair a x) ! i) else pairs (ping_pair a x) ! i) [0..<length (pairs a)]"
      using Cons.IH(1) [of "ping_pair a x"] by (simp add: ping_pair_at)
    also have "\<dots> = map (\<lambda>i. if i \<in> set (x # xs) then ping_state (maxBindingRequests a) (pairs a ! i) else pairs a ! i) [0..<length (pairs a)]"
      by (rule map_cong [OF refl]) (use 1 in \<open>auto simp: ping_pair_at nth_list_update\<close>)
    finally show ?case by simp
  next case 2
    then show ?case by (simp add: Cons.IH(2) ping_pair_at)
  next case 3
    then show ?case by (simp add: Cons.IH(3) ping_pair_at) }
qed

lemma pingAllCandidates_pair:
  assumes "ice_inv a"
  shows "\<forall>i \<in> set (checklist a). pairs (pingAllCandidates a) ! i = ping_state (maxBindingRequests a) (pairs a ! i)"
    "checklist (pingAllCandidates a) = checklist a" "maxBindingRequests (pingAllCandidates a) = maxBindingRequests a"
  using assms by (simp_all add: pingAllCandidates_def ping_fold ice_inv_def refs_ok_def)

lemma pingAll_iterate:
  assumes "ice_inv a" "i \<in> set (checklist a)"
  shows "ice_inv ((pingAllCandidates ^^ k) a) \<and> checklist ((pingAllCandidates ^^ k) a) = checklist a \<and>
         maxBindingRequests ((pingAllCandidates ^^ k) a) = maxBindingRequests a \<and>
         pairs ((pingAllCandidates ^^ k) a) ! i = (ping_state (maxBindingRequests a) ^^ k) (pairs a ! i)"
  by (induction k) (use assms in \<open>auto simp: pingAllCandidates_pair inv_pingAllCandidates\<close>)

lemma ping_state_more:
  assumes "pair_state p = CandidatePairStateWaiting \<or> pair_state p = CandidatePairStateInProgress"
  shows "\<not> n < bindingRequestCount p \<Longrightarrow>
           pair_state (ping_state n p) = CandidatePairStateInProgress \<and> bindingRequestCount (ping_state n p) = bindingRequestCount p + 1"
    and "n < bindingRequestCount p \<Longrightarrow> pair_state (ping_state n p) = CandidatePairStateFailed"
  using assms by (auto simp: ping_state_def)

lemma ping_state_iterate:
  assumes "pair_state p = CandidatePairStateWaiting" "bindingRequestCount p = 0" "0 < k" "k \<le> unat n + 1" "unat n + 1 < 2 ^ 16"
  shows "pair_state ((ping_state n ^^ k) p) = CandidatePairStateInProgress \<and> bindingRequestCount ((ping_state n ^^ k) p) = of_nat k"
  using assms(3,4)
proof (induction k)
  case (Suc k)
  show ?case
  proof (cases "k = 0")
    case True
    then show ?thesis using assms(1,2) ping_state_more(1) [of p n] by simp
  next
    case False
    with Suc have ih: "pair_state ((ping_state n ^^ k) p) = CandidatePairStateInProgress" "bindingRequestCount ((ping_state n ^^ k) p) = of_nat k"
      by simp_all
    have "unat (of_nat k :: u16) = k" using Suc.prems assms(5) unfolding unat_of_nat by simp
    then have "\<not> n < (of_nat k :: u16)" using Suc.prems by (simp add: word_less_nat_alt)
    with ih show ?thesis using ping_state_more(1) [of "(ping_state n ^^ k) p" n] by (simp add: add.commute)
  qed
qed simp

text \<open>
  What a round puts on the wire. A check is a Binding request with the credentials of the peer; \<open>checks_on\<close> counts the checks that went out from a local
  candidate to an address.
\<close>

definition pair_path :: "Agent \<Rightarrow> nat \<Rightarrow> nat \<times> net_addr option" where
  "pair_path a i = (pair_Local (pairs a ! i), c_resolvedAddr (cands a ! pair_Remote (pairs a ! i)))"

definition is_check :: "Agent \<Rightarrow> ice_msg \<Rightarrow> bool" where
  "is_check a m \<longleftrightarrow> im_binding m \<and> im_class m = IceRequest \<and> IceUsername (remote_username a) \<in> set (im_attrs m) \<and>
     IceIntegrity (remotePwd a) \<in> set (im_attrs m)"

definition checks_on :: "nat \<times> net_addr option \<Rightarrow> Agent \<Rightarrow> nat" where
  "checks_on pth a = length (filter (\<lambda>(l, d, m). (l, d) = pth \<and> is_check a m) (a_outgoing a))"

definition check_due :: "u16 \<Rightarrow> CandidatePair \<Rightarrow> bool" where
  "check_due n p \<longleftrightarrow> (pair_state p = CandidatePairStateWaiting \<or> pair_state p = CandidatePairStateInProgress) \<and> \<not> n < bindingRequestCount p"

text \<open>What a round leaves alone.\<close>

definition same_wire :: "Agent \<Rightarrow> Agent \<Rightarrow> bool" where
  "same_wire a b \<longleftrightarrow> a_selector b = a_selector a \<and> a_netOk b = a_netOk a \<and> remotePwd b = remotePwd a \<and> remote_username b = remote_username a \<and>
     (\<forall>j. c_open (cands b ! j) = c_open (cands a ! j) \<and> c_resolvedAddr (cands b ! j) = c_resolvedAddr (cands a ! j)) \<and>
     (\<forall>j. pair_Local (pairs b ! j) = pair_Local (pairs a ! j) \<and> pair_Remote (pairs b ! j) = pair_Remote (pairs a ! j))"

lemma same_wire_refl [simp]: "same_wire a a"
  by (simp add: same_wire_def)

lemma same_wire_trans: "same_wire a b \<Longrightarrow> same_wire b c \<Longrightarrow> same_wire a c"
  by (simp add: same_wire_def)

lemma same_wireD: "same_wire a b \<Longrightarrow> pair_path b = pair_path a \<and> is_check b = is_check a"
  by (auto simp: same_wire_def pair_path_def is_check_def fun_eq_iff)

lemmas ping_defs = PingCandidate_def controlling_Ping_def controlled_Ping_def build_request_def sendBindingRequest_def Let_def
  invalidatePendingBindingRequests_def sendSTUN_def ice_writeTo_def cand_seen_def upd_cand_def

lemma PingCandidate_wire: "same_wire a (PingCandidate l r a)"
  by (auto simp: same_wire_def ping_defs remote_username_def nth_list_update_any split: ice_selector.split)

lemma PingCandidate_sends:
  assumes "a_selector a \<noteq> NoSelector" "\<forall>n. a_netOk a n" "c_open (cands a ! l)"
  shows "\<exists>m. is_check a m \<and> a_outgoing (PingCandidate l r a) = a_outgoing a @ [(l, c_resolvedAddr (cands a ! r), m)]"
proof (cases "a_selector a")
  case (ControllingSelector t n)
  with assms(2,3) show ?thesis by (auto simp: ping_defs is_check_def remote_username_def)
next
  case ControlledSelector
  with assms(2,3) show ?thesis by (auto simp: ping_defs is_check_def remote_username_def)
qed (use assms(1) in simp)

lemma PingCandidate_elsewhere: "l \<noteq> fst pth \<or> c_resolvedAddr (cands a ! r) \<noteq> snd pth \<Longrightarrow> checks_on pth (PingCandidate l r a) = checks_on pth a"
  using same_wireD [OF PingCandidate_wire [of a l r]]
  by (auto simp: checks_on_def ping_defs split: ice_selector.split)

lemma upd_pair_wire:
  assumes "\<And>p. pair_Local (f p) = pair_Local p \<and> pair_Remote (f p) = pair_Remote p"
  shows "same_wire a (upd_pair i f a)"
  using assms by (auto simp: same_wire_def upd_pair_def remote_username_def nth_list_update_any)

lemma upd_pair_checks [simp]: "checks_on pth (upd_pair i f a) = checks_on pth a"
  by (simp add: checks_on_def is_check_def upd_pair_def remote_username_def)

lemma ping_pair_wire: "same_wire a (ping_pair a i)"
proof -
  let ?p = "pairs a ! i" and ?a = "upd_pair i (\<lambda>p. p\<lparr>pair_state := CandidatePairStateInProgress\<rparr>) a"
  have "same_wire a ?a" "same_wire ?a (upd_pair i (\<lambda>p. p\<lparr>pair_state := CandidatePairStateFailed\<rparr>) ?a)" by (rule upd_pair_wire; simp)+
  moreover have "same_wire ?a (upd_pair i (\<lambda>p. p\<lparr>bindingRequestCount := bindingRequestCount p + 1\<rparr>) (PingCandidate (pair_Local ?p) (pair_Remote ?p) ?a))"
    by (rule same_wire_trans [OF PingCandidate_wire upd_pair_wire]) simp
  ultimately show ?thesis unfolding ping_pair_def Let_def by (auto intro: same_wire_trans)
qed

lemma ping_pair_checks:
  assumes "a_selector a \<noteq> NoSelector" "\<forall>n. a_netOk a n" "c_open (cands a ! fst pth)"
  shows "checks_on pth (ping_pair a i) = checks_on pth a + (if check_due (maxBindingRequests a) (pairs a ! i) \<and> pair_path a i = pth then 1 else 0)"
proof (cases "check_due (maxBindingRequests a) (pairs a ! i)")
  case False
  then show ?thesis by (auto simp: ping_pair_def check_due_def Let_def upd_pair_def [of i "\<lambda>p. p\<lparr>pair_state := CandidatePairStateInProgress\<rparr>"] checks_on_def
        is_check_def remote_username_def upd_pair_def)
next
  case True
  let ?p = "pairs a ! i" and ?a = "upd_pair i (\<lambda>p. p\<lparr>pair_state := CandidatePairStateInProgress\<rparr>) a"
  let ?b = "PingCandidate (pair_Local ?p) (pair_Remote ?p) ?a"
  have "maxBindingRequests ?a = maxBindingRequests a" by (simp add: upd_pair_def)
  with True have "checks_on pth (ping_pair a i) = checks_on pth ?b" by (simp add: ping_pair_def check_due_def Let_def)
  moreover have "checks_on pth ?b = checks_on pth a + (if pair_path a i = pth then 1 else 0)"
  proof (cases "pair_path a i = pth")
    case pth: True
    have w: "same_wire a ?a" by (rule upd_pair_wire) simp
    have "\<exists>m. is_check ?a m \<and> a_outgoing ?b = a_outgoing ?a @ [(pair_Local ?p, c_resolvedAddr (cands ?a ! pair_Remote ?p), m)]"
      by (rule PingCandidate_sends) (use assms w pth in \<open>auto simp: same_wire_def pair_path_def\<close>)
    then obtain m where m: "is_check ?a m" "a_outgoing ?b = a_outgoing ?a @ [(pair_Local ?p, c_resolvedAddr (cands ?a ! pair_Remote ?p), m)]" by blast
    have "is_check ?b = is_check ?a" using same_wireD [OF PingCandidate_wire] by blast
    moreover have "checks_on pth ?a = checks_on pth a" by simp
    moreover have "(pair_Local ?p, c_resolvedAddr (cands ?a ! pair_Remote ?p)) = pth" using pth by (simp add: pair_path_def upd_pair_def)
    ultimately show ?thesis using m pth unfolding checks_on_def by auto
  next
    case False
    then have "pair_Local ?p \<noteq> fst pth \<or> c_resolvedAddr (cands ?a ! pair_Remote ?p) \<noteq> snd pth" by (auto simp: pair_path_def upd_pair_def)
    from PingCandidate_elsewhere [OF this] False show ?thesis by simp
  qed
  ultimately show ?thesis using True by simp
qed

lemma ping_fold_checks:
  assumes "a_selector a \<noteq> NoSelector" "\<forall>n. a_netOk a n" "c_open (cands a ! fst pth)" "distinct xs" "\<forall>j \<in> set xs. j < length (pairs a)"
  shows "checks_on pth (foldl ping_pair a xs) = checks_on pth a + length (filter (\<lambda>j. check_due (maxBindingRequests a) (pairs a ! j) \<and> pair_path a j = pth) xs) \<and>
         same_wire a (foldl ping_pair a xs)"
  using assms
proof (induction xs arbitrary: a)
  case (Cons x xs)
  note w = ping_pair_wire [of a x]
  note pre = Cons.prems
  have b: "a_selector (ping_pair a x) \<noteq> NoSelector" "\<forall>n. a_netOk (ping_pair a x) n" "c_open (cands (ping_pair a x) ! fst pth)"
    using w pre(1-3) by (simp_all add: same_wire_def)
  have x: "x < length (pairs a)" using pre(5) by simp
  have at: "pairs (ping_pair a x) ! j = pairs a ! j" if "j \<in> set xs" for j using that pre(4) by (auto simp: ping_pair_at [OF x] nth_list_update_any)
  have d: "distinct xs" "\<forall>j \<in> set xs. j < length (pairs (ping_pair a x))" using pre(4,5) by (simp_all add: ping_pair_at [OF x])
  have f: "filter (\<lambda>j. check_due (maxBindingRequests (ping_pair a x)) (pairs (ping_pair a x) ! j) \<and> pair_path (ping_pair a x) j = pth) xs =
      filter (\<lambda>j. check_due (maxBindingRequests a) (pairs a ! j) \<and> pair_path a j = pth) xs"
    using at same_wireD [OF w] by (intro filter_cong) (simp_all add: ping_pair_at [OF x])
  from Cons.IH [OF b d] ping_pair_checks [OF pre(1-3), of x] same_wire_trans [OF w] show ?case by (simp add: f)
qed simp

lemma pingAll_checks:
  assumes "ice_inv a" "i \<in> set (checklist a)" "a_selector a \<noteq> NoSelector" "\<forall>n. a_netOk a n" "c_open (cands a ! fst (pair_path a i))"
    and "\<forall>j \<in> set (checklist a). pair_path a j = pair_path a i \<longrightarrow> j = i"
  shows "checks_on (pair_path a i) (pingAllCandidates a) =
           checks_on (pair_path a i) a + (if check_due (maxBindingRequests a) (pairs a ! i) then 1 else 0)"
    and "same_wire a (pingAllCandidates a)"
proof -
  have d: "distinct (checklist a)" "\<forall>j \<in> set (checklist a). j < length (pairs a)" using assms(1) by (auto simp: ice_inv_def refs_ok_def)
  have "filter (\<lambda>j. check_due (maxBindingRequests a) (pairs a ! j) \<and> pair_path a j = pair_path a i) (checklist a) =
      filter (\<lambda>j. j = i \<and> check_due (maxBindingRequests a) (pairs a ! i)) (checklist a)"
    using assms(6) by (intro filter_cong) auto
  also have "length \<dots> = (if check_due (maxBindingRequests a) (pairs a ! i) then 1 else 0)"
    using d(1) assms(2) distinct_length_filter [of "checklist a" "\<lambda>j. j = i"] by (auto simp: Int_absorb2)
  finally show "checks_on (pair_path a i) (pingAllCandidates a) =
      checks_on (pair_path a i) a + (if check_due (maxBindingRequests a) (pairs a ! i) then 1 else 0)"
    using ping_fold_checks [OF assms(3-5) d] by (simp add: pingAllCandidates_def)
  show "same_wire a (pingAllCandidates a)" using ping_fold_checks [OF assms(3-5) d] by (simp add: pingAllCandidates_def)
qed

lemma pingAll_iterate_checks:
  assumes "ice_inv a" "i \<in> set (checklist a)" "a_selector a \<noteq> NoSelector" "\<forall>n. a_netOk a n" "c_open (cands a ! fst (pair_path a i))"
    and "\<forall>j \<in> set (checklist a). pair_path a j = pair_path a i \<longrightarrow> j = i"
  shows "same_wire a ((pingAllCandidates ^^ k) a) \<and> checks_on (pair_path a i) ((pingAllCandidates ^^ k) a) =
    checks_on (pair_path a i) a + card {j. j < k \<and> check_due (maxBindingRequests a) ((ping_state (maxBindingRequests a) ^^ j) (pairs a ! i))}"
proof (induction k)
  case (Suc k)
  let ?b = "(pingAllCandidates ^^ k) a" and ?due = "\<lambda>j. check_due (maxBindingRequests a) ((ping_state (maxBindingRequests a) ^^ j) (pairs a ! i))"
  have w: "same_wire a ?b" and c: "checks_on (pair_path a i) ?b = checks_on (pair_path a i) a + card {j. j < k \<and> ?due j}" using Suc by auto
  note it = pingAll_iterate [OF assms(1,2), of k] and sd = same_wireD [OF w]
  have r: "checks_on (pair_path a i) (pingAllCandidates ?b) = checks_on (pair_path a i) ?b + (if ?due k then 1 else 0)"
    and w': "same_wire ?b (pingAllCandidates ?b)"
    using pingAll_checks [of ?b i] it w sd assms(2-6) by (simp_all add: same_wire_def)
  have "{j. j < Suc k \<and> ?due j} = {j. j < k \<and> ?due j} \<union> (if ?due k then {k} else {})" by (auto simp: less_Suc_eq)
  then have "card {j. j < Suc k \<and> ?due j} = card {j. j < k \<and> ?due j} + (if ?due k then 1 else 0)" by simp
  with r c same_wire_trans [OF w w'] show ?case by simp
qed simp

lemma check_due_rounds:
  assumes "pair_state p = CandidatePairStateWaiting" "bindingRequestCount p = 0" "unat n + 1 < 2 ^ 16"
  shows "check_due n ((ping_state n ^^ j) p) \<longleftrightarrow> j \<le> unat n"
    and "unat n + 2 \<le> j \<Longrightarrow> pair_state ((ping_state n ^^ j) p) = CandidatePairStateFailed"
proof -
  note it = ping_state_iterate [OF assms(1,2) _ _ assms(3)]
  let ?q = "(ping_state n ^^ (unat n + 1)) p"
  have cnt: "unat (of_nat k :: u16) = k" if "k \<le> unat n + 1" for k using that assms(3) unfolding unat_of_nat by simp
  have "n < of_nat (unat n + 1)" unfolding word_less_nat_alt using cnt [of "unat n + 1"] by linarith
  then have over: "n < bindingRequestCount ?q" and q: "pair_state ?q = CandidatePairStateInProgress"
    using it [of "unat n + 1"] by (simp_all del: of_nat_add funpow.simps)
  have failed: "pair_state ((ping_state n ^^ (k + (unat n + 2))) p) = CandidatePairStateFailed" for k
  proof (induction k)
    case 0
    have "(ping_state n ^^ (unat n + 2)) p = ping_state n ?q" by simp
    then show ?case using ping_state_more(2) [of ?q n] q over by (simp del: funpow.simps)
  next
    case (Suc k)
    then show ?case by (simp add: ping_state_def)
  qed
  from failed [of "j - (unat n + 2)"] show f: "unat n + 2 \<le> j \<Longrightarrow> pair_state ((ping_state n ^^ j) p) = CandidatePairStateFailed" by (simp only: le_add_diff_inverse2)
  consider "j = 0" | "0 < j" "j \<le> unat n" | "j = unat n + 1" | "unat n + 2 \<le> j" by linarith
  then show "check_due n ((ping_state n ^^ j) p) \<longleftrightarrow> j \<le> unat n"
  proof cases
    case 1
    then show ?thesis using assms(1,2) by (simp add: check_due_def)
  next
    case 2
    with it [of j] cnt [of j] show ?thesis by (simp add: check_due_def word_less_nat_alt)
  next
    case 3
    with over show ?thesis by (simp add: check_due_def del: funpow.simps)
  next
    case 4
    with f show ?thesis by (simp add: check_due_def)
  qed
qed

text \<open>
  C30. A pair that never gets a response is checked a bounded number of times and then fails. From a new pair on, with a socket that takes what is written and a
  path that no other pair of the check list has, each of the first \<open>maxBindingRequests + 1\<close> rounds of checks sends one Binding request with the credentials
  of the peer over the pair and leaves it in progress; the next round marks it as failed, and no later round sends anything over it. The limit must be below the
  largest 16-bit number, where the counter would wrap around. One request more is sent than the limit that the configuration documents.
\<close>

theorem unanswered_pair_fails:
  assumes "ice_inv a" "i \<in> set (checklist a)" "pair_state (pairs a ! i) = CandidatePairStateWaiting" "bindingRequestCount (pairs a ! i) = 0"
    and "unat (maxBindingRequests a) + 1 < 2 ^ 16"
    and "a_selector a \<noteq> NoSelector" "\<forall>n. a_netOk a n" "c_open (cands a ! pair_Local (pairs a ! i))"
    and "\<forall>j \<in> set (checklist a). pair_path a j = pair_path a i \<longrightarrow> j = i"
  shows "(0 < k \<longrightarrow> k \<le> unat (maxBindingRequests a) + 1 \<longrightarrow>
            pair_state (pairs ((pingAllCandidates ^^ k) a) ! i) = CandidatePairStateInProgress \<and>
            bindingRequestCount (pairs ((pingAllCandidates ^^ k) a) ! i) = of_nat k) \<and>
         (unat (maxBindingRequests a) + 2 \<le> k \<longrightarrow> pair_state (pairs ((pingAllCandidates ^^ k) a) ! i) = CandidatePairStateFailed) \<and>
         checks_on (pair_path a i) ((pingAllCandidates ^^ k) a) = checks_on (pair_path a i) a + min k (unat (maxBindingRequests a) + 1)"
proof -
  let ?n = "maxBindingRequests a"
  note due = check_due_rounds [OF assms(3-5)] and it = ping_state_iterate [OF assms(3,4) _ _ assms(5), of k]
  have "{j. j < k \<and> check_due ?n ((ping_state ?n ^^ j) (pairs a ! i))} = {..<min k (unat ?n + 1)}" by (auto simp: due(1))
  moreover have "c_open (cands a ! fst (pair_path a i))" using assms(8) by (simp add: pair_path_def)
  ultimately have "checks_on (pair_path a i) ((pingAllCandidates ^^ k) a) = checks_on (pair_path a i) a + min k (unat ?n + 1)"
    using pingAll_iterate_checks [OF assms(1,2,6,7) _ assms(9), of k] by simp
  with it due(2) [of k] pingAll_iterate [OF assms(1,2), of k] show ?thesis by simp
qed

theorem unanswered_pair_fails_witness:
  "checks_on (0, Some (demo_addr 2)) ((pingAllCandidates ^^ 8) (foldl ice_step demo_agent (take 3 demo_run))) = 8 \<and>
   pair_state (pairs ((pingAllCandidates ^^ 8) (foldl ice_step demo_agent (take 3 demo_run))) ! 0) = CandidatePairStateInProgress \<and>
   checks_on (0, Some (demo_addr 2)) ((pingAllCandidates ^^ 20) (foldl ice_step demo_agent (take 3 demo_run))) = 8 \<and>
   pair_state (pairs ((pingAllCandidates ^^ 20) (foldl ice_step demo_agent (take 3 demo_run))) ! 0) = CandidatePairStateFailed"
proof -
  let ?a = "foldl ice_step demo_agent (take 3 demo_run)"
  have i: "ice_inv ?a" by (rule ice.run_inv [OF ice_new_inv [OF demo_new]])
  have c: "checklist ?a = [0]" and s: "pair_state (pairs ?a ! 0) = CandidatePairStateWaiting" "bindingRequestCount (pairs ?a ! 0) = 0"
    and m: "maxBindingRequests ?a = 7" and sel: "a_selector ?a \<noteq> NoSelector" and o: "c_open (cands ?a ! pair_Local (pairs ?a ! 0))"
    and p: "pair_path ?a 0 = (0, Some (demo_addr 2))" and z: "checks_on (0, Some (demo_addr 2)) ?a = 0" by code_simp+
  have "a_netOk ?a n" for n by code_simp
  then have net: "\<forall>n. a_netOk ?a n" by blast
  from c have "0 \<in> set (checklist ?a)" "\<forall>j \<in> set (checklist ?a). pair_path ?a j = pair_path ?a 0 \<longrightarrow> j = 0" by simp_all
  note f = unanswered_pair_fails [OF i this(1) s _ sel net o this(2)]
  show ?thesis using f [of 8] f [of 20] by (simp add: m p z)
qed

text \<open>
  Lost contact: a selected pair whose remote candidate has been silent for longer than both timeouts together fails the connection and unsets the
  pair; silent for longer than the first timeout, the connection is Disconnected; otherwise it is Connected. A timeout of 0 disables its rule.
\<close>

lemma validateSelectedPair_outcome:
  assumes "selectedPair a = Some i" and "a_connectionState a \<noteq> IceStateFailed"
    and "silent = time_since (c_lastReceived (cands a ! pair_Remote (pairs a ! i))) a"
  shows "fst (validateSelectedPair a)"
    and "failedTimeout a \<noteq> 0 \<Longrightarrow> failedTimeout a + disconnectedTimeout a \<noteq> 0 \<Longrightarrow> silent > failedTimeout a + disconnectedTimeout a \<Longrightarrow>
           a_connectionState (snd (validateSelectedPair a)) = IceStateFailed \<and> selectedPair (snd (validateSelectedPair a)) = None \<and>
           checklist (snd (validateSelectedPair a)) = []"
    and "disconnectedTimeout a = 0 \<or> silent \<le> disconnectedTimeout a \<Longrightarrow> failedTimeout a = 0 \<or> silent \<le> failedTimeout a + disconnectedTimeout a \<Longrightarrow>
           a_connectionState (snd (validateSelectedPair a)) = IceStateConnected \<and> selectedPair (snd (validateSelectedPair a)) = Some i"
proof -
  let ?b = "a\<lparr>checklist := [], pendingBindingRequests := [], selectedPair := None\<rparr>"
  have "selectedPair (deleteAllCandidates ?b) = None" "checklist (deleteAllCandidates ?b) = []"
    using calm_emptied [of ?b] by (simp_all add: calm_def)
  then show "fst (validateSelectedPair a)"
    and "failedTimeout a \<noteq> 0 \<Longrightarrow> failedTimeout a + disconnectedTimeout a \<noteq> 0 \<Longrightarrow> silent > failedTimeout a + disconnectedTimeout a \<Longrightarrow>
           a_connectionState (snd (validateSelectedPair a)) = IceStateFailed \<and> selectedPair (snd (validateSelectedPair a)) = None \<and>
           checklist (snd (validateSelectedPair a)) = []"
    and "disconnectedTimeout a = 0 \<or> silent \<le> disconnectedTimeout a \<Longrightarrow> failedTimeout a = 0 \<or> silent \<le> failedTimeout a + disconnectedTimeout a \<Longrightarrow>
           a_connectionState (snd (validateSelectedPair a)) = IceStateConnected \<and> selectedPair (snd (validateSelectedPair a)) = Some i"
    using assms by (auto simp: validateSelectedPair_def Let_def ice_updateConnectionState_def)
qed

text \<open>The controlled side never replaces its selected pair by one of lower priority.\<close>

lemma setSelectedPair_selects [simp]:
  "selectedPair (setSelectedPair i a) = Some i" "a_connectionState (setSelectedPair i a) = IceStateConnected"
  by (simp_all add: setSelectedPair_def Let_def ice_updateConnectionState_def)

lemma switch_to_priority:
  "selectedPair a = Some j \<Longrightarrow> \<exists>k \<in> {i, j}. selectedPair (switch_to i a) = Some k \<and> the_priority a j \<le> the_priority a k"
  by (simp add: switch_to_def)

end
