(* ===== verification/IceNomination.thy ===== *)
theory IceNomination
  imports IceValidity
begin

text \<open>
  Two agents and the network between them. The controlling agent nominates a pair; its request, the response, the check that the request triggers
  on the other side and the response to that check travel between the agents, and in the end both have selected the same path, each from its own side.
\<close>

section \<open>What an exchange leaves alone\<close>

definition cand_core :: "candidate \<Rightarrow> candidate" where
  "cand_core c = c\<lparr>c_lastSent := None, c_lastReceived := None\<rparr>"

definition alike :: "Agent \<Rightarrow> Agent \<Rightarrow> bool" where
  "alike a b \<longleftrightarrow>
     localCandidates b = localCandidates a \<and> remoteCandidates b = remoteCandidates a \<and> checklist b = checklist a \<and>
     length (pairs b) = length (pairs a) \<and>
     (\<forall>k. pair_Local (pairs b ! k) = pair_Local (pairs a ! k) \<and> pair_Remote (pairs b ! k) = pair_Remote (pairs a ! k)) \<and>
     (\<forall>k. cand_core (cands b ! k) = cand_core (cands a ! k)) \<and> a_netOk b = a_netOk a \<and>
     userBindingRequestHandler b = userBindingRequestHandler a \<and> localUfrag b = localUfrag a \<and> remoteUfrag b = remoteUfrag a \<and>
     localPwd b = localPwd a \<and> remotePwd b = remotePwd a \<and> integrityOk b = integrityOk a \<and> isControlling b = isControlling a \<and>
     a_selector b = a_selector a \<and> a_now b = a_now a \<and> a_txids b = a_txids a"

lemma alike_refl [simp]: "alike a a"
  by (simp add: alike_def)

lemma alike_trans [trans]: "alike a b \<Longrightarrow> alike b c \<Longrightarrow> alike a c"
  by (simp add: alike_def)

lemma nth_past: "length xs \<le> k \<Longrightarrow> xs ! k = [] ! (k - length xs)"
  by (induction xs arbitrary: k) (auto simp: nth_Cons split: nat.split)

lemma nth_update_like:
  assumes "h (f (xs ! i)) = h (xs ! i)"
  shows "h (xs[i := f (xs ! i)] ! k) = h (xs ! k)"
proof (cases "k < length xs")
  case True
  with assms show ?thesis by (cases "i = k") auto
next
  case False
  then have "xs[i := f (xs ! i)] ! k = xs ! k"
    using nth_past [of xs k] nth_past [of "xs[i := f (xs ! i)]" k] by (simp only: length_list_update not_less)
  then show ?thesis by simp
qed

lemma alike_cand_seen [simp]: "alike a (cand_seen out i a)"
  using nth_update_like [of cand_core _ "cands a" i] by (simp add: alike_def cand_seen_def upd_cand_def cand_core_def)

lemma alike_upd_pair:
  "(\<And>p. pair_Local (f p) = pair_Local p \<and> pair_Remote (f p) = pair_Remote p) \<Longrightarrow> alike a (upd_pair i f a)"
  using nth_update_like [of pair_Local f "pairs a" i] nth_update_like [of pair_Remote f "pairs a" i] by (simp add: alike_def upd_pair_def)

lemma alike_updates [simp]:
  "alike a (b\<lparr>a_writes := x1\<rparr>) = alike a b" "alike a (b\<lparr>a_outgoing := x2\<rparr>) = alike a b" "alike a (b\<lparr>a_built := x3\<rparr>) = alike a b"
  "alike a (b\<lparr>pendingBindingRequests := x4\<rparr>) = alike a b" "alike a (b\<lparr>selectedPair := x5\<rparr>) = alike a b"
  "alike a (b\<lparr>a_connectionState := x6\<rparr>) = alike a b" "alike a (b\<lparr>stateNotes := x7\<rparr>) = alike a b"
  "alike a (b\<lparr>pairNotes := x8\<rparr>) = alike a b" "alike a (b\<lparr>onConnected := x9\<rparr>) = alike a b"
  by (simp_all add: alike_def)

lemma alike_setSelectedPair [simp]: "alike a (setSelectedPair i a)"
proof -
  have "alike a (upd_pair i (\<lambda>p. p\<lparr>nominated := True\<rparr>) a)" by (rule alike_upd_pair) simp
  then show ?thesis by (simp add: setSelectedPair_def Let_def ice_updateConnectionState_def)
qed

section \<open>Sending over a working path\<close>

text \<open>
  The agent's end of a path: the local candidate is running and bound to the address \<open>s\<close>, the remote candidate has the address \<open>d\<close>, the agent knows the
  pair of the two, finds the remote candidate by its address and the local one by its own, and the network takes what is sent.
\<close>

definition path_end :: "Agent \<Rightarrow> nat \<Rightarrow> nat \<Rightarrow> nat \<Rightarrow> net_addr \<Rightarrow> net_addr \<Rightarrow> bool" where
  "path_end a l r i s d \<longleftrightarrow>
     c_open (cands a ! l) \<and> c_resolvedAddr (cands a ! l) = Some s \<and> c_resolvedAddr (cands a ! r) = Some d \<and>
     find (\<lambda>k. c_resolvedAddr (cands a ! k) = Some s) (all_refs (localCandidates a)) = Some l \<and>
     findRemoteCandidate (c_networkType (cands a ! l)) d a = Some r \<and> findPair l r a = Some i \<and> i < length (pairs a) \<and>
     pair_Local (pairs a ! i) = l \<and> pair_Remote (pairs a ! i) = r \<and>
     (\<forall>n. a_netOk a n) \<and> ice_parseAddr d \<noteq> None \<and> userBindingRequestHandler a = None"

lemma core_fields:
  assumes "cand_core c = cand_core d"
  shows "c_open c = c_open d" "c_resolvedAddr c = c_resolvedAddr d" "c_networkType c = c_networkType d" "c_address c = c_address d"
    "c_port c = c_port d" "c_candidateType c = c_candidateType d" "c_tcpType c = c_tcpType d" "c_relatedAddress c = c_relatedAddress d"
  using assms by (cases c; cases d; simp add: cand_core_def)+

lemma alike_cand:
  assumes "alike a b"
  shows "c_open (cands b ! k) = c_open (cands a ! k)" "c_resolvedAddr (cands b ! k) = c_resolvedAddr (cands a ! k)"
    "c_networkType (cands b ! k) = c_networkType (cands a ! k)" "c_address (cands b ! k) = c_address (cands a ! k)"
    "c_port (cands b ! k) = c_port (cands a ! k)" "cand_Equal (cands b ! k) (cands b ! n) = cand_Equal (cands a ! k) (cands a ! n)"
proof -
  have "cand_core (cands b ! k) = cand_core (cands a ! k)" for k using assms by (simp add: alike_def)
  note f = core_fields [OF this]
  show "c_open (cands b ! k) = c_open (cands a ! k)" "c_resolvedAddr (cands b ! k) = c_resolvedAddr (cands a ! k)"
    "c_networkType (cands b ! k) = c_networkType (cands a ! k)" "c_address (cands b ! k) = c_address (cands a ! k)"
    "c_port (cands b ! k) = c_port (cands a ! k)" "cand_Equal (cands b ! k) (cands b ! n) = cand_Equal (cands a ! k) (cands a ! n)"
    by (simp_all add: f cand_Equal_def)
qed

lemma alike_find:
  assumes "alike a b"
  shows "findPair l r b = findPair l r a" "findRemoteCandidate t addr b = findRemoteCandidate t addr a"
proof -
  have f: "checklist b = checklist a" "remoteCandidates b = remoteCandidates a"
    "pair_Local (pairs b ! k) = pair_Local (pairs a ! k)" "pair_Remote (pairs b ! k) = pair_Remote (pairs a ! k)" for k
    using assms by (simp_all add: alike_def)
  show "findPair l r b = findPair l r a" by (simp add: findPair_def f alike_cand [OF assms])
  show "findRemoteCandidate t addr b = findRemoteCandidate t addr a"
    by (simp add: findRemoteCandidate_def f alike_cand [OF assms] split: option.split)
qed

lemma path_end_alike: "alike a b \<Longrightarrow> path_end b l r i s d = path_end a l r i s d"
  unfolding path_end_def by (simp add: alike_cand alike_find) (simp add: alike_def)

lemma writeTo_sent:
  assumes "c_open (cands a ! l)" "\<forall>n. a_netOk a n" "b = ice_writeTo l m r a"
  shows "alike a b" "a_outgoing b = a_outgoing a @ [(l, c_resolvedAddr (cands a ! r), m)]" "pendingBindingRequests b = pendingBindingRequests a"
    "pairs b = pairs a" "selectedPair b = selectedPair a" "a_connectionState b = a_connectionState a" "a_built b = a_built a"
proof -
  have b: "b = cand_seen True l (a\<lparr>a_writes := a_writes a + 1, a_outgoing := a_outgoing a @ [(l, c_resolvedAddr (cands a ! r), m)]\<rparr>)"
    using assms by (simp add: ice_writeTo_def Let_def)
  show "alike a b" unfolding b by (rule alike_trans [OF _ alike_cand_seen]) simp
  show "a_outgoing b = a_outgoing a @ [(l, c_resolvedAddr (cands a ! r), m)]" "pendingBindingRequests b = pendingBindingRequests a"
    "pairs b = pairs a" "selectedPair b = selectedPair a" "a_connectionState b = a_connectionState a" "a_built b = a_built a"
    by (simp_all add: b cand_seen_def upd_cand_def)
qed

text \<open>A request over the path, and the response to one.\<close>

definition the_request :: "ice_msg \<Rightarrow> net_addr \<Rightarrow> Agent \<Rightarrow> bindingRequest" where
  "the_request m d a = \<lparr>req_timestamp = a_now a, req_transactionID = im_txid m, req_destination = Some d, req_isUseCandidate = has_UseCandidate m\<rparr>"

lemma sendBindingRequest_sent:
  assumes "path_end a l r i s d" "b = sendBindingRequest m l r a"
  shows "alike a b" "a_outgoing b = a_outgoing a @ [(l, Some d, m)]"
    "pendingBindingRequests b =
       filter (\<lambda>q. a_now a - req_timestamp q < maxBindingRequestTimeout) (pendingBindingRequests a) @ [the_request m d a]"
    "pairs b = pairs a" "selectedPair b = selectedPair a" "a_connectionState b = a_connectionState a"
proof -
  let ?c = "a\<lparr>pendingBindingRequests := filter (\<lambda>q. a_now a - req_timestamp q < maxBindingRequestTimeout) (pendingBindingRequests a) @ [the_request m d a]\<rparr>"
  have b: "b = ice_writeTo l m r ?c"
    using assms by (simp add: sendBindingRequest_def sendSTUN_def invalidatePendingBindingRequests_def Let_def the_request_def path_end_def)
  have "c_open (cands ?c ! l)" "\<forall>n. a_netOk ?c n" using assms(1) by (simp_all add: path_end_def)
  note w = writeTo_sent [OF this b]
  show "alike a b" by (rule alike_trans [OF _ w(1)]) simp
  show "a_outgoing b = a_outgoing a @ [(l, Some d, m)]" using w(2) assms(1) by (simp add: path_end_def)
  show "pendingBindingRequests b = filter (\<lambda>q. a_now a - req_timestamp q < maxBindingRequestTimeout) (pendingBindingRequests a) @ [the_request m d a]"
    "pairs b = pairs a" "selectedPair b = selectedPair a" "a_connectionState b = a_connectionState a" using w(3-6) by simp_all
qed

definition the_response :: "ice_msg \<Rightarrow> string \<Rightarrow> ice_msg \<Rightarrow> bool" where
  "the_response m pwd resp \<longleftrightarrow>
     im_binding resp \<and> im_class resp = IceSuccessResponse \<and> im_txid resp = im_txid m \<and> IceIntegrity pwd \<in> set (im_attrs resp) \<and>
     \<not> has_Controlling resp \<and> \<not> has_Controlled resp \<and> \<not> has_UseCandidate resp"

lemma sendBindingSuccess_sent:
  assumes "path_end a l r i s d" "b = sendBindingSuccess m l r a"
  obtains resp where "alike a b" "a_outgoing b = a_outgoing a @ [(l, Some d, resp)]" "the_response m (localPwd a) resp"
    "pendingBindingRequests b = pendingBindingRequests a" "pairs b = pairs a" "selectedPair b = selectedPair a"
    "a_connectionState b = a_connectionState a" "a_built b = a_built a"
proof -
  from assms(1) obtain x p t where d: "ice_parseAddr d = Some (x, p, t)" "c_resolvedAddr (cands a ! r) = Some d"
    by (auto simp: path_end_def)
  let ?resp = "\<lparr>im_binding = True, im_class = IceSuccessResponse, im_txid = im_txid m,
                 im_attrs = [IceXORMappedAddress x p, IceIntegrity (localPwd a), IceFingerprint]\<rparr>"
  have "c_open (cands a ! l)" "\<forall>n. a_netOk a n" "b = ice_writeTo l ?resp r a"
    using assms d by (simp_all add: path_end_def sendBindingSuccess_def sendSTUN_def)
  note w = writeTo_sent [OF this]
  have "the_response m (localPwd a) ?resp" by (simp add: the_response_def has_Controlling_def has_Controlled_def has_UseCandidate_def)
  with w d(2) show ?thesis by (intro that) simp_all
qed


section \<open>The steps of the exchange\<close>

text \<open>The agent waits for the response to a request it has just sent, under a transaction identifier of its own.\<close>

definition awaiting :: "ice_msg \<Rightarrow> net_addr \<Rightarrow> Agent \<Rightarrow> bool" where
  "awaiting m d a \<longleftrightarrow>
     (\<exists>ps. pendingBindingRequests a = ps @ [the_request m d a] \<and> (\<forall>p \<in> set ps. req_transactionID p \<noteq> im_txid m))"

lemma confirm_awaited:
  assumes "path_end a l r i s d" "awaiting m d a" "im_txid resp = im_txid m"
  obtains b where "confirm_pair resp l r d a = (Some (the_request m d a, i), b)" "alike a b"
    "pairs b = (pairs a)[i := (pairs a ! i)\<lparr>pair_state := CandidatePairStateSucceeded\<rparr>]" "a_outgoing b = a_outgoing a"
    "selectedPair b = selectedPair a" "a_connectionState b = a_connectionState a"
proof -
  let ?q = "the_request m d a"
  from assms(2) obtain ps where ps: "pendingBindingRequests a = ps @ [?q]" "\<forall>p \<in> set ps. req_transactionID p \<noteq> im_txid m"
    by (auto simp: awaiting_def)
  let ?fresh = "filter (\<lambda>p. a_now a - req_timestamp p < maxBindingRequestTimeout) ps"
  have q: "a_now a - req_timestamp ?q < maxBindingRequestTimeout" "req_transactionID ?q = im_txid m" "req_destination ?q = Some d"
    by (simp_all add: the_request_def maxBindingRequestTimeout_def)
  have "find (\<lambda>p. req_transactionID p = im_txid m) (?fresh @ [?q]) = Some ?q"
    using ps(2) q(2) by (induction ps) auto
  then obtain y where h: "handleInboundBindingSuccess (im_txid resp) a = (Some ?q, a\<lparr>pendingBindingRequests := y\<rparr>)"
    using ps q by (simp add: handleInboundBindingSuccess_def invalidatePendingBindingRequests_def Let_def assms(3))
  let ?b = "upd_pair i (\<lambda>p. p\<lparr>pair_state := CandidatePairStateSucceeded\<rparr>) (a\<lparr>pendingBindingRequests := y\<rparr>)"
  have f: "findPair l r a = Some i" "ice_addrEqual d d" using assms(1) by (auto simp: path_end_def ice_addrEqual_def)
  have "confirm_pair resp l r d a = (Some (?q, i), ?b)" by (simp add: confirm_pair_def h q f)
  moreover have "alike (a\<lparr>pendingBindingRequests := y\<rparr>) ?b" by (rule alike_upd_pair) simp
  then have "alike a ?b" by (simp add: alike_def)
  ultimately show ?thesis by (rule that) (simp_all add: upd_pair_def)
qed

definition credentials :: "Agent \<Rightarrow> Agent \<Rightarrow> bool" where
  "credentials a b \<longleftrightarrow> remoteUfrag a = localUfrag b \<and> localUfrag a = remoteUfrag b \<and> remotePwd a = localPwd b \<and> localPwd a = remotePwd b"

text \<open>What the STUN package documents of the integrity check: it accepts a message whose integrity attribute was made with the same password.\<close>

definition integrity_law :: "Agent \<Rightarrow> bool" where
  "integrity_law a \<longleftrightarrow> (\<forall>pwd m. IceIntegrity pwd \<in> set (im_attrs m) \<longrightarrow> integrityOk a pwd m)"

lemma handle_response:
  assumes "path_end a l r i s d" "the_response m (remotePwd a) resp" "integrity_law a"
  shows "handleInbound resp l d a = cand_seen False r (HandleSuccessResponse resp l r d a)"
  using assms by (simp add: handleInbound_def role_conflict_def the_response_def path_end_def integrity_law_def Let_def)

lemma handle_request:
  assumes "path_end a l r i s d" "im_binding m" "im_class m = IceRequest" "\<not> role_conflict m a" "integrity_law a"
    "AssertUsername m (localUfrag a @ '':'' @ remoteUfrag a)" "IceIntegrity (localPwd a) \<in> set (im_attrs m)"
  shows "handleInbound m l d a = cand_seen False r (HandleBindingRequest m l r a)"
  using assms by (simp add: handleInbound_def path_end_def integrity_law_def Let_def request_remote_def)

lemma cand_seen_keeps [simp]:
  "pairs (cand_seen out k a) = pairs a" "selectedPair (cand_seen out k a) = selectedPair a"
  "a_connectionState (cand_seen out k a) = a_connectionState a" "a_outgoing (cand_seen out k a) = a_outgoing a"
  "pendingBindingRequests (cand_seen out k a) = pendingBindingRequests a"
  by (simp_all add: cand_seen_def upd_cand_def)

lemma setSelectedPair_keeps [simp]:
  "a_outgoing (setSelectedPair i a) = a_outgoing a" "pendingBindingRequests (setSelectedPair i a) = pendingBindingRequests a"
  "a_built (setSelectedPair i a) = a_built a"
  by (simp_all add: setSelectedPair_def Let_def ice_updateConnectionState_def upd_pair_def)

text \<open>The controlling side selects when the response to its nomination arrives.\<close>

lemma controlling_selects:
  assumes p: "path_end a l r i s d" and "awaiting m d a" "has_UseCandidate m" "the_response m (remotePwd a) resp" "integrity_law a"
    and "a_selector a = ControllingSelector t n" "selectedPair a = None" and b: "b = handleInbound resp l d a"
  shows "alike a b" "selectedPair b = Some i" "a_connectionState b = IceStateConnected" "a_outgoing b = a_outgoing a"
proof -
  obtain c where c: "confirm_pair resp l r d a = (Some (the_request m d a, i), c)" "alike a c" "a_outgoing c = a_outgoing a" "selectedPair c = selectedPair a"
    using confirm_awaited [OF p assms(2)] assms(4) unfolding the_response_def by metis
  have b': "b = cand_seen False r (setSelectedPair i c)"
    unfolding b handle_response [OF p assms(4,5)]
    using assms c by (simp add: HandleSuccessResponse_def controlling_HandleSuccess_def the_request_def)
  show "alike a b" unfolding b' using c(2) alike_setSelectedPair alike_cand_seen by (blast intro: alike_trans)
  show "selectedPair b = Some i" "a_connectionState b = IceStateConnected" "a_outgoing b = a_outgoing a" using c(3) by (simp_all add: b')
qed

text \<open>The controlling side answers a check of the other side; with a selected pair it does nothing else.\<close>

lemma controlling_answers:
  assumes p: "path_end a l r i s d" and "im_binding m" "im_class m = IceRequest" "\<not> role_conflict m a" "integrity_law a"
    "AssertUsername m (localUfrag a @ '':'' @ remoteUfrag a)" "IceIntegrity (localPwd a) \<in> set (im_attrs m)"
    and "a_selector a = ControllingSelector t n" "selectedPair a = Some k" and b: "b = handleInbound m l d a"
  obtains resp where "alike a b" "selectedPair b = selectedPair a" "a_connectionState b = a_connectionState a"
    "a_outgoing b = a_outgoing a @ [(l, Some d, resp)]" "the_response m (localPwd a) resp"
proof -
  let ?c = "sendBindingSuccess m l r a"
  obtain resp where c: "alike a ?c" "a_outgoing ?c = a_outgoing a @ [(l, Some d, resp)]" "the_response m (localPwd a) resp"
    "selectedPair ?c = selectedPair a" "a_connectionState ?c = a_connectionState a"
    using sendBindingSuccess_sent [OF p refl] by metis
  have u: "findPair l r ?c = Some i" "userBindingRequestHandler ?c = None" "a_selector a = ControllingSelector t n" "selectedPair ?c = Some k"
    using path_end_alike [OF c(1), of l r i s d] p assms(8,9) c(4) by (simp_all add: path_end_def)
  have b': "b = cand_seen False r ?c"
    unfolding b handle_request [OF p assms(2-7)]
    by (simp add: HandleBindingRequest_def controlling_HandleRequest_def Let_def user_switch_def u)
  have "alike a b" unfolding b' using c(1) alike_cand_seen by (blast intro: alike_trans)
  then show ?thesis using c by (intro that) (simp_all add: b')
qed


definition fresh_txid :: "Agent \<Rightarrow> bool" where
  "fresh_txid a \<longleftrightarrow> (\<forall>q \<in> set (pendingBindingRequests a). req_transactionID q \<noteq> a_txids a (a_built a))"

text \<open>A request the other side will accept: user name and password are its own.\<close>

definition accepted_request :: "Agent \<Rightarrow> ice_msg \<Rightarrow> bool" where
  "accepted_request a m \<longleftrightarrow>
     im_binding m \<and> im_class m = IceRequest \<and> AssertUsername m (remote_username a) \<and> IceIntegrity (remotePwd a) \<in> set (im_attrs m)"

lemma send_built:
  assumes p: "path_end a l r i s d" and f: "fresh_txid a" and m: "im_txid m = a_txids a (a_built a)"
    and b: "b = sendBindingRequest m l r (a\<lparr>a_built := a_built a + 1\<rparr>)"
  shows "alike a b" "a_outgoing b = a_outgoing a @ [(l, Some d, m)]" "awaiting m d b" "pairs b = pairs a"
    "selectedPair b = selectedPair a" "a_connectionState b = a_connectionState a"
proof -
  have p': "path_end (a\<lparr>a_built := a_built a + 1\<rparr>) l r i s d"
    using p path_end_alike [of a "a\<lparr>a_built := a_built a + 1\<rparr>"] by simp
  note w = sendBindingRequest_sent [OF p' b]
  show al: "alike a b" using w(1) by (simp add: alike_def)
  have "the_request m d (a\<lparr>a_built := a_built a + 1\<rparr>) = the_request m d b" using al by (simp add: the_request_def alike_def)
  with w(3) f show "awaiting m d b" by (auto simp: awaiting_def m fresh_txid_def)
  show "a_outgoing b = a_outgoing a @ [(l, Some d, m)]" "pairs b = pairs a"
    "selectedPair b = selectedPair a" "a_connectionState b = a_connectionState a" using w by simp_all
qed

lemma controlled_Ping_sent:
  assumes p: "path_end a l r i s d" and f: "fresh_txid a" and b: "b = controlled_Ping l r a"
  obtains m where "accepted_request a m" "\<not> has_Controlling m" "\<not> has_UseCandidate m"
    "alike a b" "a_outgoing b = a_outgoing a @ [(l, Some d, m)]" "awaiting m d b" "pairs b = pairs a"
    "selectedPair b = selectedPair a" "a_connectionState b = a_connectionState a"
proof -
  let ?m = "fst (build_request [IceUsername (remote_username a), IceAttrControlled (tieBreaker a), IcePriority (cand_Priority (cands a ! l)),
              IceIntegrity (remotePwd a), IceFingerprint] a)"
  have "im_txid ?m = a_txids a (a_built a)" "b = sendBindingRequest ?m l r (a\<lparr>a_built := a_built a + 1\<rparr>)"
    by (simp_all add: b build_request_def controlled_Ping_def)
  note w = send_built [OF p f this]
  have "accepted_request a ?m" "\<not> has_Controlling ?m" "\<not> has_UseCandidate ?m"
    by (simp_all add: build_request_def accepted_request_def AssertUsername_def has_Controlling_def has_UseCandidate_def)
  from that [OF this w] show ?thesis .
qed

lemma nominatePair_sent:
  assumes p: "path_end a l r i s d" and f: "fresh_txid a" and b: "b = nominatePair i a"
  obtains m where "accepted_request a m" "\<not> has_Controlled m" "has_UseCandidate m"
    "alike a b" "a_outgoing b = a_outgoing a @ [(l, Some d, m)]" "awaiting m d b"
    "selectedPair b = selectedPair a"
proof -
  let ?m = "fst (build_request [IceUsername (remote_username a), IceUseCandidate, IceAttrControlling (tieBreaker a),
              IcePriority (cand_Priority (cands a ! l)), IceIntegrity (remotePwd a), IceFingerprint] a)"
  have lr: "pair_Local (pairs a ! i) = l" "pair_Remote (pairs a ! i) = r" using p by (simp_all add: path_end_def)
  have "im_txid ?m = a_txids a (a_built a)" "b = sendBindingRequest ?m l r (a\<lparr>a_built := a_built a + 1\<rparr>)"
    by (simp_all add: b build_request_def nominatePair_def lr)
  note w = send_built [OF p f this]
  have "accepted_request a ?m" "\<not> has_Controlled ?m" "has_UseCandidate ?m"
    by (simp_all add: build_request_def accepted_request_def AssertUsername_def has_Controlled_def has_UseCandidate_def)
  from that [OF this w(1-3,5)] show ?thesis .
qed

text \<open>
  The controlled side gets a nomination: it selects the pair at once if a check over it has succeeded, else it remembers the nomination; in both cases
  it answers and sends a check of its own.
\<close>

definition nomination_known :: "Agent \<Rightarrow> nat \<Rightarrow> bool" where
  "nomination_known a i \<longleftrightarrow>
     selectedPair a = Some i \<and> a_connectionState a = IceStateConnected \<or> selectedPair a = None \<and> nominateOnBindingSuccess (pairs a ! i)"

lemma note_nomination:
  assumes p: "path_end a l r i s d" and "selectedPair a = None"
    and b: "b = (if pair_state (pairs a ! i) = CandidatePairStateSucceeded then switch_to i a else upd_pair i (\<lambda>p. p\<lparr>nominateOnBindingSuccess := True\<rparr>) a)"
  shows "alike a b" "nomination_known b i" "a_outgoing b = a_outgoing a" "fresh_txid b = fresh_txid a"
proof -
  show al: "alike a b" using assms(2) by (auto simp: b switch_to_def intro: alike_upd_pair)
  have "i < length (pairs a)" using p by (simp add: path_end_def)
  then show "nomination_known b i" using assms(2) by (auto simp: b switch_to_def nomination_known_def upd_pair_def)
  show "a_outgoing b = a_outgoing a" using assms(2) by (simp add: b switch_to_def upd_pair_def)
  have "pendingBindingRequests b = pendingBindingRequests a" "a_built b = a_built a" using assms(2) by (simp_all add: b switch_to_def upd_pair_def)
  with al show "fresh_txid b = fresh_txid a" by (simp add: fresh_txid_def alike_def)
qed

lemma controlled_nominated:
  assumes p: "path_end a l r i s d" and m: "im_binding m" "im_class m = IceRequest" "\<not> role_conflict m a" "integrity_law a"
    "AssertUsername m (localUfrag a @ '':'' @ remoteUfrag a)" "IceIntegrity (localPwd a) \<in> set (im_attrs m)"
    and u: "has_UseCandidate m" "a_selector a = ControlledSelector" "selectedPair a = None" "fresh_txid a" and b: "b = handleInbound m l d a"
  obtains resp ping where "alike a b" "a_outgoing b = a_outgoing a @ [(l, Some d, resp), (l, Some d, ping)]" "the_response m (localPwd a) resp"
    "accepted_request a ping" "\<not> has_Controlling ping" "\<not> has_UseCandidate ping" "awaiting ping d b" "nomination_known b i"
proof -
  define c where "c = (if pair_state (pairs a ! i) = CandidatePairStateSucceeded then switch_to i a
                       else upd_pair i (\<lambda>p. p\<lparr>nominateOnBindingSuccess := True\<rparr>) a)"
  note c = note_nomination [OF p u(3) c_def]
  have pc: "path_end c l r i s d" using path_end_alike [OF c(1)] p by simp
  define e where "e = sendBindingSuccess m l r c"
  obtain resp where e: "alike c e" "a_outgoing e = a_outgoing c @ [(l, Some d, resp)]" "the_response m (localPwd c) resp"
    "pendingBindingRequests e = pendingBindingRequests c" "pairs e = pairs c" "selectedPair e = selectedPair c"
    "a_connectionState e = a_connectionState c" "a_built e = a_built c"
    using sendBindingSuccess_sent [OF pc e_def] by metis
  have pe: "path_end e l r i s d" using path_end_alike [OF e(1)] pc by simp
  have "fresh_txid e" using c(4) u(4) e(1,4,8) by (simp add: fresh_txid_def alike_def)
  then obtain ping where g: "accepted_request e ping" "\<not> has_Controlling ping" "\<not> has_UseCandidate ping" "alike e (controlled_Ping l r e)"
    "a_outgoing (controlled_Ping l r e) = a_outgoing e @ [(l, Some d, ping)]" "awaiting ping d (controlled_Ping l r e)"
    "pairs (controlled_Ping l r e) = pairs e" "selectedPair (controlled_Ping l r e) = selectedPair e"
    "a_connectionState (controlled_Ping l r e) = a_connectionState e"
    using controlled_Ping_sent [OF pe _ refl] by metis
  have "findPair l r a = Some i" "userBindingRequestHandler (controlled_Ping l r e) = None"
    using p c(1) e(1) g(4) by (simp_all add: path_end_def alike_def)
  then have b': "b = cand_seen False r (controlled_Ping l r e)"
    unfolding b handle_request [OF p m]
    using u by (simp add: HandleBindingRequest_def controlled_HandleRequest_def Let_def user_switch_def c_def e_def)
  have al: "alike a b" unfolding b' using c(1) e(1) g(4) alike_cand_seen by (blast intro: alike_trans)
  have "localPwd c = localPwd a" "accepted_request a ping"
    using g(1) c(1) e(1) by (simp_all add: alike_def accepted_request_def remote_username_def)
  moreover have "awaiting ping d b" using g(6) by (simp add: b' awaiting_def the_request_def cand_seen_def upd_cand_def)
  moreover have "nomination_known b i" using c(2) e(5-7) g(7-9) by (simp add: b' nomination_known_def)
  ultimately show ?thesis using al c(3) e(2,3) g(2,3,5) by (intro that) (simp_all add: b')
qed

text \<open>The response to that check completes the nomination.\<close>

lemma controlled_selects:
  assumes p: "path_end a l r i s d" and "awaiting m d a" "the_response m (remotePwd a) resp" "integrity_law a"
    and "a_selector a = ControlledSelector" "nomination_known a i" and b: "b = handleInbound resp l d a"
  shows "selectedPair b = Some i" "a_connectionState b = IceStateConnected"
proof -
  obtain c where c: "confirm_pair resp l r d a = (Some (the_request m d a, i), c)"
    "pairs c = (pairs a)[i := (pairs a ! i)\<lparr>pair_state := CandidatePairStateSucceeded\<rparr>]" "selectedPair c = selectedPair a"
    "a_connectionState c = a_connectionState a"
    using confirm_awaited [OF p assms(2)] assms(3) unfolding the_response_def by metis
  have "i < length (pairs a)" using p by (simp add: path_end_def)
  with assms(5,6) c show "selectedPair b = Some i" "a_connectionState b = IceStateConnected"
    unfolding b handle_response [OF p assms(3,4)]
    by (auto simp: HandleSuccessResponse_def controlled_HandleSuccess_def nomination_known_def switch_to_def)
qed


section \<open>The network and the exchange\<close>

text \<open>
  A network without address translation between two agents: each message that the first has sent reaches the running local candidate of the second
  that is bound to its destination, with the address of the sending candidate as its source; a message to any other address is lost.
\<close>

definition transfer :: "Agent \<Rightarrow> Agent \<Rightarrow> Agent \<times> Agent" where
  "transfer a b =
     (a\<lparr>a_outgoing := []\<rparr>,
      foldl (\<lambda>b (l, dest, m).
          case (dest, c_resolvedAddr (cands a ! l)) of
            (Some d, Some src) \<Rightarrow>
              (case find (\<lambda>k. c_resolvedAddr (cands b ! k) = Some d) (all_refs (localCandidates b)) of
                 None \<Rightarrow> b
               | Some k \<Rightarrow> handleInbound m k src b)
          | _ \<Rightarrow> b) b (a_outgoing a))"

lemma transfer_one:
  assumes "path_end a l r i s d" "path_end b l' r' j d s" "a_outgoing a = [(l, Some d, m)]"
  shows "transfer a b = (a\<lparr>a_outgoing := []\<rparr>, handleInbound m l' s b)"
  using assms by (simp add: transfer_def path_end_def)

lemma transfer_two:
  assumes "path_end a l r i s d" "path_end b l' r' j d s" "path_end (handleInbound m l' s b) l' r' j d s"
    "a_outgoing a = [(l, Some d, m), (l, Some d, n)]"
  shows "transfer a b = (a\<lparr>a_outgoing := []\<rparr>, handleInbound n l' s (handleInbound m l' s b))"
  using assms by (simp add: transfer_def path_end_def)

text \<open>Nomination by the first agent, and the four messages that follow from it.\<close>

definition nomination :: "nat \<Rightarrow> Agent \<Rightarrow> Agent \<Rightarrow> Agent \<times> Agent" where
  "nomination i a b =
     (let (a, b) = transfer (nominatePair i a) b;
          (b, a) = transfer b a
      in transfer a b)"

definition ready :: "Agent \<Rightarrow> bool" where
  "ready a \<longleftrightarrow> integrity_law a \<and> fresh_txid a \<and> selectedPair a = None \<and> a_outgoing a = []"

lemma role_conflict_free:
  "isControlling a \<Longrightarrow> \<not> has_Controlling m \<Longrightarrow> \<not> has_UseCandidate m \<Longrightarrow> \<not> role_conflict m a"
  "\<not> isControlling a \<Longrightarrow> \<not> has_Controlled m \<Longrightarrow> \<not> role_conflict m a"
  by (simp_all add: role_conflict_def)

lemma outgoing_updates [simp]:
  "path_end (a\<lparr>a_outgoing := x\<rparr>) l r i s d = path_end a l r i s d" "awaiting m d (a\<lparr>a_outgoing := x\<rparr>) = awaiting m d a"
  "nomination_known (a\<lparr>a_outgoing := x\<rparr>) i = nomination_known a i" "integrity_law (a\<lparr>a_outgoing := x\<rparr>) = integrity_law a"
  using path_end_alike [of a "a\<lparr>a_outgoing := x\<rparr>"]
  by (simp_all add: awaiting_def the_request_def nomination_known_def integrity_law_def)

text \<open>The first message: the nomination reaches the controlled side, which answers and sends a check of its own.\<close>

definition ends_meet :: "Agent \<Rightarrow> nat \<Rightarrow> nat \<Rightarrow> nat \<Rightarrow> Agent \<Rightarrow> nat \<Rightarrow> nat \<Rightarrow> nat \<Rightarrow> net_addr \<Rightarrow> net_addr \<Rightarrow> bool" where
  "ends_meet a l r i b l' r' j s d \<longleftrightarrow>
     path_end a l r i s d \<and> path_end b l' r' j d s \<and> credentials a b \<and> integrity_law a \<and> integrity_law b \<and>
     (\<exists>t n. a_selector a = ControllingSelector t n) \<and> isControlling a \<and> a_selector b = ControlledSelector \<and> \<not> isControlling b"

lemma ends_meet_alike: "alike a a' \<Longrightarrow> alike b b' \<Longrightarrow> ends_meet a' l r i b' l' r' j s d = ends_meet a l r i b l' r' j s d"
  unfolding ends_meet_def by (simp add: path_end_alike) (simp add: alike_def credentials_def integrity_law_def)

lemma nomination_reaches:
  assumes e: "ends_meet a l r i b l' r' j s d" and "ready a" "ready b"
  obtains a1 b1 m resp ping where "transfer (nominatePair i a) b = (a1, b1)" "ends_meet a1 l r i b1 l' r' j s d"
    "has_UseCandidate m" "awaiting m d a1" "selectedPair a1 = None" "a_outgoing a1 = []"
    "a_outgoing b1 = [(l', Some s, resp), (l', Some s, ping)]" "the_response m (localPwd b1) resp"
    "accepted_request b1 ping" "\<not> has_Controlling ping" "\<not> has_UseCandidate ping" "awaiting ping s b1" "nomination_known b1 j"
proof -
  have p: "path_end a l r i s d" "path_end b l' r' j d s" using e by (simp_all add: ends_meet_def)
  define a1 where "a1 = nominatePair i a"
  obtain m where m: "accepted_request a m" "\<not> has_Controlled m" "has_UseCandidate m" "alike a a1" "a_outgoing a1 = [(l, Some d, m)]"
      "awaiting m d a1" "selectedPair a1 = None"
    using nominatePair_sent [OF p(1) _ a1_def] assms(2) unfolding ready_def by (metis append_Nil)
  define b1 where "b1 = handleInbound m l' s b"
  have okm: "im_binding m" "im_class m = IceRequest" "\<not> role_conflict m b" "integrity_law b"
    "AssertUsername m (localUfrag b @ '':'' @ remoteUfrag b)" "IceIntegrity (localPwd b) \<in> set (im_attrs m)" "a_selector b = ControlledSelector"
    using m(1,2) e by (simp_all add: accepted_request_def remote_username_def credentials_def role_conflict_free ends_meet_def)
  obtain resp ping where b1: "alike b b1" "a_outgoing b1 = [(l', Some s, resp), (l', Some s, ping)]" "the_response m (localPwd b) resp"
      "accepted_request b ping" "\<not> has_Controlling ping" "\<not> has_UseCandidate ping" "awaiting ping s b1" "nomination_known b1 j"
    using controlled_nominated [OF p(2) okm(1-6) m(3) okm(7) _ _ b1_def] assms(3) unfolding ready_def by (metis append_Nil)
  have "path_end a1 l r i s d" using path_end_alike [OF m(4)] p(1) by simp
  from transfer_one [OF this p(2) m(5)] have t: "transfer (nominatePair i a) b = (a1\<lparr>a_outgoing := []\<rparr>, b1)" by (simp add: b1_def a1_def)
  have "ends_meet (a1\<lparr>a_outgoing := []\<rparr>) l r i b1 l' r' j s d"
    using ends_meet_alike [of a "a1\<lparr>a_outgoing := []\<rparr>" b b1] m(4) b1(1) e by simp
  moreover have "localPwd b1 = localPwd b" "accepted_request b1 ping"
    using b1(1,4) by (simp_all add: alike_def accepted_request_def remote_username_def)
  ultimately show ?thesis using t m b1 by (intro that [of "a1\<lparr>a_outgoing := []\<rparr>" b1 m resp ping]) simp_all
qed

text \<open>The second and third message: the controlling side selects on the response and answers the check.\<close>

lemma nomination_answered:
  assumes e: "ends_meet a l r i b l' r' j s d" and "has_UseCandidate m" "awaiting m d a" "selectedPair a = None" "a_outgoing a = []"
    and out: "a_outgoing b = [(l', Some s, resp), (l', Some s, ping)]" and "the_response m (localPwd b) resp"
    and ping: "accepted_request b ping" "\<not> has_Controlling ping" "\<not> has_UseCandidate ping"
  obtains a' resp2 where "transfer b a = (b\<lparr>a_outgoing := []\<rparr>, a')" "alike a a'" "selectedPair a' = Some i" "a_connectionState a' = IceStateConnected"
    "a_outgoing a' = [(l, Some d, resp2)]" "the_response ping (remotePwd b) resp2"
proof -
  have p: "path_end a l r i s d" "path_end b l' r' j d s" using e by (simp_all add: ends_meet_def)
  from e obtain t n where c: "remotePwd a = localPwd b" "integrity_law a" "a_selector a = ControllingSelector t n" by (auto simp: ends_meet_def credentials_def)
  define a2 where "a2 = handleInbound resp l d a"
  note a2 = controlling_selects [OF p(1) assms(3,2) _ c(2,3) assms(4) a2_def, unfolded c(1), OF assms(7)]
  have p2: "path_end a2 l r i s d" using path_end_alike [OF a2(1)] p(1) by simp
  define a3 where "a3 = handleInbound ping l d a2"
  have okp: "im_binding ping" "im_class ping = IceRequest" "\<not> role_conflict ping a2" "integrity_law a2"
    "AssertUsername ping (localUfrag a2 @ '':'' @ remoteUfrag a2)" "IceIntegrity (localPwd a2) \<in> set (im_attrs ping)" "a_selector a2 = ControllingSelector t n"
    using ping e a2(1) c(3)
    by (simp_all add: accepted_request_def remote_username_def credentials_def role_conflict_free ends_meet_def alike_def integrity_law_def)
  have o2: "a_outgoing a2 = []" using a2(4) assms(5) by simp
  obtain resp2 where a3: "alike a2 a3" "selectedPair a3 = Some i" "a_connectionState a3 = IceStateConnected"
      "a_outgoing a3 = [(l, Some d, resp2)]" "the_response ping (localPwd a2) resp2"
    using controlling_answers [OF p2 okp a2(2) a3_def] a2(2,3) o2 by (metis append_Nil)
  have "transfer b a = (b\<lparr>a_outgoing := []\<rparr>, a3)"
    using transfer_two [OF p(2,1) _ out] p2 by (simp add: a2_def a3_def)
  moreover have "localPwd a2 = remotePwd b" using e a2(1) by (simp add: ends_meet_def credentials_def alike_def)
  ultimately show ?thesis using a3 alike_trans [OF a2(1) a3(1)] by (intro that) simp_all
qed

text \<open>
  C5. The two sides agree on the path. A controlling and a controlled agent have exchanged their credentials, neither has selected a pair, and each knows
  the pair of the two candidates at the ends of a working path. When the controlling agent nominates its pair, then after the nomination, its
  response, the check it triggers and the response to that, both agents have selected this very path, each from its own end, and are connected;
  whether or not a check of the controlled agent had succeeded before. The integrity check is taken to accept what was signed with the same password,
  and the new transaction identifiers to differ from those of the pending requests.
\<close>

theorem nomination_agrees:
  assumes e: "ends_meet a l r i b l' r' j s d" and "ready a" "ready b" and n: "nomination i a b = (a', b')"
  shows "selectedPair a' = Some i \<and> a_connectionState a' = IceStateConnected \<and> selectedPair b' = Some j \<and> a_connectionState b' = IceStateConnected"
proof -
  obtain a1 b1 m resp ping where 1: "transfer (nominatePair i a) b = (a1, b1)" "ends_meet a1 l r i b1 l' r' j s d"
    "has_UseCandidate m" "awaiting m d a1" "selectedPair a1 = None" "a_outgoing a1 = []"
    "a_outgoing b1 = [(l', Some s, resp), (l', Some s, ping)]" "the_response m (localPwd b1) resp"
    "accepted_request b1 ping" "\<not> has_Controlling ping" "\<not> has_UseCandidate ping" "awaiting ping s b1" "nomination_known b1 j"
    using nomination_reaches [OF assms(1-3)] by metis
  obtain a3 resp2 where 2: "transfer b1 a1 = (b1\<lparr>a_outgoing := []\<rparr>, a3)" "alike a1 a3" "selectedPair a3 = Some i"
    "a_connectionState a3 = IceStateConnected" "a_outgoing a3 = [(l, Some d, resp2)]" "the_response ping (remotePwd b1) resp2"
    using nomination_answered [OF 1(2-11)] by metis
  let ?b2 = "b1\<lparr>a_outgoing := []\<rparr>"
  have "ends_meet a3 l r i ?b2 l' r' j s d" using ends_meet_alike [OF 2(2), of b1 ?b2] 1(2) by simp
  then have p: "path_end a3 l r i s d" "path_end ?b2 l' r' j d s" "integrity_law ?b2" "a_selector ?b2 = ControlledSelector"
    by (simp_all add: ends_meet_def)
  have w: "awaiting ping s ?b2" "the_response ping (remotePwd ?b2) resp2" "nomination_known ?b2 j" using 1(12,13) 2(6) by simp_all
  have "(a', b') = (a3\<lparr>a_outgoing := []\<rparr>, handleInbound resp2 l' s ?b2)"
    using n 1(1) 2(1) transfer_one [OF p(1,2) 2(5)] by (simp add: nomination_def)
  then have "a' = a3\<lparr>a_outgoing := []\<rparr>" "b' = handleInbound resp2 l' s ?b2" by simp_all
  then show ?thesis using 2(3,4) controlled_selects [OF p(2) w(1,2) p(3,4) w(3)] by simp
qed


definition demo_controlling :: Agent where
  "demo_controlling = foldl ice_step demo_agent [IceAddLocal (demo_cand 1), IceAddRemote (demo_cand 2) None, IceStart True ''ruf'' ''rpw'']"

definition demo_controlled :: Agent where
  "demo_controlled =
     foldl ice_step (demo_agent\<lparr>localUfrag := ''ruf'', localPwd := ''rpw''\<rparr>)
       [IceAddLocal (demo_cand 2), IceAddRemote (demo_cand 1) None, IceStart False ''luf'' ''lpw'']"

lemma demo_ends:
  "path_end demo_controlling 0 1 0 (demo_addr 1) (demo_addr 2)" "path_end demo_controlled 0 1 0 (demo_addr 2) (demo_addr 1)"
proof -
  have "a_netOk demo_controlling n" "a_netOk demo_controlled n" for n by code_simp+
  moreover have
    "c_open (cands demo_controlling ! 0) \<and> c_resolvedAddr (cands demo_controlling ! 0) = Some (demo_addr 1) \<and>
     c_resolvedAddr (cands demo_controlling ! 1) = Some (demo_addr 2) \<and>
     find (\<lambda>k. c_resolvedAddr (cands demo_controlling ! k) = Some (demo_addr 1)) (all_refs (localCandidates demo_controlling)) = Some 0 \<and>
     findRemoteCandidate (c_networkType (cands demo_controlling ! 0)) (demo_addr 2) demo_controlling = Some 1 \<and>
     findPair 0 1 demo_controlling = Some 0 \<and> 0 < length (pairs demo_controlling) \<and>
     pair_Local (pairs demo_controlling ! 0) = 0 \<and> pair_Remote (pairs demo_controlling ! 0) = 1 \<and>
     ice_parseAddr (demo_addr 2) = Some ([10, 0, 0, 2], 5000, NetworkTypeUDP4) \<and> Option.is_none (userBindingRequestHandler demo_controlling)"
    "c_open (cands demo_controlled ! 0) \<and> c_resolvedAddr (cands demo_controlled ! 0) = Some (demo_addr 2) \<and>
     c_resolvedAddr (cands demo_controlled ! 1) = Some (demo_addr 1) \<and>
     find (\<lambda>k. c_resolvedAddr (cands demo_controlled ! k) = Some (demo_addr 2)) (all_refs (localCandidates demo_controlled)) = Some 0 \<and>
     findRemoteCandidate (c_networkType (cands demo_controlled ! 0)) (demo_addr 1) demo_controlled = Some 1 \<and>
     findPair 0 1 demo_controlled = Some 0 \<and> 0 < length (pairs demo_controlled) \<and>
     pair_Local (pairs demo_controlled ! 0) = 0 \<and> pair_Remote (pairs demo_controlled ! 0) = 1 \<and>
     ice_parseAddr (demo_addr 1) = Some ([10, 0, 0, 1], 5000, NetworkTypeUDP4) \<and> Option.is_none (userBindingRequestHandler demo_controlled)"
    by code_simp+
  ultimately show "path_end demo_controlling 0 1 0 (demo_addr 1) (demo_addr 2)" "path_end demo_controlled 0 1 0 (demo_addr 2) (demo_addr 1)"
    by (simp_all add: path_end_def Option.is_none_def)
qed

lemma demo_integrity: "integrityOk demo_controlling pwd m = (IceIntegrity pwd \<in> set (im_attrs m))"
  "integrityOk demo_controlled pwd m = (IceIntegrity pwd \<in> set (im_attrs m))"
  by code_simp+


lemma demo_meet: "ends_meet demo_controlling 0 1 0 demo_controlled 0 1 0 (demo_addr 1) (demo_addr 2)"
proof -
  have "credentials demo_controlling demo_controlled" "a_selector demo_controlling = ControllingSelector 0 None" "isControlling demo_controlling"
    "a_selector demo_controlled = ControlledSelector" "\<not> isControlling demo_controlled" by code_simp+
  then show ?thesis using demo_ends by (simp add: ends_meet_def integrity_law_def demo_integrity)
qed

lemma demo_ready: "ready demo_controlling" "ready demo_controlled"
proof -
  have "length (pendingBindingRequests demo_controlling) = 0" "selectedPair demo_controlling = None" "length (a_outgoing demo_controlling) = 0"
    "length (pendingBindingRequests demo_controlled) = 0" "selectedPair demo_controlled = None" "length (a_outgoing demo_controlled) = 0"
    by code_simp+
  then show "ready demo_controlling" "ready demo_controlled" by (simp_all add: ready_def integrity_law_def demo_integrity fresh_txid_def)
qed

theorem nomination_agrees_witness:
  "selectedPair (fst (nomination 0 demo_controlling demo_controlled)) = Some 0 \<and>
   selectedPair (snd (nomination 0 demo_controlling demo_controlled)) = Some 0"
  using nomination_agrees [OF demo_meet demo_ready surjective_pairing] by blast

end
