(* ===== verification/SampleBuilder.thy ===== *)
theory SampleBuilder
  imports JitterBuffer "HOL-Library.Monad_Syntax"
begin

text \<open>
  The sample builder of \<open>livekit-server-sdk/pkg/samplebuilder\<close>, which the subscriber uses to put the packets of a track in order and to cut them into frames.
  The circular array is a list of slots; its indices are numbers, with the wrap-around of 16 bits written out where a sum can exceed it. Sequence
  numbers and timestamps are words. A nil pointer that is followed and an index outside of the array make the program panic: the result is \<open>None\<close>, as
  it is for a loop that would not end. The handlers are logs of their calls, and the depacketizer is an argument.
\<close>

section \<open>State\<close>

record sb_slot =
  sl_start :: bool
  sl_end :: bool
  sl_packet :: "rtp_packet option"

record sample_codec =
  sc_partitions :: depacketizer
  sc_Unmarshal :: "bytes list \<Rightarrow> bytes \<Rightarrow> bytes option"
  sc_duration :: "u32 \<Rightarrow> u32 \<Rightarrow> duration"

record SampleBuilder =
  sb_packets :: "sb_slot list"
  sb_head :: nat
  sb_tail :: nat
  sb_maxLate :: u16
  sb_codec :: sample_codec
  sb_sampleRate :: u32
  sb_lastSeqnoValid :: bool
  sb_lastSeqno :: u16
  sb_lastTimestampValid :: bool
  sb_lastTimestamp :: u32
  sb_released :: "rtp_packet list"
  sb_drops :: nat
  sb_unmarshalled :: "bytes list"

definition no_packet :: sb_slot where
  "no_packet = \<lparr>sl_start = False, sl_end = False, sl_packet = None\<rparr>"

definition sb_New :: "u16 \<Rightarrow> sample_codec \<Rightarrow> u32 \<Rightarrow> SampleBuilder" where
  "sb_New maxLate codec rate =
     (let maxLate = (if maxLate < 2 then 2 else maxLate);
          maxLate = (if maxLate > 0x7FFF then 0x7FFF else maxLate)
      in \<lparr>sb_packets = replicate (unat (2 * maxLate + 1)) no_packet, sb_head = 0, sb_tail = 0, sb_maxLate = maxLate, sb_codec = codec,
          sb_sampleRate = rate, sb_lastSeqnoValid = False, sb_lastSeqno = 0, sb_lastTimestampValid = False, sb_lastTimestamp = 0,
          sb_released = [], sb_drops = 0, sb_unmarshalled = []\<rparr>)"

section \<open>Indices and access\<close>

definition sb_length :: "SampleBuilder \<Rightarrow> nat" where
  "sb_length s =
     (if sb_tail s \<le> sb_head s then sb_head s - sb_tail s else (sb_head s + length (sb_packets s) - sb_tail s) mod 65536)"

definition sb_cap :: "SampleBuilder \<Rightarrow> nat" where
  "sb_cap s = length (sb_packets s) - 1"

definition sb_inc :: "SampleBuilder \<Rightarrow> nat \<Rightarrow> nat" where
  "sb_inc s n = (if n < length (sb_packets s) - 1 then n + 1 else 0)"

definition sb_dec :: "SampleBuilder \<Rightarrow> nat \<Rightarrow> nat" where
  "sb_dec s n = (if n > 0 then n - 1 else length (sb_packets s) - 1)"

definition sb_slot_at :: "SampleBuilder \<Rightarrow> nat \<Rightarrow> sb_slot option" where
  "sb_slot_at s i = (if i < length (sb_packets s) then Some (sb_packets s ! i) else None)"

text \<open>The packet in a slot, followed as a pointer.\<close>

definition sb_at :: "SampleBuilder \<Rightarrow> nat \<Rightarrow> rtp_packet option" where
  "sb_at s i = sb_slot_at s i \<bind> sl_packet"

definition sb_set :: "nat \<Rightarrow> sb_slot \<Rightarrow> SampleBuilder \<Rightarrow> SampleBuilder option" where
  "sb_set i x s = (if i < length (sb_packets s) then Some (s\<lparr>sb_packets := (sb_packets s)[i := x]\<rparr>) else None)"

definition sb_isStart :: "SampleBuilder \<Rightarrow> rtp_packet \<Rightarrow> bool" where
  "sb_isStart s p = (rp_Payload p = [] \<or> IsPartitionHead (sc_partitions (sb_codec s)) (rp_Payload p))"

definition sb_isEnd :: "SampleBuilder \<Rightarrow> rtp_packet \<Rightarrow> bool" where
  "sb_isEnd s p = (rp_Payload p = [] \<or> IsPartitionTail (sc_partitions (sb_codec s)) (rp_Marker p) (rp_Payload p))"

section \<open>The consistency check\<close>

text \<open>\<open>check\<close> returns an error or nil. Its first loop looks at the slots from tail to head, the second at those from head to tail.\<close>

definition other_frame :: "rtp_packet \<Rightarrow> sb_slot \<Rightarrow> bool" where
  "other_frame p y = (case sl_packet y of None \<Rightarrow> False | Some q \<Rightarrow> rp_Timestamp q \<noteq> rp_Timestamp p)"

fun check_slots :: "nat \<Rightarrow> nat \<Rightarrow> u16 \<Rightarrow> SampleBuilder \<Rightarrow> string option option" where
  "check_slots 0 i tailSeqno s = Some None"
| "check_slots (Suc n) i tailSeqno s =
     (let index = ((sb_tail s + i) mod 65536) mod length (sb_packets s)
      in do {
        x \<leftarrow> sb_slot_at s index;
        case sl_packet x of
          None \<Rightarrow> check_slots n (i + 1) tailSeqno s
        | Some p \<Rightarrow>
            if rp_SequenceNumber p \<noteq> tailSeqno + of_nat i then Some (Some ''wrong seqno'')
            else do {
              a \<leftarrow> (if index \<noteq> sb_tail s \<and> \<not> sl_start x then map_option (other_frame p) (sb_slot_at s (sb_dec s index)) else Some False);
              if a then Some (Some ''start is not set'')
              else do {
                e \<leftarrow> (if index \<noteq> sb_dec s (sb_head s) \<and> \<not> sl_end x then map_option (other_frame p) (sb_slot_at s (sb_inc s index)) else Some False);
                if e then Some (Some ''end is not set'') else check_slots n (i + 1) tailSeqno s
              }
            }
      })"

partial_function (option) check_outside :: "nat \<Rightarrow> SampleBuilder \<Rightarrow> string option option" where
  "check_outside i s =
     (if i = sb_tail s then Some None
      else do { x \<leftarrow> sb_slot_at s i; if sl_packet x \<noteq> None then Some (Some ''packet is set'') else check_outside (sb_inc s i) s })"

declare check_outside.simps [code]

definition sb_check :: "SampleBuilder \<Rightarrow> string option option" where
  "sb_check s =
     (if sb_head s = sb_tail s then Some None
      else do {
        x \<leftarrow> sb_slot_at s (sb_tail s);
        if sl_packet x = None then Some (Some ''tail is missing'')
        else do {
          y \<leftarrow> sb_slot_at s (sb_dec s (sb_head s));
          if sl_packet y = None then Some (Some ''head is missing'')
          else do {
            p \<leftarrow> sl_packet x;
            (let d = rp_SequenceNumber p - sb_lastSeqno s
             in if sb_lastSeqnoValid s \<and> (d = 0 \<or> d AND 0x8000 \<noteq> 0) then Some (Some ''lastSeqno is after tail'')
                else do {
                  e \<leftarrow> check_slots (sb_length s) 0 (rp_SequenceNumber p) s;
                  if e \<noteq> None then Some e else check_outside (sb_head s) s
                })
          }
        }
      })"

section \<open>Releasing and dropping\<close>

text \<open>The loop of \<open>release\<close> that moves the tail over missing packets.\<close>

partial_function (option) skip_missing :: "SampleBuilder \<Rightarrow> SampleBuilder option" where
  "skip_missing s =
     (if sb_tail s = sb_head s then Some s
      else do {
        x \<leftarrow> sb_slot_at s (sb_tail s);
        if sl_packet x = None then skip_missing (s\<lparr>sb_tail := sb_inc s (sb_tail s)\<rparr>) else Some s
      })"

declare skip_missing.simps [code]

definition sb_release :: "bool \<Rightarrow> SampleBuilder \<Rightarrow> (bool \<times> SampleBuilder) option" where
  "sb_release releasePacket s =
     (if sb_head s = sb_tail s then Some (False, s)
      else do {
        p \<leftarrow> sb_at s (sb_tail s);
        s \<leftarrow> Some (s\<lparr>sb_lastSeqnoValid := True, sb_lastSeqno := rp_SequenceNumber p\<rparr>);
        s \<leftarrow> Some (if releasePacket then s\<lparr>sb_released := sb_released s @ [p]\<rparr> else s);
        s \<leftarrow> sb_set (sb_tail s) no_packet s;
        s \<leftarrow> skip_missing (s\<lparr>sb_tail := sb_inc s (sb_tail s)\<rparr>);
        Some (True, if sb_tail s = sb_head s then s\<lparr>sb_head := 0, sb_tail := 0\<rparr> else s)
      })"

partial_function (option) sb_releaseAll :: "SampleBuilder \<Rightarrow> SampleBuilder option" where
  "sb_releaseAll s =
     (if sb_tail s = sb_head s then Some s
      else do { r \<leftarrow> sb_release True s; sb_releaseAll (snd r) })"

declare sb_releaseAll.simps [code]

text \<open>The loop of \<open>drop\<close> over the rest of the frame.\<close>

partial_function (option) drop_rest :: "u32 \<Rightarrow> SampleBuilder \<Rightarrow> SampleBuilder option" where
  "drop_rest ts s =
     (if sb_tail s = sb_head s then Some s
      else do {
        x \<leftarrow> sb_slot_at s (sb_tail s);
        if sl_start x then Some s
        else do {
          p \<leftarrow> sl_packet x;
          if rp_Timestamp p \<noteq> ts then Some s
          else do { r \<leftarrow> sb_release True s; drop_rest ts (snd r) }
        }
      })"

declare drop_rest.simps [code]

definition sb_drop :: "SampleBuilder \<Rightarrow> ((bool \<times> u32) \<times> SampleBuilder) option" where
  "sb_drop s =
     (if sb_tail s = sb_head s then Some ((False, 0), s)
      else do {
        s \<leftarrow> Some (s\<lparr>sb_drops := sb_drops s + 1\<rparr>);
        p \<leftarrow> sb_at s (sb_tail s);
        r \<leftarrow> sb_release True s;
        s \<leftarrow> drop_rest (rp_Timestamp p) (snd r);
        Some ((True, rp_Timestamp p),
          if \<not> sb_lastTimestampValid s then s\<lparr>sb_lastTimestamp := rp_Timestamp p, sb_lastTimestampValid := True\<rparr> else s)
      })"

section \<open>Push\<close>

text \<open>The first part of \<open>Push\<close>: a late packet is ignored or resets the order; a packet far ahead moves the last number. \<open>None\<close> in the pair stands for the early return.\<close>

definition push_late :: "rtp_packet \<Rightarrow> SampleBuilder \<Rightarrow> (bool \<times> SampleBuilder) option" where
  "push_late p s =
     (let seq = rp_SequenceNumber p
      in if \<not> sb_lastSeqnoValid s then Some (True, s)
         else if (sb_lastSeqno s - seq) AND 0x8000 = 0
         then if sb_lastSeqno s - seq > sb_maxLate s then Some (True, s\<lparr>sb_lastSeqnoValid := False\<rparr>) else Some (False, s)
         else let lst = seq - sb_maxLate s
              in if (lst - sb_lastSeqno s) AND 0x8000 = 0
                 then if sb_head s \<noteq> sb_tail s
                      then do {
                        q \<leftarrow> sb_at s (sb_tail s);
                        (let seqno = rp_SequenceNumber q - 1
                         in Some (True, s\<lparr>sb_lastSeqno := if (lst - seqno) AND 0x8000 = 0 then seqno else lst\<rparr>))
                      }
                      else Some (True, s\<lparr>sb_lastSeqno := lst\<rparr>)
                 else Some (True, s))"

definition push_empty :: "rtp_packet \<Rightarrow> SampleBuilder \<Rightarrow> SampleBuilder option" where
  "push_empty p s =
     do { s \<leftarrow> sb_set 0 \<lparr>sl_start = sb_isStart s p, sl_end = sb_isEnd s p, sl_packet = Some p\<rparr> s;
          Some (s\<lparr>sb_tail := 0, sb_head := 1\<rparr>) }"

definition push_next :: "rtp_packet \<Rightarrow> SampleBuilder \<Rightarrow> SampleBuilder option" where
  "push_next p s =
     (let lst = sb_dec s (sb_head s)
      in do {
        s \<leftarrow> (if sb_tail s = sb_inc s (sb_head s) then do { r \<leftarrow> sb_drop s; Some (snd r) } else Some s);
        r \<leftarrow> (if sb_tail s \<noteq> sb_head s
             then do {
               x \<leftarrow> sb_slot_at s lst;
               start \<leftarrow> (if sl_end x then Some True
                        else do { q \<leftarrow> sl_packet x; Some (rp_Timestamp q \<noteq> rp_Timestamp p \<or> sb_isStart s p) });
               s \<leftarrow> (if start then sb_set lst (x\<lparr>sl_end := True\<rparr>) s else Some s);
               Some (start, s)
             }
             else Some (sb_isStart s p, s));
        s \<leftarrow> sb_set (sb_head s) \<lparr>sl_start = fst r, sl_end = sb_isEnd s p, sl_packet = Some p\<rparr> (snd r);
        Some (s\<lparr>sb_head := sb_inc s (sb_head s)\<rparr>)
      })"

text \<open>The loop that makes room for a packet ahead of the others; \<open>False\<close> is the early return when there is nothing left to drop.\<close>

partial_function (option) make_room :: "nat \<Rightarrow> SampleBuilder \<Rightarrow> (bool \<times> SampleBuilder) option" where
  "make_room gap s =
     (if (sb_length s + gap + 1) mod 65536 \<ge> sb_cap s
      then do { r \<leftarrow> sb_drop s; if fst (fst r) then make_room gap (snd r) else Some (False, snd r) }
      else Some (True, s))"

declare make_room.simps [code]

definition push_ahead :: "rtp_packet \<Rightarrow> nat \<Rightarrow> SampleBuilder \<Rightarrow> SampleBuilder option" where
  "push_ahead p gap s =
     do {
       r \<leftarrow> make_room gap s;
       if \<not> fst r then Some (snd r)
       else (let s = snd r; index = ((sb_head s + gap) mod 65536) mod length (sb_packets s)
             in do {
               s \<leftarrow> sb_set index \<lparr>sl_start = sb_isStart s p, sl_end = sb_isEnd s p, sl_packet = Some p\<rparr> s;
               Some (s\<lparr>sb_head := sb_inc s index\<rparr>)
             })
     }"

text \<open>A packet before the last one: where it goes, and its flags together with those of its neighbours.\<close>

definition past_index :: "nat \<Rightarrow> SampleBuilder \<Rightarrow> nat" where
  "past_index gap s =
     (if sb_head s \<ge> gap then sb_head s - gap else (sb_head s + length (sb_packets s) - gap) mod 65536)"

definition past_tail :: "nat \<Rightarrow> SampleBuilder \<Rightarrow> SampleBuilder" where
  "past_tail index s =
     (if sb_tail s < sb_head s
      then if index < sb_tail s \<or> index > sb_head s then s\<lparr>sb_tail := index\<rparr> else s
      else if index < sb_tail s \<and> index > sb_head s then s\<lparr>sb_tail := index\<rparr> else s)"

definition past_start :: "rtp_packet \<Rightarrow> nat \<Rightarrow> SampleBuilder \<Rightarrow> (bool \<times> SampleBuilder) option" where
  "past_start p index s =
     (if index = sb_tail s then Some (sb_isStart s p, s)
      else do {
        x \<leftarrow> sb_slot_at s (sb_dec s index);
        case sl_packet x of
          None \<Rightarrow> Some (sb_isStart s p, s)
        | Some q \<Rightarrow>
            if rp_Timestamp q \<noteq> rp_Timestamp p \<or> sb_isStart s p
            then do { s \<leftarrow> sb_set (sb_dec s index) (x\<lparr>sl_end := True\<rparr>) s; Some (True, s) }
            else Some (sl_end x, s)
      })"

definition past_end :: "rtp_packet \<Rightarrow> nat \<Rightarrow> SampleBuilder \<Rightarrow> (bool \<times> SampleBuilder) option" where
  "past_end p index s =
     do {
       x \<leftarrow> sb_slot_at s (sb_inc s index);
       case sl_packet x of
         None \<Rightarrow> Some (sb_isEnd s p, s)
       | Some q \<Rightarrow>
           if rp_Timestamp q \<noteq> rp_Timestamp p \<or> sb_isEnd s p
           then do { s \<leftarrow> sb_set (sb_inc s index) (x\<lparr>sl_start := True\<rparr>) s; Some (True, s) }
           else Some (sl_start x, s)
     }"

definition push_past :: "rtp_packet \<Rightarrow> nat \<Rightarrow> SampleBuilder \<Rightarrow> SampleBuilder option" where
  "push_past p gap s =
     (if gap \<ge> sb_cap s then Some s
      else let index = past_index gap s; s = past_tail index s
           in do {
             x \<leftarrow> sb_slot_at s index;
             if sl_packet x \<noteq> None then Some (s\<lparr>sb_released := sb_released s @ [p]\<rparr>)
             else do {
               r \<leftarrow> past_start p index s;
               e \<leftarrow> past_end p index (snd r);
               sb_set index \<lparr>sl_start = fst r, sl_end = fst e, sl_packet = Some p\<rparr> (snd e)
             }
           })"

partial_function (option) sb_Push :: "rtp_packet \<Rightarrow> SampleBuilder \<Rightarrow> SampleBuilder option" where
  "sb_Push p s =
     do {
       r \<leftarrow> push_late p s;
       if \<not> fst r then Some (snd r)
       else if sb_head (snd r) = sb_tail (snd r) then push_empty p (snd r)
       else do {
         q \<leftarrow> sb_at (snd r) (sb_dec (snd r) (sb_head (snd r)));
         if rp_SequenceNumber p = rp_SequenceNumber q + 1 then push_next p (snd r)
         else if (rp_SequenceNumber p - rp_SequenceNumber q) AND 0x8000 = 0
         then if unat (rp_SequenceNumber p - rp_SequenceNumber q - 1) \<ge> sb_cap (snd r)
              then do { s \<leftarrow> sb_releaseAll (snd r); sb_Push p s }
              else push_ahead p (unat (rp_SequenceNumber p - rp_SequenceNumber q - 1)) (snd r)
         else push_past p (unat (rp_SequenceNumber q - rp_SequenceNumber p + 1)) (snd r)
       }
     }"

declare sb_Push.simps [code]

section \<open>Pop\<close>

datatype frame_end = MissingPacket | LastIndex nat

text \<open>The search for the end of the frame.\<close>

partial_function (option) find_end :: "SampleBuilder \<Rightarrow> nat \<Rightarrow> frame_end option" where
  "find_end s lst =
     (if lst = sb_head s then Some (LastIndex lst)
      else do {
        x \<leftarrow> sb_slot_at s lst;
        if sl_end x then Some (LastIndex lst)
        else if sl_packet x = None then Some MissingPacket
        else find_end s (sb_inc s lst)
      })"

declare find_end.simps [code]

text \<open>The loop that takes the packets out. A slot that holds no packet is a panic: \<open>release\<close> follows the nil pointer that was just appended.\<close>

fun take_frame :: "nat \<Rightarrow> SampleBuilder \<Rightarrow> (rtp_packet list \<times> SampleBuilder) option" where
  "take_frame 0 s = Some ([], s)"
| "take_frame (Suc n) s =
     do {
       p \<leftarrow> sb_at s (sb_tail s);
       r \<leftarrow> sb_release False s;
       t \<leftarrow> take_frame n (snd r);
       Some (p # fst t, snd t)
     }"

text \<open>\<open>None\<close> as the first result is the nil slice.\<close>

partial_function (option) popRtpPackets :: "bool \<Rightarrow> SampleBuilder \<Rightarrow> (((rtp_packet list \<times> u32) option) \<times> SampleBuilder) option" where
  "popRtpPackets force s =
     (if sb_tail s = sb_head s then Some (None, s)
      else do {
        x \<leftarrow> sb_slot_at s (sb_tail s);
        if \<not> sl_start x
        then do {
          q \<leftarrow> sb_at s (sb_dec s (sb_head s));
          p \<leftarrow> sl_packet x;
          if force \<or> rp_SequenceNumber q - rp_SequenceNumber p > sb_maxLate s
          then do { r \<leftarrow> sb_drop s; popRtpPackets force (snd r) }
          else Some (None, s)
        }
        else do {
          p \<leftarrow> sl_packet x;
          if \<not> force \<and> sb_lastSeqnoValid s \<and> sb_lastSeqno s + 1 \<noteq> rp_SequenceNumber p then Some (None, s)
          else do {
            e \<leftarrow> find_end s (sb_tail s);
            case e of
              MissingPacket \<Rightarrow> if force then do { r \<leftarrow> sb_drop s; popRtpPackets force (snd r) } else Some (None, s)
            | LastIndex lst \<Rightarrow>
                if lst = sb_head s then Some (None, s)
                else do {
                  t \<leftarrow> take_frame (if lst < sb_tail s then (length (sb_packets s) + lst - sb_tail s + 1) mod 65536 else lst - sb_tail s + 1) s;
                  Some (Some (fst t, rp_Timestamp p), snd t)
                }
          }
        }
      })"

declare popRtpPackets.simps [code]

text \<open>The loop of \<open>popSample\<close>: after an error the remaining packets are only released.\<close>

fun unmarshal_all :: "rtp_packet list \<Rightarrow> bytes option \<Rightarrow> SampleBuilder \<Rightarrow> bytes option \<times> SampleBuilder" where
  "unmarshal_all [] acc s = (acc, s)"
| "unmarshal_all (p # ps) acc s =
     (let (acc, s) = (case acc of
                        None \<Rightarrow> (None, s)
                      | Some data \<Rightarrow>
                          (map_option ((@) data) (sc_Unmarshal (sb_codec s) (sb_unmarshalled s) (rp_Payload p)),
                           s\<lparr>sb_unmarshalled := sb_unmarshalled s @ [rp_Payload p]\<rparr>))
      in unmarshal_all ps acc (s\<lparr>sb_released := sb_released s @ [p]\<rparr>))"

definition popSample :: "bool \<Rightarrow> SampleBuilder \<Rightarrow> ((bytes \<times> duration \<times> u32) option \<times> SampleBuilder) option" where
  "popSample force s =
     do {
       r \<leftarrow> popRtpPackets force s;
       case fst r of
         None \<Rightarrow> Some (None, snd r)
       | Some (ps, ts) \<Rightarrow>
           (case unmarshal_all ps (Some []) (snd r) of
              (None, s) \<Rightarrow> Some (None, s)
            | (Some data, s) \<Rightarrow>
                let samples = (if sb_lastTimestampValid s then ts - sb_lastTimestamp s else 0)
                in Some (Some (data, sc_duration (sb_codec s) samples (sb_sampleRate s), ts),
                         s\<lparr>sb_lastTimestampValid := True, sb_lastTimestamp := ts\<rparr>))
     }"

definition PopWithTimestamp :: "SampleBuilder \<Rightarrow> ((bytes \<times> duration \<times> u32) option \<times> SampleBuilder) option" where
  "PopWithTimestamp = popSample False"

definition sb_Pop :: "SampleBuilder \<Rightarrow> ((bytes \<times> duration) option \<times> SampleBuilder) option" where
  "sb_Pop s = map_option (\<lambda>(r, s). (map_option (\<lambda>(data, d, _). (data, d)) r, s)) (PopWithTimestamp s)"

definition ForcePopWithTimestamp :: "SampleBuilder \<Rightarrow> ((bytes \<times> duration \<times> u32) option \<times> SampleBuilder) option" where
  "ForcePopWithTimestamp = popSample True"

definition PopPackets :: "SampleBuilder \<Rightarrow> (rtp_packet list \<times> SampleBuilder) option" where
  "PopPackets s = map_option (\<lambda>(r, s). (case r of None \<Rightarrow> [] | Some (ps, _) \<Rightarrow> ps, s)) (popRtpPackets False s)"

definition ForcePopPackets :: "SampleBuilder \<Rightarrow> (rtp_packet list \<times> SampleBuilder) option" where
  "ForcePopPackets s = map_option (\<lambda>(r, s). (case r of None \<Rightarrow> [] | Some (ps, _) \<Rightarrow> ps, s)) (popRtpPackets True s)"

section \<open>The subscriber's loop\<close>

text \<open>\<open>TrackWriter.start\<close> of the subscriber: each packet that is read is pushed, then the packets of a complete frame are taken out.\<close>

fun track_loop :: "rtp_packet list \<Rightarrow> SampleBuilder \<Rightarrow> (rtp_packet list \<times> SampleBuilder) option" where
  "track_loop [] s = Some ([], s)"
| "track_loop (pkt # pkts) s =
     do {
       s \<leftarrow> sb_Push pkt s;
       r \<leftarrow> PopPackets s;
       t \<leftarrow> track_loop pkts (snd r);
       Some (fst r @ fst t, snd t)
     }"

end
