(* ===== verification/SampleRing.thy ===== *)
theory SampleRing
  imports SampleBuilder
begin

text \<open>
  The circular array of the sample builder as a list: \<open>rep s xs\<close> says that the slots from tail to head are \<open>xs\<close> and that all other slots are empty. Each
  operation on the array is an operation on this list; the loops that move the tail are shown to end.
\<close>

section \<open>Representation\<close>

definition rep :: "SampleBuilder \<Rightarrow> sb_slot list \<Rightarrow> bool" where
  "rep s xs \<longleftrightarrow>
     (let n = length (sb_packets s)
      in 5 \<le> n \<and> n \<le> 32768 \<and> sb_tail s < n \<and> length xs < n \<and> sb_head s = (sb_tail s + length xs) mod n \<and>
         (\<forall>i < n. sb_packets s ! ((sb_tail s + i) mod n) = (if i < length xs then xs ! i else no_packet)))"

lemma repD:
  assumes "rep s xs" "n = length (sb_packets s)"
  shows "5 \<le> n" "n \<le> 32768" "sb_tail s < n" "length xs < n" "sb_head s = (sb_tail s + length xs) mod n" "sb_head s < n"
    "i < n \<Longrightarrow> sb_packets s ! ((sb_tail s + i) mod n) = (if i < length xs then xs ! i else no_packet)"
  using assms by (auto simp: rep_def Let_def intro!: mod_less_divisor)

text \<open>Addition of two indices, wrapped once.\<close>

lemma mod_once: "(a + b) mod n = (if a + b < n then a + b else a + b - n)" if "a < n" "b \<le> n" for a b n :: nat
  using that by (auto simp: mod_if)

lemma sb_inc_mod: "i < length (sb_packets s) \<Longrightarrow> sb_inc s i = (i + 1) mod length (sb_packets s)"
  by (auto simp: sb_inc_def mod_if)

lemma rep_length [simp]: "rep s xs \<Longrightarrow> sb_length s = length xs"
  using repD [of s xs] mod_once [of "sb_tail s" "length (sb_packets s)" "length xs"]
  by (auto simp: sb_length_def split: if_splits)

lemma rep_empty: "rep s xs \<Longrightarrow> (sb_tail s = sb_head s) = (xs = [])"
  using repD [of s xs] mod_once [of "sb_tail s" "length (sb_packets s)" "length xs"]
  by (auto split: if_splits)

lemma ring_index: "rep s xs \<Longrightarrow> i mod length (sb_packets s) < length (sb_packets s)"
  using repD(1) [of s xs "length (sb_packets s)"] by (intro mod_less_divisor) linarith

lemma rep_slot: "rep s xs \<Longrightarrow> i < length (sb_packets s) \<Longrightarrow>
    sb_slot_at s ((sb_tail s + i) mod length (sb_packets s)) = Some (if i < length xs then xs ! i else no_packet)"
  using repD(7) [of s xs "length (sb_packets s)" i] ring_index [of s xs "sb_tail s + i"] by (simp add: sb_slot_at_def)

lemma rep_tail_slot: "rep s (x # xs) \<Longrightarrow> sb_slot_at s (sb_tail s) = Some x"
  using rep_slot [of s "x # xs" 0] repD(1,3) [of s "x # xs"] by fastforce

lemma rep_dec_head: "rep s xs \<Longrightarrow> xs \<noteq> [] \<Longrightarrow> sb_dec s (sb_head s) = (sb_tail s + (length xs - 1)) mod length (sb_packets s)"
  using repD [of s xs] mod_once [of "sb_tail s" "length (sb_packets s)" "length xs"]
    mod_once [of "sb_tail s" "length (sb_packets s)" "length xs - 1"]
  by (cases xs) (auto simp: sb_dec_def split: if_splits)

lemma rep_last_slot: "rep s xs \<Longrightarrow> xs \<noteq> [] \<Longrightarrow> sb_slot_at s (sb_dec s (sb_head s)) = Some (last xs)"
  using rep_slot [of s xs "length xs - 1"] repD(4) [of s xs] by (simp add: rep_dec_head last_conv_nth)

text \<open>The representation looks at three fields only.\<close>

lemma rep_cong: "sb_packets t = sb_packets s \<Longrightarrow> sb_tail t = sb_tail s \<Longrightarrow> sb_head t = sb_head s \<Longrightarrow> rep t xs = rep s xs"
  by (simp add: rep_def)

lemma rep_updates [simp]:
  "rep (s\<lparr>sb_lastSeqnoValid := a\<rparr>) xs = rep s xs" "rep (s\<lparr>sb_lastSeqno := b\<rparr>) xs = rep s xs"
  "rep (s\<lparr>sb_released := c\<rparr>) xs = rep s xs" "rep (s\<lparr>sb_drops := d\<rparr>) xs = rep s xs"
  "rep (s\<lparr>sb_lastTimestamp := e\<rparr>) xs = rep s xs" "rep (s\<lparr>sb_lastTimestampValid := f\<rparr>) xs = rep s xs"
  "rep (s\<lparr>sb_unmarshalled := g\<rparr>) xs = rep s xs"
  by (simp_all add: rep_def)

section \<open>Moving the ends\<close>

lemma mod_index_eq: "(t + i) mod n = (t + j) mod n \<longleftrightarrow> i = j" if "t < n" "i < n" "j < n" for t i j n :: nat
  using that mod_once [of t n i] mod_once [of t n j] by (auto split: if_splits)

lemma rep_set:
  assumes r: "rep s xs" and i: "i < length xs"
  shows "sb_set ((sb_tail s + i) mod length (sb_packets s)) x s =
           Some (s\<lparr>sb_packets := (sb_packets s)[(sb_tail s + i) mod length (sb_packets s) := x]\<rparr>)"
    and "rep (s\<lparr>sb_packets := (sb_packets s)[(sb_tail s + i) mod length (sb_packets s) := x]\<rparr>) (xs[i := x])"
proof -
  let ?n = "length (sb_packets s)"
  note d = repD [OF r refl]
  have lt: "(sb_tail s + i) mod ?n < ?n" by (rule ring_index [OF r])
  then show "sb_set ((sb_tail s + i) mod ?n) x s = Some (s\<lparr>sb_packets := (sb_packets s)[(sb_tail s + i) mod ?n := x]\<rparr>)"
    by (simp add: sb_set_def)
  have "(sb_packets s)[(sb_tail s + i) mod ?n := x] ! ((sb_tail s + j) mod ?n) = (if j < length (xs[i := x]) then xs[i := x] ! j else no_packet)"
    if "j < ?n" for j
    using that d(7) [of j] i lt mod_index_eq [of "sb_tail s" ?n i j] d(3,4) by (auto simp: nth_list_update)
  with d show "rep (s\<lparr>sb_packets := (sb_packets s)[(sb_tail s + i) mod ?n := x]\<rparr>) (xs[i := x])"
    by (simp add: rep_def Let_def)
qed

text \<open>The slot at the tail is emptied and the tail moves on.\<close>

lemma rep_advance:
  assumes r: "rep s (no_packet # xs)"
  shows "rep (s\<lparr>sb_tail := sb_inc s (sb_tail s)\<rparr>) xs"
proof -
  let ?n = "length (sb_packets s)"
  note d = repD [OF r refl]
  have inc: "sb_inc s (sb_tail s) = (sb_tail s + 1) mod ?n" using d(3) by (rule sb_inc_mod)
  have "sb_packets s ! (((sb_tail s + 1) mod ?n + i) mod ?n) = (if i < length xs then xs ! i else no_packet)" if "i < ?n" for i
  proof (cases "i + 1 < ?n")
    case True
    have "((sb_tail s + 1) mod ?n + i) mod ?n = (sb_tail s + (i + 1)) mod ?n" by (metis add.assoc add.commute mod_add_left_eq)
    then show ?thesis using d(7) [OF True] by simp
  next
    case False
    with that have "i = ?n - 1" "1 \<le> ?n" by simp_all
    then have "sb_tail s + 1 + i = sb_tail s + ?n" by simp
    then have "((sb_tail s + 1) mod ?n + i) mod ?n = (sb_tail s + ?n) mod ?n"
      using mod_add_left_eq [of "sb_tail s + 1" ?n i] by metis
    then have "((sb_tail s + 1) mod ?n + i) mod ?n = (sb_tail s + 0) mod ?n" by simp
    moreover have "0 < ?n" using d(1) by linarith
    ultimately show ?thesis using d(7) [of 0] d(4) \<open>i = ?n - 1\<close> by simp
  qed
  moreover have "((sb_tail s + 1) mod ?n + length xs) mod ?n = (sb_tail s + length (no_packet # xs)) mod ?n"
    by (simp add: mod_add_left_eq)
  ultimately show ?thesis using d ring_index [OF r, of "Suc (sb_tail s)"] unfolding rep_def Let_def by (simp add: inc)
qed

lemma rep_advance_set:
  assumes r: "rep s (x # xs)"
  shows "sb_set (sb_tail s) no_packet s = Some (s\<lparr>sb_packets := (sb_packets s)[sb_tail s := no_packet]\<rparr>)"
    and "rep (s\<lparr>sb_packets := (sb_packets s)[sb_tail s := no_packet], sb_tail := sb_inc s (sb_tail s)\<rparr>) xs"
proof -
  have t: "(sb_tail s + 0) mod length (sb_packets s) = sb_tail s" using repD(3) [OF r refl] by simp
  from rep_set [OF r, of 0 no_packet] show "sb_set (sb_tail s) no_packet s = Some (s\<lparr>sb_packets := (sb_packets s)[sb_tail s := no_packet]\<rparr>)"
    unfolding t by simp
  from rep_set(2) [OF r, of 0 no_packet] have "rep (s\<lparr>sb_packets := (sb_packets s)[sb_tail s := no_packet]\<rparr>) (no_packet # xs)"
    unfolding t by simp
  from rep_advance [OF this] show "rep (s\<lparr>sb_packets := (sb_packets s)[sb_tail s := no_packet], sb_tail := sb_inc s (sb_tail s)\<rparr>) xs"
    by (simp add: sb_inc_def)
qed


section \<open>Releasing\<close>

definition missing :: "sb_slot \<Rightarrow> bool" where
  "missing x \<longleftrightarrow> sl_packet x = None"

definition blanks :: "sb_slot list \<Rightarrow> bool" where
  "blanks xs \<longleftrightarrow> (\<forall>x \<in> set xs. missing x \<longrightarrow> x = no_packet)"

lemma skip_missing_rep:
  "rep s xs \<Longrightarrow> blanks xs \<Longrightarrow> \<exists>t. skip_missing s = Some (s\<lparr>sb_tail := t\<rparr>) \<and> rep (s\<lparr>sb_tail := t\<rparr>) (dropWhile missing xs)"
proof (induction xs arbitrary: s)
  case Nil
  then show ?case using rep_empty [of s "[]"] by (subst skip_missing.simps) (auto simp: rep_def intro!: exI [of _ "sb_tail s"])
next
  case (Cons x xs)
  note slot = rep_tail_slot [OF Cons.prems(1)]
  have ne: "sb_tail s \<noteq> sb_head s" using rep_empty [OF Cons.prems(1)] by simp
  show ?case
  proof (cases "missing x")
    case True
    with Cons.prems(2) have "x = no_packet" by (simp add: blanks_def)
    with Cons.prems have "rep (s\<lparr>sb_tail := sb_inc s (sb_tail s)\<rparr>) xs" "blanks xs" by (simp_all add: rep_advance blanks_def)
    from Cons.IH [OF this] obtain t where "skip_missing (s\<lparr>sb_tail := sb_inc s (sb_tail s)\<rparr>) = Some (s\<lparr>sb_tail := t\<rparr>)"
      "rep (s\<lparr>sb_tail := t\<rparr>) (dropWhile missing xs)" by auto
    with True slot ne show ?thesis by (subst skip_missing.simps) (auto simp: missing_def)
  next
    case False
    with slot ne Cons.prems(1) show ?thesis by (subst skip_missing.simps) (auto simp: missing_def intro!: exI [of _ "sb_tail s"])
  qed
qed

text \<open>The settings of a builder, which no operation changes.\<close>

definition same_config :: "SampleBuilder \<Rightarrow> SampleBuilder \<Rightarrow> bool" where
  "same_config s t \<longleftrightarrow>
     length (sb_packets t) = length (sb_packets s) \<and> sb_maxLate t = sb_maxLate s \<and> sb_codec t = sb_codec s \<and> sb_sampleRate t = sb_sampleRate s"

lemma same_config_refl [simp]: "same_config s s"
  by (simp add: same_config_def)

lemma same_config_trans: "same_config s t \<Longrightarrow> same_config t u \<Longrightarrow> same_config s u"
  by (simp add: same_config_def)

text \<open>
  \<open>shed s xs s'\<close>: some packets at the front of \<open>xs\<close> are gone, the first slot that is left holds a packet, and the number of one of those that are gone has been
  noted as the last one.
\<close>

definition shed :: "SampleBuilder \<Rightarrow> sb_slot list \<Rightarrow> nat \<Rightarrow> SampleBuilder \<Rightarrow> bool" where
  "shed s xs k s' \<longleftrightarrow>
     0 < k \<and> k \<le> length xs \<and> rep s' (drop k xs) \<and> (k < length xs \<longrightarrow> \<not> missing (xs ! k)) \<and> same_config s s' \<and> sb_lastSeqnoValid s' \<and>
     (k < length xs \<longrightarrow> sb_head s' = sb_head s) \<and>
     (\<exists>j < k. \<exists>p. sl_packet (xs ! j) = Some p \<and> sb_lastSeqno s' = rp_SequenceNumber p \<and> (\<forall>i < k. j < i \<longrightarrow> missing (xs ! i)))"

lemma dropWhile_drop: "\<exists>k \<le> length xs. dropWhile P xs = drop k xs \<and> (\<forall>i < k. P (xs ! i)) \<and> (k < length xs \<longrightarrow> \<not> P (xs ! k))"
proof (induction xs)
  case (Cons x xs)
  then obtain k where k: "k \<le> length xs" "dropWhile P xs = drop k xs" "\<forall>i < k. P (xs ! i)" "k < length xs \<longrightarrow> \<not> P (xs ! k)" by blast
  show ?case
  proof (cases "P x")
    case True
    with k show ?thesis by (intro exI [of _ "Suc k"]) (auto simp: nth_Cons split: nat.split)
  qed (intro exI [of _ 0], simp)
qed simp

lemma rep_reset: "rep s [] \<Longrightarrow> rep (s\<lparr>sb_head := 0, sb_tail := 0\<rparr>) []"
proof -
  assume r: "rep s []"
  note d = repD [OF r refl]
  have "sb_packets s ! i = no_packet" if "i < length (sb_packets s)" for i
  proof -
    let ?n = "length (sb_packets s)" and ?j = "(i + (length (sb_packets s) - sb_tail s)) mod length (sb_packets s)"
    have "(sb_tail s + ?j) mod ?n = (sb_tail s + (i + (?n - sb_tail s))) mod ?n" by (rule mod_add_right_eq)
    also have "\<dots> = i" using that d(3) by simp
    finally show ?thesis using d(7) [of ?j] ring_index [OF r] by simp
  qed
  with d show ?thesis by (auto simp: rep_def Let_def)
qed

lemma sb_release_rep:
  assumes r: "rep s (x # xs)" and p: "sl_packet x = Some p" and b: "blanks xs"
  obtains s' k where "sb_release rel s = Some (True, s')" "shed s (x # xs) k s'" "sb_lastSeqno s' = rp_SequenceNumber p"
    "sb_lastTimestampValid s' = sb_lastTimestampValid s" "\<forall>i < k. 0 < i \<longrightarrow> missing ((x # xs) ! i)"
proof -
  define s1 where "s1 = (if rel then s\<lparr>sb_lastSeqnoValid := True, sb_lastSeqno := rp_SequenceNumber p, sb_released := sb_released s @ [p]\<rparr>
                         else s\<lparr>sb_lastSeqnoValid := True, sb_lastSeqno := rp_SequenceNumber p\<rparr>)"
  have f1: "sb_packets s1 = sb_packets s" "sb_tail s1 = sb_tail s" "sb_head s1 = sb_head s" by (simp_all add: s1_def)
  have r1: "rep s1 (x # xs)" using r rep_cong [OF f1] by simp
  define s2 where "s2 = s1\<lparr>sb_packets := (sb_packets s1)[sb_tail s1 := no_packet], sb_tail := sb_inc s1 (sb_tail s1)\<rparr>"
  have r2: "rep s2 xs" unfolding s2_def by (rule rep_advance_set [OF r1])
  from skip_missing_rep [OF r2 b] obtain t where t: "skip_missing s2 = Some (s2\<lparr>sb_tail := t\<rparr>)" "rep (s2\<lparr>sb_tail := t\<rparr>) (dropWhile missing xs)" by blast
  define s3 where "s3 = s2\<lparr>sb_tail := t\<rparr>"
  define s4 where "s4 = (if sb_tail s3 = sb_head s3 then s3\<lparr>sb_head := 0, sb_tail := 0\<rparr> else s3)"
  obtain k where k: "k \<le> length xs" "dropWhile missing xs = drop k xs" "\<forall>i < k. missing (xs ! i)" "k < length xs \<longrightarrow> \<not> missing (xs ! k)"
    using dropWhile_drop by blast
  have r3: "rep s3 (drop k xs)" using t(2) k(2) by (simp add: s3_def)
  have r4: "rep s4 (drop k xs)" using r3 rep_empty [OF r3] rep_reset [of s3] by (auto simp: s4_def)
  have at: "sb_at s (sb_tail s) = Some p" by (simp add: sb_at_def rep_tail_slot [OF r] p)
  have ne: "sb_head s \<noteq> sb_tail s" using rep_empty [OF r] by auto
  have "sb_release rel s = Some (True, s4)"
    unfolding sb_release_def using ne at rep_advance_set(1) [OF r1] t(1)
    by (simp add: s1_def s2_def s3_def s4_def sb_inc_def split: if_splits)
  moreover have "sb_lastSeqno s4 = rp_SequenceNumber p" "sb_lastSeqnoValid s4" "same_config s s4" "sb_lastTimestampValid s4 = sb_lastTimestampValid s"
    by (simp_all add: s4_def s3_def s2_def s1_def same_config_def)
  moreover have "sb_head s4 = sb_head s" if "k < length xs"
    using rep_empty [OF r3] that f1 by (simp add: s4_def) (simp add: s3_def s2_def)
  moreover have "shed s (x # xs) (Suc k) s4"
    using k r4 calculation p by (auto simp: shed_def nth_Cons split: nat.split intro!: exI [of _ 0])
  moreover have "\<forall>i < Suc k. 0 < i \<longrightarrow> missing ((x # xs) ! i)" using k(3) by (auto simp: nth_Cons split: nat.split)
  ultimately show ?thesis using that by blast
qed

section \<open>Dropping\<close>

lemma blanks_drop: "blanks xs \<Longrightarrow> blanks (drop k xs)"
  by (auto simp: blanks_def dest: in_set_dropD)

lemma shed_trans:
  assumes "shed s xs k s'" "shed s' (drop k xs) m s''"
  shows "shed s xs (k + m) s''"
proof -
  from assms(2) obtain j p where j: "j < m" "sl_packet (drop k xs ! j) = Some p" "sb_lastSeqno s'' = rp_SequenceNumber p"
    "\<forall>i < m. j < i \<longrightarrow> missing (drop k xs ! i)" and m: "m \<le> length xs - k" by (auto simp: shed_def)
  have k: "k \<le> length xs" using assms(1) by (simp add: shed_def)
  have "missing (xs ! i)" if "i < k + m" "k + j < i" for i
    using j(4) [rule_format, of "i - k"] that k by simp
  then have "\<exists>j < k + m. \<exists>p. sl_packet (xs ! j) = Some p \<and> sb_lastSeqno s'' = rp_SequenceNumber p \<and> (\<forall>i < k + m. j < i \<longrightarrow> missing (xs ! i))"
    using j k by (intro exI [of _ "k + j"]) auto
  with assms m k show ?thesis by (auto simp: shed_def same_config_def add.commute)
qed

lemma drop_rest_rep:
  "rep s xs \<Longrightarrow> blanks xs \<Longrightarrow> (xs \<noteq> [] \<Longrightarrow> \<not> missing (hd xs)) \<Longrightarrow>
   \<exists>s'. drop_rest ts s = Some s' \<and> (s' = s \<or> (\<exists>k. shed s xs k s')) \<and> sb_lastTimestampValid s' = sb_lastTimestampValid s"
proof (induction "length xs" arbitrary: xs s rule: less_induct)
  case less
  show ?case
  proof (cases xs)
    case Nil
    then show ?thesis using rep_empty [OF less.prems(1)] by (subst drop_rest.simps) simp
  next
    case (Cons x ys)
    then obtain p where p: "sl_packet x = Some p" using less.prems(3) by (auto simp: missing_def)
    have ne: "sb_tail s \<noteq> sb_head s" using rep_empty [OF less.prems(1)] Cons by simp
    have slot: "sb_slot_at s (sb_tail s) = Some x" using rep_tail_slot less.prems(1) Cons by simp
    show ?thesis
    proof (cases "sl_start x \<or> rp_Timestamp p \<noteq> ts")
      case True
      with ne slot p show ?thesis by (subst drop_rest.simps) auto
    next
      case False
      have "blanks ys" using less.prems(2) Cons by (simp add: blanks_def)
      then obtain s1 k where s1: "sb_release True s = Some (True, s1)" "shed s xs k s1" "sb_lastTimestampValid s1 = sb_lastTimestampValid s"
        using sb_release_rep [of s x ys p True] less.prems(1) p Cons by metis
      then have r1: "rep s1 (drop k xs)" "0 < k" "k \<le> length xs" "drop k xs \<noteq> [] \<Longrightarrow> \<not> missing (hd (drop k xs))"
        by (auto simp: shed_def hd_drop_conv_nth)
      then obtain s2 where s2: "drop_rest ts s1 = Some s2" "s2 = s1 \<or> (\<exists>m. shed s1 (drop k xs) m s2)"
          "sb_lastTimestampValid s2 = sb_lastTimestampValid s1"
        using less.hyps [of "drop k xs" s1] blanks_drop [OF less.prems(2)] Cons by auto
      then have "\<exists>k. shed s xs k s2" using s1(2) shed_trans by blast
      then show ?thesis using False ne slot p s1 s2 by (subst drop_rest.simps) auto
    qed
  qed
qed

lemma shed_updates [simp]:
  "shed s xs k (t\<lparr>sb_lastTimestamp := a, sb_lastTimestampValid := b\<rparr>) = shed s xs k t" "shed (s\<lparr>sb_drops := d\<rparr>) xs k t = shed s xs k t"
  by (simp_all add: shed_def same_config_def)

lemma sb_drop_rep:
  assumes r: "rep s (x # xs)" and p: "sl_packet x = Some p" and b: "blanks (x # xs)"
  obtains s' k where "sb_drop s = Some ((True, rp_Timestamp p), s')" "shed s (x # xs) k s'"
proof -
  let ?s = "s\<lparr>sb_drops := sb_drops s + 1\<rparr>"
  have r': "rep ?s (x # xs)" using r by simp
  have b': "blanks xs" using b by (simp add: blanks_def)
  obtain s1 k where s1: "sb_release True ?s = Some (True, s1)" "shed ?s (x # xs) k s1"
    using sb_release_rep [OF r' p b'] by metis
  then have r1: "rep s1 (drop k (x # xs))" "drop k (x # xs) \<noteq> [] \<Longrightarrow> \<not> missing (hd (drop k (x # xs)))"
    by (auto simp: shed_def hd_drop_conv_nth)
  from drop_rest_rep [OF r1(1) blanks_drop [OF b] r1(2), of "rp_Timestamp p"] obtain s2 where
    s2: "drop_rest (rp_Timestamp p) s1 = Some s2" "s2 = s1 \<or> (\<exists>m. shed s1 (drop k (x # xs)) m s2)" by auto
  define s3 where "s3 = (if \<not> sb_lastTimestampValid s2 then s2\<lparr>sb_lastTimestamp := rp_Timestamp p, sb_lastTimestampValid := True\<rparr> else s2)"
  from s2(2) s1(2) obtain m where "shed ?s (x # xs) m s2" using shed_trans by blast
  then have "shed s (x # xs) m s3" by (simp add: s3_def)
  moreover have "sb_at ?s (sb_tail s) = Some p" using rep_tail_slot [OF r'] p by (simp add: sb_at_def)
  then have "sb_drop s = Some ((True, rp_Timestamp p), s3)"
    using rep_empty [OF r] s1(1) s2(1) by (simp add: sb_drop_def s3_def)
  ultimately show ?thesis using that by blast
qed

lemma sb_releaseAll_rep:
  "rep s xs \<Longrightarrow> blanks xs \<Longrightarrow> (xs \<noteq> [] \<Longrightarrow> \<not> missing (hd xs)) \<Longrightarrow>
   \<exists>s'. sb_releaseAll s = Some s' \<and> (if xs = [] then s' = s else shed s xs (length xs) s')"
proof (induction "length xs" arbitrary: xs s rule: less_induct)
  case less
  show ?case
  proof (cases xs)
    case Nil
    then show ?thesis using rep_empty [OF less.prems(1)] by (subst sb_releaseAll.simps) simp
  next
    case (Cons x ys)
    then obtain p where p: "sl_packet x = Some p" using less.prems(3) by (auto simp: missing_def)
    have ne: "sb_tail s \<noteq> sb_head s" using rep_empty [OF less.prems(1)] Cons by simp
    have "blanks ys" using less.prems(2) Cons by (simp add: blanks_def)
    then obtain s1 k where s1: "sb_release True s = Some (True, s1)" "shed s xs k s1"
      using sb_release_rep [of s x ys p True] less.prems(1) p Cons by metis
    then have r1: "rep s1 (drop k xs)" "0 < k" "k \<le> length xs" "drop k xs \<noteq> [] \<Longrightarrow> \<not> missing (hd (drop k xs))"
      by (auto simp: shed_def hd_drop_conv_nth)
    then obtain s2 where s2: "sb_releaseAll s1 = Some s2" "if drop k xs = [] then s2 = s1 else shed s1 (drop k xs) (length (drop k xs)) s2"
      using less.hyps [of "drop k xs" s1] blanks_drop [OF less.prems(2)] Cons by auto
    then have "shed s xs (length xs) s2"
      using s1(2) r1(3) shed_trans [OF s1(2), of "length (drop k xs)" s2] by (auto split: if_splits)
    with ne s1(1) s2(1) Cons show ?thesis by (subst sb_releaseAll.simps) simp
  qed
qed


section \<open>Extending\<close>

text \<open>A packet after the last one, with a gap of missing packets between them.\<close>

lemma rep_extend:
  assumes r: "rep s xs" and g: "length xs + g + 1 < length (sb_packets s)" and i: "i = (sb_head s + g) mod length (sb_packets s)"
  shows "sb_set i x s = Some (s\<lparr>sb_packets := (sb_packets s)[i := x]\<rparr>)"
    and "rep (s\<lparr>sb_packets := (sb_packets s)[i := x], sb_head := sb_inc s i\<rparr>) (xs @ replicate g no_packet @ [x])"
proof -
  let ?n = "length (sb_packets s)" and ?ys = "xs @ replicate g no_packet @ [x]"
  note d = repD [OF r refl]
  have i2: "i = (sb_tail s + (length xs + g)) mod ?n" unfolding i d(5) by (simp add: mod_add_left_eq add.assoc)
  have lt: "i < ?n" unfolding i by (rule ring_index [OF r])
  then show "sb_set i x s = Some (s\<lparr>sb_packets := (sb_packets s)[i := x]\<rparr>)" by (simp add: sb_set_def)
  have "(sb_packets s)[i := x] ! ((sb_tail s + j) mod ?n) = (if j < length ?ys then ?ys ! j else no_packet)" if "j < ?n" for j
  proof (cases "j = length xs + g")
    case True
    then show ?thesis using lt i2 by (simp add: nth_append)
  next
    case False
    then have "(sb_tail s + j) mod ?n \<noteq> i" unfolding i2 using mod_index_eq [OF d(3) that, of "length xs + g"] g by auto
    then show ?thesis using d(7) [OF that] False by (auto simp: nth_append)
  qed
  moreover have "sb_inc s i = (sb_tail s + length ?ys) mod ?n" using lt unfolding i2 by (simp add: sb_inc_mod mod_Suc_eq)
  ultimately show "rep (s\<lparr>sb_packets := (sb_packets s)[i := x], sb_head := sb_inc s i\<rparr>) ?ys"
    using d g by (simp add: rep_def Let_def)
qed

text \<open>The tail moves back over empty slots.\<close>

lemma rep_prepend:
  assumes r: "rep s xs" and m: "length xs + m < length (sb_packets s)" and t: "t = (sb_tail s + (length (sb_packets s) - m)) mod length (sb_packets s)"
  shows "rep (s\<lparr>sb_tail := t\<rparr>) (replicate m no_packet @ xs)"
proof -
  let ?n = "length (sb_packets s)" and ?ys = "replicate m no_packet @ xs"
  note d = repD [OF r refl]
  have shift: "(t + j) mod ?n = (sb_tail s + (?n - m) + j) mod ?n" for j unfolding t by (rule mod_add_left_eq)
  have "sb_packets s ! ((t + j) mod ?n) = (if j < length ?ys then ?ys ! j else no_packet)" if "j < ?n" for j
  proof (cases "j < m")
    case True
    have "sb_tail s + (?n - m) + j = sb_tail s + (?n - m + j)" by simp
    then have "(t + j) mod ?n = (sb_tail s + (?n - m + j)) mod ?n" using shift by metis
    moreover have "\<not> ?n - m + j < length xs" "?n - m + j < ?n" using m True by simp_all
    ultimately show ?thesis using d(7) [of "?n - m + j"] True by (simp add: nth_append)
  next
    case False
    then have "sb_tail s + (?n - m) + j = sb_tail s + (j - m) + ?n" using m by simp
    then have "(t + j) mod ?n = (sb_tail s + (j - m)) mod ?n" using shift [of j] by (metis mod_add_self2)
    then show ?thesis using d(7) [of "j - m"] that False by (auto simp: nth_append)
  qed
  moreover have "(t + length ?ys) mod ?n = sb_head s"
  proof -
    have "sb_tail s + (?n - m) + length ?ys = sb_tail s + length xs + ?n" using m by simp
    then show ?thesis using shift [of "length ?ys"] d(5) by (metis mod_add_self2)
  qed
  moreover have "t < ?n" unfolding t by (rule ring_index [OF r])
  ultimately show ?thesis using d m by (simp add: rep_def Let_def)
qed

end
