(* ===== verification/SampleFrames.thy ===== *)
theory SampleFrames
  imports SampleRing
begin

text \<open>
  The invariant of the sample builder, stated on the list of slots, and what its operations keep of it. It is the invariant that \<open>check\<close> of the source tests,
  with the flags of neighbours in full. What is popped is a whole frame. There is one way for a packet to break the invariant, which is pinned down.
\<close>

section \<open>Sequence numbers\<close>

definition after :: "u16 \<Rightarrow> u16 \<Rightarrow> bool" where
  "after x y \<longleftrightarrow> 0 < unat (x - y) \<and> unat (x - y) < 32768"

lemma unat_nat16 [simp]: "n < 65536 \<Longrightarrow> unat (of_nat n :: u16) = n"
  by (simp add: unat_of_nat)

lemma unat_diff_of_nat: "unat (of_nat m - of_nat n :: u16) = (if n \<le> m then m - n else 65536 + m - n)" if "m < 65536" "n < 65536"
  using that by (auto simp: unat_sub_if' word_le_nat_alt)

lemma word_offset: "\<exists>n. n < 65536 \<and> x = y + of_nat n \<and> unat (x - y) = n" for x y :: u16
proof (intro exI conjI)
  show "unat (x - y) < 65536" using unsigned_less [of "x - y"] by simp
  show "x = y + of_nat (unat (x - y))" by simp
qed simp

lemma after_of_nat: "0 < n \<Longrightarrow> n < 32768 \<Longrightarrow> after (y + of_nat n) y"
  by (simp add: after_def)

section \<open>The invariant on the list of slots\<close>

definition linked :: "sb_slot \<Rightarrow> sb_slot \<Rightarrow> bool" where
  "linked x y \<longleftrightarrow>
     (\<forall>p q. sl_packet x = Some p \<and> sl_packet y = Some q \<longrightarrow>
        sl_end x = sl_start y \<and> (rp_Timestamp p \<noteq> rp_Timestamp q \<longrightarrow> sl_end x))"

definition good :: "u16 \<Rightarrow> sb_slot list \<Rightarrow> bool" where
  "good b xs \<longleftrightarrow>
     blanks xs \<and> (xs \<noteq> [] \<longrightarrow> \<not> missing (hd xs) \<and> \<not> missing (last xs)) \<and>
     (\<forall>i < length xs. \<forall>p. sl_packet (xs ! i) = Some p \<longrightarrow> rp_SequenceNumber p = b + of_nat i) \<and>
     (\<forall>i. Suc i < length xs \<longrightarrow> linked (xs ! i) (xs ! Suc i))"

lemma goodD:
  assumes "good b xs"
  shows "blanks xs" "xs \<noteq> [] \<Longrightarrow> \<not> missing (hd xs)" "xs \<noteq> [] \<Longrightarrow> \<not> missing (last xs)"
    "i < length xs \<Longrightarrow> sl_packet (xs ! i) = Some p \<Longrightarrow> rp_SequenceNumber p = b + of_nat i"
    "Suc i < length xs \<Longrightarrow> linked (xs ! i) (xs ! Suc i)"
  using assms by (auto simp: good_def)

lemma good_drop:
  assumes "good b xs" "k \<le> length xs" "k < length xs \<Longrightarrow> \<not> missing (xs ! k)"
  shows "good (b + of_nat k) (drop k xs)"
proof -
  have "rp_SequenceNumber p = b + of_nat k + of_nat i" if "i < length (drop k xs)" "sl_packet (drop k xs ! i) = Some p" for i p
    using goodD(4) [OF assms(1), of "k + i" p] that assms(2) by (simp add: add.assoc)
  with assms show ?thesis by (auto simp: good_def blanks_drop hd_drop_conv_nth last_drop)
qed

lemma good_hd: "good b (x # xs) \<Longrightarrow> \<exists>p. sl_packet x = Some p \<and> rp_SequenceNumber p = b"
  using goodD(2) [of b "x # xs"] goodD(4) [of b "x # xs" 0] by (auto simp: missing_def)

lemma good_last: "good b xs \<Longrightarrow> xs \<noteq> [] \<Longrightarrow> \<exists>p. sl_packet (last xs) = Some p \<and> rp_SequenceNumber p = b + of_nat (length xs - 1)"
  using goodD(3) [of b xs] goodD(4) [of b xs "length xs - 1"] by (auto simp: missing_def last_conv_nth)

definition last_ok :: "SampleBuilder \<Rightarrow> u16 \<Rightarrow> sb_slot list \<Rightarrow> bool" where
  "last_ok s b xs \<longleftrightarrow> (xs \<noteq> [] \<longrightarrow> sb_lastSeqnoValid s \<longrightarrow> after b (sb_lastSeqno s))"

definition sized :: "SampleBuilder \<Rightarrow> bool" where
  "sized s \<longleftrightarrow> 2 \<le> unat (sb_maxLate s) \<and> unat (sb_maxLate s) \<le> 16383 \<and> length (sb_packets s) = 2 * unat (sb_maxLate s) + 1"

definition sb_state :: "SampleBuilder \<Rightarrow> u16 \<Rightarrow> sb_slot list \<Rightarrow> bool" where
  "sb_state s b xs \<longleftrightarrow> rep s xs \<and> good b xs \<and> last_ok s b xs \<and> sized s"

definition sb_inv :: "SampleBuilder \<Rightarrow> bool" where
  "sb_inv s \<longleftrightarrow> (\<exists>b xs. sb_state s b xs)"

lemma sized_config: "same_config s t \<Longrightarrow> sized t = sized s"
  by (simp add: same_config_def sized_def)

lemma shed_after:
  assumes "sb_state s b xs" "shed s xs k s'"
  shows "after (b + of_nat k) (sb_lastSeqno s')"
proof -
  from assms(2) obtain j p where k: "k \<le> length xs"
    and j: "j < k" "sl_packet (xs ! j) = Some p" "sb_lastSeqno s' = rp_SequenceNumber p" by (auto simp: shed_def)
  have g: "good b xs" "length xs < 32768" using assms(1) repD(2,4) [of s xs] by (auto simp: sb_state_def)
  have "rp_SequenceNumber p = b + of_nat j" using goodD(4) [OF g(1)] j k(1) by simp
  then have "b + of_nat k = sb_lastSeqno s' + of_nat (k - j)" using j by (simp add: of_nat_diff)
  then show ?thesis using after_of_nat [of "k - j" "sb_lastSeqno s'"] j(1) k(1) g(2) by (simp only:)
qed

lemma shed_state:
  assumes "sb_state s b xs" "shed s xs k s'"
  shows "sb_state s' (b + of_nat k) (drop k xs)"
proof -
  from assms(2) have k: "k \<le> length xs" "rep s' (drop k xs)" "k < length xs \<longrightarrow> \<not> missing (xs ! k)" "same_config s s'" by (auto simp: shed_def)
  have "good b xs" using assms(1) by (simp add: sb_state_def)
  with k good_drop [OF this k(1)] assms(1) sized_config [OF k(4)] shed_after [OF assms] show ?thesis by (simp add: sb_state_def last_ok_def)
qed

lemma sb_drop_state:
  assumes "sb_state s b (x # xs)"
  obtains k s' ts where "sb_drop s = Some ((True, ts), s')" "shed s (x # xs) k s'" "sb_state s' (b + of_nat k) (drop k (x # xs))" "0 < k"
    "k \<le> length (x # xs)"
proof -
  from assms have r: "rep s (x # xs)" and g: "good b (x # xs)" by (simp_all add: sb_state_def)
  from good_hd [OF g] obtain p where p: "sl_packet x = Some p" by blast
  from sb_drop_rep [OF r p goodD(1) [OF g]] obtain s' k where "sb_drop s = Some ((True, rp_Timestamp p), s')" "shed s (x # xs) k s'" by blast
  moreover from this(2) have "0 < k" "k \<le> length (x # xs)" by (simp_all add: shed_def)
  ultimately show ?thesis using that shed_state [OF assms] by blast
qed


section \<open>Push\<close>

text \<open>The check for late packets changes the last number only, and leaves it before the first packet and before a new packet in front of that.\<close>

lemma late_arith:
  fixes L b x ml :: u16
  assumes b: "after b L" and x: "\<not> (L - x) AND 0x8000 = 0" and ml: "2 \<le> unat ml" "unat ml \<le> 16383"
    and upd: "(x - ml - L) AND 0x8000 = 0"
  shows "after b (if (x - ml - (b - 1)) AND 0x8000 = 0 then b - 1 else x - ml)"
proof -
  obtain a where a: "b = L + of_nat a" "0 < a" "a < 32768" using word_offset [of b L] b unfolding after_def by metis
  obtain e where e: "x = L + of_nat e" "e < 65536" "unat (x - L) = e" using word_offset [of x L] by blast
  have ml': "ml = of_nat (unat ml)" by simp
  have "unat (x - ml - L) = (if unat ml \<le> e then e - unat ml else 65536 + e - unat ml)"
    using unat_diff_of_nat [of e "unat ml"] e(1,2) ml by simp
  with upd ml e(2) have le: "unat ml \<le> e" "e - unat ml < 32768" by (auto simp: and_top_bit16 split: if_splits)
  have c: "x - ml - (b - 1) = of_nat (e - unat ml + 1) - of_nat a" using e(1) a(1) le(1) by (simp add: of_nat_diff)
  have "unat (x - ml - (b - 1)) = (if a \<le> e - unat ml + 1 then e - unat ml + 1 - a else 65536 + (e - unat ml + 1) - a)"
    unfolding c by (rule unat_diff_of_nat) (use le a in simp_all)
  moreover have c2: "b - (x - ml) = of_nat a - of_nat (e - unat ml)" using e(1) a(1) le(1) by (simp add: of_nat_diff)
  have "unat (b - (x - ml)) = (if e - unat ml \<le> a then a - (e - unat ml) else 65536 + a - (e - unat ml))"
    unfolding c2 by (rule unat_diff_of_nat) (use le a in simp_all)
  moreover have "after b (b - 1)" by (simp add: after_def)
  ultimately show ?thesis using a le by (auto simp: and_top_bit16 after_def split: if_splits)
qed


lemma late_offset:
  fixes L x ml :: u16
  assumes x: "\<not> (L - x) AND 0x8000 = 0"
  obtains e where "x = L + of_nat e" "0 < e" "e \<le> 32768" "unat (x - L) = e"
proof -
  obtain e where e: "x = L + of_nat e" "e < 65536" "unat (x - L) = e" using word_offset [of x L] by blast
  have "unat (L - x) = (if e = 0 then 0 else 65536 - e)" using unat_diff_of_nat [of 0 e] e(1,2) by simp
  with x have "0 < e" "e \<le> 32768" by (auto simp: and_top_bit16 split: if_splits)
  with e show ?thesis using that by blast
qed

lemma late_new:
  fixes L b x ml :: u16
  assumes x: "\<not> (L - x) AND 0x8000 = 0" and ml: "2 \<le> unat ml" "unat ml \<le> 16383"
  shows "\<not> (x - ml - L) AND 0x8000 = 0 \<Longrightarrow> after x L" and "after x (x - ml)"
    and "after b L \<Longrightarrow> x = b - of_nat m \<Longrightarrow> 0 < m \<Longrightarrow> m \<le> 32766 \<Longrightarrow> (x - ml - L) AND 0x8000 = 0 \<Longrightarrow> \<not> (x - ml - (b - 1)) AND 0x8000 = 0"
proof -
  from late_offset [OF x] obtain e where e: "x = L + of_nat e" "0 < e" "e \<le> 32768" "unat (x - L) = e" by blast
  have "unat (x - ml - L) = (if unat ml \<le> e then e - unat ml else 65536 + e - unat ml)"
    using unat_diff_of_nat [of e "unat ml"] e(1,3) ml by simp
  then have upd: "(x - ml - L) AND 0x8000 = 0 \<longleftrightarrow> unat ml \<le> e" using e ml by (auto simp: and_top_bit16)
  then show "\<not> (x - ml - L) AND 0x8000 = 0 \<Longrightarrow> after x L" using e ml by (simp add: after_def)
  show "after x (x - ml)" using ml by (simp add: after_def)
  assume b: "after b L" and m: "x = b - of_nat m" "0 < m" "m \<le> 32766" and u: "(x - ml - L) AND 0x8000 = 0"
  obtain a where a: "b = L + of_nat a" "0 < a" "a < 32768" using word_offset [of b L] b unfolding after_def by metis
  have "x - L = of_nat a - of_nat m" using m(1) a(1) by simp
  with unat_diff_of_nat [of a m] e(2,3,4) a m have am: "m < a" "e = a - m" by (auto split: if_splits)
  have le: "unat ml \<le> e" using u upd by simp
  have c: "x - ml - (b - 1) = of_nat (e - unat ml + 1) - of_nat a" using e(1) a(1) le by (simp add: of_nat_diff)
  have "unat (x - ml - (b - 1)) = (if a \<le> e - unat ml + 1 then e - unat ml + 1 - a else 65536 + (e - unat ml + 1) - a)"
    unfolding c by (rule unat_diff_of_nat) (use le a am in simp_all)
  then have "unat (x - ml - (b - 1)) = 65536 + (e - unat ml + 1) - a" using am le ml m by simp
  then show "\<not> (x - ml - (b - 1)) AND 0x8000 = 0" using a le am ml by (simp add: and_top_bit16)
qed

lemma push_late_state:
  assumes st: "sb_state s b xs" and pl: "push_late p s = Some (True, s')"
  shows "\<exists>v w. s' = s\<lparr>sb_lastSeqnoValid := v, sb_lastSeqno := w\<rparr>" "sb_state s' b xs"
    and "sb_lastSeqnoValid s' \<Longrightarrow> xs = [] \<or> (\<exists>m. 0 < m \<and> m \<le> 32766 \<and> rp_SequenceNumber p = b - of_nat m) \<Longrightarrow>
           after (rp_SequenceNumber p) (sb_lastSeqno s')"
proof -
  let ?x = "rp_SequenceNumber p" and ?L = "sb_lastSeqno s" and ?ml = "sb_maxLate s"
  have r: "rep s xs" and g: "good b xs" and l: "last_ok s b xs" and z: "sized s" using st by (simp_all add: sb_state_def)
  have ml: "2 \<le> unat ?ml" "unat ?ml \<le> 16383" using z by (simp_all add: sized_def)
  have emp: "(sb_head s \<noteq> sb_tail s) = (xs \<noteq> [])" using rep_empty [OF r] by auto
  have at: "\<exists>q. sb_at s (sb_tail s) = Some q \<and> rp_SequenceNumber q = b" if "xs \<noteq> []"
    using that good_hd [of b "hd xs" "tl xs"] g rep_tail_slot [of s "hd xs" "tl xs"] r by (simp add: sb_at_def)
  consider (invalid) "\<not> sb_lastSeqnoValid s" "s' = s"
    | (late) "s' = s\<lparr>sb_lastSeqnoValid := False\<rparr>"
    | (keep) "sb_lastSeqnoValid s" "\<not> (?L - ?x) AND 0x8000 = 0" "\<not> (?x - ?ml - ?L) AND 0x8000 = 0" "s' = s"
    | (clip) "sb_lastSeqnoValid s" "\<not> (?L - ?x) AND 0x8000 = 0" "(?x - ?ml - ?L) AND 0x8000 = 0" "xs \<noteq> []"
        "s' = s\<lparr>sb_lastSeqno := if (?x - ?ml - (b - 1)) AND 0x8000 = 0 then b - 1 else ?x - ?ml\<rparr>"
    | (move) "sb_lastSeqnoValid s" "\<not> (?L - ?x) AND 0x8000 = 0" "xs = []" "s' = s\<lparr>sb_lastSeqno := ?x - ?ml\<rparr>"
    using pl at emp by (auto simp: push_late_def Let_def split: if_splits)
  note cases = this
  show "\<exists>v w. s' = s\<lparr>sb_lastSeqnoValid := v, sb_lastSeqno := w\<rparr>"
    by (rule cases) (auto intro!: exI [of _ "sb_lastSeqnoValid s'"] exI [of _ "sb_lastSeqno s'"])
  then have "rep s' xs" "sized s'" using r z by (auto simp: sized_def)
  moreover have "last_ok s' b xs"
    by (rule cases) (use l late_arith [OF _ _ ml] in \<open>auto simp: last_ok_def\<close>)
  ultimately show "sb_state s' b xs" using g by (simp add: sb_state_def)
  show "after ?x (sb_lastSeqno s')"
    if v: "sb_lastSeqnoValid s'" "xs = [] \<or> (\<exists>m. 0 < m \<and> m \<le> 32766 \<and> ?x = b - of_nat m)"
  proof (rule cases)
    assume "sb_lastSeqnoValid s" "\<not> (?L - ?x) AND 0x8000 = 0" "(?x - ?ml - ?L) AND 0x8000 = 0" "xs \<noteq> []"
      "s' = s\<lparr>sb_lastSeqno := if (?x - ?ml - (b - 1)) AND 0x8000 = 0 then b - 1 else ?x - ?ml\<rparr>"
    then show ?thesis using v(2) l late_new(2,3) [OF _ ml] by (auto simp: last_ok_def)
  qed (use v late_new(1,2) [OF _ ml] in auto)
qed


lemma linked_missing [simp]: "linked no_packet y" "linked x no_packet"
  by (simp_all add: linked_def no_packet_def)

lemma missing_no_packet [simp]: "missing no_packet"
  by (simp add: missing_def no_packet_def)

lemma good_snoc:
  assumes g: "good b xs" and "xs \<noteq> []" and x: "sl_packet x = Some p" "rp_SequenceNumber p = b + of_nat (length xs + n)"
    and l: "n = 0 \<Longrightarrow> linked (last xs) x"
  shows "good b (xs @ replicate n no_packet @ [x])"
proof -
  let ?ys = "xs @ replicate n no_packet @ [x]"
  have at: "?ys ! i = (if i < length xs then xs ! i else if i < length xs + n then no_packet else x)" if "i < length ?ys" for i
    using that by (auto simp: nth_append less_Suc_eq)
  have "linked (?ys ! i) (?ys ! Suc i)" if i: "Suc i < length ?ys" for i
  proof -
    consider "Suc i < length xs" | "Suc i = length xs" | "length xs \<le> i" by linarith
    then show ?thesis
    proof cases
      case 1
      then show ?thesis using goodD(5) [OF g 1] by (simp add: nth_append)
    next
      case 2
      then have "i = length xs - 1" "i < length xs" by simp_all
      then have "?ys ! i = last xs" using at [of i] by (simp add: last_conv_nth assms(2))
      with 2 i l show ?thesis by (cases "n = 0") (simp_all add: at)
    qed (use i in \<open>simp add: at\<close>)
  qed
  moreover have "rp_SequenceNumber q = b + of_nat i" if "i < length ?ys" "sl_packet (?ys ! i) = Some q" for i q
  proof (cases "i < length xs")
    case True
    then show ?thesis using goodD(4) [OF g True] that at [of i] by simp
  next
    case False
    then have "i = length xs + n" "q = p" using that at [of i] x(1) by (auto simp: no_packet_def split: if_splits)
    then show ?thesis using x(2) by simp
  qed
  moreover have "blanks ?ys" using goodD(1) [OF g] x(1) by (auto simp: blanks_def missing_def)
  ultimately show ?thesis using goodD(2) [OF g] assms(2) x(1) by (simp add: good_def missing_def)
qed

text \<open>Changing a flag of a slot keeps all but the links to its neighbours.\<close>

lemma good_flags:
  assumes g: "good b xs" and i: "i < length xs" "\<not> missing (xs ! i)" and y: "sl_packet y = sl_packet (xs ! i)"
    and l: "0 < i \<Longrightarrow> linked (xs ! (i - 1)) y" "Suc i < length xs \<Longrightarrow> linked y (xs ! Suc i)"
  shows "good b (xs[i := y])"
proof -
  have "linked (xs[i := y] ! j) (xs[i := y] ! Suc j)" if "Suc j < length xs" for j
  proof -
    consider "j = i" | "Suc j = i" | "j \<noteq> i" "Suc j \<noteq> i" by blast
    then show ?thesis by cases (use l goodD(5) [OF g that] that i in \<open>auto simp: nth_list_update\<close>)
  qed
  moreover have "blanks (xs[i := y])"
    using goodD(1) [OF g] i(2) y set_update_subset_insert [of xs i y] by (auto simp: blanks_def missing_def)
  moreover have "\<not> missing (hd (xs[i := y]))" "\<not> missing (last (xs[i := y]))" if "xs \<noteq> []"
    using goodD(2,3) [OF g that] i y that by (auto simp: hd_conv_nth last_conv_nth nth_list_update missing_def)
  moreover have "rp_SequenceNumber p = b + of_nat j" if "j < length xs" "sl_packet (xs[i := y] ! j) = Some p" for j p
    using goodD(4) [OF g that(1)] that(2) i y by (auto simp: nth_list_update split: if_splits)
  ultimately show ?thesis by (simp add: good_def)
qed

lemma linked_flag [simp]: "linked x (y\<lparr>sl_end := e\<rparr>) = linked x y" "linked (x\<lparr>sl_start := e\<rparr>) y = linked x y"
  by (simp_all add: linked_def)

lemma good_last_end: "good b xs \<Longrightarrow> xs \<noteq> [] \<Longrightarrow> good b (xs[length xs - 1 := (last xs)\<lparr>sl_end := e\<rparr>])"
proof (rule good_flags)
  assume g: "good b xs" and ne: "xs \<noteq> []"
  show "length xs - 1 < length xs" "\<not> missing (xs ! (length xs - 1))" "sl_packet ((last xs)\<lparr>sl_end := e\<rparr>) = sl_packet (xs ! (length xs - 1))"
    using ne goodD(3) [OF g ne] by (simp_all add: last_conv_nth)
  show "linked (xs ! (length xs - 1 - 1)) ((last xs)\<lparr>sl_end := e\<rparr>)" if "0 < length xs - 1"
    using goodD(5) [OF g, of "length xs - 1 - 1"] that ne by (simp add: last_conv_nth Suc_diff_Suc)
qed simp_all

lemma push_empty_state:
  assumes st: "sb_state s b []" and a: "sb_lastSeqnoValid s \<Longrightarrow> after (rp_SequenceNumber p) (sb_lastSeqno s)"
  obtains s' x where "push_empty p s = Some s'" "sb_state s' (rp_SequenceNumber p) [x]"
proof -
  let ?x = "\<lparr>sl_start = sb_isStart s p, sl_end = sb_isEnd s p, sl_packet = Some p\<rparr>"
  have r: "rep s []" using st by (simp add: sb_state_def)
  note d = repD [OF r refl]
  let ?s = "s\<lparr>sb_head := 0, sb_tail := 0\<rparr>"
  have "rep (?s\<lparr>sb_packets := (sb_packets ?s)[0 := ?x], sb_head := sb_inc ?s 0\<rparr>) ([] @ replicate 0 no_packet @ [?x])"
    by (rule rep_extend(2) [OF rep_reset [OF r]]) (use d(1) in simp_all)
  moreover have "sb_inc ?s 0 = 1" using d(1) by (simp add: sb_inc_def)
  ultimately have "rep (s\<lparr>sb_packets := (sb_packets s)[0 := ?x], sb_tail := 0, sb_head := 1\<rparr>) [?x]" by (simp add: rep_def)
  moreover have "good (rp_SequenceNumber p) [?x]" by (simp add: good_def blanks_def missing_def)
  moreover have "0 < length (sb_packets s)" using d(1) by linarith
  then have "push_empty p s = Some (s\<lparr>sb_packets := (sb_packets s)[0 := ?x], sb_tail := 0, sb_head := 1\<rparr>)"
    by (simp add: push_empty_def sb_set_def)
  ultimately show ?thesis using that st a by (simp add: sb_state_def last_ok_def sized_def)
qed


text \<open>The next packet in order: a full buffer loses its first frame, then the packet follows the last one.\<close>

lemma push_next_room:
  assumes st: "sb_state s b xs" and ne: "xs \<noteq> []"
  obtains k t where "(if sb_tail s = sb_inc s (sb_head s) then do { r \<leftarrow> sb_drop s; Some (snd r) } else Some s) = Some t"
    "sb_state t (b + of_nat k) (drop k xs)" "k \<le> length xs" "length (drop k xs) + 1 < length (sb_packets t)" "same_config s t"
    "drop k xs \<noteq> [] \<Longrightarrow> sb_head t = sb_head s"
    "k = 0 \<and> t = s \<or> shed s xs k t"
proof (cases "sb_tail s = sb_inc s (sb_head s)")
  case True
  obtain x ys where xs: "xs = x # ys" using ne by (cases xs) auto
  from sb_drop_state [of s b x ys] st xs obtain k t ts where
    t: "sb_drop s = Some ((True, ts), t)" "shed s xs k t" "sb_state t (b + of_nat k) (drop k xs)" "0 < k" "k \<le> length xs" by metis
  have "length xs < length (sb_packets s)" "same_config s t" "k < length xs \<Longrightarrow> sb_head t = sb_head s"
    using repD(4) [of s xs] st t(2) by (auto simp: sb_state_def shed_def)
  with t True show ?thesis by (intro that [of t k]) (auto simp: same_config_def)
next
  case False
  have r: "rep s xs" using st by (simp add: sb_state_def)
  note d = repD [OF r refl]
  have "length xs + 1 < length (sb_packets s)"
  proof (rule ccontr)
    let ?n = "length (sb_packets s)"
    assume "\<not> ?thesis"
    with d(4) have l: "length xs = ?n - 1" "1 \<le> ?n" by simp_all
    have "sb_inc s (sb_head s) = (sb_head s + 1) mod ?n" by (rule sb_inc_mod [OF d(6)])
    also have "\<dots> = (sb_tail s + length xs + 1) mod ?n" unfolding d(5) by (rule mod_add_left_eq)
    also have "sb_tail s + length xs + 1 = sb_tail s + ?n" using l by simp
    finally show False using False d(3) by simp
  qed
  with False st show ?thesis by (intro that [of s 0]) (simp_all)
qed

lemma push_next_state:
  assumes st: "sb_state s b xs" and ne: "xs \<noteq> []" and p: "rp_SequenceNumber p = b + of_nat (length xs)"
    and a: "sb_lastSeqnoValid s \<Longrightarrow> after b (sb_lastSeqno s)"
  obtains s' b' ys where "push_next p s = Some s'" "sb_state s' b' ys" "ys \<noteq> []"
proof -
  obtain k t where room: "(if sb_tail s = sb_inc s (sb_head s) then do { r \<leftarrow> sb_drop s; Some (snd r) } else Some s) = Some t"
    and t: "sb_state t (b + of_nat k) (drop k xs)" "k \<le> length xs" "length (drop k xs) + 1 < length (sb_packets t)" "same_config s t"
      "drop k xs \<noteq> [] \<Longrightarrow> sb_head t = sb_head s" "k = 0 \<and> t = s \<or> shed s xs k t"
    using push_next_room [OF st ne] by metis
  let ?ys = "drop k xs" and ?b = "b + of_nat k"
  have r: "rep t ?ys" and g: "good ?b ?ys" and z: "sized t" using t(1) by (simp_all add: sb_state_def)
  note d = repD [OF r refl]
  have seq: "rp_SequenceNumber p = ?b + of_nat (length ?ys)" using p t(2) by (simp add: of_nat_diff)
  have lst: "sb_lastSeqnoValid t \<Longrightarrow> after ?b (sb_lastSeqno t)" using t(6) a shed_after [OF st] by auto
  have hd0: "(sb_head t + 0) mod length (sb_packets t) = sb_head t" using d(6) by simp
  show ?thesis
  proof (cases "?ys = []")
    case True
    let ?x = "\<lparr>sl_start = sb_isStart t p, sl_end = sb_isEnd t p, sl_packet = Some p\<rparr>"
    let ?s = "t\<lparr>sb_packets := (sb_packets t)[sb_head t := ?x], sb_head := sb_inc t (sb_head t)\<rparr>"
    have r': "rep ?s [?x]" and set: "sb_set (sb_head t) ?x t = Some (t\<lparr>sb_packets := (sb_packets t)[sb_head t := ?x]\<rparr>)"
      using rep_extend [OF r, of 0 "sb_head t" ?x] t(3) hd0 True by simp_all
    have "sb_tail t = sb_head t" using rep_empty [OF r] True by simp
    with room set have "push_next p s = Some ?s" by (simp add: push_next_def sb_inc_def)
    moreover have "sb_state ?s ?b [?x]"
      using r' z lst seq True by (auto simp: sb_state_def good_def blanks_def missing_def last_ok_def sized_def)
    ultimately show ?thesis using that by blast
  next
    case False
    let ?n = "length (sb_packets t)" and ?z = "last ?ys" and ?i = "length ?ys - 1"
    from good_last [OF g False] obtain q where q: "sl_packet ?z = Some q" by blast
    define start where "start = (sl_end ?z \<or> rp_Timestamp q \<noteq> rp_Timestamp p \<or> sb_isStart t p)"
    define u where "u = (if start then t\<lparr>sb_packets := (sb_packets t)[sb_dec s (sb_head s) := ?z\<lparr>sl_end := True\<rparr>]\<rparr> else t)"
    define zs where "zs = ?ys[?i := ?z\<lparr>sl_end := start\<rparr>]"
    let ?x = "\<lparr>sl_start = start, sl_end = sb_isEnd u p, sl_packet = Some p\<rparr>"
    let ?s = "u\<lparr>sb_packets := (sb_packets u)[sb_head u := ?x], sb_head := sb_inc u (sb_head u)\<rparr>"
    have "sb_dec s (sb_head s) = sb_dec t (sb_head t)" using t(4,5) False by (simp add: sb_dec_def same_config_def)
    then have dec: "sb_dec s (sb_head s) = (sb_tail t + ?i) mod ?n" "sb_slot_at t (sb_dec s (sb_head s)) = Some ?z"
      using rep_dec_head [OF r False] rep_last_slot [OF r False] by simp_all
    have zi: "?ys ! ?i = ?z" "?i < length ?ys" using False by (simp_all add: last_conv_nth)
    have "zs = ?ys" if "\<not> start" using that zi by (simp add: zs_def start_def list_update_same_conv)
    then have ru: "rep u zs" using rep_set(2) [OF r zi(2), of "?z\<lparr>sl_end := True\<rparr>"] r by (auto simp: u_def zs_def dec(1))
    have set1: "(if start then sb_set (sb_dec s (sb_head s)) (?z\<lparr>sl_end := True\<rparr>) t else Some t) = Some u"
      using rep_set(1) [OF r zi(2), of "?z\<lparr>sl_end := True\<rparr>"] by (simp add: u_def dec(1))
    have fu: "sb_head u = sb_head t" "length (sb_packets u) = ?n" "sb_lastSeqno u = sb_lastSeqno t" "sb_lastSeqnoValid u = sb_lastSeqnoValid t"
      "sized u = sized t" by (simp_all add: u_def sized_def)
    have en: "sb_isEnd u p = sb_isEnd t p" by (simp add: u_def sb_isEnd_def)
    have gz: "good ?b zs" unfolding zs_def by (rule good_last_end [OF g False])
    have gx: "good ?b (zs @ replicate 0 no_packet @ [?x])"
      by (rule good_snoc [OF gz, where p = p])
        (use False seq zi q in \<open>auto simp: zs_def linked_def start_def last_list_update\<close>)
    have r': "rep ?s (zs @ [?x])" and set2: "sb_set (sb_head u) ?x u = Some (u\<lparr>sb_packets := (sb_packets u)[sb_head u := ?x]\<rparr>)"
      using rep_extend [OF ru, of 0 "sb_head u" ?x] t(3) hd0 fu by (simp_all add: zs_def)
    have "sb_tail t \<noteq> sb_head t" using rep_empty [OF r] False by simp
    moreover have flag: "(if sl_end ?z then Some True
        else do { q \<leftarrow> sl_packet ?z; Some (rp_Timestamp q \<noteq> rp_Timestamp p \<or> sb_isStart t p) }) = Some start"
      using q by (simp add: start_def)
    ultimately have mid: "(if sb_tail t \<noteq> sb_head t
             then do {
               x \<leftarrow> sb_slot_at t (sb_dec s (sb_head s));
               start \<leftarrow> (if sl_end x then Some True
                        else do { q \<leftarrow> sl_packet x; Some (rp_Timestamp q \<noteq> rp_Timestamp p \<or> sb_isStart t p) });
               s \<leftarrow> (if start then sb_set (sb_dec s (sb_head s)) (x\<lparr>sl_end := True\<rparr>) t else Some t);
               Some (start, s)
             }
             else Some (sb_isStart t p, t)) = Some (start, u)"
      using set1 by (simp only: dec(2) bind.bind_lunit flag not_False_eq_True if_True simp_thms)
    have "push_next p s = Some ?s"
      unfolding push_next_def Let_def [of "sb_dec s (sb_head s)"] room bind.bind_lunit mid fst_conv snd_conv
      using set2 fu en by (simp add: sb_inc_def)
    moreover have "sb_state ?s ?b (zs @ [?x])"
      using r' gx lst z fu by (auto simp: sb_state_def last_ok_def sized_def)
    ultimately show ?thesis using that by blast
  qed
qed


text \<open>Making room for a packet further ahead.\<close>

lemma make_room_state:
  "sb_state s b xs \<Longrightarrow> gap < sb_cap s \<Longrightarrow>
   \<exists>ok t k. make_room gap s = Some (ok, t) \<and> (k = 0 \<and> t = s \<or> shed s xs k t) \<and>
     (if ok then length (drop k xs) + gap + 1 < sb_cap s else drop k xs = [])"
proof (induction "length xs" arbitrary: xs s b rule: less_induct)
  case less
  have r: "rep s xs" using less.prems(1) by (simp add: sb_state_def)
  note d = repD [OF r refl]
  have m: "(sb_length s + gap + 1) mod 65536 = length xs + gap + 1" using d less.prems(2) r by (simp add: sb_cap_def)
  show ?case
  proof (cases "length xs + gap + 1 < sb_cap s")
    case True
    then show ?thesis using m by (subst make_room.simps) (auto intro!: exI [of _ 0])
  next
    case full: False
    show ?thesis
    proof (cases xs)
      case Nil
      then have "sb_drop s = Some ((False, 0), s)" using rep_empty [OF r] by (simp add: sb_drop_def)
      then show ?thesis using full m Nil by (subst make_room.simps) (auto intro!: exI [of _ 0])
    next
      case (Cons x ys)
      from sb_drop_state [of s b x ys] less.prems(1) Cons obtain k t ts where
        t: "sb_drop s = Some ((True, ts), t)" "shed s xs k t" "sb_state t (b + of_nat k) (drop k xs)" "0 < k" "k \<le> length xs" by metis
      have c: "sb_cap t = sb_cap s" using t(2) by (simp add: shed_def same_config_def sb_cap_def)
      have "length (drop k xs) < length xs" using t(4,5) Cons by simp
      from less.hyps [OF this t(3), unfolded c, OF less.prems(2)] obtain ok u j where
        u: "make_room gap t = Some (ok, u)" "j = 0 \<and> u = t \<or> shed t (drop k xs) j u"
          "if ok then length (drop j (drop k xs)) + gap + 1 < sb_cap s else drop j (drop k xs) = []" by blast
      have "shed s xs (k + j) u" using u(2) t(2) shed_trans [OF t(2)] by auto
      moreover have "make_room gap s = Some (ok, u)" using full m t(1) u(1) by (subst make_room.simps) simp
      ultimately show ?thesis using u(3) by (intro exI [of _ ok] exI [of _ u] exI [of _ "k + j"]) (auto split: if_splits)
    qed
  qed
qed

lemma push_ahead_state:
  assumes st: "sb_state s b xs" and g: "gap < sb_cap s" and p: "rp_SequenceNumber p = b + of_nat (length xs + gap)" and pos: "0 < gap"
    and room: "make_room gap s = Some (True, t)" "sb_head t \<noteq> sb_tail t"
  obtains s' b' ys where "push_ahead p gap s = Some s'" "sb_state s' b' ys" "ys \<noteq> []"
proof -
  obtain ok t' k where "make_room gap s = Some (ok, t')" "k = 0 \<and> t' = s \<or> shed s xs k t'"
      "if ok then length (drop k xs) + gap + 1 < sb_cap s else drop k xs = []"
    using make_room_state [OF st g] by blast
  with room(1) have k: "k = 0 \<and> t = s \<or> shed s xs k t" "length (drop k xs) + gap + 1 < sb_cap s" by simp_all
  let ?ys = "drop k xs" and ?b = "b + of_nat k"
  have stt: "sb_state t ?b ?ys" "k \<le> length xs" "same_config s t" using k(1) st shed_state [OF st, of k t] by (auto simp: shed_def)
  have r: "rep t ?ys" and gd: "good ?b ?ys" and z: "sized t" and l: "last_ok t ?b ?ys" using stt(1) by (simp_all add: sb_state_def)
  note d = repD [OF r refl]
  have ne: "?ys \<noteq> []" using rep_empty [OF r] room(2) by auto
  have n: "length ?ys + gap + 1 < length (sb_packets t)" using k(2) stt(3) by (simp add: sb_cap_def same_config_def)
  let ?i = "(sb_head t + gap) mod length (sb_packets t)"
  let ?x = "\<lparr>sl_start = sb_isStart t p, sl_end = sb_isEnd t p, sl_packet = Some p\<rparr>"
  have i: "((sb_head t + gap) mod 65536) mod length (sb_packets t) = ?i" using d(2,6) n by simp
  note e = rep_extend [OF r n refl, of ?x]
  let ?s = "t\<lparr>sb_packets := (sb_packets t)[?i := ?x], sb_head := sb_inc t ?i\<rparr>"
  have "push_ahead p gap s = Some ?s" using e(1) i by (simp add: push_ahead_def room(1) Let_def sb_inc_def)
  moreover have "good ?b (?ys @ replicate gap no_packet @ [?x])"
    by (rule good_snoc [OF gd ne, where p = p]) (use p pos stt(2) in \<open>simp_all add: of_nat_diff\<close>)
  then have "sb_state ?s ?b (?ys @ replicate gap no_packet @ [?x])"
    using e(2) z l ne by (simp add: sb_state_def last_ok_def sized_def)
  ultimately show ?thesis using that by blast
qed


text \<open>All of the invariant on the list but the presence of the first packet.\<close>

definition almost :: "u16 \<Rightarrow> sb_slot list \<Rightarrow> bool" where
  "almost b xs \<longleftrightarrow>
     blanks xs \<and> (xs \<noteq> [] \<longrightarrow> \<not> missing (last xs)) \<and>
     (\<forall>i < length xs. \<forall>p. sl_packet (xs ! i) = Some p \<longrightarrow> rp_SequenceNumber p = b + of_nat i) \<and>
     (\<forall>i. Suc i < length xs \<longrightarrow> linked (xs ! i) (xs ! Suc i))"

lemma good_almost: "good b xs \<longleftrightarrow> almost b xs \<and> (xs \<noteq> [] \<longrightarrow> \<not> missing (hd xs))"
  by (auto simp: good_def almost_def)

lemma almost_front:
  assumes "almost b xs" "xs \<noteq> []"
  shows "almost (b - of_nat m) (replicate m no_packet @ xs)"
proof -
  let ?ys = "replicate m no_packet @ xs"
  have at: "?ys ! i = (if i < m then no_packet else xs ! (i - m))" if "i < length ?ys" for i using that by (auto simp: nth_append)
  have "rp_SequenceNumber p = b - of_nat m + of_nat i" if "i < length ?ys" "sl_packet (?ys ! i) = Some p" for i p
  proof -
    have "m \<le> i" "sl_packet (xs ! (i - m)) = Some p" "i - m < length xs" using that at by (auto simp: no_packet_def split: if_splits)
    moreover from this assms(1) have "rp_SequenceNumber p = b + of_nat (i - m)" unfolding almost_def by blast
    ultimately show ?thesis by (simp add: of_nat_diff)
  qed
  moreover have "linked (?ys ! i) (?ys ! Suc i)" if "Suc i < length ?ys" for i
  proof (cases "i < m")
    case False
    then have "linked (xs ! (i - m)) (xs ! Suc (i - m))" using assms(1) that by (simp add: almost_def)
    with False that show ?thesis by (simp add: at Suc_diff_le)
  qed (use that in \<open>simp add: at\<close>)
  moreover have "blanks ?ys" using assms(1) by (auto simp: almost_def blanks_def)
  ultimately show ?thesis using assms by (simp add: almost_def)
qed

lemma almost_update:
  assumes a: "almost b xs" and i: "i < length xs" and y: "sl_packet y = Some p" "rp_SequenceNumber p = b + of_nat i"
    and l: "0 < i \<Longrightarrow> linked (xs ! (i - 1)) y" "Suc i < length xs \<Longrightarrow> linked y (xs ! Suc i)"
  shows "almost b (xs[i := y])"
proof -
  have "linked (xs[i := y] ! j) (xs[i := y] ! Suc j)" if "Suc j < length xs" for j
  proof -
    have old: "linked (xs ! j) (xs ! Suc j)" using a that by (simp add: almost_def)
    consider "j = i" | "Suc j = i" | "j \<noteq> i" "Suc j \<noteq> i" by blast
    then show ?thesis
    proof cases
      case 1
      then show ?thesis using l(2) that by simp
    next
      case 2
      then show ?thesis using l(1) that by auto
    next
      case 3
      then show ?thesis using old that by simp
    qed
  qed
  moreover have "blanks (xs[i := y])"
    using a y set_update_subset_insert [of xs i y] by (auto simp: almost_def blanks_def missing_def)
  moreover have "\<not> missing (last (xs[i := y]))" if "xs \<noteq> []"
    using a i y that by (auto simp: almost_def last_conv_nth nth_list_update missing_def)
  moreover have "rp_SequenceNumber q = b + of_nat j" if "j < length xs" "sl_packet (xs[i := y] ! j) = Some q" for j q
    using a that i y by (auto simp: almost_def nth_list_update split: if_splits)
  ultimately show ?thesis by (simp add: almost_def)
qed

lemma linked_to_missing [simp]: "missing y \<Longrightarrow> linked x y" "missing x \<Longrightarrow> linked x y"
  by (simp_all add: linked_def missing_def)

lemma almost_seq: "almost b xs \<Longrightarrow> i < length xs \<Longrightarrow> sl_packet (xs ! i) = Some p \<Longrightarrow> rp_SequenceNumber p = b + of_nat i"
  by (simp add: almost_def)

lemma almost_link: "almost b xs \<Longrightarrow> 0 < i \<Longrightarrow> i < length xs \<Longrightarrow> linked (xs ! (i - 1)) (xs ! i)"
  unfolding almost_def by (metis Suc_diff_1)

text \<open>The neighbours of a missing packet: their flags that face it may change.\<close>

definition face_end :: "nat \<Rightarrow> bool \<Rightarrow> sb_slot list \<Rightarrow> sb_slot list" where
  "face_end i e xs = (if i = 0 \<or> missing (xs ! (i - 1)) then xs else xs[i - 1 := (xs ! (i - 1))\<lparr>sl_end := e\<rparr>])"

definition face_start :: "nat \<Rightarrow> bool \<Rightarrow> sb_slot list \<Rightarrow> sb_slot list" where
  "face_start i e xs = (if length xs \<le> Suc i \<or> missing (xs ! Suc i) then xs else xs[Suc i := (xs ! Suc i)\<lparr>sl_start := e\<rparr>])"

lemma almost_face:
  assumes a: "almost b xs" and i: "i < length xs" "missing (xs ! i)"
  shows "almost b (face_end i e xs)" "almost b (face_start i e xs)"
proof -
  show "almost b (face_end i e xs)"
  proof (cases "i = 0 \<or> missing (xs ! (i - 1))")
    case False
    then obtain p where p: "sl_packet (xs ! (i - 1)) = Some p" "0 < i" by (auto simp: missing_def)
    have "almost b (xs[i - 1 := (xs ! (i - 1))\<lparr>sl_end := e\<rparr>])"
      by (rule almost_update [OF a, where p = p])
        (use p i almost_seq [OF a, of "i - 1" p] almost_link [OF a, of "i - 1"] in auto)
    with False show ?thesis by (simp add: face_end_def)
  qed (simp add: face_end_def a)
  show "almost b (face_start i e xs)"
  proof (cases "length xs \<le> Suc i \<or> missing (xs ! Suc i)")
    case False
    then obtain p where p: "sl_packet (xs ! Suc i) = Some p" "Suc i < length xs" by (auto simp: missing_def)
    have "almost b (xs[Suc i := (xs ! Suc i)\<lparr>sl_start := e\<rparr>])"
      by (rule almost_update [OF a, where p = p])
        (use p i almost_seq [OF a, of "Suc i" p] almost_link [OF a, of "Suc (Suc i)"] in auto)
    with False show ?thesis by (simp add: face_start_def)
  qed (simp add: face_start_def a)
qed


lemma ring_neighbours:
  assumes r: "rep s xs" and i: "i < length xs"
  shows "0 < i \<Longrightarrow> sb_dec s ((sb_tail s + i) mod length (sb_packets s)) = (sb_tail s + (i - 1)) mod length (sb_packets s)"
    "sb_inc s ((sb_tail s + i) mod length (sb_packets s)) = (sb_tail s + Suc i) mod length (sb_packets s)"
    "(sb_tail s + i) mod length (sb_packets s) = sb_tail s \<longleftrightarrow> i = 0"
proof -
  let ?n = "length (sb_packets s)"
  note d = repD [OF r refl]
  have "i < ?n" using i d(4) by simp
  with d(3) show "0 < i \<Longrightarrow> sb_dec s ((sb_tail s + i) mod ?n) = (sb_tail s + (i - 1)) mod ?n"
    using mod_once [of "sb_tail s" ?n i] mod_once [of "sb_tail s" ?n "i - 1"] by (auto simp: sb_dec_def split: if_splits)
  show "sb_inc s ((sb_tail s + i) mod ?n) = (sb_tail s + Suc i) mod ?n"
    using sb_inc_mod [OF ring_index [OF r]] by (simp add: mod_Suc_eq)
  show "(sb_tail s + i) mod ?n = sb_tail s \<longleftrightarrow> i = 0"
    using mod_index_eq [of "sb_tail s" ?n i 0] \<open>i < ?n\<close> d(3) by (simp del: length_greater_0_conv)
qed

definition start_flag :: "bool \<Rightarrow> rtp_packet \<Rightarrow> nat \<Rightarrow> sb_slot list \<Rightarrow> bool" where
  "start_flag st p i xs =
     (if i = 0 then st
      else case sl_packet (xs ! (i - 1)) of None \<Rightarrow> st | Some q \<Rightarrow> rp_Timestamp q \<noteq> rp_Timestamp p \<or> st \<or> sl_end (xs ! (i - 1)))"

definition end_flag :: "bool \<Rightarrow> rtp_packet \<Rightarrow> nat \<Rightarrow> sb_slot list \<Rightarrow> bool" where
  "end_flag en p i xs =
     (if length xs \<le> Suc i then en
      else case sl_packet (xs ! Suc i) of None \<Rightarrow> en | Some q \<Rightarrow> rp_Timestamp q \<noteq> rp_Timestamp p \<or> en \<or> sl_start (xs ! Suc i))"

lemma past_start_rep:
  assumes r: "rep s xs" and i: "i < length xs" and st: "st = start_flag (sb_isStart s p) p i xs"
  obtains ps where "past_start p ((sb_tail s + i) mod length (sb_packets s)) s = Some (st, s\<lparr>sb_packets := ps\<rparr>)"
    "rep (s\<lparr>sb_packets := ps\<rparr>) (face_end i st xs)" "length ps = length (sb_packets s)"
proof -
  let ?n = "length (sb_packets s)" and ?j = "(sb_tail s + (i - 1)) mod length (sb_packets s)"
  note nb = ring_neighbours [OF r i]
  show ?thesis
  proof (cases "i = 0")
    case True
    then show ?thesis using nb(3) r st by (intro that [of "sb_packets s"]) (simp_all add: past_start_def start_flag_def face_end_def)
  next
    case False
    let ?x = "xs ! (i - 1)"
    have j: "i - 1 < length xs" "sb_slot_at s ?j = Some ?x"
      using rep_slot [OF r, of "i - 1"] i repD(4) [OF r refl] by simp_all
    show ?thesis
    proof (cases "sl_packet ?x")
      case None
      then show ?thesis using False nb(1,3) j(2) r st
        by (intro that [of "sb_packets s"]) (simp_all add: past_start_def start_flag_def face_end_def missing_def)
    next
      case (Some q)
      note set = rep_set [OF r j(1), of "?x\<lparr>sl_end := True\<rparr>"]
      have face: "face_end i st xs = xs[i - 1 := ?x\<lparr>sl_end := st\<rparr>]" using False Some by (simp add: face_end_def missing_def)
      show ?thesis
      proof (cases "rp_Timestamp q \<noteq> rp_Timestamp p \<or> sb_isStart s p")
        case True
        then have "st" using False Some st by (simp add: start_flag_def)
        moreover have "past_start p ((sb_tail s + i) mod ?n) s = Some (True, s\<lparr>sb_packets := (sb_packets s)[?j := ?x\<lparr>sl_end := True\<rparr>]\<rparr>)"
          using False nb(1,3) j(2) Some True set(1) by (simp add: past_start_def)
        ultimately show ?thesis using set(2) face by (intro that [of "(sb_packets s)[?j := ?x\<lparr>sl_end := True\<rparr>]"]) simp_all
      next
        case nt: False
        then have "st = sl_end ?x" using False Some st by (simp add: start_flag_def)
        then have "face_end i st xs = xs" using face j(1) by (simp add: list_update_same_conv)
        then show ?thesis using False nb(1,3) j(2) Some nt r \<open>st = sl_end ?x\<close>
          by (intro that [of "sb_packets s"]) (simp_all add: past_start_def)
      qed
    qed
  qed
qed

lemma past_end_rep:
  assumes r: "rep s xs" and i: "i < length xs" and en: "en = end_flag (sb_isEnd s p) p i xs"
  obtains ps where "past_end p ((sb_tail s + i) mod length (sb_packets s)) s = Some (en, s\<lparr>sb_packets := ps\<rparr>)"
    "rep (s\<lparr>sb_packets := ps\<rparr>) (face_start i en xs)" "length ps = length (sb_packets s)"
proof -
  let ?n = "length (sb_packets s)" and ?j = "(sb_tail s + Suc i) mod length (sb_packets s)"
  note nb = ring_neighbours [OF r i]
  have "Suc i < ?n" using i repD(4) [OF r refl] by simp
  note slot = rep_slot [OF r this]
  show ?thesis
  proof (cases "length xs \<le> Suc i")
    case True
    then have "sb_slot_at s ?j = Some no_packet" using slot by simp
    then show ?thesis using True nb(2) r en
      by (intro that [of "sb_packets s"]) (simp_all add: past_end_def end_flag_def face_start_def no_packet_def)
  next
    case False
    let ?x = "xs ! Suc i"
    have j: "Suc i < length xs" "sb_slot_at s ?j = Some ?x" using slot False by simp_all
    show ?thesis
    proof (cases "sl_packet ?x")
      case None
      then show ?thesis using False nb(2) j(2) r en
        by (intro that [of "sb_packets s"]) (simp_all add: past_end_def end_flag_def face_start_def missing_def)
    next
      case (Some q)
      note set = rep_set [OF r j(1), of "?x\<lparr>sl_start := True\<rparr>"]
      have face: "face_start i en xs = xs[Suc i := ?x\<lparr>sl_start := en\<rparr>]" using False Some by (simp add: face_start_def missing_def)
      show ?thesis
      proof (cases "rp_Timestamp q \<noteq> rp_Timestamp p \<or> sb_isEnd s p")
        case True
        then have "en" using False Some en by (simp add: end_flag_def)
        moreover have "past_end p ((sb_tail s + i) mod ?n) s = Some (True, s\<lparr>sb_packets := (sb_packets s)[?j := ?x\<lparr>sl_start := True\<rparr>]\<rparr>)"
          using nb(2) j(2) Some True set(1) by (simp add: past_end_def)
        ultimately show ?thesis using set(2) face by (intro that [of "(sb_packets s)[?j := ?x\<lparr>sl_start := True\<rparr>]"]) simp_all
      next
        case nt: False
        then have "en = sl_start ?x" using False Some en by (simp add: end_flag_def)
        then have "face_start i en xs = xs" using face j(1) by (simp add: list_update_same_conv)
        then show ?thesis using nb(2) j(2) Some nt r \<open>en = sl_start ?x\<close>
          by (intro that [of "sb_packets s"]) (simp_all add: past_end_def)
      qed
    qed
  qed
qed


text \<open>Filling a gap: the packet and its neighbours agree on where frames start and end.\<close>

lemma fill_good:
  assumes a: "almost b xs" and i: "i < length xs" "missing (xs ! i)" and h: "i = 0 \<or> \<not> missing (hd xs)" and p: "rp_SequenceNumber p = b + of_nat i"
    and st: "st = start_flag s0 p i xs" and en: "en = end_flag e0 p i (face_end i st xs)"
  shows "good b ((face_start i en (face_end i st xs))[i := \<lparr>sl_start = st, sl_end = en, sl_packet = Some p\<rparr>])"
proof -
  let ?ys = "face_end i st xs" and ?x = "\<lparr>sl_start = st, sl_end = en, sl_packet = Some p\<rparr>"
  let ?zs = "face_start i en ?ys"
  have len: "length ?ys = length xs" "length ?zs = length xs" by (simp_all add: face_end_def face_start_def)
  have yi: "?ys ! i = xs ! i" "Suc i < length xs \<Longrightarrow> ?ys ! Suc i = xs ! Suc i" by (auto simp: face_end_def)
  have "almost b ?ys" using almost_face(1) [OF a i] .
  then have z: "almost b ?zs" using almost_face(2) [of b ?ys i en] i yi(1) len by simp
  have prev: "linked (?zs ! (i - 1)) ?x" if "0 < i"
  proof -
    have "?zs ! (i - 1) = ?ys ! (i - 1)" using that by (auto simp: face_start_def)
    also have "\<dots> = (if missing (xs ! (i - 1)) then xs ! (i - 1) else (xs ! (i - 1))\<lparr>sl_end := st\<rparr>)"
      using that i by (auto simp: face_end_def)
    finally show ?thesis using that by (auto simp: linked_def missing_def st start_flag_def split: option.splits)
  qed
  have nxt: "linked ?x (?zs ! Suc i)" if "Suc i < length xs"
  proof -
    have "?zs ! Suc i = (if missing (xs ! Suc i) then xs ! Suc i else (xs ! Suc i)\<lparr>sl_start := en\<rparr>)"
      using that yi(2) len by (auto simp: face_start_def)
    then show ?thesis using that yi(2) len by (auto simp: linked_def missing_def en end_flag_def split: option.splits)
  qed
  have "almost b (?zs[i := ?x])"
    by (rule almost_update [OF z, where p = p]) (use i p len prev nxt in simp_all)
  moreover have "\<not> missing (hd (?zs[i := ?x]))"
  proof (cases "i = 0")
    case True
    then show ?thesis using i len by (cases ?zs) (auto simp: missing_def)
  next
    case False
    have ne: "xs \<noteq> []" using i by auto
    then have "\<not> missing (xs ! 0)" using h False by (simp add: hd_conv_nth)
    then have "\<not> missing (?zs ! 0)" using False ne i(1) by (auto simp: face_start_def face_end_def missing_def nth_list_update split: if_splits)
    moreover have "?zs \<noteq> []" using len(2) ne by auto
    ultimately show ?thesis using False by (simp add: hd_conv_nth)
  qed
  ultimately show ?thesis by (simp add: good_almost)
qed

lemma fill_rep:
  assumes r: "rep s xs" and a: "almost b xs" and i: "i < length xs" "missing (xs ! i)" and h: "i = 0 \<or> \<not> missing (hd xs)"
    and p: "rp_SequenceNumber p = b + of_nat i" and idx: "index = (sb_tail s + i) mod length (sb_packets s)"
  obtains s' ys ps where
    "do { r \<leftarrow> past_start p index s; e \<leftarrow> past_end p index (snd r);
          sb_set index \<lparr>sl_start = fst r, sl_end = fst e, sl_packet = Some p\<rparr> (snd e) } = Some s'"
    "s' = s\<lparr>sb_packets := ps\<rparr>" "rep s' ys" "good b ys" "length ys = length xs" "length ps = length (sb_packets s)"
proof -
  define st where "st = start_flag (sb_isStart s p) p i xs"
  obtain ps where ps: "past_start p index s = Some (st, s\<lparr>sb_packets := ps\<rparr>)" "rep (s\<lparr>sb_packets := ps\<rparr>) (face_end i st xs)"
      "length ps = length (sb_packets s)"
    using past_start_rep [OF r i(1) st_def] idx by metis
  let ?s1 = "s\<lparr>sb_packets := ps\<rparr>" and ?ys = "face_end i st xs"
  have i1: "i < length ?ys" using i(1) by (simp add: face_end_def)
  define en where "en = end_flag (sb_isEnd ?s1 p) p i ?ys"
  have idx1: "index = (sb_tail ?s1 + i) mod length (sb_packets ?s1)" using idx ps(3) by simp
  obtain qs where qs: "past_end p index ?s1 = Some (en, ?s1\<lparr>sb_packets := qs\<rparr>)" "rep (?s1\<lparr>sb_packets := qs\<rparr>) (face_start i en ?ys)"
      "length qs = length (sb_packets s)"
    using past_end_rep [OF ps(2) i1 en_def] idx1 ps(3) by (metis SampleBuilder.select_convs(1) SampleBuilder.surjective SampleBuilder.update_convs(1))
  let ?s2 = "s\<lparr>sb_packets := qs\<rparr>" and ?zs = "face_start i en (face_end i st xs)" and ?x = "\<lparr>sl_start = st, sl_end = en, sl_packet = Some p\<rparr>"
  have i2: "i < length ?zs" using i(1) by (simp add: face_end_def face_start_def)
  have r2: "rep ?s2 ?zs" using qs(2) by simp
  have idx2: "index = (sb_tail ?s2 + i) mod length (sb_packets ?s2)" using idx qs(3) by simp
  note set = rep_set [OF r2 i2, of ?x, folded idx2]
  have "do { r \<leftarrow> past_start p index s; e \<leftarrow> past_end p index (snd r);
          sb_set index \<lparr>sl_start = fst r, sl_end = fst e, sl_packet = Some p\<rparr> (snd e) } = Some (s\<lparr>sb_packets := qs[index := ?x]\<rparr>)"
    using ps(1) qs(1) set(1) by simp
  moreover have "rep (s\<lparr>sb_packets := qs[index := ?x]\<rparr>) (?zs[i := ?x])" using set(2) by simp
  moreover have "good b (?zs[i := ?x])" by (rule fill_good [OF a i h p st_def]) (simp add: en_def)
  moreover have "length (?zs[i := ?x]) = length xs" by (simp add: face_end_def face_start_def)
  ultimately show ?thesis using that qs(3) by (metis length_list_update)
qed


text \<open>Where a packet from the past goes: into the list, or before its first packet.\<close>

lemma past_place:
  assumes r: "rep s xs" and ne: "xs \<noteq> []" and c: "0 < c" "c < sb_cap s"
  defines "t \<equiv> past_tail (past_index c s) s"
  shows "c \<le> length xs \<Longrightarrow> t = s \<and> past_index c s = (sb_tail s + (length xs - c)) mod length (sb_packets s)"
    and "length xs < c \<Longrightarrow> t = s\<lparr>sb_tail := past_index c s\<rparr> \<and>
           past_index c s = (sb_tail s + (length (sb_packets s) - (c - length xs))) mod length (sb_packets s)"
proof -
  let ?n = "length (sb_packets s)"
  note d = repD [OF r refl]
  have cn: "c < ?n" "1 \<le> length xs" using c d(1) ne by (cases xs; simp add: sb_cap_def)+
  have head: "sb_head s = (if sb_tail s + length xs < ?n then sb_tail s + length xs else sb_tail s + length xs - ?n)"
    using d(3,4,5) mod_once [of "sb_tail s" ?n "length xs"] by simp
  have idx: "past_index c s = (if c \<le> sb_head s then sb_head s - c else sb_head s + ?n - c)"
    using cn d(2,6) by (simp add: past_index_def)
  have low: "sb_tail s < ?n" "sb_head s < ?n" using d(3,6) by simp_all
  show "t = s \<and> past_index c s = (sb_tail s + (length xs - c)) mod ?n" if le: "c \<le> length xs"
  proof (cases "sb_tail s + length xs < ?n")
    case True
    with le cn head idx show ?thesis by (simp add: t_def past_tail_def)
  next
    case False
    with head have h: "sb_head s + ?n = sb_tail s + length xs" by simp
    show ?thesis
    proof (cases "c \<le> sb_head s")
      case True
      have "sb_tail s + (length xs - c) = sb_head s - c + ?n" using h le True by simp
      then have "(sb_tail s + (length xs - c)) mod ?n = (sb_head s - c) mod ?n" by (simp only: mod_add_self2)
      with True idx low have "past_index c s = (sb_tail s + (length xs - c)) mod ?n" by simp
      moreover have "past_index c s \<le> sb_head s" "\<not> sb_tail s < sb_head s" using True idx h d(4) by simp_all
      ultimately show ?thesis by (simp add: t_def past_tail_def)
    next
      case nle: False
      with idx h le have i: "past_index c s = sb_tail s + (length xs - c)" by simp
      moreover have "sb_tail s + (length xs - c) < ?n" using nle h le by simp
      moreover have "\<not> sb_tail s < sb_head s" using h d(4) by simp
      ultimately show ?thesis by (simp add: t_def past_tail_def)
    qed
  qed
  show "t = s\<lparr>sb_tail := past_index c s\<rparr> \<and> past_index c s = (sb_tail s + (?n - (c - length xs))) mod ?n" if gt: "length xs < c"
  proof (cases "sb_tail s + length xs < ?n")
    case True
    with head have h: "sb_head s = sb_tail s + length xs" by simp
    show ?thesis
    proof (cases "c \<le> sb_head s")
      case le: True
      have "sb_tail s + (?n - (c - length xs)) = sb_head s - c + ?n" using h gt le cn by simp
      then have "(sb_tail s + (?n - (c - length xs))) mod ?n = (sb_head s - c) mod ?n" by (simp only: mod_add_self2)
      with le idx low have "past_index c s = (sb_tail s + (?n - (c - length xs))) mod ?n" by simp
      moreover have "past_index c s < sb_tail s" "sb_tail s < sb_head s" using le idx h gt cn ne by simp_all
      ultimately show ?thesis by (simp add: t_def past_tail_def)
    next
      case False
      with idx have i: "past_index c s = sb_head s + ?n - c" by simp
      have "sb_tail s + (?n - (c - length xs)) = sb_head s + ?n - c" "sb_head s + ?n - c < ?n" "sb_head s < sb_head s + ?n - c"
        "sb_tail s < sb_head s" using h gt cn ne False by simp_all
      with i show ?thesis by (simp add: t_def past_tail_def)
    qed
  next
    case False
    with head have h: "sb_head s + ?n = sb_tail s + length xs" by simp
    then have hc: "\<not> c \<le> sb_head s" using gt d(3) by simp
    with idx have i: "past_index c s = sb_head s + ?n - c" by simp
    have e: "sb_tail s + (?n - (c - length xs)) = sb_head s + ?n - c + ?n" and o: "sb_head s + ?n - c < sb_tail s" "sb_head s < sb_head s + ?n - c"
      "\<not> sb_tail s < sb_head s" using h gt cn d(4) by simp_all
    have "(sb_head s + ?n - c) mod ?n = sb_head s + ?n - c" using o(1) low(1) by (intro mod_less) linarith
    then have "(sb_tail s + (?n - (c - length xs))) mod ?n = sb_head s + ?n - c" unfolding e by (simp only: mod_add_self2)
    with o i show ?thesis by (simp add: t_def past_tail_def)
  qed
qed

lemma push_past_state:
  assumes st: "sb_state s b xs" and ne: "xs \<noteq> []" and c: "0 < c" and p: "rp_SequenceNumber p = b + of_nat (length xs) - of_nat c"
    and new: "sb_lastSeqnoValid s \<Longrightarrow> \<exists>m. 0 < m \<and> m \<le> 32766 \<and> rp_SequenceNumber p = b - of_nat m \<Longrightarrow> after (rp_SequenceNumber p) (sb_lastSeqno s)"
  obtains s' b' ys where "push_past p c s = Some s'" "sb_state s' b' ys" "ys \<noteq> []"
proof (cases "c < sb_cap s")
  case False
  with st ne show ?thesis by (intro that [of s b xs]) (simp_all add: push_past_def)
next
  case True
  have r: "rep s xs" and g: "good b xs" and l: "last_ok s b xs" and z: "sized s" using st by (simp_all add: sb_state_def)
  have a: "almost b xs" "\<not> missing (hd xs)" using g ne by (simp_all add: good_almost)
  note d = repD [OF r refl]
  note place = past_place [OF r ne c True]
  let ?t = "past_tail (past_index c s) s"
  show ?thesis
  proof (cases "c \<le> length xs")
    case inside: True
    let ?i = "length xs - c"
    have t: "?t = s" "past_index c s = (sb_tail s + ?i) mod length (sb_packets s)" "?i < length xs" using place(1) inside c ne by auto
    have slot: "sb_slot_at s (past_index c s) = Some (xs ! ?i)" using rep_slot [OF r, of ?i] t(2,3) d(4) by simp
    show ?thesis
    proof (cases "missing (xs ! ?i)")
      case False
      then have "push_past p c s = Some (s\<lparr>sb_released := sb_released s @ [p]\<rparr>)" using True t(1) slot by (auto simp: push_past_def missing_def)
      with st ne show ?thesis by (intro that [of "s\<lparr>sb_released := sb_released s @ [p]\<rparr>" b xs]) (auto simp: sb_state_def last_ok_def sized_def)
    next
      case miss: True
      have seq: "rp_SequenceNumber p = b + of_nat ?i" using p inside by (simp add: of_nat_diff)
      obtain s' ys ps where f:
        "do { r \<leftarrow> past_start p (past_index c s) s; e \<leftarrow> past_end p (past_index c s) (snd r);
              sb_set (past_index c s) \<lparr>sl_start = fst r, sl_end = fst e, sl_packet = Some p\<rparr> (snd e) } = Some s'"
        "s' = s\<lparr>sb_packets := ps\<rparr>" "rep s' ys" "good b ys" "length ys = length xs" "length ps = length (sb_packets s)"
        by (rule fill_rep [OF r a(1) t(3) miss disjI2 [OF a(2)] seq t(2)])
      have "push_past p c s = Some s'" using True t(1) slot miss f(1) by (simp add: push_past_def missing_def)
      moreover have "sb_state s' b ys" using f l z ne by (auto simp: sb_state_def last_ok_def sized_def)
      ultimately show ?thesis using that f(5) ne by fastforce
    qed
  next
    case False
    let ?m = "c - length xs" and ?b = "b - of_nat (c - length xs)"
    have t: "?t = s\<lparr>sb_tail := past_index c s\<rparr>" "past_index c s = (sb_tail s + (length (sb_packets s) - ?m)) mod length (sb_packets s)"
      using place(2) False by auto
    have m: "0 < ?m" "length xs + ?m < length (sb_packets s)" "?m \<le> 32766" using False True d(2) ne by (cases xs; simp add: sb_cap_def)+
    let ?xs = "replicate ?m no_packet @ xs"
    have r1: "rep ?t ?xs" unfolding t(1) by (rule rep_prepend [OF r m(2) t(2)])
    have a1: "almost ?b ?xs" by (rule almost_front [OF a(1) ne])
    have x0: "0 < length ?xs" "missing (?xs ! 0)" using m(1) ne by (auto simp: nth_append)
    have seq: "rp_SequenceNumber p = ?b + of_nat 0" using p False by (simp add: of_nat_diff)
    have idx: "past_index c s = (sb_tail ?t + 0) mod length (sb_packets ?t)" using t ring_index [OF r] by simp
    have slot: "sb_slot_at ?t (past_index c s) = Some no_packet" using rep_slot [OF r1, of 0] x0 idx t(1) d(1) m(1) by (cases "sb_packets s") (simp_all add: nth_append)
    obtain s' ys ps where f:
      "do { r \<leftarrow> past_start p (past_index c s) ?t; e \<leftarrow> past_end p (past_index c s) (snd r);
            sb_set (past_index c s) \<lparr>sl_start = fst r, sl_end = fst e, sl_packet = Some p\<rparr> (snd e) } = Some s'"
      "s' = ?t\<lparr>sb_packets := ps\<rparr>" "rep s' ys" "good ?b ys" "length ys = length ?xs" "length ps = length (sb_packets ?t)"
      by (rule fill_rep [OF r1 a1 x0 disjI1 [OF refl] seq idx])
    have "push_past p c s = Some s'" using True slot f(1) by (simp add: push_past_def Let_def no_packet_def)
    moreover have front: "\<exists>m. 0 < m \<and> m \<le> 32766 \<and> rp_SequenceNumber p = b - of_nat m"
      by (rule exI [of _ ?m]) (use m(1,3) seq in \<open>simp del: of_nat_diff\<close>)
    have "?b = rp_SequenceNumber p" using seq by simp
    then have "last_ok s' ?b ys" using new [OF _ front] f(2) t(1) by (simp add: last_ok_def)
    then have "sb_state s' ?b ys" using f z t(1) by (simp add: sb_state_def sized_def)
    ultimately show ?thesis using that f(5) ne by fastforce
  qed
qed

end
