(* ===== verification/SampleDelivery.thy ===== *)
theory SampleDelivery
  imports SampleFrames
begin

text \<open>
  The results on the sample builder: pushing and popping return and keep the invariant, what is popped is a whole frame, and the cases in which the code does not do what
  it means to.
\<close>

section \<open>Push\<close>

text \<open>
  A packet can be taken in without breaking the invariant: it is not so far ahead that making room for it would drop everything that is held.
\<close>

definition roomy :: "rtp_packet \<Rightarrow> SampleBuilder \<Rightarrow> bool" where
  "roomy p s =
     (case push_late p s of
        Some (True, t) \<Rightarrow>
          (case sb_at t (sb_dec t (sb_head t)) of
             None \<Rightarrow> True
           | Some q \<Rightarrow>
               let gap = unat (rp_SequenceNumber p - rp_SequenceNumber q - 1)
               in sb_head t = sb_tail t \<or> (rp_SequenceNumber p - rp_SequenceNumber q) AND 0x8000 \<noteq> 0 \<or>
                  rp_SequenceNumber p = rp_SequenceNumber q + 1 \<or> sb_cap t \<le> gap \<or>
                  (case make_room gap t of Some (ok, u) \<Rightarrow> ok \<and> sb_head u \<noteq> sb_tail u | None \<Rightarrow> False))
      | _ \<Rightarrow> True)"

lemma push_late_returns:
  assumes "sb_state s b xs"
  shows "\<exists>ok t. push_late p s = Some (ok, t) \<and> (\<not> ok \<longrightarrow> t = s)"
proof -
  have r: "rep s xs" and g: "good b xs" using assms by (simp_all add: sb_state_def)
  have "\<exists>q. sb_at s (sb_tail s) = Some q" if "sb_head s \<noteq> sb_tail s"
  proof -
    have "xs \<noteq> []" using that rep_empty [OF r] by auto
    then obtain x ys where xs: "xs = x # ys" by (cases xs) auto
    then show ?thesis using good_hd g rep_tail_slot r by (fastforce simp: sb_at_def)
  qed
  then obtain q where q: "sb_head s \<noteq> sb_tail s \<Longrightarrow> sb_at s (sb_tail s) = Some q" by blast
  show ?thesis
    by (cases "sb_head s = sb_tail s") (simp_all add: push_late_def Let_def q ex_bool_eq)
qed

lemma push_ignored: "push_late p s = Some (False, s) \<Longrightarrow> sb_Push p s = Some s"
  by (subst sb_Push.simps) simp

lemma push_on_empty:
  assumes "sb_state s b []"
  shows "\<exists>s' b' ys. sb_Push p s = Some s' \<and> sb_state s' b' ys"
proof -
  from push_late_returns [OF assms, of p] obtain ok t where t: "push_late p s = Some (ok, t)" "\<not> ok \<longrightarrow> t = s" by blast
  show ?thesis
  proof (cases ok)
    case True
    then have t1: "push_late p s = Some (True, t)" using t(1) by simp
    note late = push_late_state [OF assms t1]
    from push_empty_state [OF late(2)] late(3) obtain u x where u: "push_empty p t = Some u" "sb_state u (rp_SequenceNumber p) [x]" by blast
    have "sb_head t = sb_tail t" using late(2) rep_empty by (fastforce simp: sb_state_def)
    then have "sb_Push p s = Some u" using t(1) True u(1) by (subst sb_Push.simps) simp
    with u(2) show ?thesis by blast
  next
    case False
    with t assms push_ignored show ?thesis by auto
  qed
qed

lemma sb_Push_state:
  assumes st: "sb_state s b xs" and "roomy p s"
  shows "\<exists>s' b' ys. sb_Push p s = Some s' \<and> sb_state s' b' ys"
proof -
  from push_late_returns [OF st, of p] obtain ok t where t0: "push_late p s = Some (ok, t)" "\<not> ok \<longrightarrow> t = s" by blast
  show ?thesis
  proof (cases ok)
    case False
    with t0 st push_ignored show ?thesis by auto
  next
    case True
    with t0 have t: "push_late p s = Some (True, t)" by simp
    note late = push_late_state [OF st t]
    have r: "rep t xs" and g: "good b xs" and l: "last_ok t b xs" using late(2) by (simp_all add: sb_state_def)
    show ?thesis
    proof (cases "xs = []")
      case True
      have "sb_state s b []" using st True by simp
      then show ?thesis by (rule push_on_empty)
    next
      case ne: False
      from good_last [OF g ne] obtain q where q: "sl_packet (last xs) = Some q" "rp_SequenceNumber q = b + of_nat (length xs - 1)" by blast
      have at: "sb_at t (sb_dec t (sb_head t)) = Some q" using rep_last_slot [OF r ne] q(1) by (simp add: sb_at_def)
      have ht: "sb_head t \<noteq> sb_tail t" using rep_empty [OF r] ne by auto
      have len: "0 < length xs" "length xs < 32768" using ne repD(2,4) [OF r refl] by auto
      define gap where "gap = unat (rp_SequenceNumber p - rp_SequenceNumber q - 1)"
      have step: "sb_Push p s =
          (if rp_SequenceNumber p = rp_SequenceNumber q + 1 then push_next p t
           else if (rp_SequenceNumber p - rp_SequenceNumber q) AND 0x8000 = 0
           then if gap \<ge> sb_cap t then do { u \<leftarrow> sb_releaseAll t; sb_Push p u } else push_ahead p gap t
           else push_past p (unat (rp_SequenceNumber q - rp_SequenceNumber p + 1)) t)"
        using t at ht by (subst sb_Push.simps) (simp add: gap_def)
      have lst: "b + of_nat (length xs) = rp_SequenceNumber q + 1" using q(2) len by (simp add: of_nat_diff)
      consider (nxt) "rp_SequenceNumber p = rp_SequenceNumber q + 1"
        | (far) "rp_SequenceNumber p \<noteq> rp_SequenceNumber q + 1" "(rp_SequenceNumber p - rp_SequenceNumber q) AND 0x8000 = 0" "sb_cap t \<le> gap"
        | (ahead) "rp_SequenceNumber p \<noteq> rp_SequenceNumber q + 1" "(rp_SequenceNumber p - rp_SequenceNumber q) AND 0x8000 = 0" "gap < sb_cap t"
        | (past) "rp_SequenceNumber p \<noteq> rp_SequenceNumber q + 1" "(rp_SequenceNumber p - rp_SequenceNumber q) AND 0x8000 \<noteq> 0" by linarith
      then show ?thesis
      proof cases
        case nxt
        have "rp_SequenceNumber p = b + of_nat (length xs)" using nxt lst by simp
        then obtain u b' ys where "push_next p t = Some u" "sb_state u b' ys"
          by (rule push_next_state [OF late(2) ne]) (use l ne in \<open>simp add: last_ok_def\<close>)
        with step nxt show ?thesis by auto
      next
        case far
        from sb_releaseAll_rep [OF r goodD(1) [OF g] goodD(2) [OF g]] ne obtain u where
          u: "sb_releaseAll t = Some u" "shed t xs (length xs) u" by auto
        have "sb_state u (b + of_nat (length xs)) []" using shed_state [OF late(2) u(2)] by simp
        from push_on_empty [OF this, of p] obtain v b' ys where "sb_Push p u = Some v" "sb_state v b' ys" by blast
        with step far u(1) show ?thesis by auto
      next
        case ahead
        have pq: "rp_SequenceNumber p = rp_SequenceNumber q + 1 + of_nat gap" by (simp add: gap_def)
        then have pos: "0 < gap" using ahead(1) by (cases gap) auto
        have seq: "rp_SequenceNumber p = b + of_nat (length xs + gap)" using pq lst by (simp add: add.assoc [symmetric])
        from assms(2) t at ht ahead obtain u where "make_room gap t = Some (True, u)" "sb_head u \<noteq> sb_tail u"
          by (auto simp: roomy_def Let_def gap_def [symmetric] split: option.splits)
        then obtain v b' ys where "push_ahead p gap t = Some v" "sb_state v b' ys" by (rule push_ahead_state [OF late(2) ahead(3) seq pos])
        with step ahead show ?thesis by auto
      next
        case past
        let ?c = "unat (rp_SequenceNumber q - rp_SequenceNumber p + 1)"
        have "rp_SequenceNumber q - rp_SequenceNumber p + 1 = (rp_SequenceNumber q + 1) - rp_SequenceNumber p" by simp
        then have "rp_SequenceNumber q - rp_SequenceNumber p + 1 \<noteq> 0" using past(1) by (metis right_minus_eq)
        then have c: "0 < ?c" by (simp add: unat_gt_0)
        have seq: "rp_SequenceNumber p = b + of_nat (length xs) - of_nat ?c" using lst by simp
        have "after (rp_SequenceNumber p) (sb_lastSeqno t)" if "sb_lastSeqnoValid t" "\<exists>m. 0 < m \<and> m \<le> 32766 \<and> rp_SequenceNumber p = b - of_nat m"
          using late(3) that by blast
        from push_past_state [OF late(2) ne c seq this] obtain u b' ys where "push_past p ?c t = Some u" "sb_state u b' ys" by metis
        with step past show ?thesis by auto
      qed
    qed
  qed
qed


section \<open>Pop\<close>

text \<open>
  A run of packets is a frame of some slots: it is what consecutive slots hold, from a first one marked as the start to the first one marked as the end. It is whole when it
  also has one timestamp and no sequence number is missing.
\<close>

definition frame_of :: "sb_slot list \<Rightarrow> rtp_packet list \<Rightarrow> bool" where
  "frame_of ss ps \<longleftrightarrow>
     (\<exists>fs. fs \<noteq> [] \<and> set fs \<subseteq> set ss \<and> map sl_packet fs = map Some ps \<and> sl_start (hd fs) \<and> sl_end (last fs) \<and> (\<forall>x \<in> set (butlast fs). \<not> sl_end x))"

definition whole_frame :: "rtp_packet list \<Rightarrow> bool" where
  "whole_frame ps \<longleftrightarrow>
     ps \<noteq> [] \<and> (\<forall>i < length ps. rp_SequenceNumber (ps ! i) = rp_SequenceNumber (hd ps) + of_nat i) \<and>
     (\<forall>p \<in> set ps. rp_Timestamp p = rp_Timestamp (hd ps))"

lemma frame_of_mono: "frame_of ss ps \<Longrightarrow> set ss \<subseteq> set ts \<Longrightarrow> frame_of ts ps"
  unfolding frame_of_def by blast

lemma rep_subset: "rep s xs \<Longrightarrow> set xs \<subseteq> set (sb_packets s)"
proof
  fix x
  assume r: "rep s xs" and "x \<in> set xs"
  then obtain i where i: "i < length xs" "x = xs ! i" by (auto simp: in_set_conv_nth)
  then have "x = sb_packets s ! ((sb_tail s + i) mod length (sb_packets s))" using repD(7) [OF r refl, of i] repD(4) [OF r refl] by simp
  with ring_index [OF r] show "x \<in> set (sb_packets s)" by simp
qed

lemma end_present: "blanks xs \<Longrightarrow> x \<in> set xs \<Longrightarrow> sl_end x \<Longrightarrow> \<not> missing x"
  by (auto simp: blanks_def no_packet_def)

lemma find_end_rep:
  assumes r: "rep s xs"
  shows "i \<le> length xs \<Longrightarrow>
    find_end s ((sb_tail s + i) mod length (sb_packets s)) = Some MissingPacket \<or>
    find_end s ((sb_tail s + i) mod length (sb_packets s)) = Some (LastIndex (sb_head s)) \<or>
    (\<exists>j. i \<le> j \<and> j < length xs \<and> sl_end (xs ! j) \<and> (\<forall>m. i \<le> m \<and> m < j \<longrightarrow> \<not> sl_end (xs ! m) \<and> \<not> missing (xs ! m)) \<and>
       find_end s ((sb_tail s + i) mod length (sb_packets s)) = Some (LastIndex ((sb_tail s + j) mod length (sb_packets s))))"
proof (induction "length xs - i" arbitrary: i)
  case 0
  then have "i = length xs" by simp
  then show ?case using repD(5) [OF r refl] by (subst (2) find_end.simps) simp
next
  case (Suc d)
  let ?n = "length (sb_packets s)"
  let ?a = "(sb_tail s + i) mod ?n"
  note d = repD [OF r refl]
  have i: "i < length xs" "i < ?n" using Suc.hyps(2) d(4) by simp_all
  have ne: "?a \<noteq> sb_head s" using mod_index_eq [OF d(3) i(2) d(4)] i(1) d(5) by simp
  have slot: "sb_slot_at s ?a = Some (xs ! i)" using rep_slot [OF r i(2)] i(1) by simp
  have inc: "sb_inc s ?a = (sb_tail s + Suc i) mod ?n" using sb_inc_mod [OF ring_index [OF r]] by (simp add: mod_Suc_eq)
  have step: "find_end s ?a = (if sl_end (xs ! i) then Some (LastIndex ?a) else if missing (xs ! i) then Some MissingPacket
                               else find_end s ((sb_tail s + Suc i) mod ?n))"
    using ne slot inc by (subst find_end.simps) (simp add: missing_def)
  show ?case
  proof (cases "sl_end (xs ! i) \<or> missing (xs ! i)")
    case True
    then show ?thesis using step i(1) by (cases "sl_end (xs ! i)") (auto intro: exI [of _ i])
  next
    case False
    then have eq: "find_end s ?a = find_end s ((sb_tail s + Suc i) mod ?n)" using step by simp
    have "d = length xs - Suc i" "Suc i \<le> length xs" using Suc.hyps(2) i by simp_all
    from Suc.hyps(1) [OF this] show ?thesis
    proof (elim disjE exE conjE)
      fix j
      assume j: "Suc i \<le> j" "j < length xs" "sl_end (xs ! j)" "\<forall>m. Suc i \<le> m \<and> m < j \<longrightarrow> \<not> sl_end (xs ! m) \<and> \<not> missing (xs ! m)"
        "find_end s ((sb_tail s + Suc i) mod ?n) = Some (LastIndex ((sb_tail s + j) mod ?n))"
      have "\<forall>m. i \<le> m \<and> m < j \<longrightarrow> \<not> sl_end (xs ! m) \<and> \<not> missing (xs ! m)"
        using j(4) False by (metis le_antisym not_less_eq_eq)
      with j eq show ?thesis by (intro disjI2 exI [of _ j]) simp
    qed (simp_all add: eq)
  qed
qed

lemma frame_size:
  assumes r: "rep s xs" and j: "j < length xs" and l: "l = (sb_tail s + j) mod length (sb_packets s)"
  shows "(if l < sb_tail s then (length (sb_packets s) + l - sb_tail s + 1) mod 65536 else l - sb_tail s + 1) = Suc j"
  using repD(1-4) [OF r refl] j mod_once [of "sb_tail s" "length (sb_packets s)" j] unfolding l by (auto split: if_splits)

lemma take_frame_state:
  "sb_state s b xs \<Longrightarrow> m \<le> length xs \<Longrightarrow> \<forall>i < m. \<not> missing (xs ! i) \<Longrightarrow>
   \<exists>s' b' ys. take_frame m s = Some (map (the \<circ> sl_packet) (take m xs), s') \<and> sb_state s' b' ys \<and>
     (0 < m \<longrightarrow> sb_lastSeqnoValid s' \<and> sb_lastSeqno s' = b + of_nat (m - 1))"
proof (induction m arbitrary: s b xs)
  case 0
  then show ?case by auto
next
  case (Suc m)
  from Suc.prems(2) obtain x ys where xs: "xs = x # ys" by (cases xs) auto
  have r: "rep s (x # ys)" and g: "good b (x # ys)" using Suc.prems(1) xs by (simp_all add: sb_state_def)
  from good_hd [OF g] obtain p where p: "sl_packet x = Some p" "rp_SequenceNumber p = b" by blast
  have bl: "blanks ys" using goodD(1) [OF g] by (simp add: blanks_def)
  from sb_release_rep [OF r p(1) bl, of False] obtain s1 k where
    s1: "sb_release False s = Some (True, s1)" "shed s (x # ys) k s1" "sb_lastSeqno s1 = rp_SequenceNumber p" "\<forall>i < k. 0 < i \<longrightarrow> missing ((x # ys) ! i)" by metis
  have st1: "sb_state s1 (b + of_nat k) (drop k (x # ys))" using shed_state [OF _ s1(2)] Suc.prems(1) xs by simp
  have k: "0 < k" "sb_lastSeqnoValid s1" using s1(2) by (simp_all add: shed_def)
  have at: "sb_at s (sb_tail s) = Some p" using rep_tail_slot [OF r] p(1) by (simp add: sb_at_def)
  show ?case
  proof (cases "m = 0")
    case True
    then show ?thesis using st1 s1 k at p xs by auto
  next
    case False
    then have "\<not> missing ((x # ys) ! 1)" using Suc.prems(3) xs by auto
    then have "k = 1" using s1(4) [rule_format, of 1] k(1) by linarith
    with st1 have st2: "sb_state s1 (b + 1) ys" by simp
    moreover have "m \<le> length ys" "\<forall>i < m. \<not> missing (ys ! i)" using Suc.prems(2,3) xs by auto
    ultimately obtain s2 b' zs where s2: "take_frame m s1 = Some (map (the \<circ> sl_packet) (take m ys), s2)" "sb_state s2 b' zs"
      "sb_lastSeqnoValid s2" "sb_lastSeqno s2 = b + 1 + of_nat (m - 1)" using Suc.IH [of s1 "b + 1" ys] False by blast
    have "b + 1 + of_nat (m - 1) = b + of_nat (Suc m - 1)" using False by (simp add: of_nat_diff)
    with s2 show ?thesis using s1 at p xs by auto
  qed
qed


lemma frame_of_prefix:
  assumes g: "good b xs" and j: "j < length xs" "sl_end (xs ! j)" "\<forall>m < j. \<not> sl_end (xs ! m) \<and> \<not> missing (xs ! m)" and st: "sl_start (hd xs)"
  defines "ps \<equiv> map (the \<circ> sl_packet) (take (Suc j) xs)"
  shows "frame_of xs ps" "whole_frame ps" "sl_packet (hd xs) = Some (hd ps)" "rp_SequenceNumber (last ps) = b + of_nat j"
proof -
  have pres: "\<not> missing (xs ! i)" if "i \<le> j" for i
    using that j end_present [OF goodD(1) [OF g], of "xs ! j"] by (cases "i = j") auto
  have len: "length ps = Suc j" "ps \<noteq> []" using j(1) by (auto simp: ps_def)
  have pk: "sl_packet (xs ! i) = Some (ps ! i)" if "i \<le> j" for i
    using pres [OF that] that j(1) by (auto simp: ps_def missing_def)
  have seq: "rp_SequenceNumber (ps ! i) = b + of_nat i" if "i \<le> j" for i using goodD(4) [OF g _ pk [OF that]] that j(1) by simp
  have ne: "xs \<noteq> []" using j(1) by auto
  have h: "hd ps = ps ! 0" "hd xs = xs ! 0" using hd_conv_nth [OF len(2)] hd_conv_nth [OF ne] by simp_all
  have ts: "i \<le> j \<Longrightarrow> rp_Timestamp (ps ! i) = rp_Timestamp (ps ! 0)" for i
  proof (induction i)
    case (Suc i)
    then have "linked (xs ! i) (xs ! Suc i)" "\<not> sl_end (xs ! i)" using goodD(5) [OF g, of i] j by simp_all
    then have "rp_Timestamp (ps ! i) = rp_Timestamp (ps ! Suc i)" using pk [of i] pk [of "Suc i"] Suc.prems by (auto simp: linked_def)
    with Suc show ?case by simp
  qed simp
  have "rp_Timestamp q = rp_Timestamp (ps ! 0)" if "q \<in> set ps" for q
  proof -
    from that obtain i where "i < length ps" "q = ps ! i" by (auto simp: in_set_conv_nth)
    then show ?thesis using ts [of i] len(1) by simp
  qed
  moreover have "rp_SequenceNumber (ps ! i) = rp_SequenceNumber (ps ! 0) + of_nat i" if "i < length ps" for i
    using seq [of i] seq [of 0] that len(1) by simp
  ultimately show "whole_frame ps" unfolding whole_frame_def h using len(2) by blast
  show "sl_packet (hd xs) = Some (hd ps)" using pk [of 0] h by simp
  show "rp_SequenceNumber (last ps) = b + of_nat j" using seq [of j] len by (simp add: last_conv_nth)
  let ?fs = "take (Suc j) xs"
  have fs: "length ?fs = Suc j" "?fs \<noteq> []" using j(1) by auto
  have "map sl_packet ?fs = map Some ps" by (rule nth_equalityI) (use fs len pk in auto)
  moreover have "last ?fs = xs ! j" using fs by (simp add: last_conv_nth)
  moreover have "\<forall>x \<in> set (butlast ?fs). \<not> sl_end x" using j(1,3) by (auto simp: butlast_take in_set_conv_nth)
  moreover have "sl_start (hd ?fs)" using st by simp
  ultimately show "frame_of xs ps" unfolding frame_of_def using fs(2) j(2) by (intro exI [of _ ?fs]) (auto dest: in_set_takeD)
qed

definition popped :: "sb_slot list \<Rightarrow> (rtp_packet list \<times> u32) option \<Rightarrow> SampleBuilder \<Rightarrow> bool" where
  "popped xs r s' \<longleftrightarrow>
     (\<forall>ps ts. r = Some (ps, ts) \<longrightarrow>
        frame_of xs ps \<and> whole_frame ps \<and> ts = rp_Timestamp (hd ps) \<and> sb_lastSeqnoValid s' \<and> sb_lastSeqno s' = rp_SequenceNumber (last ps))"

lemma popped_mono: "popped xs r s' \<Longrightarrow> set xs \<subseteq> set ys \<Longrightarrow> popped ys r s'"
  unfolding popped_def using frame_of_mono by blast

lemma popped_None [simp]: "popped xs None s'"
  by (simp add: popped_def)

lemma pop_frame:
  assumes st: "sb_state s b xs" and x: "sl_start (hd xs)" and j: "j < length xs" "sl_end (xs ! j)" "\<forall>m < j. \<not> sl_end (xs ! m) \<and> \<not> missing (xs ! m)"
    and p: "sl_packet (hd xs) = Some p"
  shows "\<exists>ps s' b' ys. take_frame (Suc j) s = Some (ps, s') \<and> sb_state s' b' ys \<and> popped xs (Some (ps, rp_Timestamp p)) s' \<and> hd ps = p"
proof -
  have g: "good b xs" using st by (simp add: sb_state_def)
  note f = frame_of_prefix [OF g j x]
  have "\<forall>i < Suc j. \<not> missing (xs ! i)"
    using j end_present [OF goodD(1) [OF g], of "xs ! j"] by (auto simp: less_Suc_eq)
  then obtain s' b' ys where "take_frame (Suc j) s = Some (map (the \<circ> sl_packet) (take (Suc j) xs), s')" "sb_state s' b' ys"
    "sb_lastSeqnoValid s'" "sb_lastSeqno s' = b + of_nat j" using take_frame_state [OF st, of "Suc j"] j(1) by auto
  then show ?thesis using f p by (auto simp: popped_def)
qed

lemma popRtpPackets_state:
  "sb_state s b xs \<Longrightarrow> \<exists>r s' b' ys. popRtpPackets force s = Some (r, s') \<and> sb_state s' b' ys \<and> popped xs r s'"
proof (induction "length xs" arbitrary: s b xs rule: less_induct)
  case less
  note st = less.prems
  have r: "rep s xs" and g: "good b xs" using st by (simp_all add: sb_state_def)
  show ?case
  proof (cases xs)
    case Nil
    then show ?thesis using rep_empty [OF r] st by (subst popRtpPackets.simps) auto
  next
    case (Cons x ys)
    from good_hd g Cons obtain p where p: "sl_packet x = Some p" by blast
    from good_last [OF g] Cons obtain q where q: "sl_packet (last xs) = Some q" by blast
    have ne: "sb_tail s \<noteq> sb_head s" using rep_empty [OF r] Cons by simp
    have slot: "sb_slot_at s (sb_tail s) = Some x" using rep_tail_slot r Cons by simp
    have at: "sb_at s (sb_dec s (sb_head s)) = Some q" using rep_last_slot [OF r] q Cons by (simp add: sb_at_def)
    have again: "\<exists>r s' b' zs. do { d \<leftarrow> sb_drop s; popRtpPackets force (snd d) } = Some (r, s') \<and> sb_state s' b' zs \<and> popped xs r s'"
    proof -
      from sb_drop_state [of s b x ys] st Cons obtain k s1 ts where
        s1: "sb_drop s = Some ((True, ts), s1)" "sb_state s1 (b + of_nat k) (drop k xs)" "0 < k" by metis
      have "length (drop k xs) < length xs" using s1(3) Cons by simp
      from less.hyps [OF this s1(2)] obtain r' s2 b2 zs where
        "popRtpPackets force s1 = Some (r', s2)" "sb_state s2 b2 zs" "popped (drop k xs) r' s2" by blast
      with s1(1) popped_mono [OF _ set_drop_subset] show ?thesis by auto
    qed
    have stay: "\<exists>r s' b' zs. Some (None, s) = Some (r, s') \<and> sb_state s' b' zs \<and> popped xs r s'" using st by auto
    show ?thesis
    proof (cases "sl_start x")
      case False
      then show ?thesis using again stay ne slot at p by (subst popRtpPackets.simps) simp
    next
      case True
      have t0: "(sb_tail s + 0) mod length (sb_packets s) = sb_tail s" using repD(3) [OF r refl] by simp
      from find_end_rep [OF r, of 0] consider "find_end s (sb_tail s) = Some MissingPacket" | "find_end s (sb_tail s) = Some (LastIndex (sb_head s))"
        | j where "j < length xs" "sl_end (xs ! j)" "\<forall>m < j. \<not> sl_end (xs ! m) \<and> \<not> missing (xs ! m)"
            "find_end s (sb_tail s) = Some (LastIndex ((sb_tail s + j) mod length (sb_packets s)))" unfolding t0 by auto
      then show ?thesis
      proof cases
        case 1
        with True show ?thesis using again stay ne slot p by (subst popRtpPackets.simps) (cases force; simp)
      next
        case 2
        with True show ?thesis using stay ne slot p by (subst popRtpPackets.simps) simp
      next
        case (3 j)
        let ?l = "(sb_tail s + j) mod length (sb_packets s)"
        have l: "?l \<noteq> sb_head s" using mod_index_eq [OF repD(3) [OF r refl], of j "length xs"] 3(1) repD(4,5) [OF r refl] by simp
        from pop_frame [OF st _ 3(1-3)] True p Cons obtain ps s' b' zs where
          t: "take_frame (Suc j) s = Some (ps, s')" "sb_state s' b' zs" "popped xs (Some (ps, rp_Timestamp p)) s'" by auto
        note size = frame_size [OF r 3(1) refl]
        show ?thesis
          using True stay ne slot p 3(4) l t by (subst popRtpPackets.simps) (auto simp: size simp del: take_frame.simps)
      qed
    qed
  qed
qed


text \<open>Without force and without anything to drop, the frame follows directly on the last packet that was taken out.\<close>

lemma popRtpPackets_in_order:
  assumes st: "sb_state s b xs" and x: "sl_start (hd xs)" "xs \<noteq> []" and v: "sb_lastSeqnoValid s"
    and pop: "popRtpPackets False s = Some (Some (ps, ts), s')"
  shows "rp_SequenceNumber (hd ps) = sb_lastSeqno s + 1"
proof -
  have r: "rep s xs" and g: "good b xs" using st by (simp_all add: sb_state_def)
  obtain y ys where xs: "xs = y # ys" using x(2) by (cases xs) auto
  from good_hd g xs obtain p where p: "sl_packet y = Some p" by blast
  have slot: "sb_slot_at s (sb_tail s) = Some y" "sb_tail s \<noteq> sb_head s" using rep_tail_slot r xs rep_empty [OF r] by simp_all
  have t0: "(sb_tail s + 0) mod length (sb_packets s) = sb_tail s" using repD(3) [OF r refl] by simp
  from find_end_rep [OF r, of 0] consider "find_end s (sb_tail s) = Some MissingPacket" | "find_end s (sb_tail s) = Some (LastIndex (sb_head s))"
    | j where "j < length xs" "find_end s (sb_tail s) = Some (LastIndex ((sb_tail s + j) mod length (sb_packets s)))" unfolding t0 by auto
  then show ?thesis
  proof cases
    case (3 j)
    note size = frame_size [OF r 3(1) refl]
    from pop slot p x(1) xs v 3 show ?thesis
      by (subst (asm) popRtpPackets.simps) (auto simp: size sb_at_def split: if_splits bind_splits)
  qed (use pop slot p x(1) xs in \<open>subst (asm) popRtpPackets.simps, simp split: if_splits\<close>)+
qed

section \<open>The check of the source\<close>

lemma linked_other_frame: "linked x y \<Longrightarrow> sl_packet y = Some q \<Longrightarrow> \<not> sl_start y \<Longrightarrow> \<not> other_frame q x"
  "linked x y \<Longrightarrow> sl_packet x = Some p \<Longrightarrow> \<not> sl_end x \<Longrightarrow> \<not> other_frame p y"
  by (auto simp: linked_def other_frame_def split: option.split)

lemma check_slots_rep:
  assumes r: "rep s xs" and g: "good b xs"
  shows "i + n = length xs \<Longrightarrow> check_slots n i b s = Some None"
proof (induction n arbitrary: i)
  case (Suc n)
  let ?n = "length (sb_packets s)"
  let ?a = "(sb_tail s + i) mod ?n"
  note d = repD [OF r refl]
  have i: "i < length xs" "i < ?n" using Suc.prems d(4) by simp_all
  have idx: "((sb_tail s + i) mod 65536) mod ?n = ?a" using d(2,3) i(2) by simp
  have slot: "sb_slot_at s ?a = Some (xs ! i)" using rep_slot [OF r i(2)] i(1) by simp
  have IH: "check_slots n (i + 1) b s = Some None" using Suc.IH [of "i + 1"] Suc.prems by simp
  note nb = ring_neighbours [OF r i(1)]
  show ?case
  proof (cases "sl_packet (xs ! i)")
    case None
    then show ?thesis using slot IH idx by (simp add: Let_def)
  next
    case (Some p)
    have "(if ?a \<noteq> sb_tail s \<and> \<not> sl_start (xs ! i) then map_option (other_frame p) (sb_slot_at s (sb_dec s ?a)) else Some False) = Some False"
    proof (cases "i = 0")
      case True
      then show ?thesis using d(3) by simp
    next
      case False
      then have "sb_slot_at s (sb_dec s ?a) = Some (xs ! (i - 1))" using nb rep_slot [OF r, of "i - 1"] i by simp
      moreover have "linked (xs ! (i - 1)) (xs ! i)" using goodD(5) [OF g, of "i - 1"] i False by simp
      ultimately show ?thesis using linked_other_frame(1) [OF _ Some] by auto
    qed
    moreover have "(if ?a \<noteq> sb_dec s (sb_head s) \<and> \<not> sl_end (xs ! i) then map_option (other_frame p) (sb_slot_at s (sb_inc s ?a)) else Some False) = Some False"
    proof (cases "Suc i < length xs")
      case True
      then have "sb_slot_at s (sb_inc s ?a) = Some (xs ! Suc i)" using nb rep_slot [OF r, of "Suc i"] d(4) by simp
      moreover have "linked (xs ! i) (xs ! Suc i)" using goodD(5) [OF g True] .
      ultimately show ?thesis using linked_other_frame(2) [OF _ Some] by auto
    next
      case False
      then have "i = length xs - 1" "xs \<noteq> []" using i(1) by auto
      then show ?thesis using rep_dec_head [OF r] by simp
    qed
    ultimately show ?thesis using slot IH idx Some goodD(4) [OF g i(1) Some] by (simp add: Let_def)
  qed
qed simp

lemma check_outside_rep:
  assumes r: "rep s xs"
  shows "length xs \<le> i \<Longrightarrow> i \<le> length (sb_packets s) \<Longrightarrow> check_outside ((sb_tail s + i) mod length (sb_packets s)) s = Some None"
proof (induction "length (sb_packets s) - i" arbitrary: i)
  case 0
  then have "(sb_tail s + i) mod length (sb_packets s) = sb_tail s" using repD(3) [OF r refl] by simp
  then show ?case by (subst check_outside.simps) simp
next
  case (Suc k)
  let ?n = "length (sb_packets s)"
  have i: "i < ?n" using Suc.hyps(2) by simp
  have slot: "sb_slot_at s ((sb_tail s + i) mod ?n) = Some no_packet" using rep_slot [OF r i] Suc.prems(1) by simp
  have inc: "sb_inc s ((sb_tail s + i) mod ?n) = (sb_tail s + Suc i) mod ?n" using sb_inc_mod [OF ring_index [OF r]] by (simp add: mod_Suc_eq)
  have "check_outside ((sb_tail s + Suc i) mod ?n) s = Some None" using Suc.hyps(1) [of "Suc i"] Suc.hyps(2) Suc.prems(1) i by simp
  then show ?case using slot inc by (subst check_outside.simps) (simp add: no_packet_def)
qed

lemma sb_check_ok:
  assumes "sb_inv s"
  shows "sb_check s = Some None"
proof -
  from assms obtain b xs where st: "sb_state s b xs" by (auto simp: sb_inv_def)
  then have r: "rep s xs" and g: "good b xs" and l: "last_ok s b xs" by (simp_all add: sb_state_def)
  show ?thesis
  proof (cases xs)
    case Nil
    then show ?thesis using rep_empty [OF r] by (simp add: sb_check_def)
  next
    case (Cons x ys)
    from good_hd g Cons obtain p where p: "sl_packet x = Some p" "rp_SequenceNumber p = b" by blast
    from good_last [OF g] Cons obtain q where q: "sl_packet (last xs) = Some q" by blast
    have slots: "sb_slot_at s (sb_tail s) = Some x" "sb_slot_at s (sb_dec s (sb_head s)) = Some (last xs)"
      using rep_tail_slot r rep_last_slot [OF r] Cons by simp_all
    have "sb_lastSeqnoValid s \<Longrightarrow> \<not> (b - sb_lastSeqno s = 0 \<or> (b - sb_lastSeqno s) AND 0x8000 \<noteq> 0)"
      using l Cons by (auto simp: last_ok_def after_def and_top_bit16)
    moreover have "check_slots (sb_length s) 0 b s = Some None" using check_slots_rep [OF r g] rep_length [OF r] by simp
    moreover have "check_outside (sb_head s) s = Some None" using check_outside_rep [OF r, of "length xs"] repD(4,5) [OF r refl] by simp
    moreover have "sb_head s \<noteq> sb_tail s" using rep_empty [OF r] Cons by auto
    ultimately show ?thesis using slots p q unfolding sb_check_def Let_def by auto
  qed
qed

section \<open>Runs\<close>

lemma unmarshal_all_rep:
  "unmarshal_all ps acc s = (r, s') \<Longrightarrow> sb_state s b xs \<Longrightarrow> sb_state s' b xs"
proof (induction ps arbitrary: acc s)
  case (Cons p ps)
  from Cons.prems(2) have "sb_state (s\<lparr>sb_unmarshalled := u, sb_released := v\<rparr>) b xs" "sb_state (s\<lparr>sb_released := v\<rparr>) b xs" for u v
    by (simp_all add: sb_state_def last_ok_def sized_def)
  with Cons show ?case by (cases acc) auto
qed simp

lemma popSample_state:
  assumes "sb_state s b xs"
  shows "\<exists>r s' b' ys. popSample force s = Some (r, s') \<and> sb_state s' b' ys"
proof -
  from popRtpPackets_state [OF assms, of force] obtain r s1 b1 ys where r: "popRtpPackets force s = Some (r, s1)" "sb_state s1 b1 ys" by blast
  show ?thesis
  proof (cases r)
    case (Some pt)
    obtain d s2 where d: "unmarshal_all (fst pt) (Some []) s1 = (d, s2)" by fastforce
    from unmarshal_all_rep [OF this r(2)] have "sb_state s2 b1 ys" "sb_state (s2\<lparr>sb_lastTimestampValid := True, sb_lastTimestamp := u\<rparr>) b1 ys" for u
      by (simp_all add: sb_state_def last_ok_def sized_def)
    with r d Some show ?thesis by (cases d) (auto simp: popSample_def Let_def split_beta)
  qed (use r in \<open>auto simp: popSample_def\<close>)
qed

datatype sb_op = Feed rtp_packet | TakePackets bool | TakeSample bool

fun sb_step :: "sb_op \<Rightarrow> SampleBuilder \<Rightarrow> (rtp_packet list \<times> SampleBuilder) option" where
  "sb_step (Feed p) s = map_option (Pair []) (sb_Push p s)"
| "sb_step (TakePackets force) s = (if force then ForcePopPackets s else PopPackets s)"
| "sb_step (TakeSample force) s = map_option (\<lambda>r. ([], snd r)) (if force then ForcePopWithTimestamp s else PopWithTimestamp s)"

fun sb_run :: "sb_op list \<Rightarrow> SampleBuilder \<Rightarrow> (rtp_packet list list \<times> SampleBuilder) option" where
  "sb_run [] s = Some ([], s)"
| "sb_run (a # ops) s = do { r \<leftarrow> sb_step a s; t \<leftarrow> sb_run ops (snd r); Some (fst r # fst t, snd t) }"

text \<open>Every packet that is pushed in the course of a run finds room.\<close>

fun roomy_run :: "sb_op list \<Rightarrow> SampleBuilder \<Rightarrow> bool" where
  "roomy_run [] s = True"
| "roomy_run (a # ops) s =
     ((case a of Feed p \<Rightarrow> roomy p s | _ \<Rightarrow> True) \<and> (case sb_step a s of Some r \<Rightarrow> roomy_run ops (snd r) | None \<Rightarrow> True))"

definition frame_or_nothing :: "rtp_packet list \<Rightarrow> bool" where
  "frame_or_nothing ps \<longleftrightarrow> ps = [] \<or> whole_frame ps"

lemma sb_step_inv:
  assumes inv: "sb_inv s" and room: "case a of Feed p \<Rightarrow> roomy p s | _ \<Rightarrow> True"
  shows "\<exists>ps s'. sb_step a s = Some (ps, s') \<and> sb_inv s' \<and> frame_or_nothing ps"
proof -
  from inv obtain b xs where st: "sb_state s b xs" by (auto simp: sb_inv_def)
  have pops: "\<exists>ps s'. map_option (\<lambda>(r, s). (case r of None \<Rightarrow> [] | Some (ps, _) \<Rightarrow> ps, s)) (popRtpPackets force s) = Some (ps, s') \<and> sb_inv s' \<and> frame_or_nothing ps" for force
  proof -
    from popRtpPackets_state [OF st, of force] obtain r s' b' ys where
      "popRtpPackets force s = Some (r, s')" "sb_state s' b' ys" "popped xs r s'" by blast
    then show ?thesis by (auto simp: sb_inv_def popped_def frame_or_nothing_def split: option.split)
  qed
  show ?thesis
  proof (cases a)
    case (Feed p)
    with sb_Push_state [OF st, of p] room show ?thesis by (auto simp: sb_inv_def frame_or_nothing_def)
  next
    case (TakePackets force)
    with pops [of force] show ?thesis by (cases force) (simp_all add: PopPackets_def ForcePopPackets_def)
  next
    case (TakeSample force)
    from popSample_state [OF st, of force] obtain r s' b' ys where "popSample force s = Some (r, s')" "sb_state s' b' ys" by blast
    with TakeSample show ?thesis by (cases force) (auto simp: sb_inv_def frame_or_nothing_def PopWithTimestamp_def ForcePopWithTimestamp_def)
  qed
qed

lemma sb_New_inv: "maxLate \<le> 16383 \<Longrightarrow> sb_state (sb_New maxLate codec rate) 0 []"
proof -
  assume "maxLate \<le> 16383"
  define m where "m = (if maxLate < 2 then 2 else maxLate)"
  have m: "2 \<le> unat m" "unat m \<le> 16383" using \<open>maxLate \<le> 16383\<close> by (auto simp: m_def word_le_nat_alt word_less_nat_alt)
  then have "unat (2 * m + 1) = 2 * unat m + 1" by (simp add: unat_word_ariths)
  moreover have "\<not> m > 0x7FFF" using m by (simp add: word_less_nat_alt)
  moreover have "(no_packet # replicate k no_packet) ! i = no_packet" if "i < Suc k" for i k using that by (cases i) simp_all
  ultimately show ?thesis using m
    by (simp add: sb_New_def Let_def m_def [symmetric] sb_state_def rep_def good_def blanks_def last_ok_def sized_def)
qed


lemma sb_run_inv:
  "sb_inv s \<Longrightarrow> roomy_run ops s \<Longrightarrow> \<exists>outs s'. sb_run ops s = Some (outs, s') \<and> sb_inv s' \<and> (\<forall>ps \<in> set outs. frame_or_nothing ps)"
proof (induction ops arbitrary: s)
  case (Cons a ops)
  from Cons.prems sb_step_inv [of s a] obtain ps s1 where
    s1: "sb_step a s = Some (ps, s1)" "sb_inv s1" "frame_or_nothing ps" by auto
  from Cons.prems(2) s1(1) have "roomy_run ops s1" by simp
  from Cons.IH [OF s1(2) this] s1 show ?case by auto
qed simp

section \<open>Streams without loss\<close>

text \<open>One packet that is a frame by itself, pushed into an empty builder in the right order, comes out at once.\<close>

lemma in_order_not_late:
  assumes "sb_state s b []" "sb_lastSeqnoValid s \<Longrightarrow> rp_SequenceNumber p = sb_lastSeqno s + 1"
  shows "push_late p s = Some (True, s)"
proof (cases "sb_lastSeqnoValid s")
  case True
  let ?m = "sb_maxLate s"
  have seq: "rp_SequenceNumber p = sb_lastSeqno s + 1" using assms(2) True by blast
  have m: "2 \<le> unat ?m" "unat ?m \<le> 16383" using assms(1) by (simp_all add: sb_state_def sized_def)
  have e: "sb_lastSeqno s - rp_SequenceNumber p = - 1" "rp_SequenceNumber p - ?m - sb_lastSeqno s = of_nat 1 - of_nat (unat ?m)"
    using seq by simp_all
  have "unat (of_nat 1 - of_nat (unat ?m) :: u16) = 65537 - unat ?m" using m by (subst unat_diff_of_nat) simp_all
  then have "\<not> (rp_SequenceNumber p - ?m - sb_lastSeqno s) AND 0x8000 = 0" unfolding e and_top_bit16 using m by simp
  moreover have "\<not> (sb_lastSeqno s - rp_SequenceNumber p) AND 0x8000 = 0" unfolding e by simp
  ultimately show ?thesis using True by (simp add: push_late_def Let_def)
qed (simp add: push_late_def Let_def)

lemma single_frame_step:
  assumes st: "sb_state s b []" and f: "sb_isStart s p" "sb_isEnd s p"
    and o: "sb_lastSeqnoValid s \<Longrightarrow> rp_SequenceNumber p = sb_lastSeqno s + 1"
  obtains u s' where "sb_Push p s = Some u" "PopPackets u = Some ([p], s')" "sb_state s' (rp_SequenceNumber p + 1) []" "same_config s s'"
    "sb_lastSeqno s' = rp_SequenceNumber p" "sb_lastSeqnoValid s'"
proof -
  let ?x = "\<lparr>sl_start = True, sl_end = True, sl_packet = Some p\<rparr>"
  define u where "u = s\<lparr>sb_packets := (sb_packets s)[0 := ?x], sb_tail := 0, sb_head := 1\<rparr>"
  have r: "rep s []" using st by (simp add: sb_state_def)
  have len: "0 < length (sb_packets s)" using repD(1) [OF r refl] by linarith
  have pe: "push_empty p s = Some u" using f len by (simp add: push_empty_def sb_set_def u_def)
  have push: "sb_Push p s = Some u"
    using in_order_not_late [OF st o] rep_empty [OF r] pe by (subst sb_Push.simps) simp
  have "sb_lastSeqnoValid s \<Longrightarrow> after (rp_SequenceNumber p) (sb_lastSeqno s)" using o by (simp add: after_def)
  from push_empty_state [OF st this] pe obtain x where ux: "sb_state u (rp_SequenceNumber p) [x]" by auto
  then have ru: "rep u [x]" by (simp add: sb_state_def)
  have slot: "sb_slot_at u (sb_tail u) = Some ?x" using len by (simp add: sb_slot_at_def u_def)
  then have x: "x = ?x" using rep_tail_slot [OF ru] by simp
  have "blanks []" by (simp add: blanks_def)
  from sb_release_rep [OF ru _ this, of p False] x obtain s' k where
    s': "sb_release False u = Some (True, s')" "shed u [x] k s'" "sb_lastSeqno s' = rp_SequenceNumber p" by (metis sb_slot.select_convs(3))
  then have k: "k = 1" "same_config u s'" "sb_lastSeqnoValid s'" by (auto simp: shed_def)
  have "find_end u (sb_tail u) = Some (LastIndex (sb_tail u))" using slot rep_empty [OF ru] by (subst find_end.simps) simp
  moreover have "take_frame (Suc 0) u = Some ([p], s')" using slot s'(1) by (simp add: sb_at_def)
  moreover have "sb_tail u \<noteq> sb_head u" "sb_lastSeqnoValid u \<Longrightarrow> sb_lastSeqno u + 1 = rp_SequenceNumber p"
    using o by (simp_all add: u_def)
  ultimately have "popRtpPackets False u = Some (Some ([p], rp_Timestamp p), s')"
    using slot by (subst popRtpPackets.simps) (auto simp del: take_frame.simps)
  moreover have "same_config s u" by (simp add: u_def same_config_def)
  moreover have "sb_state s' (rp_SequenceNumber p + 1) []" using shed_state [OF ux s'(2)] k by simp
  ultimately show ?thesis using that [of u s'] push s' k same_config_trans by (simp add: PopPackets_def)
qed

definition in_sequence :: "rtp_packet list \<Rightarrow> bool" where
  "in_sequence ps \<longleftrightarrow> (\<forall>i. Suc i < length ps \<longrightarrow> rp_SequenceNumber (ps ! Suc i) = rp_SequenceNumber (ps ! i) + 1)"

definition single_packet_frames :: "sample_codec \<Rightarrow> bool" where
  "single_packet_frames c \<longleftrightarrow> (\<forall>pl. IsPartitionHead (sc_partitions c) pl) \<and> (\<forall>mk pl. IsPartitionTail (sc_partitions c) mk pl)"

lemma track_loop_delivers:
  "sb_state s b [] \<Longrightarrow> single_packet_frames (sb_codec s) \<Longrightarrow> in_sequence ps \<Longrightarrow>
   (ps \<noteq> [] \<Longrightarrow> sb_lastSeqnoValid s \<Longrightarrow> rp_SequenceNumber (hd ps) = sb_lastSeqno s + 1) \<Longrightarrow>
   \<exists>s'. track_loop ps s = Some (ps, s')"
proof (induction ps arbitrary: s b)
  case (Cons p ps)
  have "sb_isStart s p" "sb_isEnd s p" using Cons.prems(2) by (simp_all add: single_packet_frames_def sb_isStart_def sb_isEnd_def)
  moreover have "rp_SequenceNumber p = sb_lastSeqno s + 1" if "sb_lastSeqnoValid s" using Cons.prems(4) that by simp
  ultimately obtain u s' where
    s': "sb_Push p s = Some u" "PopPackets u = Some ([p], s')" "sb_state s' (rp_SequenceNumber p + 1) []" "same_config s s'"
      "sb_lastSeqno s' = rp_SequenceNumber p" using single_frame_step [OF Cons.prems(1)] by blast
  have "in_sequence ps" "ps \<noteq> [] \<Longrightarrow> rp_SequenceNumber (hd ps) = rp_SequenceNumber p + 1"
    using Cons.prems(3) by (auto simp: in_sequence_def hd_conv_nth)
  moreover have "single_packet_frames (sb_codec s')" using Cons.prems(2) s'(4) by (simp add: same_config_def)
  ultimately obtain t where "track_loop ps s' = Some (ps, t)" using Cons.IH [OF s'(3)] s'(5) by auto
  with s' show ?case by simp
qed simp

section \<open>Properties\<close>

text \<open>A codec in which every packet is a frame, as Opus, and packets for examples.\<close>

definition opus_like :: sample_codec where
  "opus_like = \<lparr>sc_partitions = \<lparr>IsPartitionHead = \<lambda>_. True, IsPartitionTail = \<lambda>_ _. True\<rparr>, sc_Unmarshal = \<lambda>_ pl. Some pl, sc_duration = \<lambda>_ _. 0\<rparr>"

definition marked :: sample_codec where
  "marked = \<lparr>sc_partitions = \<lparr>IsPartitionHead = \<lambda>pl. pl = [0], IsPartitionTail = \<lambda>mk _. mk\<rparr>, sc_Unmarshal = \<lambda>_ pl. Some pl, sc_duration = \<lambda>_ _. 0\<rparr>"

definition pkt :: "u16 \<Rightarrow> u32 \<Rightarrow> bool \<Rightarrow> bytes \<Rightarrow> rtp_packet" where
  "pkt n t mk pl = \<lparr>rp_SequenceNumber = n, rp_Timestamp = t, rp_Marker = mk, rp_Payload = pl\<rparr>"

definition demo_ops :: "sb_op list" where
  "demo_ops = [Feed (pkt 3 7 False [0]), Feed (pkt 5 7 True [2]), TakePackets False, Feed (pkt 4 7 False [1])]"

lemma bind_case: "Option.bind x f = (case x of None \<Rightarrow> None | Some a \<Rightarrow> f a)"
  by (cases x) simp_all

text \<open>Equations that evaluate the builder; the case distinctions keep the simplifier from unfolding a recursion before its turn.\<close>

lemmas sb_eval = sb_Push.simps [unfolded bind_case] skip_missing.simps [unfolded bind_case] sb_releaseAll.simps [unfolded bind_case]
  drop_rest.simps [unfolded bind_case] make_room.simps [unfolded bind_case] find_end.simps [unfolded bind_case] popRtpPackets.simps [unfolded bind_case]
  take_frame.simps [unfolded bind_case] sb_run.simps [unfolded bind_case]
  sb_release_def [unfolded bind_case] sb_drop_def [unfolded bind_case] push_late_def [unfolded bind_case] push_empty_def [unfolded bind_case]
  push_next_def [unfolded bind_case] push_ahead_def [unfolded bind_case] past_start_def [unfolded bind_case] past_end_def [unfolded bind_case]
  push_past_def [unfolded bind_case] past_index_def past_tail_def sb_at_def [unfolded bind_case] sb_set_def sb_slot_at_def sb_length_def sb_cap_def
  sb_inc_def sb_dec_def sb_isStart_def sb_isEnd_def PopPackets_def ForcePopPackets_def no_packet_def

lemma sb_New_small:
  "sb_New 2 c r = \<lparr>sb_packets = [no_packet, no_packet, no_packet, no_packet, no_packet], sb_head = 0, sb_tail = 0, sb_maxLate = 2, sb_codec = c,
     sb_sampleRate = r, sb_lastSeqnoValid = False, sb_lastSeqno = 0, sb_lastTimestampValid = False, sb_lastTimestamp = 0,
     sb_released = [], sb_drops = 0, sb_unmarshalled = []\<rparr>"
proof -
  have "replicate 5 no_packet = [no_packet, no_packet, no_packet, no_packet, no_packet]" by (simp add: numeral_eq_Suc)
  then show ?thesis by (simp add: sb_New_def Let_def)
qed

lemma demo_roomy: "roomy_run demo_ops (sb_New 2 marked 48000)"
  by (simp add: demo_ops_def sb_New_small roomy_def sb_eval marked_def pkt_def)

text \<open>
  C12. With a \<open>maxLate\<close> of at most 16383, whatever packets are pushed, in whatever order, and whenever frames or samples are taken out, forced or not: as long as every packet finds room the builder
  never panics and never hangs, its own consistency check finds nothing wrong, and each list of packets it hands out is empty or a whole frame, with consecutive sequence numbers and one
  timestamp.
\<close>

theorem sample_builder_safe:
  assumes "maxLate \<le> 16383" "roomy_run ops (sb_New maxLate codec rate)"
  shows "\<exists>outs s. sb_run ops (sb_New maxLate codec rate) = Some (outs, s) \<and> sb_check s = Some None \<and> (\<forall>ps \<in> set outs. ps = [] \<or> whole_frame ps)"
proof -
  have "sb_inv (sb_New maxLate codec rate)" using sb_New_inv [OF assms(1)] by (auto simp: sb_inv_def)
  from sb_run_inv [OF this assms(2)] show ?thesis using sb_check_ok by (auto simp: frame_or_nothing_def)
qed

theorem sample_builder_safe_witness:
  "\<exists>outs s. sb_run demo_ops (sb_New 2 marked 48000) = Some (outs, s) \<and> sb_check s = Some None \<and> (\<forall>ps \<in> set outs. ps = [] \<or> whole_frame ps)"
  by (rule sample_builder_safe) (simp_all add: demo_roomy)

text \<open>
  C18. After any such run, again with a \<open>maxLate\<close> of at most 16383, the next frame that is taken out is what consecutive slots of the builder hold, from one marked as a
  start to the first one marked as an end; it has one timestamp and no gap, and the builder notes its last number. It follows directly on the last packet that was taken out or
  dropped if nothing is forced, there was such a packet and the first slot starts a frame; otherwise packets may have been given up before it.
\<close>

theorem sample_frames_whole:
  assumes "maxLate \<le> 16383" "roomy_run ops (sb_New maxLate codec rate)" "sb_run ops (sb_New maxLate codec rate) = Some (outs, s)"
  shows "\<exists>r s'. popRtpPackets force s = Some (r, s') \<and>
    (\<forall>ps ts. r = Some (ps, ts) \<longrightarrow>
       frame_of (sb_packets s) ps \<and> whole_frame ps \<and> ts = rp_Timestamp (hd ps) \<and> sb_lastSeqno s' = rp_SequenceNumber (last ps) \<and>
       (\<not> force \<and> sb_lastSeqnoValid s \<and> map_option sl_start (sb_slot_at s (sb_tail s)) = Some True \<longrightarrow>
          rp_SequenceNumber (hd ps) = sb_lastSeqno s + 1))"
proof -
  have "sb_inv (sb_New maxLate codec rate)" using sb_New_inv [OF assms(1)] by (auto simp: sb_inv_def)
  from sb_run_inv [OF this assms(2)] assms(3) obtain b xs where st: "sb_state s b xs" by (auto simp: sb_inv_def)
  then have r: "rep s xs" by (simp add: sb_state_def)
  from popRtpPackets_state [OF st, of force] obtain q s' where q: "popRtpPackets force s = Some (q, s')" "popped xs q s'" by blast
  have "frame_of (sb_packets s) ps" if "frame_of xs ps" for ps using frame_of_mono [OF that rep_subset [OF r]] .
  moreover have "rp_SequenceNumber (hd ps) = sb_lastSeqno s + 1"
    if "q = Some (ps, ts)" "\<not> force" "sb_lastSeqnoValid s" "map_option sl_start (sb_slot_at s (sb_tail s)) = Some True" for ps ts
  proof -
    have "xs \<noteq> []" using q(1) that(1) rep_empty [OF r] by (subst (asm) popRtpPackets.simps) auto
    then have "sl_start (hd xs)" using that(4) rep_tail_slot [of s "hd xs" "tl xs"] r by auto
    with popRtpPackets_in_order [OF st] \<open>xs \<noteq> []\<close> q(1) that show ?thesis by simp
  qed
  ultimately show ?thesis using q by (auto simp: popped_def)
qed

theorem sample_frames_whole_witness:
  "\<exists>outs s. sb_run demo_ops (sb_New 2 marked 48000) = Some (outs, s) \<and>
     (\<exists>r s'. popRtpPackets False s = Some (r, s') \<and> (\<forall>ps ts. r = Some (ps, ts) \<longrightarrow> frame_of (sb_packets s) ps \<and> whole_frame ps) \<and> r \<noteq> None)"
proof -
  obtain outs s r s' where s: "sb_run demo_ops (sb_New 2 marked 48000) = Some (outs, s)" "popRtpPackets False s = Some (Some r, s')"
    by (simp add: demo_ops_def sb_New_small sb_eval marked_def pkt_def)
  have "(2 :: u16) \<le> 16383" by simp
  from sample_frames_whole [OF this demo_roomy s(1), of False] s show ?thesis by auto
qed

text \<open>
  C19. A stream without losses in which every packet is a frame, as the audio of the examples, passes the subscriber's loop unchanged: every packet is written, in
  order, and across the wrap-around of the sequence numbers.
\<close>

theorem audio_stream_delivered:
  assumes "maxLate \<le> 16383" "single_packet_frames codec" "in_sequence pkts"
  shows "\<exists>s. track_loop pkts (sb_New maxLate codec rate) = Some (pkts, s)"
  using track_loop_delivers [OF sb_New_inv [OF assms(1)] _ assms(3)] assms(2) by (simp add: sb_New_def Let_def)

theorem audio_stream_delivered_witness:
  "\<exists>s. track_loop [pkt 65534 0 False [1], pkt 65535 960 False [2], pkt 0 1920 False [3]] (sb_New 200 opus_like 48000) =
         Some ([pkt 65534 0 False [1], pkt 65535 960 False [2], pkt 0 1920 False [3]], s)"
  by (rule audio_stream_delivered) (auto simp: single_packet_frames_def opus_like_def in_sequence_def pkt_def nth_Cons less_Suc_eq)


section \<open>A packet far ahead\<close>

lemma rep_all_empty: "rep s [] \<Longrightarrow> sb_packets s = replicate (length (sb_packets s)) no_packet"
proof (rule nth_equalityI)
  fix i
  assume "rep s []" "i < length (sb_packets s)"
  then show "sb_packets s ! i = replicate (length (sb_packets s)) no_packet ! i"
    using repD(7) [OF rep_reset [of s] refl, of i] by simp
qed simp

text \<open>
  A builder that holds a single frame and is given a packet so far ahead that the frame has to go: the frame is dropped, the packet is stored at its distance from an
  empty ring, and the tail stays at an empty slot.
\<close>

lemma push_ahead_breaks:
  assumes m: "sb_cap s = c" "length (sb_packets s) = c + 1" "4 \<le> c" "c < 32768"
    and s: "sb_packets s = (replicate (c + 1) no_packet)[0 := x]" "sl_packet x = Some q" "sb_tail s = 0" "sb_head s = 1"
  obtains t where "push_ahead p (c - 2) s = Some t" "sb_packets t ! 0 = no_packet" "sb_tail t = 0" "sb_head t = c - 1" "length (sb_packets t) = c + 1"
proof -
  have len: "0 < length (sb_packets s)" "1 < length (sb_packets s)" using m by simp_all
  have at: "sb_at s 0 = Some q" using m s by (simp add: sb_at_def sb_slot_at_def)
  have "\<exists>d. sb_drop s = Some ((True, rp_Timestamp q), d) \<and> sb_packets d = (sb_packets s)[0 := no_packet] \<and> sb_tail d = 0 \<and> sb_head d = 0"
  proof -
    have sm: "skip_missing t = Some t" if "sb_tail t = sb_head t" for t using that by (subst skip_missing.simps) simp
    have dr: "drop_rest ts t = Some t" if "sb_tail t = sb_head t" for t ts using that by (subst drop_rest.simps) simp
    have at': "sb_at (s\<lparr>sb_drops := k\<rparr>) 0 = Some q" for k using m s by (simp add: sb_at_def sb_slot_at_def)
    show ?thesis using s(3,4) at' len by (simp add: sb_drop_def sb_release_def sb_set_def sb_inc_def sm dr)
  qed
  then obtain d where d: "sb_drop s = Some ((True, rp_Timestamp q), d)" "sb_packets d = (sb_packets s)[0 := no_packet]" "sb_tail d = 0" "sb_head d = 0" by blast
  have "\<not> c \<le> Suc (c - 2)" using m by linarith
  then have "make_room (c - 2) d = Some (True, d)" using d m by (subst make_room.simps) (simp add: sb_length_def sb_cap_def)
  then have room: "make_room (c - 2) s = Some (True, d)" using d(1) m s by (subst make_room.simps) (simp add: sb_length_def)
  have idx: "((sb_head d + (c - 2)) mod 65536) mod length (sb_packets d) = c - 2" using d m by simp
  define t where "t = d\<lparr>sb_packets := (sb_packets d)[c - 2 := \<lparr>sl_start = sb_isStart d p, sl_end = sb_isEnd d p, sl_packet = Some p\<rparr>], sb_head := c - 1\<rparr>"
  have len': "length (sb_packets d) = c + 1" "c - 2 < c + 1" "Suc (c - 2) = c - 1" "0 < c - 2" using d(2) m by simp_all
  have "push_ahead p (c - 2) s = Some t" using room idx len' by (simp add: push_ahead_def Let_def sb_set_def sb_inc_def t_def)
  moreover have "sb_packets t ! 0 = no_packet" using len' d(2) m by (simp add: t_def)
  ultimately show ?thesis by (rule that) (use d(3) len' in \<open>simp_all add: t_def\<close>)
qed


lemma pop_after_break:
  assumes "sb_tail t = 0" "sb_head t \<noteq> 0" "sb_packets t ! 0 = no_packet" "0 < length (sb_packets t)"
  shows "PopPackets t = None"
proof -
  have "sb_slot_at t 0 = Some no_packet" using assms(3,4) by (simp add: sb_slot_at_def)
  with assms(1,2) have "popRtpPackets False t = None"
    by (subst popRtpPackets.simps) (auto simp: no_packet_def bind_eq_None_conv)
  then show ?thesis by (simp add: PopPackets_def)
qed

text \<open>A packet after a gap of one waits in the empty builder for the one that is missing.\<close>

lemma gap_step:
  assumes st: "sb_state s b []" and v: "sb_lastSeqnoValid s" "sb_lastSeqno s = n" and q: "rp_SequenceNumber q = n + 2"
    and f: "sb_isStart s q"
  defines "x \<equiv> \<lparr>sl_start = True, sl_end = sb_isEnd s q, sl_packet = Some q\<rparr>"
  defines "u \<equiv> s\<lparr>sb_packets := (sb_packets s)[0 := x], sb_tail := 0, sb_head := 1\<rparr>"
  shows "sb_Push q s = Some u" "PopPackets u = Some ([], u)"
proof -
  let ?m = "sb_maxLate s"
  have r: "rep s []" using st by (simp add: sb_state_def)
  have len: "0 < length (sb_packets s)" using repD(1) [OF r refl] by linarith
  have m: "2 \<le> unat ?m" "unat ?m \<le> 16383" using st by (simp_all add: sb_state_def sized_def)
  have e: "sb_lastSeqno s - rp_SequenceNumber q = - 2" "rp_SequenceNumber q - ?m - sb_lastSeqno s = of_nat 2 - of_nat (unat ?m)" using v q by simp_all
  have d: "unat (of_nat 2 - of_nat (unat ?m) :: u16) = (if unat ?m \<le> 2 then 2 - unat ?m else 65538 - unat ?m)"
    using m by (subst unat_diff_of_nat) simp_all
  have same: "s\<lparr>sb_lastSeqno := rp_SequenceNumber q - ?m\<rparr> = s" if "unat (of_nat 2 - of_nat (unat ?m) :: u16) < 0x8000"
  proof -
    have "unat ?m = 2" using that d m by (auto split: if_splits)
    then have "?m = 2" using word_unat_eq_iff [of ?m 2] by simp
    then show ?thesis using v q by simp
  qed
  have "\<not> (sb_lastSeqno s - rp_SequenceNumber q) AND 0x8000 = 0" unfolding e by simp
  then have "push_late q s = Some (True, s)"
    using v(1) rep_empty [OF r] same unfolding push_late_def Let_def e and_top_bit16 by (simp del: of_nat_unat)
  then show "sb_Push q s = Some u"
    using rep_empty [OF r] len f by (subst sb_Push.simps) (simp add: push_empty_def sb_set_def u_def x_def)
  have "sb_slot_at u 0 = Some x" using len by (simp add: sb_slot_at_def u_def)
  then have "popRtpPackets False u = Some (None, u)"
    using v q by (subst popRtpPackets.simps) (simp add: u_def x_def)
  then show "PopPackets u = Some ([], u)" by (simp add: PopPackets_def)
qed


lemma far_push:
  assumes st: "sb_state s b []" and v: "sb_lastSeqnoValid s" "sb_lastSeqno s = n" and q: "rp_SequenceNumber q = n + 2" and x: "sl_packet x = Some q"
    and p: "rp_SequenceNumber p = n + 2 * sb_maxLate s + 1"
  defines "u \<equiv> s\<lparr>sb_packets := (sb_packets s)[0 := x], sb_tail := 0, sb_head := 1\<rparr>"
  shows "\<exists>t. sb_Push p u = Some t \<and> sb_tail t \<noteq> sb_head t \<and> sb_slot_at t (sb_tail t) = Some no_packet \<and> PopPackets t = None"
proof -
  let ?m = "unat (sb_maxLate s)"
  let ?u = "u\<lparr>sb_lastSeqno := n + 1\<rparr>"
  have r: "rep s []" using st by (simp add: sb_state_def)
  have m: "2 \<le> ?m" "?m \<le> 16383" "length (sb_packets s) = 2 * ?m + 1" using st by (simp_all add: sb_state_def sized_def)
  have at: "sb_at u 0 = Some q" "sb_at ?u 0 = Some q" using m x by (simp_all add: sb_at_def sb_slot_at_def u_def)
  have dec: "sb_dec ?u (sb_head ?u) = 0" by (simp add: sb_dec_def u_def)
  have w: "sb_maxLate s = of_nat ?m" by simp
  have e: "sb_lastSeqno u - rp_SequenceNumber p = of_nat 0 - of_nat (2 * ?m + 1)"
    "rp_SequenceNumber p - sb_maxLate u - sb_lastSeqno u = of_nat (?m + 1)"
    "rp_SequenceNumber p - sb_maxLate u - (rp_SequenceNumber q - 1) = of_nat ?m"
    "rp_SequenceNumber p - rp_SequenceNumber q = of_nat (2 * ?m - 1)"
    "rp_SequenceNumber p - rp_SequenceNumber q - 1 = of_nat (2 * ?m - 2)"
    using v p q m by (simp_all add: u_def of_nat_diff algebra_simps)
  have low: "(of_nat k :: u16) AND 0x8000 = 0" if "k < 32768" for k using that by (simp add: and_top_bit16)
  have tops: "(rp_SequenceNumber p - sb_maxLate u - sb_lastSeqno u) AND 0x8000 = 0"
    "(rp_SequenceNumber p - sb_maxLate u - (rp_SequenceNumber q - 1)) AND 0x8000 = 0" "(rp_SequenceNumber p - rp_SequenceNumber q) AND 0x8000 = 0"
    unfolding e by (rule low, use m in simp)+
  have "unat (of_nat 0 - of_nat (2 * ?m + 1) :: u16) = 65535 - 2 * ?m" using m by (subst unat_diff_of_nat) simp_all
  then have top: "\<not> (sb_lastSeqno u - rp_SequenceNumber p) AND 0x8000 = 0" unfolding e and_top_bit16 using m by simp
  have late: "push_late p u = Some (True, ?u)"
    using v(1) at(1) top tops(1,2) q unfolding push_late_def Let_def by (simp add: u_def)
  have gap: "unat (rp_SequenceNumber p - rp_SequenceNumber q - 1) = 2 * ?m - 2" unfolding e(5) using m by (subst unat_nat16) simp_all
  have "rp_SequenceNumber p \<noteq> rp_SequenceNumber q + 1" using gap m by auto
  moreover have cap: "sb_cap ?u = 2 * ?m" using m by (simp add: sb_cap_def u_def)
  moreover have "\<not> 2 * ?m \<le> 2 * ?m - 2" using m(1) by linarith
  ultimately have push: "sb_Push p u = push_ahead p (2 * ?m - 2) ?u"
    using late at(2) dec tops(3) gap m by (subst sb_Push.simps) (simp add: u_def)
  obtain t where t: "push_ahead p (2 * ?m - 2) ?u = Some t" "sb_tail t = 0" "sb_head t = 2 * ?m - 1" "sb_packets t ! 0 = no_packet"
      "length (sb_packets t) = 2 * ?m + 1"
  proof (rule push_ahead_breaks [OF cap _ _ _ _ x])
    show "sb_packets ?u = (replicate (2 * ?m + 1) no_packet)[0 := x]" using rep_all_empty [OF r] m(3) by (simp add: u_def)
  qed (use m in \<open>simp_all add: u_def\<close>)
  have "PopPackets t = None" by (rule pop_after_break) (use t m in simp_all)
  moreover have "sb_tail t \<noteq> sb_head t" "sb_slot_at t (sb_tail t) = Some no_packet" using t m by (simp_all add: sb_slot_at_def)
  ultimately show ?thesis using push t(1) by simp
qed

text \<open>
  C37. Three packets crash a subscriber of a codec in which every packet is a frame of its own, for every \<open>maxLate\<close> from 2 to 16383: one, the one after the
  next, and one that is twice the allowed lateness plus one ahead of the first. The first is delivered and the second waits. To make room for the third the
  builder drops all that it holds and stores the packet as if its first slot were still in use: the builder's own \<open>check\<close> reports that the tail is missing, the
  slot at the tail is empty and not marked as a start, and the attempt to take out a frame that follows each push reads the sequence number of that missing
  packet, a nil pointer.
\<close>

theorem sample_builder_panics:
  assumes "2 \<le> maxLate" "maxLate \<le> 16383" "single_packet_frames codec"
    and "rp_SequenceNumber q = rp_SequenceNumber p + 2" "rp_SequenceNumber r = rp_SequenceNumber p + 2 * maxLate + 1"
  shows "\<exists>s1 s2 s3 t. sb_Push p (sb_New maxLate codec rate) = Some s1 \<and> PopPackets s1 = Some ([p], s2)
     \<and> sb_Push q s2 = Some s3 \<and> PopPackets s3 = Some ([], s3)
     \<and> sb_Push r s3 = Some t \<and> sb_check t = Some (Some ''tail is missing'')
     \<and> sb_tail t \<noteq> sb_head t \<and> sb_slot_at t (sb_tail t) = Some no_packet \<and> PopPackets t = None
     \<and> track_loop [p, q, r] (sb_New maxLate codec rate) = None"
proof -
  let ?s = "sb_New maxLate codec rate"
  have c: "sb_codec ?s = codec" "sb_maxLate ?s = maxLate" "\<not> sb_lastSeqnoValid ?s"
    using assms(1,2) by (auto simp: sb_New_def Let_def word_le_nat_alt word_less_nat_alt)
  have f: "sb_isStart t a" "sb_isEnd t a" if "sb_codec t = codec" for t a
    using assms(3) that by (simp_all add: single_packet_frames_def sb_isStart_def sb_isEnd_def)
  obtain u s where s: "sb_Push p ?s = Some u" "PopPackets u = Some ([p], s)" "sb_state s (rp_SequenceNumber p + 1) []" "same_config ?s s"
    "sb_lastSeqno s = rp_SequenceNumber p" "sb_lastSeqnoValid s"
    using single_frame_step [OF sb_New_inv [OF assms(2)] f [OF c(1)]] c(3) by metis
  then have "sb_codec s = codec" "sb_maxLate s = maxLate" using c by (simp_all add: same_config_def)
  note g = gap_step [OF s(3,6,5) assms(4) f(1) [OF this(1)]] and m = this(2)
  have "rp_SequenceNumber r = rp_SequenceNumber p + 2 * sb_maxLate s + 1" using assms(5) m by simp
  from far_push [OF s(3,6,5) assms(4) _ this, of "\<lparr>sl_start = True, sl_end = sb_isEnd s q, sl_packet = Some q\<rparr>"] obtain t where
    t: "sb_Push r (s\<lparr>sb_packets := (sb_packets s)[0 := \<lparr>sl_start = True, sl_end = sb_isEnd s q, sl_packet = Some q\<rparr>], sb_tail := 0, sb_head := 1\<rparr>) = Some t"
      "sb_tail t \<noteq> sb_head t" "sb_slot_at t (sb_tail t) = Some no_packet" "PopPackets t = None" by auto
  moreover from t(2,3) have "sb_check t = Some (Some ''tail is missing'')" by (auto simp: sb_check_def no_packet_def)
  moreover have "track_loop [p, q, r] (sb_New maxLate codec rate) = None" using g s t by simp
  ultimately show ?thesis using g s by blast
qed


theorem sample_builder_panics_witness:
  "track_loop [pkt 0 0 False [1], pkt 2 1920 False [1], pkt 401 384960 False [1]] (sb_New 200 opus_like 48000) = None"
  using sample_builder_panics [of 200 opus_like "pkt 2 1920 False [1]" "pkt 0 0 False [1]" "pkt 401 384960 False [1]" 48000]
  by (auto simp: single_packet_frames_def opus_like_def pkt_def)

lemma unat_neg_one16: "unat (- 1 :: u16) = 65535"
  by (simp add: unsigned_minus_1_eq_mask mask_eq_exp_minus_1)

text \<open>A copy of the newest packet empties the builder, and the handler for dropped packets is not called.\<close>

lemma duplicate_empties_builder:
  "map_option (\<lambda>r. (map rp_SequenceNumber (sb_released (snd r)), sb_drops (snd r)))
     (sb_run [Feed (pkt 3 7 False [0]), Feed (pkt 4 7 False [1]), Feed (pkt 4 7 False [1])] (sb_New 2 marked 48000)) = Some ([3, 4], 0)"
  by (simp add: sb_New_small sb_eval marked_def pkt_def unat_neg_one16)

text \<open>After a forced pop that returns nothing the builder can still hold packets.\<close>

lemma forced_pop_leaves_packets:
  "map_option (\<lambda>r. (fst r, sb_length (snd r))) (sb_run [Feed (pkt 3 7 False [0]), Feed (pkt 4 7 False [1]), TakePackets True] (sb_New 2 marked 48000)) =
   Some ([[], [], []], 2)"
  by (simp add: sb_New_small sb_eval marked_def pkt_def)

end
