(* ===== verification/SipDispatch.thy ===== *)
theory SipDispatch
  imports Prelude "HOL-Library.Multiset"
begin

unbundle bit_operations_syntax

text \<open>
  The dispatch of inbound SIP calls, \<open>livekit-protocol/sip/sip.go\<close>: which trunk a call belongs to, which dispatch rule applies to it, and what becomes of the caller.
  Strings are lists of characters, maps of attributes are partial functions. An error is \<open>Inl\<close>; a slice out of range is the outer \<open>None\<close>. The parser of
  addresses, the hash function and the generator of identifiers are arguments, and so is \<open>sort.Slice\<close>, of which only the documented contract is used: its
  result is a sorted permutation, in no particular order for equal elements.
\<close>

section \<open>Messages\<close>

datatype SIPDispatchRule =
    NoRule
  | DispatchRuleDirect string string
  | DispatchRuleIndividual string string

record SIPDispatchRuleInfo =
  SipDispatchRuleId :: string
  Rule :: SIPDispatchRule
  TrunkIds :: "string list"
  HidePhoneNumber :: bool
  InboundNumbers :: "string list"
  RuleMetadata :: string
  RuleAttributes :: "string \<rightharpoonup> string"

record SIPInboundTrunkInfo =
  SipTrunkId :: string
  Numbers :: "string list"
  AllowedAddresses :: "string list"
  AllowedNumbers :: "string list"

record EvaluateRequest =
  SipCallId :: string
  CallingNumber :: string
  CalledNumber :: string
  Pin :: string
  NoPin :: bool
  ExtraAttributes :: "string \<rightharpoonup> string"

datatype SIPDispatchResult = ACCEPT | REQUEST_PIN

record EvaluateResponse =
  RespTrunkId :: string
  RespRuleId :: string
  Result :: SIPDispatchResult
  RequestPin :: bool
  RoomName :: string
  ParticipantIdentity :: string
  ParticipantName :: string
  ParticipantMetadata :: string
  ParticipantAttributes :: "string \<rightharpoonup> string"

datatype sip_error =
    ErrUnsupportedRule
  | ErrConflictingRules string string
  | ErrConflictingTrunks string string "string list" "string option"
  | ErrMultipleTrunks string
  | ErrMultipleDefaultTrunks string
  | ErrNoDispatchMatched bool bool string
  | ErrIncorrectPIN

section \<open>Dispatch rules\<close>

text \<open>\<open>GetPinAndRoom\<close>: room, pin and error.\<close>

definition GetPinAndRoom :: "SIPDispatchRuleInfo \<Rightarrow> string \<times> string \<times> sip_error option" where
  "GetPinAndRoom info =
     (case Rule info of
        NoRule \<Rightarrow> ('''', '''', Some ErrUnsupportedRule)
      | DispatchRuleDirect room pin \<Rightarrow> (room, pin, None)
      | DispatchRuleIndividual room pin \<Rightarrow> (room, pin, None))"

definition DispatchRulePriority :: "SIPDispatchRuleInfo \<Rightarrow> int" where
  "DispatchRulePriority info =
     (let penalty = (\<lambda>p. if InboundNumbers info = [] then p + 1000 else p)
      in case Rule info of
           NoRule \<Rightarrow> 2147483647
         | DispatchRuleDirect _ pin \<Rightarrow> penalty (if pin \<noteq> '''' then 0 else 100)
         | DispatchRuleIndividual _ pin \<Rightarrow> penalty (if pin \<noteq> '''' then 1 else 101))"

text \<open>The order of Go on strings.\<close>

fun string_less :: "string \<Rightarrow> string \<Rightarrow> bool" where
  "string_less _ [] = False"
| "string_less [] (_ # _) = True"
| "string_less (a # as) (b # bs) = ((of_char a :: nat) < of_char b \<or> a = b \<and> string_less as bs)"

definition rule_less :: "SIPDispatchRuleInfo \<Rightarrow> SIPDispatchRuleInfo \<Rightarrow> bool" where
  "rule_less x y =
     (if DispatchRulePriority x < DispatchRulePriority y then True
      else if DispatchRulePriority x > DispatchRulePriority y then False
      else string_less (fst (GetPinAndRoom x)) (fst (GetPinAndRoom y)))"

type_synonym rule_sort = "(SIPDispatchRuleInfo \<Rightarrow> SIPDispatchRuleInfo \<Rightarrow> bool) \<Rightarrow> SIPDispatchRuleInfo list \<Rightarrow> SIPDispatchRuleInfo list"

definition SortDispatchRules :: "rule_sort \<Rightarrow> SIPDispatchRuleInfo list \<Rightarrow> SIPDispatchRuleInfo list" where
  "SortDispatchRules sort_Slice rules = sort_Slice rule_less rules"

definition printID :: "string \<Rightarrow> string" where
  "printID s = (if s = '''' then ''<new>'' else s)"

definition normalizeNumber :: "string \<Rightarrow> string" where
  "normalizeNumber num = (if num = '''' then '''' else if hd num \<noteq> CHR ''+'' then CHR ''+'' # num else num)"

type_synonym ruleKey = "string \<times> string \<times> string"

text \<open>The keys of a rule in the order of the two inner loops, and the loops.\<close>

definition rule_keys :: "string \<Rightarrow> SIPDispatchRuleInfo \<Rightarrow> ruleKey list" where
  "rule_keys pin r =
     (let trunks = (if TrunkIds r = [] then [''''] else TrunkIds r);
          numbers = (if InboundNumbers r = [] then [''''] else InboundNumbers r)
      in [(pin, trunk, normalizeNumber number). trunk \<leftarrow> trunks, number \<leftarrow> numbers])"

fun add_keys :: "SIPDispatchRuleInfo \<Rightarrow> ruleKey list \<Rightarrow> (ruleKey \<rightharpoonup> SIPDispatchRuleInfo) \<Rightarrow> sip_error + (ruleKey \<rightharpoonup> SIPDispatchRuleInfo)" where
  "add_keys r [] byRuleKey = Inr byRuleKey"
| "add_keys r (k # ks) byRuleKey =
     (case byRuleKey k of
        Some r2 \<Rightarrow> Inl (ErrConflictingRules (printID (SipDispatchRuleId r)) (printID (SipDispatchRuleId r2)))
      | None \<Rightarrow> add_keys r ks (byRuleKey(k \<mapsto> r)))"

fun validate_rules :: "SIPDispatchRuleInfo list \<Rightarrow> (ruleKey \<rightharpoonup> SIPDispatchRuleInfo) \<Rightarrow> sip_error option" where
  "validate_rules [] byRuleKey = None"
| "validate_rules (r # rules) byRuleKey =
     (case GetPinAndRoom r of
        (_, _, Some err) \<Rightarrow> Some err
      | (_, pin, None) \<Rightarrow>
          (case add_keys r (rule_keys pin r) byRuleKey of
             Inl err \<Rightarrow> Some err
           | Inr byRuleKey \<Rightarrow> validate_rules rules byRuleKey))"

definition ValidateDispatchRules :: "SIPDispatchRuleInfo list \<Rightarrow> sip_error option" where
  "ValidateDispatchRules rules = (if rules = [] then None else validate_rules rules Map.empty)"

definition SelectDispatchRule :: "rule_sort \<Rightarrow> SIPDispatchRuleInfo list \<Rightarrow> sip_error + SIPDispatchRuleInfo option" where
  "SelectDispatchRule sort_Slice rules =
     (if rules = [] then Inr None
      else case ValidateDispatchRules rules of
             Some err \<Rightarrow> Inl err
           | None \<Rightarrow> Inr (Some (SortDispatchRules sort_Slice rules ! 0)))"

section \<open>Trunks\<close>

fun add_allowed :: "SIPInboundTrunkInfo \<Rightarrow> string list \<Rightarrow> (string \<rightharpoonup> SIPInboundTrunkInfo) \<Rightarrow> sip_error + (string \<rightharpoonup> SIPInboundTrunkInfo)" where
  "add_allowed t [] byInbound = Inr byInbound"
| "add_allowed t (num # nums) byInbound =
     (case byInbound (normalizeNumber num) of
        Some t2 \<Rightarrow> Inl (ErrConflictingTrunks (printID (SipTrunkId t)) (printID (SipTrunkId t2)) (Numbers t) (Some num))
      | None \<Rightarrow> add_allowed t nums (byInbound(normalizeNumber num \<mapsto> t)))"

definition validateTrunkInbound :: "(string \<rightharpoonup> SIPInboundTrunkInfo) \<Rightarrow> SIPInboundTrunkInfo \<Rightarrow> sip_error + (string \<rightharpoonup> SIPInboundTrunkInfo)" where
  "validateTrunkInbound byInbound t =
     (if AllowedNumbers t = []
      then case byInbound '''' of
             Some t2 \<Rightarrow> Inl (ErrConflictingTrunks (printID (SipTrunkId t)) (printID (SipTrunkId t2)) (Numbers t) None)
           | None \<Rightarrow> Inr (byInbound('''' \<mapsto> t))
      else add_allowed t (AllowedNumbers t) byInbound)"

fun validate_outbound :: "SIPInboundTrunkInfo \<Rightarrow> string list \<Rightarrow> (string \<Rightarrow> string \<rightharpoonup> SIPInboundTrunkInfo) \<Rightarrow>
    sip_error + (string \<Rightarrow> string \<rightharpoonup> SIPInboundTrunkInfo)" where
  "validate_outbound t [] m = Inr m"
| "validate_outbound t (num # nums) m =
     (case validateTrunkInbound (m num) t of
        Inl err \<Rightarrow> Inl err
      | Inr byInbound \<Rightarrow> validate_outbound t nums (m(num := byInbound)))"

fun validate_trunks :: "SIPInboundTrunkInfo list \<Rightarrow> (string \<Rightarrow> string \<rightharpoonup> SIPInboundTrunkInfo) \<Rightarrow> sip_error option" where
  "validate_trunks [] m = None"
| "validate_trunks (t # trunks) m =
     (case validate_outbound t (if Numbers t = [] then [''''] else Numbers t) m of
        Inl err \<Rightarrow> Some err
      | Inr m \<Rightarrow> validate_trunks trunks m)"

definition ValidateTrunks :: "SIPInboundTrunkInfo list \<Rightarrow> sip_error option" where
  "ValidateTrunks trunks = (if trunks = [] then None else validate_trunks trunks (\<lambda>_. Map.empty))"

text \<open>Addresses and prefixes of \<open>net/netip\<close>. The textual forms are read by the parser in the record.\<close>

datatype netip_addr = Addr4 "32 word" | Addr6 "128 word" string

record netip =
  ParseAddr :: "string \<Rightarrow> netip_addr option"
  ParsePrefix :: "string \<Rightarrow> (netip_addr \<times> nat) option"

fun prefix_Contains :: "netip_addr \<times> nat \<Rightarrow> netip_addr \<Rightarrow> bool" where
  "prefix_Contains (Addr4 p, n) (Addr4 a) = (drop_bit (32 - n) (a XOR p) = 0)"
| "prefix_Contains (Addr6 p _, n) (Addr6 a zone) = (zone = '''' \<and> drop_bit (128 - n) (a XOR p) = 0)"
| "prefix_Contains _ _ = False"

definition matchAddrMask :: "netip \<Rightarrow> string \<Rightarrow> string \<Rightarrow> bool" where
  "matchAddrMask net addr msk =
     (if CHR ''/'' \<notin> set msk then addr = msk
      else case ParseAddr net addr of
             None \<Rightarrow> False
           | Some ip \<Rightarrow> (case ParsePrefix net msk of None \<Rightarrow> False | Some pref \<Rightarrow> prefix_Contains pref ip))"

definition matchAddrMasks :: "netip \<Rightarrow> string \<Rightarrow> string list \<Rightarrow> bool" where
  "matchAddrMasks net addr masks = (if addr = '''' \<or> masks = [] then True else list_ex (matchAddrMask net addr) masks)"

definition matchNumbers :: "string \<Rightarrow> string list \<Rightarrow> bool" where
  "matchNumbers num allowed =
     (if allowed = [] then True else list_ex (\<lambda>allow. normalizeNumber num = normalizeNumber allow) allowed)"

text \<open>The inner loop of \<open>MatchTrunk\<close> over the numbers of a trunk, and the outer one with its three variables.\<close>

fun match_called :: "SIPInboundTrunkInfo \<Rightarrow> string \<Rightarrow> string list \<Rightarrow> SIPInboundTrunkInfo option \<Rightarrow> sip_error + SIPInboundTrunkInfo option" where
  "match_called tr called [] selectedTrunk = Inr selectedTrunk"
| "match_called tr called (num # nums) selectedTrunk =
     (if normalizeNumber num = normalizeNumber called
      then if selectedTrunk \<noteq> None then Inl (ErrMultipleTrunks called) else match_called tr called nums (Some tr)
      else match_called tr called nums selectedTrunk)"

fun match_trunks :: "netip \<Rightarrow> string \<Rightarrow> string \<Rightarrow> string \<Rightarrow> SIPInboundTrunkInfo list \<Rightarrow> SIPInboundTrunkInfo option \<Rightarrow> SIPInboundTrunkInfo option \<Rightarrow> nat \<Rightarrow>
    sip_error + SIPInboundTrunkInfo option" where
  "match_trunks net srcIP calling called [] selectedTrunk defaultTrunk defaultTrunkCnt =
     (if selectedTrunk \<noteq> None then Inr selectedTrunk
      else if defaultTrunkCnt > 1 then Inl (ErrMultipleDefaultTrunks called)
      else Inr defaultTrunk)"
| "match_trunks net srcIP calling called (tr # trunks) selectedTrunk defaultTrunk defaultTrunkCnt =
     (if \<not> matchNumbers calling (AllowedNumbers tr) then match_trunks net srcIP calling called trunks selectedTrunk defaultTrunk defaultTrunkCnt
      else if \<not> matchAddrMasks net srcIP (AllowedAddresses tr) then match_trunks net srcIP calling called trunks selectedTrunk defaultTrunk defaultTrunkCnt
      else if Numbers tr = [] then match_trunks net srcIP calling called trunks selectedTrunk (Some tr) (defaultTrunkCnt + 1)
      else case match_called tr called (Numbers tr) selectedTrunk of
             Inl err \<Rightarrow> Inl err
           | Inr selectedTrunk \<Rightarrow> match_trunks net srcIP calling called trunks selectedTrunk defaultTrunk defaultTrunkCnt)"

definition MatchTrunk :: "netip \<Rightarrow> SIPInboundTrunkInfo list \<Rightarrow> string \<Rightarrow> string \<Rightarrow> string \<Rightarrow> sip_error + SIPInboundTrunkInfo option" where
  "MatchTrunk net trunks srcIP calling called = match_trunks net srcIP calling called trunks None None 0"

section \<open>Matching and evaluating a call\<close>

text \<open>The loop of \<open>MatchDispatchRule\<close> that splits the rules into those for the trunk and the default ones.\<close>

fun split_rules :: "SIPInboundTrunkInfo option \<Rightarrow> EvaluateRequest \<Rightarrow> SIPDispatchRuleInfo list \<Rightarrow> SIPDispatchRuleInfo list \<Rightarrow> SIPDispatchRuleInfo list \<Rightarrow>
    SIPDispatchRuleInfo list \<times> SIPDispatchRuleInfo list" where
  "split_rules trunk req [] specificRules defaultRules = (specificRules, defaultRules)"
| "split_rules trunk req (info # rules) specificRules defaultRules =
     (if InboundNumbers info \<noteq> [] \<and> CallingNumber req \<notin> set (InboundNumbers info) then split_rules trunk req rules specificRules defaultRules
      else case GetPinAndRoom info of
             (_, _, Some err) \<Rightarrow> split_rules trunk req rules specificRules defaultRules
           | (_, rulePin, None) \<Rightarrow>
               if NoPin req \<and> rulePin \<noteq> '''' then split_rules trunk req rules specificRules defaultRules
               else if \<not> NoPin req \<and> Pin req \<noteq> '''' \<and> rulePin = '''' then split_rules trunk req rules specificRules defaultRules
               else if \<not> NoPin req \<and> Pin req \<noteq> '''' \<and> Pin req \<noteq> rulePin then split_rules trunk req rules specificRules defaultRules
               else if TrunkIds info = [] then split_rules trunk req rules specificRules (defaultRules @ [info])
               else (case trunk of
                       None \<Rightarrow> split_rules trunk req rules specificRules defaultRules
                     | Some t \<Rightarrow>
                         if SipTrunkId t \<notin> set (TrunkIds info) then split_rules trunk req rules specificRules defaultRules
                         else split_rules trunk req rules (specificRules @ [info]) defaultRules))"

definition MatchDispatchRule :: "rule_sort \<Rightarrow> SIPInboundTrunkInfo option \<Rightarrow> SIPDispatchRuleInfo list \<Rightarrow> EvaluateRequest \<Rightarrow> sip_error + SIPDispatchRuleInfo" where
  "MatchDispatchRule sort_Slice trunk rules req =
     (if rules = [] then Inl (ErrNoDispatchMatched True (trunk = None) (CalledNumber req))
      else let (specificRules, defaultRules) = split_rules trunk req rules [] []
           in case SelectDispatchRule sort_Slice specificRules of
                Inl err \<Rightarrow> Inl err
              | Inr (Some best) \<Rightarrow> Inr best
              | Inr None \<Rightarrow>
                  (case SelectDispatchRule sort_Slice defaultRules of
                     Inl err \<Rightarrow> Inl err
                   | Inr (Some best) \<Rightarrow> Inr best
                   | Inr None \<Rightarrow> Inl (ErrNoDispatchMatched False (trunk = None) (CalledNumber req))))"

definition hex_digit :: "nat \<Rightarrow> char" where
  "hex_digit n = ''0123456789abcdef'' ! n"

definition hex_EncodeToString :: "bytes \<Rightarrow> string" where
  "hex_EncodeToString bs = concat (map (\<lambda>b. [hex_digit (unat b div 16), hex_digit (unat b mod 16)]) bs)"

record sip_env =
  sha256 :: "string \<Rightarrow> bytes"
  new_guid :: string

text \<open>The name and identity of the caller, and the number used in the name of the room. \<open>None\<close> is a slice out of range.\<close>

definition hidden_number :: "string \<Rightarrow> string option" where
  "hidden_number from =
     (let n = (if length from \<le> 4 then 1 else 4) in if n \<le> length from then Some (drop (length from - n) from) else None)"

definition EvaluateDispatchRule :: "sip_env \<Rightarrow> string \<Rightarrow> SIPDispatchRuleInfo \<Rightarrow> EvaluateRequest \<Rightarrow> (sip_error + EvaluateResponse) option" where
  "EvaluateDispatchRule env trunkID rule req =
     (let attrs = (RuleAttributes rule ++ ExtraAttributes req)(''sip.callID'' \<mapsto> SipCallId req, ''sip.trunkID'' \<mapsto> trunkID);
          caller = (if HidePhoneNumber rule
                    then map_option (\<lambda>from. (from, ''Phone '' @ from, ''sip_'' @ hex_EncodeToString (take 8 (sha256 env (CallingNumber req))), attrs))
                           (hidden_number (CallingNumber req))
                    else Some (CallingNumber req, ''Phone '' @ CallingNumber req, ''sip_'' @ CallingNumber req,
                               attrs(''sip.phoneNumber'' \<mapsto> CallingNumber req, ''sip.trunkPhoneNumber'' \<mapsto> CalledNumber req)))
      in case caller of
           None \<Rightarrow> None
         | Some (from, fromName, fromID, attrs) \<Rightarrow>
             (case GetPinAndRoom rule of
                (_, _, Some err) \<Rightarrow> Some (Inl err)
              | (room, rulePin, None) \<Rightarrow>
                  if rulePin \<noteq> '''' \<and> Pin req = ''''
                  then Some (Inr \<lparr>RespTrunkId = trunkID, RespRuleId = SipDispatchRuleId rule, Result = REQUEST_PIN, RequestPin = True, RoomName = '''',
                                  ParticipantIdentity = '''', ParticipantName = '''', ParticipantMetadata = '''', ParticipantAttributes = Map.empty\<rparr>)
                  else if rulePin \<noteq> '''' \<and> rulePin \<noteq> Pin req then Some (Inl ErrIncorrectPIN)
                  else let room = (case Rule rule of
                                     DispatchRuleIndividual roomPrefix _ \<Rightarrow> roomPrefix @ ''_'' @ from @ ''_'' @ new_guid env
                                   | _ \<Rightarrow> room)
                       in Some (Inr \<lparr>RespTrunkId = trunkID, RespRuleId = SipDispatchRuleId rule, Result = ACCEPT, RequestPin = False, RoomName = room,
                                     ParticipantIdentity = fromID, ParticipantName = fromName, ParticipantMetadata = RuleMetadata rule,
                                     ParticipantAttributes = attrs(''sip.ruleID'' \<mapsto> SipDispatchRuleId rule)\<rparr>)))"


section \<open>Sorting\<close>

definition weak_order :: "('a \<Rightarrow> 'a \<Rightarrow> bool) \<Rightarrow> bool" where
  "weak_order lt \<longleftrightarrow> (\<forall>x y. lt x y \<longrightarrow> \<not> lt y x) \<and> (\<forall>x y z. lt x z \<longrightarrow> lt x y \<or> lt y z)"

text \<open>The contract of \<open>sort.Slice\<close>.\<close>

locale slice_sort =
  fixes sort_Slice :: "('a \<Rightarrow> 'a \<Rightarrow> bool) \<Rightarrow> 'a list \<Rightarrow> 'a list"
  assumes permutes: "mset (sort_Slice lt xs) = mset xs"
    and sorts: "weak_order lt \<Longrightarrow> sorted_wrt (\<lambda>x y. \<not> lt y x) (sort_Slice lt xs)"
begin

lemma sort_set: "set (sort_Slice lt xs) = set xs"
  using permutes by (metis set_mset_mset)

lemma sort_first:
  assumes "weak_order lt" "xs \<noteq> []"
  shows "sort_Slice lt xs ! 0 \<in> set xs" "y \<in> set xs \<Longrightarrow> \<not> lt y (sort_Slice lt xs ! 0)"
proof -
  obtain z zs where z: "sort_Slice lt xs = z # zs" using assms(2) sort_set [of lt xs] by (cases "sort_Slice lt xs") auto
  then show "sort_Slice lt xs ! 0 \<in> set xs" using sort_set by (metis list.set_intros(1) nth_Cons_0)
  assume "y \<in> set xs"
  then have "y = z \<or> y \<in> set zs" using sort_set z by (metis set_ConsD)
  moreover have "\<not> lt z z" using assms(1) by (auto simp: weak_order_def)
  ultimately show "\<not> lt y (sort_Slice lt xs ! 0)" using sorts [OF assms(1), of xs] z by auto
qed

end

text \<open>For few elements \<open>sort.Slice\<close> is an insertion sort, which meets the contract.\<close>

fun insert_by :: "('a \<Rightarrow> 'a \<Rightarrow> bool) \<Rightarrow> 'a \<Rightarrow> 'a list \<Rightarrow> 'a list" where
  "insert_by lt x [] = [x]"
| "insert_by lt x (y # ys) = (if lt x y then x # y # ys else y # insert_by lt x ys)"

definition insertion_sort :: "('a \<Rightarrow> 'a \<Rightarrow> bool) \<Rightarrow> 'a list \<Rightarrow> 'a list" where
  "insertion_sort lt xs = foldl (\<lambda>acc x. insert_by lt x acc) [] xs"

lemma mset_insert_by [simp]: "mset (insert_by lt x ys) = add_mset x (mset ys)"
  by (induction ys) auto

lemma set_insert_by [simp]: "set (insert_by lt x ys) = insert x (set ys)"
  by (induction ys) auto

lemma sorted_insert_by:
  assumes w: "weak_order lt"
  shows "sorted_wrt (\<lambda>x y. \<not> lt y x) ys \<Longrightarrow> sorted_wrt (\<lambda>x y. \<not> lt y x) (insert_by lt x ys)"
proof (induction ys)
  case (Cons y ys)
  have "\<not> lt b x" if "lt x y" "\<not> lt b y" for b using w that unfolding weak_order_def by blast
  moreover have "\<not> lt y x" if "lt x y" using w that unfolding weak_order_def by blast
  ultimately show ?case using Cons by auto
qed simp

interpretation insertion: slice_sort insertion_sort
proof
  fix lt :: "'a \<Rightarrow> 'a \<Rightarrow> bool" and xs
  have "mset (foldl (\<lambda>acc x. insert_by lt x acc) acc xs) = mset acc + mset xs" for acc by (induction xs arbitrary: acc) auto
  then show "mset (insertion_sort lt xs) = mset xs" by (simp add: insertion_sort_def)
  assume w: "weak_order lt"
  have "sorted_wrt (\<lambda>x y. \<not> lt y x) acc \<Longrightarrow> sorted_wrt (\<lambda>x y. \<not> lt y x) (foldl (\<lambda>acc x. insert_by lt x acc) acc xs)" for acc
    by (induction xs arbitrary: acc) (auto intro: sorted_insert_by [OF w])
  then show "sorted_wrt (\<lambda>x y. \<not> lt y x) (insertion_sort lt xs)" by (simp add: insertion_sort_def)
qed

lemma string_less_asym: "string_less x y \<Longrightarrow> \<not> string_less y x"
  by (induction x y rule: string_less.induct) auto

lemma string_less_between: "string_less x z \<Longrightarrow> string_less x y \<or> string_less y z"
proof (induction x z arbitrary: y rule: string_less.induct)
  case (2 c cs)
  then show ?case by (cases y) auto
next
  case (3 a as b bs)
  show ?case
  proof (cases y)
    case Nil
    then show ?thesis by simp
  next
    case (Cons c cs)
    consider "(of_char a :: nat) < of_char c" | "a = c" | "(of_char c :: nat) < of_char a"
      by (metis of_char_eq_iff nat_neq_iff)
    then show ?thesis using 3 Cons by cases auto
  qed
qed simp

lemma rule_less_weak_order: "weak_order rule_less"
proof -
  have "\<not> rule_less y x" if "rule_less x y" for x y using that string_less_asym by (auto simp: rule_less_def split: if_splits)
  moreover have "rule_less x y \<or> rule_less y z" if "rule_less x z" for x y z
    using that string_less_between [of "fst (GetPinAndRoom x)" "fst (GetPinAndRoom z)" "fst (GetPinAndRoom y)"]
    by (auto simp: rule_less_def split: if_splits)
  ultimately show ?thesis by (auto simp: weak_order_def)
qed

section \<open>Validation\<close>

definition rule_pin :: "SIPDispatchRuleInfo \<Rightarrow> string" where
  "rule_pin r = fst (snd (GetPinAndRoom r))"

definition supported :: "SIPDispatchRuleInfo \<Rightarrow> bool" where
  "supported r \<longleftrightarrow> snd (snd (GetPinAndRoom r)) = None"

definition keys_of :: "SIPDispatchRuleInfo \<Rightarrow> ruleKey list" where
  "keys_of r = rule_keys (rule_pin r) r"

lemma GetPinAndRoom_cases:
  obtains (ok) room where "GetPinAndRoom r = (room, rule_pin r, None)" "supported r"
    | (bad) room pin e where "GetPinAndRoom r = (room, pin, Some e)" "\<not> supported r"
  by (cases "GetPinAndRoom r"; cases "snd (snd (GetPinAndRoom r))") (auto simp: rule_pin_def supported_def)

lemma add_keys_ok:
  "(\<exists>m'. add_keys r ks m = Inr m') \<longleftrightarrow> distinct ks \<and> set ks \<inter> dom m = {}"
  "add_keys r ks m = Inr m' \<Longrightarrow> dom m' = dom m \<union> set ks"
  by (induction ks arbitrary: m) (auto split: option.splits)

lemma validate_rules_ok:
  "validate_rules rules m = None \<longleftrightarrow>
     (\<forall>r \<in> set rules. supported r) \<and> distinct (concat (map keys_of rules)) \<and> set (concat (map keys_of rules)) \<inter> dom m = {}"
proof (induction rules arbitrary: m)
  case (Cons r rules)
  show ?case
  proof (cases r rule: GetPinAndRoom_cases)
    case (ok room)
    then have step: "validate_rules (r # rules) m = (case add_keys r (keys_of r) m of Inl err \<Rightarrow> Some err | Inr m \<Rightarrow> validate_rules rules m)" "supported r"
      by (simp_all add: keys_of_def)
    show ?thesis
    proof (cases "add_keys r (keys_of r) m")
      case (Inl e)
      then have "\<not> (distinct (keys_of r) \<and> set (keys_of r) \<inter> dom m = {})" using add_keys_ok(1) [of r "keys_of r" m] by auto
      then show ?thesis using step Inl by auto
    next
      case (Inr m')
      then have "distinct (keys_of r)" "set (keys_of r) \<inter> dom m = {}" "dom m' = dom m \<union> set (keys_of r)"
        using add_keys_ok(1) [of r "keys_of r" m] add_keys_ok(2) by auto
      then show ?thesis using step Inr Cons.IH [of m'] by auto
    qed
  next
    case (bad room pin e)
    then show ?thesis by simp
  qed
qed simp

lemma ValidateDispatchRules_ok: "ValidateDispatchRules rules = None \<longleftrightarrow> (\<forall>r \<in> set rules. supported r) \<and> distinct (concat (map keys_of rules))"
  by (auto simp: ValidateDispatchRules_def validate_rules_ok)

lemma distinct_concat_filter: "distinct (concat (map f xs)) \<Longrightarrow> distinct (concat (map f (filter P xs)))"
  by (induction xs) auto

lemma ValidateDispatchRules_filter: "ValidateDispatchRules rules = None \<Longrightarrow> ValidateDispatchRules (filter P rules) = None"
  by (simp add: ValidateDispatchRules_ok distinct_concat_filter)

section \<open>Rules of a call\<close>

definition rule_applies :: "EvaluateRequest \<Rightarrow> SIPDispatchRuleInfo \<Rightarrow> bool" where
  "rule_applies req r \<longleftrightarrow>
     (InboundNumbers r = [] \<or> CallingNumber req \<in> set (InboundNumbers r)) \<and> supported r \<and>
     (if NoPin req then rule_pin r = '''' else Pin req = '''' \<or> rule_pin r = Pin req)"

definition specific_rules :: "SIPInboundTrunkInfo option \<Rightarrow> EvaluateRequest \<Rightarrow> SIPDispatchRuleInfo list \<Rightarrow> SIPDispatchRuleInfo list" where
  "specific_rules trunk req rules =
     filter (\<lambda>r. rule_applies req r \<and> (case trunk of None \<Rightarrow> False | Some t \<Rightarrow> SipTrunkId t \<in> set (TrunkIds r))) rules"

definition default_rules :: "EvaluateRequest \<Rightarrow> SIPDispatchRuleInfo list \<Rightarrow> SIPDispatchRuleInfo list" where
  "default_rules req rules = filter (\<lambda>r. rule_applies req r \<and> TrunkIds r = []) rules"

lemma split_rules_filter: "split_rules trunk req rules S D = (S @ specific_rules trunk req rules, D @ default_rules req rules)"
proof (induction rules arbitrary: S D)
  case (Cons r rules)
  show ?case
  proof (cases r rule: GetPinAndRoom_cases)
    case (ok room)
    then show ?thesis using Cons by (auto simp: specific_rules_def default_rules_def rule_applies_def split: option.split)
  next
    case (bad room pin e)
    then show ?thesis using Cons by (simp add: specific_rules_def default_rules_def rule_applies_def)
  qed
qed (simp add: specific_rules_def default_rules_def)

lemma SelectDispatchRule_ok:
  assumes "slice_sort sort_Slice" "ValidateDispatchRules rules = None" "rules \<noteq> []"
  shows "\<exists>best. SelectDispatchRule sort_Slice rules = Inr (Some best) \<and> best \<in> set rules \<and> (\<forall>r \<in> set rules. \<not> rule_less r best)"
  using slice_sort.sort_first [OF assms(1) rule_less_weak_order assms(3)] assms(2,3) by (simp add: SelectDispatchRule_def SortDispatchRules_def)

lemma SelectDispatchRule_in:
  "slice_sort sort_Slice \<Longrightarrow> SelectDispatchRule sort_Slice rules = Inr (Some best) \<Longrightarrow> best \<in> set rules"
  using slice_sort.sort_first(1) [OF _ rule_less_weak_order, of sort_Slice rules]
  by (auto simp: SelectDispatchRule_def SortDispatchRules_def split: if_splits option.splits)

section \<open>Trunks of a call\<close>

definition trunk_allows :: "netip \<Rightarrow> string \<Rightarrow> string \<Rightarrow> SIPInboundTrunkInfo \<Rightarrow> bool" where
  "trunk_allows net srcIP calling tr \<longleftrightarrow> matchNumbers calling (AllowedNumbers tr) \<and> matchAddrMasks net srcIP (AllowedAddresses tr)"

text \<open>A trunk once for each of its numbers that is the called one, and the trunks without numbers.\<close>

definition numbered :: "netip \<Rightarrow> string \<Rightarrow> string \<Rightarrow> string \<Rightarrow> SIPInboundTrunkInfo list \<Rightarrow> SIPInboundTrunkInfo list" where
  "numbered net srcIP calling called trunks =
     [tr. tr \<leftarrow> trunks, trunk_allows net srcIP calling tr, num \<leftarrow> Numbers tr, normalizeNumber num = normalizeNumber called]"

definition unnumbered :: "netip \<Rightarrow> string \<Rightarrow> string \<Rightarrow> SIPInboundTrunkInfo list \<Rightarrow> SIPInboundTrunkInfo list" where
  "unnumbered net srcIP calling trunks = filter (\<lambda>tr. trunk_allows net srcIP calling tr \<and> Numbers tr = []) trunks"

definition choose_trunk :: "string \<Rightarrow> SIPInboundTrunkInfo list \<Rightarrow> SIPInboundTrunkInfo list \<Rightarrow> sip_error + SIPInboundTrunkInfo option" where
  "choose_trunk called ns ds =
     (case ns of
        [tr] \<Rightarrow> Inr (Some tr)
      | _ # _ # _ \<Rightarrow> Inl (ErrMultipleTrunks called)
      | [] \<Rightarrow> (case ds of [] \<Rightarrow> Inr None | [tr] \<Rightarrow> Inr (Some tr) | _ # _ # _ \<Rightarrow> Inl (ErrMultipleDefaultTrunks called)))"

definition as_list :: "'a option \<Rightarrow> 'a list" where
  "as_list x = (case x of None \<Rightarrow> [] | Some y \<Rightarrow> [y])"

lemma match_called_choose:
  "match_called tr called nums sel =
     (case as_list sel @ [tr. num \<leftarrow> nums, normalizeNumber num = normalizeNumber called] of
        [] \<Rightarrow> Inr None | [t] \<Rightarrow> Inr (Some t) | _ # _ # _ \<Rightarrow> Inl (ErrMultipleTrunks called))"
  by (induction nums arbitrary: sel) (auto simp: as_list_def split: option.split list.split)

lemma match_trunks_choose:
  assumes "defaultTrunkCnt = length ds" "defaultTrunk = (if ds = [] then None else Some (last ds))"
  shows "match_trunks net srcIP calling called trunks sel defaultTrunk defaultTrunkCnt =
    choose_trunk called (as_list sel @ numbered net srcIP calling called trunks) (ds @ unnumbered net srcIP calling trunks)"
  using assms
proof (induction trunks arbitrary: sel defaultTrunk defaultTrunkCnt ds)
  case Nil
  then show ?case
    by (cases sel; cases ds) (auto simp: choose_trunk_def as_list_def numbered_def unnumbered_def split: list.split)
next
  case (Cons tr trunks)
  show ?case
  proof (cases "trunk_allows net srcIP calling tr")
    case False
    then have "match_trunks net srcIP calling called (tr # trunks) sel defaultTrunk defaultTrunkCnt =
        match_trunks net srcIP calling called trunks sel defaultTrunk defaultTrunkCnt" by (auto simp: trunk_allows_def)
    with False Cons show ?thesis by (simp add: numbered_def unnumbered_def)
  next
    case allowed: True
    show ?thesis
    proof (cases "Numbers tr = []")
      case True
      with allowed Cons.IH [of "defaultTrunkCnt + 1" "ds @ [tr]" "Some tr" sel] Cons.prems show ?thesis
        by (simp add: trunk_allows_def numbered_def unnumbered_def)
    next
      case False
      let ?ms = "[tr. num \<leftarrow> Numbers tr, normalizeNumber num = normalizeNumber called]"
      have n: "numbered net srcIP calling called (tr # trunks) = ?ms @ numbered net srcIP calling called trunks"
        "unnumbered net srcIP calling (tr # trunks) = unnumbered net srcIP calling trunks"
        using allowed False by (simp_all add: numbered_def unnumbered_def)
      have step: "match_trunks net srcIP calling called (tr # trunks) sel defaultTrunk defaultTrunkCnt =
          (case match_called tr called (Numbers tr) sel of Inl err \<Rightarrow> Inl err
           | Inr sel \<Rightarrow> match_trunks net srcIP calling called trunks sel defaultTrunk defaultTrunkCnt)"
        using allowed False by (simp add: trunk_allows_def)
      have app: "as_list sel @ ?ms @ numbered net srcIP calling called trunks = (as_list sel @ ?ms) @ numbered net srcIP calling called trunks" by simp
      note IH = Cons.IH [OF Cons.prems]
      have core: "(case case zs of [] \<Rightarrow> Inr None | [t] \<Rightarrow> Inr (Some t) | _ # _ # _ \<Rightarrow> Inl (ErrMultipleTrunks called) of
            Inl err \<Rightarrow> Inl err | Inr sel \<Rightarrow> match_trunks net srcIP calling called trunks sel defaultTrunk defaultTrunkCnt) =
          choose_trunk called (zs @ numbered net srcIP calling called trunks) (ds @ unnumbered net srcIP calling trunks)" for zs
      proof (cases zs)
        case Nil
        then show ?thesis using IH [of None] by (simp add: as_list_def)
      next
        case (Cons t ts)
        then show ?thesis using IH [of "Some t"] by (cases ts) (simp_all add: as_list_def choose_trunk_def)
      qed
      show ?thesis unfolding step n app match_called_choose by (rule core)
    qed
  qed
qed

section \<open>Properties\<close>

text \<open>Two rules, a trunk and a call for examples.\<close>

definition demo_open :: SIPDispatchRuleInfo where
  "demo_open = \<lparr>SipDispatchRuleId = ''open'', Rule = DispatchRuleDirect ''lobby'' '''', TrunkIds = [], HidePhoneNumber = False, InboundNumbers = [],
     RuleMetadata = '''', RuleAttributes = Map.empty\<rparr>"

definition demo_pin :: SIPDispatchRuleInfo where
  "demo_pin = demo_open\<lparr>SipDispatchRuleId := ''pin'', Rule := DispatchRuleDirect ''board'' ''42'', TrunkIds := [''T'']\<rparr>"

definition demo_trunk :: SIPInboundTrunkInfo where
  "demo_trunk = \<lparr>SipTrunkId = ''T'', Numbers = [''123''], AllowedAddresses = [], AllowedNumbers = []\<rparr>"

definition demo_call :: EvaluateRequest where
  "demo_call = \<lparr>SipCallId = ''C'', CallingNumber = ''+7'', CalledNumber = ''123'', Pin = ''42'', NoPin = False, ExtraAttributes = Map.empty\<rparr>"

lemmas demo_defs = demo_open_def demo_pin_def demo_trunk_def demo_call_def

lemma demo_specific: "specific_rules (Some demo_trunk) demo_call [demo_open, demo_pin] = [demo_pin]"
  by (simp add: specific_rules_def rule_applies_def supported_def rule_pin_def GetPinAndRoom_def demo_defs)

lemma demo_selected: "SelectDispatchRule insertion_sort [demo_pin] = Inr (Some demo_pin)"
  by (simp add: SelectDispatchRule_def SortDispatchRules_def insertion_sort_def ValidateDispatchRules_def GetPinAndRoom_def rule_keys_def demo_defs)

text \<open>
  C24. A caller is let into a room only by a rule that was meant for the call: the rule is one of those given, it is for the trunk of the call or for every trunk, it is for the
  number of the caller or for every number, and if it has a pin the caller has sent that pin. A caller who sends a pin never enters through a rule with another pin or with none.
\<close>

theorem sip_call_needs_pin:
  assumes "slice_sort sort_Slice" "MatchDispatchRule sort_Slice trunk rules req = Inr info"
    and "EvaluateDispatchRule env trunkID info req = Some (Inr resp)" "Result resp = ACCEPT"
  shows "info \<in> set rules \<and> RespRuleId resp = SipDispatchRuleId info \<and>
    (TrunkIds info = [] \<or> (\<exists>t. trunk = Some t \<and> SipTrunkId t \<in> set (TrunkIds info))) \<and>
    (InboundNumbers info = [] \<or> CallingNumber req \<in> set (InboundNumbers info)) \<and>
    (rule_pin info \<noteq> '''' \<longrightarrow> Pin req = rule_pin info) \<and> (Pin req \<noteq> '''' \<and> \<not> NoPin req \<longrightarrow> rule_pin info = Pin req)"
proof -
  have "info \<in> set (specific_rules trunk req rules) \<or> info \<in> set (default_rules req rules)"
    using assms(1,2) SelectDispatchRule_in
    by (fastforce simp: MatchDispatchRule_def split_rules_filter split: if_splits sum.splits option.splits)
  then have "info \<in> set rules" "rule_applies req info" "TrunkIds info = [] \<or> (\<exists>t. trunk = Some t \<and> SipTrunkId t \<in> set (TrunkIds info))"
    by (auto simp: specific_rules_def default_rules_def split: option.splits)
  moreover have "RespRuleId resp = SipDispatchRuleId info" "rule_pin info \<noteq> '''' \<longrightarrow> Pin req = rule_pin info"
    using assms(3,4) by (auto simp: EvaluateDispatchRule_def Let_def rule_pin_def split: option.splits prod.splits if_splits)
  ultimately show ?thesis by (auto simp: rule_applies_def split: if_splits)
qed

theorem sip_call_needs_pin_witness:
  "\<forall>env. \<exists>resp. EvaluateDispatchRule env ''T'' demo_pin demo_call = Some (Inr resp) \<and> RoomName resp = ''board'' \<and>
     demo_pin \<in> set [demo_open, demo_pin] \<and> rule_pin demo_pin = Pin demo_call"
proof
  fix env
  have m: "MatchDispatchRule insertion_sort (Some demo_trunk) [demo_open, demo_pin] demo_call = Inr demo_pin"
    by (simp add: MatchDispatchRule_def split_rules_filter demo_specific demo_selected)
  have g: "GetPinAndRoom demo_pin = (''board'', ''42'', None)" "\<not> HidePhoneNumber demo_pin" "Rule demo_pin = DispatchRuleDirect ''board'' ''42''" "Pin demo_call = ''42''"
    by (simp_all add: GetPinAndRoom_def demo_defs)
  have "\<exists>resp. EvaluateDispatchRule env ''T'' demo_pin demo_call = Some (Inr resp) \<and> Result resp = ACCEPT \<and> RoomName resp = ''board''"
    by (simp add: EvaluateDispatchRule_def Let_def g)
  then obtain resp where e: "EvaluateDispatchRule env ''T'' demo_pin demo_call = Some (Inr resp)" "Result resp = ACCEPT" "RoomName resp = ''board''" by blast
  have "Pin demo_call \<noteq> '''' \<and> \<not> NoPin demo_call" by (simp add: demo_call_def)
  with sip_call_needs_pin [OF insertion.slice_sort_axioms m e(1,2)] e(1,3)
  show "\<exists>resp. EvaluateDispatchRule env ''T'' demo_pin demo_call = Some (Inr resp) \<and> RoomName resp = ''board'' \<and>
     demo_pin \<in> set [demo_open, demo_pin] \<and> rule_pin demo_pin = Pin demo_call"
    by blast
qed

text \<open>
  C25. A set of dispatch rules that passes validation never conflicts on a call. Rules for the trunk of the call come before those for every trunk; among the rules that apply
  the one chosen has the best priority and, among equals, the least room name, whatever order \<open>sort.Slice\<close> leaves equal elements in; no rule is chosen exactly when none applies.
\<close>

theorem sip_best_rule_chosen:
  assumes "slice_sort sort_Slice" "ValidateDispatchRules rules = None"
    and "cands = (if specific_rules trunk req rules \<noteq> [] then specific_rules trunk req rules else default_rules req rules)"
  shows "if cands = [] then MatchDispatchRule sort_Slice trunk rules req = Inl (ErrNoDispatchMatched (rules = []) (trunk = None) (CalledNumber req))
    else \<exists>best. MatchDispatchRule sort_Slice trunk rules req = Inr best \<and> best \<in> set cands \<and> (\<forall>r \<in> set cands. \<not> rule_less r best)"
proof -
  have sel: "specific_rules trunk req rules \<noteq> [] \<Longrightarrow> \<exists>best. SelectDispatchRule sort_Slice (specific_rules trunk req rules) = Inr (Some best) \<and>
       best \<in> set (specific_rules trunk req rules) \<and> (\<forall>r \<in> set (specific_rules trunk req rules). \<not> rule_less r best)"
    "default_rules req rules \<noteq> [] \<Longrightarrow> \<exists>best. SelectDispatchRule sort_Slice (default_rules req rules) = Inr (Some best) \<and>
       best \<in> set (default_rules req rules) \<and> (\<forall>r \<in> set (default_rules req rules). \<not> rule_less r best)"
    using SelectDispatchRule_ok [OF assms(1) ValidateDispatchRules_filter [OF assms(2)]]
    unfolding specific_rules_def default_rules_def by blast+
  have none: "SelectDispatchRule sort_Slice [] = Inr None" by (simp add: SelectDispatchRule_def)
  have "rules = [] \<Longrightarrow> specific_rules trunk req rules = [] \<and> default_rules req rules = []" by (simp add: specific_rules_def default_rules_def)
  then show ?thesis using sel assms(3) none by (auto simp: MatchDispatchRule_def split_rules_filter)
qed

theorem sip_best_rule_chosen_witness:
  "\<exists>best. MatchDispatchRule insertion_sort (Some demo_trunk) [demo_open, demo_pin] demo_call = Inr best \<and> best \<in> set [demo_pin] \<and>
     (\<forall>r \<in> set [demo_pin]. \<not> rule_less r best)"
proof -
  have v: "ValidateDispatchRules [demo_open, demo_pin] = None"
    by (simp add: ValidateDispatchRules_def GetPinAndRoom_def rule_keys_def demo_defs)
  from sip_best_rule_chosen [OF insertion.slice_sort_axioms v refl, of "Some demo_trunk" demo_call] show ?thesis by (simp add: demo_specific)
qed

text \<open>
  C26. \<open>MatchTrunk\<close> decides as its specification does: among the trunks that allow the caller's number and address, one that has the called number wins if there is just one
  such number; with more than one the call is refused with an error; without one the only trunk that has no numbers is taken, two or more of those are refused with an error,
  and with none of them the result is no trunk and no error.
\<close>

theorem match_trunk_exact:
  "MatchTrunk net trunks srcIP calling called =
     choose_trunk called (numbered net srcIP calling called trunks) (unnumbered net srcIP calling trunks)"
  unfolding MatchTrunk_def by (subst match_trunks_choose [of 0 "[]"]) (simp_all add: as_list_def)

text \<open>A rule that hides the phone number makes the dispatch panic for a caller without a number.\<close>

lemma hidden_number_None: "hidden_number n = None \<longleftrightarrow> n = []"
  by (cases n) (auto simp: hidden_number_def Let_def)

lemma hidden_number_panics:
  "EvaluateDispatchRule env trunkID rule req = None \<longleftrightarrow> HidePhoneNumber rule \<and> CallingNumber req = ''''"
  using hidden_number_None [of "CallingNumber req"]
  by (cases "hidden_number (CallingNumber req)") (auto simp: EvaluateDispatchRule_def Let_def split: prod.splits option.splits if_splits)

text \<open>Two trunks with the same number, written with and without the plus sign, pass validation and then conflict on every call to that number.\<close>

lemma validated_trunks_conflict:
  assumes "n \<noteq> ''''" "hd n \<noteq> CHR ''+''"
  defines "t \<equiv> \<lambda>i num. \<lparr>SipTrunkId = i, Numbers = [num], AllowedAddresses = [], AllowedNumbers = []\<rparr>"
  shows "ValidateTrunks [t i n, t j (CHR ''+'' # n)] = None"
    and "MatchTrunk net [t i n, t j (CHR ''+'' # n)] srcIP calling n = Inl (ErrMultipleTrunks n)"
proof -
  have "n \<noteq> CHR ''+'' # n" by simp
  then show "ValidateTrunks [t i n, t j (CHR ''+'' # n)] = None"
    by (simp add: ValidateTrunks_def validateTrunkInbound_def t_def)
  show "MatchTrunk net [t i n, t j (CHR ''+'' # n)] srcIP calling n = Inl (ErrMultipleTrunks n)"
    using assms(1,2) by (simp add: MatchTrunk_def t_def matchNumbers_def matchAddrMasks_def normalizeNumber_def)
qed

end
