(* ===== verification/AccessGrants.thy ===== *)
theory AccessGrants
  imports Prelude
begin

text \<open>
  The access tokens of \<open>livekit-protocol/auth\<close>: grants and permissions of a participant (\<open>grants.go\<close>), the token that carries them (\<open>accesstoken.go\<close>) and
  its verification (\<open>verifier.go\<close>). Pointers to optional values are options. The JSON Web Token package is a record of functions with its laws in a
  locale; the encoded token has a type of its own.
\<close>

section \<open>Grants\<close>

datatype TrackSource = UNKNOWN | CAMERA | MICROPHONE | SCREEN_SHARE | SCREEN_SHARE_AUDIO | OtherSource int

datatype ParticipantKind = STANDARD | INGRESS | EGRESS | SIP_KIND | AGENT | OtherKind int

record VideoGrant =
  RoomCreate :: bool
  RoomList :: bool
  RoomRecord :: bool
  RoomAdmin :: bool
  RoomJoin :: bool
  Room :: string
  RoomConfiguration :: string
  CanPublish :: "bool option"
  CanSubscribe :: "bool option"
  CanPublishData :: "bool option"
  CanPublishSources :: "string list"
  CanUpdateOwnMetadata :: "bool option"
  IngressAdmin :: bool
  Hidden :: bool
  Recorder :: bool
  Agent :: bool

record SIPGrant =
  sip_Admin :: bool
  sip_Call :: bool

record ClaimGrants =
  Identity :: string
  Name :: string
  Kind :: string
  Video :: "VideoGrant option"
  SIP :: "SIPGrant option"
  Sha256 :: string
  Metadata :: string
  Attributes :: "string \<rightharpoonup> string"

record ParticipantPermission =
  pp_CanSubscribe :: bool
  pp_CanPublish :: bool
  pp_CanPublishData :: bool
  pp_CanPublishSources :: "TrackSource list"
  pp_Hidden :: bool
  pp_Recorder :: bool
  pp_CanUpdateMetadata :: bool
  pp_Agent :: bool

text \<open>The names of the protocol buffer enumerations in lower case; a number without a name is printed in decimal.\<close>

fun sourceToString :: "TrackSource \<Rightarrow> string" where
  "sourceToString UNKNOWN = ''unknown''"
| "sourceToString CAMERA = ''camera''"
| "sourceToString MICROPHONE = ''microphone''"
| "sourceToString SCREEN_SHARE = ''screen_share''"
| "sourceToString SCREEN_SHARE_AUDIO = ''screen_share_audio''"
| "sourceToString (OtherSource n) = itoa n"

definition sourceToProto :: "string \<Rightarrow> TrackSource" where
  "sourceToProto s =
     (if s = ''camera'' then CAMERA
      else if s = ''microphone'' then MICROPHONE
      else if s = ''screen_share'' then SCREEN_SHARE
      else if s = ''screen_share_audio'' then SCREEN_SHARE_AUDIO
      else UNKNOWN)"

fun kindFromProto :: "ParticipantKind \<Rightarrow> string" where
  "kindFromProto STANDARD = ''standard''"
| "kindFromProto INGRESS = ''ingress''"
| "kindFromProto EGRESS = ''egress''"
| "kindFromProto SIP_KIND = ''sip''"
| "kindFromProto AGENT = ''agent''"
| "kindFromProto (OtherKind n) = itoa n"

definition kindToProto :: "string \<Rightarrow> ParticipantKind" where
  "kindToProto s =
     (if s = '''' \<or> s = ''standard'' then STANDARD
      else if s = ''ingress'' then INGRESS
      else if s = ''egress'' then EGRESS
      else if s = ''sip'' then SIP_KIND
      else if s = ''agent'' then AGENT
      else STANDARD)"

definition SetParticipantKind :: "ParticipantKind \<Rightarrow> ClaimGrants \<Rightarrow> ClaimGrants" where
  "SetParticipantKind k c = c\<lparr>Kind := kindFromProto k\<rparr>"

definition GetParticipantKind :: "ClaimGrants \<Rightarrow> ParticipantKind" where
  "GetParticipantKind c = kindToProto (Kind c)"

definition SetCanPublish :: "bool \<Rightarrow> VideoGrant \<Rightarrow> VideoGrant" where
  "SetCanPublish val v = v\<lparr>CanPublish := Some val\<rparr>"

definition SetCanPublishData :: "bool \<Rightarrow> VideoGrant \<Rightarrow> VideoGrant" where
  "SetCanPublishData val v = v\<lparr>CanPublishData := Some val\<rparr>"

definition SetCanSubscribe :: "bool \<Rightarrow> VideoGrant \<Rightarrow> VideoGrant" where
  "SetCanSubscribe val v = v\<lparr>CanSubscribe := Some val\<rparr>"

definition SetCanPublishSources :: "TrackSource list \<Rightarrow> VideoGrant \<Rightarrow> VideoGrant" where
  "SetCanPublishSources sources v = v\<lparr>CanPublishSources := map sourceToString sources\<rparr>"

definition SetCanUpdateOwnMetadata :: "bool \<Rightarrow> VideoGrant \<Rightarrow> VideoGrant" where
  "SetCanUpdateOwnMetadata val v = v\<lparr>CanUpdateOwnMetadata := Some val\<rparr>"

definition GetCanPublish :: "VideoGrant \<Rightarrow> bool" where
  "GetCanPublish v = (case CanPublish v of None \<Rightarrow> True | Some b \<Rightarrow> b)"

definition GetCanPublishSource :: "VideoGrant \<Rightarrow> TrackSource \<Rightarrow> bool" where
  "GetCanPublishSource v source =
     (if \<not> GetCanPublish v then False
      else if CanPublishSources v = [] then True
      else list_ex (\<lambda>s. s = sourceToString source) (CanPublishSources v))"

definition GetCanPublishSources :: "VideoGrant \<Rightarrow> TrackSource list" where
  "GetCanPublishSources v = map sourceToProto (CanPublishSources v)"

definition GetCanPublishData :: "VideoGrant \<Rightarrow> bool" where
  "GetCanPublishData v = (case CanPublishData v of None \<Rightarrow> GetCanPublish v | Some b \<Rightarrow> b)"

definition GetCanSubscribe :: "VideoGrant \<Rightarrow> bool" where
  "GetCanSubscribe v = (case CanSubscribe v of None \<Rightarrow> True | Some b \<Rightarrow> b)"

definition GetCanUpdateOwnMetadata :: "VideoGrant \<Rightarrow> bool" where
  "GetCanUpdateOwnMetadata v = (case CanUpdateOwnMetadata v of None \<Rightarrow> False | Some b \<Rightarrow> b)"

definition MatchesPermission :: "VideoGrant \<Rightarrow> ParticipantPermission option \<Rightarrow> bool" where
  "MatchesPermission v permission =
     (case permission of
        None \<Rightarrow> False
      | Some p \<Rightarrow>
          if GetCanPublish v \<noteq> pp_CanPublish p then False
          else if GetCanPublishData v \<noteq> pp_CanPublishData p then False
          else if GetCanSubscribe v \<noteq> pp_CanSubscribe p then False
          else if GetCanUpdateOwnMetadata v \<noteq> pp_CanUpdateMetadata p then False
          else if Hidden v \<noteq> pp_Hidden p then False
          else if Recorder v \<noteq> pp_Recorder p then False
          else if Agent v \<noteq> pp_Agent p then False
          else GetCanPublishSources v = pp_CanPublishSources p)"

definition UpdateFromPermission :: "ParticipantPermission option \<Rightarrow> VideoGrant \<Rightarrow> VideoGrant" where
  "UpdateFromPermission permission v =
     (case permission of
        None \<Rightarrow> v
      | Some p \<Rightarrow>
          (SetCanUpdateOwnMetadata (pp_CanUpdateMetadata p) (SetCanSubscribe (pp_CanSubscribe p)
            (SetCanPublishSources (pp_CanPublishSources p) (SetCanPublishData (pp_CanPublishData p) (SetCanPublish (pp_CanPublish p) v)))))
          \<lparr>Hidden := pp_Hidden p, Recorder := pp_Recorder p, Agent := pp_Agent p\<rparr>)"

definition ToPermission :: "VideoGrant \<Rightarrow> ParticipantPermission" where
  "ToPermission v =
     \<lparr>pp_CanSubscribe = GetCanSubscribe v, pp_CanPublish = GetCanPublish v, pp_CanPublishData = GetCanPublishData v,
      pp_CanPublishSources = GetCanPublishSources v, pp_Hidden = Hidden v, pp_Recorder = Recorder v,
      pp_CanUpdateMetadata = GetCanUpdateOwnMetadata v, pp_Agent = Agent v\<rparr>"

section \<open>Tokens\<close>

record AccessToken =
  at_apiKey :: string
  at_secret :: string
  at_grant :: ClaimGrants
  at_validFor :: duration

definition no_grant :: ClaimGrants where
  "no_grant = \<lparr>Identity = '''', Name = '''', Kind = '''', Video = None, SIP = None, Sha256 = '''', Metadata = '''', Attributes = Map.empty\<rparr>"

definition NewAccessToken :: "string \<Rightarrow> string \<Rightarrow> AccessToken" where
  "NewAccessToken key secret = \<lparr>at_apiKey = key, at_secret = secret, at_grant = no_grant, at_validFor = 0\<rparr>"

definition at_SetIdentity :: "string \<Rightarrow> AccessToken \<Rightarrow> AccessToken" where
  "at_SetIdentity identity t = t\<lparr>at_grant := (at_grant t)\<lparr>Identity := identity\<rparr>\<rparr>"

definition at_SetValidFor :: "duration \<Rightarrow> AccessToken \<Rightarrow> AccessToken" where
  "at_SetValidFor d t = t\<lparr>at_validFor := d\<rparr>"

definition at_SetName :: "string \<Rightarrow> AccessToken \<Rightarrow> AccessToken" where
  "at_SetName name t = t\<lparr>at_grant := (at_grant t)\<lparr>Name := name\<rparr>\<rparr>"

definition at_SetKind :: "ParticipantKind \<Rightarrow> AccessToken \<Rightarrow> AccessToken" where
  "at_SetKind kind t = t\<lparr>at_grant := SetParticipantKind kind (at_grant t)\<rparr>"

definition at_AddGrant :: "VideoGrant option \<Rightarrow> AccessToken \<Rightarrow> AccessToken" where
  "at_AddGrant grant t = t\<lparr>at_grant := (at_grant t)\<lparr>Video := grant\<rparr>\<rparr>"

definition at_AddSIPGrant :: "SIPGrant option \<Rightarrow> AccessToken \<Rightarrow> AccessToken" where
  "at_AddSIPGrant grant t = t\<lparr>at_grant := (at_grant t)\<lparr>SIP := grant\<rparr>\<rparr>"

definition at_SetMetadata :: "string \<Rightarrow> AccessToken \<Rightarrow> AccessToken" where
  "at_SetMetadata md t = t\<lparr>at_grant := (at_grant t)\<lparr>Metadata := md\<rparr>\<rparr>"

definition at_SetAttributes :: "(string \<rightharpoonup> string) \<Rightarrow> AccessToken \<Rightarrow> AccessToken" where
  "at_SetAttributes attrs t = t\<lparr>at_grant := (at_grant t)\<lparr>Attributes := Attributes (at_grant t) ++ attrs\<rparr>\<rparr>"

definition at_SetSha256 :: "string \<Rightarrow> AccessToken \<Rightarrow> AccessToken" where
  "at_SetSha256 sha t = t\<lparr>at_grant := (at_grant t)\<lparr>Sha256 := sha\<rparr>\<rparr>"

text \<open>The registered claims and the token package: a signer for a secret, parsing, the claims before and after the check of the signature, and their validation.
  Times count nanoseconds; \<open>jw_date\<close> is \<open>NewNumericDate\<close>, which counts seconds.\<close>

record jwt_claims =
  Issuer :: string
  Subject :: string
  ClaimID :: string
  NotBefore :: int
  Expiry :: int

record ('raw, 'tok) jwt =
  jw_date :: "int \<Rightarrow> int"
  jw_sign :: "string \<Rightarrow> jwt_claims \<Rightarrow> ClaimGrants \<Rightarrow> 'raw option"
  jw_parse :: "'raw \<Rightarrow> 'tok option"
  jw_unsafe :: "'tok \<Rightarrow> jwt_claims option"
  jw_claims :: "'tok \<Rightarrow> string \<Rightarrow> (jwt_claims \<times> ClaimGrants) option"
  jw_validate :: "jwt_claims \<Rightarrow> string \<Rightarrow> int \<Rightarrow> bool"

datatype auth_error = ErrKeysMissing | ErrJWT

text \<open>The clock is read twice.\<close>

definition ToJWT :: "('raw, 'tok) jwt \<Rightarrow> int \<Rightarrow> int \<Rightarrow> AccessToken \<Rightarrow> auth_error + 'raw" where
  "ToJWT lib now now2 t =
     (if at_apiKey t = '''' \<or> at_secret t = '''' then Inl ErrKeysMissing
      else let validFor = (if at_validFor t > 0 then at_validFor t else 6 * hour);
               cl = \<lparr>Issuer = at_apiKey t, Subject = Identity (at_grant t), ClaimID = '''', NotBefore = jw_date lib now, Expiry = jw_date lib (now2 + validFor)\<rparr>
           in case jw_sign lib (at_secret t) cl (at_grant t) of None \<Rightarrow> Inl ErrJWT | Some raw \<Rightarrow> Inr raw)"

record 'tok APIKeyTokenVerifier =
  v_token :: 'tok
  v_identity :: string
  v_apiKey :: string

definition ParseAPIToken :: "('raw, 'tok) jwt \<Rightarrow> 'raw \<Rightarrow> auth_error + 'tok APIKeyTokenVerifier" where
  "ParseAPIToken lib raw =
     (case jw_parse lib raw of
        None \<Rightarrow> Inl ErrJWT
      | Some tok \<Rightarrow>
          (case jw_unsafe lib tok of
             None \<Rightarrow> Inl ErrJWT
           | Some out \<Rightarrow>
               Inr \<lparr>v_token = tok, v_identity = (if Subject out = '''' then ClaimID out else Subject out), v_apiKey = Issuer out\<rparr>))"

definition Verify :: "('raw, 'tok) jwt \<Rightarrow> int \<Rightarrow> 'tok APIKeyTokenVerifier \<Rightarrow> string \<Rightarrow> auth_error + ClaimGrants" where
  "Verify lib now v key =
     (if key = '''' then Inl ErrKeysMissing
      else case jw_claims lib (v_token v) key of
             None \<Rightarrow> Inl ErrJWT
           | Some (out, claims) \<Rightarrow>
               if \<not> jw_validate lib out (v_apiKey v) now then Inl ErrJWT else Inr (claims\<lparr>Identity := v_identity v\<rparr>))"

section \<open>Tokens for services\<close>

definition no_video :: VideoGrant where
  "no_video =
     \<lparr>RoomCreate = False, RoomList = False, RoomRecord = False, RoomAdmin = False, RoomJoin = False, Room = '''', RoomConfiguration = '''',
      CanPublish = None, CanSubscribe = None, CanPublishData = None, CanPublishSources = [], CanUpdateOwnMetadata = None,
      IngressAdmin = False, Hidden = False, Recorder = False, Agent = False\<rparr>"

definition BuildEgressToken :: "('raw, 'tok) jwt \<Rightarrow> int \<Rightarrow> int \<Rightarrow> string \<Rightarrow> string \<Rightarrow> string \<Rightarrow> string \<Rightarrow> auth_error + 'raw" where
  "BuildEgressToken lib now now2 egressID apiKey secret roomName =
     ToJWT lib now now2
       (at_SetValidFor (24 * hour) (at_SetKind EGRESS (at_SetIdentity egressID
         (at_AddGrant (Some (no_video\<lparr>RoomJoin := True, Room := roomName, CanSubscribe := Some True, CanPublish := Some False, CanPublishData := Some False,
            Hidden := True, Recorder := True\<rparr>)) (NewAccessToken apiKey secret)))))"

definition BuildIngressToken :: "('raw, 'tok) jwt \<Rightarrow> int \<Rightarrow> int \<Rightarrow> string \<Rightarrow> string \<Rightarrow> string \<Rightarrow> string \<Rightarrow> string \<Rightarrow> string \<Rightarrow> auth_error + 'raw" where
  "BuildIngressToken lib now now2 apiKey secret roomName participantIdentity participantName participantMetadata =
     ToJWT lib now now2
       (at_SetMetadata participantMetadata (at_SetValidFor (24 * hour) (at_SetKind INGRESS (at_SetName participantName (at_SetIdentity participantIdentity
         (at_AddGrant (Some (no_video\<lparr>RoomJoin := True, Room := roomName, CanSubscribe := Some False, CanPublish := Some True\<rparr>))
            (NewAccessToken apiKey secret)))))))"

definition BuildSIPToken :: "('raw, 'tok) jwt \<Rightarrow> int \<Rightarrow> int \<Rightarrow> string \<Rightarrow> string \<Rightarrow> string \<Rightarrow> string \<Rightarrow> string \<Rightarrow> string \<Rightarrow> (string \<rightharpoonup> string) \<Rightarrow> auth_error + 'raw" where
  "BuildSIPToken lib now now2 apiKey secret roomName participantIdentity participantName participantMeta participantAttrs =
     ToJWT lib now now2
       (at_SetValidFor (24 * hour) (at_SetKind SIP_KIND (at_SetAttributes participantAttrs (at_SetMetadata participantMeta (at_SetName participantName
         (at_SetIdentity participantIdentity
           (at_AddGrant (Some (no_video\<lparr>RoomJoin := True, Room := roomName, CanSubscribe := Some True, CanPublish := Some True, CanPublishData := Some True,
              CanUpdateOwnMetadata := Some True\<rparr>)) (NewAccessToken apiKey secret))))))))"

section \<open>Permissions\<close>

definition named_source :: "TrackSource \<Rightarrow> bool" where
  "named_source s \<longleftrightarrow> (\<forall>n. s \<noteq> OtherSource n)"

lemma source_back: "named_source s \<Longrightarrow> sourceToProto (sourceToString s) = s"
  by (cases s) (auto simp: named_source_def sourceToProto_def)

lemma source_inject: "named_source s \<Longrightarrow> named_source r \<Longrightarrow> sourceToString s = sourceToString r \<longleftrightarrow> s = r"
  using source_back by metis

lemma sources_back: "\<forall>s \<in> set ss. named_source s \<Longrightarrow> map sourceToProto (map sourceToString ss) = ss"
  by (induction ss) (auto simp: source_back)

lemma kind_back: "(\<And>n. k \<noteq> OtherKind n) \<Longrightarrow> GetParticipantKind (SetParticipantKind k c) = k"
  by (cases k) (auto simp: GetParticipantKind_def SetParticipantKind_def kindToProto_def)

lemmas grant_defs = UpdateFromPermission_def SetCanUpdateOwnMetadata_def SetCanSubscribe_def SetCanPublishSources_def SetCanPublishData_def SetCanPublish_def
  GetCanPublish_def GetCanPublishData_def GetCanSubscribe_def GetCanUpdateOwnMetadata_def GetCanPublishSources_def

text \<open>A grant that was updated from a permission has exactly that permission, and publishing is allowed for the sources it names.\<close>

lemma permission_back:
  assumes "\<forall>s \<in> set (pp_CanPublishSources p). named_source s"
  shows "ToPermission (UpdateFromPermission (Some p) v) = p" "MatchesPermission (UpdateFromPermission (Some p) v) (Some p)"
    "named_source s \<Longrightarrow> GetCanPublishSource (UpdateFromPermission (Some p) v) s \<longleftrightarrow>
       pp_CanPublish p \<and> (pp_CanPublishSources p = [] \<or> s \<in> set (pp_CanPublishSources p))"
  using sources_back [OF assms] assms source_inject
  by (auto simp: ToPermission_def MatchesPermission_def GetCanPublishSource_def grant_defs list_ex_iff)

lemma matches_own_permission: "MatchesPermission v (Some p) \<longleftrightarrow> p = ToPermission v"
  by (cases p) (auto simp: MatchesPermission_def ToPermission_def)

section \<open>Tokens come back\<close>

text \<open>
  What the code relies on of the token package: a signed token that is parsed has its claims, which are returned for the key it was signed with; the payload is not
  encrypted, so every key under which the signature is accepted gives the same claims; the claims are valid for the right issuer from the start to the end of their
  time, and not more than a minute outside of it. The identity is not part of the encoded grants. \<open>plain\<close> tells which grants the encoding returns unchanged.
  Which other keys accept a signature is the package's affair: nothing is assumed about it.
\<close>

locale jwt_package =
  fixes lib :: "('raw, 'tok) jwt" and plain :: "ClaimGrants \<Rightarrow> bool"
  assumes signed: "jw_sign lib k cl g = Some raw \<Longrightarrow> plain g \<Longrightarrow>
      \<exists>tok. jw_parse lib raw = Some tok \<and> jw_unsafe lib tok = Some cl \<and> jw_claims lib tok k = Some (cl, g\<lparr>Identity := ''''\<rparr>)"
    and payload: "jw_claims lib tok k = Some x \<Longrightarrow> jw_claims lib tok k' = Some y \<Longrightarrow> x = y"
    and valid: "NotBefore cl \<le> jw_date lib now \<Longrightarrow> jw_date lib now \<le> Expiry cl \<Longrightarrow> jw_validate lib cl (Issuer cl) now"
    and invalid: "Expiry cl + 60 < jw_date lib now \<or> jw_date lib now + 60 < NotBefore cl \<Longrightarrow> \<not> jw_validate lib cl iss now"
    and date_mono: "a \<le> b \<Longrightarrow> jw_date lib a \<le> jw_date lib b"
begin

lemma token_back:
  assumes jwt: "ToJWT lib now now2 t = Inr raw" and g: "plain (at_grant t)"
  defines "ends \<equiv> now2 + (if at_validFor t > 0 then at_validFor t else 6 * hour)"
  shows "\<exists>v. ParseAPIToken lib raw = Inr v \<and> v_apiKey v = at_apiKey t \<and>
    (\<forall>time. now \<le> time \<and> time \<le> ends \<longrightarrow> Verify lib time v (at_secret t) = Inr (at_grant t)) \<and>
    (\<forall>time key. jw_claims lib (v_token v) key = None \<or> jw_date lib ends + 60 < jw_date lib time \<or> jw_date lib time + 60 < jw_date lib now \<longrightarrow>
       (\<exists>e. Verify lib time v key = Inl e)) \<and>
    (\<forall>time key g. Verify lib time v key = Inr g \<longrightarrow> g = at_grant t)"
proof -
  define cl where "cl = \<lparr>Issuer = at_apiKey t, Subject = Identity (at_grant t), ClaimID = '''', NotBefore = jw_date lib now, Expiry = jw_date lib ends\<rparr>"
  have sign: "jw_sign lib (at_secret t) cl (at_grant t) = Some raw" and key: "at_secret t \<noteq> ''''"
    using jwt by (auto simp: ToJWT_def Let_def cl_def ends_def split: if_splits option.splits)
  from signed [OF sign g] obtain tok where tok: "jw_parse lib raw = Some tok" "jw_unsafe lib tok = Some cl"
    "jw_claims lib tok (at_secret t) = Some (cl, (at_grant t)\<lparr>Identity := ''''\<rparr>)" by blast
  define v where "v = \<lparr>v_token = tok, v_identity = Identity (at_grant t), v_apiKey = at_apiKey t\<rparr>"
  have "ParseAPIToken lib raw = Inr v" using tok by (simp add: ParseAPIToken_def v_def cl_def)
  moreover have "Verify lib time v (at_secret t) = Inr (at_grant t)" if "now \<le> time" "time \<le> ends" for time
    using valid [of cl time] date_mono [OF that(1)] date_mono [OF that(2)] tok key by (simp add: Verify_def v_def cl_def)
  moreover have "\<exists>e. Verify lib time v k = Inl e"
    if "jw_claims lib (v_token v) k = None \<or> jw_date lib ends + 60 < jw_date lib time \<or> jw_date lib time + 60 < jw_date lib now" for time k
    using that invalid [of cl time] payload [OF tok(3), of k] by (cases "jw_claims lib tok k") (auto simp: Verify_def v_def cl_def)
  moreover have "g = at_grant t" if "Verify lib time v k = Inr g" for time k g
    using that payload [OF tok(3), of k] by (auto simp: Verify_def v_def split: if_splits option.splits)
  ultimately show ?thesis by (auto simp: v_def)
qed

end

text \<open>What a verified token of a recorder allows: to join the room and listen, and not to publish anything.\<close>

lemma egress_token_listens_only:
  assumes "jwt_package lib plain" "\<And>g. plain g" "BuildEgressToken lib now now2 egressID apiKey secret roomName = Inr raw"
    and "now \<le> time" "time \<le> now2 + 24 * hour"
  shows "\<exists>v g vg. ParseAPIToken lib raw = Inr v \<and> Verify lib time v secret = Inr g \<and> Identity g = egressID \<and> GetParticipantKind g = EGRESS \<and> Video g = Some vg \<and>
    RoomJoin vg \<and> Room vg = roomName \<and> GetCanSubscribe vg \<and> Hidden vg \<and> \<not> GetCanPublishData vg \<and> (\<forall>s. \<not> GetCanPublishSource vg s)"
proof -
  let ?vg = "no_video\<lparr>RoomJoin := True, Room := roomName, CanSubscribe := Some True, CanPublish := Some False, CanPublishData := Some False,
    Hidden := True, Recorder := True\<rparr>"
  define t where "t = at_SetValidFor (24 * hour) (at_SetKind EGRESS (at_SetIdentity egressID (at_AddGrant (Some ?vg) (NewAccessToken apiKey secret))))"
  have t: "at_secret t = secret" "at_validFor t = 24 * hour" "Identity (at_grant t) = egressID" "Kind (at_grant t) = ''egress''" "Video (at_grant t) = Some ?vg"
    by (simp_all add: t_def at_SetValidFor_def at_SetKind_def at_SetIdentity_def at_AddGrant_def NewAccessToken_def SetParticipantKind_def)
  have "ToJWT lib now now2 t = Inr raw" using assms(3) by (simp add: BuildEgressToken_def t_def)
  from jwt_package.token_back [OF assms(1) this assms(2)] assms(4,5) t(1,2) obtain v where
    v: "ParseAPIToken lib raw = Inr v" "Verify lib time v secret = Inr (at_grant t)" by auto
  have "GetParticipantKind (at_grant t) = EGRESS" by (simp add: GetParticipantKind_def kindToProto_def t)
  moreover have "GetCanSubscribe ?vg \<and> \<not> GetCanPublishData ?vg \<and> (\<forall>s. \<not> GetCanPublishSource ?vg s)" by (simp add: grant_defs GetCanPublishSource_def)
  ultimately show ?thesis using v t(3,5) by (intro exI [of _ v] exI [of _ "at_grant t"] exI [of _ ?vg]) simp
qed

text \<open>A package in which a token is the signed data itself.\<close>

type_synonym plain_token = "string \<times> jwt_claims \<times> ClaimGrants"

definition plain_jwt :: "(plain_token, plain_token) jwt" where
  "plain_jwt =
     \<lparr>jw_date = (\<lambda>t. t div 1000000000), jw_sign = (\<lambda>k cl g. Some (k, cl, g\<lparr>Identity := ''''\<rparr>)), jw_parse = Some, jw_unsafe = (\<lambda>(_, cl, _). Some cl),
      jw_claims = (\<lambda>(k, cl, g) key. if key = k then Some (cl, g) else None),
      jw_validate = (\<lambda>cl iss now. Issuer cl = iss \<and> now div 1000000000 \<le> Expiry cl + 60 \<and> NotBefore cl \<le> now div 1000000000 + 60)\<rparr>"

interpretation plain: jwt_package plain_jwt "\<lambda>_. True"
  by unfold_locales (auto simp: plain_jwt_def zdiv_mono1 split: if_splits)

text \<open>
  C27. A token that \<open>ToJWT\<close> has made carries its grants and nothing else: parsing it shows the key of its issuer, verifying it with the secret it was signed with returns
  exactly the grants that were put in, with the identity, for the whole time of its validity (six hours unless set). Verifying it with a key under which the package does not
  accept the signature is an error, and so is verifying it, with any key, more than a minute after it has expired or before it starts; no key and no time give other grants.
\<close>

theorem access_token_roundtrip:
  assumes "jwt_package lib plain" "plain (at_grant t)" "ToJWT lib now now2 t = Inr raw"
    and "ends = now2 + (if at_validFor t > 0 then at_validFor t else 6 * hour)"
  shows "\<exists>v. ParseAPIToken lib raw = Inr v \<and> v_apiKey v = at_apiKey t \<and>
    (\<forall>time. now \<le> time \<and> time \<le> ends \<longrightarrow> Verify lib time v (at_secret t) = Inr (at_grant t)) \<and>
    (\<forall>time key. jw_claims lib (v_token v) key = None \<or> jw_date lib ends + 60 < jw_date lib time \<or> jw_date lib time + 60 < jw_date lib now \<longrightarrow>
       (\<exists>e. Verify lib time v key = Inl e)) \<and>
    (\<forall>time key g. Verify lib time v key = Inr g \<longrightarrow> g = at_grant t)"
  using jwt_package.token_back [OF assms(1,3,2)] assms(4) by simp

theorem access_token_roundtrip_witness:
  "\<exists>v. ParseAPIToken plain_jwt (''secret'', \<lparr>Issuer = ''key'', Subject = ''me'', ClaimID = '''', NotBefore = 1, Expiry = 11\<rparr>, no_grant) = Inr v \<and>
     Verify plain_jwt 5000000000 v ''secret'' = Inr (no_grant\<lparr>Identity := ''me''\<rparr>)"
proof -
  let ?t = "at_SetValidFor (10 * second) (at_SetIdentity ''me'' (NewAccessToken ''key'' ''secret''))"
  have t: "ToJWT plain_jwt 1000000000 1000000000 ?t =
      Inr (''secret'', \<lparr>Issuer = ''key'', Subject = ''me'', ClaimID = '''', NotBefore = 1, Expiry = 11\<rparr>, no_grant)"
    by (simp add: ToJWT_def at_SetValidFor_def at_SetIdentity_def NewAccessToken_def plain_jwt_def no_grant_def)
  have g: "at_grant ?t = no_grant\<lparr>Identity := ''me''\<rparr>" "at_secret ?t = ''secret''" "at_validFor ?t = 10 * second"
    by (simp_all add: at_SetValidFor_def at_SetIdentity_def NewAccessToken_def)
  from access_token_roundtrip [OF plain.jwt_package_axioms _ t refl] show ?thesis unfolding g by auto
qed

end
