(* ===== verification/Spec2Isabelle.thy ===== *)
theory Spec2Isabelle
  imports TurnServer TurnClient TurnStream TransportReplay WebrtcMux WebrtcOperations WebrtcCodecs JitterBuffer WebsocketStream
    IceNomination SampleDelivery SipDispatch AccessGrants
begin

text \<open>
  A verification library for the networking code of this repository, a publisher and a subscriber of media that
  reach a LiveKit server over an OpenZiti overlay. The two programs (\<open>publisher/main.go\<close>,
  \<open>subscriber/main.go\<close>) are thin; their behaviour is that of the forked libraries under \<open>lib/\<close>, which are what
  is modelled here.

  \<^bold>\<open>The parts and how they interact.\<close> A media connection is negotiated by a peer connection (\<open>lib/pion-webrtc\<close>): it
  exchanges session descriptions, runs its asynchronous steps through an operations queue, and tells the packets of
  one socket apart with a demultiplexer whose endpoints queue them in packet buffers (\<open>lib/pion-transport/packetio\<close>).
  Encrypted packets are guarded by a replay detector (\<open>lib/pion-transport/replaydetector\<close>). Which path the packets take is
  settled by the ICE agents of the two sides (\<open>lib/pion-ice\<close>), which check pairs of candidate addresses and nominate one. Where no direct path
  exists the packets go through a TURN relay (\<open>lib/pion-turn\<close>): a client that allocates a relay address, permits peers and
  binds channels, and a server that authenticates requests and forwards data. Received media packets are put in order by
  the jitter buffer of the SDK (\<open>lib/livekit-server-sdk/pkg/jitter\<close>) or, in the subscriber, put in order and cut into frames by its sample
  builder (\<open>pkg/samplebuilder\<close>). Participants join with signed access tokens, and phone calls are let in by dispatch rules (\<open>lib/livekit-protocol\<close>).

  \<^bold>\<open>Theories and sources.\<close>
  \<^item> \<open>Prelude\<close>: machine types, big-endian access to byte slices, decimal printing, and the interfaces shared by
    the components as locales. \<open>guarded_system\<close> (an operation with a result on a state that keeps an invariant),
    \<open>unfailing_system\<close> (one that in addition never panics), \<open>keyed_store\<close> (lookup after insert and delete), \<open>wire_codec\<close>
    (attributes that are added to and read from a message), \<open>fifo_queue\<close> (a queue refining a list) and \<open>lockstep\<close> (an
    implementation that answers as its specification does). Each is interpreted on the definitions of the components.
  \<^item> \<open>GoNet\<close>: \<open>net.IP\<close>, \<open>net.Addr\<close> and \<open>internal/ipnet\<close>.
  \<^item> \<open>TurnProto\<close>: \<open>internal/proto\<close>. A STUN message is a list of typed attributes and a few header fields, since the STUN
    package is not part of the repository; ChannelData is modelled down to its bytes.
  \<^item> \<open>TurnAllocation\<close>: \<open>internal/allocation\<close>. The manager is a record with a store of allocation objects and the table of
    five-tuples pointing into it, because handlers keep pointers to allocations that have been deleted. Timers are
    operations that may fire at any time while they are armed.
  \<^item> \<open>TurnServer\<close>: \<open>internal/server\<close>. \<open>HandleRequest\<close> takes a request record with the datagram and everything the handlers ask the
    environment for (time, random numbers, hashes, the outcome of socket calls), and a server state with an outbox.
  \<^item> \<open>TurnBinding\<close>, \<open>TurnTransaction\<close>, \<open>TurnUDPConn\<close>, \<open>TurnTCP\<close>, \<open>TurnClient\<close>, \<open>TurnStream\<close>: \<open>internal/client\<close>, \<open>client.go\<close> and \<open>stun_conn.go\<close>.
    The connection threads a state with its tables, the answers that its next transactions will get and the datagrams it has sent.
  \<^item> \<open>TransportBuffer\<close>: \<open>packetio/buffer.go\<close>, the ring of bytes with head and tail, its growth and its limits.
  \<^item> \<open>TransportReplay\<close>: \<open>replaydetector\<close>, the bit mask on 64-bit words and the two detectors.
  \<^item> \<open>WebrtcMux\<close>: \<open>internal/mux\<close>, over the packet buffer of \<open>TransportBuffer\<close>.
  \<^item> \<open>WebrtcOperations\<close>: \<open>operations.go\<close>, an inductive step relation whose steps are the critical sections of the callers
    and of the worker.
  \<^item> \<open>WebrtcSignaling\<close>: the offer/answer machine of \<open>peerconnection.go\<close> and the files around it.
  \<^item> \<open>WebrtcCodecs\<close>: \<open>mediaengine.go\<close>, \<open>rtpcodec.go\<close> and \<open>internal/fmtp\<close>, the registration and the negotiation of codecs and header extensions.
  \<^item> \<open>JitterBuffer\<close>: \<open>pkg/jitter/buffer.go\<close>, the doubly linked list as a list of packet cells and the pool of recycled cells.
  \<^item> \<open>SampleBuilder\<close>: \<open>pkg/samplebuilder/samplebuilder.go\<close> and the loop of the subscriber that uses it. A nil pointer that is followed, an index out of range and a
    loop that does not end are the result \<open>None\<close>. \<open>SampleRing\<close> relates the circular array to a list, \<open>SampleFrames\<close> has the invariant and shows that every branch of
    \<open>Push\<close> keeps it, \<open>SampleDelivery\<close> has the results.
  \<^item> \<open>WebsocketMask\<close>, \<open>WebsocketConn\<close>, \<open>WebsocketStream\<close>: \<open>mask.go\<close>, \<open>mask_safe.go\<close> and \<open>conn.go\<close> of \<open>lib/websocket\<close>, over which the SDK talks to
    the server: masking on machine words, the writing and the reading half of a connection, and the frames between them.
  \<^item> \<open>IceCandidate\<close>: the candidates of \<open>lib/pion-ice\<close>, their constructors, priorities and text form, and candidate pairs.
  \<^item> \<open>IceAgent\<close>: \<open>agent.go\<close> and \<open>selection.go\<close>. Candidates and pairs are pointers in the code and indices into two heaps here; the tasks of the agent's
    loop are the operations of \<open>ice_step\<close>. \<open>IceInvariant\<close> has the invariant, \<open>IceValidity\<close> what it takes to confirm and select a pair, \<open>IceNomination\<close> two
    agents with a network between them.
  \<^item> \<open>SipDispatch\<close>: \<open>sip/sip.go\<close> of \<open>lib/livekit-protocol\<close>, with \<open>sort.Slice\<close> as the locale \<open>slice_sort\<close>.
  \<^item> \<open>AccessGrants\<close>: \<open>auth\<close> and the token builders of \<open>lib/livekit-protocol\<close>, over the token package as the locale \<open>jwt_package\<close>.
  \<^item> This theory: properties that span the TURN client and the TURN server.

  \<^bold>\<open>What the theorems show.\<close> End to end, data written by the client reaches the bound peer unchanged and the
  peer's data reaches the reader. On the server no datagram changes state without authentication, a client
  touches only its own allocation, data leaves only towards permitted peers, and channels are one-to-one with peers. On the client the channel table is a bijection until its
  numbers run out, transactions follow their schedule, end, and in no interleaving of their goroutines use a closed channel, a stale nonce costs one
  repetition, and a byte stream is cut back into the frames that were sent. The packet buffer refines a queue of
  packets and its writes return; the replay detector, with a window its mask covers, agrees with a specification that remembers every number; each packet
  reaches the endpoint of its kind; queued operations run one at a time and in order; descriptions follow the state
  diagram of the standard and media sections are paired one-to-one with transceivers, and the codecs in use are ones that both sides have; the jitter buffer restores
  the sequence order of what follows its first packet and delivers no gaps; the sample builder, as long as a packet is not too far ahead, never panics, passes the consistency check of its
  source and hands out whole frames, and a stream without losses passes it complete; what one side of a WebSocket sends the other reads back. An ICE agent takes a pair for valid only on an
  authenticated answer to its own check, its selected pair fits its connection state in every run, pairs without answers fail after a bounded number of
  checks, and a nomination makes both agents select the same path. A call is let into a room only by a rule for its trunk, number and
  pin, validated rules never conflict, and a token returns the grants it was made with and no others. The wire formats have round trips. Theorems of kind error pin down places where the
  code does not do what its comments say; the manifest lists them as findings.

  \<^bold>\<open>Bounds and loops.\<close> All definitions are total. Integers have the width of the source wherever they can wrap (\<open>word\<close>); Go's
  \<open>int\<close> is \<open>int\<close> or \<open>nat\<close> where it counts bytes or elements of a slice. Loops are recursive functions with a measure; the
  growth loop of the packet buffer and the copying loop of the WebSocket writer, which could run for ever for a bad size, answer
  \<open>None\<close> if they did and are proved to return, as are the loops of the sample builder. No fuel is used. A blocking call is an answer \<open>Blocked\<close> of the model, and a Go panic an error value.

  \<^bold>\<open>Not modelled.\<close> Sockets, TLS, hashing and random numbers are arguments. Packages that are not in the repository (STUN
  encoding, RTP, SDP text, SCTP, DTLS, the OpenZiti SDK) are parameters where a component needs them. Generated code
  (protocol buffers, Twirp clients), logging, statistics and the start-up code of the programs are left out. In
  the modelled packages the setters of deadlines and the methods that only forward to another object have no definition.

  Of \<open>lib/pion-ice\<close> the gathering of candidates, the shared sockets and multicast DNS are left out.
\<close>

section \<open>From the client to the peer and back\<close>

lemma write_on_channel:
  assumes "UDPConn_WriteTo p dst c = (Inr n, c')" and "last (out c') = OutRaw raw"
    and "bnd_findByAddr (bindingMgr c) dst = Some b"
  shows "raw = Raw (cd_Encode (new_ChannelData (number (bindings (bindingMgr c) ! b)) p))"
proof -
  obtain c1 where perm: "ensurePermission dst c = (None, c1)"
    using assms(1) by (auto simp: UDPConn_WriteTo_def split: net_addr.splits prod.splits option.splits)
  with ensurePermission_more [of dst c] have bm: "bindingMgr c1 = bindingMgr c"
    using more_fields by (metis snd_conv)
  have "write_bound p dst b c1 = (Inr n, c')"
    using assms(1,3) perm bm by (auto simp: UDPConn_WriteTo_def split: net_addr.splits)
  from write_bound_path [OF this] assms(2) bm show ?thesis by auto
qed

text \<open>
  C2. What the application writes to the relayed connection arrives at the peer: when the client sends data for a peer on
  a channel and the server's allocation for this client binds the same number to the same peer, the server
  writes exactly these bytes, without header and padding, to that peer from the client's relay socket, and changes nothing
  else.
\<close>

theorem uplink_end_to_end:
  assumes "UDPConn_WriteTo p dst c = (Inr n, c')" and "last (out c') = OutRaw (Buff r)"
    and "bnd_findByAddr (bindingMgr c) dst = Some b" and "length p < 65536"
    and "isChannelNumberValid (number (bindings (bindingMgr c) ! b))"
    and "GetAllocation (s_Manager s) (request_tuple r) = Some i"
    and "GetChannelByNumber (objs (s_Manager s) ! i) (number (bindings (bindingMgr c) ! b)) = Some j"
    and "Peer (channelBindings (objs (s_Manager s) ! i) ! j) = dst"
    and "relay_WriteTo r (RelaySocket (objs (s_Manager s) ! i)) p dst = (length p, None)"
  shows "HandleRequest r s = (None, s\<lparr>outbox := outbox s @ [ToPeer (RelaySocket (objs (s_Manager s) ! i)) p dst]\<rparr>)"
proof -
  let ?num = "number (bindings (bindingMgr c) ! b)"
  have raw: "Buff r = Raw (cd_Encode (new_ChannelData ?num p))" by (rule write_on_channel [OF assms(1,2,3)])
  from channel_data_back [of "new_ChannelData ?num p" "raw_ChannelData []"] assms(4,5) obtain d where
    d: "cd_Decode (raw_ChannelData (Buff r)) = (d, None)" "Number d = ?num" "Data d = p" by (auto simp: raw)
  then have "IsChannelData (Buff r)" by (auto simp: cd_Decode_eq IsChannelData_eq split: if_splits)
  with d assms(6-9) show ?thesis
    by (simp add: HandleRequest_def handleDataPacket_def handleChannelData_def Let_def)
qed

text \<open>
  C3. What a peer sends arrives at the application: a datagram of a peer bound to a channel is wrapped by the relay loop of the
  server, and the client that receives the wrapped packet hands it to the reader of the relayed connection,
  unchanged up to the 1600 bytes the server reads, together with the address the client bound that channel to.
\<close>

theorem downlink_end_to_end:
  assumes "packetHandler_step build_ok a (Inr (datagram, peer)) = RelayChannelData raw client"
    and "GetChannelByAddr a peer = Some j" and "isChannelNumberValid (cb_Number (channelBindings a ! j))"
    and "\<not> cl_IsMessage L raw" and "relayedConn c = Some u"
    and "FindAddrByChannelNumber (cb_Number (channelBindings a ! j)) u = Some from"
    and "readCh u = []" and "deadline u = None" and "\<not> closeCh u" and "1600 \<le> len"
  shows "\<exists>u'. Client_HandleInbound L raw server c = Some ((True, None), c\<lparr>relayedConn := Some u'\<rparr>)
     \<and> UDPConn_ReadFrom pick len u' = Some (Inr (take 1600 datagram, from), u)"
proof -
  let ?num = "cb_Number (channelBindings a ! j)"
  have raw: "raw = Raw (cd_Encode (new_ChannelData ?num (take 1600 datagram)))"
    using assms(1,2) by (auto simp: packetHandler_step_def rtpMTU_def Let_def)
  have "length (take 1600 datagram) < 65536" by (simp add: min_def)
  with channel_data_back [of "new_ChannelData ?num (take 1600 datagram)" "raw_ChannelData []"] assms(3) obtain d where
    d: "cd_Decode (raw_ChannelData raw) = (d, None)" "Number d = ?num" "Data d = take 1600 datagram"
    unfolding raw by fastforce
  from inbound_channel_data [OF assms(4) d(1) assms(5), of "from" server] d assms(6)
    queued_data_read [OF assms(7-9), of "take 1600 datagram" len pick "from"] assms(10)
  show ?thesis by auto
qed


abbreviation demo_peer :: net_addr where "demo_peer \<equiv> UDPAddr [10, 0, 0, 9] 80 []"

abbreviation demo_bound_conn :: UDPConn where
  "demo_bound_conn \<equiv> (demo_conn [])\<lparr>
     al_permMap := \<lparr>perms = [\<lparr>perm_addr = Some demo_peer, perm_st = permStatePermitted\<rparr>], permMap = [(FingerprintAddr demo_peer, 0)]\<rparr>,
     bindingMgr := \<lparr>bindings = [\<lparr>number = 0x4000, st = bindingStateReady, addr = demo_peer, refreshedAt = 0\<rparr>],
       chanMap = [(0x4000, 0)], addrMap = [(addr_String demo_peer, 0)], next_number = 0x4001\<rparr>\<rparr>"

abbreviation demo_bound_alloc :: Allocation where
  "demo_bound_alloc \<equiv> demo_allocation\<lparr>channelBindings := [\<lparr>Peer = demo_peer, cb_Number = 0x4000, cb_lifetimeTimer = NotArmed\<rparr>]\<rparr>"

abbreviation demo_bound_server :: server where
  "demo_bound_server \<equiv> demo_allocated\<lparr>s_Manager := (s_Manager demo_allocated)\<lparr>objs := [demo_bound_alloc]\<rparr>\<rparr>"

theorem uplink_end_to_end_witness:
  "HandleRequest (demo_request demo_client (Raw (cd_Encode (new_ChannelData 0x4000 [1, 2, 3]))) (ClassRequest, MethodBinding, [])) demo_bound_server
     = (None, demo_bound_server\<lparr>outbox := outbox demo_bound_server @ [ToPeer 4 [1, 2, 3] demo_peer]\<rparr>)"
proof -
  let ?r = "demo_request demo_client (Raw (cd_Encode (new_ChannelData 0x4000 [1, 2, 3]))) (ClassRequest, MethodBinding, [])"
  have wr: "UDPConn_WriteTo [1, 2, 3] demo_peer demo_bound_conn =
      (Inr 3, demo_bound_conn\<lparr>out := [OutRaw (Raw (cd_Encode (new_ChannelData 0x4000 [1, 2, 3])))]\<rparr>)"
    by (simp add: UDPConn_WriteTo_def ensurePermission_def perm_find_def maxRetryAttempts_def numeral_3_eq_3
        createPermission_def perm_state_def bnd_findByAddr_def write_bound_def bnd_state_def bnd_refreshedAt_def
        sendChannelData_def conn_eval Let_def)
  have valid: "isChannelNumberValid 0x4000" by code_simp
  have found: "bnd_findByAddr (bindingMgr demo_bound_conn) demo_peer = Some 0"
    "GetAllocation (s_Manager demo_bound_server) (request_tuple ?r) = Some 0"
    "GetChannelByNumber (objs (s_Manager demo_bound_server) ! 0) 0x4000 = Some 0"
    by (simp_all add: bnd_findByAddr_def GetAllocation_def request_tuple_def GetChannelByNumber_def)
  have relay: "relay_WriteTo ?r (RelaySocket (objs (s_Manager demo_bound_server) ! 0)) [1, 2, 3] demo_peer = (length [1, 2, 3 :: byte], None)"
    "Peer (channelBindings (objs (s_Manager demo_bound_server) ! 0) ! 0) = demo_peer"
    "number (bindings (bindingMgr demo_bound_conn) ! 0) = 0x4000"
    by simp_all
  have buff: "last (out (demo_bound_conn\<lparr>out := [OutRaw (Raw (cd_Encode (new_ChannelData 0x4000 [1, 2, 3])))]\<rparr>)) = OutRaw (Buff ?r)"
    by simp
  have num: "isChannelNumberValid (number (bindings (bindingMgr demo_bound_conn) ! 0))"
    "GetChannelByNumber (objs (s_Manager demo_bound_server) ! 0) (number (bindings (bindingMgr demo_bound_conn) ! 0)) = Some 0"
    by (simp_all only: relay(3) valid found(3))
  have len: "length [1, 2, 3 :: byte] < 65536" and sock: "RelaySocket (objs (s_Manager demo_bound_server) ! 0) = 4"
    by simp_all
  from uplink_end_to_end [OF wr buff found(1) len num(1) found(2) num(2) relay(2,1)] show ?thesis
    by (simp only: sock)
qed

theorem downlink_end_to_end_witness:
  "\<exists>u' c. Client_HandleInbound list_client_lib (Raw (cd_Encode (new_ChannelData 0x4000 [7, 8]))) (OtherAddr ''server'') c =
       Some ((True, None), c\<lparr>relayedConn := Some u'\<rparr>)
     \<and> UDPConn_ReadFrom 0 1600 u' = Some (Inr ([7, 8], demo_peer), demo_bound_conn)"
proof -
  let ?raw = "Raw (cd_Encode (new_ChannelData 0x4000 [7, 8]))"
  have "AddrEqual demo_peer demo_peer" by (simp add: ip_Equal_def)
  then have chan: "GetChannelByAddr demo_bound_alloc demo_peer = Some 0" by (simp add: GetChannelByAddr_def)
  then have relay: "packetHandler_step True demo_bound_alloc (Inr ([7, 8], demo_peer)) = RelayChannelData ?raw demo_client"
    by (simp add: packetHandler_step_def rtpMTU_def Let_def)
  have valid: "isChannelNumberValid (cb_Number (channelBindings demo_bound_alloc ! 0))" by simp code_simp
  have no: "\<not> cl_IsMessage list_client_lib ?raw" by (simp add: list_client_lib_def list_stun_lib_def stun_lib.defs)
  have addr: "FindAddrByChannelNumber (cb_Number (channelBindings demo_bound_alloc ! 0)) demo_bound_conn = Some demo_peer"
    by (simp add: FindAddrByChannelNumber_def bnd_findByNumber_def)
  have q: "readCh demo_bound_conn = []" "deadline demo_bound_conn = None" "\<not> closeCh demo_bound_conn"
    by (simp_all add: conn_eval)
  have conn: "relayedConn (demo_client_state demo_bound_conn) = Some demo_bound_conn" by simp
  have cut: "take 1600 [7, 8 :: byte] = [7, 8]" by simp
  note down = downlink_end_to_end [OF relay chan valid no conn addr q order_refl, unfolded cut, where server = "OtherAddr ''server''" and pick = 0]
  from down obtain u' where
    "Client_HandleInbound list_client_lib ?raw (OtherAddr ''server'') (demo_client_state demo_bound_conn) =
       Some ((True, None), demo_client_state demo_bound_conn \<lparr>relayedConn := Some u'\<rparr>)"
    "UDPConn_ReadFrom 0 1600 u' = Some (Inr ([7, 8], demo_peer), demo_bound_conn)" by (elim exE conjE)
  then show ?thesis by blast
qed

end
